(* ===== verification/Prelude.thy ===== *)
theory Prelude
  imports Complex_Main "HOL-Library.AList" "HOL-Library.Multiset"
begin

text \<open>
  Shared vocabulary of the development.

  \<^item> Python dictionaries keep insertion order, and several components rely on it (the first key
    of the authentication cache is the one evicted, the retrieval indexes are scanned in insertion
    order).  A dictionary is therefore an association list; assigning to a present key keeps its
    place, assigning to a new key appends.
  \<^item> \<open>collections.deque(maxlen=m)\<close> is a list together with \<open>deque_append\<close>.
  \<^item> \<open>datetime\<close> values have microsecond resolution and exact arithmetic: they are integers counting
    microseconds.  \<open>time.time()\<close> and \<open>time.monotonic()\<close> are floating-point seconds: they are exact
    rationals (rounding is not modelled, see the header of the root theory).
  \<^item> Exceptions are the left values of a sum.
\<close>

named_theorems dict_simps \<open>rewriting of dictionary updates and lookups\<close>
named_theorems deque_simps \<open>facts on bounded deques\<close>

section \<open>Dictionaries with insertion order\<close>

type_synonym ('k, 'v) dict = "('k \<times> 'v) list"

definition dict_get :: "('k, 'v) dict \<Rightarrow> 'k \<Rightarrow> 'v option" where
  "dict_get d k = map_of d k"

definition dict_set :: "'k \<Rightarrow> 'v \<Rightarrow> ('k, 'v) dict \<Rightarrow> ('k, 'v) dict" where
  "dict_set k v d = AList.update k v d"

definition dict_del :: "'k \<Rightarrow> ('k, 'v) dict \<Rightarrow> ('k, 'v) dict" where
  "dict_del k d = filter (\<lambda>p. fst p \<noteq> k) d"

definition dict_keys :: "('k, 'v) dict \<Rightarrow> 'k list" where
  "dict_keys d = map fst d"

definition dict_ok :: "('k, 'v) dict \<Rightarrow> bool" where
  "dict_ok d \<longleftrightarrow> distinct (map fst d)"

lemma dict_get_nil [simp, dict_simps]: "dict_get [] k = None"
  by (simp add: dict_get_def)

lemma dict_get_set [simp, dict_simps]:
  "dict_get (dict_set k v d) k' = (if k' = k then Some v else dict_get d k')"
  by (simp add: dict_get_def dict_set_def update_conv')

lemma map_of_filter_neq: "map_of (filter (\<lambda>p. fst p \<noteq> k) d) k' = (if k' = k then None else map_of d k')"
  by (induction d) auto

lemma dict_get_del [simp, dict_simps]:
  "dict_get (dict_del k d) k' = (if k' = k then None else dict_get d k')"
  by (simp add: dict_get_def dict_del_def map_of_filter_neq)

lemma dict_get_mem: "dict_get d k = Some v \<Longrightarrow> (k, v) \<in> set d"
  by (simp add: dict_get_def map_of_SomeD)

lemma dict_get_None_iff: "dict_get d k = None \<longleftrightarrow> k \<notin> fst ` set d"
  by (simp add: dict_get_def map_of_eq_None_iff)

lemma dict_mem_get: "dict_ok d \<Longrightarrow> (k, v) \<in> set d \<Longrightarrow> dict_get d k = Some v"
  by (simp add: dict_ok_def dict_get_def)

lemma dict_mem_iff: "dict_ok d \<Longrightarrow> (k, v) \<in> set d \<longleftrightarrow> dict_get d k = Some v"
  by (auto intro: dict_mem_get dict_get_mem)

lemma dict_ok_nil [simp, intro]: "dict_ok []"
  by (simp add: dict_ok_def)

lemma dict_ok_set [intro]: "dict_ok d \<Longrightarrow> dict_ok (dict_set k v d)"
  by (simp add: dict_ok_def dict_set_def distinct_update)

lemma dict_ok_del [intro]: "dict_ok d \<Longrightarrow> dict_ok (dict_del k d)"
  by (simp add: dict_ok_def dict_del_def distinct_map_filter)

lemma dict_set_new: "dict_get d k = None \<Longrightarrow> dict_set k v d = d @ [(k, v)]"
  by (induction d) (auto simp: dict_get_def dict_set_def split: if_splits)

lemma fst_dict_set: "fst ` set (dict_set k v d) = insert k (fst ` set d)"
  by (simp add: dict_set_def dom_update)

lemma length_dict_set:
  "length (dict_set k v d) = (if dict_get d k = None then Suc (length d) else length d)"
  by (induction d) (auto simp: dict_set_def dict_get_def)

lemma dict_set_mem: "p \<in> set (dict_set k v d) \<Longrightarrow> p = (k, v) \<or> p \<in> set d"
  by (induction d) (auto simp: dict_set_def split: if_splits)

lemma dict_keys_set_old:
  "dict_get d k \<noteq> None \<Longrightarrow> dict_keys (dict_set k v d) = dict_keys d"
  by (induction d) (auto simp: dict_set_def dict_get_def dict_keys_def)

section \<open>Bounded deques\<close>

definition deque_append :: "nat \<Rightarrow> 'a list \<Rightarrow> 'a \<Rightarrow> 'a list" where
  "deque_append m xs x = drop (Suc (length xs) - m) (xs @ [x])"

lemma length_deque_append [simp, deque_simps]:
  "length (deque_append m xs x) = min m (Suc (length xs))"
  by (simp add: deque_append_def)

lemma deque_append_room [deque_simps]: "length xs < m \<Longrightarrow> deque_append m xs x = xs @ [x]"
  by (simp add: deque_append_def)

lemma deque_append_full [deque_simps]:
  "length xs = m \<Longrightarrow> 0 < m \<Longrightarrow> deque_append m xs x = tl xs @ [x]"
  by (cases xs) (auto simp: deque_append_def)

lemma set_deque_append: "set (deque_append m xs x) \<subseteq> insert x (set xs)"
  by (auto simp: deque_append_def dest: in_set_dropD)

lemma last_deque_append: "0 < m \<Longrightarrow> last (deque_append m xs x) = x"
  by (simp add: deque_append_def)

lemma distinct_deque_append: "distinct xs \<Longrightarrow> x \<notin> set xs \<Longrightarrow> distinct (deque_append m xs x)"
  by (auto simp: deque_append_def simp flip: drop_append dest: in_set_dropD)

definition deque_extend :: "nat \<Rightarrow> 'a list \<Rightarrow> 'a list \<Rightarrow> 'a list" where
  "deque_extend m xs ys = fold (\<lambda>y acc. deque_append m acc y) ys xs"

lemma deque_append_recent:
  "deque_append m (drop (length zs - m) zs) y = drop (Suc (length zs) - m) (zs @ [y])"
proof (cases "length zs < m")
  case True
  then show ?thesis by (simp add: deque_append_def)
next
  case False
  then show ?thesis by (simp add: deque_append_def Suc_diff_le)
qed

text \<open>A bounded deque filled one item at a time holds exactly the last \<open>m\<close> items offered.\<close>

lemma deque_extend_recent:
  "deque_extend m (drop (length zs - m) zs) ys = drop (length (zs @ ys) - m) (zs @ ys)"
proof (induction ys arbitrary: zs)
  case Nil
  then show ?case by (simp add: deque_extend_def)
next
  case (Cons y ys)
  have "deque_extend m (drop (length zs - m) zs) (y # ys)
      = deque_extend m (drop (length (zs @ [y]) - m) (zs @ [y])) ys"
    using deque_append_recent [of m zs y] by (simp add: deque_extend_def)
  also have "\<dots> = drop (length ((zs @ [y]) @ ys) - m) ((zs @ [y]) @ ys)"
    by (rule Cons.IH)
  finally show ?case by simp
qed

section \<open>Results\<close>

definition is_err :: "'e + 'a \<Rightarrow> bool" where
  "is_err r = (case r of Inl _ \<Rightarrow> True | Inr _ \<Rightarrow> False)"

lemma is_err_simps [simp]: "is_err (Inl e)" "\<not> is_err (Inr x)"
  by (simp_all add: is_err_def)

section \<open>Times\<close>

type_synonym datetime = int
type_synonym seconds = rat

definition us_per_second :: int where
  "us_per_second = 1000000"

definition seconds_us :: "int \<Rightarrow> int" where
  "seconds_us s = s * us_per_second"

definition hours_us :: "int \<Rightarrow> int" where
  "hours_us h = seconds_us (h * 3600)"

definition days_us :: "int \<Rightarrow> int" where
  "days_us d = seconds_us (d * 86400)"

lemma seconds_us_mono: "a \<le> b \<Longrightarrow> seconds_us a \<le> seconds_us b"
  by (simp add: seconds_us_def us_per_second_def)

lemma days_us_pos: "0 < d \<Longrightarrow> 0 < days_us d"
  by (simp add: days_us_def seconds_us_def us_per_second_def)

section \<open>Clamping\<close>

definition clamp :: "'a::linorder \<Rightarrow> 'a \<Rightarrow> 'a \<Rightarrow> 'a" where
  "clamp lo hi x = max lo (min hi x)"

lemma clamp_bounds: "lo \<le> hi \<Longrightarrow> lo \<le> clamp lo hi x \<and> clamp lo hi x \<le> hi"
  by (simp add: clamp_def)

lemma clamp_id: "lo \<le> x \<Longrightarrow> x \<le> hi \<Longrightarrow> clamp lo hi x = x"
  by (simp add: clamp_def)

section \<open>Stable sorting\<close>

lemma filter_sort_key_stable:
  "filter (\<lambda>x. f x = k) (sort_key f xs) = filter (\<lambda>x. f x = k) xs"
  by (rule sort_key_stable)

lemma sort_key_id_if_sorted: "sorted (map f xs) \<Longrightarrow> sort_key f xs = xs"
  by (induction xs) (auto simp: insort_is_Cons)

text \<open>
  A key that separates the elements makes the sorted list depend on the multiset of the inputs
  only, not on the order in which they were collected.
\<close>

lemma sort_key_inj_cong:
  assumes "inj_on f (set xs)" and "mset xs = mset ys"
  shows "sort_key f xs = sort_key f ys"
proof (rule properties_for_sort_key)
  show "mset (sort_key f ys) = mset xs"
    using assms(2) by simp
  show "filter (\<lambda>x. f k = f x) (sort_key f ys) = filter (\<lambda>x. f k = f x) xs"
    if "k \<in> set (sort_key f ys)" for k
  proof -
    let ?P = "\<lambda>x. f k = f x"
    have eq: "set ys = set xs" using assms(2) by (metis set_mset_mset)
    have only: "\<And>x. x \<in> set xs \<Longrightarrow> ?P x \<Longrightarrow> x = k"
      using assms(1) that eq by (auto simp: inj_on_def)
    have f1: "filter ?P xs = replicate (length (filter ?P xs)) k"
      by (rule replicate_eqI) (auto dest: only)
    have f2: "filter ?P (sort_key f ys) = replicate (length (filter ?P (sort_key f ys))) k"
      by (rule replicate_eqI) (auto simp: eq dest: only)
    have "mset (filter ?P (sort_key f ys)) = mset (filter ?P xs)"
      using assms(2) by simp
    then have "length (filter ?P (sort_key f ys)) = length (filter ?P xs)"
      by (metis size_mset)
    then show ?thesis using f1 f2 by metis
  qed
  show "sorted (map f (sort_key f ys))" by simp
qed

section \<open>JSON values\<close>

datatype json =
    JNull
  | JBool bool
  | JInt int
  | JReal rat
  | JStr string
  | JList "json list"
  | JObj "(string \<times> json) list"

text \<open>\<open>d.get(k, v)\<close>.\<close>

definition json_get :: "(string, json) dict \<Rightarrow> string \<Rightarrow> json \<Rightarrow> json" where
  "json_get d k v = (case dict_get d k of Some x \<Rightarrow> x | None \<Rightarrow> v)"

definition json_truthy :: "json \<Rightarrow> bool" where
  "json_truthy j = (case j of JNull \<Rightarrow> False | JBool b \<Rightarrow> b | JInt i \<Rightarrow> i \<noteq> 0 | JReal x \<Rightarrow> x \<noteq> 0
     | JStr s \<Rightarrow> s \<noteq> [] | JList l \<Rightarrow> l \<noteq> [] | JObj f \<Rightarrow> f \<noteq> [])"

text \<open>The value of a number or a boolean, the only JSON values that take part in arithmetic.\<close>

definition json_num :: "json \<Rightarrow> rat option" where
  "json_num j = (case j of JInt i \<Rightarrow> Some (of_int i) | JReal x \<Rightarrow> Some x
     | JBool b \<Rightarrow> Some (if b then 1 else 0) | _ \<Rightarrow> None)"

definition json_index :: "json \<Rightarrow> int option" where
  "json_index j = (case j of JInt i \<Rightarrow> Some i | JBool b \<Rightarrow> Some (if b then 1 else 0) | _ \<Rightarrow> None)"

text \<open>What iterating over a JSON value yields: characters, elements, keys; \<open>None\<close> is a \<open>TypeError\<close>.\<close>

definition json_iter :: "json \<Rightarrow> json list option" where
  "json_iter j = (case j of JStr s \<Rightarrow> Some (map (\<lambda>c. JStr [c]) s) | JList l \<Rightarrow> Some l
     | JObj f \<Rightarrow> Some (map (\<lambda>p. JStr (fst p)) f) | _ \<Rightarrow> None)"

text \<open>\<open>xs[:n]\<close> for an integer \<open>n\<close> of either sign.\<close>

definition py_take :: "int \<Rightarrow> 'a list \<Rightarrow> 'a list" where
  "py_take n xs = (if n \<ge> 0 then take (nat n) xs else take (nat (int (length xs) + n)) xs)"

text \<open>\<open>int(x)\<close> on a float: truncation towards zero.\<close>

definition py_trunc :: "rat \<Rightarrow> int" where
  "py_trunc x = (if x \<ge> 0 then \<lfloor>x\<rfloor> else \<lceil>x\<rceil>)"

end
