(* ===== verification/PyStr.thy ===== *)
theory PyStr
  imports Prelude "HOL-Library.Char_ord" "HOL-Library.List_Lexorder"
begin

text \<open>
  The string operations of Python the code uses, on strings whose code points are below 256 (the
  characters of HOL).  Classification and case mapping are those of Python's Unicode tables on that
  range: \<open>isdigit\<close> holds of the superscripts 178, 179 and 185 as well, \<open>isalpha\<close> of the Latin-1
  letters, \<open>isspace\<close> of the separators 28 to 31, 133 and 160.  Comparison of strings is by code
  point, lexicographically.
\<close>

section \<open>Characters\<close>

definition cp :: "char \<Rightarrow> nat" where
  "cp c = of_char c"

definition py_isdigit :: "char \<Rightarrow> bool" where
  "py_isdigit c = (let n = cp c in (48 \<le> n \<and> n \<le> 57) \<or> n = 178 \<or> n = 179 \<or> n = 185)"

definition ascii_digit :: "char \<Rightarrow> bool" where
  "ascii_digit c = (48 \<le> cp c \<and> cp c \<le> 57)"

definition py_isalpha :: "char \<Rightarrow> bool" where
  "py_isalpha c = (let n = cp c in (65 \<le> n \<and> n \<le> 90) \<or> (97 \<le> n \<and> n \<le> 122) \<or> n = 170 \<or> n = 181
     \<or> n = 186 \<or> (192 \<le> n \<and> n \<le> 214) \<or> (216 \<le> n \<and> n \<le> 246) \<or> (248 \<le> n \<and> n \<le> 255))"

definition py_isalnum :: "char \<Rightarrow> bool" where
  "py_isalnum c = (py_isalpha c \<or> py_isdigit c \<or> (188 \<le> cp c \<and> cp c \<le> 190))"

definition py_isspace :: "char \<Rightarrow> bool" where
  "py_isspace c = (let n = cp c in (9 \<le> n \<and> n \<le> 13) \<or> (28 \<le> n \<and> n \<le> 32) \<or> n = 133 \<or> n = 160)"

definition lower_char :: "char \<Rightarrow> char" where
  "lower_char c = (let n = cp c in
     if (65 \<le> n \<and> n \<le> 90) \<or> (192 \<le> n \<and> n \<le> 214) \<or> (216 \<le> n \<and> n \<le> 222)
     then char_of (n + 32) else c)"

section \<open>Whole strings\<close>

definition py_lower :: "string \<Rightarrow> string" where
  "py_lower s = map lower_char s"

definition py_lstrip :: "string \<Rightarrow> string" where
  "py_lstrip s = dropWhile py_isspace s"

definition py_rstrip :: "string \<Rightarrow> string" where
  "py_rstrip s = rev (dropWhile py_isspace (rev s))"

definition py_strip :: "string \<Rightarrow> string" where
  "py_strip s = py_rstrip (py_lstrip s)"

definition starts_with :: "string \<Rightarrow> string \<Rightarrow> bool" where
  "starts_with s p = (take (length p) s = p)"

definition ends_with :: "string \<Rightarrow> string \<Rightarrow> bool" where
  "ends_with s p = (length p \<le> length s \<and> drop (length s - length p) s = p)"

text \<open>\<open>find_from s p i\<close> is \<open>s.find(p, i)\<close> for \<open>0 <= i\<close>, with \<open>None\<close> for -1.\<close>

fun find_in :: "string \<Rightarrow> string \<Rightarrow> nat \<Rightarrow> nat option" where
  "find_in [] p i = (if p = [] then Some i else None)"
| "find_in (c # cs) p i = (if starts_with (c # cs) p then Some i else find_in cs p (Suc i))"

definition find_from :: "string \<Rightarrow> string \<Rightarrow> nat \<Rightarrow> nat option" where
  "find_from s p i = (if i \<le> length s then find_in (drop i s) p i else None)"

definition contains :: "string \<Rightarrow> string \<Rightarrow> bool" where
  "contains s p = (find_from s p 0 \<noteq> None)"

text \<open>\<open>s.split(c)\<close> for a one-character separator: always at least one part.\<close>

fun split_on :: "char \<Rightarrow> string \<Rightarrow> string list" where
  "split_on c [] = [[]]"
| "split_on c (x # xs) =
     (if x = c then [] # split_on c xs
      else (case split_on c xs of [] \<Rightarrow> [[x]] | p # ps \<Rightarrow> (x # p) # ps))"

text \<open>\<open>s.split()\<close>: maximal runs of non-blank characters.\<close>

fun split_ws_aux :: "string \<Rightarrow> string \<Rightarrow> string list" where
  "split_ws_aux acc [] = (if acc = [] then [] else [rev acc])"
| "split_ws_aux acc (x # xs) =
     (if py_isspace x then (if acc = [] then split_ws_aux [] xs else rev acc # split_ws_aux [] xs)
      else split_ws_aux (x # acc) xs)"

definition split_ws :: "string \<Rightarrow> string list" where
  "split_ws s = split_ws_aux [] s"

fun join :: "string \<Rightarrow> string list \<Rightarrow> string" where
  "join sep [] = []"
| "join sep [x] = x"
| "join sep (x # y # ys) = x @ sep @ join sep (y # ys)"

text \<open>\<open>s[a:b]\<close> for offsets that are not negative.\<close>

definition slice :: "string \<Rightarrow> nat \<Rightarrow> nat \<Rightarrow> string" where
  "slice s a b = take (b - a) (drop a s)"

section \<open>Decimal rendering of integers\<close>

definition digit_char :: "nat \<Rightarrow> char" where
  "digit_char d = char_of (48 + d)"

fun str_nat :: "nat \<Rightarrow> string" where
  "str_nat n = (if n < 10 then [digit_char n] else str_nat (n div 10) @ [digit_char (n mod 10)])"

declare str_nat.simps [simp del]

definition str_int :: "int \<Rightarrow> string" where
  "str_int i = (if i < 0 then CHR ''-'' # str_nat (nat (- i)) else str_nat (nat i))"

definition digit_val :: "char \<Rightarrow> nat" where
  "digit_val c = cp c - 48"

definition nat_of_digits :: "string \<Rightarrow> nat" where
  "nat_of_digits s = foldl (\<lambda>n c. 10 * n + digit_val c) 0 s"

section \<open>Lemmas\<close>

lemma cp_char_of [simp]: "n < 256 \<Longrightarrow> cp (char_of n) = n"
  by (simp add: cp_def)

lemma cp_less [simp]: "cp c < 256"
  by (simp add: cp_def)

lemma cp_inj: "cp c = cp d \<longleftrightarrow> c = d"
  by (simp add: cp_def)

lemma digit_val_char [simp]: "d < 10 \<Longrightarrow> digit_val (digit_char d) = d"
  by (simp add: digit_val_def digit_char_def)

lemma ascii_digit_digit_char [simp]: "d < 10 \<Longrightarrow> ascii_digit (digit_char d)"
  by (simp add: ascii_digit_def digit_char_def)

lemma ascii_digit_isdigit: "ascii_digit c \<Longrightarrow> py_isdigit c"
  by (simp add: ascii_digit_def py_isdigit_def Let_def)

lemma nat_of_digits_snoc: "nat_of_digits (s @ [c]) = 10 * nat_of_digits s + digit_val c"
  by (simp add: nat_of_digits_def)

lemma nat_of_digits_str_nat [simp]: "nat_of_digits (str_nat n) = n"
proof (induction n rule: str_nat.induct)
  case (1 n)
  show ?case
  proof (cases "n < 10")
    case True
    then show ?thesis by (subst str_nat.simps) (simp add: nat_of_digits_def)
  next
    case False
    with 1 show ?thesis by (subst str_nat.simps) (simp add: nat_of_digits_snoc)
  qed
qed

lemma str_nat_inj: "str_nat m = str_nat n \<longleftrightarrow> m = n"
  by (metis nat_of_digits_str_nat)

lemma str_nat_digits: "c \<in> set (str_nat n) \<Longrightarrow> ascii_digit c"
proof (induction n rule: str_nat.induct)
  case (1 n)
  then show ?case
    by (cases "n < 10") (auto simp: str_nat.simps [of n])
qed

lemma str_nat_nonempty [simp]: "str_nat n \<noteq> []"
  by (subst str_nat.simps) simp

lemma starts_with_nil [simp]: "starts_with s []"
  by (simp add: starts_with_def)

lemma starts_with_iff: "starts_with s p \<longleftrightarrow> (\<exists>r. s = p @ r)"
  by (metis append_eq_conv_conj append_take_drop_id starts_with_def)

lemma find_in_Some: "find_in s p i = Some j \<Longrightarrow> i \<le> j \<and> starts_with (drop (j - i) s) p \<and> j - i \<le> length s"
proof (induction s p i rule: find_in.induct)
  case (1 p i)
  then show ?case by (auto split: if_splits)
next
  case (2 c cs p i)
  show ?case
  proof (cases "starts_with (c # cs) p")
    case True
    with 2 show ?thesis by auto
  next
    case False
    with 2 have "Suc i \<le> j \<and> starts_with (drop (j - Suc i) cs) p \<and> j - Suc i \<le> length cs" by simp
    then show ?thesis by (auto simp: Suc_diff_Suc drop_Cons')
  qed
qed

lemma find_in_first: "find_in s p i = Some j \<Longrightarrow> i \<le> m \<Longrightarrow> m < j \<Longrightarrow> \<not> starts_with (drop (m - i) s) p"
proof (induction s p i rule: find_in.induct)
  case (1 p i)
  then show ?case by (auto split: if_splits)
next
  case (2 c cs p i)
  show ?case
  proof (cases "m = i")
    case True
    with 2 show ?thesis by (auto split: if_splits)
  next
    case False
    with 2 show ?thesis by (auto simp: drop_Cons' split: if_splits)
  qed
qed

lemma find_in_None: "find_in s p i = None \<Longrightarrow> m \<le> length s \<Longrightarrow> \<not> starts_with (drop m s) p"
proof (induction s p i arbitrary: m rule: find_in.induct)
  case (1 p i)
  then show ?case by (auto simp: starts_with_def split: if_splits)
next
  case (2 c cs p i)
  then show ?case by (cases m) (auto split: if_splits)
qed

text \<open>\<open>find_from\<close> is the leftmost occurrence at or after the start position.\<close>

lemma find_from_Some:
  "find_from s p i = Some j \<Longrightarrow> i \<le> j \<and> starts_with (drop j s) p \<and> j \<le> length s"
  by (auto simp: find_from_def dest!: find_in_Some split: if_splits)

lemma find_from_first:
  "find_from s p i = Some j \<Longrightarrow> i \<le> m \<Longrightarrow> m < j \<Longrightarrow> \<not> starts_with (drop m s) p"
  by (auto simp: find_from_def dest!: find_in_first split: if_splits)

lemma find_from_None:
  "find_from s p i = None \<Longrightarrow> i \<le> m \<Longrightarrow> m \<le> length s \<Longrightarrow> \<not> starts_with (drop m s) p"
  using find_in_None [of "drop i s" p i "m - i"] by (auto simp: find_from_def split: if_splits)

lemma find_from_bound: "find_from s p i = Some j \<Longrightarrow> j + length p \<le> length s"
proof -
  assume "find_from s p i = Some j"
  then have "starts_with (drop j s) p" and "j \<le> length s" using find_from_Some by blast+
  then obtain r where "drop j s = p @ r" by (auto simp: starts_with_iff)
  then have "length (drop j s) = length p + length r" by simp
  with \<open>j \<le> length s\<close> show ?thesis by simp
qed

lemma take_slice: "p \<le> a \<Longrightarrow> take a s = take p s @ slice s p a"
  by (simp add: slice_def flip: take_add)

lemma split_on_nonempty [simp]: "split_on c s \<noteq> []"
  by (induction s) (auto split: list.splits)

lemma join_split_on: "join [c] (split_on c s) = s"
proof (induction s)
  case Nil
  then show ?case by simp
next
  case (Cons x xs)
  show ?case
  proof (cases "split_on c xs")
    case Nil
    then show ?thesis by simp
  next
    case (Cons p ps)
    with Cons.IH show ?thesis by (cases ps) auto
  qed
qed

lemma py_strip_nil [simp]: "py_strip [] = []"
  by (simp add: py_strip_def py_lstrip_def py_rstrip_def)

lemma py_strip_id: "v \<noteq> [] \<Longrightarrow> \<not> py_isspace (hd v) \<Longrightarrow> \<not> py_isspace (last v) \<Longrightarrow> py_strip v = v"
proof -
  assume v: "v \<noteq> []" "\<not> py_isspace (hd v)" "\<not> py_isspace (last v)"
  from v(1,2) have l: "py_lstrip v = v" by (cases v) (simp_all add: py_lstrip_def)
  from v(1) obtain xs x where "v = xs @ [x]" by (cases v rule: rev_cases) auto
  with v(3) have "py_rstrip v = v" by (simp add: py_rstrip_def)
  with l show "py_strip v = v" by (simp add: py_strip_def)
qed

lemma length_py_lower [simp]: "length (py_lower s) = length s"
  by (simp add: py_lower_def)

lemma lower_char_idem [simp]: "lower_char (lower_char c) = lower_char c"
proof -
  have "cp c < 256" by simp
  then show ?thesis by (auto simp: lower_char_def Let_def)
qed

lemma py_lower_idem [simp]: "py_lower (py_lower s) = py_lower s"
  by (simp add: py_lower_def)

section \<open>Replacement and UUID parsing\<close>

text \<open>\<open>replace_all old new s\<close> is \<open>s.replace(old, new)\<close> for a non-empty \<open>old\<close>.\<close>

fun replace_aux :: "string \<Rightarrow> string \<Rightarrow> nat \<Rightarrow> string \<Rightarrow> string" where
  "replace_aux old new k [] = []"
| "replace_aux old new (Suc k) (c # s) = replace_aux old new k s"
| "replace_aux old new 0 (c # s) =
     (if starts_with (c # s) old then new @ replace_aux old new (length old - 1) s
      else c # replace_aux old new 0 s)"

definition replace_all :: "string \<Rightarrow> string \<Rightarrow> string \<Rightarrow> string" where
  "replace_all old new s = replace_aux old new 0 s"

definition strip_chars :: "string \<Rightarrow> string \<Rightarrow> string" where
  "strip_chars cs s =
     rev (dropWhile (\<lambda>c. c \<in> set cs) (rev (dropWhile (\<lambda>c. c \<in> set cs) s)))"

definition hex_val :: "char \<Rightarrow> nat option" where
  "hex_val c = (let n = cp c in
     if 48 \<le> n \<and> n \<le> 57 then Some (n - 48)
     else if 97 \<le> n \<and> n \<le> 102 then Some (n - 87)
     else if 65 \<le> n \<and> n \<le> 70 then Some (n - 55) else None)"

text \<open>\<open>int(s, 16)\<close>: blanks around, a sign, a \<open>0x\<close> prefix, single underscores between digits.\<close>

fun hex_body :: "bool \<Rightarrow> nat \<Rightarrow> string \<Rightarrow> nat option" where
  "hex_body after acc [] = (if after then Some acc else None)"
| "hex_body after acc (c # s) =
     (case hex_val c of
        Some v \<Rightarrow> hex_body True (16 * acc + v) s
      | None \<Rightarrow> if c = CHR ''_'' \<and> after then hex_body False acc s else None)"

definition py_int16 :: "string \<Rightarrow> int option" where
  "py_int16 s =
     (let t = py_strip s;
          (sgn, t) = (if starts_with t ''-'' then (- 1, drop 1 t)
                      else if starts_with t ''+'' then (1, drop 1 t) else (1 :: int, t));
          t = (if starts_with t ''0x'' \<or> starts_with t ''0X''
               then (if starts_with (drop 2 t) ''_'' then drop 3 t else drop 2 t) else t)
      in map_option (\<lambda>n. sgn * int n) (hex_body False 0 t))"

text \<open>\<open>uuid.UUID(s)\<close>, as the 128-bit number it denotes; \<open>None\<close> is the \<open>ValueError\<close>.\<close>

definition py_uuid :: "string \<Rightarrow> int option" where
  "py_uuid s =
     (let hex = replace_all ''uuid:'' '''' (replace_all ''urn:'' '''' s);
          hex = replace_all ''-'' '''' (strip_chars ''{}'' hex)
      in if length hex \<noteq> 32 then None
         else (case py_int16 hex of
             None \<Rightarrow> None
           | Some i \<Rightarrow> if 0 \<le> i \<and> i < 2 ^ 128 then Some i else None))"

end
