(* ===== verification/Interfaces.thy ===== *)
theory Interfaces
  imports Prelude
begin

text \<open>
  The contracts several components share, each a locale whose operations are what the clients call
  and whose assumptions are what the providers promise.  Every locale is interpreted on the model of
  the code in the theory of the component that provides it:

  \<^item> \<open>tenant_scoped\<close>: a lookup by identifier and requesting tenant that answers "not found" for a
    missing record, a foreign record and an unusable record alike (sessions, research jobs,
    pipelines);
  \<^item> \<open>ttl_cache\<close>: a cache whose hits are no older than its time to live (the authentication cache,
    the robots.txt cache, the warm search cache);
  \<^item> \<open>audit_sink\<close>: an append-only ledger whose append may fail (the in-memory emitter, the database
    service);
  \<^item> \<open>simulation\<close>: a component whose operations answer as those of an abstract machine seen through
    an abstraction function (the versioned document store, the two stores of the repositories).
\<close>

section \<open>Tenant-scoped lookup\<close>

locale tenant_scoped =
  fixes find_rec :: "'s \<Rightarrow> 'k \<Rightarrow> 'r option"
    and owner :: "'r \<Rightarrow> 't"
    and usable :: "'r \<Rightarrow> bool"
    and get :: "'s \<Rightarrow> 'k \<Rightarrow> 't \<Rightarrow> 'e + 'r"
    and not_found :: "'k \<Rightarrow> 'e"
  assumes get_found: "get s k t = Inr r \<longleftrightarrow> find_rec s k = Some r \<and> owner r = t \<and> usable r"
    and get_error: "get s k t = Inl e \<Longrightarrow> e = not_found k"
begin

lemma get_cases: "get s k t = Inl (not_found k) \<or>
    (\<exists>r. get s k t = Inr r \<and> find_rec s k = Some r \<and> owner r = t \<and> usable r)"
proof (cases "get s k t")
  case (Inl e)
  then show ?thesis by (simp add: get_error [OF Inl])
next
  case (Inr r)
  then show ?thesis by (simp add: get_found [THEN iffD1, OF Inr])
qed

lemma get_missing: "find_rec s k = None \<Longrightarrow> get s k t = Inl (not_found k)"
  using get_cases [of s k t] by fastforce

lemma get_foreign: "find_rec s k = Some r \<Longrightarrow> owner r \<noteq> t \<Longrightarrow> get s k t = Inl (not_found k)"
  using get_cases [of s k t] by fastforce

lemma get_unusable: "find_rec s k = Some r \<Longrightarrow> \<not> usable r \<Longrightarrow> get s k t = Inl (not_found k)"
  using get_cases [of s k t] by fastforce

lemma get_own: "find_rec s k = Some r \<Longrightarrow> owner r = t \<Longrightarrow> usable r \<Longrightarrow> get s k t = Inr r"
  by (simp add: get_found)

text \<open>
  Non-interference: two states that hold the same records for tenant \<open>t\<close> answer every request of
  \<open>t\<close> alike, whatever the other tenants store.
\<close>

lemma get_noninterference:
  assumes "\<And>r. owner r = t \<Longrightarrow> find_rec s k = Some r \<longleftrightarrow> find_rec s' k = Some r"
  shows "get s k t = get s' k t"
proof (cases "\<exists>r. get s k t = Inr r")
  case True
  then obtain r where r: "get s k t = Inr r" by blast
  then have "find_rec s k = Some r \<and> owner r = t \<and> usable r"
    by (rule get_found [THEN iffD1])
  with assms have "get s' k t = Inr r" by (intro get_own) auto
  with r show ?thesis by simp
next
  case False
  then have l: "get s k t = Inl (not_found k)" using get_cases [of s k t] by blast
  have "get s' k t \<noteq> Inr r" for r
  proof
    assume "get s' k t = Inr r"
    then have "find_rec s' k = Some r \<and> owner r = t \<and> usable r"
      by (rule get_found [THEN iffD1])
    with assms have "get s k t = Inr r" by (intro get_own) auto
    with False show False by blast
  qed
  then have "get s' k t = Inl (not_found k)" using get_cases [of s' k t] by blast
  with l show ?thesis by simp
qed

end

section \<open>Caches with a time to live\<close>

text \<open>
  \<open>stamp c k\<close> is the stored value and the time it was stored.  The client sees a history of
  operations, each at the clock reading of its call.
\<close>

datatype ('k, 'v) cache_op = CPut rat 'k 'v | CGet rat 'k | CDrop 'k

locale ttl_cache =
  fixes peek :: "'c \<Rightarrow> rat \<Rightarrow> 'k \<Rightarrow> 'v option"
    and after_get :: "'c \<Rightarrow> rat \<Rightarrow> 'k \<Rightarrow> 'c"
    and put :: "'c \<Rightarrow> rat \<Rightarrow> 'k \<Rightarrow> 'v \<Rightarrow> 'c"
    and drop_key :: "'c \<Rightarrow> 'k \<Rightarrow> 'c"
    and ttl :: "'c \<Rightarrow> rat"
    and stamp :: "'c \<Rightarrow> 'k \<Rightarrow> ('v \<times> rat) option"
  assumes peek_stamp: "peek c now k = Some v \<Longrightarrow> \<exists>s. stamp c k = Some (v, s) \<and> now - s \<le> ttl c"
    and stamp_put: "stamp (put c now k v) k = Some (v, now)"
    and stamp_put_other: "k' \<noteq> k \<Longrightarrow> stamp (put c now k v) k' = Some x \<Longrightarrow> stamp c k' = Some x"
    and stamp_get: "stamp (after_get c now k) k' = Some x \<Longrightarrow> stamp c k' = Some x"
    and stamp_drop: "stamp (drop_key c k) k = None"
    and stamp_drop_other: "k' \<noteq> k \<Longrightarrow> stamp (drop_key c k) k' = Some x \<Longrightarrow> stamp c k' = Some x"
    and ttl_put: "ttl (put c now k v) = ttl c"
    and ttl_get: "ttl (after_get c now k) = ttl c"
    and ttl_drop: "ttl (drop_key c k) = ttl c"
begin

fun step :: "'c \<Rightarrow> ('k, 'v) cache_op \<Rightarrow> 'c" where
  "step c (CPut now k v) = put c now k v"
| "step c (CGet now k) = after_get c now k"
| "step c (CDrop k) = drop_key c k"

definition run :: "'c \<Rightarrow> ('k, 'v) cache_op list \<Rightarrow> 'c" where
  "run c ops = foldl step c ops"

lemma run_snoc: "run c (ops @ [op]) = step (run c ops) op"
  by (simp add: run_def)

lemma ttl_run: "ttl (run c ops) = ttl c"
proof (induction ops rule: rev_induct)
  case Nil
  then show ?case by (simp add: run_def)
next
  case (snoc op ops)
  then show ?case by (cases op) (simp_all add: run_snoc ttl_put ttl_get ttl_drop)
qed

lemma stamp_run:
  assumes "stamp c k = None" and "stamp (run c ops) k = Some (v, s)"
  shows "CPut s k v \<in> set ops"
  using assms(2)
proof (induction ops arbitrary: v s rule: rev_induct)
  case Nil
  with assms(1) show ?case by (simp add: run_def)
next
  case (snoc op ops)
  show ?case
  proof (cases op)
    case (CPut t k' v')
    show ?thesis
    proof (cases "k' = k")
      case True
      with snoc.prems CPut show ?thesis by (simp add: run_snoc stamp_put)
    next
      case False
      with snoc.prems CPut have "stamp (run c ops) k = Some (v, s)"
        by (auto simp: run_snoc intro: stamp_put_other)
      with snoc.IH show ?thesis by simp
    qed
  next
    case (CGet t k')
    with snoc have "stamp (run c ops) k = Some (v, s)"
      by (auto simp: run_snoc intro: stamp_get)
    with snoc.IH show ?thesis by simp
  next
    case (CDrop k')
    show ?thesis
    proof (cases "k' = k")
      case True
      with snoc.prems CDrop show ?thesis by (simp add: run_snoc stamp_drop)
    next
      case False
      with snoc.prems CDrop have "stamp (run c ops) k = Some (v, s)"
        by (auto simp: run_snoc intro: stamp_drop_other)
      with snoc.IH show ?thesis by simp
    qed
  qed
qed

text \<open>A hit was stored by a put of the history no longer than the time to live ago.\<close>

lemma hit_is_fresh:
  assumes "stamp c k = None" and "peek (run c ops) now k = Some v"
  shows "\<exists>s. CPut s k v \<in> set ops \<and> now - s \<le> ttl c"
proof -
  from peek_stamp [OF assms(2)] obtain s
    where s: "stamp (run c ops) k = Some (v, s)" and "now - s \<le> ttl (run c ops)" by blast
  then have "now - s \<le> ttl c" by (simp add: ttl_run)
  moreover from stamp_run [OF assms(1) s] have "CPut s k v \<in> set ops" .
  ultimately show ?thesis by blast
qed

text \<open>Dropping a key takes effect at once: the next lookup misses.\<close>

lemma drop_misses: "peek (drop_key c k) now k = None"
proof (cases "peek (drop_key c k) now k")
  case (Some v)
  from peek_stamp [OF this] show ?thesis by (simp add: stamp_drop)
qed simp

end

section \<open>Append-only audit sinks\<close>

locale audit_sink =
  fixes emit :: "'s \<Rightarrow> 'a \<Rightarrow> 'e + 's"
    and ledger :: "'s \<Rightarrow> 'b list"
    and entry_at :: "'s \<Rightarrow> 'a \<Rightarrow> 'b"
  assumes emit_appends: "emit s x = Inr s' \<Longrightarrow> ledger s' = ledger s @ [entry_at s x]"
begin

text \<open>
  An action guarded by an append: the action sees the sink after the append, and is not run at all
  when the append fails.
\<close>

definition guarded :: "'s \<Rightarrow> 'a \<Rightarrow> ('s \<Rightarrow> 'e + 'r) \<Rightarrow> 'e + 'r" where
  "guarded s x act = (case emit s x of Inl e \<Rightarrow> Inl e | Inr s' \<Rightarrow> act s')"

lemma guarded_blocks: "emit s x = Inl e \<Longrightarrow> guarded s x act = Inl e"
  by (simp add: guarded_def)

lemma guarded_runs_recorded:
  "guarded s x act = Inr r \<Longrightarrow> \<exists>s'. emit s x = Inr s' \<and> act s' = Inr r \<and> ledger s' = ledger s @ [entry_at s x]"
  by (auto simp: guarded_def dest: emit_appends split: sum.splits)

fun emit_all :: "'s \<Rightarrow> 'a list \<Rightarrow> 'e + 's" where
  "emit_all s [] = Inr s"
| "emit_all s (x # xs) = (case emit s x of Inl e \<Rightarrow> Inl e | Inr s' \<Rightarrow> emit_all s' xs)"

lemma emit_all_extends: "emit_all s xs = Inr s' \<Longrightarrow> \<exists>new. length new = length xs \<and> ledger s' = ledger s @ new"
proof (induction xs arbitrary: s)
  case Nil
  then show ?case by simp
next
  case (Cons x xs)
  then obtain u where u: "emit s x = Inr u" and "emit_all u xs = Inr s'"
    by (auto split: sum.splits)
  with Cons.IH obtain new where "length new = length xs" "ledger s' = ledger u @ new" by blast
  with emit_appends [OF u] show ?case by (intro exI [of _ "entry_at s x # new"]) simp
qed

end

section \<open>Functional refinement\<close>

text \<open>
  \<open>step\<close> is an operation of the component with its result, \<open>astep\<close> the same operation of the
  specification; \<open>view\<close> is what the specification says of a result.  \<open>guard\<close> is what the caller owes.
\<close>

locale simulation =
  fixes abstraction :: "'s \<Rightarrow> 'a"
    and invariant :: "'s \<Rightarrow> bool"
    and guard :: "'s \<Rightarrow> 'o \<Rightarrow> bool"
    and step :: "'s \<Rightarrow> 'o \<Rightarrow> 'r \<times> 's"
    and astep :: "'a \<Rightarrow> 'o \<Rightarrow> 'q \<times> 'a"
    and view :: "'r \<Rightarrow> 'q"
  assumes invariant_step: "invariant s \<Longrightarrow> guard s x \<Longrightarrow> invariant (snd (step s x))"
    and abstraction_step: "invariant s \<Longrightarrow> guard s x \<Longrightarrow>
      abstraction (snd (step s x)) = snd (astep (abstraction s) x)"
    and view_step: "invariant s \<Longrightarrow> guard s x \<Longrightarrow>
      view (fst (step s x)) = fst (astep (abstraction s) x)"
begin

fun run :: "'s \<Rightarrow> 'o list \<Rightarrow> 'r list \<times> 's" where
  "run s [] = ([], s)"
| "run s (x # xs) = (let (r, s') = step s x; (rs, s'') = run s' xs in (r # rs, s''))"

fun arun :: "'a \<Rightarrow> 'o list \<Rightarrow> 'q list \<times> 'a" where
  "arun a [] = ([], a)"
| "arun a (x # xs) = (let (q, a') = astep a x; (qs, a'') = arun a' xs in (q # qs, a''))"

fun guarded_run :: "'s \<Rightarrow> 'o list \<Rightarrow> bool" where
  "guarded_run s [] = True"
| "guarded_run s (x # xs) = (guard s x \<and> guarded_run (snd (step s x)) xs)"

lemma run_simulates:
  assumes "invariant s" and "guarded_run s xs"
  shows "invariant (snd (run s xs))"
    and "abstraction (snd (run s xs)) = snd (arun (abstraction s) xs)"
    and "map view (fst (run s xs)) = fst (arun (abstraction s) xs)"
  using assms
proof (induction xs arbitrary: s)
  case Nil
  {
    case 1 then show ?case by simp
  next
    case 2 then show ?case by simp
  next
    case 3 then show ?case by simp
  }
next
  case (Cons x xs)
  {
    case 1
    then show ?case using Cons.IH(1) [of "snd (step s x)"] invariant_step [of s x]
      by (simp add: split_beta)
  next
    case 2
    then show ?case
      using Cons.IH(2) [of "snd (step s x)"] invariant_step [of s x] abstraction_step [of s x]
      by (simp add: split_beta)
  next
    case 3
    then show ?case
      using Cons.IH(3) [of "snd (step s x)"] invariant_step [of s x] abstraction_step [of s x]
        view_step [of s x]
      by (simp add: split_beta)
  }
qed

end

end
