(* ===== verification/RateLimiter.thy ===== *)
theory RateLimiter
  imports PyStr
begin

text \<open>
  The token-bucket limiter of \<open>backend/rate_limiter/token_bucket.py\<close>: the Lua script run inside
  Redis, the Python wrapper \<open>check_rate_limit\<close>, and the middleware of
  \<open>backend/api_gateway/middleware/rate_limit.py\<close> that turns a denial into a 429 reply.

  Redis itself is modelled by the three commands the script issues: \<open>HMGET\<close> reads the hash unless its
  deadline has passed, \<open>HSET\<close> followed by \<open>EXPIRE key 120\<close> stores it with a fresh deadline.
\<close>

section \<open>State and results\<close>

record bucket =
  bk_tokens :: rat
  bk_last_refill :: rat

record redis_hash =
  rh_bucket :: bucket
  rh_deadline :: rat

record lua_reply =
  lr_allowed :: bool
  lr_remaining :: int
  lr_reset_at :: int
  lr_retry_after :: int

record rate_limit_result =
  rl_allowed :: bool
  rl_limit :: int
  rl_remaining :: int
  rl_reset_at :: int
  rl_retry_after :: "int option"

section \<open>The Lua script\<close>

definition lua_load :: "rat \<Rightarrow> rat \<Rightarrow> bucket option \<Rightarrow> bucket" where
  "lua_load limit now data =
     (case data of
        None \<Rightarrow> \<lparr>bk_tokens = limit, bk_last_refill = now\<rparr>
      | Some b \<Rightarrow> b)"

definition lua_refill :: "rat \<Rightarrow> rat \<Rightarrow> rat \<Rightarrow> bucket \<Rightarrow> bucket" where
  "lua_refill limit now rate b =
     (let elapsed = now - bk_last_refill b in
      if elapsed > 0
      then \<lparr>bk_tokens = min limit (bk_tokens b + elapsed * rate), bk_last_refill = now\<rparr>
      else b)"

definition token_bucket_lua :: "rat \<Rightarrow> rat \<Rightarrow> rat \<Rightarrow> bucket option \<Rightarrow> lua_reply \<times> bucket" where
  "token_bucket_lua limit now rate data =
     (let b = lua_refill limit now rate (lua_load limit now data);
          allowed = bk_tokens b \<ge> 1;
          tokens = (if allowed then bk_tokens b - 1 else bk_tokens b);
          remaining = (if allowed then \<lfloor>tokens\<rfloor> else 0);
          retry_after = (if allowed then - 1
                         else if rate > 0 then \<lceil>(1 - tokens) / rate\<rceil> else 60);
          needed = limit - tokens;
          reset_at = (if needed > 0 \<and> rate > 0 then \<lceil>now + needed / rate\<rceil> else \<lceil>now\<rceil>)
      in (\<lparr>lr_allowed = allowed, lr_remaining = remaining, lr_reset_at = reset_at,
           lr_retry_after = retry_after\<rparr>,
          b\<lparr>bk_tokens := tokens\<rparr>))"

section \<open>The Python wrapper\<close>

definition bucket_key :: "string \<Rightarrow> string \<Rightarrow> string" where
  "bucket_key tenant_id endpoint = ''ratelimit:'' @ tenant_id @ '':'' @ endpoint"

definition redis_hmget :: "(string, redis_hash) dict \<Rightarrow> rat \<Rightarrow> string \<Rightarrow> bucket option" where
  "redis_hmget store now key =
     (case dict_get store key of
        None \<Rightarrow> None
      | Some h \<Rightarrow> if now < rh_deadline h then Some (rh_bucket h) else None)"

definition redis_ttl_seconds :: rat where
  "redis_ttl_seconds = 120"

definition refill_rate :: "int \<Rightarrow> rat" where
  "refill_rate limit = of_int limit / 60"

definition check_rate_limit ::
  "int \<Rightarrow> (string, redis_hash) dict \<Rightarrow> rat \<Rightarrow> string \<Rightarrow> string \<Rightarrow> int option
     \<Rightarrow> rate_limit_result \<times> (string, redis_hash) dict" where
  "check_rate_limit default_limit store now tenant_id endpoint limit_per_minute =
     (let limit = (case limit_per_minute of Some l \<Rightarrow> l | None \<Rightarrow> default_limit);
          key = bucket_key tenant_id endpoint;
          (reply, b) = token_bucket_lua (of_int limit) now (refill_rate limit)
                         (redis_hmget store now key);
          store' = dict_set key \<lparr>rh_bucket = b, rh_deadline = now + redis_ttl_seconds\<rparr> store
      in (\<lparr>rl_allowed = lr_allowed reply, rl_limit = limit, rl_remaining = lr_remaining reply,
           rl_reset_at = lr_reset_at reply,
           rl_retry_after = (if lr_retry_after reply \<ge> 0 then Some (lr_retry_after reply) else None)\<rparr>,
          store'))"

section \<open>Middleware\<close>

definition skip_rate_limit_paths :: "string list" where
  "skip_rate_limit_paths = [''/health'', ''/docs'', ''/redoc'', ''/v1/openapi.json'', ''/openapi.json'']"

record http_response =
  resp_status :: int
  resp_error_code :: "string option"
  resp_headers :: "(string, string) dict"

definition pass_through_check :: "rat \<Rightarrow> int option \<Rightarrow> rate_limit_result" where
  "pass_through_check now limit_per_minute =
     (let limit = (case limit_per_minute of Some l \<Rightarrow> l | None \<Rightarrow> 1000)
      in \<lparr>rl_allowed = True, rl_limit = limit, rl_remaining = limit - 1,
          rl_reset_at = \<lfloor>now\<rfloor> + 60, rl_retry_after = None\<rparr>)"

definition rate_headers :: "rate_limit_result \<Rightarrow> (string, string) dict \<Rightarrow> (string, string) dict" where
  "rate_headers r hs =
     dict_set ''X-RateLimit-Reset'' (str_int (rl_reset_at r))
       (dict_set ''X-RateLimit-Remaining'' (str_int (rl_remaining r))
         (dict_set ''X-RateLimit-Limit'' (str_int (rl_limit r)) hs))"

text \<open>
  \<open>limiter\<close> is the call of the configured checker (its reply and its new state), \<open>call_next\<close> the
  rest of the chain.  The second component says whether the chain behind was called.
\<close>

definition rate_limit_dispatch ::
  "(string \<Rightarrow> string \<Rightarrow> rate_limit_result \<times> 's) \<Rightarrow> 's \<Rightarrow> http_response \<Rightarrow> string \<Rightarrow> string option
     \<Rightarrow> http_response \<times> bool \<times> 's" where
  "rate_limit_dispatch limiter s call_next path tenant_id =
     (if path \<in> set skip_rate_limit_paths then (call_next, True, s)
      else (case tenant_id of
          None \<Rightarrow> (call_next, True, s)
        | Some t \<Rightarrow>
            (let (result, s') = limiter t path in
             if \<not> rl_allowed result then
               (let retry_after = (case rl_retry_after result of Some r \<Rightarrow> r | None \<Rightarrow> 60);
                    retry_after = max 1 (min 3600 retry_after)
                in (\<lparr>resp_status = 429, resp_error_code = Some ''rate_limited'',
                     resp_headers = rate_headers result [] @ [(''Retry-After'', str_int retry_after)]\<rparr>,
                    False, s'))
             else
               (call_next\<lparr>resp_headers := rate_headers result (resp_headers call_next)\<rparr>, True, s'))))"

section \<open>The bucket invariant\<close>

definition bucket_ok :: "rat \<Rightarrow> bucket \<Rightarrow> bool" where
  "bucket_ok limit b \<longleftrightarrow> 0 \<le> bk_tokens b \<and> bk_tokens b \<le> limit"

lemma lua_refill_ok: "0 \<le> limit \<Longrightarrow> 0 \<le> rate \<Longrightarrow> bucket_ok limit b \<Longrightarrow> bucket_ok limit (lua_refill limit now rate b)"
  by (auto simp: lua_refill_def bucket_ok_def Let_def)

lemma lua_load_ok: "0 \<le> limit \<Longrightarrow> (\<And>b. data = Some b \<Longrightarrow> bucket_ok limit b) \<Longrightarrow> bucket_ok limit (lua_load limit now data)"
  by (auto simp: lua_load_def bucket_ok_def split: option.splits)

lemmas lua_defs = token_bucket_lua_def lua_refill_def lua_load_def bucket_ok_def Let_def

lemma token_bucket_lua_ok:
  assumes "0 \<le> limit" and "0 \<le> rate" and "\<And>b. data = Some b \<Longrightarrow> bucket_ok limit b"
  shows "bucket_ok limit (snd (token_bucket_lua limit now rate data))"
proof -
  have "bucket_ok limit (lua_refill limit now rate (lua_load limit now data))"
    using assms by (intro lua_refill_ok lua_load_ok)
  then show ?thesis by (auto simp: token_bucket_lua_def bucket_ok_def Let_def)
qed

text \<open>The potential: tokens held now, plus what the refill can still add until \<open>T\<close>.\<close>

definition bucket_credit :: "rat \<Rightarrow> rat \<Rightarrow> bucket \<Rightarrow> rat" where
  "bucket_credit rate T b = bk_tokens b + (T - bk_last_refill b) * rate"

lemma lua_refill_credit: "0 \<le> rate \<Longrightarrow> bucket_credit rate T (lua_refill limit now rate b) \<le> bucket_credit rate T b"
  by (auto simp: lua_refill_def bucket_credit_def Let_def min_def algebra_simps)

lemma token_bucket_lua_credit:
  assumes "0 \<le> rate"
  shows "bucket_credit rate T (snd (token_bucket_lua limit now rate (Some b)))
           + (if lr_allowed (fst (token_bucket_lua limit now rate (Some b))) then 1 else 0)
         \<le> bucket_credit rate T b"
proof -
  let ?r = "lua_refill limit now rate b"
  have "snd (token_bucket_lua limit now rate (Some b))
        = ?r\<lparr>bk_tokens := (if bk_tokens ?r \<ge> 1 then bk_tokens ?r - 1 else bk_tokens ?r)\<rparr>"
    by (simp add: token_bucket_lua_def lua_load_def Let_def)
  moreover have "lr_allowed (fst (token_bucket_lua limit now rate (Some b))) = (bk_tokens ?r \<ge> 1)"
    by (simp add: token_bucket_lua_def lua_load_def Let_def)
  ultimately show ?thesis
    using lua_refill_credit [OF assms, of T limit now b] by (auto simp: bucket_credit_def)
qed

lemma lua_refill_last_le:
  "bk_last_refill b \<le> T \<Longrightarrow> now \<le> T \<Longrightarrow> bk_last_refill (lua_refill limit now rate b) \<le> T"
  by (simp add: lua_refill_def Let_def)

lemma token_bucket_lua_last:
  "bk_last_refill (snd (token_bucket_lua limit now rate data))
     = bk_last_refill (lua_refill limit now rate (lua_load limit now data))"
  by (simp add: token_bucket_lua_def Let_def)

lemma token_bucket_lua_last_now:
  "bk_last_refill b \<le> now \<Longrightarrow> bk_last_refill (snd (token_bucket_lua limit now rate (Some b))) = now"
  by (auto simp: token_bucket_lua_last lua_refill_def lua_load_def Let_def)

lemma token_bucket_lua_fresh_last:
  "bk_last_refill (snd (token_bucket_lua limit now rate None)) = now"
  by (auto simp: token_bucket_lua_last lua_refill_def lua_load_def Let_def)

lemma lua_full_refill:
  assumes "0 \<le> bk_tokens b" and "0 \<le> l" and "60 \<le> now - bk_last_refill b"
  shows "lua_refill (of_int l) now (refill_rate l) b = \<lparr>bk_tokens = of_int l, bk_last_refill = now\<rparr>"
proof -
  have "60 * (of_int l / 60 :: rat) \<le> (now - bk_last_refill b) * (of_int l / 60)"
    using assms by (intro mult_right_mono) auto
  then have "(of_int l :: rat) \<le> bk_tokens b + (now - bk_last_refill b) * refill_rate l"
    using assms(1) by (simp add: refill_rate_def)
  with assms(3) show ?thesis by (simp add: lua_refill_def Let_def min_def)
qed

section \<open>Expiry of the Redis key\<close>

definition hash_ok :: "int \<Rightarrow> rat \<Rightarrow> redis_hash \<Rightarrow> bool" where
  "hash_ok limit now h \<longleftrightarrow> bucket_ok (of_int limit) (rh_bucket h)
     \<and> rh_deadline h = bk_last_refill (rh_bucket h) + redis_ttl_seconds
     \<and> bk_last_refill (rh_bucket h) \<le> now"

definition store_ok :: "int \<Rightarrow> rat \<Rightarrow> (string, redis_hash) dict \<Rightarrow> bool" where
  "store_ok limit now store \<longleftrightarrow> (\<forall>k h. dict_get store k = Some h \<longrightarrow> hash_ok limit now h)"

lemma store_ok_mono: "store_ok l now st \<Longrightarrow> now \<le> now' \<Longrightarrow> store_ok l now' st"
  by (fastforce simp: store_ok_def hash_ok_def)

lemma token_bucket_lua_None:
  "token_bucket_lua limit now rate None
     = token_bucket_lua limit now rate (Some \<lparr>bk_tokens = limit, bk_last_refill = now\<rparr>)"
  by (simp add: token_bucket_lua_def lua_load_def)

lemma token_bucket_lua_expired:
  assumes "0 \<le> limit" and "hash_ok limit now h" and "rh_deadline h \<le> now"
  shows "token_bucket_lua (of_int limit) now (refill_rate limit) None
       = token_bucket_lua (of_int limit) now (refill_rate limit) (Some (rh_bucket h))"
proof -
  have "lua_refill (of_int limit) now (refill_rate limit) (rh_bucket h)
      = \<lparr>bk_tokens = of_int limit, bk_last_refill = now\<rparr>"
    using assms by (intro lua_full_refill) (auto simp: hash_ok_def bucket_ok_def redis_ttl_seconds_def)
  then show ?thesis
    by (simp add: token_bucket_lua_def lua_load_def lua_refill_def [of _ _ _ "\<lparr>bk_tokens = _, bk_last_refill = _\<rparr>"] Let_def)
qed

lemma lua_hmget:
  assumes "0 \<le> limit" and "store_ok limit now st" and "dict_get st key = Some h"
  shows "token_bucket_lua (of_int limit) now (refill_rate limit) (redis_hmget st now key)
       = token_bucket_lua (of_int limit) now (refill_rate limit) (Some (rh_bucket h))"
proof -
  have "hash_ok limit now h" using assms(2,3) by (auto simp: store_ok_def)
  with assms show ?thesis
    by (auto simp: redis_hmget_def token_bucket_lua_expired [OF assms(1)])
qed

text \<open>The bucket a call works on: the stored one, or a full one for a key never used.\<close>

definition bucket_at :: "int \<Rightarrow> (string, redis_hash) dict \<Rightarrow> rat \<Rightarrow> string \<Rightarrow> bucket" where
  "bucket_at limit st now key = (case dict_get st key of
     None \<Rightarrow> \<lparr>bk_tokens = of_int limit, bk_last_refill = now\<rparr> | Some h \<Rightarrow> rh_bucket h)"

lemma check_rate_limit_eq:
  assumes "0 \<le> limit" and "store_ok limit now st"
  shows "token_bucket_lua (of_int limit) now (refill_rate limit) (redis_hmget st now key)
       = token_bucket_lua (of_int limit) now (refill_rate limit) (Some (bucket_at limit st now key))"
proof (cases "dict_get st key")
  case None
  then show ?thesis by (simp add: redis_hmget_def bucket_at_def token_bucket_lua_None)
next
  case (Some h)
  with lua_hmget [OF assms] show ?thesis by (simp add: bucket_at_def)
qed

lemma bucket_at_ok:
  "0 \<le> limit \<Longrightarrow> store_ok limit now st \<Longrightarrow>
     bucket_ok (of_int limit) (bucket_at limit st now key) \<and> bk_last_refill (bucket_at limit st now key) \<le> now"
  by (auto simp: bucket_at_def store_ok_def hash_ok_def bucket_ok_def split: option.splits)

definition lua_on :: "int \<Rightarrow> (string, redis_hash) dict \<Rightarrow> rat \<Rightarrow> string \<Rightarrow> lua_reply \<times> bucket" where
  "lua_on limit st now key =
     token_bucket_lua (of_int limit) now (refill_rate limit) (Some (bucket_at limit st now key))"

lemma check_rate_limit_store:
  assumes "0 \<le> limit" and "store_ok limit now st"
  shows "snd (check_rate_limit limit st now t e None)
       = dict_set (bucket_key t e) \<lparr>rh_bucket = snd (lua_on limit st now (bucket_key t e)),
                                    rh_deadline = now + redis_ttl_seconds\<rparr> st"
  using assms by (simp add: check_rate_limit_def check_rate_limit_eq lua_on_def Let_def split: prod.split)

lemma check_rate_limit_allowed:
  assumes "0 \<le> limit" and "store_ok limit now st"
  shows "rl_allowed (fst (check_rate_limit limit st now t e None))
       = lr_allowed (fst (lua_on limit st now (bucket_key t e)))"
  using assms by (simp add: check_rate_limit_def check_rate_limit_eq lua_on_def Let_def split: prod.split)

lemma check_rate_limit_retry:
  assumes "0 \<le> limit" and "store_ok limit now st"
  shows "rl_retry_after (fst (check_rate_limit limit st now t e None))
       = (let w = lr_retry_after (fst (lua_on limit st now (bucket_key t e)))
          in if w \<ge> 0 then Some w else None)"
  using assms by (simp add: check_rate_limit_def check_rate_limit_eq lua_on_def Let_def split: prod.split)

lemma lua_on_bucket:
  assumes "0 \<le> limit" and "store_ok limit now st"
  shows "bucket_ok (of_int limit) (snd (lua_on limit st now key))"
    and "bk_last_refill (snd (lua_on limit st now key)) = now"
  using bucket_at_ok [OF assms, of key] assms(1) token_bucket_lua_last_now
  by (auto simp: lua_on_def refill_rate_def intro!: token_bucket_lua_ok)

lemma check_rate_limit_store_ok:
  assumes "0 \<le> limit" and "store_ok limit now st"
  shows "store_ok limit now (snd (check_rate_limit limit st now t e None))"
  using assms lua_on_bucket [OF assms, of "bucket_key t e"]
  by (auto simp: check_rate_limit_store store_ok_def hash_ok_def)

section \<open>Requests over time\<close>

text \<open>
  A history of calls, each with its clock reading, tenant and endpoint; \<open>granted\<close> counts the calls
  for one tenant and endpoint that were allowed.
\<close>

fun granted :: "int \<Rightarrow> (string, redis_hash) dict \<Rightarrow> (rat \<times> string \<times> string) list \<Rightarrow> string \<Rightarrow> string \<Rightarrow> nat" where
  "granted limit st [] t e = 0"
| "granted limit st ((now, t', e') # calls) t e =
     (let (r, st') = check_rate_limit limit st now t' e' None
      in (if rl_allowed r \<and> t' = t \<and> e' = e then 1 else 0) + granted limit st' calls t e)"

definition store_credit :: "int \<Rightarrow> rat \<Rightarrow> rat \<Rightarrow> (string, redis_hash) dict \<Rightarrow> string \<Rightarrow> rat" where
  "store_credit limit t0 T st key = bucket_credit (refill_rate limit) T (bucket_at limit st t0 key)"

lemma refill_rate_nonneg: "0 \<le> limit \<Longrightarrow> 0 \<le> refill_rate limit"
  by (simp add: refill_rate_def)

lemma store_credit_mono:
  "0 \<le> limit \<Longrightarrow> t0 \<le> t1 \<Longrightarrow> store_credit limit t1 T st key \<le> store_credit limit t0 T st key"
  by (auto simp: store_credit_def bucket_at_def bucket_credit_def refill_rate_nonneg
      intro: mult_right_mono split: option.splits)

lemma store_credit_nonneg:
  "0 \<le> limit \<Longrightarrow> store_ok limit t0 st \<Longrightarrow> t0 \<le> T \<Longrightarrow> 0 \<le> store_credit limit t0 T st key"
  using bucket_at_ok [of limit t0 st key]
  by (simp add: store_credit_def bucket_credit_def bucket_ok_def refill_rate_nonneg)

lemma store_credit_step:
  assumes "0 \<le> limit" and "store_ok limit now st"
  shows "store_credit limit now T (snd (check_rate_limit limit st now t' e' None)) (bucket_key t e)
       + (if rl_allowed (fst (check_rate_limit limit st now t' e' None)) \<and> t' = t \<and> e' = e then 1 else 0)
       \<le> store_credit limit now T st (bucket_key t e)"
proof (cases "bucket_key t' e' = bucket_key t e")
  case False
  then have "\<not> (t' = t \<and> e' = e)" by auto
  with False show ?thesis
    by (simp add: store_credit_def bucket_at_def check_rate_limit_store [OF assms])
next
  case True
  have new: "store_credit limit now T (snd (check_rate_limit limit st now t' e' None)) (bucket_key t e)
      = bucket_credit (refill_rate limit) T (snd (lua_on limit st now (bucket_key t e)))"
    using True by (simp add: store_credit_def bucket_at_def check_rate_limit_store [OF assms])
  have "bucket_credit (refill_rate limit) T (snd (lua_on limit st now (bucket_key t e)))
        + (if lr_allowed (fst (lua_on limit st now (bucket_key t e))) then 1 else 0)
      \<le> store_credit limit now T st (bucket_key t e)"
    using token_bucket_lua_credit [OF refill_rate_nonneg [OF assms(1)]]
    by (simp only: lua_on_def store_credit_def)
  with new True show ?thesis
    by (simp add: check_rate_limit_allowed [OF assms] split: if_splits)
qed

lemma granted_credit:
  assumes "0 \<le> limit"
  shows "store_ok limit t0 st \<Longrightarrow> sorted (t0 # map fst calls @ [T]) \<Longrightarrow>
     of_nat (granted limit st calls t e) \<le> store_credit limit t0 T st (bucket_key t e)"
proof (induction calls arbitrary: st t0)
  case Nil
  then show ?case using store_credit_nonneg [OF assms] by simp
next
  case (Cons c calls)
  obtain now t' e' where c: "c = (now, t', e')" by (cases c)
  let ?st = "snd (check_rate_limit limit st now t' e' None)"
  have le: "t0 \<le> now" and srt: "sorted (now # map fst calls @ [T])"
    using Cons.prems(2) c by auto
  have ok: "store_ok limit now st" using Cons.prems(1) le by (rule store_ok_mono)
  have "of_nat (granted limit ?st calls t e) \<le> store_credit limit now T ?st (bucket_key t e)"
    using check_rate_limit_store_ok [OF assms ok] srt by (rule Cons.IH)
  moreover note store_credit_step [OF assms ok, of T t' e' t e]
  moreover have "store_credit limit now T st (bucket_key t e) \<le> store_credit limit t0 T st (bucket_key t e)"
    using assms le by (rule store_credit_mono)
  moreover have "granted limit st (c # calls) t e
      = (if rl_allowed (fst (check_rate_limit limit st now t' e' None)) \<and> t' = t \<and> e' = e then 1 else 0)
        + granted limit ?st calls t e"
    by (simp add: c Let_def split: prod.split)
  ultimately show ?case by (auto split: if_splits)
qed



section \<open>Waiting after a denial\<close>

lemma lua_denied_again:
  assumes "1 \<le> limit" and "bucket_ok (of_int limit) b" and "bk_last_refill b \<le> now"
    and denied: "\<not> lr_allowed (fst (token_bucket_lua (of_int limit) now (refill_rate limit) (Some b)))"
    and "0 \<le> v"
  defines "w \<equiv> lr_retry_after (fst (token_bucket_lua (of_int limit) now (refill_rate limit) (Some b)))"
    and "b' \<equiv> snd (token_bucket_lua (of_int limit) now (refill_rate limit) (Some b))"
  shows "1 \<le> w \<and> w \<le> 60 \<and>
    (lr_allowed (fst (token_bucket_lua (of_int limit) (now + of_int v) (refill_rate limit) (Some b'))) \<longleftrightarrow> w \<le> v)"
proof -
  let ?r = "refill_rate limit"
  let ?b = "lua_refill (of_int limit) now ?r b"
  have r: "0 < ?r" "1 \<le> 60 * ?r" using assms(1) by (auto simp: refill_rate_def)
  have ok: "bucket_ok (of_int limit) ?b" using assms(1,2) r by (intro lua_refill_ok) auto
  have small: "bk_tokens ?b < 1" using denied by (simp add: token_bucket_lua_def lua_load_def Let_def)
  have b': "b' = ?b" using small by (simp add: b'_def token_bucket_lua_def lua_load_def Let_def)
  have last: "bk_last_refill ?b = now" using assms(3) by (auto simp: lua_refill_def Let_def)
  have w: "w = \<lceil>(1 - bk_tokens ?b) / ?r\<rceil>"
    using small r(1) by (simp add: w_def token_bucket_lua_def lua_load_def Let_def)
  have pos: "0 < (1 - bk_tokens ?b) / ?r" using small r(1) by simp
  have "(1 - bk_tokens ?b) / ?r \<le> 60"
  proof -
    have "1 - bk_tokens ?b \<le> 60 * ?r" using ok r(2) by (simp add: bucket_ok_def)
    then show ?thesis using r(1) by (simp add: pos_divide_le_eq)
  qed
  with pos w have bounds: "1 \<le> w \<and> w \<le> 60" by (simp add: ceiling_le_iff one_le_ceiling)
  have "lr_allowed (fst (token_bucket_lua (of_int limit) (now + of_int v) ?r (Some b'))) \<longleftrightarrow>
        1 \<le> bk_tokens ?b + of_int v * ?r"
    using assms(1,5) small by (simp add: b' token_bucket_lua_def lua_load_def Let_def lua_refill_def [of _ "now + _"] last)
  also have "\<dots> \<longleftrightarrow> (1 - bk_tokens ?b) / ?r \<le> of_int v"
    using r(1) by (simp add: pos_divide_le_eq algebra_simps)
  also have "\<dots> \<longleftrightarrow> w \<le> v" by (simp add: w ceiling_le_iff)
  finally show ?thesis using bounds by blast
qed

fun store_after :: "int \<Rightarrow> (string, redis_hash) dict \<Rightarrow> (rat \<times> string \<times> string) list \<Rightarrow> (string, redis_hash) dict" where
  "store_after limit st [] = st"
| "store_after limit st ((now, t, e) # calls) =
     store_after limit (snd (check_rate_limit limit st now t e None)) calls"

lemma store_after_ok:
  assumes "0 \<le> limit"
  shows "store_ok limit t0 st \<Longrightarrow> sorted (t0 # map fst calls @ [T]) \<Longrightarrow> store_ok limit T (store_after limit st calls)"
proof (induction calls arbitrary: st t0)
  case Nil
  then show ?case by (auto intro: store_ok_mono)
next
  case (Cons c calls)
  obtain now t e where c: "c = (now, t, e)" by (cases c)
  have "store_ok limit now st" using Cons.prems c by (auto intro: store_ok_mono)
  then have "store_ok limit now (snd (check_rate_limit limit st now t e None))"
    by (rule check_rate_limit_store_ok [OF assms])
  with Cons.IH [of now] Cons.prems(2) c show ?case by simp
qed

lemma dispatch_denied:
  assumes "rate_limit_dispatch limiter s resp path tid = (reply, False, s')"
  shows "\<exists>t r. tid = Some t \<and> path \<notin> set skip_rate_limit_paths \<and> limiter t path = (r, s') \<and> \<not> rl_allowed r
     \<and> resp_status reply = 429
     \<and> dict_get (resp_headers reply) ''Retry-After'' =
         Some (str_int (max 1 (min 3600 (case rl_retry_after r of Some w \<Rightarrow> w | None \<Rightarrow> 60))))"
  using assms
  by (auto simp: rate_limit_dispatch_def rate_headers_def dict_set_def dict_get_def Let_def
      split: if_splits option.splits prod.splits)

lemma dispatch_called:
  assumes "path \<notin> set skip_rate_limit_paths"
  shows "fst (snd (rate_limit_dispatch limiter s resp path (Some t))) = rl_allowed (fst (limiter t path))"
  using assms by (simp add: rate_limit_dispatch_def Let_def split: prod.split)

lemma check_rate_limit_again:
  assumes "1 \<le> limit" and ok: "store_ok limit now st"
    and denied: "\<not> rl_allowed (fst (check_rate_limit limit st now t e None))"
    and "0 \<le> v"
  defines "st' \<equiv> snd (check_rate_limit limit st now t e None)"
  shows "\<exists>w. rl_retry_after (fst (check_rate_limit limit st now t e None)) = Some w \<and> 1 \<le> w \<and> w \<le> 60
    \<and> (rl_allowed (fst (check_rate_limit limit st' (now + of_int v) t e None)) \<longleftrightarrow> w \<le> v)"
proof -
  let ?k = "bucket_key t e"
  let ?w = "lr_retry_after (fst (lua_on limit st now ?k))"
  have l: "0 \<le> limit" using assms(1) by simp
  have deny: "\<not> lr_allowed (fst (lua_on limit st now ?k))"
    using denied by (simp add: check_rate_limit_allowed [OF l ok])
  have b: "bucket_ok (of_int limit) (bucket_at limit st now ?k)" "bk_last_refill (bucket_at limit st now ?k) \<le> now"
    using bucket_at_ok [OF l ok] by auto
  note again = lua_denied_again [OF assms(1) b deny [unfolded lua_on_def] assms(4), folded lua_on_def]
  have ok': "store_ok limit (now + of_int v) st'"
    unfolding st'_def by (rule store_ok_mono [OF check_rate_limit_store_ok [OF l ok]]) (simp add: assms(4))
  have "bucket_at limit st' (now + of_int v) ?k = snd (lua_on limit st now ?k)"
    by (simp add: st'_def bucket_at_def check_rate_limit_store [OF l ok])
  with again show ?thesis
    by (auto simp: check_rate_limit_allowed [OF l ok'] check_rate_limit_retry [OF l ok] lua_on_def [of _ st'] Let_def)
qed

text \<open>
  The Retry-After header of a 429 reply is exact: it lies between 1 and 60 seconds, the clamping of
  the middleware never changes it, and when the tenant sends nothing else to that endpoint a request
  \<open>v\<close> whole seconds later is let through precisely when \<open>v\<close> is at least the announced number.
\<close>

theorem retry_after_exact:
  assumes "1 \<le> limit" and "sorted (map fst calls @ [now])"
    and "rate_limit_dispatch (\<lambda>t p. check_rate_limit limit (store_after limit [] calls) now t p None)
           (store_after limit [] calls) resp path (Some t) = (reply, False, store')"
  shows "\<exists>w. 1 \<le> w \<and> w \<le> 60 \<and> resp_status reply = 429
    \<and> dict_get (resp_headers reply) ''Retry-After'' = Some (str_int w)
    \<and> (\<forall>v \<ge> 0. fst (snd (rate_limit_dispatch (\<lambda>t p. check_rate_limit limit store' (now + of_int v) t p None)
           store' resp' path (Some t))) \<longleftrightarrow> w \<le> v)"
proof -
  let ?st = "store_after limit [] calls"
  have ok: "store_ok limit now ?st"
  proof (cases calls)
    case (Cons c cs)
    with assms(2) have "sorted (fst c # map fst calls @ [now])" by simp
    then show ?thesis using assms(1) by (intro store_after_ok) (auto simp: store_ok_def)
  qed (simp add: store_ok_def)
  from dispatch_denied [OF assms(3)] obtain r where path: "path \<notin> set skip_rate_limit_paths"
    and r: "check_rate_limit limit ?st now t path None = (r, store')" "\<not> rl_allowed r"
    and hdr: "resp_status reply = 429" "dict_get (resp_headers reply) ''Retry-After'' =
         Some (str_int (max 1 (min 3600 (case rl_retry_after r of Some w \<Rightarrow> w | None \<Rightarrow> 60))))" by auto
  have again: "\<exists>w. rl_retry_after r = Some w \<and> 1 \<le> w \<and> w \<le> 60
    \<and> (rl_allowed (fst (check_rate_limit limit store' (now + of_int v) t path None)) \<longleftrightarrow> w \<le> v)" if "0 \<le> v" for v
    using check_rate_limit_again [OF assms(1) ok _ that, of t path] r by simp
  then obtain w where w: "rl_retry_after r = Some w" "1 \<le> w" "w \<le> 60" by (meson order_refl)
  with again have "rl_allowed (fst (check_rate_limit limit store' (now + of_int v) t path None)) \<longleftrightarrow> w \<le> v"
    if "0 \<le> v" for v using that by fastforce
  with w hdr path show ?thesis by (intro exI [of _ w]) (simp add: dispatch_called)
qed

theorem retry_after_exact_witness:
  "\<exists>w. 1 \<le> w \<and> w \<le> 60 \<and> (\<exists>(reply :: http_response) store'. resp_status reply = 429
    \<and> dict_get (resp_headers reply) ''Retry-After'' = Some (str_int w)
    \<and> (\<forall>v \<ge> 0. fst (snd (rate_limit_dispatch (\<lambda>t p. check_rate_limit 1 store' (10 + of_int v) t p None)
           store' \<lparr>resp_status = 200, resp_error_code = None, resp_headers = []\<rparr> ''/v1/search'' (Some ''a''))) \<longleftrightarrow> w \<le> v))"
proof -
  let ?ok = "\<lparr>resp_status = 200, resp_error_code = None, resp_headers = []\<rparr>"
  let ?st = "store_after 1 [] [(0, ''a'', ''/v1/search'')]"
  let ?d = "rate_limit_dispatch (\<lambda>t p. check_rate_limit 1 ?st 10 t p None) ?st ?ok ''/v1/search'' (Some ''a'')"
  obtain reply called store' where d: "?d = (reply, called, store')" by (rule prod_cases3)
  have "\<not> fst (snd ?d)" by code_simp
  then have "called = False" by (simp only: d fst_conv snd_conv not_True_eq_False simp_thms)
  note d' = d [unfolded this]
  have s: "sorted (map fst [(0 :: rat, ''a'', ''/v1/search'')] @ [10])" by simp
  have l: "(1 :: int) \<le> 1" by simp
  from retry_after_exact [OF l s d', of ?ok] show ?thesis by blast
qed

text \<open>
  Expiring the Redis key cannot be observed: once the 120-second deadline has passed, a bucket
  rebuilt from nothing gives the same reply and the same stored state as the bucket that was kept.
\<close>

theorem key_expiry_unobservable:
  assumes "0 \<le> limit" and "sorted (t0 # map fst calls @ [now])"
    and "dict_get (store_after limit [] calls) key = Some h"
  shows "token_bucket_lua (of_int limit) now (refill_rate limit) (redis_hmget (store_after limit [] calls) now key)
       = token_bucket_lua (of_int limit) now (refill_rate limit) (Some (rh_bucket h))"
proof -
  have "store_ok limit now (store_after limit [] calls)"
    using assms(1,2) by (intro store_after_ok) (auto simp: store_ok_def)
  from lua_hmget [OF assms(1) this assms(3)] show ?thesis .
qed

theorem key_expiry_unobservable_witness:
  "\<exists>h :: redis_hash. redis_hmget (store_after 5 [] [(0, ''a'', ''/x'')]) 200 (bucket_key ''a'' ''/x'') = None \<and>
     token_bucket_lua (of_int 5) 200 (refill_rate 5) None
       = token_bucket_lua (of_int 5) 200 (refill_rate 5) (Some (rh_bucket h))"
proof -
  have g: "\<exists>h. dict_get (store_after 5 [] [(0, ''a'', ''/x'')]) (bucket_key ''a'' ''/x'') = Some h"
    by (simp add: check_rate_limit_def Let_def split: prod.split)
  then obtain h where h: "dict_get (store_after 5 [] [(0, ''a'', ''/x'')]) (bucket_key ''a'' ''/x'') = Some h" by blast
  have n: "redis_hmget (store_after 5 [] [(0, ''a'', ''/x'')]) 200 (bucket_key ''a'' ''/x'') = None"
    by (simp add: check_rate_limit_def redis_hmget_def redis_ttl_seconds_def Let_def split: prod.split)
  have "token_bucket_lua (of_int 5) 200 (refill_rate 5) (redis_hmget (store_after 5 [] [(0, ''a'', ''/x'')]) 200 (bucket_key ''a'' ''/x''))
      = token_bucket_lua (of_int 5) 200 (refill_rate 5) (Some (rh_bucket h))"
    by (rule key_expiry_unobservable [OF _ _ h, of 0]) simp_all
  note e = this [unfolded n]
  show ?thesis by (rule exI [of _ h]) (rule conjI [OF n e])
qed

end
