(* ===== verification/Metering.thy ===== *)
theory Metering
  imports PyStr
begin

text \<open>
  Usage metering: \<open>backend/rate_limiter/metering.py\<close> (\<open>MeteringService\<close>) and
  \<open>backend/rate_limiter/metering_buffer.py\<close> (\<open>DurableMeteringBuffer\<close>).

  The database table is the list of its rows; the unique index on \<open>dedup_key\<close> makes the insert a
  no-op on a conflict.  Each statement sent has an outcome chosen by the environment: it succeeds, it
  fails before anything is written, or it is committed and the reply is lost (which the code sees as
  a failure).  \<open>fill_ratio >= 0.8\<close> is taken over the rationals.
\<close>

section \<open>Events, table and buffer\<close>

record metering_event =
  me_request_id :: string
  me_tenant_id :: string
  me_endpoint :: string
  me_timestamp :: datetime
  me_status :: int
  me_tokens :: "int option"
  me_dedup_key :: string

record degraded_audit =
  da_size :: nat
  da_max_size :: nat

record metering_buffer =
  mb_max :: nat
  mb_events :: "metering_event list"
  mb_emitter :: bool
  mb_degraded :: bool
  mb_audits :: "degraded_audit list"

datatype db_reply = DbOk | DbError | DbReplyLost

definition make_dedup_key :: "string \<Rightarrow> string" where
  "make_dedup_key request_id = ''meter:'' @ request_id"

definition is_billable_status :: "int \<Rightarrow> bool" where
  "is_billable_status st \<longleftrightarrow> 200 \<le> st \<and> st \<le> 299"

definition insert_row :: "metering_event list \<Rightarrow> metering_event \<Rightarrow> metering_event list" where
  "insert_row table e =
     (if me_dedup_key e \<in> me_dedup_key ` set table then table else table @ [e])"

text \<open>The insert statement; the flag says whether it returned without an exception.\<close>

definition insert_metering :: "metering_event list \<Rightarrow> metering_event \<Rightarrow> db_reply \<Rightarrow> metering_event list \<times> bool" where
  "insert_metering table e reply =
     (case py_uuid (me_tenant_id e) of
        None \<Rightarrow> (table, False)
      | Some _ \<Rightarrow> (case reply of
            DbOk \<Rightarrow> (insert_row table e, True)
          | DbError \<Rightarrow> (table, False)
          | DbReplyLost \<Rightarrow> (insert_row table e, False)))"

section \<open>The buffer\<close>

definition fill_ratio :: "metering_buffer \<Rightarrow> rat" where
  "fill_ratio b = (if mb_max b = 0 then 1 else of_nat (length (mb_events b)) / of_nat (mb_max b))"

definition degraded_threshold :: rat where
  "degraded_threshold = 8 / 10"

definition emit_degraded_audit :: "metering_buffer \<Rightarrow> metering_buffer" where
  "emit_degraded_audit b =
     (if mb_emitter b
      then b\<lparr>mb_audits := mb_audits b @ [\<lparr>da_size = length (mb_events b), da_max_size = mb_max b\<rparr>]\<rparr>
      else b)"

definition buffer_event :: "metering_buffer \<Rightarrow> metering_event \<Rightarrow> metering_buffer" where
  "buffer_event b e =
     (let b = b\<lparr>mb_events := deque_append (mb_max b) (mb_events b) e\<rparr>
      in if \<not> mb_degraded b \<and> fill_ratio b \<ge> degraded_threshold
         then emit_degraded_audit (b\<lparr>mb_degraded := True\<rparr>)
         else b)"

text \<open>\<open>replies n\<close> is the outcome of the n-th insert of this flush.\<close>

fun drain :: "(nat \<Rightarrow> db_reply) \<Rightarrow> nat \<Rightarrow> metering_event list \<Rightarrow> metering_event list
    \<Rightarrow> nat \<times> metering_event list \<times> metering_event list" where
  "drain replies flushed table [] = (flushed, table, [])"
| "drain replies flushed table (e # es) =
     (case insert_metering table e (replies flushed) of
        (table', ok) \<Rightarrow>
          if ok then drain replies (Suc flushed) table' es else (flushed, table', e # es))"

definition flush_buffer :: "(nat \<Rightarrow> db_reply) \<Rightarrow> metering_event list \<Rightarrow> metering_buffer
    \<Rightarrow> nat \<times> metering_event list \<times> metering_buffer" where
  "flush_buffer replies table b =
     (case drain replies 0 table (mb_events b) of
        (flushed, table', rest) \<Rightarrow>
          (flushed, table',
           b\<lparr>mb_events := rest, mb_degraded := (if rest = [] then False else mb_degraded b)\<rparr>))"

section \<open>The service\<close>

definition emit_metering_event ::
  "metering_event list \<Rightarrow> metering_buffer option \<Rightarrow> datetime \<Rightarrow> db_reply \<Rightarrow> string \<Rightarrow> string \<Rightarrow> string \<Rightarrow> int
     \<Rightarrow> int option \<Rightarrow> metering_event list \<times> metering_buffer option" where
  "emit_metering_event table buf now reply request_id tenant_id endpoint response_status tokens_consumed =
     (if \<not> is_billable_status response_status then (table, buf)
      else
        (let event = \<lparr>me_request_id = request_id, me_tenant_id = tenant_id, me_endpoint = endpoint,
                      me_timestamp = now, me_status = response_status, me_tokens = tokens_consumed,
                      me_dedup_key = make_dedup_key request_id\<rparr>;
             (table', ok) = insert_metering table event reply
         in if ok then (table', buf)
            else (table', case buf of None \<Rightarrow> None | Some b \<Rightarrow> Some (buffer_event b event))))"

section \<open>Histories\<close>

datatype metering_op =
    Respond datetime db_reply string string string int "int option"
  | Flush "nat \<Rightarrow> db_reply"

type_synonym metering_state = "metering_event list \<times> metering_buffer"

fun metering_step :: "metering_op \<Rightarrow> metering_state \<Rightarrow> metering_state" where
  "metering_step (Respond now reply rid tid ep st tok) (table, b) =
     (let (table', buf) = emit_metering_event table (Some b) now reply rid tid ep st tok
      in (table', case buf of Some b' \<Rightarrow> b' | None \<Rightarrow> b))"
| "metering_step (Flush replies) (table, b) =
     (let (_, table', b') = flush_buffer replies table b in (table', b'))"

definition run_metering :: "metering_op list \<Rightarrow> metering_state \<Rightarrow> metering_state" where
  "run_metering ops s = fold metering_step ops s"

fun billable_request :: "metering_op \<Rightarrow> string option" where
  "billable_request (Respond now reply rid tid ep st tok) = (if is_billable_status st then Some rid else None)"
| "billable_request (Flush replies) = None"

definition billable_requests :: "metering_op list \<Rightarrow> string list" where
  "billable_requests ops = List.map_filter billable_request ops"

fun op_tenant_ok :: "metering_op \<Rightarrow> bool" where
  "op_tenant_ok (Respond now reply rid tid ep st tok) \<longleftrightarrow> py_uuid tid \<noteq> None"
| "op_tenant_ok (Flush replies) \<longleftrightarrow> True"

definition new_buffer :: "nat \<Rightarrow> bool \<Rightarrow> metering_buffer" where
  "new_buffer m emitter = \<lparr>mb_max = m, mb_events = [], mb_emitter = emitter, mb_degraded = False, mb_audits = []\<rparr>"

section \<open>Exactly-once delivery\<close>

definition event_ok :: "metering_event \<Rightarrow> bool" where
  "event_ok e \<longleftrightarrow> me_dedup_key e = make_dedup_key (me_request_id e) \<and> py_uuid (me_tenant_id e) \<noteq> None"

definition table_ok :: "metering_event list \<Rightarrow> bool" where
  "table_ok table \<longleftrightarrow> distinct (map me_dedup_key table) \<and> (\<forall>e \<in> set table. event_ok e)"

lemma make_dedup_key_inj [simp]: "make_dedup_key a = make_dedup_key b \<longleftrightarrow> a = b"
  by (simp add: make_dedup_key_def)

lemma insert_row_ok: "table_ok table \<Longrightarrow> event_ok e \<Longrightarrow> table_ok (insert_row table e)"
  by (auto simp: insert_row_def table_ok_def)

lemma insert_row_ids:
  "table_ok table \<Longrightarrow> event_ok e \<Longrightarrow>
     me_request_id ` set (insert_row table e) = insert (me_request_id e) (me_request_id ` set table)"
proof -
  assume t: "table_ok table" and e: "event_ok e"
  have "me_dedup_key ` set table = make_dedup_key ` (me_request_id ` set table)"
    using t by (auto simp: image_image table_ok_def event_ok_def intro!: image_cong)
  then have "me_dedup_key e \<in> me_dedup_key ` set table \<longleftrightarrow> me_request_id e \<in> me_request_id ` set table"
    using e by (auto simp: event_ok_def)
  then show ?thesis by (auto simp: insert_row_def)
qed

lemma insert_metering_ok:
  "table_ok table \<Longrightarrow> event_ok e \<Longrightarrow> table_ok (fst (insert_metering table e reply))"
  by (auto simp: insert_metering_def insert_row_ok split: option.split db_reply.split)

lemma insert_metering_ids:
  assumes "table_ok table" and "event_ok e"
  shows "snd (insert_metering table e reply) \<Longrightarrow>
      me_request_id ` set (fst (insert_metering table e reply)) = insert (me_request_id e) (me_request_id ` set table)"
    and "\<not> snd (insert_metering table e reply) \<Longrightarrow>
      me_request_id ` set table \<subseteq> me_request_id ` set (fst (insert_metering table e reply)) \<and>
      me_request_id ` set (fst (insert_metering table e reply)) \<subseteq> insert (me_request_id e) (me_request_id ` set table)"
  using insert_row_ids [OF assms]
  by (auto simp: insert_metering_def split: option.splits db_reply.splits)

lemma drain_ok:
  "table_ok table \<Longrightarrow> \<forall>e \<in> set es. event_ok e \<Longrightarrow> drain replies n table es = (k, table', rest) \<Longrightarrow>
     table_ok table' \<and> me_request_id ` set table' \<union> me_request_id ` set rest
        = me_request_id ` set table \<union> me_request_id ` set es
     \<and> (\<exists>pre. es = pre @ rest)"
proof (induction es arbitrary: n table)
  case Nil
  then show ?case by auto
next
  case (Cons e es)
  obtain t ok where t: "insert_metering table e (replies n) = (t, ok)" by (cases "insert_metering table e (replies n)")
  have e: "event_ok e" using Cons.prems(2) by simp
  have t_ok: "table_ok t" using insert_metering_ok [OF Cons.prems(1) e, of "replies n"] t by simp
  note ids = insert_metering_ids [OF Cons.prems(1) e, of "replies n", unfolded t fst_conv snd_conv]
  show ?case
  proof (cases ok)
    case True
    with Cons.prems t have "drain replies (Suc n) t es = (k, table', rest)" by simp
    from Cons.IH [OF t_ok _ this] Cons.prems(2)
    have "table_ok table' \<and> me_request_id ` set table' \<union> me_request_id ` set rest
        = me_request_id ` set t \<union> me_request_id ` set es \<and> (\<exists>pre. es = pre @ rest)" by simp
    with ids(1) [OF True] show ?thesis by (auto intro: exI [of _ "e # _"])
  next
    case False
    with Cons.prems t have "table' = t" "rest = e # es" by auto
    with ids(2) [OF False] t_ok show ?thesis by auto
  qed
qed

lemma drain_all_ok:
  "\<forall>e \<in> set es. event_ok e \<Longrightarrow> \<exists>k table'. drain (\<lambda>_. DbOk) n table es = (k, table', [])"
  by (induction es arbitrary: n table) (auto simp: insert_metering_def event_ok_def)

text \<open>The state after a history without overflow.\<close>

definition delivery_inv :: "string list \<Rightarrow> nat \<Rightarrow> metering_state \<Rightarrow> bool" where
  "delivery_inv rids m s \<longleftrightarrow> table_ok (fst s) \<and> (\<forall>e \<in> set (mb_events (snd s)). event_ok e)
     \<and> me_request_id ` set (fst s) \<union> me_request_id ` set (mb_events (snd s)) = set rids
     \<and> length (mb_events (snd s)) \<le> length rids \<and> mb_max (snd s) = m"

lemma mb_events_buffer_event [simp]:
  "mb_events (buffer_event b e) = deque_append (mb_max b) (mb_events b) e"
  "mb_max (buffer_event b e) = mb_max b"
  by (simp_all add: buffer_event_def emit_degraded_audit_def Let_def)

lemma delivery_step:
  assumes inv: "delivery_inv rids m s" and "op_tenant_ok op"
    and room: "length rids < m \<or> billable_request op = None"
  shows "delivery_inv (rids @ (case billable_request op of Some r \<Rightarrow> [r] | None \<Rightarrow> [])) m (metering_step op s)"
proof (cases op)
  case (Flush replies)
  obtain table b where s: "s = (table, b)" by (cases s)
  obtain k t rest where d: "drain replies 0 table (mb_events b) = (k, t, rest)"
    by (cases "drain replies 0 table (mb_events b)")
  from drain_ok [OF _ _ d] inv s have *: "table_ok t \<and> me_request_id ` set t \<union> me_request_id ` set rest
        = me_request_id ` set table \<union> me_request_id ` set (mb_events b) \<and> (\<exists>pre. mb_events b = pre @ rest)"
    by (simp add: delivery_inv_def)
  then obtain pre where "mb_events b = pre @ rest" by blast
  with * inv s d Flush show ?thesis by (auto simp: delivery_inv_def flush_buffer_def)
next
  case (Respond now reply rid tid ep st tok)
  obtain table b where s: "s = (table, b)" by (cases s)
  show ?thesis
  proof (cases "is_billable_status st")
    case False
    with Respond s inv show ?thesis by (simp add: emit_metering_event_def)
  next
    case True
    let ?e = "\<lparr>me_request_id = rid, me_tenant_id = tid, me_endpoint = ep,
               me_timestamp = now, me_status = st, me_tokens = tok, me_dedup_key = make_dedup_key rid\<rparr>"
    have e: "event_ok ?e" using assms(2) Respond by (simp add: event_ok_def)
    have tb: "table_ok table" using inv s by (simp add: delivery_inv_def)
    obtain t ok where t: "insert_metering table ?e reply = (t, ok)" by (cases "insert_metering table ?e reply")
    have t_ok: "table_ok t" using insert_metering_ok [OF tb e, of reply] t by simp
    note ids = insert_metering_ids [OF tb e, of reply, unfolded t fst_conv snd_conv]
    have "length (mb_events b) < m" using room inv s True Respond by (simp add: delivery_inv_def)
    then have app: "deque_append m (mb_events b) ?e = mb_events b @ [?e]"
      by (rule deque_append_room)
    have "me_request_id ` set t \<union> (if ok then {} else {rid}) \<union> me_request_id ` set (mb_events b)
        = insert rid (me_request_id ` set table \<union> me_request_id ` set (mb_events b))"
      using ids by (cases ok) auto
    then have "me_request_id ` set t \<union> (if ok then {} else {rid}) \<union> me_request_id ` set (mb_events b) = set (rids @ [rid])"
      using inv s by (simp add: delivery_inv_def)
    then show ?thesis
      using t_ok inv True Respond s e
      by (cases ok) (simp_all add: emit_metering_event_def t delivery_inv_def app)
  qed
qed

lemma delivery_run:
  assumes "\<forall>op \<in> set ops. op_tenant_ok op" and "length rids + length (billable_requests ops) \<le> m"
    and "delivery_inv rids m s"
  shows "delivery_inv (rids @ billable_requests ops) m (run_metering ops s)"
  using assms
proof (induction ops arbitrary: rids s)
  case Nil
  then show ?case by (simp add: run_metering_def billable_requests_def map_filter_def)
next
  case (Cons op ops)
  let ?new = "case billable_request op of Some r \<Rightarrow> [r] | None \<Rightarrow> []"
  have br: "billable_requests (op # ops) = ?new @ billable_requests ops"
    by (simp add: billable_requests_def map_filter_def split: option.split)
  have "delivery_inv (rids @ ?new) m (metering_step op s)"
    using Cons.prems br by (intro delivery_step) (auto split: option.splits)
  with Cons.prems br have "delivery_inv ((rids @ ?new) @ billable_requests ops) m (run_metering ops (metering_step op s))"
    by (intro Cons.IH) auto
  then show ?case by (simp add: br run_metering_def)
qed



section \<open>The degradation alarm\<close>

text \<open>The buffer alone: events added and flush attempts.\<close>

datatype buffer_op = BAdd metering_event | BFlush "nat \<Rightarrow> db_reply"

fun buffer_step :: "buffer_op \<Rightarrow> metering_state \<Rightarrow> metering_state" where
  "buffer_step (BAdd e) (table, b) = (table, buffer_event b e)"
| "buffer_step (BFlush replies) (table, b) =
     (let (_, table', b') = flush_buffer replies table b in (table', b'))"

fun buffer_states :: "buffer_op list \<Rightarrow> metering_state \<Rightarrow> metering_state list" where
  "buffer_states [] s = []"
| "buffer_states (op # ops) s = buffer_step op s # buffer_states ops (buffer_step op s)"

definition is_full80 :: "metering_buffer \<Rightarrow> bool" where
  "is_full80 b \<longleftrightarrow> 8 * mb_max b \<le> 10 * length (mb_events b)"

lemma fill_ratio_threshold: "degraded_threshold \<le> fill_ratio b \<longleftrightarrow> is_full80 b"
proof (cases "mb_max b = 0")
  case True
  then show ?thesis by (simp add: fill_ratio_def degraded_threshold_def is_full80_def)
next
  case False
  then have "degraded_threshold \<le> fill_ratio b \<longleftrightarrow> (8 * of_nat (mb_max b) :: rat) \<le> 10 * of_nat (length (mb_events b))"
    by (simp add: fill_ratio_def degraded_threshold_def field_simps)
  also have "\<dots> \<longleftrightarrow> of_nat (8 * mb_max b) \<le> (of_nat (10 * length (mb_events b)) :: rat)"
    by (simp only: of_nat_mult of_nat_numeral)
  also have "\<dots> \<longleftrightarrow> is_full80 b" by (simp only: of_nat_le_iff is_full80_def)
  finally show ?thesis .
qed

lemma is_full80_update [simp]:
  "is_full80 (b\<lparr>mb_degraded := d\<rparr>) \<longleftrightarrow> is_full80 b"
  "is_full80 (b\<lparr>mb_audits := a\<rparr>) \<longleftrightarrow> is_full80 b"
  by (simp_all add: is_full80_def)

lemma is_full80_buffer_event [simp]:
  "is_full80 (buffer_event b e) \<longleftrightarrow> is_full80 (b\<lparr>mb_events := deque_append (mb_max b) (mb_events b) e\<rparr>)"
  by (simp add: is_full80_def)

lemma buffer_event_alarm:
  "mb_degraded (buffer_event b e) \<longleftrightarrow> mb_degraded b \<or> is_full80 (buffer_event b e)"
  "mb_emitter b \<Longrightarrow> mb_audits (buffer_event b e) = mb_audits b @
     (if \<not> mb_degraded b \<and> is_full80 (buffer_event b e)
      then [\<lparr>da_size = length (mb_events (buffer_event b e)), da_max_size = mb_max b\<rparr>] else [])"
  "mb_emitter (buffer_event b e) = mb_emitter b"
  by (auto simp: buffer_event_def emit_degraded_audit_def fill_ratio_threshold Let_def simp del: length_deque_append)

lemma drain_not_longer: "drain replies n table es = (k, table', rest) \<Longrightarrow> length rest \<le> length es"
  by (induction es arbitrary: n table) (fastforce split: prod.splits if_splits)+

lemma flush_buffer_alarm:
  assumes "flush_buffer replies table b = (k, table', b')"
  shows "mb_audits b' = mb_audits b" and "mb_emitter b' = mb_emitter b"
    and "mb_degraded b' \<longleftrightarrow> mb_degraded b \<and> mb_events b' \<noteq> []"
    and "is_full80 b' \<Longrightarrow> is_full80 b"
  using assms drain_not_longer [of replies 0 table "mb_events b"]
  by (auto simp: flush_buffer_def is_full80_def split: prod.splits if_splits)

definition alarm_inv :: "metering_state \<Rightarrow> bool" where
  "alarm_inv s \<longleftrightarrow> mb_emitter (snd s) \<and> (is_full80 (snd s) \<longrightarrow> mb_degraded (snd s) \<or> mb_max (snd s) = 0)"

lemma alarm_quiet:
  assumes "mb_degraded (snd s)" and "mb_emitter (snd s)"
    and "\<forall>u \<in> set (buffer_states ops s). mb_events (snd u) \<noteq> []"
  shows "length (mb_audits (snd (last (s # buffer_states ops s)))) = length (mb_audits (snd s))"
  using assms
proof (induction ops arbitrary: s)
  case Nil
  then show ?case by simp
next
  case (Cons op ops)
  obtain table b where s: "s = (table, b)" by (cases s)
  let ?s' = "buffer_step op s"
  have step: "mb_degraded (snd ?s') \<and> mb_emitter (snd ?s') \<and> mb_audits (snd ?s') = mb_audits b"
  proof (cases op)
    case (BAdd e)
    with Cons.prems s buffer_event_alarm [of b e] show ?thesis by simp
  next
    case (BFlush replies)
    obtain k t b' where f: "flush_buffer replies table b = (k, t, b')" by (rule prod_cases3)
    from Cons.prems(3) BFlush s f have "mb_events b' \<noteq> []" by simp
    with flush_buffer_alarm [OF f] Cons.prems s BFlush f show ?thesis by simp
  qed
  with Cons.prems Cons.IH [of ?s'] s show ?case by simp
qed

text \<open>
  The degradation alarm sounds once per outage. While the buffer never runs empty, at most one
  \<open>metering_delivery_degraded\<close> audit event is emitted however the buffer moves around the threshold,
  and one is emitted exactly when the buffer reaches 80 percent of its capacity at some point.
\<close>

theorem degraded_alarm_once:
  assumes "\<not> mb_degraded b" and "mb_emitter b" and "\<not> is_full80 b"
    and "\<forall>u \<in> set (buffer_states ops (table, b)). mb_events (snd u) \<noteq> []"
  shows "length (mb_audits (snd (last ((table, b) # buffer_states ops (table, b))))) = length (mb_audits b) +
    (if \<exists>u \<in> set (buffer_states ops (table, b)). is_full80 (snd u) then 1 else 0)"
  using assms
proof (induction ops arbitrary: table b)
  case Nil
  then show ?case by simp
next
  case (Cons op ops)
  obtain t b' where s': "buffer_step op (table, b) = (t, b')" by (cases "buffer_step op (table, b)")
  have rest: "\<forall>u \<in> set (buffer_states ops (t, b')). mb_events (snd u) \<noteq> []" and ne: "mb_events b' \<noteq> []"
    using Cons.prems(4) s' by auto
  have em: "mb_emitter b'" and au: "length (mb_audits b') = length (mb_audits b) + (if is_full80 b' then 1 else 0)"
    and dg: "mb_degraded b' \<longleftrightarrow> is_full80 b'"
  proof (atomize (full), cases op)
    case (BAdd e)
    with Cons.prems s' buffer_event_alarm [of b e]
    show "mb_emitter b' \<and> length (mb_audits b') = length (mb_audits b) + (if is_full80 b' then 1 else 0)
        \<and> (mb_degraded b' \<longleftrightarrow> is_full80 b')" by auto
  next
    case (BFlush replies)
    obtain k t2 b2 where f: "flush_buffer replies table b = (k, t2, b2)" by (rule prod_cases3)
    with BFlush s' have "b2 = b'" by simp
    with flush_buffer_alarm [OF f] Cons.prems
    show "mb_emitter b' \<and> length (mb_audits b') = length (mb_audits b) + (if is_full80 b' then 1 else 0)
        \<and> (mb_degraded b' \<longleftrightarrow> is_full80 b')" by auto
  qed
  show ?case
  proof (cases "is_full80 b'")
    case True
    with dg em rest have "length (mb_audits (snd (last ((t, b') # buffer_states ops (t, b'))))) = length (mb_audits b')"
      by (intro alarm_quiet [where s = "(t, b')", unfolded snd_conv]) simp_all
    with True au s' show ?thesis by simp
  next
    case False
    with dg em rest Cons.IH [of b' t] au s' show ?thesis by simp
  qed
qed

theorem degraded_alarm_once_witness:
  "\<exists>e. length (mb_audits (snd (last (([], new_buffer 2 True) # buffer_states [BAdd e, BAdd e, BFlush (\<lambda>_. DbError), BAdd e]
     ([], new_buffer 2 True))))) = 1"
proof -
  let ?e = "\<lparr>me_request_id = ''r'', me_tenant_id = ''x'', me_endpoint = ''/'', me_timestamp = 0, me_status = 200,
    me_tokens = None, me_dedup_key = ''meter:r''\<rparr>"
  let ?ops = "[BAdd ?e, BAdd ?e, BFlush (\<lambda>_. DbError), BAdd ?e]"
  have p: "\<not> mb_degraded (new_buffer 2 True)" "mb_emitter (new_buffer 2 True)" "\<not> is_full80 (new_buffer 2 True)"
    by (simp_all add: new_buffer_def is_full80_def)
  have q: "\<forall>u \<in> set (buffer_states ?ops ([], new_buffer 2 True)). mb_events (snd u) \<noteq> []" by code_simp
  have r: "\<exists>u \<in> set (buffer_states ?ops ([], new_buffer 2 True)). is_full80 (snd u)" by code_simp
  have z: "length (mb_audits (new_buffer 2 True)) = 0" by (simp add: new_buffer_def)
  show ?thesis
    by (rule exI [of _ ?e]) (simp only: degraded_alarm_once [OF p q] r z if_True add_0)
qed

section \<open>Overlapping flushes\<close>

text \<open>
  \<open>flush\<close> awaits the database between reading the front of the deque and removing it, so two flushes
  can be in flight.  A step is the code one flush runs without giving up control: it reads the front
  (\<open>FRead\<close>), or its insert returns and it removes the front as it is then (\<open>FWrote\<close>).
\<close>

datatype flush_step = FRead nat | FWrote nat db_reply

record flush_race =
  fr_table :: "metering_event list"
  fr_events :: "metering_event list"
  fr_pending :: "nat \<Rightarrow> metering_event option"

fun race_step :: "flush_step \<Rightarrow> flush_race \<Rightarrow> flush_race" where
  "race_step (FRead i) r =
     (case fr_events r of [] \<Rightarrow> r | e # _ \<Rightarrow> r\<lparr>fr_pending := (fr_pending r)(i := Some e)\<rparr>)"
| "race_step (FWrote i reply) r =
     (case fr_pending r i of None \<Rightarrow> r
      | Some e \<Rightarrow> (case insert_metering (fr_table r) e reply of
          (table', ok) \<Rightarrow> r\<lparr>fr_table := table', fr_pending := (fr_pending r)(i := None),
                            fr_events := (if ok then tl (fr_events r) else fr_events r)\<rparr>))"

text \<open>
  Overlapping flushes lose usage records: when two flushes both read the front of the deque before
  either insert returns, both inserts succeed (the second one hits the deduplication key) and both
  remove an event, so the second buffered event is removed without ever having been written.
\<close>

theorem overlapping_flush_loses_event:
  assumes "py_uuid (me_tenant_id e1) \<noteq> None" and "me_dedup_key e1 \<noteq> me_dedup_key e2"
  shows "\<exists>r. fold race_step [FRead 0, FRead 1, FWrote 0 DbOk, FWrote 1 DbOk]
            \<lparr>fr_table = [], fr_events = [e1, e2], fr_pending = (\<lambda>_. None)\<rparr> = r
    \<and> fr_events r = [] \<and> fr_table r = [e1] \<and> me_dedup_key e2 \<notin> me_dedup_key ` set (fr_table r)"
  using assms by (auto simp: insert_metering_def insert_row_def)

theorem overlapping_flush_loses_event_witness:
  "\<exists>e1 e2 :: metering_event. \<exists>r. fold race_step [FRead 0, FRead 1, FWrote 0 DbOk, FWrote 1 DbOk]
            \<lparr>fr_table = [], fr_events = [e1, e2], fr_pending = (\<lambda>_. None)\<rparr> = r
    \<and> fr_events r = [] \<and> fr_table r = [e1] \<and> me_dedup_key e2 \<notin> me_dedup_key ` set (fr_table r)"
proof -
  let ?e = "\<lambda>rid. \<lparr>me_request_id = rid, me_tenant_id = ''00000000000000000000000000000001'', me_endpoint = ''/'',
    me_timestamp = 0, me_status = 200, me_tokens = None, me_dedup_key = make_dedup_key rid\<rparr>"
  have u: "py_uuid (me_tenant_id (?e ''r1'')) \<noteq> None" by code_simp
  have d: "me_dedup_key (?e ''r1'') \<noteq> me_dedup_key (?e ''r2'')" by simp
  show ?thesis
    by (rule exI [of _ "?e ''r1''"], rule exI [of _ "?e ''r2''"]) (rule overlapping_flush_loses_event [OF u d])
qed

end
