(* ===== verification/AuditLog.thy ===== *)
theory AuditLog
  imports PyStr Interfaces
begin

text \<open>
  The audit trail: \<open>backend/audit_log/service.py\<close> (the append-only service on PostgreSQL),
  \<open>backend/audit_log/in_memory.py\<close> (the emitter of the tests) and \<open>backend/audit_log/guards.py\<close>.

  The table is the list of its rows.  The environment supplies, for the n-th append, the fresh
  \<open>uuid4\<close>, the clock and the outcome of the insert.  The triggers of
  \<open>migrations/008_create_audit_events.sql\<close> are the list of trigger names present: with
  \<open>trg_audit_events_no_delete\<close> installed a DELETE that matches a row raises.
\<close>

section \<open>Entries and state\<close>

record audit_entry =
  au_action :: string
  au_tenant :: "string option"
  au_actor :: string
  au_resource :: string
  au_request_id :: string
  au_detail :: "(string, json) dict"

record audit_row =
  ro_id :: int
  ro_tenant :: "int option"
  ro_actor :: string
  ro_action :: string
  ro_resource :: string
  ro_time :: datetime
  ro_request_id :: string
  ro_detail :: "(string, json) dict"

datatype insert_outcome = InsertOk | InsertTimeout | InsertPostgresError string | InsertOSError string

record audit_db =
  adb_rows :: "audit_row list"
  adb_calls :: nat
  adb_env :: "nat \<Rightarrow> int \<times> datetime \<times> insert_outcome"
  adb_triggers :: "string list"

datatype audit_error =
    AuditValueError
  | AuditUnavailable string
  | ImmutableAuditLog string
  | AuditAttributeError string

section \<open>Appending\<close>

definition validate_request_id :: "string \<Rightarrow> bool" where
  "validate_request_id request_id \<longleftrightarrow> 16 \<le> length request_id \<and> length request_id \<le> 64"

definition insert_audit :: "audit_db \<Rightarrow> audit_row \<Rightarrow> insert_outcome \<Rightarrow> audit_error + audit_db" where
  "insert_audit db row outcome =
     (case outcome of
        InsertOk \<Rightarrow> Inr (db\<lparr>adb_rows := adb_rows db @ [row], adb_calls := Suc (adb_calls db)\<rparr>)
      | InsertTimeout \<Rightarrow> Inl (AuditUnavailable ''Audit append timed out'')
      | InsertPostgresError m \<Rightarrow> Inl (AuditUnavailable (''Audit append failed: '' @ m))
      | InsertOSError m \<Rightarrow> Inl (AuditUnavailable (''Audit append failed due to connection error: '' @ m)))"

definition tenant_uuid :: "string option \<Rightarrow> int option option" where
  "tenant_uuid t = (case t of None \<Rightarrow> Some None | Some s \<Rightarrow> map_option Some (py_uuid s))"

definition audit_row_of :: "int \<Rightarrow> datetime \<Rightarrow> int option \<Rightarrow> audit_entry \<Rightarrow> audit_row" where
  "audit_row_of audit_id now tid e =
     \<lparr>ro_id = audit_id, ro_tenant = tid, ro_actor = au_actor e, ro_action = au_action e,
      ro_resource = au_resource e, ro_time = now, ro_request_id = au_request_id e, ro_detail = au_detail e\<rparr>"

definition audit_emit :: "audit_db \<Rightarrow> audit_entry \<Rightarrow> audit_error + audit_db" where
  "audit_emit db e =
     (if \<not> validate_request_id (au_request_id e) then Inl AuditValueError
      else (case adb_env db (adb_calls db) of (audit_id, now, outcome) \<Rightarrow>
          (case tenant_uuid (au_tenant e) of
             None \<Rightarrow> Inl AuditValueError
           | Some tid \<Rightarrow> insert_audit db (audit_row_of audit_id now tid e) outcome)))"

text \<open>\<open>append\<close> takes an entry that carries its own timestamp.\<close>

definition audit_append :: "audit_db \<Rightarrow> audit_entry \<times> datetime \<Rightarrow> audit_error + audit_db" where
  "audit_append db et =
     (case et of (e, stamp) \<Rightarrow>
        if \<not> validate_request_id (au_request_id e) then Inl AuditValueError
        else (case adb_env db (adb_calls db) of (audit_id, now, outcome) \<Rightarrow>
            (case tenant_uuid (au_tenant e) of
               None \<Rightarrow> Inl AuditValueError
             | Some tid \<Rightarrow> insert_audit db (audit_row_of audit_id stamp tid e) outcome)))"

definition entry_row :: "audit_db \<Rightarrow> audit_entry \<Rightarrow> audit_row" where
  "entry_row db e = (case adb_env db (adb_calls db) of (audit_id, now, outcome) \<Rightarrow>
     audit_row_of audit_id now (case tenant_uuid (au_tenant e) of Some t \<Rightarrow> t | None \<Rightarrow> None) e)"

interpretation trail: audit_sink audit_emit adb_rows entry_row
  by unfold_locales (auto simp: audit_emit_def insert_audit_def entry_row_def
      split: if_splits prod.splits option.splits insert_outcome.splits)

interpretation appended: audit_sink audit_append adb_rows
  "\<lambda>db et. (entry_row db (fst et))\<lparr>ro_time := snd et\<rparr>"
  by unfold_locales (auto simp: audit_append_def insert_audit_def entry_row_def audit_row_of_def
      split: if_splits prod.splits option.splits insert_outcome.splits)

section \<open>No other write path\<close>

definition blocked_mutation_methods :: "string list" where
  "blocked_mutation_methods = [''update'', ''delete'', ''modify'', ''remove'', ''edit'', ''patch'', ''upsert'',
     ''replace'', ''truncate'', ''drop'', ''purge'', ''overwrite'', ''set'', ''put'']"

definition allowed_write_methods :: "string list" where
  "allowed_write_methods = [''emit'', ''append'']"

text \<open>\<open>__getattr__\<close> is called for a name the class does not define.\<close>

definition audit_getattr :: "string \<Rightarrow> audit_error" where
  "audit_getattr name = (if name \<in> set blocked_mutation_methods then ImmutableAuditLog name
                         else AuditAttributeError name)"

definition expected_triggers :: "string list" where
  "expected_triggers = [''trg_audit_events_no_update'', ''trg_audit_events_no_delete'']"

record immutability_report =
  im_immutable :: bool
  im_found :: "string list"
  im_missing :: "string list"

definition verify_immutability :: "string list \<Rightarrow> immutability_report" where
  "verify_immutability found =
     (let missing = filter (\<lambda>t. t \<notin> set found) expected_triggers
      in \<lparr>im_immutable = (missing = []),
          im_found = sort (filter (\<lambda>t. t \<in> set found) expected_triggers),
          im_missing = sort missing\<rparr>)"

section \<open>Retention\<close>

definition min_retention_days :: int where "min_retention_days = 365"
definition max_retention_days :: int where "max_retention_days = 2555"

definition new_retention :: "int \<Rightarrow> int option" where
  "new_retention d = (if d < min_retention_days \<or> d > max_retention_days then None else Some d)"

text \<open>A DELETE on the table, subject to the row trigger; the number of rows removed.\<close>

definition delete_audit_rows :: "(audit_row \<Rightarrow> bool) \<Rightarrow> audit_db \<Rightarrow> (nat \<times> audit_db) option" where
  "delete_audit_rows hit db =
     (if ''trg_audit_events_no_delete'' \<in> set (adb_triggers db) \<and> list_ex hit (adb_rows db) then None
      else Some (length (filter hit (adb_rows db)), db\<lparr>adb_rows := filter (\<lambda>r. \<not> hit r) (adb_rows db)\<rparr>))"

definition cleanup_expired :: "int \<Rightarrow> datetime \<Rightarrow> audit_db \<Rightarrow> audit_error + (nat \<times> audit_db)" where
  "cleanup_expired retention_days now db =
     (case delete_audit_rows (\<lambda>r. ro_time r < now - days_us retention_days) db of
        None \<Rightarrow> Inl (AuditUnavailable ''Audit cleanup failed: audit_events table is append-only'')
      | Some res \<Rightarrow> Inr res)"

section \<open>Guards\<close>

definition audit_or_block :: "('s \<Rightarrow> audit_entry \<Rightarrow> 'e + 's) \<Rightarrow> 's \<Rightarrow> string \<Rightarrow> string option \<Rightarrow> string \<Rightarrow> string
    \<Rightarrow> string \<Rightarrow> (string, json) dict option \<Rightarrow> 'e + 's" where
  "audit_or_block emit s action tenant_id actor resource request_id detail =
     emit s \<lparr>au_action = action, au_tenant = tenant_id, au_actor = actor, au_resource = resource,
             au_request_id = request_id, au_detail = (case detail of Some d \<Rightarrow> d | None \<Rightarrow> [])\<rparr>"

text \<open>The keyword arguments of a decorated call that the decorator reads.\<close>

record audit_kwargs =
  kw_tenant :: "string option"
  kw_actor :: "string option"
  kw_resource :: "string option"
  kw_request_id :: "string option"
  kw_detail :: "(string, json) dict option"

definition kw_default :: "string option \<Rightarrow> string \<Rightarrow> string" where
  "kw_default v d = (case v of Some s \<Rightarrow> s | None \<Rightarrow> d)"

definition require_audit ::
  "('s \<Rightarrow> audit_entry \<Rightarrow> 'e + 's) \<Rightarrow> string \<Rightarrow> bool \<Rightarrow> ('s \<Rightarrow> 'e + 'r) \<Rightarrow> 's \<Rightarrow> audit_kwargs \<Rightarrow> 'e + 'r" where
  "require_audit emit action use_detail fn s kw =
     (case audit_or_block emit s action (kw_tenant kw) (kw_default (kw_actor kw) ''unknown'')
             (kw_default (kw_resource kw) ''unknown'')
             (kw_default (kw_request_id kw) ''unknown-request-id-pad'')
             (if use_detail then kw_detail kw else None) of
        Inl e \<Rightarrow> Inl e
      | Inr s' \<Rightarrow> fn s')"

section \<open>The in-memory emitter\<close>

record memory_emitter =
  mem_events :: "(audit_entry \<times> datetime) list"
  mem_clock :: "nat \<Rightarrow> datetime"

definition memory_emit :: "memory_emitter \<Rightarrow> audit_entry \<Rightarrow> audit_error + memory_emitter" where
  "memory_emit m e = Inr (m\<lparr>mem_events := mem_events m @ [(e, mem_clock m (length (mem_events m)))]\<rparr>)"

definition memory_clear :: "memory_emitter \<Rightarrow> memory_emitter" where
  "memory_clear m = m\<lparr>mem_events := []\<rparr>"

definition memory_last :: "memory_emitter \<Rightarrow> (audit_entry \<times> datetime) option" where
  "memory_last m = (case mem_events m of [] \<Rightarrow> None | _ # _ \<Rightarrow> Some (last (mem_events m)))"

interpretation memory: audit_sink memory_emit mem_events "\<lambda>m e. (e, mem_clock m (length (mem_events m)))"
  by unfold_locales (auto simp: memory_emit_def)

section \<open>Properties\<close>

lemma delete_audit_rows_triggered:
  "''trg_audit_events_no_delete'' \<in> set (adb_triggers db) \<Longrightarrow> delete_audit_rows hit db = Some (n, db') \<Longrightarrow>
     n = 0 \<and> db' = db"
  by (auto simp: delete_audit_rows_def list_ex_iff filter_id_conv split: if_splits)

lemma require_audit_eq:
  "require_audit audit_emit action use_detail fn db kw = trail.guarded db
     \<lparr>au_action = action, au_tenant = kw_tenant kw, au_actor = kw_default (kw_actor kw) ''unknown'',
      au_resource = kw_default (kw_resource kw) ''unknown'',
      au_request_id = kw_default (kw_request_id kw) ''unknown-request-id-pad'',
      au_detail = (case if use_detail then kw_detail kw else None of Some d \<Rightarrow> d | None \<Rightarrow> [])\<rparr> fn"
  by (simp add: require_audit_def audit_or_block_def trail.guarded_def)


text \<open>
  Retention clean-up and immutability exclude each other: on a database that passes the
  immutability check, \<open>cleanup_expired\<close> never removes a row, and it fails as soon as one row is older
  than the retention period.
\<close>

theorem cleanup_blocked_by_immutability:
  assumes "im_immutable (verify_immutability (adb_triggers db))"
  shows "cleanup_expired days now db =
    (if \<exists>r \<in> set (adb_rows db). ro_time r < now - days_us days
     then Inl (AuditUnavailable ''Audit cleanup failed: audit_events table is append-only'') else Inr (0, db))"
proof -
  have trg: "''trg_audit_events_no_delete'' \<in> set (adb_triggers db)"
    using assms by (auto simp: verify_immutability_def expected_triggers_def Let_def split: if_splits)
  show ?thesis
  proof (cases "\<exists>r \<in> set (adb_rows db). ro_time r < now - days_us days")
    case True
    with trg show ?thesis by (auto simp: cleanup_expired_def delete_audit_rows_def list_ex_iff)
  next
    case False
    then have "filter (\<lambda>r. \<not> ro_time r < now - days_us days) (adb_rows db) = adb_rows db"
      "filter (\<lambda>r. ro_time r < now - days_us days) (adb_rows db) = []"
      by (auto simp: filter_empty_conv filter_id_conv)
    with False show ?thesis by (auto simp: cleanup_expired_def delete_audit_rows_def list_ex_iff)
  qed
qed

definition sample_row :: "int \<Rightarrow> datetime \<Rightarrow> audit_row" where
  "sample_row t stamp = \<lparr>ro_id = 1, ro_tenant = Some t, ro_actor = ''system'', ro_action = ''deletion_requested'',
     ro_resource = ''tenant/1'', ro_time = stamp, ro_request_id = ''req-0123456789ab'', ro_detail = []\<rparr>"

theorem cleanup_blocked_by_immutability_witness:
  "cleanup_expired 365 (days_us 400)
     \<lparr>adb_rows = [sample_row 1 0], adb_calls = 0, adb_env = (\<lambda>_. (2, 0, InsertOk)), adb_triggers = expected_triggers\<rparr>
   = Inl (AuditUnavailable ''Audit cleanup failed: audit_events table is append-only'')"
proof -
  let ?db = "\<lparr>adb_rows = [sample_row 1 0], adb_calls = 0, adb_env = (\<lambda>_. (2, 0, InsertOk)), adb_triggers = expected_triggers\<rparr>"
  have i: "im_immutable (verify_immutability (adb_triggers ?db))"
    by (simp add: verify_immutability_def expected_triggers_def)
  have "\<exists>r \<in> set (adb_rows ?db). ro_time r < days_us 400 - days_us 365"
    by (simp add: sample_row_def days_us_def seconds_us_def us_per_second_def)
  with cleanup_blocked_by_immutability [OF i, of 365 "days_us 400"] show ?thesis by simp
qed

end
