(* ===== verification/AuditDeletion.thy ===== *)
theory AuditDeletion
  imports AuditLog
begin

text \<open>
  Deletion of a tenant's data: \<open>backend/audit_log/deletion.py\<close>.

  The connection is in autocommit mode (the code opens no transaction), so every statement takes
  effect on its own and an exception leaves the effects of the earlier statements.  \<open>ok n\<close> says
  whether the n-th statement of the call reaches the database.
\<close>

section \<open>State\<close>

datatype tenant_table = Sessions | ResearchJobs | MeteringEvents | Pipelines | CitationsTable

record tenant_row =
  tn_id :: int
  tn_hold_until :: "datetime option"
  tn_deletion_state :: string

record tenant_db =
  td_tenants :: "tenant_row list"
  td_data :: "tenant_table \<Rightarrow> (int \<times> int) list"
  td_audit :: audit_db

text \<open>Rows of \<open>td_data\<close> are the identifier of the record and its tenant.\<close>

record preserved_record =
  pr_id :: int
  pr_reason :: string

record deletion_result =
  dr_tenant :: string
  dr_status :: string
  dr_deleted :: nat
  dr_preserved :: nat
  dr_records :: "preserved_record list"

datatype deletion_error =
    ResourceNotFound
  | InvalidTenantUuid
  | StatementFailed
  | AuditFailed audit_error

section \<open>Statements\<close>

text \<open>\<open>_parse_delete_count\<close> on the status \<open>DELETE n\<close> of the driver.\<close>

definition parse_delete_count :: "string \<Rightarrow> nat" where
  "parse_delete_count result =
     (let parts = split_ws result in
      if parts = [] then 0
      else if last parts \<noteq> [] \<and> list_all ascii_digit (last parts) then nat_of_digits (last parts) else 0)"

definition delete_status :: "nat \<Rightarrow> string" where
  "delete_status n = ''DELETE '' @ str_nat n"

definition delete_rows :: "int \<Rightarrow> tenant_table \<Rightarrow> tenant_db \<Rightarrow> string \<times> tenant_db" where
  "delete_rows tid t db =
     (delete_status (length (filter (\<lambda>r. snd r = tid) (td_data db t))),
      db\<lparr>td_data := (td_data db)(t := filter (\<lambda>r. snd r \<noteq> tid) (td_data db t))\<rparr>)"

definition deletion_order :: "tenant_table list" where
  "deletion_order = [Sessions, ResearchJobs, MeteringEvents, Pipelines, CitationsTable]"

fun delete_tables :: "(nat \<Rightarrow> bool) \<Rightarrow> nat \<Rightarrow> int \<Rightarrow> tenant_table list \<Rightarrow> nat \<Rightarrow> tenant_db \<Rightarrow> nat option \<times> tenant_db" where
  "delete_tables ok n tid [] cnt db = (Some cnt, db)"
| "delete_tables ok n tid (t # ts) cnt db =
     (if \<not> ok n then (None, db)
      else (case delete_rows tid t db of
          (status, db') \<Rightarrow> delete_tables ok (Suc n) tid ts (cnt + parse_delete_count status) db'))"

definition delete_tenant_data :: "(nat \<Rightarrow> bool) \<Rightarrow> nat \<Rightarrow> int \<Rightarrow> tenant_db \<Rightarrow> nat option \<times> tenant_db" where
  "delete_tenant_data ok n tid db = delete_tables ok n tid deletion_order 0 db"

definition check_legal_hold :: "datetime \<Rightarrow> int \<Rightarrow> tenant_db \<Rightarrow> bool" where
  "check_legal_hold now tid db =
     (case filter (\<lambda>t. tn_id t = tid) (td_tenants db) of
        [] \<Rightarrow> False
      | t # _ \<Rightarrow> (case tn_hold_until t of None \<Rightarrow> False | Some u \<Rightarrow> u > now))"

definition audit_of :: "int \<Rightarrow> audit_row \<Rightarrow> bool" where
  "audit_of tid r \<longleftrightarrow> ro_tenant r = Some tid"

definition count_audit_entries :: "int \<Rightarrow> tenant_db \<Rightarrow> nat" where
  "count_audit_entries tid db = length (filter (audit_of tid) (adb_rows (td_audit db)))"

definition get_audit_entry_ids :: "int \<Rightarrow> tenant_db \<Rightarrow> int list" where
  "get_audit_entry_ids tid db = map ro_id (filter (audit_of tid) (adb_rows (td_audit db)))"

definition delete_audit_entries :: "int \<Rightarrow> tenant_db \<Rightarrow> (nat \<times> tenant_db) option" where
  "delete_audit_entries tid db =
     (case delete_audit_rows (audit_of tid) (td_audit db) of
        None \<Rightarrow> None
      | Some (n, a) \<Rightarrow> Some (parse_delete_count (delete_status n), db\<lparr>td_audit := a\<rparr>))"

definition set_deletion_state :: "string \<Rightarrow> int \<Rightarrow> tenant_db \<Rightarrow> tenant_db" where
  "set_deletion_state st tid db =
     db\<lparr>td_tenants := map (\<lambda>t. if tn_id t = tid then t\<lparr>tn_deletion_state := st\<rparr> else t) (td_tenants db)\<rparr>"

section \<open>The two operations\<close>

definition deletion_entry :: "string \<Rightarrow> string \<Rightarrow> string \<Rightarrow> string \<Rightarrow> (string, json) dict \<Rightarrow> audit_entry" where
  "deletion_entry action actor tenant_id request_id detail =
     \<lparr>au_action = action, au_tenant = Some tenant_id, au_actor = actor, au_resource = ''tenant/'' @ tenant_id,
      au_request_id = request_id, au_detail = detail\<rparr>"

definition request_deletion :: "(nat \<Rightarrow> bool) \<Rightarrow> tenant_db \<Rightarrow> string \<Rightarrow> string \<Rightarrow> string option
    \<Rightarrow> (deletion_error + deletion_result) \<times> tenant_db" where
  "request_deletion ok db tenant_id request_id requesting =
     (if requesting \<noteq> None \<and> requesting \<noteq> Some tenant_id then (Inl ResourceNotFound, db)
      else (case audit_emit (td_audit db) (deletion_entry ''deletion_requested'' tenant_id tenant_id request_id
                   [(''tenant_id'', JStr tenant_id)]) of
          Inl e \<Rightarrow> (Inl (AuditFailed e), db)
        | Inr a \<Rightarrow>
            (let db = db\<lparr>td_audit := a\<rparr> in
             if \<not> ok 0 then (Inl StatementFailed, db)
             else (case py_uuid tenant_id of
                 None \<Rightarrow> (Inl InvalidTenantUuid, db)
               | Some tid \<Rightarrow> (Inr \<lparr>dr_tenant = tenant_id, dr_status = ''pending_deletion'', dr_deleted = 0,
                                dr_preserved = 0, dr_records = []\<rparr>,
                              set_deletion_state ''pending_deletion'' tid db)))))"

text \<open>
  The audit part of \<open>execute_deletion\<close>: the number of rows deleted, the number preserved and the list
  of preserved records.
\<close>

definition partition_audit :: "(nat \<Rightarrow> bool) \<Rightarrow> bool \<Rightarrow> int \<Rightarrow> tenant_db
    \<Rightarrow> (nat \<times> nat \<times> preserved_record list) option \<times> tenant_db" where
  "partition_audit ok hold tid db =
     (if hold then
        (if \<not> ok 6 \<or> \<not> ok 7 then (None, db)
         else (Some (0, count_audit_entries tid db,
                     map (\<lambda>i. \<lparr>pr_id = i, pr_reason = ''retention_required''\<rparr>) (get_audit_entry_ids tid db)), db))
      else if \<not> ok 6 then (None, db)
      else (case delete_audit_entries tid db of
          None \<Rightarrow> (None, db)
        | Some (n, db') \<Rightarrow> (Some (n, 0, []), db')))"

definition execute_deletion :: "(nat \<Rightarrow> bool) \<Rightarrow> datetime \<Rightarrow> tenant_db \<Rightarrow> string \<Rightarrow> string \<Rightarrow> string option
    \<Rightarrow> (deletion_error + deletion_result) \<times> tenant_db" where
  "execute_deletion ok now db tenant_id request_id requesting =
     (if requesting \<noteq> None \<and> requesting \<noteq> Some tenant_id then (Inl ResourceNotFound, db)
      else (case py_uuid tenant_id of
          None \<Rightarrow> (Inl InvalidTenantUuid, db)
        | Some tid \<Rightarrow>
            (if \<not> ok 0 then (Inl StatementFailed, db)
             else (let hold = check_legal_hold now tid db in
                (case delete_tenant_data ok 1 tid db of
                   (None, db1) \<Rightarrow> (Inl StatementFailed, db1)
                 | (Some deleted, db1) \<Rightarrow> (case partition_audit ok hold tid db1 of
                       (None, db2) \<Rightarrow> (Inl StatementFailed, db2)
                     | (Some (n, preserved, records), db2) \<Rightarrow>
                         (if \<not> ok 8 then (Inl StatementFailed, db2)
                          else (let db3 = set_deletion_state ''deleted'' tid db2 in
                             (case audit_emit (td_audit db3) (deletion_entry ''deletion_completed'' ''system'' tenant_id request_id
                                  [(''tenant_id'', JStr tenant_id), (''records_deleted'', JInt (int (deleted + n))),
                                   (''records_preserved_legal_hold'', JInt (int preserved))]) of
                                Inl e \<Rightarrow> (Inl (AuditFailed e), db3)
                              | Inr a \<Rightarrow> (Inr \<lparr>dr_tenant = tenant_id, dr_status = ''completed'', dr_deleted = deleted + n,
                                              dr_preserved = preserved, dr_records = records\<rparr>,
                                          db3\<lparr>td_audit := a\<rparr>))))))))))"

section \<open>Lemmas\<close>

lemma split_ws_aux_word:
  "list_all (\<lambda>c. \<not> py_isspace c) w \<Longrightarrow> acc \<noteq> [] \<or> w \<noteq> [] \<Longrightarrow> split_ws_aux acc w = [rev acc @ w]"
  by (induction w arbitrary: acc) auto

lemma ascii_digit_not_space: "ascii_digit c \<Longrightarrow> \<not> py_isspace c"
  by (auto simp: ascii_digit_def py_isspace_def Let_def)

lemma parse_delete_status [simp]: "parse_delete_count (delete_status n) = n"
proof -
  have d: "list_all ascii_digit (str_nat n)" by (auto simp: list_all_iff dest: str_nat_digits)
  then have "list_all (\<lambda>c. \<not> py_isspace c) (str_nat n)" by (auto simp: list_all_iff dest: ascii_digit_not_space)
  then have "split_ws (delete_status n) = [''DELETE'', str_nat n]"
    by (simp add: split_ws_def delete_status_def split_ws_aux_word py_isspace_def cp_def)
  with d show ?thesis by (simp add: parse_delete_count_def)
qed

lemma set_deletion_state_simps [simp]:
  "td_data (set_deletion_state st tid db) = td_data db" "td_audit (set_deletion_state st tid db) = td_audit db"
  by (simp_all add: set_deletion_state_def)

lemma set_deletion_state_marks:
  "\<forall>t \<in> set (td_tenants (set_deletion_state st tid db)). tn_id t = tid \<longrightarrow> tn_deletion_state t = st"
proof
  fix t
  have tenants: "td_tenants (set_deletion_state st tid db)
      = map (\<lambda>t. if tn_id t = tid then t\<lparr>tn_deletion_state := st\<rparr> else t) (td_tenants db)"
    by (simp add: set_deletion_state_def)
  assume "t \<in> set (td_tenants (set_deletion_state st tid db))"
  then obtain u where u: "t = (if tn_id u = tid then u\<lparr>tn_deletion_state := st\<rparr> else u)"
    unfolding tenants set_map by (rule imageE)
  show "tn_id t = tid \<longrightarrow> tn_deletion_state t = st" by (simp add: u)
qed

definition own_records :: "int \<Rightarrow> tenant_db \<Rightarrow> nat" where
  "own_records tid db = sum_list (map (\<lambda>t. length (filter (\<lambda>r. snd r = tid) (td_data db t))) deletion_order)"

definition without_tenant :: "int \<Rightarrow> tenant_db \<Rightarrow> tenant_db" where
  "without_tenant tid db = db\<lparr>td_data := (\<lambda>t. filter (\<lambda>r. snd r \<noteq> tid) (td_data db t))\<rparr>"

lemma delete_tables_ok:
  assumes "\<And>n. ok n" and "distinct ts"
  shows "delete_tables ok n tid ts cnt db =
    (Some (cnt + sum_list (map (\<lambda>t. length (filter (\<lambda>r. snd r = tid) (td_data db t))) ts)),
     db\<lparr>td_data := (\<lambda>t. if t \<in> set ts then filter (\<lambda>r. snd r \<noteq> tid) (td_data db t) else td_data db t)\<rparr>)"
  using assms(2)
proof (induction ts arbitrary: n cnt db)
  case Nil
  then show ?case by simp
next
  case (Cons t ts)
  define db1 where "db1 = db\<lparr>td_data := (td_data db)(t := filter (\<lambda>r. snd r \<noteq> tid) (td_data db t))\<rparr>"
  have data: "td_data db1 u = (if u = t then filter (\<lambda>r. snd r \<noteq> tid) (td_data db t) else td_data db u)" for u
    by (simp add: db1_def)
  have step: "delete_tables ok n tid (t # ts) cnt db
      = delete_tables ok (Suc n) tid ts (cnt + length (filter (\<lambda>r. snd r = tid) (td_data db t))) db1"
    by (simp add: assms(1) delete_rows_def db1_def)
  have nums: "map (\<lambda>u. length (filter (\<lambda>r. snd r = tid) (td_data db1 u))) ts
      = map (\<lambda>u. length (filter (\<lambda>r. snd r = tid) (td_data db u))) ts"
    using Cons.prems by (auto simp: data)
  have rows: "(\<lambda>u. if u \<in> set ts then filter (\<lambda>r. snd r \<noteq> tid) (td_data db1 u) else td_data db1 u)
      = (\<lambda>u. if u \<in> set (t # ts) then filter (\<lambda>r. snd r \<noteq> tid) (td_data db u) else td_data db u)"
    using Cons.prems by (auto simp: data)
  have upd: "db1\<lparr>td_data := f\<rparr> = db\<lparr>td_data := f\<rparr>" for f by (simp add: db1_def)
  have "distinct ts" using Cons.prems by simp
  from Cons.IH [OF this, of "Suc n" "cnt + length (filter (\<lambda>r. snd r = tid) (td_data db t))" db1]
  show ?case unfolding step nums rows upd by simp
qed

lemma delete_tenant_data_ok:
  assumes "\<And>n. ok n"
  shows "delete_tenant_data ok n tid db = (Some (own_records tid db), without_tenant tid db)"
proof -
  have all: "t \<in> set deletion_order" for t by (cases t) (simp_all add: deletion_order_def)
  have "distinct deletion_order" by (simp add: deletion_order_def)
  from delete_tables_ok [of ok, OF assms this] show ?thesis
    by (simp add: delete_tenant_data_def own_records_def without_tenant_def all)
qed

lemma td_audit_without [simp]: "td_audit (without_tenant tid db) = td_audit db"
  and td_tenants_without [simp]: "td_tenants (without_tenant tid db) = td_tenants db"
  by (simp_all add: without_tenant_def)

section \<open>Properties\<close>

text \<open>
  Cross-tenant deletion requests are refused like requests for a tenant that does not exist, before
  anything happens: no audit entry, no state change.
\<close>

theorem deletion_refuses_foreign_tenant:
  assumes "requesting \<noteq> tenant_id"
  shows "request_deletion ok db tenant_id request_id (Some requesting) = (Inl ResourceNotFound, db)
    \<and> execute_deletion ok now db tenant_id request_id (Some requesting) = (Inl ResourceNotFound, db)"
  using assms by (simp add: request_deletion_def execute_deletion_def)


text \<open>
  Without a legal hold the deletion of a tenant with an audit trail cannot complete on a database
  that enforces immutability: the tenant's sessions, jobs, metering rows, pipelines and citations are
  gone, the audit rows are still there, the call raises, and the tenant is not marked as deleted.
\<close>

theorem deletion_without_hold_fails:
  assumes "\<forall>n. ok n" and tid: "py_uuid tenant_id = Some tid"
    and "\<not> check_legal_hold now tid db" and "im_immutable (verify_immutability (adb_triggers (td_audit db)))"
    and "\<exists>row \<in> set (adb_rows (td_audit db)). ro_tenant row = Some tid"
  shows "execute_deletion ok now db tenant_id request_id None = (Inl StatementFailed, without_tenant tid db)"
proof -
  have ok: "ok n" for n using assms(1) by blast
  have "''trg_audit_events_no_delete'' \<in> set (adb_triggers (td_audit db))"
    using assms(4) by (auto simp: verify_immutability_def expected_triggers_def Let_def split: if_splits)
  then have "delete_audit_entries tid (without_tenant tid db) = None"
    using assms(5) by (auto simp: delete_audit_entries_def delete_audit_rows_def list_ex_iff audit_of_def)
  with assms(3) show ?thesis
    by (simp add: execute_deletion_def tid ok delete_tenant_data_ok [of ok, OF ok] partition_audit_def Let_def)
qed

section \<open>Witnesses\<close>

definition sample_tenant :: string where
  "sample_tenant = ''00000000-0000-0000-0000-000000000001''"

definition sample_tenant_db :: "datetime option \<Rightarrow> tenant_db" where
  "sample_tenant_db hold =
     \<lparr>td_tenants = [\<lparr>tn_id = 1, tn_hold_until = hold, tn_deletion_state = ''pending_deletion''\<rparr>],
      td_data = (\<lambda>t. [(10, 1), (11, 2)]),
      td_audit = \<lparr>adb_rows = [sample_row 1 0], adb_calls = 0, adb_env = (\<lambda>_. (2, 0, InsertOk)),
                  adb_triggers = expected_triggers\<rparr>\<rparr>"

lemma sample_tenant_uuid: "py_uuid sample_tenant = Some 1"
  by code_simp

theorem deletion_refuses_foreign_tenant_witness:
  "execute_deletion (\<lambda>_. True) 0 (sample_tenant_db None) sample_tenant ''r'' (Some ''x'') = (Inl ResourceNotFound, sample_tenant_db None)"
proof -
  have "''x'' \<noteq> sample_tenant" by (simp add: sample_tenant_def)
  from deletion_refuses_foreign_tenant [OF this] show ?thesis by blast
qed


theorem deletion_without_hold_fails_witness:
  "execute_deletion (\<lambda>_. True) 0 (sample_tenant_db None) sample_tenant ''req-0123456789ab'' None
     = (Inl StatementFailed, without_tenant 1 (sample_tenant_db None))"
proof -
  have "\<forall>n. (\<lambda>_ :: nat. True) n" by simp
  moreover have "\<not> check_legal_hold 0 1 (sample_tenant_db None)" by (simp add: check_legal_hold_def sample_tenant_db_def)
  moreover have "im_immutable (verify_immutability (adb_triggers (td_audit (sample_tenant_db None))))"
    by (simp add: sample_tenant_db_def verify_immutability_def expected_triggers_def)
  moreover have "\<exists>row \<in> set (adb_rows (td_audit (sample_tenant_db None))). ro_tenant row = Some 1"
    by (simp add: sample_tenant_db_def sample_row_def)
  ultimately show ?thesis by (rule deletion_without_hold_fails [OF _ sample_tenant_uuid])
qed

end
