(* ===== verification/SessionStore.thy ===== *)
theory SessionStore
  imports PyStr Interfaces
begin

text \<open>
  Research sessions: \<open>backend/session_store/models.py\<close> (\<open>Session\<close>, \<open>SessionMemory\<close>) and
  \<open>backend/session_store/service.py\<close> (\<open>SessionService\<close>).

  Clock readings and the fresh \<open>uuid4\<close> of a new session are arguments.  The generated identifier and
  timestamp of a stored citation are never read by the code and are left out.  The audit log of the
  sweep is absent, or an object whose \<open>append\<close> succeeds or raises.
\<close>

section \<open>Models\<close>

definition max_citations :: nat where "max_citations = 50"
definition max_doc_ids :: nat where "max_doc_ids = 20"
definition min_retention :: int where "min_retention = 1"
definition max_retention :: int where "max_retention = 90"
definition default_retention :: int where "default_retention = 14"

datatype session_state = Active | Expired | Deleted

record session_citation =
  sc_document_id :: json
  sc_version :: json
  sc_answer_start :: json
  sc_answer_end :: json
  sc_source_start :: json
  sc_source_end :: json

record session_memory =
  sm_citations :: "session_citation list"
  sm_doc_ids :: "string list"

record session =
  se_id :: string
  se_tenant :: string
  se_created :: datetime
  se_retention :: int
  se_state :: session_state
  se_memory :: session_memory

definition empty_memory :: session_memory where
  "empty_memory = \<lparr>sm_citations = [], sm_doc_ids = []\<rparr>"

definition add_citation :: "session_memory \<Rightarrow> session_citation \<Rightarrow> session_memory" where
  "add_citation m c = m\<lparr>sm_citations := deque_append max_citations (sm_citations m) c\<rparr>"

text \<open>\<open>deque.remove\<close> drops the first occurrence, if there is one.\<close>

definition add_doc_id :: "session_memory \<Rightarrow> string \<Rightarrow> session_memory" where
  "add_doc_id m d = m\<lparr>sm_doc_ids := deque_append max_doc_ids (remove1 d (sm_doc_ids m)) d\<rparr>"

definition clear_memory :: "session_memory \<Rightarrow> session_memory" where
  "clear_memory m = m\<lparr>sm_citations := [], sm_doc_ids := []\<rparr>"

definition get_context :: "session_memory \<Rightarrow> session_citation list \<times> string list" where
  "get_context m = (sm_citations m, sm_doc_ids m)"

definition expires_at :: "session \<Rightarrow> datetime" where
  "expires_at s = se_created s + days_us (se_retention s)"

definition is_expired :: "datetime \<Rightarrow> session \<Rightarrow> bool" where
  "is_expired now s \<longleftrightarrow> se_state s \<in> {Expired, Deleted} \<or> now \<ge> expires_at s"

section \<open>The service\<close>

datatype session_error = SessionNotFound string | InvalidSessionRequest

record session_audit =
  sa_resource :: string
  sa_tenant :: string
  sa_time :: datetime

record session_service =
  ss_sessions :: "(string, session) dict"
  ss_audit_ok :: "bool option"
  ss_audits :: "session_audit list"

definition create_session :: "session_service \<Rightarrow> string \<Rightarrow> datetime \<Rightarrow> string \<Rightarrow> int option
    \<Rightarrow> (session_error + session) \<times> session_service" where
  "create_session sv fresh now tenant_id retention_days =
     (let days = (case retention_days of Some d \<Rightarrow> d | None \<Rightarrow> default_retention) in
      if days < min_retention \<or> days > max_retention then (Inl InvalidSessionRequest, sv)
      else (let s = \<lparr>se_id = fresh, se_tenant = tenant_id, se_created = now, se_retention = days,
                     se_state = Active, se_memory = empty_memory\<rparr>
            in (Inr s, sv\<lparr>ss_sessions := dict_set fresh s (ss_sessions sv)\<rparr>)))"

definition get_session :: "session_service \<Rightarrow> datetime \<Rightarrow> string \<Rightarrow> string \<Rightarrow> session_error + session" where
  "get_session sv now session_id tenant_id =
     (case dict_get (ss_sessions sv) session_id of
        None \<Rightarrow> Inl (SessionNotFound session_id)
      | Some s \<Rightarrow>
          if se_tenant s \<noteq> tenant_id then Inl (SessionNotFound session_id)
          else if se_state s \<in> {Expired, Deleted} then Inl (SessionNotFound session_id)
          else if is_expired now s then Inl (SessionNotFound session_id)
          else Inr s)"

definition get_memory :: "session_service \<Rightarrow> datetime \<Rightarrow> string \<Rightarrow> string
    \<Rightarrow> session_error + (session_citation list \<times> string list)" where
  "get_memory sv now session_id tenant_id =
     (case get_session sv now session_id tenant_id of
        Inl e \<Rightarrow> Inl e | Inr s \<Rightarrow> Inr (get_context (se_memory s)))"

definition citation_of :: "(string, json) dict \<Rightarrow> session_citation" where
  "citation_of cit =
     \<lparr>sc_document_id = json_get cit ''document_id'' (JStr ''''), sc_version = json_get cit ''version'' (JInt 1),
      sc_answer_start = json_get cit ''answer_start'' (JInt 0), sc_answer_end = json_get cit ''answer_end'' (JInt 0),
      sc_source_start = json_get cit ''source_start'' (JInt 0), sc_source_end = json_get cit ''source_end'' (JInt 0)\<rparr>"

text \<open>The session object is shared with the dictionary: changing it changes the stored session.\<close>

definition store_session :: "session_service \<Rightarrow> string \<Rightarrow> session \<Rightarrow> session_service" where
  "store_session sv session_id s = sv\<lparr>ss_sessions := dict_set session_id s (ss_sessions sv)\<rparr>"

definition add_to_memory :: "session_service \<Rightarrow> datetime \<Rightarrow> string \<Rightarrow> string \<Rightarrow> (string, json) dict list
    \<Rightarrow> string list \<Rightarrow> (session_error + unit) \<times> session_service" where
  "add_to_memory sv now session_id tenant_id citations doc_ids =
     (case get_session sv now session_id tenant_id of
        Inl e \<Rightarrow> (Inl e, sv)
      | Inr s \<Rightarrow>
          (let m = foldl (\<lambda>m cit. add_citation m (citation_of cit)) (se_memory s) citations;
               m = foldl add_doc_id m doc_ids
           in (Inr (), store_session sv session_id (s\<lparr>se_memory := m\<rparr>))))"

definition delete_session :: "session_service \<Rightarrow> datetime \<Rightarrow> string \<Rightarrow> string \<Rightarrow> (session_error + unit) \<times> session_service" where
  "delete_session sv now session_id tenant_id =
     (case get_session sv now session_id tenant_id of
        Inl e \<Rightarrow> (Inl e, sv)
      | Inr s \<Rightarrow> (Inr (), store_session sv session_id
                    (s\<lparr>se_state := Deleted, se_memory := clear_memory (se_memory s)\<rparr>)))"

definition session_exists :: "session_service \<Rightarrow> datetime \<Rightarrow> string \<Rightarrow> string \<Rightarrow> bool" where
  "session_exists sv now session_id tenant_id = (\<not> is_err (get_session sv now session_id tenant_id))"

definition sweep_due :: "datetime \<Rightarrow> session \<Rightarrow> bool" where
  "sweep_due now s \<longleftrightarrow> se_state s = Active \<and> is_expired now s"

definition sweep_one :: "datetime \<Rightarrow> string \<Rightarrow> session \<Rightarrow> session_service \<Rightarrow> session_service" where
  "sweep_one now sid s sv =
     (let sv = store_session sv sid (s\<lparr>se_state := Expired, se_memory := clear_memory (se_memory s)\<rparr>)
      in if ss_audit_ok sv = Some True
         then sv\<lparr>ss_audits := ss_audits sv @ [\<lparr>sa_resource = sid, sa_tenant = se_tenant s, sa_time = now\<rparr>]\<rparr>
         else sv)"

fun sweep_items :: "datetime \<Rightarrow> (string \<times> session) list \<Rightarrow> session_service \<Rightarrow> string list \<times> session_service" where
  "sweep_items now [] sv = ([], sv)"
| "sweep_items now ((sid, s) # items) sv =
     (if sweep_due now s then
        (let (ids, sv') = sweep_items now items (sweep_one now sid s sv) in (sid # ids, sv'))
      else sweep_items now items sv)"

definition expire_sweep :: "session_service \<Rightarrow> datetime \<Rightarrow> string list \<times> session_service" where
  "expire_sweep sv now = sweep_items now (ss_sessions sv) sv"

section \<open>Tenant isolation\<close>

interpretation sess: tenant_scoped
  "\<lambda>(sv, now) k. map_option (\<lambda>s. (s, now)) (dict_get (ss_sessions sv) k)"
  "\<lambda>(s, now). se_tenant s" "\<lambda>(s, now). \<not> is_expired now s"
  "\<lambda>(sv, now) k t. (case get_session sv now k t of Inl e \<Rightarrow> Inl e | Inr s \<Rightarrow> Inr (s, now))" SessionNotFound
  by unfold_locales (auto simp: get_session_def is_expired_def split: prod.splits option.splits if_splits)

text \<open>
  Sessions of other tenants are invisible. Two stores that hold the same sessions of one tenant, whatever else
  they hold, answer every request of that tenant alike: reading the memory, testing for existence, and the
  outcome of additions and deletions. So a session of another tenant cannot be told from a missing one.
\<close>

theorem session_noninterference:
  assumes "\<forall>s. se_tenant s = t \<longrightarrow> (dict_get (ss_sessions sv) k = Some s) = (dict_get (ss_sessions sv') k = Some s)"
  shows "get_memory sv now k t = get_memory sv' now k t \<and> session_exists sv now k t = session_exists sv' now k t
    \<and> fst (add_to_memory sv now k t cits docs) = fst (add_to_memory sv' now k t cits docs)
    \<and> fst (delete_session sv now k t) = fst (delete_session sv' now k t)"
proof -
  have "(case get_session sv now k t of Inl e \<Rightarrow> Inl e | Inr s \<Rightarrow> Inr (s, now))
      = (case get_session sv' now k t of Inl e \<Rightarrow> Inl e | Inr s \<Rightarrow> Inr (s, now))"
    using sess.get_noninterference [of t "(sv, now)" k "(sv', now)"] assms by auto
  then have "get_session sv now k t = get_session sv' now k t" by (auto split: sum.splits)
  then show ?thesis
    by (simp add: get_memory_def session_exists_def add_to_memory_def delete_session_def Let_def split: sum.split)
qed

theorem session_noninterference_witness:
  "\<exists>sv sv'. sv \<noteq> sv' \<and> get_memory sv 5 ''s'' ''t'' = get_memory sv' 5 ''s'' ''t''"
proof -
  let ?s = "\<lparr>se_id = ''s'', se_tenant = ''other'', se_created = 0, se_retention = 14, se_state = Active, se_memory = empty_memory\<rparr>"
  let ?a = "\<lparr>ss_sessions = [(''s'', ?s)], ss_audit_ok = None, ss_audits = []\<rparr>"
  let ?b = "\<lparr>ss_sessions = [], ss_audit_ok = None, ss_audits = []\<rparr>"
  have "\<forall>s. se_tenant s = ''t'' \<longrightarrow> (dict_get (ss_sessions ?a) ''s'' = Some s) = (dict_get (ss_sessions ?b) ''s'' = Some s)"
    by (auto simp: dict_get_def)
  from session_noninterference [OF this, of 5] show ?thesis
    by (intro exI [of _ ?a] exI [of _ ?b]) simp
qed

section \<open>What the memory holds\<close>

definition last_n :: "nat \<Rightarrow> 'a list \<Rightarrow> 'a list" where
  "last_n n xs = drop (length xs - n) xs"

lemma length_last_n [simp]: "length (last_n n xs) = min n (length xs)"
  by (simp add: last_n_def)

lemma foldl_citations:
  "sm_citations m = last_n max_citations h \<Longrightarrow>
   sm_citations (foldl (\<lambda>m cit. add_citation m (citation_of cit)) m cits) = last_n max_citations (h @ map citation_of cits)
   \<and> sm_doc_ids (foldl (\<lambda>m cit. add_citation m (citation_of cit)) m cits) = sm_doc_ids m"
proof (induction cits arbitrary: m h)
  case Nil
  then show ?case by simp
next
  case (Cons c cits)
  have "sm_citations (add_citation m (citation_of c)) = last_n max_citations (h @ [citation_of c])"
    using Cons.prems by (simp add: add_citation_def last_n_def deque_append_recent)
  from Cons.IH [OF this] show ?case by (simp add: add_citation_def)
qed

lemma remove1_distinct: "distinct xs \<Longrightarrow> remove1 x xs = filter (\<lambda>y. y \<noteq> x) xs"
  by (simp add: distinct_remove1_removeAll removeAll_filter_not_eq) (rule filter_cong, auto)

lemma filter_neq_id: "x \<notin> set b \<Longrightarrow> filter (\<lambda>y. y \<noteq> x) b = b"
  by (induction b) auto

lemma remdups_snoc: "remdups (h @ [x]) = filter (\<lambda>y. y \<noteq> x) (remdups h) @ [x]"
  by (induction h) auto

lemma last_n_filter:
  assumes "distinct r" and "0 < n"
  shows "deque_append n (remove1 x (last_n n r)) x = last_n n (filter (\<lambda>y. y \<noteq> x) r @ [x])"
proof -
  have dist: "distinct (last_n n r)" using assms(1) by (simp add: last_n_def)
  obtain a b where r: "r = a @ b" "b = last_n n r" "length b = min n (length r)"
    by (metis append_take_drop_id last_n_def length_last_n)
  have "length r = length a + length b" by (subst r(1)) simp
  with r(3) have small: "a \<noteq> [] \<Longrightarrow> length b = n" by (cases "n \<le> length r") auto
  have rem: "remove1 x (last_n n r) = filter (\<lambda>y. y \<noteq> x) b"
    using dist r(2) by (simp add: remove1_distinct)
  let ?fa = "filter (\<lambda>y. y \<noteq> x) a" and ?fb = "filter (\<lambda>y. y \<noteq> x) b"
  have lb: "length ?fb \<le> length b" "length b \<le> Suc (length ?fb)"
  proof -
    show "length ?fb \<le> length b" by simp
    have "distinct b" using dist r(2) by simp
    then show "length b \<le> Suc (length ?fb)"
    proof (induction b)
      case (Cons y b)
      then show ?case by (cases "y = x") (auto simp: filter_neq_id)
    qed simp
  qed
  have "last_n n (?fa @ ?fb @ [x]) = drop (Suc (length ?fb) - n) (?fb @ [x])"
  proof (cases "a = []")
    case True
    then show ?thesis by (simp add: last_n_def)
  next
    case False
    with small lb have "n \<le> Suc (length ?fb)" by simp
    then show ?thesis by (simp add: last_n_def)
  qed
  moreover have "filter (\<lambda>y. y \<noteq> x) r @ [x] = ?fa @ ?fb @ [x]" using r(1) by (metis append_assoc filter_append)
  ultimately show ?thesis by (simp add: deque_append_def rem)
qed

lemma foldl_doc_ids:
  "sm_doc_ids m = last_n max_doc_ids (remdups h) \<Longrightarrow>
   sm_doc_ids (foldl add_doc_id m docs) = last_n max_doc_ids (remdups (h @ docs))
   \<and> sm_citations (foldl add_doc_id m docs) = sm_citations m"
proof (induction docs arbitrary: m h)
  case Nil
  then show ?case by simp
next
  case (Cons d docs)
  have "sm_doc_ids (add_doc_id m d) = last_n max_doc_ids (remdups (h @ [d]))"
    using Cons.prems last_n_filter [of "remdups h" max_doc_ids d]
    by (simp add: add_doc_id_def remdups_snoc max_doc_ids_def)
  from Cons.IH [OF this] show ?case by (simp add: add_doc_id_def)
qed

section \<open>Histories\<close>

datatype session_op =
    SCreate string datetime string "int option"
  | SAdd datetime string string "(string, json) dict list" "string list"
  | SDelete datetime string string
  | SSweep datetime

fun session_step :: "session_service \<Rightarrow> session_op \<Rightarrow> session_service" where
  "session_step sv (SCreate fresh now t r) = snd (create_session sv fresh now t r)"
| "session_step sv (SAdd now k t cits docs) = snd (add_to_memory sv now k t cits docs)"
| "session_step sv (SDelete now k t) = snd (delete_session sv now k t)"
| "session_step sv (SSweep now) = snd (expire_sweep sv now)"

definition run_sessions :: "session_service \<Rightarrow> session_op list \<Rightarrow> session_service" where
  "run_sessions sv ops = foldl session_step sv ops"

fun op_time :: "session_op \<Rightarrow> datetime" where
  "op_time (SCreate fresh now t r) = now"
| "op_time (SAdd now k t cits docs) = now"
| "op_time (SDelete now k t) = now"
| "op_time (SSweep now) = now"

fun creates :: "string \<Rightarrow> session_op \<Rightarrow> bool" where
  "creates k (SCreate fresh now t r) = (fresh = k)"
| "creates k op = False"

text \<open>What the owner \<open>t\<close> adds to session \<open>k\<close>.\<close>

fun own_citations :: "string \<Rightarrow> string \<Rightarrow> session_op \<Rightarrow> session_citation list" where
  "own_citations k t (SAdd now k' t' cits docs) = (if k' = k \<and> t' = t then map citation_of cits else [])"
| "own_citations k t op = []"

fun own_docs :: "string \<Rightarrow> string \<Rightarrow> session_op \<Rightarrow> string list" where
  "own_docs k t (SAdd now k' t' cits docs) = (if k' = k \<and> t' = t then docs else [])"
| "own_docs k t op = []"

text \<open>
  The invariant on session \<open>k\<close> of tenant \<open>t\<close>: it is stored, belongs to \<open>t\<close>, and while it is active its
  memory is the recent part of what \<open>t\<close> added, of which \<open>cs\<close> and \<open>ds\<close> are the record.
\<close>

definition holds_session :: "string \<Rightarrow> string \<Rightarrow> datetime \<Rightarrow> session_citation list \<Rightarrow> string list \<Rightarrow> session_service \<Rightarrow> bool" where
  "holds_session k t e cs ds sv \<longleftrightarrow> (\<exists>s. dict_get (ss_sessions sv) k = Some s \<and> se_tenant s = t \<and> expires_at s = e
     \<and> (se_state s = Active \<longrightarrow> sm_citations (se_memory s) = last_n max_citations cs
          \<and> sm_doc_ids (se_memory s) = last_n max_doc_ids (remdups ds)))"

text \<open>A closed session: it will never be readable again.\<close>

definition closed_session :: "string \<Rightarrow> session_service \<Rightarrow> bool" where
  "closed_session k sv \<longleftrightarrow> (\<exists>s. dict_get (ss_sessions sv) k = Some s \<and> se_state s \<noteq> Active)"

lemma get_session_Inr:
  "get_session sv now k t = Inr s \<longleftrightarrow> dict_get (ss_sessions sv) k = Some s \<and> se_tenant s = t \<and> se_state s = Active \<and> now < expires_at s"
  by (cases "dict_get (ss_sessions sv) k"; cases "se_state s") (auto simp: get_session_def is_expired_def)

lemma sweep_one_sessions [simp]:
  "ss_sessions (sweep_one now sid s sv)
     = dict_set sid (s\<lparr>se_state := Expired, se_memory := clear_memory (se_memory s)\<rparr>) (ss_sessions sv)"
  by (simp add: sweep_one_def store_session_def Let_def)

lemma snd_sweep_Cons:
  "snd (sweep_items now ((sid, s) # items) sv)
     = snd (sweep_items now items (if sweep_due now s then sweep_one now sid s sv else sv))"
  by (simp add: Let_def split: prod.split)

lemma sweep_items_get:
  assumes "dict_ok items" and "dict_get (ss_sessions sv) k = Some s"
    and "\<And>u. dict_get items k = Some u \<Longrightarrow> u = s"
  shows "dict_get (ss_sessions (snd (sweep_items now items sv))) k
      = Some (if dict_get items k \<noteq> None \<and> sweep_due now s
              then s\<lparr>se_state := Expired, se_memory := clear_memory (se_memory s)\<rparr> else s)"
  using assms
proof (induction items arbitrary: sv s)
  case Nil
  then show ?case by simp
next
  case (Cons it items)
  obtain sid u where it: "it = (sid, u)" by (cases it)
  have ok: "dict_ok items" and new: "dict_get items sid = None"
    using Cons.prems(1) it by (auto simp: dict_ok_def dict_get_None_iff)
  let ?u = "u\<lparr>se_state := Expired, se_memory := clear_memory (se_memory u)\<rparr>"
  let ?sv = "sweep_one now sid u sv"
  have sess: "ss_sessions ?sv = dict_set sid ?u (ss_sessions sv)" by simp
  have rest: "k \<noteq> sid \<and> v = s" if v: "dict_get items k = Some v" for v
  proof -
    have "k \<noteq> sid" using v new by auto
    with v it have "dict_get (it # items) k = Some v" by (simp add: dict_get_def)
    with \<open>k \<noteq> sid\<close> Cons.prems(3) show ?thesis by blast
  qed
  show ?case
  proof (cases "sweep_due now u")
    case False
    with Cons.IH [OF ok Cons.prems(2)] rest Cons.prems(3) it new show ?thesis
      by (auto simp: dict_get_def split: if_splits)
  next
    case True
    then have step: "snd (sweep_items now (it # items) sv) = snd (sweep_items now items ?sv)"
      by (simp add: it snd_sweep_Cons del: sweep_items.simps)
    show ?thesis
    proof (cases "k = sid")
      case True
      then have "u = s" using Cons.prems(3) it by (simp add: dict_get_def)
      moreover have "dict_get (ss_sessions ?sv) k = Some ?u" unfolding sess using True by simp
      from Cons.IH [OF ok this] True new have "dict_get (ss_sessions (snd (sweep_items now items ?sv))) k = Some ?u"
        by (simp del: sweep_one_sessions)
      ultimately show ?thesis unfolding step using True \<open>sweep_due now u\<close> it by (simp add: dict_get_def)
    next
      case False
      then have "dict_get (ss_sessions ?sv) k = Some s" unfolding sess using Cons.prems(2) by simp
      from Cons.IH [OF ok this] rest have "dict_get (ss_sessions (snd (sweep_items now items ?sv))) k
        = Some (if dict_get items k \<noteq> None \<and> sweep_due now s
              then s\<lparr>se_state := Expired, se_memory := clear_memory (se_memory s)\<rparr> else s)" by blast
      with False it show ?thesis unfolding step by (simp add: dict_get_def)
    qed
  qed
qed

lemma sweep_get:
  assumes "dict_ok (ss_sessions sv)" and "dict_get (ss_sessions sv) k = Some s"
  shows "dict_get (ss_sessions (snd (expire_sweep sv now))) k
      = Some (if sweep_due now s then s\<lparr>se_state := Expired, se_memory := clear_memory (se_memory s)\<rparr> else s)"
  using sweep_items_get [OF assms] assms(2) by (simp add: expire_sweep_def)

lemma sweep_items_dict_ok: "dict_ok (ss_sessions sv) \<Longrightarrow> dict_ok (ss_sessions (snd (sweep_items now items sv)))"
  by (induction items arbitrary: sv) (auto simp: snd_sweep_Cons dict_ok_set simp del: sweep_items.simps(2))

lemma session_step_dict_ok: "dict_ok (ss_sessions sv) \<Longrightarrow> dict_ok (ss_sessions (session_step sv op))"
  by (cases op) (auto simp: create_session_def add_to_memory_def delete_session_def expire_sweep_def store_session_def
      Let_def sweep_items_dict_ok intro: dict_ok_set split: sum.splits)

lemma run_sessions_snoc: "run_sessions sv (ops @ [op]) = session_step (run_sessions sv ops) op"
  by (simp add: run_sessions_def)

lemma run_sessions_dict_ok: "dict_ok (ss_sessions sv) \<Longrightarrow> dict_ok (ss_sessions (run_sessions sv ops))"
  by (induction ops rule: rev_induct) (simp_all add: run_sessions_def session_step_dict_ok)

lemma active_add_holds:
  assumes s: "dict_get (ss_sessions sv) k = Some s" "se_tenant s = t" "expires_at s = e"
    and mem: "sm_citations (se_memory s) = last_n max_citations cs" "sm_doc_ids (se_memory s) = last_n max_doc_ids (remdups ds)"
    and "se_state s = Active" and "now < e"
  shows "holds_session k t e (cs @ map citation_of cits) (ds @ docs) (session_step sv (SAdd now k t cits docs))"
proof -
  have g: "get_session sv now k t = Inr s" using assms by (simp add: get_session_Inr)
  let ?m1 = "foldl (\<lambda>m cit. add_citation m (citation_of cit)) (se_memory s) cits"
  let ?m = "foldl add_doc_id ?m1 docs"
  have m1: "sm_citations ?m1 = last_n max_citations (cs @ map citation_of cits)"
    "sm_doc_ids ?m1 = last_n max_doc_ids (remdups ds)"
    using foldl_citations [of "se_memory s" cs cits] mem by auto
  from foldl_doc_ids [OF m1(2), of docs] m1(1)
  have "sm_citations ?m = last_n max_citations (cs @ map citation_of cits)"
    "sm_doc_ids ?m = last_n max_doc_ids (remdups (ds @ docs))" by auto
  then show ?thesis using s by (simp add: holds_session_def add_to_memory_def g store_session_def expires_at_def Let_def)
qed

lemma session_step_holds:
  assumes inv: "holds_session k t e cs ds sv" and ok: "dict_ok (ss_sessions sv)"
    and "\<not> creates k op" and early: "op_time op < e"
  shows "holds_session k t e (cs @ own_citations k t op) (ds @ own_docs k t op) (session_step sv op)"
proof -
  from inv obtain s where s: "dict_get (ss_sessions sv) k = Some s" "se_tenant s = t" "expires_at s = e"
    and mem: "se_state s = Active \<Longrightarrow> sm_citations (se_memory s) = last_n max_citations cs
          \<and> sm_doc_ids (se_memory s) = last_n max_doc_ids (remdups ds)"
    unfolding holds_session_def by blast
  show ?thesis
  proof (cases op)
    case (SCreate fresh now t' r)
    with assms(3) s mem show ?thesis by (auto simp: holds_session_def create_session_def Let_def)
  next
    case (SSweep now)
    have "dict_get (ss_sessions (session_step sv op)) k = Some s"
      using sweep_get [OF ok s(1), of now] early s(3) SSweep by (auto simp: sweep_due_def is_expired_def)
    with s mem SSweep show ?thesis by (auto simp: holds_session_def)
  next
    case (SDelete now k' t')
    with s mem show ?thesis
      by (auto simp: holds_session_def delete_session_def store_session_def get_session_Inr expires_at_def split: sum.splits)
  next
    case (SAdd now k' t' cits docs)
    show ?thesis
    proof (cases "k' = k \<and> t' = t \<and> se_state s = Active")
      case True
      with active_add_holds [OF s, of cs ds now cits docs] mem early SAdd show ?thesis by simp
    next
      case False
      have same: "dict_get (ss_sessions (session_step sv op)) k = Some s"
        using False s SAdd by (auto simp: add_to_memory_def store_session_def get_session_Inr Let_def split: sum.splits)
      show ?thesis
      proof (cases "k' = k \<and> t' = t")
        case True
        with False same s show ?thesis by (auto simp: holds_session_def)
      next
        case False
        with same s mem SAdd show ?thesis by (auto simp: holds_session_def)
      qed
    qed
  qed
qed

lemma run_sessions_holds:
  assumes "holds_session k t e [] [] sv" and "dict_ok (ss_sessions sv)"
    and "\<forall>op \<in> set ops. \<not> creates k op \<and> op_time op < e"
  shows "holds_session k t e (concat (map (own_citations k t) ops)) (concat (map (own_docs k t) ops)) (run_sessions sv ops)"
  using assms(3)
proof (induction ops rule: rev_induct)
  case Nil
  with assms(1) show ?case by (simp add: run_sessions_def)
next
  case (snoc op ops)
  then have "holds_session k t e (concat (map (own_citations k t) ops)) (concat (map (own_docs k t) ops)) (run_sessions sv ops)"
    by simp
  from session_step_holds [OF this run_sessions_dict_ok [OF assms(2)], of op] snoc.prems
  show ?case by (simp add: run_sessions_snoc)
qed

text \<open>
  C7. Session memory. However the requests of all tenants, deletions and expiry sweeps are interleaved,
  a readable session holds exactly the last 50 citations its owner added and the last 20 distinct
  document ids in order of their latest mention; nothing another tenant sends has any effect on it.
\<close>

theorem session_memory_recent:
  assumes "holds_session k t e [] [] sv" and "dict_ok (ss_sessions sv)"
    and "\<forall>op \<in> set ops. \<not> creates k op \<and> op_time op \<le> now"
    and "get_memory (run_sessions sv ops) now k t = Inr (cits, docs)"
  shows "cits = last_n 50 (concat (map (own_citations k t) ops))
    \<and> docs = last_n 20 (remdups (concat (map (own_docs k t) ops))) \<and> length cits \<le> 50 \<and> length docs \<le> 20"
proof -
  from assms(4) obtain s where s: "get_session (run_sessions sv ops) now k t = Inr s"
    and m: "cits = sm_citations (se_memory s)" "docs = sm_doc_ids (se_memory s)"
    by (auto simp: get_memory_def get_context_def split: sum.splits)
  have exp: "now < e"
  proof (rule ccontr)
    assume "\<not> now < e"
    have "\<exists>s. dict_get (ss_sessions (run_sessions sv ops)) k = Some s \<and> expires_at s = e"
      using assms(3)
    proof (induction ops rule: rev_induct)
      case Nil
      with assms(1) show ?case by (auto simp: run_sessions_def holds_session_def)
    next
      case (snoc op ops)
      then obtain u where u: "dict_get (ss_sessions (run_sessions sv ops)) k = Some u" "expires_at u = e" by auto
      have nc: "\<not> creates k op" using snoc.prems by simp
      show ?case
      proof (cases op)
        case (SSweep n)
        with sweep_get [OF run_sessions_dict_ok [OF assms(2)] u(1), of n] u(2) show ?thesis
          by (auto simp: run_sessions_snoc expires_at_def)
      qed (use u nc in \<open>auto simp: run_sessions_snoc create_session_def add_to_memory_def delete_session_def store_session_def
            get_session_Inr expires_at_def Let_def split: sum.splits\<close>)
    qed
    with s \<open>\<not> now < e\<close> show False by (auto simp: get_session_Inr)
  qed
  then have "\<forall>op \<in> set ops. \<not> creates k op \<and> op_time op < e" using assms(3) by fastforce
  from run_sessions_holds [OF assms(1,2) this] s m show ?thesis
    by (auto simp: holds_session_def get_session_Inr max_citations_def max_doc_ids_def)
qed

theorem session_memory_recent_witness:
  "\<exists>sv. get_memory (run_sessions sv [SAdd 1 ''s'' ''t'' [] [''a'', ''b'', ''a''], SAdd 2 ''s'' ''x'' [] [''evil''], SSweep 3]) 4 ''s'' ''t''
     = Inr ([], [''b'', ''a''])"
proof -
  let ?s = "\<lparr>se_id = ''s'', se_tenant = ''t'', se_created = 0, se_retention = 14, se_state = Active, se_memory = empty_memory\<rparr>"
  let ?sv = "\<lparr>ss_sessions = [(''s'', ?s)], ss_audit_ok = None, ss_audits = []\<rparr>"
  let ?ops = "[SAdd 1 ''s'' ''t'' [] [''a'', ''b'', ''a''], SAdd 2 ''s'' ''x'' [] [''evil''], SSweep 3]"
  have h: "holds_session ''s'' ''t'' (expires_at ?s) [] [] ?sv"
    by (simp add: holds_session_def dict_get_def empty_memory_def last_n_def)
  have o: "dict_ok (ss_sessions ?sv)" by (simp add: dict_ok_def)
  have ops: "\<forall>op \<in> set ?ops. \<not> creates ''s'' op \<and> op_time op \<le> 4" by simp
  have "\<not> is_err (get_memory (run_sessions ?sv ?ops) 4 ''s'' ''t'')" by code_simp
  then obtain r where r: "get_memory (run_sessions ?sv ?ops) 4 ''s'' ''t'' = Inr r"
    by (cases "get_memory (run_sessions ?sv ?ops) 4 ''s'' ''t''") auto
  obtain c d where cd: "r = (c, d)" by (cases r)
  from session_memory_recent [OF h o ops r [unfolded cd]] r cd show ?thesis
    by (intro exI [of _ ?sv]) (simp add: last_n_def)
qed

section \<open>The sweep\<close>

lemma sweep_one_audits:
  "ss_audits (sweep_one now sid s sv) = ss_audits sv @
     (if ss_audit_ok sv = Some True then [\<lparr>sa_resource = sid, sa_tenant = se_tenant s, sa_time = now\<rparr>] else [])"
  "ss_audit_ok (sweep_one now sid s sv) = ss_audit_ok sv"
  by (simp_all add: sweep_one_def store_session_def Let_def)

lemma sweep_items_ids:
  "fst (sweep_items now items sv) = map fst (filter (\<lambda>p. sweep_due now (snd p)) items)"
proof (induction items arbitrary: sv)
  case (Cons it items)
  obtain sid u where it: "it = (sid, u)" by (cases it)
  obtain x y where "sweep_items now items (sweep_one now sid u sv) = (x, y)"
    by (cases "sweep_items now items (sweep_one now sid u sv)")
  moreover from this Cons.IH [of "sweep_one now sid u sv"]
  have "x = map fst (filter (\<lambda>p. sweep_due now (snd p)) items)" by simp
  ultimately show ?case using Cons.IH by (simp add: it Let_def)
qed simp

lemma sweep_items_audits:
  "ss_audits (snd (sweep_items now items sv)) = ss_audits sv @ (if ss_audit_ok sv = Some True
     then map (\<lambda>p. \<lparr>sa_resource = fst p, sa_tenant = se_tenant (snd p), sa_time = now\<rparr>)
            (filter (\<lambda>p. sweep_due now (snd p)) items) else [])"
  by (induction items arbitrary: sv)
    (auto simp: snd_sweep_Cons sweep_one_audits simp del: sweep_items.simps(2))

text \<open>
  The expiry sweep closes exactly the active sessions whose retention has run out: it returns their
  identifiers, clears their memory, leaves every other session as it is, writes one audit entry for each
  when the audit log works, and a closed session cannot be read again by anyone.
\<close>

theorem expire_sweep_exact:
  assumes "dict_ok (ss_sessions sv)" and "expire_sweep sv now = (ids, sv')"
  shows "ids = map fst (filter (\<lambda>p. sweep_due now (snd p)) (ss_sessions sv))
    \<and> ss_audits sv' = ss_audits sv @ (if ss_audit_ok sv = Some True
         then map (\<lambda>p. \<lparr>sa_resource = fst p, sa_tenant = se_tenant (snd p), sa_time = now\<rparr>)
            (filter (\<lambda>p. sweep_due now (snd p)) (ss_sessions sv)) else [])
    \<and> (\<forall>k s. dict_get (ss_sessions sv) k = Some s \<longrightarrow>
         (if sweep_due now s then get_memory sv' later k t = Inl (SessionNotFound k)
             \<and> (\<exists>s'. dict_get (ss_sessions sv') k = Some s' \<and> se_state s' = Expired \<and> se_memory s' = empty_memory)
          else dict_get (ss_sessions sv') k = Some s))"
proof -
  have sv': "sv' = snd (expire_sweep sv now)" and ids: "ids = fst (expire_sweep sv now)" using assms(2) by simp_all
  have "if sweep_due now s then get_memory sv' later k t = Inl (SessionNotFound k)
             \<and> (\<exists>s'. dict_get (ss_sessions sv') k = Some s' \<and> se_state s' = Expired \<and> se_memory s' = empty_memory)
          else dict_get (ss_sessions sv') k = Some s" if k: "dict_get (ss_sessions sv) k = Some s" for k s
    using sweep_get [OF assms(1) k, of now]
    by (auto simp: sv' get_memory_def get_session_def clear_memory_def empty_memory_def)
  moreover have "ids = map fst (filter (\<lambda>p. sweep_due now (snd p)) (ss_sessions sv))"
    by (simp add: ids expire_sweep_def sweep_items_ids)
  moreover have "ss_audits sv' = ss_audits sv @ (if ss_audit_ok sv = Some True
         then map (\<lambda>p. \<lparr>sa_resource = fst p, sa_tenant = se_tenant (snd p), sa_time = now\<rparr>)
            (filter (\<lambda>p. sweep_due now (snd p)) (ss_sessions sv)) else [])"
    unfolding sv' expire_sweep_def by (rule sweep_items_audits)
  ultimately show ?thesis by blast
qed

theorem expire_sweep_exact_witness:
  "\<exists>sv. fst (expire_sweep sv (days_us 14)) = [''s'']"
proof -
  let ?s = "\<lparr>se_id = ''s'', se_tenant = ''t'', se_created = 0, se_retention = 14, se_state = Active, se_memory = empty_memory\<rparr>"
  let ?sv = "\<lparr>ss_sessions = [(''s'', ?s), (''u'', ?s\<lparr>se_retention := 15\<rparr>)], ss_audit_ok = Some True, ss_audits = []\<rparr>"
  have ok: "dict_ok (ss_sessions ?sv)" by (simp add: dict_ok_def)
  obtain ids sv' where e: "expire_sweep ?sv (days_us 14) = (ids, sv')" by (cases "expire_sweep ?sv (days_us 14)")
  have "map fst (filter (\<lambda>p. sweep_due (days_us 14) (snd p)) (ss_sessions ?sv)) = [''s'']"
    by (simp add: sweep_due_def is_expired_def expires_at_def days_us_def seconds_us_def us_per_second_def)
  with expire_sweep_exact [OF ok e] have "ids = [''s'']" by simp
  with e show ?thesis by (intro exI [of _ ?sv]) simp
qed

end
