(* ===== verification/ResearchEvents.thy ===== *)
theory ResearchEvents
  imports PyStr Interfaces
begin

text \<open>
  The data and the event stream of research jobs: \<open>backend/research_agent/models.py\<close>,
  \<open>backend/research_agent/events.py\<close> (replay buffer and emitter) and
  \<open>backend/research_agent/budget.py\<close>.

  Event payloads are JSON objects, as in the code; timestamps that nothing reads are left out.
\<close>

section \<open>Models\<close>

datatype job_state = Queued | Planning | Running | Succeeded | Failed | BudgetExceeded

datatype step_type = SubQuery | RetrievalStep | ReadStep | Synthesis

datatype event_type = PlanUpdated | StepStarted | StepCompleted | CitationEvent | ReportChunk | Done | ErrorEvent

definition step_type_value :: "step_type \<Rightarrow> string" where
  "step_type_value t = (case t of SubQuery \<Rightarrow> ''sub_query'' | RetrievalStep \<Rightarrow> ''retrieval'' | ReadStep \<Rightarrow> ''read''
     | Synthesis \<Rightarrow> ''synthesis'')"

record budget_config =
  bc_max_steps :: int
  bc_max_duration_ms :: int
  bc_max_tool_calls :: int

definition default_budget :: budget_config where
  "default_budget = \<lparr>bc_max_steps = 32, bc_max_duration_ms = 300000, bc_max_tool_calls = 100\<rparr>"

record plan_step =
  ps_id :: string
  ps_type :: step_type
  ps_description :: string
  ps_goal :: "string option"

record research_plan =
  rp_job :: string
  rp_steps :: "plan_step list"

definition plan_valid :: "research_plan \<Rightarrow> bool" where
  "plan_valid p \<longleftrightarrow> 1 \<le> length (rp_steps p) \<and> length (rp_steps p) \<le> 32"

record research_event =
  re_id :: nat
  re_job :: string
  re_type :: event_type
  re_payload :: "(string, json) dict"

record research_citation =
  rc_document_id :: json
  rc_version :: json
  rc_answer_start :: json
  rc_answer_end :: json
  rc_source_start :: json
  rc_source_end :: json

record research_report =
  rr_job :: string
  rr_text :: string
  rr_structured :: "(string, json) dict option"
  rr_citations :: "research_citation list"
  rr_partial :: bool

record research_job =
  rj_id :: string
  rj_tenant :: string
  rj_goal :: string
  rj_schema :: "(string, json) dict option"
  rj_budgets :: budget_config
  rj_state :: job_state
  rj_plan :: "research_plan option"
  rj_report :: "research_report option"
  rj_steps_executed :: nat
  rj_tool_calls :: nat

section \<open>The replay buffer\<close>

record event_buffer =
  eb_retention :: rat
  eb_buffers :: "(string, research_event list) dict"
  eb_terminal :: "(string, rat) dict"

definition buffer_of :: "event_buffer \<Rightarrow> string \<Rightarrow> research_event list" where
  "buffer_of b j = (case dict_get (eb_buffers b) j of Some es \<Rightarrow> es | None \<Rightarrow> [])"

definition is_terminal :: "event_type \<Rightarrow> bool" where
  "is_terminal t \<longleftrightarrow> t \<in> {Done, ErrorEvent}"

text \<open>The flag is False for the \<open>ValueError\<close>; reading a missing key of the defaultdict creates it.\<close>

definition buffer_append :: "event_buffer \<Rightarrow> rat \<Rightarrow> research_event \<Rightarrow> bool \<times> event_buffer" where
  "buffer_append b now e =
     (let es = buffer_of b (re_job e) in
      if es \<noteq> [] \<and> re_id e \<le> re_id (last es)
      then (False, b)
      else (True, b\<lparr>eb_buffers := dict_set (re_job e) (es @ [e]) (eb_buffers b),
                    eb_terminal := (if is_terminal (re_type e) then dict_set (re_job e) now (eb_terminal b)
                                    else eb_terminal b)\<rparr>))"

definition replay :: "event_buffer \<Rightarrow> string \<Rightarrow> nat option \<Rightarrow> research_event list" where
  "replay b j last_event_id =
     (case last_event_id of
        None \<Rightarrow> buffer_of b j
      | Some n \<Rightarrow> filter (\<lambda>e. re_id e > n) (buffer_of b j))"

fun cleanup_items :: "rat \<Rightarrow> (string \<times> rat) list \<Rightarrow> event_buffer \<Rightarrow> string list \<times> event_buffer" where
  "cleanup_items now [] b = ([], b)"
| "cleanup_items now ((j, t) # items) b =
     (if now - t > eb_retention b
      then (let (js, b') = cleanup_items now items
                  (b\<lparr>eb_buffers := dict_del j (eb_buffers b), eb_terminal := dict_del j (eb_terminal b)\<rparr>)
            in (j # js, b'))
      else cleanup_items now items b)"

definition buffer_cleanup :: "rat \<Rightarrow> event_buffer \<Rightarrow> string list \<times> event_buffer" where
  "buffer_cleanup now b = cleanup_items now (eb_terminal b) b"

definition has_job :: "event_buffer \<Rightarrow> string \<Rightarrow> bool" where
  "has_job b j \<longleftrightarrow> dict_get (eb_buffers b) j \<noteq> None \<and> buffer_of b j \<noteq> []"

section \<open>The emitter\<close>

record event_emitter =
  em_buffer :: event_buffer
  em_counters :: "(string, nat) dict"

definition counter_of :: "event_emitter \<Rightarrow> string \<Rightarrow> nat" where
  "counter_of em j = (case dict_get (em_counters em) j of Some n \<Rightarrow> n | None \<Rightarrow> 0)"

definition event_emit :: "event_emitter \<Rightarrow> rat \<Rightarrow> string \<Rightarrow> event_type \<Rightarrow> (string, json) dict \<Rightarrow> bool \<times> event_emitter" where
  "event_emit em now j t payload =
     (let n = Suc (counter_of em j);
          e = \<lparr>re_id = n, re_job = j, re_type = t, re_payload = payload\<rparr>;
          (ok, b) = buffer_append (em_buffer em) now e
      in (ok, \<lparr>em_buffer = b, em_counters = dict_set j n (em_counters em)\<rparr>))"

definition new_emitter :: "rat \<Rightarrow> event_emitter" where
  "new_emitter retention = \<lparr>em_buffer = \<lparr>eb_retention = retention, eb_buffers = [], eb_terminal = []\<rparr>, em_counters = []\<rparr>"

section \<open>The budget\<close>

record budget_tracker =
  bt_config :: budget_config
  bt_steps :: nat
  bt_tool_calls :: nat
  bt_start_ms :: rat

record budget_error =
  be_reason :: string
  be_current :: int
  be_limit :: int

definition budget_start :: "budget_config \<Rightarrow> rat \<Rightarrow> budget_tracker" where
  "budget_start c now_ms = \<lparr>bt_config = c, bt_steps = 0, bt_tool_calls = 0, bt_start_ms = now_ms\<rparr>"

definition elapsed_ms :: "budget_tracker \<Rightarrow> rat \<Rightarrow> rat" where
  "elapsed_ms b now_ms = (if bt_start_ms b = 0 then 0 else now_ms - bt_start_ms b)"

definition budget_check :: "budget_tracker \<Rightarrow> rat \<Rightarrow> budget_error option" where
  "budget_check b now_ms =
     (let c = bt_config b; elapsed = elapsed_ms b now_ms in
      if int (bt_steps b) \<ge> bc_max_steps c then
        Some \<lparr>be_reason = ''max_steps'', be_current = int (bt_steps b), be_limit = bc_max_steps c\<rparr>
      else if bt_start_ms b > 0 \<and> elapsed \<ge> of_int (bc_max_duration_ms c) then
        Some \<lparr>be_reason = ''max_duration_ms'', be_current = py_trunc elapsed, be_limit = bc_max_duration_ms c\<rparr>
      else if int (bt_tool_calls b) \<ge> bc_max_tool_calls c then
        Some \<lparr>be_reason = ''max_tool_calls'', be_current = int (bt_tool_calls b), be_limit = bc_max_tool_calls c\<rparr>
      else None)"

definition record_step :: "budget_tracker \<Rightarrow> budget_tracker" where
  "record_step b = b\<lparr>bt_steps := Suc (bt_steps b)\<rparr>"

definition record_tool_call :: "budget_tracker \<Rightarrow> budget_tracker" where
  "record_tool_call b = b\<lparr>bt_tool_calls := Suc (bt_tool_calls b)\<rparr>"

definition is_exceeded :: "budget_tracker \<Rightarrow> rat \<Rightarrow> bool" where
  "is_exceeded b now_ms = (budget_check b now_ms \<noteq> None)"

lemma budget_check_None:
  "budget_check b now_ms = None \<Longrightarrow> int (bt_steps b) < bc_max_steps (bt_config b) \<and> int (bt_tool_calls b) < bc_max_tool_calls (bt_config b)
     \<and> (0 < bt_start_ms b \<longrightarrow> now_ms - bt_start_ms b < of_int (bc_max_duration_ms (bt_config b)))"
  by (auto simp: budget_check_def elapsed_ms_def Let_def split: if_splits)

section \<open>Streams of one job\<close>

text \<open>The events of a job are numbered from 1 without gaps, and the counter is their number.\<close>

definition stream_ok :: "event_emitter \<Rightarrow> string \<Rightarrow> bool" where
  "stream_ok em j \<longleftrightarrow> map re_id (buffer_of (em_buffer em) j) = [1..<Suc (counter_of em j)]
     \<and> (\<forall>e \<in> set (buffer_of (em_buffer em) j). re_job e = j)"

definition stream :: "event_emitter \<Rightarrow> string \<Rightarrow> research_event list" where
  "stream em j = buffer_of (em_buffer em) j"

lemma stream_ok_length: "stream_ok em j \<Longrightarrow> length (stream em j) = counter_of em j"
  unfolding stream_ok_def stream_def by (metis add_diff_cancel_left' length_map length_upt plus_1_eq_Suc)

lemma stream_last: "stream_ok em j \<Longrightarrow> stream em j \<noteq> [] \<Longrightarrow> re_id (last (stream em j)) = counter_of em j"
proof -
  assume ok: "stream_ok em j" and ne: "stream em j \<noteq> []"
  then have "last (map re_id (stream em j)) = last [1..<Suc (counter_of em j)]" by (simp add: stream_ok_def stream_def)
  moreover have "0 < counter_of em j" using ne stream_ok_length [OF ok] by (cases "stream em j") auto
  ultimately show ?thesis using ne by (simp add: last_map)
qed

lemma event_emit_ok:
  assumes "stream_ok em j"
  shows "\<exists>em'. event_emit em now j t p = (True, em') \<and> stream_ok em' j
    \<and> stream em' j = stream em j @ [\<lparr>re_id = Suc (counter_of em j), re_job = j, re_type = t, re_payload = p\<rparr>]
    \<and> (\<forall>i. i \<noteq> j \<longrightarrow> stream em' i = stream em i \<and> counter_of em' i = counter_of em i)"
proof -
  let ?e = "\<lparr>re_id = Suc (counter_of em j), re_job = j, re_type = t, re_payload = p\<rparr>"
  have room: "buffer_of (em_buffer em) j = [] \<or> re_id (last (buffer_of (em_buffer em) j)) < Suc (counter_of em j)"
    using stream_last [OF assms] by (cases "buffer_of (em_buffer em) j = []") (simp_all add: stream_def)
  then obtain b where app: "buffer_append (em_buffer em) now ?e = (True, b)"
    and b: "\<And>i. buffer_of b i = (if i = j then buffer_of (em_buffer em) j @ [?e] else buffer_of (em_buffer em) i)"
    by (auto simp: buffer_append_def buffer_of_def Let_def)
  then show ?thesis
    using assms by (auto simp: event_emit_def stream_ok_def stream_def counter_of_def)
qed

text \<open>
  Replay after a reconnect loses and repeats nothing: for a client that has seen the first \<open>n\<close> events
  of a job, the events replayed from its last event id, appended to what it has seen, are the whole
  stream.
\<close>

theorem replay_resumes:
  assumes "stream_ok em j" and "n \<le> counter_of em j"
  shows "take n (replay (em_buffer em) j None) @ replay (em_buffer em) j (Some n) = replay (em_buffer em) j None"
proof -
  let ?es = "buffer_of (em_buffer em) j"
  have ids: "map re_id ?es = [1..<Suc (counter_of em j)]" using assms(1) by (simp add: stream_ok_def)
  have len: "length ?es = counter_of em j" using stream_ok_length [OF assms(1)] by (simp add: stream_def)
  have nth: "re_id (?es ! i) = Suc i" if "i < length ?es" for i
  proof -
    have "map re_id ?es ! i = [1..<Suc (counter_of em j)] ! i" by (simp only: ids)
    with that len show ?thesis by (simp del: upt_Suc)
  qed
  have "filter (\<lambda>e. n < re_id e) (take n ?es) = []"
    using nth by (auto simp: filter_empty_conv in_set_conv_nth)
  moreover have "filter (\<lambda>e. n < re_id e) (drop n ?es) = drop n ?es"
    using nth assms(2) len by (auto simp: filter_id_conv in_set_conv_nth)
  ultimately have "filter (\<lambda>e. n < re_id e) (take n ?es @ drop n ?es) = drop n ?es"
    by (simp only: filter_append append_Nil)
  then show ?thesis by (simp add: replay_def)
qed

theorem replay_resumes_witness:
  "\<exists>em :: event_emitter. take 1 (replay (em_buffer em) ''j'' None) @ replay (em_buffer em) ''j'' (Some 1) = replay (em_buffer em) ''j'' None
    \<and> length (replay (em_buffer em) ''j'' (Some 1)) = 1"
proof -
  let ?em = "snd (event_emit (snd (event_emit (new_emitter 86400) 0 ''j'' PlanUpdated [])) 1 ''j'' Done [])"
  have ok: "stream_ok ?em ''j''"
    by (simp add: stream_ok_def event_emit_def new_emitter_def buffer_append_def buffer_of_def counter_of_def Let_def)
  have c: "counter_of ?em ''j'' = 2"
    by (simp add: event_emit_def new_emitter_def buffer_append_def buffer_of_def counter_of_def Let_def)
  have "length (replay (em_buffer ?em) ''j'' (Some 1)) = 1"
    by (simp add: replay_def event_emit_def new_emitter_def buffer_append_def buffer_of_def counter_of_def Let_def)
  moreover have "take 1 (replay (em_buffer ?em) ''j'' None) @ replay (em_buffer ?em) ''j'' (Some 1) = replay (em_buffer ?em) ''j'' None"
    using replay_resumes [OF ok] c by simp
  ultimately show ?thesis by blast
qed

end
