(* ===== verification/ResearchAgent.thy ===== *)
theory ResearchAgent
  imports ResearchEvents
begin

text \<open>
  Planning and execution of research jobs: \<open>backend/research_agent/planner.py\<close>,
  \<open>backend/research_agent/executor.py\<close> and \<open>backend/research_agent/service.py\<close>.

  The environment of a job supplies the clock (in milliseconds, one reading per budget check), the
  fresh identifiers, the answer of the planning model (absent when it is not configured or fails) and
  the retriever (whose search may raise).
\<close>

section \<open>Environment\<close>

record search_hit =
  sh_document_id :: string
  sh_version :: int
  sh_url :: string
  sh_title :: string
  sh_score :: rat

record retrieved_doc =
  rd_document_id :: string
  rd_version :: int
  rd_url :: string
  rd_title :: string
  rd_score :: rat
  rd_text :: string

record retriever_env =
  rv_search :: "string \<Rightarrow> search_hit list option"
  rv_indexer :: "(string \<Rightarrow> string option) option"

record research_env =
  ev_start_ms :: rat
  ev_clock :: "nat \<Rightarrow> rat"
  ev_fresh :: "nat \<Rightarrow> string"
  ev_llm :: "string \<Rightarrow> (string option \<times> string option) list option"
  ev_retriever :: "retriever_env option"

section \<open>The planner\<close>

definition max_plan_steps :: int where
  "max_plan_steps = 32"

definition planner_max :: "int \<Rightarrow> int" where
  "planner_max max_steps = min max_steps max_plan_steps"

definition step_type_of :: "string option \<Rightarrow> step_type" where
  "step_type_of t =
     (let s = (case t of Some s \<Rightarrow> s | None \<Rightarrow> ''retrieval'') in
      if s = ''sub_query'' then SubQuery else if s = ''retrieval'' then RetrievalStep
      else if s = ''read'' then ReadStep else if s = ''synthesis'' then Synthesis else RetrievalStep)"

definition retrieval_rounds :: "int \<Rightarrow> nat \<Rightarrow> nat" where
  "retrieval_rounds mx goal_length =
     (if goal_length < 50 then 1 else if goal_length < 200 then 2 else if goal_length < 500 then 3
      else nat (min 4 (mx div 4)))"

definition plain_step :: "(nat \<Rightarrow> string) \<Rightarrow> nat \<Rightarrow> step_type \<Rightarrow> string \<Rightarrow> plan_step" where
  "plain_step fresh i t d = \<lparr>ps_id = fresh i, ps_type = t, ps_description = d, ps_goal = None\<rparr>"

definition heuristic_decompose :: "int \<Rightarrow> (nat \<Rightarrow> string) \<Rightarrow> string \<Rightarrow> plan_step list" where
  "heuristic_decompose mx fresh goal =
     (let rounds = retrieval_rounds mx (length goal) in
      [\<lparr>ps_id = fresh 0, ps_type = SubQuery, ps_description = ''Decompose research goal into sub-queries'',
        ps_goal = Some (take 500 goal)\<rparr>]
      @ concat (map (\<lambda>i. [plain_step fresh (2 * i + 1) RetrievalStep (''Retrieve documents for sub-query '' @ str_nat (i + 1)),
                          plain_step fresh (2 * i + 2) ReadStep (''Analyze retrieved documents from round '' @ str_nat (i + 1))])
          [0..<rounds])
      @ [plain_step fresh (2 * rounds + 1) Synthesis ''Synthesize findings into final report''])"

definition llm_decompose :: "int \<Rightarrow> (nat \<Rightarrow> string) \<Rightarrow> string \<Rightarrow> (string option \<times> string option) list \<Rightarrow> plan_step list" where
  "llm_decompose mx fresh goal data =
     (let steps = map (\<lambda>(i, t, d). plain_step fresh i (step_type_of t) (case d of Some s \<Rightarrow> s | None \<Rightarrow> ''''))
                    (enumerate 0 data)
      in if steps = [] then heuristic_decompose mx fresh goal else steps)"

definition decompose_goal :: "int \<Rightarrow> research_env \<Rightarrow> string \<Rightarrow> plan_step list" where
  "decompose_goal mx env goal =
     (case ev_llm env goal of
        Some data \<Rightarrow> llm_decompose mx (ev_fresh env) goal data
      | None \<Rightarrow> heuristic_decompose mx (ev_fresh env) goal)"

definition generate_plan :: "int \<Rightarrow> research_env \<Rightarrow> string \<Rightarrow> string \<Rightarrow> string + research_plan" where
  "generate_plan mx env job_id goal =
     (let steps = decompose_goal mx env goal;
          steps = (if steps = [] then [plain_step (ev_fresh env) 0 RetrievalStep (''Search for: '' @ take 200 goal)] else steps);
          steps = (if int (length steps) > mx then py_take mx steps else steps);
          plan = \<lparr>rp_job = job_id, rp_steps = steps\<rparr>
      in if \<not> plan_valid plan
         then Inl (''Generated plan has '' @ str_nat (length steps) @ '' steps, expected 1-'' @ str_int max_plan_steps)
         else Inr plan)"

section \<open>Tool calls\<close>

record tool_result =
  tr_tool :: string
  tr_results :: "retrieved_doc list"
  tr_citations :: "research_citation list"
  tr_text :: string

definition execute_sub_query :: "plan_step \<Rightarrow> tool_result" where
  "execute_sub_query st =
     (let sub_query = (case ps_goal st of Some g \<Rightarrow> g | None \<Rightarrow> ps_description st)
      in \<lparr>tr_tool = ''sub_query'', tr_results = [], tr_citations = [],
          tr_text = ''Identified sub-queries for: '' @ take 100 sub_query\<rparr>)"

definition retriever_docs :: "retriever_env \<Rightarrow> plan_step \<Rightarrow> retrieved_doc list option" where
  "retriever_docs rv st =
     (let query = (if ps_description st \<noteq> [] then ps_description st
                   else (case ps_goal st of Some g \<Rightarrow> g | None \<Rightarrow> ''research''))
      in case rv_search rv (take 200 query) of
           None \<Rightarrow> None
         | Some hits \<Rightarrow> Some (map (\<lambda>h. \<lparr>rd_document_id = sh_document_id h, rd_version = sh_version h, rd_url = sh_url h,
               rd_title = sh_title h, rd_score = sh_score h,
               rd_text = (case rv_indexer rv of None \<Rightarrow> ''''
                  | Some lookup \<Rightarrow> (case lookup (sh_document_id h) of Some t \<Rightarrow> t | None \<Rightarrow> ''''))\<rparr>) hits))"

definition simulated_docs :: "string \<Rightarrow> plan_step \<Rightarrow> retrieved_doc list" where
  "simulated_docs doc_id st =
     [\<lparr>rd_document_id = doc_id, rd_version = 1, rd_url = ''https://example.com/doc/'' @ take 8 doc_id,
       rd_title = ''Document for '' @ take 50 (ps_description st), rd_score = 85 / 100,
       rd_text = ''Content relevant to '' @ take 100 (ps_description st)\<rparr>]"

definition execute_retrieval :: "research_env \<Rightarrow> string \<Rightarrow> plan_step \<Rightarrow> tool_result" where
  "execute_retrieval env doc_id st =
     (let docs = (case ev_retriever env of None \<Rightarrow> simulated_docs doc_id st
            | Some rv \<Rightarrow> (case retriever_docs rv st of Some ds \<Rightarrow> ds | None \<Rightarrow> simulated_docs doc_id st))
      in \<lparr>tr_tool = ''retriever'', tr_results = docs, tr_citations = [], tr_text = ''''\<rparr>)"

definition citation_of_doc :: "retrieved_doc \<Rightarrow> research_citation" where
  "citation_of_doc d =
     \<lparr>rc_document_id = JStr (rd_document_id d), rc_version = JInt (rd_version d), rc_answer_start = JInt 0,
      rc_answer_end = JInt 50, rc_source_start = JInt 0, rc_source_end = JInt (min 50 (int (length (rd_text d))))\<rparr>"

definition newline :: string where
  "newline = [CHR 0x0A]"

definition execute_read :: "retrieved_doc list \<Rightarrow> tool_result" where
  "execute_read context_docs =
     (let docs = drop (length context_docs - 5) context_docs;
          parts = map (\<lambda>d. ''From '' @ rd_title d @ '': '' @ take 100 (rd_text d)) docs
      in \<lparr>tr_tool = ''read'', tr_results = [], tr_citations = map citation_of_doc docs,
          tr_text = (if parts = [] then ''No documents to analyze.'' else join newline parts)\<rparr>)"

definition execute_synthesis :: "retrieved_doc list \<Rightarrow> tool_result" where
  "execute_synthesis context_docs =
     \<lparr>tr_tool = ''answer_engine'', tr_results = [], tr_citations = [],
      tr_text = ''Based on the research conducted, '' @
        (if context_docs \<noteq> [] then ''analysis of '' @ str_nat (length context_docs) @ '' documents reveals '' @ ''the following findings.''
         else ''no relevant documents were found.'')\<rparr>"

definition execute_step :: "research_env \<Rightarrow> string \<Rightarrow> plan_step \<Rightarrow> retrieved_doc list \<Rightarrow> tool_result" where
  "execute_step env doc_id st context_docs =
     (case ps_type st of
        SubQuery \<Rightarrow> execute_sub_query st
      | RetrievalStep \<Rightarrow> execute_retrieval env doc_id st
      | ReadStep \<Rightarrow> execute_read context_docs
      | Synthesis \<Rightarrow> execute_synthesis context_docs)"

section \<open>The executor\<close>

datatype exec_exn = BudgetExn budget_error | OtherExn string

record exec_state =
  xs_emitter :: event_emitter
  xs_budget :: budget_tracker
  xs_docs :: "retrieved_doc list"
  xs_citations :: "research_citation list"
  xs_chunks :: "string list"

text \<open>Sequencing: an exception stops the rest and keeps the state reached.\<close>

definition and_then :: "exec_exn option \<times> 's \<Rightarrow> ('s \<Rightarrow> exec_exn option \<times> 's) \<Rightarrow> exec_exn option \<times> 's" where
  "and_then r f = (case r of (None, s) \<Rightarrow> f s | (Some e, s) \<Rightarrow> (Some e, s))"

definition emit_st :: "rat \<Rightarrow> string \<Rightarrow> event_type \<Rightarrow> (string, json) dict \<Rightarrow> exec_state \<Rightarrow> exec_exn option \<times> exec_state" where
  "emit_st now j t payload s =
     (case event_emit (xs_emitter s) now j t payload of
        (ok, em) \<Rightarrow> (if ok then None else Some (OtherExn ''Event ID is not strictly greater''), s\<lparr>xs_emitter := em\<rparr>))"

definition citation_payload :: "research_citation \<Rightarrow> (string, json) dict" where
  "citation_payload c =
     [(''document_id'', rc_document_id c), (''version'', rc_version c), (''answer_start'', rc_answer_start c),
      (''answer_end'', rc_answer_end c), (''source_start'', rc_source_start c), (''source_end'', rc_source_end c)]"

fun emit_citations :: "rat \<Rightarrow> string \<Rightarrow> research_citation list \<Rightarrow> exec_state \<Rightarrow> exec_exn option \<times> exec_state" where
  "emit_citations now j [] s = (None, s)"
| "emit_citations now j (c # cs) s =
     and_then (emit_st now j CitationEvent (citation_payload c) s) (emit_citations now j cs)"

definition emit_chunk :: "rat \<Rightarrow> string \<Rightarrow> string \<Rightarrow> exec_state \<Rightarrow> exec_exn option \<times> exec_state" where
  "emit_chunk now j txt s =
     (if txt \<noteq> []
      then (let s' = s\<lparr>xs_chunks := xs_chunks s @ [txt]\<rparr>
            in emit_st now j ReportChunk [(''text'', JStr txt), (''ordinal'', JInt (int (length (xs_chunks s'))))] s')
      else (None, s))"

definition run_step :: "research_env \<Rightarrow> rat \<Rightarrow> string \<Rightarrow> nat \<Rightarrow> plan_step \<Rightarrow> exec_state \<Rightarrow> exec_exn option \<times> exec_state" where
  "run_step env now j i st s0 =
     (case budget_check (xs_budget s0) (ev_clock env i) of
        Some e \<Rightarrow> (Some (BudgetExn e), s0)
      | None \<Rightarrow>
          and_then (emit_st now j StepStarted [(''step_id'', JStr (ps_id st)), (''type'', JStr (step_type_value (ps_type st)))] s0) (\<lambda>s1.
            let result = execute_step env (ev_fresh env (100 + i)) st (xs_docs s1);
                s2 = s1\<lparr>xs_budget := record_step (record_tool_call (xs_budget s1)),
                        xs_citations := xs_citations s1 @ tr_citations result\<rparr>
            in and_then (emit_citations now j (tr_citations result) s2) (\<lambda>s3.
                 let s4 = s3\<lparr>xs_docs := xs_docs s3 @ tr_results result\<rparr>
                 in and_then (emit_chunk now j (tr_text result) s4)
                      (emit_st now j StepCompleted [(''step_id'', JStr (ps_id st)),
                         (''summary'', JStr (''Completed '' @ step_type_value (ps_type st)))]))))"

fun run_steps :: "research_env \<Rightarrow> rat \<Rightarrow> string \<Rightarrow> nat \<Rightarrow> plan_step list \<Rightarrow> exec_state \<Rightarrow> exec_exn option \<times> exec_state" where
  "run_steps env now j i [] s = (None, s)"
| "run_steps env now j i (st # sts) s = and_then (run_step env now j i st s) (run_steps env now j (Suc i) sts)"

definition blank_line :: string where
  "blank_line = newline @ newline"

definition execute_plan :: "research_env \<Rightarrow> rat \<Rightarrow> string \<Rightarrow> research_plan \<Rightarrow> event_emitter \<Rightarrow> budget_tracker
    \<Rightarrow> (exec_exn + research_report) \<times> exec_state" where
  "execute_plan env now j plan em bt =
     (case run_steps env now j 0 (rp_steps plan)
             \<lparr>xs_emitter = em, xs_budget = bt, xs_docs = [], xs_citations = [], xs_chunks = []\<rparr> of
        (Some e, s) \<Rightarrow> (Inl e, s)
      | (None, s) \<Rightarrow>
          (Inr \<lparr>rr_job = j,
                rr_text = (if xs_chunks s \<noteq> [] then join blank_line (xs_chunks s) else ''Research complete.''),
                rr_structured = None, rr_citations = xs_citations s, rr_partial = False\<rparr>, s))"

section \<open>The service\<close>

datatype research_error = InvalidResearchRequest string | JobNotFound string

record research_service =
  rs_jobs :: "(string, research_job) dict"
  rs_emitter :: event_emitter
  rs_planner_max :: int

definition schema_keywords :: "string list" where
  "schema_keywords = [''type'', ''properties'', ''items'', ''required'', ''enum'', ''const'', ''allOf'', ''anyOf'', ''oneOf'',
     ''not'', ''$schema'', ''$id'', ''$ref'', ''title'', ''description'', ''default'', ''examples'', ''minimum'', ''maximum'',
     ''minLength'', ''maxLength'', ''pattern'', ''format'', ''additionalProperties'', ''minItems'', ''maxItems'']"

definition validate_goal :: "string \<Rightarrow> bool" where
  "validate_goal goal \<longleftrightarrow> 1 \<le> length goal \<and> length goal \<le> 4096"

definition validate_output_schema :: "(string, json) dict \<Rightarrow> bool" where
  "validate_output_schema schema \<longleftrightarrow> schema = [] \<or> list_ex (\<lambda>p. fst p \<in> set schema_keywords) schema"

text \<open>Iterating over the \<open>required\<close> value; None is the \<open>TypeError\<close> of a value that is not iterable.\<close>

definition json_elements :: "json \<Rightarrow> json list option" where
  "json_elements v = (case v of JList xs \<Rightarrow> Some xs | JStr s \<Rightarrow> Some (map (\<lambda>c. JStr [c]) s)
     | JObj d \<Rightarrow> Some (map (\<lambda>p. JStr (fst p)) d) | _ \<Rightarrow> None)"

definition validate_report :: "research_report \<Rightarrow> (string, json) dict \<Rightarrow> research_report option" where
  "validate_report r schema =
     (let payload = (case rr_structured r of Some p \<Rightarrow> p
            | None \<Rightarrow> [(''text'', JStr (rr_text r)), (''citations_count'', JInt (int (length (rr_citations r))))]);
          r' = r\<lparr>rr_structured := Some payload\<rparr>
      in if dict_get schema ''type'' = Some (JStr ''object'')
         then (case json_elements (json_get schema ''required'' (JList [])) of
             None \<Rightarrow> None
           | Some names \<Rightarrow> if list_all (\<lambda>n. n \<in> (\<lambda>p. JStr (fst p)) ` set payload) names then Some r' else None)
         else Some r')"

definition partial_citation :: "(string, json) dict \<Rightarrow> research_citation" where
  "partial_citation p =
     \<lparr>rc_document_id = json_get p ''document_id'' (JStr ''''), rc_version = json_get p ''version'' (JInt 1),
      rc_answer_start = json_get p ''answer_start'' (JInt 0), rc_answer_end = json_get p ''answer_end'' (JInt 0),
      rc_source_start = json_get p ''source_start'' (JInt 0), rc_source_end = json_get p ''source_end'' (JInt 0)\<rparr>"

definition chunk_text :: "(string, json) dict \<Rightarrow> string" where
  "chunk_text p = (case json_get p ''text'' (JStr '''') of JStr s \<Rightarrow> s | _ \<Rightarrow> '''')"

definition event_citations :: "research_event list \<Rightarrow> research_citation list" where
  "event_citations es = map (\<lambda>e. partial_citation (re_payload e)) (filter (\<lambda>e. re_type e = CitationEvent) es)"

definition event_chunks :: "research_event list \<Rightarrow> string list" where
  "event_chunks es = map (\<lambda>e. chunk_text (re_payload e)) (filter (\<lambda>e. re_type e = ReportChunk) es)"

definition partial_report :: "string \<Rightarrow> research_event list \<Rightarrow> research_report" where
  "partial_report j es =
     \<lparr>rr_job = j, rr_text = (if event_chunks es \<noteq> [] then join blank_line (event_chunks es) else ''''),
      rr_structured = None, rr_citations = event_citations es, rr_partial = True\<rparr>"

definition failed_report :: "string \<Rightarrow> research_report" where
  "failed_report j = \<lparr>rr_job = j, rr_text = '''', rr_structured = None, rr_citations = [], rr_partial = True\<rparr>"

definition plan_payload :: "research_plan \<Rightarrow> (string, json) dict" where
  "plan_payload plan = [(''plan'', JList (map (\<lambda>s. JObj [(''step_id'', JStr (ps_id s)),
     (''type'', JStr (step_type_value (ps_type s))), (''description'', JStr (ps_description s))]) (rp_steps plan)))]"

definition error_payload :: "string \<Rightarrow> string \<Rightarrow> (string, json) dict" where
  "error_payload code message = [(''code'', JStr code), (''message'', JStr message)]"

definition budget_message :: "budget_error \<Rightarrow> string" where
  "budget_message e = ''Budget exceeded: '' @ be_reason e @ '' ('' @ str_int (be_current e) @ '' >= '' @ str_int (be_limit e) @ '')''"

text \<open>
  The \<open>try\<close> statement of \<open>_execute_job\<close> and its handlers.  The flag of the emissions of this function is
  not looked at: by \<open>event_emit_ok\<close> no emission on a stream that is numbered without gaps fails, and
  \<open>execute_job_ok\<close> below shows that the stream of a job always is.
\<close>

definition finish_job :: "research_env \<Rightarrow> rat \<Rightarrow> research_job \<Rightarrow> research_plan \<Rightarrow> event_emitter \<Rightarrow> research_job \<times> event_emitter" where
  "finish_job env now job plan em =
     (case execute_plan env now (rj_id job) plan em (budget_start (rj_budgets job) (ev_start_ms env)) of
        (res, s) \<Rightarrow>
          (let j = rj_id job; em1 = xs_emitter s;
               counted = job\<lparr>rj_steps_executed := bt_steps (xs_budget s), rj_tool_calls := bt_tool_calls (xs_budget s)\<rparr>;
               internal = (\<lambda>m. (job\<lparr>rj_state := Failed, rj_report := Some (failed_report j)\<rparr>,
                               snd (event_emit em1 now j ErrorEvent (error_payload ''internal_error'' m))))
           in case res of
             Inr report \<Rightarrow>
               (case (case rj_schema job of None \<Rightarrow> Some report | Some sch \<Rightarrow> validate_report report sch) of
                  None \<Rightarrow> internal ''Report payload does not match output_schema''
                | Some report' \<Rightarrow> (counted\<lparr>rj_report := Some report', rj_state := Succeeded\<rparr>,
                    snd (event_emit em1 now j Done [(''report_uri'', JStr (''/v1/research/'' @ j))])))
           | Inl (BudgetExn e) \<Rightarrow>
               (counted\<lparr>rj_state := BudgetExceeded, rj_report := Some (partial_report j (stream em1 j))\<rparr>,
                snd (event_emit em1 now j ErrorEvent (error_payload ''budget_exceeded'' (budget_message e))))
           | Inl (OtherExn m) \<Rightarrow> internal m))"

definition execute_job :: "research_env \<Rightarrow> rat \<Rightarrow> int \<Rightarrow> research_job \<Rightarrow> event_emitter \<Rightarrow> research_job \<times> event_emitter" where
  "execute_job env now mx job em =
     (let job = job\<lparr>rj_state := Planning\<rparr> in
      case generate_plan (planner_max mx) env (rj_id job) (rj_goal job) of
        Inl m \<Rightarrow> (job\<lparr>rj_state := Failed\<rparr>, snd (event_emit em now (rj_id job) ErrorEvent (error_payload ''internal_error'' m)))
      | Inr plan \<Rightarrow>
          (let em1 = snd (event_emit em now (rj_id job) PlanUpdated (plan_payload plan))
           in finish_job env now (job\<lparr>rj_plan := Some plan, rj_state := Running\<rparr>) plan em1))"

definition start_job :: "research_service \<Rightarrow> research_env \<Rightarrow> rat \<Rightarrow> string \<Rightarrow> string \<Rightarrow> string
    \<Rightarrow> (string, json) dict option \<Rightarrow> budget_config option \<Rightarrow> (research_error + string) \<times> research_service" where
  "start_job sv env now fresh tenant_id goal schema budgets =
     (if \<not> validate_goal goal then
        (Inl (InvalidResearchRequest ''research_goal must be between 1 and 4096 characters''), sv)
      else if (case schema of None \<Rightarrow> False | Some sch \<Rightarrow> \<not> validate_output_schema sch) then
        (Inl (InvalidResearchRequest ''output_schema must be a valid JSON Schema document''), sv)
      else
        (let job = \<lparr>rj_id = fresh, rj_tenant = tenant_id, rj_goal = goal, rj_schema = schema,
                    rj_budgets = (case budgets of Some b \<Rightarrow> b | None \<Rightarrow> default_budget), rj_state = Queued,
                    rj_plan = None, rj_report = None, rj_steps_executed = 0, rj_tool_calls = 0\<rparr>;
             (job', em) = execute_job env now (rs_planner_max sv) job (rs_emitter sv)
         in (Inr fresh, sv\<lparr>rs_jobs := dict_set fresh job' (rs_jobs sv), rs_emitter := em\<rparr>)))"

definition get_job :: "research_service \<Rightarrow> string \<Rightarrow> string \<Rightarrow> research_error + research_job" where
  "get_job sv job_id tenant_id =
     (case dict_get (rs_jobs sv) job_id of
        None \<Rightarrow> Inl (JobNotFound job_id)
      | Some job \<Rightarrow> if rj_tenant job \<noteq> tenant_id then Inl (JobNotFound job_id) else Inr job)"

definition get_report :: "research_service \<Rightarrow> string \<Rightarrow> string \<Rightarrow> research_error + research_report" where
  "get_report sv job_id tenant_id =
     (case get_job sv job_id tenant_id of
        Inl e \<Rightarrow> Inl e
      | Inr job \<Rightarrow> Inr (case rj_report job of None \<Rightarrow> failed_report job_id | Some r \<Rightarrow> r))"

definition get_events :: "research_service \<Rightarrow> string \<Rightarrow> string \<Rightarrow> nat option \<Rightarrow> research_error + research_event list" where
  "get_events sv job_id tenant_id last_event_id =
     (case get_job sv job_id tenant_id of
        Inl e \<Rightarrow> Inl e
      | Inr job \<Rightarrow> Inr (replay (em_buffer (rs_emitter sv)) job_id last_event_id))"

definition get_job_state :: "research_service \<Rightarrow> string \<Rightarrow> string \<Rightarrow> research_error + job_state" where
  "get_job_state sv job_id tenant_id =
     (case get_job sv job_id tenant_id of Inl e \<Rightarrow> Inl e | Inr job \<Rightarrow> Inr (rj_state job))"

interpretation jobs: tenant_scoped "\<lambda>sv k. dict_get (rs_jobs sv) k" rj_tenant "\<lambda>_. True" get_job JobNotFound
  by unfold_locales (auto simp: get_job_def split: option.splits if_splits)

section \<open>What one step adds to the stream\<close>

definition extends :: "event_emitter \<Rightarrow> event_emitter \<Rightarrow> string \<Rightarrow> research_event list \<Rightarrow> bool" where
  "extends em em' j evs \<longleftrightarrow> stream_ok em' j \<and> stream em' j = stream em j @ evs
     \<and> (\<forall>i. i \<noteq> j \<longrightarrow> stream em' i = stream em i \<and> counter_of em' i = counter_of em i)"

definition step_events :: "research_event list \<Rightarrow> bool" where
  "step_events evs \<longleftrightarrow> (\<forall>e \<in> set evs. re_type e \<in> {StepStarted, StepCompleted, CitationEvent, ReportChunk})"

lemma extends_refl: "stream_ok em j \<Longrightarrow> extends em em j []"
  by (simp add: extends_def)

lemma extends_trans: "extends em1 em2 j a \<Longrightarrow> extends em2 em3 j b \<Longrightarrow> extends em1 em3 j (a @ b)"
  by (simp add: extends_def)

lemma extends_ok: "extends em em' j evs \<Longrightarrow> stream_ok em' j"
  by (simp add: extends_def)

lemma event_lists_append [simp]:
  "event_citations (a @ b) = event_citations a @ event_citations b"
  "event_chunks (a @ b) = event_chunks a @ event_chunks b"
  by (simp_all add: event_citations_def event_chunks_def)

lemma step_events_append [simp]: "step_events (a @ b) \<longleftrightarrow> step_events a \<and> step_events b"
  by (auto simp: step_events_def)

lemma partial_citation_payload [simp]: "partial_citation (citation_payload c) = c"
  by (simp add: partial_citation_def citation_payload_def json_get_def dict_get_def)

lemma chunk_text_payload [simp]: "chunk_text ((''text'', JStr s) # p) = s"
  by (simp add: chunk_text_def json_get_def dict_get_def)

lemma event_emit_extends:
  assumes "stream_ok em j"
  shows "\<exists>em' n. event_emit em now j t p = (True, em') \<and> extends em em' j [\<lparr>re_id = n, re_job = j, re_type = t, re_payload = p\<rparr>]"
  using event_emit_ok [OF assms, of now t p] unfolding extends_def by blast

lemma emit_st_extends:
  assumes "stream_ok (xs_emitter s) j"
  shows "\<exists>em' n. emit_st now j t p s = (None, s\<lparr>xs_emitter := em'\<rparr>)
    \<and> extends (xs_emitter s) em' j [\<lparr>re_id = n, re_job = j, re_type = t, re_payload = p\<rparr>]"
  using event_emit_extends [OF assms, of now t p] by (auto simp: emit_st_def)

lemma emit_citations_extends:
  "stream_ok (xs_emitter s) j \<Longrightarrow> \<exists>em' evs. emit_citations now j cs s = (None, s\<lparr>xs_emitter := em'\<rparr>)
    \<and> extends (xs_emitter s) em' j evs \<and> step_events evs \<and> event_citations evs = cs \<and> event_chunks evs = []"
proof (induction cs arbitrary: s)
  case Nil
  then have "extends (xs_emitter s) (xs_emitter s) j []" by (rule extends_refl)
  then show ?case by (intro exI [of _ "xs_emitter s"] exI [of _ "[]"])
    (simp add: step_events_def event_citations_def event_chunks_def)
next
  case (Cons c cs)
  from emit_st_extends [OF Cons.prems, of now CitationEvent "citation_payload c"] obtain em1 n where
    e1: "emit_st now j CitationEvent (citation_payload c) s = (None, s\<lparr>xs_emitter := em1\<rparr>)"
    "extends (xs_emitter s) em1 j [\<lparr>re_id = n, re_job = j, re_type = CitationEvent, re_payload = citation_payload c\<rparr>]"
    (is "extends _ _ _ [?e]") by blast
  from Cons.IH [of "s\<lparr>xs_emitter := em1\<rparr>"] extends_ok [OF e1(2)] obtain em2 evs where
    e2: "emit_citations now j cs (s\<lparr>xs_emitter := em1\<rparr>) = (None, s\<lparr>xs_emitter := em2\<rparr>)" "extends em1 em2 j evs"
    "step_events evs" "event_citations evs = cs" "event_chunks evs = []" by auto
  let ?ev = "\<lparr>re_id = n, re_job = j, re_type = CitationEvent, re_payload = citation_payload c\<rparr>"
  from extends_trans [OF e1(2) e2(2)] have "extends (xs_emitter s) em2 j (?ev # evs)" by simp
  moreover have "step_events (?ev # evs)" "event_citations (?ev # evs) = c # cs" "event_chunks (?ev # evs) = []"
    using e2(3-5) by (auto simp: step_events_def event_citations_def event_chunks_def)
  moreover have "emit_citations now j (c # cs) s = (None, s\<lparr>xs_emitter := em2\<rparr>)"
    by (simp add: e1(1) e2(1) and_then_def)
  ultimately show ?case by blast
qed

lemma emit_chunk_extends:
  assumes "stream_ok (xs_emitter s) j"
  shows "\<exists>em' evs. emit_chunk now j txt s = (None, s\<lparr>xs_emitter := em', xs_chunks := xs_chunks s @ event_chunks evs\<rparr>)
      \<and> extends (xs_emitter s) em' j evs \<and> step_events evs \<and> event_citations evs = []"
proof (cases "txt = []")
  case True
  then show ?thesis using extends_refl [OF assms]
    by (intro exI [of _ "xs_emitter s"] exI [of _ "[]"])
      (simp add: emit_chunk_def step_events_def event_citations_def event_chunks_def)
next
  case False
  let ?s' = "s\<lparr>xs_chunks := xs_chunks s @ [txt]\<rparr>"
  let ?p = "[(''text'', JStr txt), (''ordinal'', JInt (int (length (xs_chunks ?s'))))]"
  have "stream_ok (xs_emitter ?s') j" using assms by simp
  from emit_st_extends [OF this, of now ReportChunk ?p] obtain em' n where
    "emit_st now j ReportChunk ?p ?s' = (None, ?s'\<lparr>xs_emitter := em'\<rparr>)"
    "extends (xs_emitter s) em' j [\<lparr>re_id = n, re_job = j, re_type = ReportChunk, re_payload = ?p\<rparr>]" by auto
  with False show ?thesis
    by (intro exI [of _ em'] exI [of _ "[\<lparr>re_id = n, re_job = j, re_type = ReportChunk, re_payload = ?p\<rparr>]"])
      (simp add: emit_chunk_def step_events_def event_citations_def event_chunks_def)
qed

lemma run_step_extends:
  assumes ok: "stream_ok (xs_emitter s) j" and b: "budget_check (xs_budget s) (ev_clock env i) = None"
  shows "\<exists>s' evs. run_step env now j i st s = (None, s') \<and> extends (xs_emitter s) (xs_emitter s') j evs \<and> step_events evs
    \<and> xs_citations s' = xs_citations s @ event_citations evs \<and> xs_chunks s' = xs_chunks s @ event_chunks evs
    \<and> xs_budget s' = record_step (record_tool_call (xs_budget s))"
proof -
  let ?p1 = "[(''step_id'', JStr (ps_id st)), (''type'', JStr (step_type_value (ps_type st)))]"
  let ?p4 = "[(''step_id'', JStr (ps_id st)), (''summary'', JStr (''Completed '' @ step_type_value (ps_type st)))]"
  let ?res = "execute_step env (ev_fresh env (100 + i)) st (xs_docs s)"
  from emit_st_extends [OF ok, of now StepStarted ?p1] obtain em1 n1 where
    e1: "emit_st now j StepStarted ?p1 s = (None, s\<lparr>xs_emitter := em1\<rparr>)"
    "extends (xs_emitter s) em1 j [\<lparr>re_id = n1, re_job = j, re_type = StepStarted, re_payload = ?p1\<rparr>]" by blast
  let ?s2 = "s\<lparr>xs_emitter := em1, xs_budget := record_step (record_tool_call (xs_budget s)),
      xs_citations := xs_citations s @ tr_citations ?res\<rparr>"
  from emit_citations_extends [of ?s2 j now "tr_citations ?res"] extends_ok [OF e1(2)] obtain em2 evs where
    e2: "emit_citations now j (tr_citations ?res) ?s2 = (None, ?s2\<lparr>xs_emitter := em2\<rparr>)" "extends em1 em2 j evs"
    "step_events evs" "event_citations evs = tr_citations ?res" "event_chunks evs = []" by auto
  let ?s4 = "?s2\<lparr>xs_emitter := em2, xs_docs := xs_docs s @ tr_results ?res\<rparr>"
  have "stream_ok (xs_emitter ?s4) j" using extends_ok [OF e2(2)] by simp
  from emit_chunk_extends [OF this, of now "tr_text ?res"] obtain em3 evs3 where
    e3: "emit_chunk now j (tr_text ?res) ?s4 = (None, ?s4\<lparr>xs_emitter := em3, xs_chunks := xs_chunks s @ event_chunks evs3\<rparr>)"
    "extends em2 em3 j evs3" "step_events evs3" "event_citations evs3 = []" by auto
  let ?s6 = "?s4\<lparr>xs_emitter := em3, xs_chunks := xs_chunks s @ event_chunks evs3\<rparr>"
  have "stream_ok (xs_emitter ?s6) j" using extends_ok [OF e3(2)] by simp
  from emit_st_extends [OF this, of now StepCompleted ?p4] obtain em4 n4 where
    e4: "emit_st now j StepCompleted ?p4 ?s6 = (None, ?s6\<lparr>xs_emitter := em4\<rparr>)"
    "extends em3 em4 j [\<lparr>re_id = n4, re_job = j, re_type = StepCompleted, re_payload = ?p4\<rparr>]" by auto
  let ?all = "[\<lparr>re_id = n1, re_job = j, re_type = StepStarted, re_payload = ?p1\<rparr>] @ evs @ evs3
      @ [\<lparr>re_id = n4, re_job = j, re_type = StepCompleted, re_payload = ?p4\<rparr>]"
  have "run_step env now j i st s = (None, ?s6\<lparr>xs_emitter := em4\<rparr>)"
    using e2(1) e3(1) e4(1) by (simp add: run_step_def b e1(1) and_then_def Let_def)
  moreover have "extends (xs_emitter s) em4 j ?all"
    using extends_trans [OF e1(2) extends_trans [OF e2(2) extends_trans [OF e3(2) e4(2)]]] by simp
  moreover have "step_events ?all" "event_citations ?all = tr_citations ?res" "event_chunks ?all = event_chunks evs3"
    using e2(3-5) e3(3,4) by (auto simp: step_events_def event_citations_def event_chunks_def)
  ultimately show ?thesis by (intro exI [of _ "?s6\<lparr>xs_emitter := em4\<rparr>"] exI [of _ ?all]) simp
qed

lemma run_steps_extends:
  "stream_ok (xs_emitter s) j \<Longrightarrow> \<exists>r s' evs k. run_steps env now j i sts s = (r, s')
    \<and> extends (xs_emitter s) (xs_emitter s') j evs \<and> step_events evs
    \<and> xs_citations s' = xs_citations s @ event_citations evs \<and> xs_chunks s' = xs_chunks s @ event_chunks evs
    \<and> xs_budget s' = (xs_budget s)\<lparr>bt_steps := bt_steps (xs_budget s) + k, bt_tool_calls := bt_tool_calls (xs_budget s) + k\<rparr>
    \<and> k \<le> length sts \<and> (r = None \<longrightarrow> k = length sts) \<and> (\<forall>x. r = Some x \<longrightarrow> (\<exists>e. x = BudgetExn e))
    \<and> (k = 0 \<or> (int (bt_steps (xs_budget s) + k) \<le> bc_max_steps (bt_config (xs_budget s))
                 \<and> int (bt_tool_calls (xs_budget s) + k) \<le> bc_max_tool_calls (bt_config (xs_budget s))))"
proof (induction sts arbitrary: s i)
  case Nil
  then show ?case using extends_refl
    by (intro exI [of _ "None"] exI [of _ s] exI [of _ "[]"] exI [of _ "0"])
      (auto simp: step_events_def event_citations_def event_chunks_def)
next
  case (Cons st sts)
  show ?case
  proof (cases "budget_check (xs_budget s) (ev_clock env i)")
    case (Some e)
    then show ?thesis using extends_refl [OF Cons.prems]
      by (intro exI [of _ "Some (BudgetExn e)"] exI [of _ s] exI [of _ "[]"] exI [of _ "0"])
        (auto simp: run_step_def and_then_def step_events_def event_citations_def event_chunks_def)
  next
    case None
    from run_step_extends [where st = st and now = now, OF Cons.prems None] obtain s1 evs1 where
      s1: "run_step env now j i st s = (None, s1)" "extends (xs_emitter s) (xs_emitter s1) j evs1" "step_events evs1"
      "xs_citations s1 = xs_citations s @ event_citations evs1" "xs_chunks s1 = xs_chunks s @ event_chunks evs1"
      "xs_budget s1 = record_step (record_tool_call (xs_budget s))" by blast
    from Cons.IH [OF extends_ok [OF s1(2)], of "Suc i"] obtain r s' evs k where
      s': "run_steps env now j (Suc i) sts s1 = (r, s')" "extends (xs_emitter s1) (xs_emitter s') j evs" "step_events evs"
      "xs_citations s' = xs_citations s1 @ event_citations evs" "xs_chunks s' = xs_chunks s1 @ event_chunks evs"
      "xs_budget s' = (xs_budget s1)\<lparr>bt_steps := bt_steps (xs_budget s1) + k, bt_tool_calls := bt_tool_calls (xs_budget s1) + k\<rparr>"
      "k \<le> length sts" "r = None \<longrightarrow> k = length sts" "\<forall>x. r = Some x \<longrightarrow> (\<exists>e. x = BudgetExn e)"
      "k = 0 \<or> (int (bt_steps (xs_budget s1) + k) \<le> bc_max_steps (bt_config (xs_budget s1))
                 \<and> int (bt_tool_calls (xs_budget s1) + k) \<le> bc_max_tool_calls (bt_config (xs_budget s1)))" by blast
    note lim = budget_check_None [OF None]
    have "run_steps env now j i (st # sts) s = (r, s')" by (simp add: s1(1) s'(1) and_then_def)
    moreover have "extends (xs_emitter s) (xs_emitter s') j (evs1 @ evs)" by (rule extends_trans [OF s1(2) s'(2)])
    ultimately show ?thesis using s1(3-6) s'(3-10) lim
      by (intro exI [of _ r] exI [of _ s'] exI [of _ "evs1 @ evs"] exI [of _ "Suc k"])
        (auto simp: record_step_def record_tool_call_def)
  qed
qed

section \<open>One job\<close>

text \<open>
  The shape of a finished stream: either a single error (no plan could be made), or the plan first, the
  events of the steps, and one terminal event at the end.
\<close>

definition finished_stream :: "research_event list \<Rightarrow> job_state \<Rightarrow> bool" where
  "finished_stream es st \<longleftrightarrow>
     (\<exists>front t. map re_type es = front @ [t] \<and> is_terminal t \<and> (t = Done \<longleftrightarrow> st = Succeeded)
        \<and> (front = [] \<or> (\<exists>mid. front = PlanUpdated # mid
              \<and> set mid \<subseteq> {StepStarted, StepCompleted, CitationEvent, ReportChunk})))"

definition report_matches :: "research_event list \<Rightarrow> research_job \<Rightarrow> bool" where
  "report_matches es job \<longleftrightarrow>
     (rj_state job \<in> {Succeeded, BudgetExceeded} \<longrightarrow>
        (\<exists>r. rj_report job = Some r \<and> rr_citations r = event_citations es \<and> (rr_partial r \<longleftrightarrow> rj_state job = BudgetExceeded)
           \<and> (event_chunks es \<noteq> [] \<longrightarrow> rr_text r = join blank_line (event_chunks es))))"

definition budget_respected :: "research_job \<Rightarrow> bool" where
  "budget_respected job \<longleftrightarrow>
     (rj_steps_executed job = 0 \<or> (int (rj_steps_executed job) \<le> bc_max_steps (rj_budgets job)
        \<and> int (rj_tool_calls job) \<le> bc_max_tool_calls (rj_budgets job)))
     \<and> (rj_state job = Succeeded \<longrightarrow> (\<exists>p. rj_plan job = Some p \<and> plan_valid p \<and> rj_steps_executed job = length (rp_steps p)))"

definition job_closed :: "event_emitter \<Rightarrow> research_job \<Rightarrow> bool" where
  "job_closed em job \<longleftrightarrow> stream_ok em (rj_id job) \<and> rj_state job \<in> {Succeeded, Failed, BudgetExceeded}
     \<and> finished_stream (stream em (rj_id job)) (rj_state job)
     \<and> report_matches (stream em (rj_id job)) job \<and> budget_respected job"

lemma finished_streamI:
  "step_events mid \<Longrightarrow> is_terminal (re_type l) \<Longrightarrow> (re_type l = Done) = (st = Succeeded) \<Longrightarrow> re_type p = PlanUpdated \<Longrightarrow>
     finished_stream (p # mid @ [l]) st"
  unfolding finished_stream_def step_events_def
  by (rule exI [of _ "PlanUpdated # map re_type mid"], rule exI [of _ "re_type l"]) auto

lemma event_lists_plan [simp]:
  "re_type e \<noteq> CitationEvent \<Longrightarrow> event_citations (e # es) = event_citations es"
  "re_type e \<noteq> ReportChunk \<Longrightarrow> event_chunks (e # es) = event_chunks es"
  "event_citations [] = []" "event_chunks [] = []"
  by (simp_all add: event_citations_def event_chunks_def)

lemma validate_report_Some:
  "validate_report r sch = Some r' \<Longrightarrow> rr_text r' = rr_text r \<and> rr_citations r' = rr_citations r \<and> rr_partial r' = rr_partial r"
  by (auto simp: validate_report_def Let_def split: if_splits option.splits)

text \<open>A terminal event behind the events of the steps closes the stream of the job and no other one.\<close>

lemma closing_event:
  assumes ext: "extends em em1 j mid" and first: "stream em j = [p]" "re_type p = PlanUpdated" and mid: "step_events mid"
    and emit: "snd (event_emit em1 now j t pl) = em'" and "is_terminal t" and "(t = Done) = (rj_state job' = Succeeded)"
    and "rj_id job' = j" and "rj_state job' \<in> {Succeeded, Failed, BudgetExceeded}"
    and "report_matches (p # mid) job'" and "budget_respected job'"
  shows "job_closed em' job' \<and> (\<forall>i. i \<noteq> j \<longrightarrow> stream em' i = stream em i \<and> counter_of em' i = counter_of em i)"
proof -
  obtain l where l: "extends em1 em' j [l]" "re_type l = t"
    using event_emit_extends [OF extends_ok [OF ext], of now t pl] emit by fastforce
  have s: "stream em' j = p # mid @ [l]" using ext l(1) first(1) by (simp add: extends_def)
  then have "report_matches (stream em' j) job'"
    using assms(6,10) l(2) by (auto simp: report_matches_def is_terminal_def first(2))
  moreover have "finished_stream (p # mid @ [l]) (rj_state job')"
    using assms(6,7) l(2) first(2) by (intro finished_streamI [OF mid]) auto
  ultimately have "job_closed em' job'" using assms s l(1) by (simp add: job_closed_def extends_ok)
  moreover have "\<forall>i. i \<noteq> j \<longrightarrow> stream em' i = stream em i \<and> counter_of em' i = counter_of em i"
    using ext l(1) by (auto simp: extends_def)
  ultimately show ?thesis by blast
qed

lemma finish_job_closed:
  assumes ok: "stream_ok em (rj_id job)" and first: "stream em (rj_id job) = [p]" "re_type p = PlanUpdated"
    and plan: "rj_plan job = Some plan" "plan_valid plan"
    and run: "finish_job env now job plan em = (job', em')"
    and fresh: "rj_steps_executed job = 0"
  shows "job_closed em' job' \<and> rj_id job' = rj_id job \<and> rj_tenant job' = rj_tenant job
    \<and> (\<forall>i. i \<noteq> rj_id job \<longrightarrow> stream em' i = stream em i \<and> counter_of em' i = counter_of em i)"
proof -
  let ?j = "rj_id job" and ?bt = "budget_start (rj_budgets job) (ev_start_ms env)"
  let ?s0 = "\<lparr>xs_emitter = em, xs_budget = ?bt, xs_docs = [], xs_citations = [], xs_chunks = []\<rparr>"
  have "stream_ok (xs_emitter ?s0) ?j" using ok by simp
  from run_steps_extends [OF this, of env now 0 "rp_steps plan"] obtain r s mid k where
    rs: "run_steps env now ?j 0 (rp_steps plan) ?s0 = (r, s)" "extends em (xs_emitter s) ?j mid" "step_events mid"
    "xs_citations s = event_citations mid" "xs_chunks s = event_chunks mid"
    "xs_budget s = ?bt\<lparr>bt_steps := k, bt_tool_calls := k\<rparr>"
    "k \<le> length (rp_steps plan)" "r = None \<longrightarrow> k = length (rp_steps plan)" "\<forall>x. r = Some x \<longrightarrow> (\<exists>e. x = BudgetExn e)"
    "k = 0 \<or> (int k \<le> bc_max_steps (rj_budgets job) \<and> int k \<le> bc_max_tool_calls (rj_budgets job))"
    by (auto simp: budget_start_def)
  let ?em1 = "xs_emitter s"
  have st1: "stream ?em1 ?j = p # mid" using rs(2) first(1) by (simp add: extends_def)
  note close = closing_event [OF rs(2) first rs(3)]
  have budgets: "budget_respected (job\<lparr>rj_steps_executed := k, rj_tool_calls := k, rj_report := rep, rj_state := st\<rparr>)"
    if "st = Succeeded \<longrightarrow> k = length (rp_steps plan)" for rep st
    using rs(10) plan that by (auto simp: budget_respected_def)
  show ?thesis
  proof (cases r)
    case (Some x)
    with rs(9) obtain e where "x = BudgetExn e" by blast
    with Some rs(1) run have res: "job' = job\<lparr>rj_steps_executed := k, rj_tool_calls := k,
          rj_report := Some (partial_report ?j (p # mid)), rj_state := BudgetExceeded\<rparr>"
      and e: "snd (event_emit ?em1 now ?j ErrorEvent (error_payload ''budget_exceeded'' (budget_message e))) = em'"
      using rs(6) st1 by (auto simp: finish_job_def execute_plan_def Let_def)
    have "report_matches (p # mid) job'"
      by (auto simp: res report_matches_def partial_report_def)
    with close [OF e, of job'] budgets show ?thesis by (simp add: res is_terminal_def)
  next
    case None
    let ?rep = "\<lparr>rr_job = ?j, rr_text = (if event_chunks mid \<noteq> [] then join blank_line (event_chunks mid) else ''Research complete.''),
                rr_structured = None, rr_citations = event_citations mid, rr_partial = False\<rparr>"
    let ?v = "case rj_schema job of None \<Rightarrow> Some ?rep | Some sch \<Rightarrow> validate_report ?rep sch"
    have ex: "execute_plan env now ?j plan em ?bt = (Inr ?rep, s)"
      using None rs(1,4,5) by (simp add: execute_plan_def)
    show ?thesis
    proof (cases ?v)
      case None
      with run ex have res: "job' = job\<lparr>rj_state := Failed, rj_report := Some (failed_report ?j)\<rparr>"
        and e: "snd (event_emit ?em1 now ?j ErrorEvent (error_payload ''internal_error'' ''Report payload does not match output_schema'')) = em'"
        by (auto simp: finish_job_def Let_def)
      have "budget_respected job'" using fresh by (simp add: res budget_respected_def)
      with close [OF e, of job'] show ?thesis by (simp add: res is_terminal_def report_matches_def)
    next
      case (Some rep')
      with run ex have res: "job' = job\<lparr>rj_steps_executed := k, rj_tool_calls := k, rj_report := Some rep', rj_state := Succeeded\<rparr>"
        and e: "snd (event_emit ?em1 now ?j Done [(''report_uri'', JStr (''/v1/research/'' @ ?j))]) = em'"
        using rs(6) by (auto simp: finish_job_def Let_def)
      have "rr_text rep' = rr_text ?rep \<and> rr_citations rep' = rr_citations ?rep \<and> rr_partial rep' = rr_partial ?rep"
        using Some by (auto split: option.splits dest: validate_report_Some)
      then have "report_matches (p # mid) job'" by (auto simp: res report_matches_def first(2))
      with close [OF e, of job'] budgets None rs(8) \<open>r = None\<close> show ?thesis by (simp add: res is_terminal_def)
    qed
  qed
qed

lemma execute_job_ok:
  assumes ok: "stream_ok em (rj_id job)" and new: "stream em (rj_id job) = []" "rj_steps_executed job = 0"
    and run: "execute_job env now mx job em = (job', em')"
  shows "job_closed em' job' \<and> rj_id job' = rj_id job \<and> rj_tenant job' = rj_tenant job
    \<and> (\<forall>i. i \<noteq> rj_id job \<longrightarrow> stream em' i = stream em i \<and> counter_of em' i = counter_of em i)"
proof (cases "generate_plan (planner_max mx) env (rj_id job) (rj_goal job)")
  case (Inl m)
  from event_emit_extends [OF ok, of now ErrorEvent "error_payload ''internal_error'' m"] obtain em1 n where
    e: "event_emit em now (rj_id job) ErrorEvent (error_payload ''internal_error'' m) = (True, em1)"
    "extends em em1 (rj_id job) [\<lparr>re_id = n, re_job = rj_id job, re_type = ErrorEvent, re_payload = error_payload ''internal_error'' m\<rparr>]"
    by blast
  with run Inl have "job' = job\<lparr>rj_state := Failed\<rparr>" "em' = em1" by (simp_all add: execute_job_def)
  with e(2) new show ?thesis
    by (auto simp: job_closed_def extends_def finished_stream_def is_terminal_def report_matches_def budget_respected_def
        intro!: exI [of _ "[]"])
next
  case (Inr plan)
  from event_emit_extends [OF ok, of now PlanUpdated "plan_payload plan"] obtain em1 n where
    e: "event_emit em now (rj_id job) PlanUpdated (plan_payload plan) = (True, em1)"
    "extends em em1 (rj_id job) [\<lparr>re_id = n, re_job = rj_id job, re_type = PlanUpdated, re_payload = plan_payload plan\<rparr>]"
    by blast
  let ?job = "job\<lparr>rj_plan := Some plan, rj_state := Running\<rparr>"
  have run': "finish_job env now ?job plan em1 = (job', em')" using run Inr e(1) by (simp add: execute_job_def)
  have valid: "plan_valid plan" using Inr by (auto simp: generate_plan_def Let_def split: if_splits)
  have "stream em1 (rj_id ?job) = [\<lparr>re_id = n, re_job = rj_id job, re_type = PlanUpdated, re_payload = plan_payload plan\<rparr>]"
    using e(2) new(1) by (simp add: extends_def)
  from finish_job_closed [OF _ this _ _ valid run'] new(2) extends_ok [OF e(2)] e(2)
  show ?thesis by (simp add: extends_def)
qed

section \<open>All jobs of a service\<close>

record job_request =
  jq_env :: research_env
  jq_now :: rat
  jq_id :: string
  jq_tenant :: string
  jq_goal :: string
  jq_schema :: "(string, json) dict option"
  jq_budgets :: "budget_config option"

definition serve :: "research_service \<Rightarrow> job_request \<Rightarrow> research_service" where
  "serve sv q = snd (start_job sv (jq_env q) (jq_now q) (jq_id q) (jq_tenant q) (jq_goal q) (jq_schema q) (jq_budgets q))"

definition new_research_service :: "int \<Rightarrow> research_service" where
  "new_research_service mx = \<lparr>rs_jobs = [], rs_emitter = new_emitter 86400, rs_planner_max = mx\<rparr>"

definition serve_all :: "int \<Rightarrow> job_request list \<Rightarrow> research_service" where
  "serve_all mx qs = foldl serve (new_research_service mx) qs"

definition service_inv :: "string set \<Rightarrow> research_service \<Rightarrow> bool" where
  "service_inv used sv \<longleftrightarrow>
     (\<forall>k. k \<notin> used \<longrightarrow> dict_get (rs_jobs sv) k = None \<and> stream (rs_emitter sv) k = [] \<and> counter_of (rs_emitter sv) k = 0)
     \<and> (\<forall>k job. dict_get (rs_jobs sv) k = Some job \<longrightarrow> rj_id job = k \<and> job_closed (rs_emitter sv) job)"

lemma start_job_inv:
  assumes inv: "service_inv used sv" and new: "fresh \<notin> used"
  shows "service_inv (insert fresh used) (snd (start_job sv env now fresh tenant goal schema budgets))"
proof -
  let ?job = "\<lparr>rj_id = fresh, rj_tenant = tenant, rj_goal = goal, rj_schema = schema,
      rj_budgets = (case budgets of Some b \<Rightarrow> b | None \<Rightarrow> default_budget), rj_state = Queued,
      rj_plan = None, rj_report = None, rj_steps_executed = 0, rj_tool_calls = 0\<rparr>"
  obtain job' em' where run: "execute_job env now (rs_planner_max sv) ?job (rs_emitter sv) = (job', em')"
    by (cases "execute_job env now (rs_planner_max sv) ?job (rs_emitter sv)")
  have empty: "stream (rs_emitter sv) fresh = []" "counter_of (rs_emitter sv) fresh = 0"
    using inv new by (simp_all add: service_inv_def)
  then have "stream_ok (rs_emitter sv) (rj_id ?job)" by (simp add: stream_ok_def stream_def)
  from execute_job_ok [OF this _ _ run] empty have j: "job_closed em' job'" "rj_id job' = fresh"
    "\<And>i. i \<noteq> fresh \<Longrightarrow> stream em' i = stream (rs_emitter sv) i \<and> counter_of em' i = counter_of (rs_emitter sv) i" by auto
  have keep: "job_closed em' job" if "job_closed (rs_emitter sv) job" "rj_id job \<noteq> fresh" for job
    using that j(3) [OF that(2)] by (simp add: job_closed_def stream_ok_def stream_def)
  have old: "k \<noteq> fresh" if "dict_get (rs_jobs sv) k = Some job" for k job
    using that inv new by (auto simp: service_inv_def)
  have "service_inv (insert fresh used) (sv\<lparr>rs_jobs := dict_set fresh job' (rs_jobs sv), rs_emitter := em'\<rparr>)"
    using inv j keep old by (fastforce simp: service_inv_def)
  moreover have "service_inv (insert fresh used) sv"
    using inv by (auto simp: service_inv_def)
  ultimately show ?thesis by (simp add: start_job_def run)
qed

lemma start_job_frame:
  assumes inv: "service_inv used sv" and new: "fresh \<notin> used" and other: "k \<noteq> fresh"
  shows "dict_get (rs_jobs (snd (start_job sv env now fresh tenant goal schema budgets))) k = dict_get (rs_jobs sv) k
    \<and> stream (rs_emitter (snd (start_job sv env now fresh tenant goal schema budgets))) k = stream (rs_emitter sv) k"
proof -
  let ?job = "\<lparr>rj_id = fresh, rj_tenant = tenant, rj_goal = goal, rj_schema = schema,
      rj_budgets = (case budgets of Some b \<Rightarrow> b | None \<Rightarrow> default_budget), rj_state = Queued,
      rj_plan = None, rj_report = None, rj_steps_executed = 0, rj_tool_calls = 0\<rparr>"
  obtain job' em' where run: "execute_job env now (rs_planner_max sv) ?job (rs_emitter sv) = (job', em')"
    by (cases "execute_job env now (rs_planner_max sv) ?job (rs_emitter sv)")
  have empty: "stream (rs_emitter sv) fresh = []" "counter_of (rs_emitter sv) fresh = 0"
    using inv new by (simp_all add: service_inv_def)
  then have "stream_ok (rs_emitter sv) (rj_id ?job)" by (simp add: stream_ok_def stream_def)
  from execute_job_ok [OF this _ _ run] empty other have "stream em' k = stream (rs_emitter sv) k" by auto
  with other show ?thesis by (simp add: start_job_def run)
qed

lemma start_job_tenant:
  assumes inv: "service_inv used sv" and new: "fresh \<notin> used"
    and job: "dict_get (rs_jobs (snd (start_job sv env now fresh tenant goal schema budgets))) fresh = Some job"
  shows "rj_tenant job = tenant"
proof -
  let ?job = "\<lparr>rj_id = fresh, rj_tenant = tenant, rj_goal = goal, rj_schema = schema,
      rj_budgets = (case budgets of Some b \<Rightarrow> b | None \<Rightarrow> default_budget), rj_state = Queued,
      rj_plan = None, rj_report = None, rj_steps_executed = 0, rj_tool_calls = 0\<rparr>"
  obtain job' em' where run: "execute_job env now (rs_planner_max sv) ?job (rs_emitter sv) = (job', em')"
    by (cases "execute_job env now (rs_planner_max sv) ?job (rs_emitter sv)")
  have empty: "stream (rs_emitter sv) fresh = []" "counter_of (rs_emitter sv) fresh = 0" "dict_get (rs_jobs sv) fresh = None"
    using inv new by (simp_all add: service_inv_def)
  then have "stream_ok (rs_emitter sv) (rj_id ?job)" by (simp add: stream_ok_def stream_def)
  from execute_job_ok [OF this _ _ run] empty have "rj_tenant job' = tenant" by auto
  with job empty show ?thesis by (auto simp: start_job_def run split: if_splits)
qed

lemma serve_all_inv: "distinct (map jq_id qs) \<Longrightarrow> service_inv (set (map jq_id qs)) (serve_all mx qs)"
proof (induction qs rule: rev_induct)
  case Nil
  show ?case by (simp add: serve_all_def service_inv_def new_research_service_def new_emitter_def stream_def buffer_of_def counter_of_def)
next
  case (snoc q qs)
  then have "service_inv (set (map jq_id qs)) (serve_all mx qs)" "jq_id q \<notin> set (map jq_id qs)" by auto
  from start_job_inv [OF this] show ?case by (simp add: serve_all_def serve_def)
qed

lemma serve_all_closed:
  assumes "distinct (map jq_id qs)" and "get_job (serve_all mx qs) k t = Inr job"
  shows "rj_id job = k \<and> job_closed (rs_emitter (serve_all mx qs)) job"
  using serve_all_inv [OF assms(1), of mx] assms(2)
  by (auto simp: service_inv_def get_job_def split: option.splits if_splits)

lemma get_events_stream:
  "get_job sv k t = Inr job \<Longrightarrow> get_events sv k t None = Inr (stream (rs_emitter sv) k)"
  by (simp add: get_events_def replay_def stream_def)

text \<open>
  C4. The event stream of a research job. After any sequence of jobs with distinct identifiers, the
  events a tenant reads for one of its jobs are numbered 1, 2, 3, ... without gaps, the plan comes first
  (before any retrieval), exactly one terminal event is sent, it comes last, and it is \<open>done\<close> exactly
  when the job succeeded.
\<close>

theorem research_event_stream:
  assumes "distinct (map jq_id qs)" and "get_job (serve_all mx qs) k t = Inr job"
  shows "\<exists>es. get_events (serve_all mx qs) k t None = Inr es \<and> map re_id es = [1..<Suc (length es)]
    \<and> (\<exists>front last_type. map re_type es = front @ [last_type] \<and> is_terminal last_type \<and> (\<forall>x \<in> set front. \<not> is_terminal x)
         \<and> (last_type = Done \<longleftrightarrow> rj_state job = Succeeded) \<and> (front = [] \<or> hd front = PlanUpdated \<and> PlanUpdated \<notin> set (tl front)))"
proof -
  let ?es = "stream (rs_emitter (serve_all mx qs)) k"
  from serve_all_closed [OF assms] have c: "rj_id job = k" "job_closed (rs_emitter (serve_all mx qs)) job" by auto
  then have ok: "stream_ok (rs_emitter (serve_all mx qs)) k" and shape: "finished_stream ?es (rj_state job)"
    by (auto simp: job_closed_def)
  have "map re_id ?es = [1..<Suc (length ?es)]"
    using ok stream_ok_length [OF ok] by (simp add: stream_ok_def stream_def)
  moreover from shape obtain front l where f: "map re_type ?es = front @ [l]" "is_terminal l" "(l = Done) = (rj_state job = Succeeded)"
    "front = [] \<or> (\<exists>mid. front = PlanUpdated # mid \<and> set mid \<subseteq> {StepStarted, StepCompleted, CitationEvent, ReportChunk})"
    unfolding finished_stream_def by blast
  moreover have "(\<forall>x \<in> set front. \<not> is_terminal x) \<and> (front = [] \<or> hd front = PlanUpdated \<and> PlanUpdated \<notin> set (tl front))"
    using f(4) by (auto simp: is_terminal_def)
  ultimately show ?thesis using get_events_stream [OF assms(2)] by blast
qed

text \<open>
  C10. The report is what was streamed: for a job that succeeded, or ran out of budget, the citations of the report are those of
  its \<open>citation\<close> events in order, and its text is the text of the \<open>report_chunk\<close> events joined by blank
  lines; the report is marked partial exactly when the budget ran out.
\<close>

theorem research_report_is_stream:
  assumes "distinct (map jq_id qs)" and "get_job (serve_all mx qs) k t = Inr job"
    and "rj_state job \<noteq> Failed"
  shows "\<exists>es r. get_events (serve_all mx qs) k t None = Inr es \<and> get_report (serve_all mx qs) k t = Inr r
    \<and> rr_citations r = event_citations es \<and> (rr_partial r \<longleftrightarrow> rj_state job = BudgetExceeded)
    \<and> (event_chunks es = [] \<or> rr_text r = join blank_line (event_chunks es))"
proof -
  from serve_all_closed [OF assms(1,2)] have c: "rj_id job = k" "job_closed (rs_emitter (serve_all mx qs)) job" by auto
  with assms(3) obtain r where "rj_report job = Some r" "rr_citations r = event_citations (stream (rs_emitter (serve_all mx qs)) k)"
    "rr_partial r \<longleftrightarrow> rj_state job = BudgetExceeded"
    "event_chunks (stream (rs_emitter (serve_all mx qs)) k) \<noteq> [] \<longrightarrow> rr_text r = join blank_line (event_chunks (stream (rs_emitter (serve_all mx qs)) k))"
    by (auto simp: job_closed_def report_matches_def)
  with assms(2) get_events_stream [OF assms(2)] show ?thesis by (auto simp: get_report_def)
qed

text \<open>
  C12. Budgets hold: every job ends in a terminal state; it never executes more steps or makes more tool
  calls than its budget allows, and it is reported as succeeded only when every step of a valid plan of
  1 to 32 steps was executed.
\<close>

theorem research_budget_respected:
  assumes "distinct (map jq_id qs)" and "get_job (serve_all mx qs) k t = Inr job"
  shows "rj_state job \<in> {Succeeded, Failed, BudgetExceeded}
    \<and> int (rj_steps_executed job) \<le> max 0 (bc_max_steps (rj_budgets job))
    \<and> (rj_steps_executed job = 0 \<or> int (rj_tool_calls job) \<le> bc_max_tool_calls (rj_budgets job))
    \<and> (rj_state job = Succeeded \<longrightarrow> (\<exists>p. rj_plan job = Some p \<and> rj_steps_executed job = length (rp_steps p)
         \<and> 1 \<le> length (rp_steps p) \<and> length (rp_steps p) \<le> 32))"
  using serve_all_closed [OF assms] by (auto simp: job_closed_def budget_respected_def plan_valid_def)

text \<open>
  Research jobs of other tenants are invisible: report, events and state of a job of another tenant are refused exactly
  as for a job that does not exist.
\<close>

theorem research_tenant_isolation:
  "(\<forall>job. get_job sv k t \<noteq> Inr job) = (\<forall>job. dict_get (rs_jobs sv) k = Some job \<longrightarrow> rj_tenant job \<noteq> t)
   \<and> ((\<forall>job. get_job sv k t \<noteq> Inr job) \<longrightarrow> get_report sv k t = Inl (JobNotFound k)
        \<and> get_events sv k t n = Inl (JobNotFound k) \<and> get_job_state sv k t = Inl (JobNotFound k))"
proof -
  have "get_job sv k t = Inl (JobNotFound k)" if "\<forall>job. get_job sv k t \<noteq> Inr job"
    using jobs.get_cases [of sv k t] that by blast
  then show ?thesis
    by (auto simp: get_report_def get_events_def get_job_state_def jobs.get_found)
qed

section \<open>Witnesses\<close>

definition sample_env :: research_env where
  "sample_env = \<lparr>ev_start_ms = 1000, ev_clock = (\<lambda>i. 1000 + of_nat i), ev_fresh = (\<lambda>i. str_nat i),
     ev_llm = (\<lambda>_. None), ev_retriever = None\<rparr>"

definition sample_request :: "string \<Rightarrow> int \<Rightarrow> job_request" where
  "sample_request j mx = \<lparr>jq_env = sample_env, jq_now = 1, jq_id = j, jq_tenant = ''t'', jq_goal = ''why is the sky blue'',
     jq_schema = None, jq_budgets = Some \<lparr>bc_max_steps = mx, bc_max_duration_ms = 60000, bc_max_tool_calls = 100\<rparr>\<rparr>"

lemma sample_distinct: "distinct (map jq_id [sample_request j mx])"
  by simp

lemma sample_state_a: "get_job_state (serve_all 32 [sample_request ''a'' 32]) ''a'' ''t'' = Inr Succeeded"
  by code_simp

lemma sample_state_b: "get_job_state (serve_all 32 [sample_request ''b'' 2]) ''b'' ''t'' = Inr BudgetExceeded"
  by code_simp

lemma get_job_state_Inr: "get_job_state sv k t = Inr st \<Longrightarrow> \<exists>job. get_job sv k t = Inr job \<and> rj_state job = st"
  by (auto simp: get_job_state_def split: sum.splits)

theorem research_event_stream_witness:
  "\<exists>es. get_events (serve_all 32 [sample_request ''b'' 2]) ''b'' ''t'' None = Inr es \<and> map re_id es = [1..<Suc (length es)]"
  using get_job_state_Inr [OF sample_state_b] research_event_stream [OF sample_distinct [of "''b''" 2], of 32 "''b''" "''t''"] by blast

theorem research_report_is_stream_witness:
  "\<exists>es r. get_events (serve_all 32 [sample_request ''b'' 2]) ''b'' ''t'' None = Inr es
     \<and> get_report (serve_all 32 [sample_request ''b'' 2]) ''b'' ''t'' = Inr r \<and> rr_citations r = event_citations es \<and> rr_partial r"
proof -
  from get_job_state_Inr [OF sample_state_b] obtain job where
    j: "get_job (serve_all 32 [sample_request ''b'' 2]) ''b'' ''t'' = Inr job" "rj_state job = BudgetExceeded" by blast
  then have "rj_state job \<noteq> Failed" by simp
  from research_report_is_stream [OF sample_distinct j(1) this] j(2) show ?thesis by blast
qed

theorem research_budget_respected_witness:
  "\<exists>job. get_job (serve_all 32 [sample_request ''a'' 32]) ''a'' ''t'' = Inr job \<and> rj_state job = Succeeded \<and> int (rj_steps_executed job) \<le> max 0 (bc_max_steps (rj_budgets job))"
  using get_job_state_Inr [OF sample_state_a] research_budget_respected [OF sample_distinct [of "''a''" 32], of 32 "''a''" "''t''"] by blast

theorem research_tenant_isolation_witness:
  "get_report (new_research_service 32\<lparr>rs_jobs := [(''a'', \<lparr>rj_id = ''a'', rj_tenant = ''t'', rj_goal = ''g'', rj_schema = None,
     rj_budgets = default_budget, rj_state = Queued, rj_plan = None, rj_report = None, rj_steps_executed = 0, rj_tool_calls = 0\<rparr>)]\<rparr>)
     ''a'' ''intruder'' = Inl (JobNotFound ''a'')"
  (is "get_report ?sv _ _ = _")
proof -
  have "\<forall>job. dict_get (rs_jobs ?sv) ''a'' = Some job \<longrightarrow> rj_tenant job \<noteq> ''intruder''"
    by (simp add: dict_get_def)
  with research_tenant_isolation [of ?sv "''a''" "''intruder''" None] show ?thesis by blast
qed

section \<open>Plans\<close>

lemma heuristic_shape:
  "map ps_type (heuristic_decompose mx fresh goal)
     = SubQuery # concat (replicate (retrieval_rounds mx (length goal)) [RetrievalStep, ReadStep]) @ [Synthesis]"
  by (simp add: heuristic_decompose_def plain_step_def Let_def map_concat comp_def map_replicate_trivial flip: map_replicate_const)

lemma retrieval_rounds_le: "retrieval_rounds mx n \<le> 4"
proof -
  have "min 4 (mx div 4) \<le> 4" by simp
  then have "nat (min 4 (mx div 4)) \<le> 4" by linarith
  then show ?thesis by (simp only: retrieval_rounds_def) simp
qed

lemma length_heuristic: "length (heuristic_decompose mx fresh goal) = 2 * retrieval_rounds mx (length goal) + 2"
proof -
  have "length (concat (replicate n [RetrievalStep, ReadStep])) = 2 * n" for n by (induction n) auto
  then have "length (map ps_type (heuristic_decompose mx fresh goal)) = 2 * retrieval_rounds mx (length goal) + 2"
    by (simp add: heuristic_shape)
  then show ?thesis by simp
qed

text \<open>
  Planning cannot fail for a positive step limit: the plan has between 1 and 32 steps and no more
  than the limit, also when the planning model returns too many steps or none. Without the model and
  with a limit of at least 10 the plan starts with the decomposition of the goal, ends with the
  synthesis, and pairs every retrieval with a reading step.
\<close>

theorem plan_generation:
  assumes "1 \<le> mx"
  shows "\<exists>p. generate_plan (planner_max mx) env j goal = Inr p \<and> rp_job p = j
    \<and> 1 \<le> length (rp_steps p) \<and> int (length (rp_steps p)) \<le> min mx 32
    \<and> (ev_llm env goal = None \<and> 10 \<le> mx \<longrightarrow>
         (\<exists>n \<ge> 1. map ps_type (rp_steps p) = SubQuery # concat (replicate n [RetrievalStep, ReadStep]) @ [Synthesis]))"
proof -
  let ?m = "planner_max mx"
  let ?d = "decompose_goal ?m env goal"
  have m: "1 \<le> ?m" "?m \<le> mx" "?m \<le> 32" using assms by (auto simp: planner_max_def max_plan_steps_def)
  define s1 where "s1 = (if ?d = [] then [plain_step (ev_fresh env) 0 RetrievalStep (''Search for: '' @ take 200 goal)] else ?d)"
  define s2 where "s2 = (if int (length s1) > ?m then py_take ?m s1 else s1)"
  have ne: "1 \<le> length s1" by (cases ?d) (auto simp: s1_def)
  have len: "1 \<le> length s2" "int (length s2) \<le> ?m"
    using ne m(1) by (auto simp: py_take_def s2_def)
  then have "length s2 \<le> 32" using m(3) by linarith
  with len(1) have valid: "plan_valid \<lparr>rp_job = j, rp_steps = s2\<rparr>" by (simp add: plan_valid_def)
  have "generate_plan ?m env j goal = (if \<not> plan_valid \<lparr>rp_job = j, rp_steps = s2\<rparr>
      then Inl (''Generated plan has '' @ str_nat (length s2) @ '' steps, expected 1-'' @ str_int max_plan_steps)
      else Inr \<lparr>rp_job = j, rp_steps = s2\<rparr>)"
    unfolding generate_plan_def Let_def s2_def s1_def by (rule refl)
  with valid have g: "generate_plan ?m env j goal = Inr \<lparr>rp_job = j, rp_steps = s2\<rparr>"
    by simp
  have heur: "\<exists>n \<ge> 1. map ps_type s2 = SubQuery # concat (replicate n [RetrievalStep, ReadStep]) @ [Synthesis]"
    if "ev_llm env goal = None" "10 \<le> mx"
  proof -
    have d: "?d = heuristic_decompose ?m (ev_fresh env) goal" using that by (simp add: decompose_goal_def)
    have "retrieval_rounds ?m (length goal) \<le> 4" by (rule retrieval_rounds_le)
    then have "length ?d \<le> 10" "?d \<noteq> []" using length_heuristic [of ?m "ev_fresh env" goal] by (auto simp: d)
    then have "s2 = ?d" using that(2) by (auto simp: s2_def s1_def planner_max_def max_plan_steps_def)
    moreover have "1 \<le> retrieval_rounds ?m (length goal)"
      using that(2) by (auto simp: retrieval_rounds_def planner_max_def max_plan_steps_def)
    ultimately show ?thesis using heuristic_shape [of ?m "ev_fresh env" goal] d by auto
  qed
  show ?thesis
    using g len m heur by (intro exI [of _ "\<lparr>rp_job = j, rp_steps = s2\<rparr>"]) simp
qed

theorem plan_generation_witness:
  "\<exists>p. generate_plan (planner_max 3) sample_env ''j'' ''why'' = Inr p \<and> 1 \<le> length (rp_steps p) \<and> int (length (rp_steps p)) \<le> 3"
proof -
  have "(1 :: int) \<le> 3" by simp
  from plan_generation [OF this, of sample_env "''j''" "''why''"] show ?thesis by fastforce
qed

end
