(* ===== verification/QueryAst.thy ===== *)
theory QueryAst
  imports PyStr
begin

text \<open>
  The filter language: the syntax tree and structural equivalence of
  \<open>backend/query_filter/ast_types.py\<close> and the printer of \<open>backend/query_filter/printer.py\<close>.

  A number literal is an exact rational; \<open>format_g\<close> is Python's \<open>:g\<close> (six significant digits, ties to
  even) on it.
\<close>

section \<open>Syntax trees\<close>

datatype literal = StrLit string | NumLit rat | TsLit string

datatype filter_node =
    FEq string literal
  | FNe string literal
  | FIn string "literal list"
  | FRange string string literal
  | FNot filter_node
  | FAnd "filter_node list"
  | FOr "filter_node list"

section \<open>Numbers\<close>

definition is_integral :: "rat \<Rightarrow> bool" where
  "is_integral x \<longleftrightarrow> x = of_int \<lfloor>x\<rfloor>"

definition round_half_even :: "rat \<Rightarrow> int" where
  "round_half_even x =
     (let f = \<lfloor>x\<rfloor>; d = x - of_int f in
      if d < 1 / 2 then f else if d > 1 / 2 then f + 1 else if even f then f else f + 1)"

definition pow10 :: "int \<Rightarrow> rat" where
  "pow10 e = (if e \<ge> 0 then 10 ^ nat e else 1 / 10 ^ nat (- e))"

text \<open>
  The decimal exponent of a positive number; 400 steps are enough for the range of a double
  (exponents between -324 and 308).
\<close>

fun decimal_exponent :: "nat \<Rightarrow> rat \<Rightarrow> int" where
  "decimal_exponent 0 x = 0"
| "decimal_exponent (Suc n) x =
     (if x \<ge> 10 then decimal_exponent n (x / 10) + 1
      else if x < 1 then decimal_exponent n (x * 10) - 1 else 0)"

definition pad_left :: "nat \<Rightarrow> string \<Rightarrow> string" where
  "pad_left n s = replicate (n - length s) CHR ''0'' @ s"

definition strip_zeros :: "string \<Rightarrow> string" where
  "strip_zeros s = rev (dropWhile (\<lambda>c. c = CHR ''0'') (rev s))"

definition with_fraction :: "string \<Rightarrow> string \<Rightarrow> string" where
  "with_fraction whole fr = (if strip_zeros fr = '''' then whole else whole @ ''.'' @ strip_zeros fr)"

definition format_g_pos :: "rat \<Rightarrow> string" where
  "format_g_pos x =
     (let e0 = decimal_exponent 400 x;
          m0 = round_half_even (x / pow10 (e0 - 5));
          (m, e) = (if m0 \<ge> 1000000 then (100000, e0 + 1) else (m0, e0));
          ds = pad_left 6 (str_int m)
      in if - 4 \<le> e \<and> e < 6
         then (if e \<ge> 0 then with_fraction (take (nat e + 1) ds) (drop (nat e + 1) ds)
               else with_fraction ''0'' (replicate (nat (- e) - 1) CHR ''0'' @ ds))
         else with_fraction (take 1 ds) (drop 1 ds) @ ''e'' @ (if e < 0 then ''-'' else ''+'')
                @ pad_left 2 (str_int (abs e)))"

definition format_g :: "rat \<Rightarrow> string" where
  "format_g x = (if x < 0 then ''-'' @ format_g_pos (- x) else if x = 0 then ''0'' else format_g_pos x)"

section \<open>The printer\<close>

definition quote_char :: char where "quote_char = CHR 0x22"
definition backslash :: char where "backslash = CHR 0x5C"

definition escape_string :: "string \<Rightarrow> string" where
  "escape_string s = replace_all [quote_char] [backslash, quote_char] (replace_all [backslash] [backslash, backslash] s)"

definition print_literal :: "literal \<Rightarrow> string" where
  "print_literal l =
     (case l of
        StrLit s \<Rightarrow> [quote_char] @ escape_string s @ [quote_char]
      | NumLit x \<Rightarrow> if is_integral x then str_int \<lfloor>x\<rfloor> else format_g x
      | TsLit s \<Rightarrow> s)"

definition sort_literals :: "literal list \<Rightarrow> literal list" where
  "sort_literals vs = sort_key print_literal vs"

fun print_node :: "filter_node \<Rightarrow> nat \<Rightarrow> string" where
  "print_node (FEq f v) p = f @ '' = '' @ print_literal v"
| "print_node (FNe f v) p = f @ '' != '' @ print_literal v"
| "print_node (FIn f vs) p = f @ '' in ('' @ join '', '' (map print_literal (sort_literals vs)) @ '')''"
| "print_node (FRange f op v) p = f @ '' '' @ op @ '' '' @ print_literal v"
| "print_node (FNot c) p = ''not '' @ print_node c 3"
| "print_node (FAnd cs) p =
     (let r = join '' and '' (sort (map (\<lambda>c. print_node c 2) cs))
      in if p > 2 then ''('' @ r @ '')'' else r)"
| "print_node (FOr cs) p =
     (let r = join '' or '' (sort (map (\<lambda>c. print_node c 1) cs))
      in if p > 1 then ''('' @ r @ '')'' else r)"

definition print_filter :: "filter_node \<Rightarrow> string" where
  "print_filter a = print_node a 0"

section \<open>Structural equivalence\<close>

definition literal_eq :: "literal \<Rightarrow> literal \<Rightarrow> bool" where
  "literal_eq a b \<longleftrightarrow>
     (case (a, b) of (StrLit x, StrLit y) \<Rightarrow> x = y | (NumLit x, NumLit y) \<Rightarrow> x = y | (TsLit x, TsLit y) \<Rightarrow> x = y
      | _ \<Rightarrow> False)"

text \<open>
  The sort key of \<open>ast_types.py\<close> renders a number with \<open>repr\<close>, which determines it; the key here is
  the tag and the literal's content.
\<close>

definition literal_key :: "literal \<Rightarrow> nat \<times> string \<times> rat" where
  "literal_key l = (case l of StrLit s \<Rightarrow> (1, s, 0) | NumLit x \<Rightarrow> (0, '''', x) | TsLit s \<Rightarrow> (2, s, 0))"

fun structural_eq :: "filter_node \<Rightarrow> filter_node \<Rightarrow> bool" where
  "structural_eq (FEq f v) (FEq g w) = (f = g \<and> literal_eq v w)"
| "structural_eq (FNe f v) (FNe g w) = (f = g \<and> literal_eq v w)"
| "structural_eq (FIn f vs) (FIn g ws) =
     (f = g \<and> length vs = length ws \<and> mset (map literal_key vs) = mset (map literal_key ws))"
| "structural_eq (FRange f op v) (FRange g op' w) = (f = g \<and> op = op' \<and> literal_eq v w)"
| "structural_eq (FNot a) (FNot b) = structural_eq a b"
| "structural_eq (FAnd as) (FAnd bs) =
     (length as = length bs \<and> sort (map print_filter as) = sort (map print_filter bs))"
| "structural_eq (FOr as) (FOr bs) =
     (length as = length bs \<and> sort (map print_filter as) = sort (map print_filter bs))"
| "structural_eq _ _ = False"

lemma literal_eq_iff [simp]: "literal_eq a b \<longleftrightarrow> a = b"
  by (cases a; cases b) (auto simp: literal_eq_def)

lemma inj_literal_key: "inj literal_key"
  by (auto simp: inj_on_def literal_key_def split: literal.splits)

lemma structural_eq_refl [simp]: "structural_eq a a"
  by (induction a) auto

lemma structural_eq_sym: "structural_eq a b \<Longrightarrow> structural_eq b a"
  by (induction a b rule: structural_eq.induct) auto

lemma structural_eq_trans: "structural_eq a b \<Longrightarrow> structural_eq b c \<Longrightarrow> structural_eq a c"
proof (induction a b arbitrary: c rule: structural_eq.induct)
  case (5 a b)
  then show ?case by (cases c) auto
qed (auto elim!: structural_eq.elims(2))

end
