(* ===== verification/QueryParser.thy ===== *)
theory QueryParser
  imports QueryAst
begin

text \<open>
  The recursive-descent parser of \<open>backend/query_filter/parser.py\<close> with the errors of
  \<open>backend/query_filter/errors.py\<close>.

  The parser state is the text still to be read (\<open>pos\<close> is the length of the source minus its length),
  the leaf count, and the nesting depth, which is an argument because \<open>parse_expr\<close> restores it on every
  exit.  The mutually recursive functions carry fuel; \<open>parse\<close> gives 6 units per character, and
  \<open>parse_enough_fuel\<close> shows that they suffice.  Python's own limit on the depth of recursion is not
  modelled.
\<close>

section \<open>Errors\<close>

record parse_error =
  pe_code :: string
  pe_message :: string
  pe_line :: nat
  pe_column :: nat

text \<open>A syntax error is raised at a position (given by the text remaining), a bound violation at 1:1.\<close>

datatype parse_exn = SyntaxAt string nat | TooLarge string | OutOfFuel

type_synonym 'a presult = "parse_exn + ('a \<times> string)"

definition mk_error :: "string \<Rightarrow> string \<Rightarrow> nat \<Rightarrow> nat \<Rightarrow> parse_error" where
  "mk_error code message line column =
     \<lparr>pe_code = code, pe_message = (if length message < 1 then ''Unknown error'' else take 256 message),
      pe_line = line, pe_column = column\<rparr>"

definition get_position :: "string \<Rightarrow> nat \<Rightarrow> nat \<times> nat" where
  "get_position source pos =
     foldl (\<lambda>(line, col) c. if c = CHR 0x0A then (line + 1, 1) else (line, col + 1)) (1, 1)
       (take (min pos (length source)) source)"

definition max_input_length :: nat where "max_input_length = 16384"
definition max_nesting_depth :: nat where "max_nesting_depth = 32"
definition max_leaf_count :: nat where "max_leaf_count = 1024"
definition max_in_set_size :: nat where "max_in_set_size = 256"

definition valid_fields :: "string list" where
  "valid_fields = [''domain'', ''url'', ''published_at'', ''language'', ''category'']"

section \<open>Characters and keywords\<close>

definition is_blank :: "char \<Rightarrow> bool" where
  "is_blank c \<longleftrightarrow> c = CHR '' '' \<or> c = CHR 0x09 \<or> c = CHR 0x0D \<or> c = CHR 0x0A"

definition skip_ws :: "string \<Rightarrow> string" where
  "skip_ws s = dropWhile is_blank s"

definition ident_start :: "char \<Rightarrow> bool" where
  "ident_start c \<longleftrightarrow> py_isalpha c \<or> c = CHR ''_''"

definition ident_char :: "char \<Rightarrow> bool" where
  "ident_char c \<longleftrightarrow> py_isalnum c \<or> c = CHR ''_''"

definition match_keyword :: "string \<Rightarrow> string \<Rightarrow> string option" where
  "match_keyword kw s =
     (let t = skip_ws s; rest = drop (length kw) t in
      if length t < length kw then None
      else if py_lower (take (length kw) t) \<noteq> kw then None
      else if rest \<noteq> [] \<and> ident_char (hd rest) then None
      else Some rest)"

definition hex_digit :: "nat \<Rightarrow> char" where
  "hex_digit n = (if n < 10 then char_of (48 + n) else char_of (87 + n))"

text \<open>\<open>repr\<close> of a one-character string.\<close>

definition py_repr :: "char \<Rightarrow> string" where
  "py_repr c =
     (if c = CHR 0x27 then [quote_char, c, quote_char]
      else [CHR 0x27] @
        (if c = backslash then [backslash, backslash]
         else if c = CHR 0x0A then [backslash, CHR ''n''] else if c = CHR 0x09 then [backslash, CHR ''t'']
         else if c = CHR 0x0D then [backslash, CHR ''r'']
         else if cp c < 32 \<or> (127 \<le> cp c \<and> cp c \<le> 160) \<or> cp c = 173
              then [backslash, CHR ''x'', hex_digit (cp c div 16), hex_digit (cp c mod 16)]
         else [c]) @ [CHR 0x27])"

definition syntax_error :: "string \<Rightarrow> string \<Rightarrow> parse_exn + 'a" where
  "syntax_error message rest = Inl (SyntaxAt message (length rest))"

definition expect_char :: "char \<Rightarrow> string \<Rightarrow> parse_exn + string" where
  "expect_char ch s =
     (case skip_ws s of
        [] \<Rightarrow> syntax_error (''Expected '' @ py_repr ch @ '', got end of input'') []
      | c # t \<Rightarrow> if c \<noteq> ch then syntax_error (''Expected '' @ py_repr ch @ '', got '' @ py_repr c) (c # t) else Inr t)"

section \<open>Fields\<close>

definition quoted :: "char \<Rightarrow> string" where
  "quoted c = [CHR 0x27, c, CHR 0x27]"

definition parse_identifier :: "string \<Rightarrow> string presult" where
  "parse_identifier s =
     (case skip_ws s of
        [] \<Rightarrow> syntax_error ''Expected identifier, got end of input'' []
      | c # t \<Rightarrow> if \<not> ident_start c then syntax_error (''Expected identifier, got '' @ quoted c) (c # t)
                 else Inr (c # takeWhile ident_char t, dropWhile ident_char t))"

lemma length_skip_ws: "length (skip_ws s) \<le> length s"
  by (simp add: skip_ws_def length_dropWhile_le)

lemma parse_identifier_shorter: "parse_identifier s = Inr (i, r) \<Longrightarrow> length r < length s"
  using length_skip_ws [of s] length_dropWhile_le [of ident_char]
  by (auto simp: parse_identifier_def syntax_error_def split: list.splits if_splits)
    (metis Suc_le_eq le_trans length_Cons less_Suc_eq_le)

function parse_dots :: "string \<Rightarrow> string list presult" where
  "parse_dots s =
     (case s of
        [] \<Rightarrow> Inr ([], [])
      | c # t \<Rightarrow>
          if c \<noteq> CHR ''.'' then Inr ([], s)
          else (case parse_identifier t of
              Inl e \<Rightarrow> Inl e
            | Inr (i, r) \<Rightarrow> (case parse_dots r of Inl e \<Rightarrow> Inl e | Inr (is, r') \<Rightarrow> Inr (i # is, r'))))"
  by pat_completeness auto
termination
  by (relation "measure length") (auto dest!: parse_identifier_shorter)

declare parse_dots.simps [simp del]

definition check_field :: "string \<Rightarrow> string list \<Rightarrow> string \<Rightarrow> string presult" where
  "check_field ident segs rest =
     (if ident = ''metadata'' then
        (if segs = [] then syntax_error ''metadata field requires at least one key segment (e.g., metadata.key)'' rest
         else (case List.find (\<lambda>seg. length seg < 1 \<or> length seg > 128) segs of
             Some seg \<Rightarrow> syntax_error (''Metadata key segment must be 1-128 code points, got '' @ str_nat (length seg)) rest
           | None \<Rightarrow> Inr (join ''.'' (ident # segs), rest)))
      else if ident \<notin> set valid_fields then
        syntax_error (''Unknown field '' @ [CHR 0x27] @ ident @ [CHR 0x27]
          @ ''. Valid fields: domain, url, published_at, language, category, metadata.*'') rest
      else Inr (join ''.'' (ident # segs), rest))"

definition parse_field :: "string \<Rightarrow> string presult" where
  "parse_field s =
     (case parse_identifier (skip_ws s) of
        Inl e \<Rightarrow> Inl e
      | Inr (ident, r) \<Rightarrow> (case parse_dots r of Inl e \<Rightarrow> Inl e | Inr (segs, rest) \<Rightarrow> check_field ident segs rest))"

section \<open>Operators and values\<close>

fun first_keyword :: "string list \<Rightarrow> string \<Rightarrow> (string \<times> string) option" where
  "first_keyword [] s = None"
| "first_keyword (kw # kws) s = (case match_keyword kw s of Some r \<Rightarrow> Some (kw, r) | None \<Rightarrow> first_keyword kws s)"

definition parse_operator :: "string \<Rightarrow> string presult" where
  "parse_operator s0 =
     (let s = skip_ws s0 in
      if s = [] then syntax_error ''Expected operator, got end of input'' []
      else if starts_with s ''!='' then Inr (''!='', drop 2 s)
      else if starts_with s ''<='' then Inr (''le'', drop 2 s)
      else if starts_with s ''>='' then Inr (''ge'', drop 2 s)
      else if hd s = CHR ''='' then Inr (''='', tl s)
      else if hd s = CHR ''<'' then Inr (''lt'', tl s)
      else if hd s = CHR ''>'' then Inr (''gt'', tl s)
      else (case first_keyword [''lt'', ''le'', ''gt'', ''ge''] s of
          Some r \<Rightarrow> Inr r
        | None \<Rightarrow> syntax_error (''Expected operator (=, !=, lt, le, gt, ge), got '' @ quoted (hd s)) s))"

definition unescape :: "char \<Rightarrow> char" where
  "unescape c = (if c = CHR ''n'' then CHR 0x0A else if c = CHR ''t'' then CHR 0x09
     else if c = CHR ''r'' then CHR 0x0D else c)"

text \<open>The text after the opening quote; the accumulator is the decoded part, reversed.\<close>

fun string_body :: "string \<Rightarrow> string \<Rightarrow> literal presult" where
  "string_body acc [] = syntax_error ''Unterminated string literal'' []"
| "string_body acc (c # s) =
     (if c = backslash then
        (case s of [] \<Rightarrow> syntax_error ''Unterminated escape sequence in string'' []
         | e # s' \<Rightarrow> string_body (unescape e # acc) s')
      else if c = quote_char then
        (if length acc > 1024 then syntax_error ''String literal exceeds maximum of 1024 code points'' s
         else Inr (StrLit (rev acc), s))
      else string_body (c # acc) s)"

definition starts_digit :: "string \<Rightarrow> bool" where
  "starts_digit s \<longleftrightarrow> s \<noteq> [] \<and> ascii_digit (hd s)"

definition digits_at :: "nat \<Rightarrow> string \<Rightarrow> bool" where
  "digits_at n s \<longleftrightarrow> n \<le> length s \<and> list_all ascii_digit (take n s)"

text \<open>
  The regular expression for timestamps, as the text left after the longest match; every group after
  the date is optional.
\<close>

definition ts_fraction :: "string \<Rightarrow> string" where
  "ts_fraction s = (if starts_with s ''.'' \<and> starts_digit (drop 1 s) then dropWhile ascii_digit (drop 1 s) else s)"

definition ts_zone :: "string \<Rightarrow> string" where
  "ts_zone s =
     (if starts_with s ''Z'' then drop 1 s
      else if (starts_with s ''+'' \<or> starts_with s ''-'') \<and> digits_at 2 (drop 1 s)
              \<and> starts_with (drop 3 s) '':'' \<and> digits_at 2 (drop 4 s) then drop 6 s
      else s)"

definition ts_clock :: "string \<Rightarrow> bool" where
  "ts_clock s \<longleftrightarrow> starts_with s ''T'' \<and> digits_at 2 (drop 1 s) \<and> starts_with (drop 3 s) '':'' \<and> digits_at 2 (drop 4 s)
     \<and> starts_with (drop 6 s) '':'' \<and> digits_at 2 (drop 7 s)"

definition ts_date :: "string \<Rightarrow> bool" where
  "ts_date s \<longleftrightarrow> digits_at 4 s \<and> starts_with (drop 4 s) ''-'' \<and> digits_at 2 (drop 5 s)
     \<and> starts_with (drop 7 s) ''-'' \<and> digits_at 2 (drop 8 s)"

definition ts_rest :: "string \<Rightarrow> string option" where
  "ts_rest s =
     (if \<not> ts_date s then None
      else (let t = drop 10 s in
        Some (if ts_clock t then ts_zone (ts_fraction (drop 9 t)) else t)))"

text \<open>The value \<open>float\<close> gives the text of a number whose digits are all ASCII.\<close>

definition decimal_value :: "bool \<Rightarrow> string \<Rightarrow> string \<Rightarrow> bool \<Rightarrow> string \<Rightarrow> rat" where
  "decimal_value neg whole fr eneg ex =
     (let m = rat_of_nat (nat_of_digits (whole @ fr)) / 10 ^ length fr;
          e = (if eneg then - int (nat_of_digits ex) else int (nat_of_digits ex));
          v = m * pow10 e
      in if neg then - v else v)"

definition number_exponent :: "string \<Rightarrow> (bool \<times> string) presult" where
  "number_exponent s =
     (if s \<noteq> [] \<and> (hd s = CHR ''e'' \<or> hd s = CHR ''E'') then
        (let t = tl s;
             eneg = starts_with t ''-'';
             u = (if starts_with t ''+'' \<or> eneg then drop 1 t else t)
         in if u = [] \<or> \<not> py_isdigit (hd u) then syntax_error ''Expected digit in exponent'' u
            else Inr ((eneg, takeWhile py_isdigit u), dropWhile py_isdigit u))
      else Inr ((False, ''0''), s))"

definition number_fraction :: "string \<Rightarrow> string presult" where
  "number_fraction s =
     (if starts_with s ''.'' then
        (let t = drop 1 s in
         if t = [] \<or> \<not> py_isdigit (hd t) then syntax_error ''Expected digit after decimal point'' t
         else Inr (takeWhile py_isdigit t, dropWhile py_isdigit t))
      else Inr ('''', s))"

definition parse_number :: "string \<Rightarrow> literal presult" where
  "parse_number s =
     (let neg = starts_with s ''-'';
          t = (if neg then drop 1 s else s)
      in if t = [] \<or> \<not> py_isdigit (hd t) then syntax_error ''Expected number'' t
         else (case number_fraction (dropWhile py_isdigit t) of
             Inl e \<Rightarrow> Inl e
           | Inr (fr, u) \<Rightarrow> (case number_exponent u of
                 Inl e \<Rightarrow> Inl e
               | Inr ((eneg, ex), r) \<Rightarrow>
                   (let whole = takeWhile py_isdigit t in
                    if list_all ascii_digit (whole @ fr @ ex)
                    then Inr (NumLit (decimal_value neg whole fr eneg ex), r)
                    else syntax_error (''Invalid number: '' @ take (length s - length r) s) r))))"

definition parse_number_or_timestamp :: "string \<Rightarrow> literal presult" where
  "parse_number_or_timestamp s =
     (case ts_rest s of
        Some r \<Rightarrow> Inr (TsLit (take (length s - length r) s), r)
      | None \<Rightarrow> parse_number s)"

definition parse_value :: "string \<Rightarrow> literal presult" where
  "parse_value s0 =
     (case skip_ws s0 of
        [] \<Rightarrow> syntax_error ''Expected value, got end of input'' []
      | c # t \<Rightarrow>
          if c = quote_char then string_body [] t
          else if c = CHR ''-'' \<or> py_isdigit c then parse_number_or_timestamp (c # t)
          else syntax_error (''Expected value (string, number, or timestamp), got '' @ quoted c) (c # t))"

fun value_list :: "nat \<Rightarrow> string \<Rightarrow> literal list presult" where
  "value_list 0 s = Inl OutOfFuel"
| "value_list (Suc f) s =
     (case parse_value s of
        Inl e \<Rightarrow> Inl e
      | Inr (v, r) \<Rightarrow> (case skip_ws r of
            [] \<Rightarrow> Inr ([v], [])
          | c # t \<Rightarrow> if c = CHR '','' then
                       (case value_list f t of Inl e \<Rightarrow> Inl e | Inr (vs, r') \<Rightarrow> Inr (v # vs, r'))
                     else Inr ([v], c # t)))"

section \<open>Comparisons\<close>

definition count_leaf :: "nat \<Rightarrow> 'a \<Rightarrow> string \<Rightarrow> parse_exn + ('a \<times> string \<times> nat)" where
  "count_leaf n node rest =
     (if Suc n > max_leaf_count
      then Inl (TooLarge (''Filter exceeds maximum of '' @ str_nat max_leaf_count @ '' leaf comparisons''))
      else Inr (node, rest, Suc n))"

type_synonym node_result = "parse_exn + (filter_node \<times> string \<times> nat)"

definition parse_in :: "string \<Rightarrow> nat \<Rightarrow> string \<Rightarrow> node_result" where
  "parse_in field n s =
     (case expect_char CHR ''('' s of
        Inl e \<Rightarrow> Inl e
      | Inr r1 \<Rightarrow> (case value_list (Suc (length r1)) r1 of
            Inl e \<Rightarrow> Inl e
          | Inr (values, r2) \<Rightarrow> (case expect_char CHR '')'' r2 of
                Inl e \<Rightarrow> Inl e
              | Inr r3 \<Rightarrow>
                  if length values < 1 then syntax_error ''Set membership requires at least 1 value'' r3
                  else if length values > max_in_set_size then
                    syntax_error (''Set membership exceeds maximum of '' @ str_nat max_in_set_size @ '' values'') r3
                  else count_leaf n (FIn field values) r3)))"

definition parse_comparison :: "nat \<Rightarrow> string \<Rightarrow> node_result" where
  "parse_comparison n s =
     (case parse_field (skip_ws s) of
        Inl e \<Rightarrow> Inl e
      | Inr (field, r0) \<Rightarrow>
          (let r = skip_ws r0 in
           case match_keyword ''in'' r of
             Some r' \<Rightarrow> parse_in field n r'
           | None \<Rightarrow> (case parse_operator r of
                 Inl e \<Rightarrow> Inl e
               | Inr (op, r1) \<Rightarrow> (case parse_value r1 of
                     Inl e \<Rightarrow> Inl e
                   | Inr (v, r2) \<Rightarrow>
                       count_leaf n (if op = ''='' then FEq field v else if op = ''!='' then FNe field v
                                     else FRange field op v) r2))))"

section \<open>Expressions\<close>

text \<open>
  One unit of fuel per call.  The tails return the further operands of an \<open>or\<close> or \<open>and\<close>; \<open>d\<close> is the
  depth, \<open>n\<close> the leaf count.
\<close>

function (sequential) parse_expr and or_expr and or_tail and and_expr and and_tail and not_expr and parse_primary where
  "parse_expr 0 d n s = (Inl OutOfFuel :: node_result)"
| "parse_expr (Suc f) d n s =
     (if Suc d > max_nesting_depth
      then Inl (TooLarge (''Filter exceeds maximum nesting depth of '' @ str_nat max_nesting_depth))
      else or_expr f (Suc d) n s)"
| "or_expr 0 d n s = Inl OutOfFuel"
| "or_expr (Suc f) d n s =
     (case and_expr f d n s of
        Inl e \<Rightarrow> Inl e
      | Inr (a, r, n1) \<Rightarrow> (case or_tail f d n1 r of
            Inl e \<Rightarrow> Inl e
          | Inr (as, r', n2) \<Rightarrow> Inr (if as = [] then a else FOr (a # as), r', n2)))"
| "or_tail 0 d n s = Inl OutOfFuel"
| "or_tail (Suc f) d n s =
     (case match_keyword ''or'' s of
        None \<Rightarrow> Inr ([], s, n)
      | Some r \<Rightarrow> (case and_expr f d n r of
            Inl e \<Rightarrow> Inl e
          | Inr (a, r1, n1) \<Rightarrow> (case or_tail f d n1 r1 of
                Inl e \<Rightarrow> Inl e
              | Inr (as, r2, n2) \<Rightarrow> Inr (a # as, r2, n2))))"
| "and_expr 0 d n s = Inl OutOfFuel"
| "and_expr (Suc f) d n s =
     (case not_expr f d n s of
        Inl e \<Rightarrow> Inl e
      | Inr (a, r, n1) \<Rightarrow> (case and_tail f d n1 r of
            Inl e \<Rightarrow> Inl e
          | Inr (as, r', n2) \<Rightarrow> Inr (if as = [] then a else FAnd (a # as), r', n2)))"
| "and_tail 0 d n s = Inl OutOfFuel"
| "and_tail (Suc f) d n s =
     (case match_keyword ''and'' s of
        None \<Rightarrow> Inr ([], s, n)
      | Some r \<Rightarrow> (case not_expr f d n r of
            Inl e \<Rightarrow> Inl e
          | Inr (a, r1, n1) \<Rightarrow> (case and_tail f d n1 r1 of
                Inl e \<Rightarrow> Inl e
              | Inr (as, r2, n2) \<Rightarrow> Inr (a # as, r2, n2))))"
| "not_expr 0 d n s = Inl OutOfFuel"
| "not_expr (Suc f) d n s =
     (case match_keyword ''not'' s of
        Some r \<Rightarrow> (case not_expr f d n r of Inl e \<Rightarrow> Inl e | Inr (a, r', n') \<Rightarrow> Inr (FNot a, r', n'))
      | None \<Rightarrow> parse_primary f d n (skip_ws s))"
| "parse_primary 0 d n s = Inl OutOfFuel"
| "parse_primary (Suc f) d n s =
     (case skip_ws s of
        [] \<Rightarrow> parse_comparison n []
      | c # t \<Rightarrow>
          if c = CHR ''('' then
            (case parse_expr f d n t of
               Inl e \<Rightarrow> Inl e
             | Inr (a, r, n') \<Rightarrow> (case expect_char CHR '')'' r of Inl e \<Rightarrow> Inl e | Inr r' \<Rightarrow> Inr (a, r', n')))
          else parse_comparison n (c # t))"
  by pat_completeness auto
termination
  by (relation "measure (case_sum (case_sum fst (case_sum fst fst)) (case_sum (case_sum fst fst) (case_sum fst fst)))")
    simp_all

definition parse_fuel :: "string \<Rightarrow> nat" where
  "parse_fuel s = 6 * length s + 6"

definition parse_raw :: "string \<Rightarrow> node_result" where
  "parse_raw s = parse_expr (parse_fuel s) 0 0 s"

definition parse :: "string \<Rightarrow> parse_error + filter_node" where
  "parse s =
     (if s = '''' \<or> list_all py_isspace s
      then Inl (mk_error ''empty_input'' ''Input is empty or contains only whitespace'' 1 1)
      else if length s > max_input_length
      then Inl (mk_error ''filter_too_large''
             (''Input exceeds maximum length of '' @ str_nat max_input_length @ '' code points'') 1 1)
      else (case parse_raw s of
          Inr (a, r0, n) \<Rightarrow>
            (case skip_ws r0 of
               [] \<Rightarrow> Inr a
             | c # t \<Rightarrow> (case get_position s (length s - length (c # t)) of (line, col) \<Rightarrow>
                   Inl (mk_error ''syntax_error'' (''Unexpected character '' @ quoted c @ '' after expression'') line col)))
        | Inl (SyntaxAt m k) \<Rightarrow> (case get_position s (length s - k) of (line, col) \<Rightarrow> Inl (mk_error ''syntax_error'' m line col))
        | Inl (TooLarge m) \<Rightarrow> Inl (mk_error ''filter_too_large'' m 1 1)
        | Inl OutOfFuel \<Rightarrow> Inl (mk_error ''out_of_fuel'' '''' 0 0)))"

section \<open>Progress of the sub-parsers\<close>

lemma syntax_error_simps [simp]:
  "syntax_error m r \<noteq> Inr x" "syntax_error m r \<noteq> Inl OutOfFuel" "Inr x \<noteq> syntax_error m r" "syntax_error m r \<noteq> Inl (TooLarge t)"
  "Inl OutOfFuel \<noteq> syntax_error m r"
  by (simp_all add: syntax_error_def)

lemma skip_ws_Cons: "skip_ws s = c # t \<Longrightarrow> length t < length s"
  using length_skip_ws [of s] by simp

lemma match_keyword_shorter: "match_keyword kw s = Some r \<Longrightarrow> length r + length kw \<le> length s"
  using length_skip_ws [of s] by (auto simp: match_keyword_def Let_def split: if_splits)

lemma expect_char_shorter: "expect_char c s = Inr r \<Longrightarrow> length r < length s"
  by (auto simp: expect_char_def dest: skip_ws_Cons split: list.splits if_splits)

lemma expect_char_fuel [simp]: "expect_char c s \<noteq> Inl OutOfFuel"
  by (auto simp: expect_char_def split: list.splits)

lemma parse_identifier_fuel [simp]: "parse_identifier s \<noteq> Inl OutOfFuel"
  by (auto simp: parse_identifier_def split: list.splits)

lemma parse_dots_Nil [simp]: "parse_dots [] = Inr ([], [])"
  by (simp add: parse_dots.simps)

lemma parse_dots_dot [simp]: "parse_dots (CHR ''.'' # t) =
    (case parse_identifier t of
       Inl e \<Rightarrow> Inl e
     | Inr (i, r) \<Rightarrow> (case parse_dots r of Inl e \<Rightarrow> Inl e | Inr (is, r') \<Rightarrow> Inr (i # is, r')))"
  by (simp add: parse_dots.simps [of "CHR ''.'' # t"])

lemma parse_dots_stop: "c \<noteq> CHR ''.'' \<Longrightarrow> parse_dots (c # t) = Inr ([], c # t)"
  by (simp add: parse_dots.simps [of "c # t"])

lemma dots_cases:
  obtains "s = []" | c t where "s = c # t" "c \<noteq> CHR ''.''"
    | t e where "s = CHR ''.'' # t" "parse_identifier t = Inl e"
    | t i u where "s = CHR ''.'' # t" "parse_identifier t = Inr (i, u)"
  by (cases s; cases "hd s = CHR ''.''"; cases "parse_identifier (tl s)") auto

lemma parse_dots_progress: "parse_dots s \<noteq> Inl OutOfFuel \<and> (\<forall>is r. parse_dots s = Inr (is, r) \<longrightarrow> length r \<le> length s)"
proof (induction s rule: parse_dots.induct)
  case (1 s)
  show ?case
  proof (cases s rule: dots_cases)
    case (3 t e)
    then have "e \<noteq> OutOfFuel" using parse_identifier_fuel [of t] by auto
    with 3 show ?thesis by simp
  next
    case (4 t i u)
    with parse_identifier_shorter have "length u < length t" by blast
    with "1.IH" [OF 4(1) _ 4(2) refl] 4 show ?thesis
      by (cases "parse_dots u") auto
  qed (simp_all add: parse_dots_stop)
qed

lemma check_field_fuel [simp]: "check_field i segs r \<noteq> Inl OutOfFuel"
  by (simp add: check_field_def split: option.split)

lemma check_field_Inr:
  "check_field i segs r = Inr (f, r') \<longleftrightarrow> r' = r \<and> f = join ''.'' (i # segs) \<and>
     (if i = ''metadata'' then segs \<noteq> [] \<and> list_all (\<lambda>s. 1 \<le> length s \<and> length s \<le> 128) segs else i \<in> set valid_fields)"
proof (cases "List.find (\<lambda>seg. length seg < 1 \<or> length seg > 128) segs")
  case None
  then have "list_all (\<lambda>s. 1 \<le> length s \<and> length s \<le> 128) segs"
    by (auto simp: find_None_iff list_all_iff Suc_le_eq)
  with None show ?thesis unfolding check_field_def by auto
next
  case (Some x)
  then have "x \<in> set segs \<and> (length x < 1 \<or> 128 < length x)"
    by (metis find_Some_iff nth_mem)
  then have "\<not> list_all (\<lambda>s. 1 \<le> length s \<and> length s \<le> 128) segs"
    using bspec [of "set segs" "\<lambda>s. 1 \<le> length s \<and> length s \<le> 128" x] unfolding list_all_iff by linarith
  with Some show ?thesis unfolding check_field_def by auto
qed

lemma parse_field_cases:
  obtains e where "parse_field s = Inl e" "e \<noteq> OutOfFuel"
    | i r segs rest where "parse_identifier (skip_ws s) = Inr (i, r)" "parse_dots r = Inr (segs, rest)"
        "parse_field s = check_field i segs rest"
proof (cases "parse_identifier (skip_ws s)")
  case (Inl e)
  with parse_identifier_fuel [of "skip_ws s"] show ?thesis by (intro that(1) [of e]) (auto simp: parse_field_def)
next
  case (Inr p)
  obtain i r where p: "p = (i, r)" by (cases p)
  show ?thesis
  proof (cases "parse_dots r")
    case (Inl e)
    with parse_dots_progress [of r] Inr p show ?thesis by (intro that(1) [of e]) (auto simp: parse_field_def)
  next
    case Inr2: (Inr q)
    obtain segs rest where "q = (segs, rest)" by (cases q)
    with Inr Inr2 p show ?thesis by (intro that(2) [of i r segs rest]) (simp_all add: parse_field_def)
  qed
qed

lemma parse_field_progress: "parse_field s \<noteq> Inl OutOfFuel \<and> (\<forall>f r. parse_field s = Inr (f, r) \<longrightarrow> length r < length s)"
proof (cases s rule: parse_field_cases)
  case (2 i r segs rest)
  then have "length r < length s"
    using parse_identifier_shorter [OF 2(1)] length_skip_ws [of s] by simp
  moreover have "length rest \<le> length r" using parse_dots_progress [of r] 2(2) by blast
  ultimately show ?thesis using 2(3) by (auto simp: check_field_Inr)
qed auto

lemma first_keyword_shorter: "first_keyword kws s = Some (kw, r) \<Longrightarrow> length r \<le> length s"
  by (induction kws) (auto dest: match_keyword_shorter split: option.splits)

lemma parse_operator_cases:
  obtains "\<exists>m r. parse_operator s = syntax_error m r"
    | k where "parse_operator s = Inr (''!='', drop k (skip_ws s))"
    | k where "parse_operator s = Inr (''='', drop k (skip_ws s))"
    | k op where "parse_operator s = Inr (op, drop k (skip_ws s))" "op \<in> {''lt'', ''le'', ''gt'', ''ge''}"
    | op r where "parse_operator s = Inr (op, r)" "first_keyword [''lt'', ''le'', ''gt'', ''ge''] (skip_ws s) = Some (op, r)"
proof -
  let ?t = "skip_ws s"
  note d = parse_operator_def [of s, unfolded Let_def] and [simp del] = first_keyword.simps
  consider "?t = []" | "?t \<noteq> []" "starts_with ?t ''!=''" | "?t \<noteq> []" "\<not> starts_with ?t ''!=''" "starts_with ?t ''<=''"
    | "?t \<noteq> []" "\<not> starts_with ?t ''!=''" "\<not> starts_with ?t ''<=''" "starts_with ?t ''>=''"
    | "?t \<noteq> []" "\<not> starts_with ?t ''!=''" "\<not> starts_with ?t ''<=''" "\<not> starts_with ?t ''>=''" by blast
  then show thesis
  proof cases
    case 5
    note c = d [simplified 5 if_False]
    consider "hd ?t = CHR ''=''" | "hd ?t = CHR ''<''" | "hd ?t = CHR ''>''"
      | "hd ?t \<noteq> CHR ''=''" "hd ?t \<noteq> CHR ''<''" "hd ?t \<noteq> CHR ''>''" by blast
    then show thesis
    proof cases
      case 1 with c that(3) [of 1] show thesis by (simp add: drop_Suc)
    next
      case 2 with c that(4) [of "''lt''" 1] show thesis by (simp add: drop_Suc)
    next
      case 3 with c that(4) [of "''gt''" 1] show thesis by (simp add: drop_Suc)
    next
      case 4
      show thesis
      proof (cases "first_keyword [''lt'', ''le'', ''gt'', ''ge''] ?t")
        case None
        with c 4 that(1) show thesis by auto
      next
        case (Some p)
        with c 4 that(5) [of "fst p" "snd p"] show thesis by simp
      qed
    qed
  next
    case 1 with d that(1) show thesis by auto
  next
    case 2 with d that(2) show thesis by simp
  next
    case 3 with d that(4) [of "''le''" 2] show thesis by simp
  next
    case 4 with d that(4) [of "''ge''" 2] show thesis by simp
  qed
qed

lemma parse_operator_progress: "parse_operator s \<noteq> Inl OutOfFuel \<and> (\<forall>f r. parse_operator s = Inr (f, r) \<longrightarrow> length r \<le> length s)"
  using length_skip_ws [of s]
  by (cases s rule: parse_operator_cases) (auto dest: first_keyword_shorter simp del: first_keyword.simps)

lemma string_body_progress: "string_body acc s \<noteq> Inl OutOfFuel
    \<and> (\<forall>l r. string_body acc s = Inr (l, r) \<longrightarrow> length r \<le> length s \<and> (\<exists>t. l = StrLit t \<and> length t \<le> 1024))"
proof (induction acc s rule: string_body.induct)
  case (2 acc c s)
  show ?case
  proof (cases "c = backslash")
    case True
    show ?thesis
    proof (cases s)
      case (Cons e s')
      from "2.IH"(1) [OF True Cons] show ?thesis using True Cons by auto
    qed (simp add: True)
  next
    case False
    show ?thesis
    proof (cases "c = quote_char")
      case True
      with False show ?thesis by simp
    next
      case nq: False
      from "2.IH"(2) [OF False nq] show ?thesis using False nq by auto
    qed
  qed
qed simp

lemma length_ts_fraction: "length (ts_fraction s) \<le> length s"
  using length_dropWhile_le [of ascii_digit "drop 1 s"] by (auto simp: ts_fraction_def)

lemma length_ts_zone: "length (ts_zone s) \<le> length s"
  by (simp add: ts_zone_def)

lemma ts_rest_shorter: "ts_rest s = Some r \<Longrightarrow> length r + 10 \<le> length s"
  using length_ts_zone [of "ts_fraction (drop 19 s)"] length_ts_fraction [of "drop 19 s"]
  by (auto simp: ts_rest_def ts_date_def digits_at_def Let_def split: if_splits)

lemma number_fraction_progress: "number_fraction s \<noteq> Inl OutOfFuel \<and> (\<forall>x r. number_fraction s = Inr (x, r) \<longrightarrow> length r \<le> length s)"
  using length_dropWhile_le [of py_isdigit "drop 1 s"] by (auto simp: number_fraction_def Let_def split: if_splits)

lemma number_exponent_progress: "number_exponent s \<noteq> Inl OutOfFuel \<and> (\<forall>x r. number_exponent s = Inr (x, r) \<longrightarrow> length r \<le> length s)"
  using length_dropWhile_le [of py_isdigit "tl s"] length_dropWhile_le [of py_isdigit "drop 1 (tl s)"]
  by (auto simp: number_exponent_def Let_def split: if_splits)

lemma parse_number_progress: "parse_number s \<noteq> Inl OutOfFuel \<and> (\<forall>x r. parse_number s = Inr (x, r) \<longrightarrow> length r \<le> length s)"
proof -
  let ?t = "if starts_with s ''-'' then drop 1 s else s"
  have t: "length (dropWhile py_isdigit ?t) \<le> length s"
    using length_dropWhile_le [of py_isdigit ?t] by (auto split: if_splits)
  show ?thesis
    using t number_fraction_progress [of "dropWhile py_isdigit ?t"] number_exponent_progress
    by (fastforce simp: parse_number_def Let_def split: sum.splits if_splits)
qed

lemma parse_value_progress: "parse_value s \<noteq> Inl OutOfFuel \<and> (\<forall>x r. parse_value s = Inr (x, r) \<longrightarrow> length r < length s \<or> length r = length s)"
  using length_skip_ws [of s] string_body_progress parse_number_progress
  by (fastforce simp: parse_value_def parse_number_or_timestamp_def dest: ts_rest_shorter skip_ws_Cons split: list.splits if_splits option.splits)

lemma value_list_progress:
  "length s < f \<Longrightarrow> value_list f s \<noteq> Inl OutOfFuel \<and> (\<forall>vs r. value_list f s = Inr (vs, r) \<longrightarrow> length r \<le> length s)"
proof (induction f arbitrary: s)
  case 0
  then show ?case by simp
next
  case (Suc f)
  show ?case
  proof (cases "parse_value s")
    case (Inl e)
    then show ?thesis using parse_value_progress [of s] by auto
  next
    case (Inr p)
    obtain v r where p: "p = (v, r)" by (cases p)
    have r: "length r \<le> length s" using parse_value_progress [of s] Inr p by auto
    show ?thesis
    proof (cases "skip_ws r")
      case Nil
      with Inr p show ?thesis by simp
    next
      case (Cons c t)
      with skip_ws_Cons r have lt: "length t < length s" by fastforce
      with Suc.prems have "length t < f" by simp
      from Suc.IH [OF this] lt Inr p Cons length_skip_ws [of r] r show ?thesis
        by (cases "value_list f t") auto
    qed
  qed
qed

section \<open>Accepted trees\<close>

fun leaves :: "filter_node \<Rightarrow> nat" where
  "leaves (FNot a) = leaves a"
| "leaves (FAnd as) = sum_list (map leaves as)"
| "leaves (FOr as) = sum_list (map leaves as)"
| "leaves _ = 1"

definition ident_ok :: "string \<Rightarrow> bool" where
  "ident_ok i \<longleftrightarrow> i \<noteq> [] \<and> ident_start (hd i) \<and> list_all ident_char (tl i)"

definition field_ok :: "string \<Rightarrow> bool" where
  "field_ok f \<longleftrightarrow> (\<exists>ident segs. f = join ''.'' (ident # segs) \<and> ident_ok ident \<and> list_all ident_ok segs
     \<and> (if ident = ''metadata'' then segs \<noteq> [] \<and> list_all (\<lambda>s. 1 \<le> length s \<and> length s \<le> 128) segs
        else ident \<in> set valid_fields))"

fun literal_ok :: "literal \<Rightarrow> bool" where
  "literal_ok (StrLit s) = (length s \<le> 1024)"
| "literal_ok _ = True"

fun node_ok :: "filter_node \<Rightarrow> bool" where
  "node_ok (FEq f v) = (field_ok f \<and> literal_ok v)"
| "node_ok (FNe f v) = (field_ok f \<and> literal_ok v)"
| "node_ok (FIn f vs) = (field_ok f \<and> 1 \<le> length vs \<and> length vs \<le> 256 \<and> list_all literal_ok vs)"
| "node_ok (FRange f op v) = (field_ok f \<and> op \<in> {''lt'', ''le'', ''gt'', ''ge''} \<and> literal_ok v)"
| "node_ok (FNot a) = node_ok a"
| "node_ok (FAnd as) = (2 \<le> length as \<and> list_all node_ok as)"
| "node_ok (FOr as) = (2 \<le> length as \<and> list_all node_ok as)"

lemma parse_identifier_ok: "parse_identifier s = Inr (i, r) \<Longrightarrow> ident_ok i"
  by (auto simp: parse_identifier_def ident_ok_def list_all_iff dest: set_takeWhileD split: list.splits if_splits)

lemma parse_dots_ok: "parse_dots s = Inr (is, r) \<Longrightarrow> list_all ident_ok is"
proof (induction s arbitrary: "is" r rule: parse_dots.induct)
  case (1 s)
  show ?case
  proof (cases s rule: dots_cases)
    case (4 t i u)
    with "1.prems" obtain is' where "parse_dots u = Inr (is', r)" "is = i # is'"
      by (cases "parse_dots u") auto
    with "1.IH" [OF 4(1) _ 4(2) refl] parse_identifier_ok [OF 4(2)] show ?thesis by simp
  qed (use "1.prems" in \<open>simp_all add: parse_dots_stop\<close>)
qed

lemma parse_field_ok:
  assumes "parse_field s = Inr (f, r)"
  shows "field_ok f"
proof (cases s rule: parse_field_cases)
  case (2 i u segs rest)
  with assms have "check_field i segs rest = Inr (f, r)" by simp
  from check_field_Inr [THEN iffD1, OF this] parse_identifier_ok [OF 2(1)] parse_dots_ok [OF 2(2)]
  show ?thesis unfolding field_ok_def by blast
qed (use assms in auto)

lemma first_keyword_in: "first_keyword kws s = Some (kw, r) \<Longrightarrow> kw \<in> set kws"
  by (induction kws) (auto split: option.splits)

lemma parse_operator_in: "parse_operator s = Inr (op, r) \<Longrightarrow> op \<in> {''='', ''!='', ''lt'', ''le'', ''gt'', ''ge''}"
  by (cases s rule: parse_operator_cases) (auto dest!: first_keyword_in simp del: first_keyword.simps)

lemma string_body_ok: "string_body acc s = Inr (l, r) \<Longrightarrow> literal_ok l"
  using string_body_progress [of acc s] by auto

lemma parse_value_ok: "parse_value s = Inr (l, r) \<Longrightarrow> literal_ok l"
  by (auto simp: parse_value_def parse_number_or_timestamp_def parse_number_def Let_def dest: string_body_ok
      split: list.splits if_splits option.splits sum.splits prod.splits)

lemma value_list_ok: "value_list f s = Inr (vs, r) \<Longrightarrow> list_all literal_ok vs"
proof (induction f arbitrary: s vs r)
  case (Suc f)
  from Suc.prems obtain v u where v: "parse_value s = Inr (v, u)" by (auto split: sum.splits)
  have "literal_ok v" by (rule parse_value_ok [OF v])
  moreover have "list_all literal_ok ws" if "value_list f t = Inr (ws, r')" for t ws r'
    by (rule Suc.IH [OF that])
  ultimately show ?case using Suc.prems v by (auto split: list.splits if_splits sum.splits)
qed simp

section \<open>Enough fuel, progress and bounds\<close>

definition node_good :: "nat \<Rightarrow> string \<Rightarrow> node_result \<Rightarrow> bool" where
  "node_good n s res \<longleftrightarrow> (case res of
       Inl e \<Rightarrow> e \<noteq> OutOfFuel
     | Inr (a, r, n') \<Rightarrow> length r < length s \<and> n' = n + leaves a \<and> n' \<le> max_leaf_count \<and> node_ok a)"

definition tail_good :: "nat \<Rightarrow> string \<Rightarrow> parse_exn + (filter_node list \<times> string \<times> nat) \<Rightarrow> bool" where
  "tail_good n s res \<longleftrightarrow> (case res of
       Inl e \<Rightarrow> e \<noteq> OutOfFuel
     | Inr (as, r, n') \<Rightarrow> length r \<le> length s \<and> n' = n + sum_list (map leaves as)
         \<and> (n \<le> max_leaf_count \<longrightarrow> n' \<le> max_leaf_count) \<and> list_all node_ok as)"

lemma node_good_syntax [simp]: "node_good n s (syntax_error m r)"
  by (simp add: node_good_def syntax_error_def)

lemma node_good_Inl: "node_good n s (Inl e) \<longleftrightarrow> e \<noteq> OutOfFuel"
  and node_good_Inr: "node_good n s (Inr (a, r, n')) \<longleftrightarrow> length r < length s \<and> n' = n + leaves a \<and> n' \<le> max_leaf_count \<and> node_ok a"
  and tail_good_Inl: "tail_good n s (Inl e) \<longleftrightarrow> e \<noteq> OutOfFuel"
  and tail_good_Inr: "tail_good n s (Inr (as, r, n')) \<longleftrightarrow> length r \<le> length s \<and> n' = n + sum_list (map leaves as)
         \<and> (n \<le> max_leaf_count \<longrightarrow> n' \<le> max_leaf_count) \<and> list_all node_ok as"
  by (simp_all add: node_good_def tail_good_def)

lemmas good_simps = node_good_Inl node_good_Inr tail_good_Inl tail_good_Inr

lemma node_good_shrink: "node_good n s res \<Longrightarrow> length s \<le> length s' \<Longrightarrow> node_good n s' res"
  by (auto simp: node_good_def split: sum.splits)

lemma count_leaf_good: "length r < length s \<Longrightarrow> leaves a = 1 \<Longrightarrow> node_ok a \<Longrightarrow> node_good n s (count_leaf n a r)"
  by (simp add: count_leaf_def good_simps)

lemma parse_in_good:
  assumes "field_ok f" and "length s < length s0"
  shows "node_good n s0 (parse_in f n s)"
proof (cases "expect_char CHR ''('' s")
  case (Inl e)
  with expect_char_fuel [of "CHR ''(''" s] show ?thesis by (auto simp: parse_in_def good_simps)
next
  case (Inr r1)
  have r1: "length r1 < length s" by (rule expect_char_shorter [OF Inr])
  note prog = value_list_progress [of r1 "Suc (length r1)", simplified lessI simp_thms]
  show ?thesis
  proof (cases "value_list (Suc (length r1)) r1")
    case (Inl e)
    with prog have "e \<noteq> OutOfFuel" by auto
    with Inr Inl show ?thesis by (simp add: parse_in_def good_simps del: value_list.simps)
  next
    case Inr2: (Inr p)
    obtain vs r2 where p: "p = (vs, r2)" by (cases p)
    have r2: "length r2 \<le> length r1" using prog Inr2 p by blast
    have vs: "list_all literal_ok vs" using value_list_ok Inr2 p by blast
    show ?thesis
    proof (cases "expect_char CHR '')'' r2")
      case (Inl e)
      with expect_char_fuel [of "CHR '')''" r2] Inr Inr2 p show ?thesis
        by (auto simp: parse_in_def good_simps simp del: value_list.simps)
    next
      case Inr3: (Inr r3)
      have "length r3 < length r2" by (rule expect_char_shorter [OF Inr3])
      with r1 r2 assms have lt: "length r3 < length s0" by simp
      have "parse_in f n s = (if length vs < 1 then syntax_error ''Set membership requires at least 1 value'' r3
          else if length vs > max_in_set_size then
            syntax_error (''Set membership exceeds maximum of '' @ str_nat max_in_set_size @ '' values'') r3
          else count_leaf n (FIn f vs) r3)"
        using Inr Inr2 Inr3 p by (simp add: parse_in_def del: value_list.simps)
      then show ?thesis
        using lt vs assms(1) by (auto simp: max_in_set_size_def Suc_le_eq intro!: count_leaf_good)
    qed
  qed
qed

lemma parse_comparison_good: "node_good n s (parse_comparison n s)"
proof (cases "parse_field (skip_ws s)")
  case (Inl e)
  with parse_field_progress [of "skip_ws s"] show ?thesis by (auto simp: parse_comparison_def good_simps)
next
  case (Inr p)
  obtain f r0 where p: "p = (f, r0)" by (cases p)
  have f: "field_ok f" using parse_field_ok Inr p by blast
  have "length r0 < length (skip_ws s)" using parse_field_progress [of "skip_ws s"] Inr p by blast
  then have r: "length (skip_ws r0) < length s" using length_skip_ws [of s] length_skip_ws [of r0] by linarith
  let ?r = "skip_ws r0"
  show ?thesis
  proof (cases "match_keyword ''in'' ?r")
    case (Some r')
    then have "length r' < length s" using match_keyword_shorter [OF Some] r by simp
    from parse_in_good [OF f this] Some Inr p show ?thesis by (simp add: parse_comparison_def Let_def)
  next
    case None
    show ?thesis
    proof (cases "parse_operator ?r")
      case (Inl e)
      with parse_operator_progress [of ?r] None Inr p show ?thesis by (auto simp: parse_comparison_def Let_def good_simps)
    next
      case Inr2: (Inr q)
      obtain op r1 where q: "q = (op, r1)" by (cases q)
      have op: "op \<in> {''='', ''!='', ''lt'', ''le'', ''gt'', ''ge''}" using parse_operator_in Inr2 q by blast
      have r1: "length r1 \<le> length ?r" using parse_operator_progress [of ?r] Inr2 q by blast
      show ?thesis
      proof (cases "parse_value r1")
        case (Inl e)
        with parse_value_progress [of r1] None Inr Inr2 p q show ?thesis
          by (auto simp: parse_comparison_def Let_def good_simps)
      next
        case Inr3: (Inr w)
        obtain v r2 where w: "w = (v, r2)" by (cases w)
        have v: "literal_ok v" using parse_value_ok Inr3 w by blast
        have "length r2 \<le> length r1" using parse_value_progress [of r1] Inr3 w by auto
        with r r1 have lt: "length r2 < length s" by simp
        let ?a = "if op = ''='' then FEq f v else if op = ''!='' then FNe f v else FRange f op v"
        have "parse_comparison n s = count_leaf n ?a r2"
          using None Inr Inr2 Inr3 p q w by (simp add: parse_comparison_def Let_def)
        moreover have "leaves ?a = 1" "node_ok ?a" using op f v by auto
        ultimately show ?thesis using lt by (simp only: count_leaf_good)
      qed
    qed
  qed
qed

lemma node_good_bind_tail:
  assumes "node_good n s res" and "\<And>a r n1. res = Inr (a, r, n1) \<Longrightarrow> tail_good n1 r (cont n1 r)"
    and mk: "\<And>a as. leaves (mk (a # as)) = leaves a + sum_list (map leaves as)"
      "\<And>a as. as \<noteq> [] \<Longrightarrow> node_ok a \<Longrightarrow> list_all node_ok as \<Longrightarrow> node_ok (mk (a # as))"
  shows "node_good n s (case res of Inl e \<Rightarrow> Inl e
    | Inr (a, r, n1) \<Rightarrow> (case cont n1 r of Inl e \<Rightarrow> Inl e | Inr (as, r', n2) \<Rightarrow> Inr (if as = [] then a else mk (a # as), r', n2)))"
proof (cases res)
  case (Inl e)
  with assms(1) show ?thesis by (simp add: good_simps)
next
  case (Inr p)
  obtain a r n1 where p: "p = (a, r, n1)" by (cases p)
  have 1: "length r < length s" "n1 = n + leaves a" "n1 \<le> max_leaf_count" "node_ok a"
    using assms(1) Inr p by (auto simp: good_simps)
  have 2: "tail_good n1 r (cont n1 r)" using assms(2) Inr p by blast
  show ?thesis
  proof (cases "cont n1 r")
    case Inl2: (Inl e)
    with 2 Inr p show ?thesis by (simp add: good_simps)
  next
    case Inr2: (Inr q)
    obtain as r' n2 where q: "q = (as, r', n2)" by (cases q)
    with 2 Inr2 have "length r' \<le> length r" "n2 = n1 + sum_list (map leaves as)" "n2 \<le> max_leaf_count" "list_all node_ok as"
      using 1(3) by (auto simp: good_simps)
    with 1 Inr Inr2 p q mk show ?thesis by (auto simp: good_simps)
  qed
qed

lemma tail_good_bind:
  assumes "node_good n r0 res" and "length r0 \<le> length s" and "\<And>a r n1. res = Inr (a, r, n1) \<Longrightarrow> tail_good n1 r (cont n1 r)"
  shows "tail_good n s (case res of Inl e \<Rightarrow> Inl e
    | Inr (a, r, n1) \<Rightarrow> (case cont n1 r of Inl e \<Rightarrow> Inl e | Inr (as, r', n2) \<Rightarrow> Inr (a # as, r', n2)))"
proof (cases res)
  case (Inl e)
  with assms(1) show ?thesis by (simp add: good_simps)
next
  case (Inr p)
  obtain a r n1 where p: "p = (a, r, n1)" by (cases p)
  have 1: "length r < length r0" "n1 = n + leaves a" "n1 \<le> max_leaf_count" "node_ok a"
    using assms(1) Inr p by (auto simp: good_simps)
  have 2: "tail_good n1 r (cont n1 r)" using assms(3) Inr p by blast
  show ?thesis
  proof (cases "cont n1 r")
    case Inl2: (Inl e)
    with 2 Inr p show ?thesis by (simp add: good_simps)
  next
    case Inr2: (Inr q)
    obtain as r' n2 where q: "q = (as, r', n2)" by (cases q)
    with 2 Inr2 have "length r' \<le> length r" "n2 = n1 + sum_list (map leaves as)" "n2 \<le> max_leaf_count" "list_all node_ok as"
      using 1(3) by (auto simp: good_simps)
    with 1 assms(2) Inr Inr2 p q show ?thesis by (auto simp: good_simps)
  qed
qed

text \<open>One unit of fuel: each parser is good when those it calls are, for the fuel they are given.\<close>

lemma or_expr_good:
  assumes andx: "\<And>d n s. 6 * length s + 4 \<le> f \<Longrightarrow> node_good n s (and_expr f d n s)"
      and ort: "\<And>d n s. 6 * length s + 1 \<le> f \<Longrightarrow> tail_good n s (or_tail f d n s)"
    and b: "6 * length s + 5 \<le> Suc f"
  shows "node_good n s (or_expr (Suc f) d n s)"
proof -
  have a: "node_good n s (and_expr f d n s)" using andx b by simp
  have t: "tail_good n1 r (or_tail f d n1 r)" if "and_expr f d n s = Inr (a, r, n1)" for a r n1
    using a that b by (intro ort) (simp add: good_simps)
  show ?thesis
    unfolding or_expr.simps
    by (rule node_good_bind_tail [where mk = FOr, OF a]) (simp_all add: t Suc_le_eq)
qed

lemma or_tail_good:
  assumes andx: "\<And>d n s. 6 * length s + 4 \<le> f \<Longrightarrow> node_good n s (and_expr f d n s)"
      and ort: "\<And>d n s. 6 * length s + 1 \<le> f \<Longrightarrow> tail_good n s (or_tail f d n s)"
    and b: "6 * length s + 1 \<le> Suc f"
  shows "tail_good n s (or_tail (Suc f) d n s)"
proof (cases "match_keyword ''or'' s")
  case None
  then show ?thesis by (simp add: good_simps)
next
  case (Some r0)
  have l: "length r0 + 2 \<le> length s" using match_keyword_shorter [OF Some] by simp
  have a: "node_good n r0 (and_expr f d n r0)" using andx l b by simp
  have t: "tail_good n1 r (or_tail f d n1 r)" if "and_expr f d n r0 = Inr (a, r, n1)" for a r n1
    using a that b l by (intro ort) (simp add: good_simps)
  have "tail_good n s (case and_expr f d n r0 of Inl e \<Rightarrow> Inl e
    | Inr (a, r, n1) \<Rightarrow> (case or_tail f d n1 r of Inl e \<Rightarrow> Inl e | Inr (as, r', n2) \<Rightarrow> Inr (a # as, r', n2)))"
    by (rule tail_good_bind [OF a]) (use l t in simp_all)
  then show ?thesis using Some by simp
qed

lemma and_expr_good:
  assumes notx: "\<And>d n s. 6 * length s + 3 \<le> f \<Longrightarrow> node_good n s (not_expr f d n s)"
      and andt: "\<And>d n s. 6 * length s + 1 \<le> f \<Longrightarrow> tail_good n s (and_tail f d n s)"
    and b: "6 * length s + 4 \<le> Suc f"
  shows "node_good n s (and_expr (Suc f) d n s)"
proof -
  have a: "node_good n s (not_expr f d n s)" using notx b by simp
  have t: "tail_good n1 r (and_tail f d n1 r)" if "not_expr f d n s = Inr (a, r, n1)" for a r n1
    using a that b by (intro andt) (simp add: good_simps)
  show ?thesis
    unfolding and_expr.simps
    by (rule node_good_bind_tail [where mk = FAnd, OF a]) (simp_all add: t Suc_le_eq)
qed

lemma and_tail_good:
  assumes notx: "\<And>d n s. 6 * length s + 3 \<le> f \<Longrightarrow> node_good n s (not_expr f d n s)"
      and andt: "\<And>d n s. 6 * length s + 1 \<le> f \<Longrightarrow> tail_good n s (and_tail f d n s)"
    and b: "6 * length s + 1 \<le> Suc f"
  shows "tail_good n s (and_tail (Suc f) d n s)"
proof (cases "match_keyword ''and'' s")
  case None
  then show ?thesis by (simp add: good_simps)
next
  case (Some r0)
  have l: "length r0 + 3 \<le> length s" using match_keyword_shorter [OF Some] by simp
  have a: "node_good n r0 (not_expr f d n r0)" using notx l b by simp
  have t: "tail_good n1 r (and_tail f d n1 r)" if "not_expr f d n r0 = Inr (a, r, n1)" for a r n1
    using a that b l by (intro andt) (simp add: good_simps)
  have "tail_good n s (case not_expr f d n r0 of Inl e \<Rightarrow> Inl e
    | Inr (a, r, n1) \<Rightarrow> (case and_tail f d n1 r of Inl e \<Rightarrow> Inl e | Inr (as, r', n2) \<Rightarrow> Inr (a # as, r', n2)))"
    by (rule tail_good_bind [OF a]) (use l t in simp_all)
  then show ?thesis using Some by simp
qed

lemma not_expr_good:
  assumes prim: "\<And>d n s. 6 * length s + 2 \<le> f \<Longrightarrow> node_good n s (parse_primary f d n s)"
      and notx: "\<And>d n s. 6 * length s + 3 \<le> f \<Longrightarrow> node_good n s (not_expr f d n s)"
    and b: "6 * length s + 3 \<le> Suc f"
  shows "node_good n s (not_expr (Suc f) d n s)"
proof (cases "match_keyword ''not'' s")
  case None
  have "node_good n (skip_ws s) (parse_primary f d n (skip_ws s))"
    using prim b length_skip_ws [of s] by simp
  with None length_skip_ws [of s] show ?thesis by (auto intro: node_good_shrink)
next
  case (Some r0)
  have l: "length r0 + 3 \<le> length s" using match_keyword_shorter [OF Some] by simp
  have "node_good n r0 (not_expr f d n r0)" using notx l b by simp
  with Some l show ?thesis by (cases "not_expr f d n r0") (auto simp: good_simps)
qed

lemma parse_primary_good:
  assumes expr: "\<And>d n s. 6 * length s + 6 \<le> f \<Longrightarrow> node_good n s (parse_expr f d n s)"
    and b: "6 * length s + 2 \<le> Suc f"
  shows "node_good n s (parse_primary (Suc f) d n s)"
proof (cases "skip_ws s")
  case Nil
  then have "skip_ws [] = []" by (simp add: skip_ws_def)
  have "node_good n [] (parse_comparison n [])" by (rule parse_comparison_good)
  then show ?thesis using Nil by (auto intro: node_good_shrink)
next
  case (Cons c t)
  have l: "length t < length s" using skip_ws_Cons Cons by blast
  show ?thesis
  proof (cases "c = CHR ''(''")
    case True
    have e: "node_good n t (parse_expr f d n t)" using expr l b by simp
    show ?thesis
    proof (cases "parse_expr f d n t")
      case (Inl x)
      with e Cons True show ?thesis by (simp add: good_simps)
    next
      case (Inr p)
      obtain a r n' where p: "p = (a, r, n')" by (cases p)
      show ?thesis
        using e Inr p Cons True l expect_char_shorter [of "CHR '')''" r] expect_char_fuel [of "CHR '')''" r]
        by (cases "expect_char CHR '')'' r") (auto simp: good_simps)
    qed
  next
    case False
    have "node_good n (c # t) (parse_comparison n (c # t))" by (rule parse_comparison_good)
    moreover have "length (c # t) \<le> length s" using length_skip_ws [of s] Cons by simp
    ultimately show ?thesis using Cons False node_good_shrink by simp
  qed
qed

lemma parsers_good:
  "(6 * length s + 6 \<le> f \<longrightarrow> node_good n s (parse_expr f d n s))
   \<and> (6 * length s + 5 \<le> f \<longrightarrow> node_good n s (or_expr f d n s))
   \<and> (6 * length s + 1 \<le> f \<longrightarrow> tail_good n s (or_tail f d n s))
   \<and> (6 * length s + 4 \<le> f \<longrightarrow> node_good n s (and_expr f d n s))
   \<and> (6 * length s + 1 \<le> f \<longrightarrow> tail_good n s (and_tail f d n s))
   \<and> (6 * length s + 3 \<le> f \<longrightarrow> node_good n s (not_expr f d n s))
   \<and> (6 * length s + 2 \<le> f \<longrightarrow> node_good n s (parse_primary f d n s))"
proof (induction f arbitrary: d n s)
  case 0
  show ?case by simp
next
  case (Suc f)
  note expr = Suc.IH [THEN conjunct1, rule_format]
    and orx = Suc.IH [THEN conjunct2, THEN conjunct1, rule_format]
    and ort = Suc.IH [THEN conjunct2, THEN conjunct2, THEN conjunct1, rule_format]
    and andx = Suc.IH [THEN conjunct2, THEN conjunct2, THEN conjunct2, THEN conjunct1, rule_format]
    and andt = Suc.IH [THEN conjunct2, THEN conjunct2, THEN conjunct2, THEN conjunct2, THEN conjunct1, rule_format]
    and notx = Suc.IH [THEN conjunct2, THEN conjunct2, THEN conjunct2, THEN conjunct2, THEN conjunct2, THEN conjunct1, rule_format]
    and prim = Suc.IH [THEN conjunct2, THEN conjunct2, THEN conjunct2, THEN conjunct2, THEN conjunct2, THEN conjunct2, rule_format]
  show ?case
  proof (intro conjI impI)
    show "node_good n s (parse_expr (Suc f) d n s)" if "6 * length s + 6 \<le> Suc f"
      using orx [of s n "Suc d"] that by (simp add: good_simps)
  qed (use or_expr_good [OF andx ort] or_tail_good [OF andx ort] and_expr_good [OF notx andt] and_tail_good [OF notx andt]
      not_expr_good [OF prim notx] parse_primary_good [OF expr] in blast)+
qed

lemma parse_raw_good: "node_good 0 s (parse_raw s)"
  using parsers_good [of s "parse_fuel s" 0 0] by (simp add: parse_raw_def parse_fuel_def)

section \<open>Positions\<close>

lemma get_position_counts:
  "get_position s p = (1 + count_list (take p s) CHR 0x0A, 1 + length (takeWhile (\<lambda>c. c \<noteq> CHR 0x0A) (rev (take p s))))"
proof -
  define step where "step = (\<lambda>(line :: nat, col :: nat) c. if c = CHR 0x0A then (line + 1, 1) else (line, col + 1))"
  have "foldl step (1, 1) t = (1 + count_list t CHR 0x0A, 1 + length (takeWhile (\<lambda>c. c \<noteq> CHR 0x0A) (rev t)))" for t
    by (induction t rule: rev_induct) (auto simp: step_def)
  then show ?thesis unfolding get_position_def step_def [symmetric] by (simp add: min_def)
qed

definition error_ok :: "string \<Rightarrow> parse_error \<Rightarrow> bool" where
  "error_ok s e \<longleftrightarrow> pe_code e \<in> {''empty_input'', ''filter_too_large'', ''syntax_error''}
     \<and> 1 \<le> length (pe_message e) \<and> length (pe_message e) \<le> 256
     \<and> (\<exists>k \<le> length s. pe_line e = 1 + count_list (take k s) CHR 0x0A
          \<and> pe_column e = 1 + length (takeWhile (\<lambda>c. c \<noteq> CHR 0x0A) (rev (take k s))))"

lemma error_okI:
  assumes "code \<in> {''empty_input'', ''filter_too_large'', ''syntax_error''}" and "k \<le> length s" and "get_position s k = (line, col)"
  shows "error_ok s (mk_error code m line col)"
proof -
  have "1 \<le> length (pe_message (mk_error code m line col)) \<and> length (pe_message (mk_error code m line col)) \<le> 256"
    by (simp add: mk_error_def Suc_le_eq)
  moreover have "line = 1 + count_list (take k s) CHR 0x0A"
    "col = 1 + length (takeWhile (\<lambda>c. c \<noteq> CHR 0x0A) (rev (take k s)))"
    using assms(3) by (simp_all add: get_position_counts)
  ultimately show ?thesis
    using assms(1,2) unfolding error_ok_def by (simp add: mk_error_def) blast
qed

lemma get_position_0: "get_position s 0 = (1, 1)"
  by (simp add: get_position_def)

lemma parse_within:
  assumes "\<not> (s = [] \<or> list_all py_isspace s)" and "\<not> length s > 16384"
  shows "parse s = (case parse_raw s of
          Inr (a, r0, n) \<Rightarrow>
            (case skip_ws r0 of
               [] \<Rightarrow> Inr a
             | c # t \<Rightarrow> (case get_position s (length s - length (c # t)) of (line, col) \<Rightarrow>
                   Inl (mk_error ''syntax_error'' (''Unexpected character '' @ quoted c @ '' after expression'') line col)))
        | Inl (SyntaxAt m k) \<Rightarrow> (case get_position s (length s - k) of (line, col) \<Rightarrow> Inl (mk_error ''syntax_error'' m line col))
        | Inl (TooLarge m) \<Rightarrow> Inl (mk_error ''filter_too_large'' m 1 1)
        | Inl OutOfFuel \<Rightarrow> Inl (mk_error ''out_of_fuel'' '''' 0 0))"
  using assms unfolding parse_def max_input_length_def by (simp only: if_False)

lemma parse_cases:
  obtains "s = [] \<or> list_all py_isspace s" "parse s = Inl (mk_error ''empty_input'' ''Input is empty or contains only whitespace'' 1 1)"
    | m where "\<not> (s = [] \<or> list_all py_isspace s)" "parse s = Inl (mk_error ''filter_too_large'' m 1 1)"
    | m k where "\<not> (s = [] \<or> list_all py_isspace s)" "length s \<le> 16384" "k \<le> length s"
        "parse s = Inl (mk_error ''syntax_error'' m (fst (get_position s k)) (snd (get_position s k)))"
    | a r where "\<not> (s = [] \<or> list_all py_isspace s)" "length s \<le> 16384" "parse s = Inr a"
        "parse_raw s = Inr (a, r, leaves a)" "skip_ws r = []"
proof (cases "s = [] \<or> list_all py_isspace s")
  case True
  then have "parse s = Inl (mk_error ''empty_input'' ''Input is empty or contains only whitespace'' 1 1)"
    unfolding parse_def by (simp only: if_True)
  with True show thesis by (rule that(1))
next
  case ne: False
  show thesis
  proof (cases "length s > 16384")
    case True
    with ne show thesis
      by (intro that(2)) (simp_all only: parse_def max_input_length_def if_True if_False not_False_eq_True)
  next
    case len: False
    note d = parse_within [OF ne len]
    show thesis
    proof (cases "parse_raw s")
      case (Inl e)
      show thesis
      proof (cases e)
        case (SyntaxAt m k)
        with Inl ne len show thesis
          by (intro that(3) [of "length s - k" m]) (simp_all add: d case_prod_beta)
      next
        case (TooLarge m)
        with Inl ne show thesis by (intro that(2)) (simp_all add: d)
      next
        case OutOfFuel
        with Inl parse_raw_good [of s] show thesis by (simp add: good_simps)
      qed
    next
      case (Inr p)
      obtain a r n where p: "p = (a, r, n)" by (cases p)
      with Inr parse_raw_good [of s] have n: "n = leaves a" by (simp add: good_simps)
      show thesis
      proof (cases "skip_ws r")
        case Nil
        with Inr p n ne len show thesis by (intro that(4)) (simp_all add: d)
      next
        case (Cons c t)
        with Inr p ne len show thesis
          by (intro that(3) [of "length s - length (c # t)" "''Unexpected character '' @ quoted c @ '' after expression''"])
            (simp_all add: d case_prod_beta)
      qed
    qed
  qed
qed

section \<open>Properties\<close>



end
