(* ===== verification/QueryRoundTrip.thy ===== *)
theory QueryRoundTrip
  imports QueryParser
begin

text \<open>
  Printing a filter and parsing it back (\<open>printer.py\<close> against \<open>parser.py\<close> and \<open>structural_eq\<close> of
  \<open>ast_types.py\<close>): the texts each parser function accepts, from the values up to whole expressions, the
  round trip on the trees the grammar can denote, and the trees outside that fragment on which it fails.
\<close>

section \<open>Blanks and keywords\<close>

named_theorems char_facts \<open>classification of the characters the printer emits\<close>

definition delim :: "string \<Rightarrow> bool" where
  "delim r \<longleftrightarrow> r = [] \<or> hd r \<in> {CHR '' '', CHR '')'', CHR '',''}"

lemma delim_simps [simp]: "delim []" "delim (CHR '' '' # r)" "delim (CHR '')'' # r)" "delim (CHR '','' # r)"
  by (simp_all add: delim_def)

lemma separator_chars [char_facts]:
  assumes "c \<in> {CHR '' '', CHR '')'', CHR '',''}"
  shows "\<not> py_isdigit c" "\<not> ascii_digit c" "\<not> ident_char c"
    "c \<noteq> CHR ''.'' \<and> c \<noteq> CHR ''e'' \<and> c \<noteq> CHR ''E'' \<and> c \<noteq> CHR ''T'' \<and> c \<noteq> CHR ''Z'' \<and> c \<noteq> CHR ''+'' \<and> c \<noteq> CHR ''-''"
proof -
  have "list_all (\<lambda>c. \<not> py_isdigit c \<and> \<not> ascii_digit c \<and> \<not> ident_char c \<and> c \<notin> set ''.eETZ+-'') '' ),''" by code_simp
  with assms show "\<not> py_isdigit c" "\<not> ascii_digit c" "\<not> ident_char c"
    "c \<noteq> CHR ''.'' \<and> c \<noteq> CHR ''e'' \<and> c \<noteq> CHR ''E'' \<and> c \<noteq> CHR ''T'' \<and> c \<noteq> CHR ''Z'' \<and> c \<noteq> CHR ''+'' \<and> c \<noteq> CHR ''-''"
    by auto
qed

lemma delim_ident: "delim r \<Longrightarrow> r = [] \<or> \<not> ident_char (hd r)"
  using separator_chars by (auto simp: delim_def)

lemma delim_digits: "delim r \<Longrightarrow> dropWhile py_isdigit r = r \<and> takeWhile py_isdigit r = []"
  using separator_chars by (cases r) (auto simp: delim_def)

lemma skip_ws_blank [simp]: "skip_ws (CHR '' '' # s) = skip_ws s"
  by (simp add: skip_ws_def is_blank_def)

lemma skip_ws_nil [simp]: "skip_ws [] = []"
  by (simp add: skip_ws_def)

lemma skip_ws_text: "\<not> is_blank c \<Longrightarrow> skip_ws (c # s) = c # s"
  by (simp add: skip_ws_def)

lemma skip_ws_idem [simp]: "skip_ws (skip_ws s) = skip_ws s"
  by (metis dropWhile_idem skip_ws_def)

lemma match_keyword_skip: "match_keyword kw (skip_ws s) = match_keyword kw s"
  by (simp add: match_keyword_def)

lemma match_keyword_hit:
  "skip_ws s = kw @ r \<Longrightarrow> py_lower kw = kw \<Longrightarrow> r = [] \<or> \<not> ident_char (hd r) \<Longrightarrow> match_keyword kw s = Some r"
  by (auto simp: match_keyword_def)

lemma match_keyword_miss:
  "skip_ws s = c # r \<Longrightarrow> lower_char c \<noteq> k \<Longrightarrow> match_keyword (k # kw) s = None"
  by (auto simp: match_keyword_def Let_def py_lower_def)

lemma match_keyword_end: "skip_ws s = [] \<Longrightarrow> match_keyword (k # kw) s = None"
  by (simp add: match_keyword_def)

lemma lower_printed [char_facts]:
  assumes "c \<in> set ''duplcm''"
  shows "lower_char c = c" "\<not> is_blank c" "c \<noteq> CHR ''n''" "c \<noteq> CHR ''(''"
proof -
  have "list_all (\<lambda>c. lower_char c = c \<and> \<not> is_blank c \<and> c \<noteq> CHR ''n'' \<and> c \<noteq> CHR ''('') ''duplcm''" by code_simp
  with assms show "lower_char c = c" "\<not> is_blank c" "c \<noteq> CHR ''n''" "c \<noteq> CHR ''(''"
    unfolding list_all_iff by blast+
qed

lemma dot_facts: "\<not> ident_char CHR ''.''"
  by code_simp

lemma expect_char_hit: "skip_ws s = c # r \<Longrightarrow> expect_char c s = Inr r"
  by (simp add: expect_char_def)

section \<open>Fields\<close>

lemma ident_start_facts: "ident_start c \<Longrightarrow> \<not> is_blank c \<and> ident_char c"
  by (auto simp: ident_start_def ident_char_def py_isalnum_def is_blank_def py_isalpha_def cp_def Let_def)

lemma parse_identifier_text:
  assumes "ident_ok i" and "r = [] \<or> \<not> ident_char (hd r)"
  shows "parse_identifier (i @ r) = Inr (i, r)"
proof -
  obtain c t where i: "i = c # t" "ident_start c" "\<forall>x\<in>set t. ident_char x"
    using assms(1) by (cases i) (auto simp: ident_ok_def list_all_iff)
  have "takeWhile ident_char (t @ r) = t" "dropWhile ident_char (t @ r) = r"
    using i(3) assms(2) by (cases r; simp)+
  then show ?thesis using i ident_start_facts by (simp add: parse_identifier_def skip_ws_text)
qed

lemma join_Cons: "join sep (x # xs) = x @ concat (map ((@) sep) xs)"
  by (induction xs arbitrary: x) simp_all

lemma append_dot [simp]: "(@) ''.'' = (#) CHR ''.''"
  by (rule ext) simp

lemma parse_dots_text:
  assumes "list_all ident_ok segs" and "r = [] \<or> hd r = CHR '' ''"
  shows "parse_dots (concat (map ((#) CHR ''.'') segs) @ r) = Inr (segs, r)"
  using assms(1)
proof (induction segs)
  case Nil
  show ?case using assms(2) by (cases r) (auto simp: parse_dots_stop)
next
  case (Cons i segs)
  define u where "u = concat (map ((#) CHR ''.'') segs) @ r"
  have "u = [] \<or> \<not> ident_char (hd u)"
    using assms(2) separator_chars(3) [of "CHR '' ''"] by (cases segs) (auto simp: u_def dot_facts)
  then have "parse_identifier (i @ u) = Inr (i, u)" using Cons.prems by (intro parse_identifier_text) simp_all
  moreover have "parse_dots u = Inr (segs, r)" using Cons by (simp add: u_def)
  ultimately show ?case by (simp add: u_def)
qed

lemma field_first: "field_ok f \<Longrightarrow> \<exists>c t. f = c # t \<and> c \<in> set ''duplcm''"
  by (auto simp: field_ok_def valid_fields_def join_Cons split: if_splits)

lemma parse_field_text:
  assumes f: "field_ok f" and s: "skip_ws s = f @ CHR '' '' # r"
  shows "parse_field s = Inr (f, CHR '' '' # r)"
proof -
  from f obtain ident segs where f': "f = join ''.'' (ident # segs)" "ident_ok ident" "list_all ident_ok segs"
    "if ident = ''metadata'' then segs \<noteq> [] \<and> list_all (\<lambda>s. 1 \<le> length s \<and> length s \<le> 128) segs
     else ident \<in> set valid_fields"
    unfolding field_ok_def by blast
  define u where "u = concat (map ((#) CHR ''.'') segs) @ CHR '' '' # r"
  have "u = [] \<or> \<not> ident_char (hd u)"
    using separator_chars(3) [of "CHR '' ''"] by (cases segs) (auto simp: u_def dot_facts)
  then have "parse_identifier (skip_ws s) = Inr (ident, u)"
    using s f' by (simp add: join_Cons u_def parse_identifier_text)
  moreover have "parse_dots u = Inr (segs, CHR '' '' # r)" using f' by (simp add: u_def parse_dots_text)
  moreover have "check_field ident segs (CHR '' '' # r) = Inr (f, CHR '' '' # r)"
    using f' by (simp add: check_field_Inr)
  ultimately show ?thesis by (simp add: parse_field_def)
qed

section \<open>Operators and literals\<close>

lemma operator_texts:
  assumes "op \<in> {''='', ''!='', ''lt'', ''le'', ''gt'', ''ge''}" and "skip_ws s = op @ CHR '' '' # r"
  shows "parse_operator s = Inr (op, CHR '' '' # r)" "match_keyword ''in'' s = None"
proof -
  have sp: "\<not> ident_char CHR '' ''" by code_simp
  have lower: "lower_char CHR ''l'' = CHR ''l''" "lower_char CHR ''g'' = CHR ''g''" "lower_char CHR ''e'' = CHR ''e''"
    "lower_char CHR ''t'' = CHR ''t''" "lower_char CHR ''='' = CHR ''=''" "lower_char CHR ''!'' = CHR ''!''" by code_simp+
  have blank: "\<not> is_blank CHR ''l''" "\<not> is_blank CHR ''g''" by code_simp+
  show "parse_operator s = Inr (op, CHR '' '' # r)"
    using assms
    by (elim insertE)
      (simp_all add: parse_operator_def Let_def starts_with_def match_keyword_def skip_ws_text blank py_lower_def lower sp)
  show "match_keyword ''in'' s = None"
    using assms by (elim insertE) (auto intro!: match_keyword_miss simp: lower)
qed

fun literal_exact :: "literal \<Rightarrow> bool" where
  "literal_exact (StrLit s) = (length s \<le> 1024)"
| "literal_exact (NumLit x) = is_integral x"
| "literal_exact (TsLit s) = (ts_rest s = Some [])"

lemma replace_char: "replace_all [x] new s = concat (map (\<lambda>c. if c = x then new else [c]) s)"
  unfolding replace_all_def by (induction s) (auto simp: starts_with_def)

lemma escape_string_simps [simp]:
  "escape_string [] = []"
  "escape_string (c # s) = (if c = quote_char then [backslash, quote_char]
     else if c = backslash then [backslash, backslash] else [c]) @ escape_string s"
  by (simp_all add: escape_string_def replace_char quote_char_def backslash_def)

lemma string_body_text:
  "length acc + length t \<le> 1024 \<Longrightarrow> string_body acc (escape_string t @ quote_char # r) = Inr (StrLit (rev acc @ t), r)"
proof (induction t arbitrary: acc)
  case Nil
  then show ?case by (simp add: quote_char_def backslash_def)
next
  case (Cons c t)
  have u: "unescape quote_char = quote_char" "unescape backslash = backslash" "quote_char \<noteq> backslash"
    by (simp_all add: unescape_def quote_char_def backslash_def)
  from Cons.IH [of "c # acc"] Cons.prems
  have "string_body (c # acc) (escape_string t @ quote_char # r) = Inr (StrLit (rev acc @ c # t), r)" by simp
  then show ?case using u by auto
qed

lemma str_int_cases:
  obtains "0 \<le> i" "str_int i = str_nat (nat i)" | "i < 0" "str_int i = CHR ''-'' # str_nat (nat (- i))"
  by (cases "i < 0") (simp_all add: str_int_def)

lemma digit_chars [char_facts]:
  "ascii_digit c \<Longrightarrow> py_isdigit c \<and> \<not> is_blank c \<and> c \<noteq> quote_char \<and> c \<noteq> CHR ''-''"
  by (auto simp: ascii_digit_def py_isdigit_def is_blank_def quote_char_def cp_def)

lemma str_nat_first:
  obtains c t where "str_nat n = c # t" "ascii_digit c"
  using str_nat_digits [of "hd (str_nat n)" n] by (cases "str_nat n") auto

lemma digits_span:
  assumes "\<forall>c\<in>set ds. ascii_digit c" and "delim r"
  shows "takeWhile py_isdigit (ds @ r) = ds" "dropWhile py_isdigit (ds @ r) = r"
    "takeWhile ascii_digit (ds @ r) = ds" "dropWhile ascii_digit (ds @ r) = r"
proof -
  have "\<forall>c\<in>set ds. py_isdigit c" using assms(1) ascii_digit_isdigit by blast
  moreover have "takeWhile ascii_digit r = []" "dropWhile ascii_digit r = r"
    using assms(2) separator_chars(2) by (cases r; auto simp: delim_def)+
  ultimately show "takeWhile py_isdigit (ds @ r) = ds" "dropWhile py_isdigit (ds @ r) = r"
    "takeWhile ascii_digit (ds @ r) = ds" "dropWhile ascii_digit (ds @ r) = r"
    using assms delim_digits [OF assms(2)] by simp_all
qed

lemma starts_with_single: "starts_with s [c] \<longleftrightarrow> s \<noteq> [] \<and> hd s = c"
  by (cases s) (simp_all add: starts_with_def)

lemma delim_number: "delim r \<Longrightarrow> number_fraction r = Inr ('''', r) \<and> number_exponent r = Inr ((False, ''0''), r)"
  using separator_chars(4) by (cases r) (auto simp: number_fraction_def number_exponent_def starts_with_single delim_def)

lemma decimal_value_integer: "decimal_value neg ds '''' False ''0'' = (if neg then - of_nat (nat_of_digits ds) else of_nat (nat_of_digits ds))"
proof -
  have "nat_of_digits ''0'' = 0" by code_simp
  then show ?thesis by (simp add: decimal_value_def pow10_def)
qed

lemma not_timestamp:
  assumes "\<forall>c\<in>set ds. ascii_digit c" and "delim r"
  shows "ts_rest (ds @ r) = None" "ts_rest (CHR ''-'' # ds @ r) = None"
proof -
  have m: "\<not> ascii_digit CHR ''-''" by code_simp
  have "\<not> ts_date (ds @ r)"
  proof
    assume t: "ts_date (ds @ r)"
    then have d4: "digits_at 4 (ds @ r)" and "starts_with (drop 4 (ds @ r)) ''-''" by (simp_all add: ts_date_def)
    then have h: "drop 4 (ds @ r) \<noteq> []" "hd (drop 4 (ds @ r)) = CHR ''-''" by (simp_all add: starts_with_single)
    show False
    proof (cases "length ds \<le> 4")
      case False
      then have "hd (drop 4 (ds @ r)) \<in> set ds" by (auto simp: hd_drop_conv_nth nth_append)
      with h assms(1) m show False by simp
    next
      case True
      show False
      proof (cases "length ds = 4")
        case True
        with h assms(2) separator_chars(4) show False by (cases r) (auto simp: delim_def)
      next
        case False
        with True have l: "length ds < 4" by simp
        with d4 have "r \<noteq> []" by (auto simp: digits_at_def)
        then obtain c u where r: "r = c # u" by (cases r) auto
        have "c \<in> set (take 4 (ds @ r))" using l by (auto simp: r take_Cons')
        with d4 have "ascii_digit c" by (simp add: digits_at_def list_all_iff)
        with assms(2) separator_chars(2) [of c] show False by (auto simp: delim_def r)
      qed
    qed
  qed
  then show "ts_rest (ds @ r) = None" by (simp add: ts_rest_def)
  have "\<not> digits_at 4 (CHR ''-'' # ds @ r)" by (simp add: digits_at_def m)
  then show "ts_rest (CHR ''-'' # ds @ r) = None" by (simp add: ts_rest_def ts_date_def)
qed

lemma parse_number_text:
  assumes "delim r"
  shows "parse_number (str_int i @ r) = Inr (NumLit (of_int i), r)"
proof -
  have digits: "\<forall>c\<in>set (str_nat n). ascii_digit c" for n using str_nat_digits by blast
  note span = digits_span [OF digits assms] and ends = delim_number [OF assms]
  have hd: "hd (str_nat n @ r) \<noteq> CHR ''-''" "py_isdigit (hd (str_nat n @ r))" for n
    using digits [of n] digit_chars by (cases "str_nat n"; auto)+
  have all: "list_all ascii_digit (str_nat n @ ''0'')" for n
    using digits [of n] by (auto simp: list_all_iff ascii_digit_def cp_def)
  show ?thesis
  proof (cases i rule: str_int_cases)
    case 1
    then show ?thesis
      using span ends hd all by (simp add: parse_number_def Let_def starts_with_single decimal_value_integer)
  next
    case 2
    then show ?thesis
      using span ends hd all by (simp add: parse_number_def Let_def starts_with_single decimal_value_integer)
  qed
qed

lemma ts_first: "ts_rest v = Some r \<Longrightarrow> \<exists>c t. v = c # t \<and> ascii_digit c"
  by (cases v) (auto simp: ts_rest_def ts_date_def digits_at_def split: if_splits)

lemma digits_at_append: "digits_at n s \<Longrightarrow> digits_at n (s @ r)"
  by (simp add: digits_at_def)

lemma starts_with_append: "starts_with s p \<Longrightarrow> starts_with (s @ r) p"
  by (auto simp: starts_with_iff)

lemma starts_with_length: "starts_with s p \<Longrightarrow> length p \<le> length s"
  by (auto simp: starts_with_iff)

lemma digits_at_length: "digits_at n s \<Longrightarrow> n \<le> length s"
  by (simp add: digits_at_def)

lemma delim_not_starts: "delim r \<Longrightarrow> c \<in> set ''.TZ+-'' \<Longrightarrow> \<not> starts_with r [c]"
  using separator_chars(4) by (cases r) (auto simp: starts_with_single delim_def)

lemma ts_zone_text:
  assumes "ts_zone w = []" and "delim r"
  shows "ts_zone (w @ r) = r"
proof (cases w)
  case Nil
  then show ?thesis using assms(2) by (simp add: ts_zone_def delim_not_starts)
next
  case (Cons c u)
  show ?thesis
  proof (cases "c = CHR ''Z''")
    case True
    with Cons assms(1) show ?thesis by (simp add: ts_zone_def starts_with_single)
  next
    case False
    define z where "z w \<longleftrightarrow> (starts_with w ''+'' \<or> starts_with w ''-'') \<and> digits_at 2 (drop 1 w)
              \<and> starts_with (drop 3 w) '':'' \<and> digits_at 2 (drop 4 w)" for w
    have d: "ts_zone w' = (if starts_with w' ''Z'' then drop 1 w' else if z w' then drop 6 w' else w')" for w'
      by (simp add: ts_zone_def z_def)
    have nz: "\<not> starts_with w ''Z''" "\<not> starts_with (w @ r) ''Z''" using False Cons by (simp_all add: starts_with_single)
    with assms(1) d Cons have "z w" "drop 6 w = []" by (auto split: if_splits)
    then have z: "digits_at 2 (drop 1 w)" "starts_with (drop 3 w) '':''" "digits_at 2 (drop 4 w)" "length w = 6"
      using digits_at_length [of 2 "drop 4 w"] by (auto simp: z_def)
    have "z (w @ r)" using \<open>z w\<close> z(4) unfolding z_def
      by (auto intro: starts_with_append digits_at_append)
    with nz z(4) show ?thesis by (simp add: d)
  qed
qed

lemma ts_fraction_text:
  assumes "ts_zone (ts_fraction u) = []" and "delim r"
  shows "ts_fraction (u @ r) = ts_fraction u @ r"
proof (cases "starts_with u ''.''")
  case True
  then obtain t where u: "u = CHR ''.'' # t" by (cases u) (auto simp: starts_with_single)
  have "starts_digit t"
  proof (rule ccontr)
    assume "\<not> starts_digit t"
    with u have "ts_fraction u = u" by (simp add: ts_fraction_def)
    with assms(1) u show False by (simp add: ts_zone_def starts_with_single)
  qed
  then have "starts_digit (t @ r)" by (simp add: starts_digit_def)
  moreover have "dropWhile ascii_digit (t @ r) = dropWhile ascii_digit t @ r"
  proof (cases "\<forall>x\<in>set t. ascii_digit x")
    case True
    then show ?thesis using digits_span(4) [OF True assms(2)] by simp
  next
    case False
    then show ?thesis by (auto simp: dropWhile_append1)
  qed
  ultimately show ?thesis using u \<open>starts_digit t\<close> by (simp add: ts_fraction_def starts_with_single)
next
  case False
  then have "\<not> starts_with (u @ r) ''.''" using delim_not_starts [OF assms(2), of "CHR ''.''"]
    by (cases u) (simp_all add: starts_with_single)
  with False show ?thesis by (simp add: ts_fraction_def)
qed

lemma ts_rest_text:
  assumes v: "ts_rest v = Some []" and r: "delim r"
  shows "ts_rest (v @ r) = Some r"
proof -
  have dt: "ts_date v" and e: "(if ts_clock (drop 10 v) then ts_zone (ts_fraction (drop 19 v)) else drop 10 v) = []"
    using v by (auto simp: ts_rest_def Let_def split: if_splits)
  then have l: "10 \<le> length v" using digits_at_length [of 2 "drop 8 v"] by (simp add: ts_date_def)
  have date: "ts_date (v @ r)"
    using dt l by (auto simp: ts_date_def intro!: digits_at_append starts_with_append)
  show ?thesis
  proof (cases "ts_clock (drop 10 v)")
    case True
    then have l2: "19 \<le> length v" using l digits_at_length [of 2 "drop 17 v"] by (simp add: ts_clock_def)
    have clock: "ts_clock (drop 10 (v @ r))"
      using True l2 by (auto simp: ts_clock_def intro!: digits_at_append starts_with_append)
    have z: "ts_zone (ts_fraction (drop 19 v)) = []" using e True by simp
    have "ts_zone (ts_fraction (drop 19 v @ r)) = r"
      using ts_zone_text [OF z r] by (simp add: ts_fraction_text [OF z r])
    with date clock l2 show ?thesis by (simp add: ts_rest_def Let_def)
  next
    case False
    with e have t: "drop 10 v = []" by simp
    with r l have "\<not> ts_clock (drop 10 (v @ r))" by (simp add: ts_clock_def delim_not_starts)
    with date t l show ?thesis by (simp add: ts_rest_def Let_def)
  qed
qed

lemma parse_value_text:
  assumes l: "literal_exact l" and s: "skip_ws s = print_literal l @ r" and r: "delim r"
  shows "parse_value s = Inr (l, r)"
proof (cases l)
  case (StrLit t)
  then show ?thesis
    using l s string_body_text [of "[]" t r] by (simp add: print_literal_def parse_value_def)
next
  case (TsLit v)
  with l obtain c t where v: "v = c # t" "ascii_digit c" using ts_first [of v "[]"] by auto
  then have "c \<noteq> quote_char" "py_isdigit c" using digit_chars by auto
  moreover have "ts_rest (v @ r) = Some r" using l r TsLit by (simp add: ts_rest_text)
  ultimately show ?thesis
    using s TsLit v by (simp add: print_literal_def parse_value_def parse_number_or_timestamp_def)
next
  case (NumLit x)
  then have x: "x = of_int \<lfloor>x\<rfloor>" "print_literal l = str_int \<lfloor>x\<rfloor>"
    using l by (simp_all add: is_integral_def print_literal_def)
  have digits: "\<forall>c\<in>set (str_nat n). ascii_digit c" for n using str_nat_digits by blast
  obtain c t where ct: "str_int \<lfloor>x\<rfloor> @ r = c # t" by (cases "str_int \<lfloor>x\<rfloor> @ r") (auto simp: str_int_def split: if_splits)
  have c: "c \<noteq> quote_char" "c = CHR ''-'' \<or> py_isdigit c" "ts_rest (c # t) = None"
  proof -
    have "c = CHR ''-'' \<or> ascii_digit c"
      using ct by (cases "\<lfloor>x\<rfloor>" rule: str_int_cases; cases rule: str_nat_first [of "nat \<lfloor>x\<rfloor>"]) auto
    then show "c \<noteq> quote_char" "c = CHR ''-'' \<or> py_isdigit c"
      using digit_chars by (auto simp: quote_char_def)
    show "ts_rest (c # t) = None"
      unfolding ct [symmetric]
      by (cases "\<lfloor>x\<rfloor>" rule: str_int_cases) (simp_all add: not_timestamp [OF digits r])
  qed
  have "parse_number (c # t) = Inr (l, r)"
    using parse_number_text [OF r, of "\<lfloor>x\<rfloor>"] ct x(1) NumLit by simp
  moreover have "skip_ws s = c # t" using s x(2) ct by simp
  ultimately show ?thesis using c by (simp add: parse_value_def parse_number_or_timestamp_def)
qed

lemma literal_text_first:
  assumes "literal_exact l"
  shows "\<exists>c t. print_literal l = c # t \<and> \<not> is_blank c"
proof (cases l)
  case (TsLit v)
  with assms ts_first [of v "[]"] digit_chars show ?thesis by (auto simp: print_literal_def)
next
  case (NumLit x)
  have "\<exists>c t. str_nat n = c # t \<and> \<not> is_blank c" for n
    using digit_chars by (cases rule: str_nat_first [of n]) auto
  moreover have "\<not> is_blank CHR ''-''" by code_simp
  ultimately show ?thesis using assms NumLit by (auto simp: print_literal_def str_int_def)
qed (simp add: print_literal_def quote_char_def is_blank_def)

lemma parse_value_blank: "parse_value (CHR '' '' # s) = parse_value s"
  by (simp add: parse_value_def)

lemma value_list_text:
  assumes "vs \<noteq> []" and "\<forall>v\<in>set vs. literal_exact v" and "length vs \<le> f"
  shows "value_list f (join '', '' (map print_literal vs) @ CHR '')'' # r) = Inr (vs, CHR '')'' # r)"
    "value_list f (CHR '' '' # join '', '' (map print_literal vs) @ CHR '')'' # r) = Inr (vs, CHR '')'' # r)"
proof -
  have nb: "\<not> is_blank CHR '')''" "\<not> is_blank CHR '',''" by code_simp+
  have one: "parse_value (print_literal v @ u) = Inr (v, u)" if "literal_exact v" "delim u" for v u
    using literal_text_first [OF that(1)] by (intro parse_value_text that) (auto simp: skip_ws_text)
  have *: "value_list f (join '', '' (map print_literal vs) @ CHR '')'' # r) = Inr (vs, CHR '')'' # r)
     \<and> value_list f (CHR '' '' # join '', '' (map print_literal vs) @ CHR '')'' # r) = Inr (vs, CHR '')'' # r)"
    using assms
  proof (induction vs arbitrary: f)
    case Nil
    then show ?case by simp
  next
    case (Cons v vs)
    obtain g where f: "f = Suc g" using Cons.prems(3) by (cases f) auto
    have v: "literal_exact v" using Cons.prems(2) by simp
    show ?case
    proof (cases vs)
      case Nil
      with f v show ?thesis by (simp add: one skip_ws_text nb parse_value_blank)
    next
      case (Cons w ws)
      with Cons.IH [of g] Cons.prems f have
        "value_list g (CHR '' '' # join '', '' (map print_literal vs) @ CHR '')'' # r) = Inr (vs, CHR '')'' # r)" by simp
      with f v Cons show ?thesis by (simp add: one skip_ws_text nb parse_value_blank)
    qed
  qed
  then show "value_list f (join '', '' (map print_literal vs) @ CHR '')'' # r) = Inr (vs, CHR '')'' # r)"
    "value_list f (CHR '' '' # join '', '' (map print_literal vs) @ CHR '')'' # r) = Inr (vs, CHR '')'' # r)" by blast+
qed

section \<open>Comparisons\<close>

lemma parse_field_skip: "parse_field (skip_ws s) = parse_field s"
  by (simp add: parse_field_def)

lemma comparison_text:
  assumes f: "field_ok f" and op: "op \<in> {''='', ''!='', ''lt'', ''le'', ''gt'', ''ge''}"
    and v: "parse_value (CHR '' '' # w) = Inr (v, r)"
    and s: "skip_ws s = f @ '' '' @ op @ '' '' @ w" and n: "n < 1024"
  shows "parse_comparison n s = Inr (if op = ''='' then FEq f v else if op = ''!='' then FNe f v else FRange f op v, r, Suc n)"
proof -
  have 1: "parse_field (skip_ws s) = Inr (f, CHR '' '' # op @ '' '' @ w)"
    unfolding parse_field_skip using f s by (intro parse_field_text) simp_all
  let ?t = "skip_ws (CHR '' '' # op @ '' '' @ w)"
  have t: "skip_ws ?t = op @ CHR '' '' # w"
    using op by (elim insertE) (simp_all add: skip_ws_text is_blank_def)
  from 1 operator_texts [OF op t] n v show ?thesis
    by (simp add: parse_comparison_def Let_def count_leaf_def max_leaf_count_def)
qed

lemma leaf_text:
  assumes f: "field_ok f" and op: "op \<in> {''='', ''!='', ''lt'', ''le'', ''gt'', ''ge''}" and v: "literal_exact v"
    and s: "skip_ws s = f @ '' '' @ op @ '' '' @ print_literal v @ r" and r: "delim r" and n: "n < 1024"
  shows "parse_comparison n s = Inr (if op = ''='' then FEq f v else if op = ''!='' then FNe f v else FRange f op v, r, Suc n)"
proof (rule comparison_text [OF f op _ s n])
  show "parse_value (CHR '' '' # print_literal v @ r) = Inr (v, r)"
    using literal_text_first [OF v] by (intro parse_value_text v r) (auto simp: skip_ws_text)
qed

lemma in_text:
  assumes f: "field_ok f" and vs: "\<forall>v\<in>set vs. literal_exact v" "1 \<le> length vs" "length vs \<le> 256"
    and s: "skip_ws s = f @ '' in ('' @ join '', '' (map print_literal vs) @ '')'' @ r" and n: "n < 1024"
  shows "parse_comparison n s = Inr (FIn f vs, r, Suc n)"
proof -
  define u where "u = join '', '' (map print_literal vs) @ CHR '')'' # r"
  have 1: "parse_field (skip_ws s) = Inr (f, CHR '' '' # ''in ('' @ u)"
    unfolding parse_field_skip using f s by (intro parse_field_text) (simp_all add: u_def)
  have facts: "\<not> is_blank CHR ''i''" "\<not> is_blank CHR ''(''" "\<not> is_blank CHR '')''" "\<not> ident_char CHR '' ''" "py_lower ''in'' = ''in''" by code_simp+
  have 2: "match_keyword ''in'' (skip_ws (CHR '' '' # ''in ('' @ u)) = Some (CHR '' '' # ''('' @ u)"
    by (rule match_keyword_hit) (simp_all add: skip_ws_text facts)
  have 3: "expect_char CHR ''('' (CHR '' '' # ''('' @ u) = Inr u"
    by (rule expect_char_hit) (simp add: skip_ws_text facts)
  have "length vs \<le> length u"
  proof -
    have "length vs \<le> length (join '', '' (map print_literal vs)) + 1" for vs
    proof (induction vs)
      case (Cons v vs)
      then show ?case by (cases vs) simp_all
    qed simp
    from this [of vs] show ?thesis by (simp add: u_def)
  qed
  then have 4: "value_list (Suc (length u)) u = Inr (vs, CHR '')'' # r)"
    unfolding u_def by (intro value_list_text) (use vs in auto)
  have 5: "expect_char CHR '')'' (CHR '')'' # r) = Inr r"
    by (rule expect_char_hit) (simp add: skip_ws_text facts)
  from vs have "\<not> length vs < 1" "\<not> 256 < length vs" by auto
  with 1 2 3 4 5 n show ?thesis
    by (simp add: parse_comparison_def parse_in_def Let_def count_leaf_def max_leaf_count_def max_in_set_size_def
        del: value_list.simps)
qed

section \<open>The fragment on which printing is faithful\<close>

fun is_and :: "filter_node \<Rightarrow> bool" where
  "is_and (FAnd cs) = True"
| "is_and _ = False"

fun is_or :: "filter_node \<Rightarrow> bool" where
  "is_or (FOr cs) = True"
| "is_or _ = False"

text \<open>
  The trees the grammar can denote, with literals the printer renders exactly: no \<open>and\<close> directly under an
  \<open>and\<close>, no \<open>or\<close> directly under an \<open>or\<close>, integral numbers, complete timestamps.
\<close>

fun canonical :: "filter_node \<Rightarrow> bool" where
  "canonical (FEq f v) = (field_ok f \<and> literal_exact v)"
| "canonical (FNe f v) = (field_ok f \<and> literal_exact v)"
| "canonical (FIn f vs) = (field_ok f \<and> 1 \<le> length vs \<and> length vs \<le> 256 \<and> list_all literal_exact vs)"
| "canonical (FRange f op v) = (field_ok f \<and> op \<in> {''lt'', ''le'', ''gt'', ''ge''} \<and> literal_exact v)"
| "canonical (FNot a) = canonical a"
| "canonical (FAnd as) = (2 \<le> length as \<and> list_all (\<lambda>a. canonical a \<and> \<not> is_and a) as)"
| "canonical (FOr as) = (2 \<le> length as \<and> list_all (\<lambda>a. canonical a \<and> \<not> is_or a) as)"

text \<open>The parentheses the printer writes around \<open>a\<close> nest at most 32 deep, counted from depth \<open>d\<close>.\<close>

fun fits :: "nat \<Rightarrow> filter_node \<Rightarrow> nat \<Rightarrow> bool" where
  "fits d (FNot a) p = fits d a 3"
| "fits d (FAnd as) p = (let d' = (if p > 2 then Suc d else d) in d' \<le> 32 \<and> list_all (\<lambda>a. fits d' a 2) as)"
| "fits d (FOr as) p = (let d' = (if p > 1 then Suc d else d) in d' \<le> 32 \<and> list_all (\<lambda>a. fits d' a 1) as)"
| "fits d _ p = True"

text \<open>The tree the printed text denotes: operands and set members in the order they are printed in.\<close>

fun normal :: "filter_node \<Rightarrow> filter_node" where
  "normal (FIn f vs) = FIn f (sort_literals vs)"
| "normal (FNot a) = FNot (normal a)"
| "normal (FAnd as) = FAnd (map normal (sort_key (\<lambda>c. print_node c 2) as))"
| "normal (FOr as) = FOr (map normal (sort_key (\<lambda>c. print_node c 1) as))"
| "normal a = a"

lemma sort_map: "sort (map f xs) = map f (sort_key f xs)"
  by (rule properties_for_sort) simp_all

lemma print_norm: "print_node (normal a) p = print_node a p"
proof (induction a arbitrary: p)
  case (FIn f vs)
  then show ?case by (simp add: sort_literals_def sort_map [symmetric] sorted_sort_id)
next
  case (FAnd as)
  have "map (\<lambda>c. print_node c 2) (map normal xs) = map (\<lambda>c. print_node c 2) xs" if "set xs \<subseteq> set as" for xs
    using FAnd that by auto
  from this [of "sort_key (\<lambda>c. print_node c 2) as"]
  have "sort (map (\<lambda>c. print_node c 2) (map normal (sort_key (\<lambda>c. print_node c 2) as))) = sort (map (\<lambda>c. print_node c 2) as)"
    by (simp only: sort_map [symmetric] sorted_sort_id set_sort subset_refl sorted_sort)
  then show ?case by (simp only: normal.simps print_node.simps)
next
  case (FOr as)
  have "map (\<lambda>c. print_node c 1) (map normal xs) = map (\<lambda>c. print_node c 1) xs" if "set xs \<subseteq> set as" for xs
    using FOr that by auto
  from this [of "sort_key (\<lambda>c. print_node c 1) as"]
  have "sort (map (\<lambda>c. print_node c 1) (map normal (sort_key (\<lambda>c. print_node c 1) as))) = sort (map (\<lambda>c. print_node c 1) as)"
    by (simp only: sort_map [symmetric] sorted_sort_id set_sort subset_refl sorted_sort)
  then show ?case by (simp only: normal.simps print_node.simps)
qed simp_all

lemma print_filter_norm: "print_filter \<circ> normal = print_filter"
  by (rule ext) (simp add: print_filter_def print_norm)

lemma structural_eq_norm: "structural_eq a (normal a)"
proof (induction a)
  case (FIn f vs)
  have "mset (map literal_key (sort_literals vs)) = mset (map literal_key vs)" by (simp add: sort_literals_def)
  then show ?case by (simp add: sort_literals_def)
next
  case (FAnd as)
  have "sort (map print_filter (map normal (sort_key (\<lambda>c. print_node c 2) as))) = sort (map print_filter as)"
    by (intro properties_for_sort) (simp_all add: print_filter_norm)
  then show ?case by simp
next
  case (FOr as)
  have "sort (map print_filter (map normal (sort_key (\<lambda>c. print_node c 1) as))) = sort (map print_filter as)"
    by (intro properties_for_sort) (simp_all add: print_filter_norm)
  then show ?case by simp
qed simp_all

lemma precedence_irrelevant:
  "\<not> is_and a \<Longrightarrow> print_node a 2 = print_node a 3" "\<not> is_and a \<Longrightarrow> fits d a 2 = fits d a 3"
  "\<not> is_or a \<Longrightarrow> print_node a 1 = print_node a 2" "\<not> is_or a \<Longrightarrow> fits d a 1 = fits d a 2"
  "print_node a 0 = print_node a 1"
  by (cases a; simp)+

lemma sorted_leaves: "sum_list (map leaves (sort_key k as)) = sum_list (map leaves as)"
proof -
  have "sum_mset (mset (map leaves (sort_key k as))) = sum_mset (mset (map leaves as))" by simp
  then show ?thesis by (simp only: sum_mset_sum_list)
qed

section \<open>Expressions\<close>

text \<open>The first character of a printed tree.\<close>

definition first_ok :: "string \<Rightarrow> bool" where
  "first_ok s \<longleftrightarrow> s \<noteq> [] \<and> hd s \<in> set ''duplcmn(''"

lemma first_ok_append: "first_ok s \<Longrightarrow> first_ok (s @ r)"
  by (simp add: first_ok_def)

lemma first_ok_paren: "first_ok (CHR ''('' # s)" and first_ok_not: "first_ok (CHR ''n'' # s)"
  by (simp_all add: first_ok_def)

lemma field_first_ok: "field_ok f \<Longrightarrow> first_ok f"
  by (auto simp: first_ok_def dest!: field_first)

lemma first_ok_join: "xs \<noteq> [] \<Longrightarrow> \<forall>x\<in>set xs. first_ok x \<Longrightarrow> first_ok (join sep xs)"
  by (cases xs) (simp_all add: join_Cons first_ok_append)

lemma sort_key_Nil_iff [simp]: "sort_key k xs = [] \<longleftrightarrow> xs = []"
  by (metis length_0_conv length_sort)

lemma print_first: "canonical a \<Longrightarrow> first_ok (print_node a p)"
proof (induction a arbitrary: p)
  case (FAnd as)
  then have "as \<noteq> []" "\<forall>x\<in>set as. \<forall>q. first_ok (print_node x q)" by (auto simp: list_all_iff)
  then show ?case by (simp add: first_ok_join first_ok_paren Let_def)
next
  case (FOr as)
  then have "as \<noteq> []" "\<forall>x\<in>set as. \<forall>q. first_ok (print_node x q)" by (auto simp: list_all_iff)
  then show ?case by (simp add: first_ok_join first_ok_paren Let_def)
qed (simp_all add: first_ok_append field_first_ok first_ok_not)

lemma skip_ws_first: "first_ok s \<Longrightarrow> skip_ws s = s"
  by (cases s) (auto simp: first_ok_def is_blank_def skip_ws_text)

lemma skip_ws_print: "canonical a \<Longrightarrow> skip_ws (print_node a p @ r) = print_node a p @ r"
  by (simp add: skip_ws_first first_ok_append print_first)

text \<open>What each parser function returns on the text of a tree, whatever follows it.\<close>

definition reads_not :: "filter_node \<Rightarrow> bool" where
  "reads_not a \<longleftrightarrow> (\<forall>f d n s r. skip_ws s = print_node a 3 @ r \<longrightarrow> delim r \<longrightarrow> fits d a 3 \<longrightarrow> n + leaves a \<le> 1024
     \<longrightarrow> 6 * length s + 3 \<le> f \<longrightarrow> not_expr f d n s = Inr (normal a, r, n + leaves a))"

definition reads_and :: "filter_node \<Rightarrow> bool" where
  "reads_and a \<longleftrightarrow> (\<forall>f d n s r. skip_ws s = print_node a 2 @ r \<longrightarrow> delim r \<longrightarrow> match_keyword ''and'' r = None \<longrightarrow> fits d a 2
     \<longrightarrow> n + leaves a \<le> 1024 \<longrightarrow> 6 * length s + 4 \<le> f \<longrightarrow> and_expr f d n s = Inr (normal a, r, n + leaves a))"

definition reads_or :: "filter_node \<Rightarrow> bool" where
  "reads_or a \<longleftrightarrow> (\<forall>f d n s r. skip_ws s = print_node a 1 @ r \<longrightarrow> delim r \<longrightarrow> match_keyword ''and'' r = None
     \<longrightarrow> match_keyword ''or'' r = None \<longrightarrow> fits d a 1 \<longrightarrow> n + leaves a \<le> 1024 \<longrightarrow> 6 * length s + 5 \<le> f
     \<longrightarrow> or_expr f d n s = Inr (normal a, r, n + leaves a))"

lemma reads_notD: "reads_not a \<Longrightarrow> skip_ws s = print_node a 3 @ r \<Longrightarrow> delim r \<Longrightarrow> fits d a 3 \<Longrightarrow> n + leaves a \<le> 1024
     \<Longrightarrow> 6 * length s + 3 \<le> f \<Longrightarrow> not_expr f d n s = Inr (normal a, r, n + leaves a)"
  unfolding reads_not_def by blast

lemma reads_andD: "reads_and a \<Longrightarrow> skip_ws s = print_node a 2 @ r \<Longrightarrow> delim r \<Longrightarrow> match_keyword ''and'' r = None \<Longrightarrow> fits d a 2
     \<Longrightarrow> n + leaves a \<le> 1024 \<Longrightarrow> 6 * length s + 4 \<le> f \<Longrightarrow> and_expr f d n s = Inr (normal a, r, n + leaves a)"
  unfolding reads_and_def by blast

lemma reads_orD: "reads_or a \<Longrightarrow> skip_ws s = print_node a 1 @ r \<Longrightarrow> delim r \<Longrightarrow> match_keyword ''and'' r = None
     \<Longrightarrow> match_keyword ''or'' r = None \<Longrightarrow> fits d a 1 \<Longrightarrow> n + leaves a \<le> 1024 \<Longrightarrow> 6 * length s + 5 \<le> f
     \<Longrightarrow> or_expr f d n s = Inr (normal a, r, n + leaves a)"
  unfolding reads_or_def by blast

lemma keyword_facts:
  "\<not> ident_char CHR '' ''" "py_lower ''and'' = ''and''" "py_lower ''or'' = ''or''" "py_lower ''not'' = ''not''"
  "\<not> is_blank CHR ''a''" "\<not> is_blank CHR ''o''" "\<not> is_blank CHR ''n''" "\<not> is_blank CHR ''(''" "\<not> is_blank CHR '')''"
  "lower_char CHR ''o'' = CHR ''o''" "lower_char CHR '')'' = CHR '')''" "lower_char CHR ''('' = CHR ''(''"
  by code_simp+

lemma keyword_and: "match_keyword ''and'' ('' and '' @ u) = Some (CHR '' '' # u)"
  and keyword_or: "match_keyword ''or'' ('' or '' @ u) = Some (CHR '' '' # u)"
  and keyword_and_or: "match_keyword ''and'' ('' or '' @ u) = None"
  and keyword_close: "match_keyword ''and'' (CHR '')'' # u) = None" "match_keyword ''or'' (CHR '')'' # u) = None"
  by (auto intro!: match_keyword_hit match_keyword_miss simp: skip_ws_text keyword_facts)

lemma shorter_input: "skip_ws s = x # t \<Longrightarrow> length t + 1 \<le> length s"
  using length_skip_ws [of s] by simp

lemma reads_and_if_not: "\<not> is_and a \<Longrightarrow> reads_not a \<Longrightarrow> reads_and a"
  unfolding reads_and_def
proof (intro allI impI)
  fix f d n s r
  assume a: "\<not> is_and a" "reads_not a" and s: "skip_ws s = print_node a 2 @ r" and r: "delim r" "match_keyword ''and'' r = None"
    and fit: "fits d a 2" and n: "n + leaves a \<le> 1024" and f: "6 * length s + 4 \<le> f"
  obtain g where g: "f = Suc (Suc g)" using f by (cases f; cases "f - 1") auto
  have "not_expr (Suc g) d n s = Inr (normal a, r, n + leaves a)"
    using a s r fit n f g precedence_irrelevant by (intro reads_notD) simp_all
  with r g show "and_expr f d n s = Inr (normal a, r, n + leaves a)" by simp
qed

lemma reads_or_if_and: "\<not> is_or a \<Longrightarrow> reads_and a \<Longrightarrow> reads_or a"
  unfolding reads_or_def
proof (intro allI impI)
  fix f d n s r
  assume a: "\<not> is_or a" "reads_and a" and s: "skip_ws s = print_node a 1 @ r"
    and r: "delim r" "match_keyword ''and'' r = None" "match_keyword ''or'' r = None"
    and fit: "fits d a 1" and n: "n + leaves a \<le> 1024" and f: "6 * length s + 5 \<le> f"
  obtain g where g: "f = Suc (Suc g)" using f by (cases f; cases "f - 1") auto
  have "and_expr (Suc g) d n s = Inr (normal a, r, n + leaves a)"
    using a s r fit n f g precedence_irrelevant by (intro reads_andD) simp_all
  with r g show "or_expr f d n s = Inr (normal a, r, n + leaves a)" by simp
qed

lemma and_tail_text:
  assumes "\<forall>c\<in>set cs. canonical c \<and> \<not> is_and c \<and> reads_not c \<and> fits d c 2" and "delim r" and "match_keyword ''and'' r = None"
  shows "s = concat (map (\<lambda>c. '' and '' @ print_node c 2) cs) @ r \<Longrightarrow> n + sum_list (map leaves cs) \<le> 1024
    \<Longrightarrow> 6 * length s + 1 \<le> f \<Longrightarrow> and_tail f d n s = Inr (map normal cs, r, n + sum_list (map leaves cs))"
  using assms(1)
proof (induction cs arbitrary: s n f)
  case Nil
  obtain g where "f = Suc g" using Nil.prems(3) by (cases f) auto
  with Nil assms(3) show ?case by simp
next
  case (Cons c cs)
  obtain g where g: "f = Suc g" using Cons.prems(3) by (cases f) auto
  define u where "u = concat (map (\<lambda>c. '' and '' @ print_node c 2) cs) @ r"
  have s: "s = '' and '' @ print_node c 2 @ u" using Cons.prems(1) by (simp add: u_def)
  have c: "canonical c" "reads_not c" "print_node c 2 = print_node c 3" "fits d c 3"
    using Cons.prems(4) precedence_irrelevant(1,2) [of c] by auto
  have "delim u" using assms(2) by (cases cs) (simp_all add: u_def)
  then have 1: "not_expr g d n (CHR '' '' # print_node c 2 @ u) = Inr (normal c, u, n + leaves c)"
    using Cons.prems(2,3) s g c by (intro reads_notD) (simp_all add: skip_ws_print)
  have 2: "and_tail g d (n + leaves c) u = Inr (map normal cs, r, n + leaves c + sum_list (map leaves cs))"
    using Cons.prems(2-4) s g by (intro Cons.IH) (simp_all add: u_def)
  have "match_keyword ''and'' s = Some (CHR '' '' # print_node c 2 @ u)" unfolding s by (rule keyword_and)
  with 1 2 g show ?case by (simp add: add.assoc)
qed

lemma or_tail_text:
  assumes "\<forall>c\<in>set cs. canonical c \<and> \<not> is_or c \<and> reads_and c \<and> fits d c 1" and "delim r"
    and "match_keyword ''and'' r = None" "match_keyword ''or'' r = None"
  shows "s = concat (map (\<lambda>c. '' or '' @ print_node c 1) cs) @ r \<Longrightarrow> n + sum_list (map leaves cs) \<le> 1024
    \<Longrightarrow> 6 * length s + 1 \<le> f \<Longrightarrow> or_tail f d n s = Inr (map normal cs, r, n + sum_list (map leaves cs))"
  using assms(1)
proof (induction cs arbitrary: s n f)
  case Nil
  obtain g where "f = Suc g" using Nil.prems(3) by (cases f) auto
  with Nil assms(4) show ?case by simp
next
  case (Cons c cs)
  obtain g where g: "f = Suc g" using Cons.prems(3) by (cases f) auto
  define u where "u = concat (map (\<lambda>c. '' or '' @ print_node c 1) cs) @ r"
  have s: "s = '' or '' @ print_node c 1 @ u" using Cons.prems(1) by (simp add: u_def)
  have c: "canonical c" "reads_and c" "print_node c 1 = print_node c 2" "fits d c 2"
    using Cons.prems(4) precedence_irrelevant(3,4) [of c] by auto
  have "delim u" using assms(2) by (cases cs) (simp_all add: u_def)
  moreover have "match_keyword ''and'' u = None"
    using assms(3) keyword_and_or by (cases cs) (simp_all add: u_def)
  ultimately have 1: "and_expr g d n (CHR '' '' # print_node c 1 @ u) = Inr (normal c, u, n + leaves c)"
    using Cons.prems(2,3) s g c by (intro reads_andD) (simp_all add: skip_ws_print)
  have 2: "or_tail g d (n + leaves c) u = Inr (map normal cs, r, n + leaves c + sum_list (map leaves cs))"
    using Cons.prems(2-4) s g by (intro Cons.IH) (simp_all add: u_def)
  have "match_keyword ''or'' s = Some (CHR '' '' # print_node c 1 @ u)" unfolding s by (rule keyword_or)
  with 1 2 g show ?case by (simp add: add.assoc)
qed

lemma reads_and_FAnd:
  assumes can: "canonical (FAnd as)" and kids: "\<forall>a\<in>set as. reads_not a"
  shows "reads_and (FAnd as)"
  unfolding reads_and_def
proof (intro allI impI)
  fix f d n s r
  assume s: "skip_ws s = print_node (FAnd as) 2 @ r" and r: "delim r" "match_keyword ''and'' r = None"
    and fit: "fits d (FAnd as) 2" and n: "n + leaves (FAnd as) \<le> 1024" and f: "6 * length s + 4 \<le> f"
  obtain c cs where k: "sort_key (\<lambda>c. print_node c 2) as = c # cs" "cs \<noteq> []"
    using can by (cases "sort_key (\<lambda>c. print_node c 2) as"; cases "tl (sort_key (\<lambda>c. print_node c 2) as)")
      (auto dest: arg_cong [of _ _ length])
  have "set as = insert c (set cs)" using k by (metis list.simps(15) set_sort)
  with can kids fit have each: "\<forall>a\<in>insert c (set cs). canonical a \<and> \<not> is_and a \<and> reads_not a \<and> fits d a 2"
    by (auto simp: list_all_iff)
  have sum: "leaves (FAnd as) = leaves c + sum_list (map leaves cs)"
    using sorted_leaves [of "\<lambda>c. print_node c 2" as] k by simp
  define u where "u = concat (map (\<lambda>c. '' and '' @ print_node c 2) cs) @ r"
  have input: "skip_ws s = print_node c 2 @ u"
    using s k by (simp add: sort_map join_Cons u_def comp_def)
  obtain g where g: "f = Suc g" using f by (cases f) auto
  have u: "length u + 1 \<le> length s"
    using input print_first [of c 2] each length_skip_ws [of s] by (cases "print_node c 2") (auto simp: first_ok_def)
  have "delim u" using k by (cases cs) (simp_all add: u_def)
  then have 1: "not_expr g d n s = Inr (normal c, u, n + leaves c)"
    using each precedence_irrelevant(1,2) [of c] input n f g sum by (intro reads_notD) simp_all
  have 2: "and_tail g d (n + leaves c) u = Inr (map normal cs, r, n + leaves c + sum_list (map leaves cs))"
    using each r n f g sum u by (intro and_tail_text) (simp_all add: u_def)
  show "and_expr f d n s = Inr (normal (FAnd as), r, n + leaves (FAnd as))"
    using 1 2 g k sum by (simp add: add.assoc)
qed

lemma reads_or_FOr:
  assumes can: "canonical (FOr as)" and kids: "\<forall>a\<in>set as. reads_and a"
  shows "reads_or (FOr as)"
  unfolding reads_or_def
proof (intro allI impI)
  fix f d n s r
  assume s: "skip_ws s = print_node (FOr as) 1 @ r" and r: "delim r" "match_keyword ''and'' r = None" "match_keyword ''or'' r = None"
    and fit: "fits d (FOr as) 1" and n: "n + leaves (FOr as) \<le> 1024" and f: "6 * length s + 5 \<le> f"
  obtain c cs where k: "sort_key (\<lambda>c. print_node c 1) as = c # cs" "cs \<noteq> []"
    using can by (cases "sort_key (\<lambda>c. print_node c 1) as"; cases "tl (sort_key (\<lambda>c. print_node c 1) as)")
      (auto dest: arg_cong [of _ _ length])
  have "set as = insert c (set cs)" using k by (metis list.simps(15) set_sort)
  with can kids fit have each: "\<forall>a\<in>insert c (set cs). canonical a \<and> \<not> is_or a \<and> reads_and a \<and> fits d a 1"
    by (auto simp: list_all_iff)
  have sum: "leaves (FOr as) = leaves c + sum_list (map leaves cs)"
    using sorted_leaves [of "\<lambda>c. print_node c 1" as] k by simp
  define u where "u = concat (map (\<lambda>c. '' or '' @ print_node c 1) cs) @ r"
  have input: "skip_ws s = print_node c 1 @ u"
    using s k by (simp add: sort_map join_Cons u_def comp_def)
  obtain g where g: "f = Suc g" using f by (cases f) auto
  have u: "length u + 1 \<le> length s"
    using input print_first [of c 1] each length_skip_ws [of s] by (cases "print_node c 1") (auto simp: first_ok_def)
  have "delim u" "match_keyword ''and'' u = None" using k keyword_and_or by (cases cs; simp add: u_def)+
  then have 1: "and_expr g d n s = Inr (normal c, u, n + leaves c)"
    using each precedence_irrelevant(3,4) [of c] input n f g sum by (intro reads_andD) simp_all
  have 2: "or_tail g d (n + leaves c) u = Inr (map normal cs, r, n + leaves c + sum_list (map leaves cs))"
    using each r n f g sum u by (intro or_tail_text) (simp_all add: u_def)
  show "or_expr f d n s = Inr (normal (FOr as), r, n + leaves (FOr as))"
    using 1 2 g k sum by (simp add: add.assoc)
qed

lemma not_expr_plain:
  assumes "first_ok t" and "hd t \<noteq> CHR ''n''" and "skip_ws s = t"
  shows "not_expr (Suc f) d n s = parse_primary f d n t"
proof -
  obtain c u where t: "t = c # u" "c \<in> set ''duplcm('' " using assms(1,2) by (cases t) (auto simp: first_ok_def)
  have "lower_char c = c" using t(2) lower_printed(1) [of c] keyword_facts by auto
  moreover have "c \<noteq> CHR ''n''" using assms(2) t(1) by simp
  ultimately have "match_keyword ''not'' s = None"
    using assms(3) t(1) by (intro match_keyword_miss [of s c u]) simp_all
  with assms(3) show ?thesis by simp
qed

lemma reads_not_paren:
  assumes or: "reads_or a" and a: "canonical a" "is_and a \<or> is_or a"
  shows "reads_not a"
  unfolding reads_not_def
proof (intro allI impI)
  fix f d n s r
  assume s: "skip_ws s = print_node a 3 @ r" and "delim r" and fit: "fits d a 3"
    and n: "n + leaves a \<le> 1024" and f: "6 * length s + 3 \<le> f"
  define t where "t = print_node a 1 @ CHR '')'' # r"
  have s': "skip_ws s = CHR ''('' # t" and d: "Suc d \<le> 32" "fits (Suc d) a 1"
    using s fit a(2) by (cases a; simp add: t_def Let_def)+
  obtain g where g: "f = Suc (Suc (Suc g))" using f shorter_input [OF s'] by (cases f; cases "f - 1"; cases "f - 2") auto
  have "length t + 1 \<le> length s" by (rule shorter_input [OF s'])
  then have 1: "or_expr g (Suc d) n t = Inr (normal a, CHR '')'' # r, n + leaves a)"
    using d n f g a by (intro reads_orD [OF or]) (simp_all add: t_def skip_ws_print keyword_close)
  have "\<not> max_nesting_depth < Suc d" using d by (simp add: max_nesting_depth_def)
  with 1 have 2: "parse_expr (Suc g) d n t = Inr (normal a, CHR '')'' # r, n + leaves a)"
    by (simp only: parse_expr.simps if_False)
  have "expect_char CHR '')'' (CHR '')'' # r) = Inr r" by (rule expect_char_hit) (simp add: skip_ws_text keyword_facts)
  with 2 have "parse_primary (Suc (Suc g)) d n (CHR ''('' # t) = Inr (normal a, r, n + leaves a)"
    by (simp add: skip_ws_text keyword_facts del: parse_expr.simps)
  moreover have "not_expr f d n s = parse_primary (Suc (Suc g)) d n (CHR ''('' # t)"
    unfolding g by (rule not_expr_plain) (simp_all add: s' first_ok_paren)
  ultimately show "not_expr f d n s = Inr (normal a, r, n + leaves a)" by simp
qed

lemma reads_not_leaf:
  assumes "\<And>n t r. delim r \<Longrightarrow> n < 1024 \<Longrightarrow> skip_ws t = print_node a 3 @ r \<Longrightarrow> parse_comparison n t = Inr (normal a, r, Suc n)"
    and "leaves a = 1" and g: "field_ok g" "\<exists>u. print_node a 3 = g @ u"
  shows "reads_not a"
  unfolding reads_not_def
proof (intro allI impI)
  fix f d n s r
  assume s: "skip_ws s = print_node a 3 @ r" and r: "delim r" and "fits d a 3"
    and n: "n + leaves a \<le> 1024" and f: "6 * length s + 3 \<le> f"
  obtain h where h: "f = Suc (Suc h)" using f by (cases f; cases "f - 1") auto
  obtain c t where c: "print_node a 3 @ r = c # t" "c \<in> set ''duplcm''"
    using g field_first [OF g(1)] by auto
  have "not_expr f d n s = parse_primary (Suc h) d n (c # t)"
    unfolding h using c s by (intro not_expr_plain) (auto simp: first_ok_def)
  also have "\<dots> = parse_comparison n (c # t)"
    using lower_printed(2,4) [OF c(2)] by (simp add: skip_ws_text)
  also have "\<dots> = Inr (normal a, r, Suc n)"
    using lower_printed(2) [OF c(2)] c n assms(2) by (intro assms(1) r) (simp_all add: skip_ws_text)
  finally show "not_expr f d n s = Inr (normal a, r, n + leaves a)" using assms(2) by simp
qed

lemma reads_not_FNot:
  assumes "canonical a" and "reads_not a"
  shows "reads_not (FNot a)"
  unfolding reads_not_def
proof (intro allI impI)
fix f d n s r
assume s: "skip_ws s = print_node (FNot a) 3 @ r" and r: "delim r" and fit: "fits d (FNot a) 3"
  and n: "n + leaves (FNot a) \<le> 1024" and f: "6 * length s + 3 \<le> f"
obtain g where g: "f = Suc g" using f by (cases f) auto
define u where "u = CHR '' '' # print_node a 3 @ r"
have k: "match_keyword ''not'' s = Some u"
  by (rule match_keyword_hit) (simp_all add: s u_def keyword_facts)
have "length u + 3 \<le> length s" using match_keyword_shorter [OF k] by simp
then have "not_expr g d n u = Inr (normal a, r, n + leaves a)"
  using assms r fit n f g by (intro reads_notD) (simp_all add: u_def skip_ws_print)
with k g show "not_expr f d n s = Inr (normal (FNot a), r, n + leaves (FNot a))" by simp
qed

lemma reads_all: "canonical a \<Longrightarrow> reads_not a \<and> reads_and a \<and> reads_or a"
proof (induction a)
  case (FEq f v)
  have "reads_not (FEq f v)"
    using FEq leaf_text [of f "''=''" v]
    by (intro reads_not_leaf [of _ f]) simp_all
  then show ?case by (simp add: reads_and_if_not reads_or_if_and)
next
  case (FNe f v)
  have "reads_not (FNe f v)"
    using FNe leaf_text [of f "''!=''" v]
    by (intro reads_not_leaf [of _ f]) simp_all
  then show ?case by (simp add: reads_and_if_not reads_or_if_and)
next
  case (FIn f vs)
  have "reads_not (FIn f vs)"
  proof (rule reads_not_leaf [of _ f])
    fix n t r
    assume "n < (1024 :: nat)" and "skip_ws t = print_node (FIn f vs) 3 @ r"
    with FIn show "parse_comparison n t = Inr (normal (FIn f vs), r, Suc n)"
      by (simp add: in_text sort_literals_def list_all_iff)
  qed (use FIn in simp_all)
  then show ?case by (simp add: reads_and_if_not reads_or_if_and)
next
  case (FRange f op v)
  have op: "op \<in> {''='', ''!='', ''lt'', ''le'', ''gt'', ''ge''}" "op \<noteq> ''=''" "op \<noteq> ''!=''" using FRange by auto
  have "reads_not (FRange f op v)"
  proof (rule reads_not_leaf [of _ f])
    fix n t r
    assume "delim r" "n < (1024 :: nat)" and "skip_ws t = print_node (FRange f op v) 3 @ r"
    with leaf_text [of f op v t r n] FRange op show "parse_comparison n t = Inr (normal (FRange f op v), r, Suc n)"
      by simp
  qed (use FRange in simp_all)
  then show ?case by (simp add: reads_and_if_not reads_or_if_and)
next
  case (FNot a)
  then have "reads_not (FNot a)" by (intro reads_not_FNot) simp_all
  then show ?case by (simp add: reads_and_if_not reads_or_if_and)
next
  case (FAnd as)
  then have "reads_and (FAnd as)" by (intro reads_and_FAnd) (auto simp: list_all_iff)
  moreover then have "reads_or (FAnd as)" by (intro reads_or_if_and) simp_all
  moreover then have "reads_not (FAnd as)" using FAnd.prems by (intro reads_not_paren) simp_all
  ultimately show ?case by blast
next
  case (FOr as)
  then have "reads_or (FOr as)" by (intro reads_or_FOr) (auto simp: list_all_iff)
  moreover then have "reads_not (FOr as)" using FOr.prems by (intro reads_not_paren) simp_all
  moreover then have "reads_and (FOr as)" by (intro reads_and_if_not) simp_all
  ultimately show ?case by blast
qed

section \<open>Properties\<close>

text \<open>
  C16. Printing and parsing back gives an equivalent filter: for every canonical tree within the parser's
  limits, the printed text is accepted, the tree read has the operands and set members in the printed
  order, is structurally equivalent to the original, and prints to the same text.
\<close>

theorem print_parse_roundtrip:
  assumes "canonical a" and "fits 1 a 0" and "leaves a \<le> 1024" and "length (print_filter a) \<le> 16384"
  shows "parse (print_filter a) = Inr (normal a) \<and> structural_eq a (normal a) \<and> print_filter (normal a) = print_filter a"
proof -
  define s where "s = print_filter a"
  have first: "first_ok s" using assms(1) print_first by (simp add: s_def print_filter_def)
  have "\<not> py_isspace c" if "c \<in> set ''duplcmn(''" for c
    using that by (auto simp: py_isspace_def cp_def)
  with first have ne: "\<not> (s = [] \<or> list_all py_isspace s)" by (cases s) (simp_all add: first_ok_def)
  have text1: "skip_ws s = print_node a 1 @ []"
    using first precedence_irrelevant(5) [of a] by (simp add: skip_ws_first s_def print_filter_def)
  have "fits 1 a 1" using assms(2) by (cases a) simp_all
  moreover have "reads_or a" using reads_all assms(1) by blast
  moreover define k where "k = 6 * length s + 5"
  ultimately have "or_expr k 1 0 s = Inr (normal a, [], leaves a)"
    using reads_orD [of a s "[]" 1 0 k] text1 assms(3) match_keyword_end by simp
  moreover have "parse_fuel s = Suc k" by (simp add: parse_fuel_def k_def)
  ultimately have "parse_raw s = Inr (normal a, [], leaves a)"
    by (simp add: parse_raw_def max_nesting_depth_def)
  then have "parse s = Inr (normal a)"
    using parse_within [OF ne] assms(4) by (simp add: s_def)
  then show ?thesis
    by (simp add: s_def structural_eq_norm print_filter_def print_norm)
qed

definition sample_filter :: filter_node where
  "sample_filter = FAnd [FOr [FEq ''language'' (StrLit ''fr''), FIn ''domain'' [StrLit ''b'', StrLit ''a'']],
     FNot (FRange ''published_at'' ''ge'' (TsLit ''2024-01-31T10:00:00Z'')), FNe ''metadata.rank'' (NumLit 7)]"

lemma sample_fields: "field_ok ''language'' \<and> field_ok ''domain'' \<and> field_ok ''published_at'' \<and> field_ok ''metadata.rank''"
proof -
  have "parse_field ''language'' = Inr (''language'', [])" "parse_field ''domain'' = Inr (''domain'', [])"
    "parse_field ''published_at'' = Inr (''published_at'', [])" "parse_field ''metadata.rank'' = Inr (''metadata.rank'', [])"
    by code_simp+
  then show ?thesis using parse_field_ok by blast
qed

theorem print_parse_roundtrip_witness:
  "parse (print_filter sample_filter) = Inr (normal sample_filter) \<and> structural_eq sample_filter (normal sample_filter)
   \<and> print_filter (normal sample_filter) = print_filter sample_filter"
proof (rule print_parse_roundtrip)
  have "ts_rest ''2024-01-31T10:00:00Z'' = Some []" by code_simp
  then show "canonical sample_filter"
    using sample_fields by (simp add: sample_filter_def is_integral_def)
  show "fits 1 sample_filter 0" by code_simp
  show "leaves sample_filter \<le> 1024" by (simp add: sample_filter_def)
  have "length (print_filter sample_filter) < 200" by code_simp
  then show "length (print_filter sample_filter) \<le> 16384" by simp
qed

lemma parse_one_comparison:
  assumes "parse_comparison 0 s = Inr (a, [], Suc 0)" and "first_ok s" and "hd s \<noteq> CHR ''n''" "hd s \<noteq> CHR ''(''"
    and "length s \<le> 16384"
  shows "parse s = Inr a"
proof -
  obtain c t where s: "s = c # t" "c \<in> set ''duplcmn(''" using assms(2) by (cases s) (auto simp: first_ok_def)
  have "\<not> py_isspace c" using s(2) by (auto simp: py_isspace_def cp_def)
  then have ne: "\<not> (s = [] \<or> list_all py_isspace s)" using s(1) by simp
  have blank: "skip_ws s = s" by (rule skip_ws_first) (rule assms(2))
  define k where "k = 6 * length s"
  have fuel: "parse_fuel s = Suc (Suc (Suc (Suc (Suc (Suc k)))))" by (simp add: parse_fuel_def k_def)
  have p: "parse_primary (Suc (Suc k)) 1 0 s = Inr (a, [], Suc 0)"
    using blank s(1) assms(1,4) by simp
  have "not_expr (Suc (Suc (Suc k))) 1 0 s = Inr (a, [], Suc 0)"
    using not_expr_plain [OF assms(2,3) blank] p by simp
  then have "parse_raw s = Inr (a, [], Suc 0)"
    by (simp add: parse_raw_def fuel max_nesting_depth_def match_keyword_end del: not_expr.simps)
  with parse_within [OF ne] assms(5) show ?thesis by simp
qed

lemma sample_number_print: "print_literal (NumLit (1000001 / 1000000)) = ''1''"
proof -
  have "\<not> is_integral (1000001 / 1000000)"
  proof -
    have "\<lfloor>1000001 / 1000000 :: rat\<rfloor> = 1" by (rule floor_unique) simp_all
    then show ?thesis by (simp add: is_integral_def)
  qed
  moreover have "decimal_exponent 400 (1000001 / 1000000) = 0"
  proof -
    have "(400 :: nat) = Suc 399" by simp
    then show ?thesis by (simp only: decimal_exponent.simps) simp
  qed
  moreover have "round_half_even (1000001 / 10) = 100000"
  proof -
    have "\<lfloor>1000001 / 10 :: rat\<rfloor> = 100000" by (rule floor_unique) simp_all
    then show ?thesis by (simp add: round_half_even_def)
  qed
  moreover have "str_int 100000 = ''100000''"
  proof -
    have "digit_char 0 = CHR ''0''" "digit_char 1 = CHR ''1''" by code_simp+
    then show ?thesis by (simp add: str_int_def str_nat.simps)
  qed
  ultimately show ?thesis
    by (simp add: print_literal_def format_g_def format_g_pos_def pow10_def pad_left_def with_fraction_def strip_zeros_def)
qed

lemma sample_number_read: "parse_value '' 1.000001'' = Inr (NumLit (1000001 / 1000000), [])"
proof -
  have parts: "skip_ws '' 1.000001'' = ''1.000001''" "ts_rest ''1.000001'' = None" "starts_with ''1.000001'' ''-'' = False"
    "dropWhile py_isdigit ''1.000001'' = ''.000001''" "takeWhile py_isdigit ''1.000001'' = ''1''"
    "number_fraction ''.000001'' = Inr (''000001'', [])" "number_exponent [] = Inr ((False, ''0''), [])"
    "py_isdigit CHR ''1''" "list_all ascii_digit ''10000010''" "CHR ''1'' \<noteq> quote_char" by code_simp+
  have "decimal_value False ''1'' ''000001'' False ''0'' = 1000001 / 1000000"
    by (simp add: decimal_value_def nat_of_digits_def digit_val_def cp_def pow10_def)
  with parts show ?thesis by (simp add: parse_value_def parse_number_or_timestamp_def parse_number_def Let_def)
qed

text \<open>
  Outside that fragment the round trip fails on filters the parser itself produced: parentheses of a
  conjunction inside a conjunction are not printed, so it comes back flattened and is no longer
  equivalent; and a number of more than six significant digits comes back as another number.
\<close>

theorem roundtrip_failures:
  "(\<exists>s a b. parse s = Inr a \<and> parse (print_filter a) = Inr b \<and> is_and a \<and> \<not> structural_eq a b)
   \<and> (\<exists>s f x y. parse s = Inr (FEq f (NumLit x)) \<and> parse (print_filter (FEq f (NumLit x))) = Inr (FEq f (NumLit y))
        \<and> \<not> structural_eq (FEq f (NumLit x)) (FEq f (NumLit y)))"
proof
  define eq where "eq n = FEq ''category'' (NumLit n)" for n
  have p: "parse ''(category=1 and category=2) and category=3'' = Inr (FAnd [FAnd [eq 1, eq 2], eq 3])"
    unfolding eq_def by (subst parse_within) (code_simp, simp, code_simp)
  have t: "print_filter (FAnd [FAnd [eq 1, eq 2], eq 3]) = ''category = 1 and category = 2 and category = 3''"
    unfolding eq_def by code_simp
  have q: "parse ''category = 1 and category = 2 and category = 3'' = Inr (FAnd [eq 1, eq 2, eq 3])"
    unfolding eq_def by (subst parse_within) (code_simp, simp, code_simp)
  have "\<not> structural_eq (FAnd [FAnd [eq 1, eq 2], eq 3]) (FAnd [eq 1, eq 2, eq 3])" by simp
  with p t q show "\<exists>s a b. parse s = Inr a \<and> parse (print_filter a) = Inr b \<and> is_and a \<and> \<not> structural_eq a b"
    by (metis is_and.simps(1))
next
  define x y :: rat where "x = 1000001 / 1000000" and "y = 1"
  have field: "field_ok ''category''"
  proof -
    have "parse_field ''category'' = Inr (''category'', [])" by code_simp
    then show ?thesis using parse_field_ok by blast
  qed
  have ok: "first_ok (''category = '' @ w)" "skip_ws (''category = '' @ w) = ''category = '' @ w" for w
    by (simp_all add: first_ok_def skip_ws_text is_blank_def)
  have one: "parse_value '' 1'' = Inr (NumLit y, [])" unfolding y_def by code_simp
  have "parse_comparison 0 ''category = 1.000001'' = Inr (FEq ''category'' (NumLit x), [], Suc 0)"
    using comparison_text [OF field, of "''=''" "''1.000001''"] sample_number_read ok(2) [of "''1.000001''"] by (simp add: x_def)
  then have p: "parse ''category = 1.000001'' = Inr (FEq ''category'' (NumLit x))"
    using ok(1) [of "''1.000001''"] by (intro parse_one_comparison) simp_all
  have t: "print_filter (FEq ''category'' (NumLit x)) = ''category = 1''"
    using sample_number_print by (simp add: print_filter_def x_def)
  have "parse_comparison 0 ''category = 1'' = Inr (FEq ''category'' (NumLit y), [], Suc 0)"
    using comparison_text [OF field, of "''=''" "''1''"] one ok(2) [of "''1''"] by simp
  then have q: "parse ''category = 1'' = Inr (FEq ''category'' (NumLit y))"
    using ok(1) [of "''1''"] by (intro parse_one_comparison) simp_all
  have "\<not> structural_eq (FEq ''category'' (NumLit x)) (FEq ''category'' (NumLit y))" by (simp add: x_def y_def)
  with p q show "\<exists>s f x y. parse s = Inr (FEq f (NumLit x)) \<and> parse (print_filter (FEq f (NumLit x))) = Inr (FEq f (NumLit y))
        \<and> \<not> structural_eq (FEq f (NumLit x)) (FEq f (NumLit y))"
    using t by (intro exI [of _ "''category = 1.000001''"] exI [of _ "''category''"] exI [of _ x] exI [of _ y]) simp
qed

end
