(* ===== verification/Robots.thy ===== *)
theory Robots
  imports PyStr
begin

text \<open>
  Parsing and matching of robots.txt: \<open>_parse_robots_txt\<close>, \<open>_check_rules\<close>, \<open>_path_matches\<close> and
  \<open>_wildcard_match\<close> of \<open>backend/crawler/robots.py\<close>, with \<open>RobotsResult\<close> of \<open>backend/crawler/models.py\<close>.

  The reference semantics of a pattern is \<open>glob\<close>: a star stands for any text, other characters for
  themselves, and a pattern need match a prefix only unless it is anchored.  The section on documents
  relates the text of a file to the decision taken on a path.
\<close>

section \<open>Floating-point values of directives\<close>

text \<open>\<open>float(text)\<close>; finite values are exact rationals.\<close>

datatype py_float = Fin rat | PosInf | NegInf | NaN

definition float_gt :: "py_float \<Rightarrow> py_float \<Rightarrow> bool" where
  "float_gt a b =
     (case (a, b) of
        (Fin x, Fin y) \<Rightarrow> x > y
      | (PosInf, Fin _) \<Rightarrow> True | (PosInf, NegInf) \<Rightarrow> True | (Fin _, NegInf) \<Rightarrow> True
      | _ \<Rightarrow> False)"

text \<open>\<open>max(a, b)\<close> keeps \<open>a\<close> unless \<open>b > a\<close>.\<close>

definition float_max :: "py_float \<Rightarrow> py_float \<Rightarrow> py_float" where
  "float_max a b = (if float_gt b a then b else a)"

text \<open>Digits with single underscores between them; the digits read and the rest.\<close>

fun digit_run :: "bool \<Rightarrow> string \<Rightarrow> string \<times> string" where
  "digit_run after [] = ([], [])"
| "digit_run after (c # s) =
     (if ascii_digit c then (case digit_run True s of (ds, r) \<Rightarrow> (c # ds, r))
      else if c = CHR ''_'' \<and> after \<and> s \<noteq> [] \<and> ascii_digit (hd s) then digit_run False s
      else ([], c # s))"

definition float_exponent :: "string \<Rightarrow> int option" where
  "float_exponent s =
     (if s = [] then Some 0
      else if hd s \<noteq> CHR ''e'' then None
      else (let t = tl s; neg = starts_with t ''-'';
                u = (if neg \<or> starts_with t ''+'' then drop 1 t else t) in
        case digit_run False u of
          (ds, r) \<Rightarrow> if ds = [] \<or> r \<noteq> [] then None
                     else Some (if neg then - int (nat_of_digits ds) else int (nat_of_digits ds))))"

definition float_number :: "string \<Rightarrow> rat option" where
  "float_number s =
     (case digit_run False s of
        (ws, r) \<Rightarrow>
          (case (if starts_with r ''.'' then digit_run False (drop 1 r) else ([], r)) of
             (fs, r') \<Rightarrow>
               if ws = [] \<and> fs = [] then None
               else map_option (\<lambda>e. rat_of_nat (nat_of_digits (ws @ fs)) / 10 ^ length fs
                                     * (if e \<ge> 0 then 10 ^ nat e else 1 / 10 ^ nat (- e)))
                      (float_exponent r')))"

definition float_of_string :: "string \<Rightarrow> py_float option" where
  "float_of_string text =
     (let s = py_lower (py_strip text); neg = starts_with s ''-'';
          t = (if neg \<or> starts_with s ''+'' then drop 1 s else s)
      in if t = ''inf'' \<or> t = ''infinity'' then Some (if neg then NegInf else PosInf)
         else if t = ''nan'' then Some NaN
         else map_option (\<lambda>x. Fin (if neg then - x else x)) (float_number t))"

section \<open>Lines and directives\<close>

definition line_break :: "char \<Rightarrow> bool" where
  "line_break c = (let n = cp c in (10 \<le> n \<and> n \<le> 13) \<or> (28 \<le> n \<and> n \<le> 30) \<or> n = 133)"

text \<open>\<open>text.splitlines()\<close>; the accumulator is the current line, reversed.\<close>

fun split_lines :: "string \<Rightarrow> string \<Rightarrow> string list" where
  "split_lines acc [] = (if acc = [] then [] else [rev acc])"
| "split_lines acc (c # s) =
     (if c = CHR 0x0D \<and> s \<noteq> [] \<and> hd s = CHR 0x0A then split_lines acc s
      else if line_break c then rev acc # split_lines [] s
      else split_lines (c # acc) s)"

text \<open>The directive and value of a line; \<open>None\<close> for a line that is skipped.\<close>

definition parse_line :: "string \<Rightarrow> (string \<times> string) option" where
  "parse_line raw =
     (let line = py_strip (takeWhile (\<lambda>c. c \<noteq> CHR ''#'') raw) in
      if line = [] \<or> CHR '':'' \<notin> set line then None
      else Some (py_lower (py_strip (takeWhile (\<lambda>c. c \<noteq> CHR '':'') line)),
                 py_strip (tl (dropWhile (\<lambda>c. c \<noteq> CHR '':'') line))))"

section \<open>Rules\<close>

type_synonym rule = "string \<times> string list"

record robots_result =
  ro_available :: bool
  ro_rules :: "rule list"
  ro_delay :: "py_float option"
  ro_error :: "string option"

record parse_state =
  rp_rules :: "rule list"
  rp_agents :: "string list"
  rp_disallows :: "string list"
  rp_allows :: "string list"
  rp_delay :: "py_float option"

definition group_rules :: "parse_state \<Rightarrow> rule list" where
  "group_rules st = map (\<lambda>agent. (py_lower agent, rp_disallows st)) (rp_agents st)"

definition default_agents :: "parse_state \<Rightarrow> parse_state" where
  "default_agents st = (if rp_agents st = [] then st\<lparr>rp_agents := [''*'']\<rparr> else st)"

definition robots_step :: "parse_state \<Rightarrow> string \<Rightarrow> parse_state" where
  "robots_step st raw =
     (case parse_line raw of
        None \<Rightarrow> st
      | Some (directive, v) \<Rightarrow>
          if directive = ''user-agent'' then
            (let st' = (if rp_agents st \<noteq> [] \<and> (rp_disallows st \<noteq> [] \<or> rp_allows st \<noteq> [])
                        then st\<lparr>rp_rules := rp_rules st @ group_rules st, rp_disallows := [], rp_allows := [], rp_agents := []\<rparr>
                        else st)
             in st'\<lparr>rp_agents := rp_agents st' @ [v]\<rparr>)
          else if directive = ''disallow'' then
            (let st' = default_agents st in if v \<noteq> [] then st'\<lparr>rp_disallows := rp_disallows st' @ [v]\<rparr> else st')
          else if directive = ''allow'' then
            (let st' = default_agents st in st'\<lparr>rp_allows := rp_allows st' @ [v]\<rparr>)
          else if directive = ''crawl-delay'' then
            (case float_of_string v of Some d \<Rightarrow> st\<lparr>rp_delay := Some d\<rparr> | None \<Rightarrow> st)
          else st)"

definition parse_start :: parse_state where
  "parse_start = \<lparr>rp_rules = [], rp_agents = [], rp_disallows = [], rp_allows = [], rp_delay = None\<rparr>"

definition final_rules :: "parse_state \<Rightarrow> rule list" where
  "final_rules st = rp_rules st @ (if rp_agents st \<noteq> [] \<and> rp_disallows st \<noteq> [] then group_rules st else [])"

definition parse_robots_txt :: "string \<Rightarrow> robots_result" where
  "parse_robots_txt content =
     (let st = foldl robots_step parse_start (split_lines [] content)
      in \<lparr>ro_available = True, ro_rules = final_rules st, ro_delay = rp_delay st, ro_error = None\<rparr>)"

section \<open>Matching\<close>

text \<open>The loop of \<open>_wildcard_match\<close>: index of the part, position, parts left; \<open>None\<close> is a mismatch.\<close>

fun match_parts :: "string \<Rightarrow> bool \<Rightarrow> nat \<Rightarrow> string list \<Rightarrow> nat option" where
  "match_parts path starred pos [] = Some pos"
| "match_parts path starred pos (part # parts) =
     (if part = [] then match_parts path True pos parts
      else (case find_from path part pos of
          None \<Rightarrow> None
        | Some idx \<Rightarrow> if \<not> starred \<and> idx \<noteq> 0 then None
                      else match_parts path True (idx + length part) parts))"

definition wildcard_match :: "string \<Rightarrow> string \<Rightarrow> bool \<Rightarrow> bool" where
  "wildcard_match path pattern anchored =
     (case match_parts path (starts_with pattern ''*'') 0 (split_on CHR ''*'' pattern) of
        None \<Rightarrow> False
      | Some pos \<Rightarrow> if anchored then pos = length path else True)"

definition path_matches :: "string \<Rightarrow> string \<Rightarrow> bool" where
  "path_matches path pattern =
     (if pattern = [] then False
      else if ends_with pattern ''$'' then
        (let base = butlast pattern in
         if CHR ''*'' \<in> set base then wildcard_match path base True else path = base)
      else if CHR ''*'' \<in> set pattern then wildcard_match path pattern False
      else starts_with path pattern)"

definition disallows_for :: "rule list \<Rightarrow> string \<Rightarrow> string list" where
  "disallows_for rules agent = concat (map snd (filter (\<lambda>r. fst r = agent) rules))"

definition check_rules :: "rule list \<Rightarrow> string \<Rightarrow> string \<Rightarrow> bool" where
  "check_rules rules user_agent path =
     (let ua = py_lower user_agent;
          specific = disallows_for rules ua;
          wildcard = (if ua = ''*'' then [] else disallows_for rules ''*'');
          applicable = (if specific \<noteq> [] then specific else wildcard)
      in \<not> list_ex (path_matches path) applicable)"

section \<open>Reference semantics of patterns\<close>

fun glob :: "string \<Rightarrow> bool \<Rightarrow> string \<Rightarrow> bool" where
  "glob [] anchored s = (anchored \<longrightarrow> s = [])"
| "glob (c # p) anchored s =
     (if c = CHR ''*'' then list_ex (\<lambda>k. glob p anchored (drop k s)) [0..<Suc (length s)]
      else s \<noteq> [] \<and> hd s = c \<and> glob p anchored (tl s))"

definition robots_glob :: "string \<Rightarrow> string \<Rightarrow> bool" where
  "robots_glob pattern path =
     (pattern \<noteq> [] \<and> (if ends_with pattern ''$'' then glob (butlast pattern) True path else glob pattern False path))"

lemma glob_star: "glob (CHR ''*'' # p) a s \<longleftrightarrow> (\<exists>k \<le> length s. glob p a (drop k s))"
  by (auto simp: list_ex_iff less_Suc_eq_le simp del: upt_Suc)

declare glob.simps(2) [simp del]

lemma glob_char: "c \<noteq> CHR ''*'' \<Longrightarrow> glob (c # p) a s \<longleftrightarrow> (\<exists>t. s = c # t \<and> glob p a t)"
  by (cases s) (simp_all add: glob.simps(2))

lemma glob_literal: "CHR ''*'' \<notin> set l \<Longrightarrow> glob (l @ p) a s \<longleftrightarrow> (\<exists>t. s = l @ t \<and> glob p a t)"
  by (induction l arbitrary: s) (auto simp: glob_char)

text \<open>What follows a part: nothing, or a star and more parts.\<close>

definition starred_parts :: "string list \<Rightarrow> string" where
  "starred_parts ps = concat (map ((#) CHR ''*'') ps)"

lemma starred_parts_simps [simp]:
  "starred_parts [] = []" "starred_parts (p # ps) = CHR ''*'' # p @ starred_parts ps"
  by (simp_all add: starred_parts_def)

lemma glob_starred_earlier:
  assumes "glob (starred_parts ps) False (drop j s)" and "i \<le> j"
  shows "glob (starred_parts ps) False (drop i s)"
proof (cases ps)
  case (Cons p qs)
  with assms(1) obtain k where "k \<le> length (drop j s)" "glob (p @ starred_parts qs) False (drop k (drop j s))"
    by (auto simp: glob_star)
  with assms(2) have "j - i + k \<le> length (drop i s) \<or> length (drop j s) = 0 \<and> k = 0"
    "glob (p @ starred_parts qs) False (drop (j - i + k) (drop i s))" by (auto simp: add.commute)
  moreover have "drop (length (drop i s)) (drop i s) = drop (j - i + k) (drop i s)" if "length (drop j s) = 0" using that by simp
  ultimately have "\<exists>k' \<le> length (drop i s). glob (p @ starred_parts qs) False (drop k' (drop i s))"
    by (metis order_refl)
  with Cons show ?thesis by (simp add: glob_star)
qed simp

lemma glob_starred_part:
  assumes "CHR ''*'' \<notin> set p"
  shows "glob (starred_parts (p # ps)) a s \<longleftrightarrow>
    (\<exists>k \<le> length s. starts_with (drop k s) p \<and> glob (starred_parts ps) a (drop (k + length p) s))"
proof -
  have "glob (p @ starred_parts ps) a (drop k s) \<longleftrightarrow>
      starts_with (drop k s) p \<and> glob (starred_parts ps) a (drop (k + length p) s)" for k
  proof -
    have d: "drop (k + length p) s = drop (length p) (drop k s)" by (simp add: add.commute)
    show ?thesis unfolding d using assms by (auto simp: glob_literal starts_with_iff simp del: drop_drop)
  qed
  then show ?thesis by (simp add: glob_star)
qed

lemma glob_starred_nil:
  "glob (starred_parts ([] # ps)) False s \<longleftrightarrow> glob (starred_parts ps) False s"
proof
  assume "glob (starred_parts ([] # ps)) False s"
  then obtain k where "glob (starred_parts ps) False (drop k s)" by (auto simp: glob_star)
  from glob_starred_earlier [OF this, of 0] show "glob (starred_parts ps) False s" by simp
next
  assume "glob (starred_parts ps) False s"
  then show "glob (starred_parts ([] # ps)) False s" by (auto simp: glob_star intro: exI [of _ 0])
qed

text \<open>Taking the leftmost occurrence of each part loses nothing when the pattern is not anchored.\<close>

lemma match_parts_glob:
  assumes "\<forall>p\<in>set ps. CHR ''*'' \<notin> set p" and "pos \<le> length path"
  shows "match_parts path True pos ps \<noteq> None \<longleftrightarrow> glob (starred_parts ps) False (drop pos path)"
  using assms
proof (induction ps arbitrary: pos)
  case (Cons p ps)
  show ?case
  proof (cases "p = []")
    case True
    with Cons glob_starred_nil [of ps "drop pos path"] show ?thesis by simp
  next
    case False
    have star: "CHR ''*'' \<notin> set p" using Cons.prems(1) by simp
    show ?thesis
    proof (cases "find_from path p pos")
      case None
      have "\<not> starts_with (drop k (drop pos path)) p" if "k \<le> length (drop pos path)" for k
        using find_from_None [OF None, of "pos + k"] that Cons.prems(2) by (simp add: add.commute)
      then have "\<not> glob (starred_parts (p # ps)) False (drop pos path)"
        unfolding glob_starred_part [OF star] by blast
      with None False show ?thesis by simp
    next
      case (Some i)
      have i: "pos \<le> i" "starts_with (drop i path) p" "i + length p \<le> length path"
        using find_from_Some [OF Some] find_from_bound [OF Some] by simp_all
      have "glob (starred_parts (p # ps)) False (drop pos path) \<longleftrightarrow> glob (starred_parts ps) False (drop (i + length p) path)"
      proof
        assume "glob (starred_parts ps) False (drop (i + length p) path)"
        with i have "i - pos \<le> length (drop pos path) \<and> starts_with (drop (i - pos) (drop pos path)) p
            \<and> glob (starred_parts ps) False (drop (i - pos + length p) (drop pos path))" by simp
        then show "glob (starred_parts (p # ps)) False (drop pos path)"
          unfolding glob_starred_part [OF star] by blast
      next
        assume "glob (starred_parts (p # ps)) False (drop pos path)"
        then obtain k where k: "starts_with (drop (k + pos) path) p" "glob (starred_parts ps) False (drop (k + length p + pos) path)"
          unfolding glob_starred_part [OF star] by auto
        have "i \<le> k + pos"
        proof (rule ccontr)
          assume "\<not> i \<le> k + pos"
          with find_from_first [OF Some, of "k + pos"] k(1) show False by simp
        qed
        with glob_starred_earlier [OF k(2), of "i + length p"] show "glob (starred_parts ps) False (drop (i + length p) path)" by simp
      qed
      with Cons.IH [of "i + length p"] Cons.prems i Some False show ?thesis by simp
    qed
  qed
qed simp

lemma match_parts_anchored:
  assumes "\<forall>p\<in>set ps. CHR ''*'' \<notin> set p" and "pos \<le> length path" and "match_parts path True pos ps = Some (length path)"
  shows "glob (starred_parts ps) True (drop pos path)"
  using assms
proof (induction ps arbitrary: pos)
  case (Cons p ps)
  have star: "CHR ''*'' \<notin> set p" using Cons.prems(1) by simp
  show ?case
  proof (cases "p = []")
    case True
    with Cons have "glob (starred_parts ps) True (drop pos path)" by simp
    with True show ?thesis by (auto simp: glob_star intro: exI [of _ 0])
  next
    case False
    with Cons.prems(3) obtain i where i: "find_from path p pos = Some i" "match_parts path True (i + length p) ps = Some (length path)"
      by (auto split: option.splits)
    have b: "pos \<le> i" "starts_with (drop i path) p" "i + length p \<le> length path"
      using find_from_Some [OF i(1)] find_from_bound [OF i(1)] by simp_all
    have "glob (starred_parts ps) True (drop (i + length p) path)"
      using Cons.IH [of "i + length p"] Cons.prems(1) i(2) b(3) by simp
    with b have "i - pos \<le> length (drop pos path) \<and> starts_with (drop (i - pos) (drop pos path)) p
        \<and> glob (starred_parts ps) True (drop (i - pos + length p) (drop pos path))" by simp
    then show ?thesis unfolding glob_starred_part [OF star] by blast
  qed
qed simp

lemma split_on_free: "p \<in> set (split_on c s) \<Longrightarrow> c \<notin> set p"
  by (induction s arbitrary: p) (auto split: if_splits list.splits)

lemma join_starred: "join ''*'' (p # ps) = p @ starred_parts ps"
  by (induction ps arbitrary: p) simp_all

lemma split_pattern:
  obtains p ps where "split_on CHR ''*'' pattern = p # ps" "pattern = p @ starred_parts ps"
    "\<forall>q\<in>set (p # ps). CHR ''*'' \<notin> set q"
proof (cases "split_on CHR ''*'' pattern")
  case (Cons p ps)
  have "pattern = p @ starred_parts ps" using join_split_on [of "CHR ''*''" pattern] Cons by (simp add: join_starred)
  moreover have "\<forall>q\<in>set (p # ps). CHR ''*'' \<notin> set q" using split_on_free Cons by metis
  ultimately show thesis using Cons that by blast
qed simp

lemma find_from_start: "find_from s p 0 = Some 0 \<longleftrightarrow> starts_with s p"
proof (cases "find_from s p 0")
  case None
  then show ?thesis using find_from_None [of s p 0 0] by simp
next
  case (Some i)
  then show ?thesis using find_from_Some [OF Some] find_from_first [OF Some, of 0] by (cases "i = 0") auto
qed

lemma wildcard_match_unanchored: "wildcard_match path pattern False \<longleftrightarrow> glob pattern False path"
proof -
  obtain p ps where s: "split_on CHR ''*'' pattern = p # ps" "pattern = p @ starred_parts ps"
    "\<forall>q\<in>set (p # ps). CHR ''*'' \<notin> set q" by (rule split_pattern)
  show ?thesis
  proof (cases "p = []")
    case True
    have "match_parts path True 0 ps \<noteq> None \<longleftrightarrow> glob pattern False path"
      using match_parts_glob [of ps 0 path] s True by simp
    moreover have "match_parts path st 0 ([] # ps) = match_parts path True 0 ps" for st by simp
    ultimately show ?thesis using s(1) True by (auto simp: wildcard_match_def split: option.split)
  next
    case False
    then have ns: "starts_with pattern ''*'' = False" using s(2,3) by (cases p) (auto simp: starts_with_def)
    have g: "glob pattern False path \<longleftrightarrow> starts_with path p \<and> glob (starred_parts ps) False (drop (length p) path)"
      using s(2,3) by (auto simp: glob_literal starts_with_iff)
    show ?thesis
    proof (cases "starts_with path p")
      case True
      then have f: "find_from path p 0 = Some 0" by (simp add: find_from_start)
      have "length p \<le> length path" using True by (auto simp: starts_with_iff)
      from match_parts_glob [OF _ this, of ps] s(3) g True f ns s(1) False
      show ?thesis by (auto simp: wildcard_match_def split: option.split)
    next
      case f: False
      then have "find_from path p 0 \<noteq> Some 0" by (simp add: find_from_start)
      with f g ns s(1) False show ?thesis by (simp add: wildcard_match_def split: option.split)
    qed
  qed
qed

lemma wildcard_match_anchored:
  assumes "wildcard_match path pattern True"
  shows "glob pattern True path"
proof -
  obtain p ps where s: "split_on CHR ''*'' pattern = p # ps" "pattern = p @ starred_parts ps"
    "\<forall>q\<in>set (p # ps). CHR ''*'' \<notin> set q" by (rule split_pattern)
  show ?thesis
  proof (cases "p = []")
    case True
    with assms s(1) have "match_parts path True 0 ps = Some (length path)"
      by (simp add: wildcard_match_def split: option.splits)
    with match_parts_anchored [of ps 0 path] s True show ?thesis by simp
  next
    case False
    then have ns: "starts_with pattern ''*'' = False" using s(2,3) by (cases p) (auto simp: starts_with_def)
    with assms s(1) False have f: "find_from path p 0 = Some 0"
      and m: "match_parts path True (length p) ps = Some (length path)"
      by (auto simp: wildcard_match_def split: option.splits if_splits)
    have "starts_with path p" using f by (simp add: find_from_start)
    then obtain t where t: "path = p @ t" by (auto simp: starts_with_iff)
    have "glob (starred_parts ps) True (drop (length p) path)"
      using match_parts_anchored [of ps "length p" path] m s(3) t by simp
    with s(2,3) t show ?thesis by (simp add: glob_literal)
  qed
qed

lemma glob_plain: "CHR ''*'' \<notin> set p \<Longrightarrow> glob p a s \<longleftrightarrow> (\<exists>t. s = p @ t \<and> (a \<longrightarrow> t = []))"
  using glob_literal [of p "[]" a s] by simp

definition anchored_star :: "string \<Rightarrow> bool" where
  "anchored_star pattern \<longleftrightarrow> ends_with pattern ''$'' \<and> CHR ''*'' \<in> set pattern"

lemma ends_with_single: "ends_with s [c] \<longleftrightarrow> s \<noteq> [] \<and> last s = c"
proof (cases s rule: rev_cases)
  case (snoc ys y)
  then show ?thesis by (simp add: ends_with_def)
qed (simp add: ends_with_def)

lemma path_matches_cases:
  "path_matches path pattern \<Longrightarrow> robots_glob pattern path"
  "\<not> anchored_star pattern \<Longrightarrow> path_matches path pattern \<longleftrightarrow> robots_glob pattern path"
proof -
  have star: "CHR ''*'' \<in> set (butlast pattern) \<longleftrightarrow> CHR ''*'' \<in> set pattern" if "ends_with pattern ''$''"
    using that by (cases pattern rule: rev_cases) (auto simp: ends_with_single)
  consider "pattern = []" | "ends_with pattern ''$''" "CHR ''*'' \<in> set pattern"
    | "ends_with pattern ''$''" "CHR ''*'' \<notin> set pattern" | "pattern \<noteq> []" "\<not> ends_with pattern ''$''" by blast
  then have "(path_matches path pattern \<longrightarrow> robots_glob pattern path)
      \<and> (\<not> anchored_star pattern \<longrightarrow> path_matches path pattern = robots_glob pattern path)"
  proof cases
    case 1
    then show ?thesis by (simp add: path_matches_def robots_glob_def)
  next
    case 2
    then have "pattern \<noteq> []" by (auto simp: ends_with_single)
    with 2 star wildcard_match_anchored [of path "butlast pattern"] show ?thesis
      by (simp add: path_matches_def robots_glob_def anchored_star_def)
  next
    case 3
    then have "pattern \<noteq> []" by (auto simp: ends_with_single)
    with 3 star glob_plain [of "butlast pattern" True path] show ?thesis
      by (auto simp: path_matches_def robots_glob_def)
  next
    case 4
    with wildcard_match_unanchored [of path pattern] glob_plain [of pattern False path] show ?thesis
      by (simp add: path_matches_def robots_glob_def starts_with_iff)
  qed
  then show "path_matches path pattern \<Longrightarrow> robots_glob pattern path"
    "\<not> anchored_star pattern \<Longrightarrow> path_matches path pattern \<longleftrightarrow> robots_glob pattern path" by blast+
qed

section \<open>Documents\<close>

text \<open>A well-formed file: groups of one or more agents with one or more disallowed patterns.\<close>

type_synonym group = "string list \<times> string list"

definition text_ok :: "string \<Rightarrow> bool" where
  "text_ok v \<longleftrightarrow> v \<noteq> [] \<and> \<not> py_isspace (hd v) \<and> \<not> py_isspace (last v) \<and> (\<forall>c\<in>set v. c \<noteq> CHR ''#'' \<and> \<not> line_break c)"

definition group_ok :: "group \<Rightarrow> bool" where
  "group_ok g \<longleftrightarrow> fst g \<noteq> [] \<and> snd g \<noteq> [] \<and> list_all text_ok (fst g) \<and> list_all text_ok (snd g)"

definition newline :: char where "newline = CHR 0x0A"

definition directive_line :: "string \<Rightarrow> string \<Rightarrow> string" where
  "directive_line directive v = directive @ '': '' @ v"

definition render_line :: "string \<Rightarrow> string \<Rightarrow> string" where
  "render_line directive v = directive_line directive v @ [newline]"

definition render_group :: "group \<Rightarrow> string" where
  "render_group g = concat (map (render_line ''User-agent'') (fst g)) @ concat (map (render_line ''Disallow'') (snd g))"

definition render :: "group list \<Rightarrow> string" where
  "render gs = concat (map render_group gs)"

definition patterns_for :: "group list \<Rightarrow> string \<Rightarrow> string list" where
  "patterns_for gs agent = concat (map snd (filter (\<lambda>g. agent \<in> set (map py_lower (fst g))) gs))"

definition applicable :: "group list \<Rightarrow> string \<Rightarrow> string list" where
  "applicable gs ua =
     (if patterns_for gs (py_lower ua) \<noteq> [] then patterns_for gs (py_lower ua) else patterns_for gs ''*'')"

lemma robots_lines_line:
  "\<forall>c\<in>set l. \<not> line_break c \<Longrightarrow> split_lines acc (l @ newline # r) = (rev acc @ l) # split_lines [] r"
proof (induction l arbitrary: acc)
  case Nil
  have "line_break newline" "newline \<noteq> CHR 0x0D" by code_simp+
  then show ?case by simp
next
  case (Cons c l)
  have "line_break CHR 0x0D" by code_simp
  with Cons.prems have "c \<noteq> CHR 0x0D" by auto
  with Cons show ?case by simp
qed

lemma py_strip_blank: "v \<noteq> [] \<Longrightarrow> \<not> py_isspace (hd v) \<Longrightarrow> \<not> py_isspace (last v) \<Longrightarrow> py_strip (CHR '' '' # v) = v"
proof -
  have "py_isspace CHR '' ''" by code_simp
  then have "py_strip (CHR '' '' # v) = py_strip v" by (simp add: py_strip_def py_lstrip_def)
  then show "v \<noteq> [] \<Longrightarrow> \<not> py_isspace (hd v) \<Longrightarrow> \<not> py_isspace (last v) \<Longrightarrow> py_strip (CHR '' '' # v) = v"
    by (simp add: py_strip_id)
qed

definition directive_ok :: "string \<Rightarrow> bool" where
  "directive_ok d \<longleftrightarrow> text_ok d \<and> CHR '':'' \<notin> set d"

lemma directives_ok [simp]: "directive_ok ''User-agent''" "directive_ok ''Disallow''"
  by code_simp+

lemma span_char:
  "c \<notin> set d \<Longrightarrow> takeWhile (\<lambda>x. x \<noteq> c) (d @ c # r) = d \<and> dropWhile (\<lambda>x. x \<noteq> c) (d @ c # r) = c # r"
  by (induction d) auto

lemma parse_line_text:
  assumes d: "directive_ok d" and v: "text_ok v"
  shows "parse_line (directive_line d v) = Some (py_lower d, v)"
proof -
  let ?l = "d @ '': '' @ v"
  have hash: "takeWhile (\<lambda>c. c \<noteq> CHR ''#'') ?l = ?l"
    using d v by (simp add: directive_ok_def text_ok_def takeWhile_eq_all_conv)
  have strip: "py_strip ?l = ?l"
    using d v by (intro py_strip_id) (simp_all add: directive_ok_def text_ok_def)
  have colon: "takeWhile (\<lambda>c. c \<noteq> CHR '':'') ?l = d" "dropWhile (\<lambda>c. c \<noteq> CHR '':'') ?l = '': '' @ v"
    using d span_char [of "CHR '':''" d "CHR '' '' # v"] by (simp_all add: directive_ok_def)
  show ?thesis
    using d v py_strip_id [of d] py_strip_blank [of v]
    unfolding parse_line_def directive_line_def Let_def hash strip colon by (simp add: directive_ok_def text_ok_def)
qed

lemma render_line_lines:
  assumes "directive_ok d" and "text_ok v"
  shows "split_lines [] (render_line d v @ r) = directive_line d v # split_lines [] r"
proof -
  have "\<not> line_break CHR '':''" "\<not> line_break CHR '' ''" by code_simp+
  with assms have "\<forall>c\<in>set (d @ '': '' @ v). \<not> line_break c" by (auto simp: directive_ok_def text_ok_def)
  from robots_lines_line [OF this, of "[]" r] show ?thesis by (simp add: render_line_def directive_line_def)
qed

lemma fold_lines:
  assumes "directive_ok d" and "list_all text_ok vs"
  shows "foldl robots_step st (split_lines [] (concat (map (render_line d) vs) @ r))
    = foldl robots_step (foldl (\<lambda>st v. robots_step st (directive_line d v)) st vs) (split_lines [] r)"
  using assms(2) by (induction vs arbitrary: st) (simp_all add: render_line_lines [OF assms(1)])

lemma step_agent:
  assumes "text_ok v"
  shows "robots_step st (directive_line ''User-agent'' v) =
    (let st' = (if rp_agents st \<noteq> [] \<and> (rp_disallows st \<noteq> [] \<or> rp_allows st \<noteq> [])
                then st\<lparr>rp_rules := rp_rules st @ group_rules st, rp_disallows := [], rp_allows := [], rp_agents := []\<rparr>
                else st)
     in st'\<lparr>rp_agents := rp_agents st' @ [v]\<rparr>)"
proof -
  have "py_lower ''User-agent'' = ''user-agent''" by code_simp
  with parse_line_text [OF directives_ok(1) assms] show ?thesis by (simp add: robots_step_def)
qed

lemma step_disallow:
  assumes "text_ok v" and "rp_agents st \<noteq> []"
  shows "robots_step st (directive_line ''Disallow'' v) = st\<lparr>rp_disallows := rp_disallows st @ [v]\<rparr>"
proof -
  have "py_lower ''Disallow'' = ''disallow''" by code_simp
  with parse_line_text [OF directives_ok(2) assms(1)] assms show ?thesis
    by (simp add: robots_step_def default_agents_def text_ok_def)
qed

lemma fold_agents:
  assumes "list_all text_ok vs" and "rp_disallows st = [] \<and> rp_allows st = []"
  shows "foldl (\<lambda>st v. robots_step st (directive_line ''User-agent'' v)) st vs = st\<lparr>rp_agents := rp_agents st @ vs\<rparr>"
  using assms by (induction vs arbitrary: st) (simp_all add: step_agent)

lemma fold_disallows:
  assumes "list_all text_ok vs" and "rp_agents st \<noteq> []"
  shows "foldl (\<lambda>st v. robots_step st (directive_line ''Disallow'' v)) st vs = st\<lparr>rp_disallows := rp_disallows st @ vs\<rparr>"
  using assms by (induction vs arbitrary: st) (simp_all add: step_disallow)

text \<open>Between groups: nothing read yet, or the last group complete.\<close>

definition between_groups :: "parse_state \<Rightarrow> bool" where
  "between_groups st \<longleftrightarrow> rp_allows st = [] \<and> (rp_agents st = [] \<longleftrightarrow> rp_disallows st = [])"

lemma fold_group:
  assumes g: "group_ok g" and st: "between_groups st"
  defines "st' \<equiv> foldl (\<lambda>st v. robots_step st (directive_line ''Disallow'' v)) (foldl (\<lambda>st v. robots_step st (directive_line ''User-agent'' v)) st (fst g)) (snd g)"
  shows "between_groups st'" "final_rules st' = final_rules st @ map (\<lambda>a. (py_lower a, snd g)) (fst g)" "rp_delay st' = rp_delay st"
proof -
  obtain a as where as: "fst g = a # as" "text_ok a" "list_all text_ok as"
    using g by (cases "fst g") (auto simp: group_ok_def)
  define st1 where "st1 = robots_step st (directive_line ''User-agent'' a)"
  have s1: "rp_disallows st1 = []" "rp_allows st1 = []" "rp_agents st1 = [a]" "rp_rules st1 = final_rules st" "rp_delay st1 = rp_delay st"
    using st unfolding st1_def step_agent [OF as(2)]
    by (auto simp: between_groups_def final_rules_def Let_def)
  have "foldl (\<lambda>st v. robots_step st (directive_line ''User-agent'' v)) st (fst g) = st1\<lparr>rp_agents := fst g\<rparr>"
    using fold_agents [OF as(3), of st1] s1 by (simp add: as(1) st1_def)
  then have e: "st' = st1\<lparr>rp_agents := fst g, rp_disallows := snd g\<rparr>"
    using g s1 fold_disallows [of "snd g" "st1\<lparr>rp_agents := fst g\<rparr>"] by (simp add: st'_def group_ok_def)
  show "between_groups st'" "final_rules st' = final_rules st @ map (\<lambda>a. (py_lower a, snd g)) (fst g)" "rp_delay st' = rp_delay st"
    using g s1 by (simp_all add: e between_groups_def group_ok_def final_rules_def group_rules_def)
qed

lemma fold_document:
  "list_all group_ok gs \<Longrightarrow> between_groups st \<Longrightarrow>
     final_rules (foldl robots_step st (split_lines [] (render gs)))
       = final_rules st @ concat (map (\<lambda>g. map (\<lambda>a. (py_lower a, snd g)) (fst g)) gs)
     \<and> rp_delay (foldl robots_step st (split_lines [] (render gs))) = rp_delay st"
proof (induction gs arbitrary: st)
  case Nil
  then show ?case by (simp add: render_def)
next
  case (Cons g gs)
  have g: "group_ok g" "list_all text_ok (fst g)" "list_all text_ok (snd g)" using Cons.prems(1) by (simp_all add: group_ok_def)
  define st' where "st' = foldl (\<lambda>st v. robots_step st (directive_line ''Disallow'' v)) (foldl (\<lambda>st v. robots_step st (directive_line ''User-agent'' v)) st (fst g)) (snd g)"
  have "render (g # gs) = concat (map (render_line ''User-agent'') (fst g)) @ concat (map (render_line ''Disallow'') (snd g)) @ render gs"
    by (simp add: render_def render_group_def)
  then have "foldl robots_step st (split_lines [] (render (g # gs))) = foldl robots_step st' (split_lines [] (render gs))"
    using fold_lines [OF directives_ok(1) g(2)] fold_lines [OF directives_ok(2) g(3)] by (simp add: st'_def)
  with Cons.IH [of st'] Cons.prems fold_group [OF g(1) Cons.prems(2)] show ?case by (simp add: st'_def)
qed

lemma parse_rendered:
  assumes "list_all group_ok gs"
  shows "parse_robots_txt (render gs) = \<lparr>ro_available = True,
    ro_rules = concat (map (\<lambda>g. map (\<lambda>a. (py_lower a, snd g)) (fst g)) gs), ro_delay = None, ro_error = None\<rparr>"
proof -
  have "between_groups parse_start" "final_rules parse_start = []" "rp_delay parse_start = None"
    by (simp_all add: between_groups_def parse_start_def final_rules_def)
  with fold_document [OF assms, of parse_start] show ?thesis by (simp add: parse_robots_txt_def)
qed

lemma disallows_rendered:
  "set (disallows_for (concat (map (\<lambda>g. map (\<lambda>a. (py_lower a, snd g)) (fst g)) gs)) ua) = set (patterns_for gs ua)"
  by (auto simp: disallows_for_def patterns_for_def) force+

section \<open>Properties\<close>

lemma check_rendered:
  assumes "list_all group_ok gs"
  shows "check_rules (ro_rules (parse_robots_txt (render gs))) ua path \<longleftrightarrow> \<not> (\<exists>p\<in>set (applicable gs ua). path_matches path p)"
proof -
  let ?rules = "ro_rules (parse_robots_txt (render gs))"
  have d: "set (disallows_for ?rules a) = set (patterns_for gs a)" for a
    by (simp add: parse_rendered [OF assms] disallows_rendered)
  then have n: "disallows_for ?rules a = [] \<longleftrightarrow> patterns_for gs a = []" for a by (metis set_empty)
  show ?thesis
    unfolding check_rules_def Let_def list_ex_iff applicable_def
    using d n by (cases "py_lower ua = ''*''") auto
qed



text \<open>
  Where the decision departs from the reference semantics and from the usual reading of the file: an
  anchored pattern with a star misses a path that it matches (the leftmost occurrence of the last part
  is taken, and nothing may follow a final star); an agent whose group has an empty disallow line is
  merged into the next group; an allow line never permits anything.
\<close>

theorem robots_departures:
  "(robots_glob ''/*.php$'' ''/a.php.php'' \<and> \<not> path_matches ''/a.php.php'' ''/*.php$'')
   \<and> (robots_glob ''/private*$'' ''/private/x'' \<and> \<not> path_matches ''/private/x'' ''/private*$'')
   \<and> \<not> check_rules (ro_rules (parse_robots_txt (render_line ''User-agent'' ''GoodBot'' @ render_line ''Disallow'' ''''
        @ render_line ''User-agent'' ''*'' @ render_line ''Disallow'' ''/''))) ''GoodBot'' ''/page''
   \<and> (\<forall>allows. check_rules (final_rules (st\<lparr>rp_allows := allows\<rparr>)) ua path = check_rules (final_rules st) ua path)"
proof (intro conjI allI)
  show "check_rules (final_rules (st\<lparr>rp_allows := allows\<rparr>)) ua path = check_rules (final_rules st) ua path" for allows
    by (simp add: final_rules_def group_rules_def)
qed code_simp+

end
