(* ===== verification/Throttle.thy ===== *)
theory Throttle
  imports Robots "HOL-Library.Multiset"
begin

text \<open>
  Politeness per host: \<open>HostThrottle\<close> of \<open>backend/crawler/throttle.py\<close>.

  The first part has the class with its methods.  The second is the concurrent behaviour of the tasks
  fetching from one host, as a step relation whose steps are the stretches of code between two awaits:
  waiting for the semaphore, the check under the lock, the end of the sleep, the release.  A task may be
  cancelled at an await.  The semaphore and the lock are those of \<open>asyncio\<close>; which waiting task goes first is
  left open.
\<close>

section \<open>The throttle\<close>

record host_state =
  hs_value :: int
  hs_last :: rat
  hs_delay :: py_float
  hs_locked :: bool

record throttle =
  th_max :: int
  th_default :: py_float
  th_hosts :: "(string, host_state) dict"

definition min_concurrency :: int where "min_concurrency = 1"
definition max_concurrency :: int where "max_concurrency = 8"
definition min_crawl_delay :: py_float where "min_crawl_delay = Fin 1"

definition new_throttle :: "int \<Rightarrow> py_float \<Rightarrow> throttle" where
  "new_throttle concurrency default_delay =
     \<lparr>th_max = max min_concurrency (min concurrency max_concurrency),
      th_default = float_max default_delay min_crawl_delay, th_hosts = []\<rparr>"

definition new_host :: "throttle \<Rightarrow> host_state" where
  "new_host th = \<lparr>hs_value = th_max th, hs_last = 0, hs_delay = th_default th, hs_locked = False\<rparr>"

definition get_host_state :: "throttle \<Rightarrow> string \<Rightarrow> host_state \<times> throttle" where
  "get_host_state th host =
     (case dict_get (th_hosts th) host of
        Some hs \<Rightarrow> (hs, th)
      | None \<Rightarrow> (new_host th, th\<lparr>th_hosts := dict_set host (new_host th) (th_hosts th)\<rparr>))"

definition put_host :: "throttle \<Rightarrow> string \<Rightarrow> host_state \<Rightarrow> throttle" where
  "put_host th host hs = th\<lparr>th_hosts := dict_set host hs (th_hosts th)\<rparr>"

definition with_delay :: "py_float \<Rightarrow> py_float option \<Rightarrow> host_state \<Rightarrow> host_state" where
  "with_delay default_delay d hs = hs\<lparr>hs_delay := (case d of Some x \<Rightarrow> float_max x min_crawl_delay | None \<Rightarrow> default_delay)\<rparr>"

definition set_crawl_delay :: "throttle \<Rightarrow> string \<Rightarrow> py_float option \<Rightarrow> throttle" where
  "set_crawl_delay th host d =
     (case get_host_state th host of (hs, th') \<Rightarrow> put_host th' host (with_delay (th_default th') d hs))"

definition get_crawl_delay :: "throttle \<Rightarrow> string \<Rightarrow> py_float" where
  "get_crawl_delay th host = hs_delay (fst (get_host_state th host))"

text \<open>The delay still to be waited for when the lock is held.\<close>

datatype wait = NoWait | WaitFor rat | WaitForever

definition crawl_wait :: "host_state \<Rightarrow> rat \<Rightarrow> wait" where
  "crawl_wait hs now =
     (if hs_last hs > 0 then
        (case hs_delay hs of
           Fin d \<Rightarrow> (let remaining = d - (now - hs_last hs) in if remaining > 0 then WaitFor remaining else NoWait)
         | PosInf \<Rightarrow> WaitForever
         | _ \<Rightarrow> NoWait)
      else NoWait)"

text \<open>
  \<open>acquire\<close> of a task that meets no other one: the time at which it returns, or \<open>None\<close> when it does not
  (no slot is free, or the delay is infinite).
\<close>

definition acquire :: "throttle \<Rightarrow> string \<Rightarrow> rat \<Rightarrow> (rat \<times> throttle) option" where
  "acquire th host now =
     (case get_host_state th host of (hs, th') \<Rightarrow>
        if hs_value hs \<le> 0 then None
        else (let th'' = put_host th' host (hs\<lparr>hs_value := hs_value hs - 1\<rparr>) in
          case crawl_wait hs now of
            NoWait \<Rightarrow> Some (now, th'')
          | WaitFor r \<Rightarrow> Some (now + r, th'')
          | WaitForever \<Rightarrow> None))"

definition release_host :: "rat \<Rightarrow> host_state \<Rightarrow> host_state" where
  "release_host now hs = hs\<lparr>hs_last := now, hs_value := hs_value hs + 1\<rparr>"

definition release :: "throttle \<Rightarrow> string \<Rightarrow> rat \<Rightarrow> throttle" where
  "release th host now =
     (case get_host_state th host of (hs, th') \<Rightarrow> put_host th' host (release_host now hs))"

definition active_count :: "throttle \<Rightarrow> string \<Rightarrow> int" where
  "active_count th host = th_max th - hs_value (fst (get_host_state th host))"

definition reset_throttle :: "throttle \<Rightarrow> string option \<Rightarrow> throttle" where
  "reset_throttle th host =
     th\<lparr>th_hosts := (case host of Some h \<Rightarrow> dict_del h (th_hosts th) | None \<Rightarrow> [])\<rparr>"

section \<open>Concurrent tasks on one host\<close>

datatype phase = Waiting | HasSlot | Sleeping rat | SleepingForever | InFlight

datatype crawl_event = Started rat | Finished rat

text \<open>The log has the latest event first; \<open>sy_leaked\<close> counts the slots of cancelled tasks.\<close>

record crawl_sys =
  sy_clock :: rat
  sy_host :: host_state
  sy_tasks :: "phase multiset"
  sy_leaked :: nat
  sy_log :: "crawl_event list"

definition start_sys :: "throttle \<Rightarrow> rat \<Rightarrow> crawl_sys" where
  "start_sys th clock = \<lparr>sy_clock = clock, sy_host = new_host th, sy_tasks = {#}, sy_leaked = 0, sy_log = []\<rparr>"

definition move :: "crawl_sys \<Rightarrow> phase \<Rightarrow> phase \<Rightarrow> crawl_sys" where
  "move s p q = s\<lparr>sy_tasks := add_mset q (sy_tasks s - {#p#})\<rparr>"

definition set_host :: "(host_state \<Rightarrow> host_state) \<Rightarrow> crawl_sys \<Rightarrow> crawl_sys" where
  "set_host f s = s\<lparr>sy_host := f (sy_host s)\<rparr>"

definition set_lock :: "bool \<Rightarrow> crawl_sys \<Rightarrow> crawl_sys" where
  "set_lock b = set_host (\<lambda>h. h\<lparr>hs_locked := b\<rparr>)"

definition log_event :: "(rat \<Rightarrow> crawl_event) \<Rightarrow> crawl_sys \<Rightarrow> crawl_sys" where
  "log_event e s = s\<lparr>sy_log := e (sy_clock s) # sy_log s\<rparr>"

definition remove_task :: "crawl_sys \<Rightarrow> phase \<Rightarrow> crawl_sys" where
  "remove_task s p = s\<lparr>sy_tasks := sy_tasks s - {#p#}\<rparr>"

definition leak :: "crawl_sys \<Rightarrow> crawl_sys" where
  "leak s = s\<lparr>sy_leaked := Suc (sy_leaked s)\<rparr>"

text \<open>The steps; \<open>nan\<close> says whether a directive may be the float \<open>nan\<close>.\<close>

inductive crawl_step :: "throttle \<Rightarrow> bool \<Rightarrow> crawl_sys \<Rightarrow> crawl_sys \<Rightarrow> bool" for th nan where
  time: "0 \<le> d \<Longrightarrow> crawl_step th nan s (s\<lparr>sy_clock := sy_clock s + d\<rparr>)"
| directive: "d = Some NaN \<longrightarrow> nan \<Longrightarrow> crawl_step th nan s (set_host (with_delay (th_default th) d) s)"
| arrive: "crawl_step th nan s (s\<lparr>sy_tasks := add_mset Waiting (sy_tasks s)\<rparr>)"
| slot: "Waiting \<in># sy_tasks s \<Longrightarrow> 0 < hs_value (sy_host s) \<Longrightarrow>
    crawl_step th nan s (set_host (\<lambda>h. h\<lparr>hs_value := hs_value h - 1\<rparr>) (move s Waiting HasSlot))"
| go: "HasSlot \<in># sy_tasks s \<Longrightarrow> \<not> hs_locked (sy_host s) \<Longrightarrow> crawl_wait (sy_host s) (sy_clock s) = NoWait \<Longrightarrow>
    crawl_step th nan s (log_event Started (move s HasSlot InFlight))"
| sleep: "HasSlot \<in># sy_tasks s \<Longrightarrow> \<not> hs_locked (sy_host s) \<Longrightarrow> crawl_wait (sy_host s) (sy_clock s) = WaitFor r \<Longrightarrow>
    crawl_step th nan s (set_lock True (move s HasSlot (Sleeping (sy_clock s + r))))"
| sleep_forever: "HasSlot \<in># sy_tasks s \<Longrightarrow> \<not> hs_locked (sy_host s) \<Longrightarrow>
    crawl_wait (sy_host s) (sy_clock s) = WaitForever \<Longrightarrow>
    crawl_step th nan s (set_lock True (move s HasSlot SleepingForever))"
| wake: "Sleeping u \<in># sy_tasks s \<Longrightarrow> u \<le> sy_clock s \<Longrightarrow>
    crawl_step th nan s (log_event Started (set_lock False (move s (Sleeping u) InFlight)))"
| finish: "InFlight \<in># sy_tasks s \<Longrightarrow>
    crawl_step th nan s (log_event Finished (set_host (release_host (sy_clock s)) (remove_task s InFlight)))"
| cancel_slot: "HasSlot \<in># sy_tasks s \<Longrightarrow> crawl_step th nan s (leak (remove_task s HasSlot))"
| cancel_sleep: "p \<in># sy_tasks s \<Longrightarrow> p = Sleeping u \<or> p = SleepingForever \<Longrightarrow>
    crawl_step th nan s (leak (set_lock False (remove_task s p)))"
| cancel_wait: "Waiting \<in># sy_tasks s \<Longrightarrow> crawl_step th nan s (remove_task s Waiting)"

abbreviation crawl_steps :: "throttle \<Rightarrow> bool \<Rightarrow> crawl_sys \<Rightarrow> crawl_sys \<Rightarrow> bool" where
  "crawl_steps th nan \<equiv> (crawl_step th nan)\<^sup>*\<^sup>*"

section \<open>Slots\<close>

definition holding :: "phase \<Rightarrow> bool" where
  "holding p \<longleftrightarrow> p \<noteq> Waiting"

definition sleeping :: "phase \<Rightarrow> bool" where
  "sleeping p \<longleftrightarrow> (case p of Sleeping _ \<Rightarrow> True | SleepingForever \<Rightarrow> True | _ \<Rightarrow> False)"

definition holders :: "crawl_sys \<Rightarrow> nat" where
  "holders s = size (filter_mset holding (sy_tasks s))"

definition sleepers :: "crawl_sys \<Rightarrow> nat" where
  "sleepers s = size (filter_mset sleeping (sy_tasks s))"

definition slots_ok :: "throttle \<Rightarrow> crawl_sys \<Rightarrow> bool" where
  "slots_ok th s \<longleftrightarrow> 0 \<le> hs_value (sy_host s) \<and> hs_value (sy_host s) + int (holders s) + int (sy_leaked s) = th_max th
     \<and> sleepers s = (if hs_locked (sy_host s) then 1 else 0)"

lemmas crawl_updates = move_def set_host_def set_lock_def log_event_def remove_task_def leak_def release_host_def with_delay_def

lemma phase_kinds [simp]:
  "holding HasSlot" "holding (Sleeping u)" "holding SleepingForever" "holding InFlight" "\<not> holding Waiting"
  "sleeping (Sleeping u)" "sleeping SleepingForever" "\<not> sleeping HasSlot" "\<not> sleeping InFlight" "\<not> sleeping Waiting"
  by (simp_all add: holding_def sleeping_def)

lemma slots_ok_step:
  assumes "crawl_step th nan s s'" and "slots_ok th s"
  shows "slots_ok th s'"
  using assms
  by cases (auto simp: slots_ok_def holders_def sleepers_def crawl_updates split: if_splits dest!: multi_member_split)

lemma slots_ok_start: "0 \<le> th_max th \<Longrightarrow> slots_ok th (start_sys th t)"
  by (simp add: slots_ok_def holders_def sleepers_def start_sys_def new_host_def)

lemma slots_ok_reachable:
  assumes "crawl_steps th nan (start_sys th t) s" and "0 \<le> th_max th"
  shows "slots_ok th s"
  using assms(1) by induction (auto intro: slots_ok_start slots_ok_step assms(2))

lemma th_max_bounds: "1 \<le> th_max (new_throttle n d)" "th_max (new_throttle n d) \<le> 8"
  by (simp_all add: new_throttle_def min_concurrency_def max_concurrency_def)

section \<open>Spacing\<close>

text \<open>In the log, a start directly after a finish comes at least one second later.\<close>

fun spaced :: "crawl_event list \<Rightarrow> bool" where
  "spaced (Started t # Finished e # l) = (e + 1 \<le> t \<and> spaced (Finished e # l))"
| "spaced (x # l) = spaced l"
| "spaced [] = True"

definition delay_ok :: "py_float \<Rightarrow> bool" where
  "delay_ok d \<longleftrightarrow> (case d of Fin x \<Rightarrow> 1 \<le> x | PosInf \<Rightarrow> True | _ \<Rightarrow> False)"

lemma delay_ok_max: "x \<noteq> NaN \<Longrightarrow> delay_ok (float_max x min_crawl_delay)"
  by (cases x) (auto simp: delay_ok_def float_max_def float_gt_def min_crawl_delay_def)

definition starts :: "crawl_event list \<Rightarrow> nat" where
  "starts l = length (filter (\<lambda>e. case e of Started _ \<Rightarrow> True | _ \<Rightarrow> False) l)"

definition finishes :: "crawl_event list \<Rightarrow> nat" where
  "finishes l = length (filter (\<lambda>e. case e of Finished _ \<Rightarrow> True | _ \<Rightarrow> False) l)"

fun log_matches :: "crawl_event list \<Rightarrow> rat \<Rightarrow> bool" where
  "log_matches [] t = (t = 0)"
| "log_matches (e # l) t = (e = Finished t \<and> 0 < t)"

text \<open>
  With a single slot: the latest event is the start of the task in flight or the finish the host state
  remembers, and a task that sleeps will wake a second or more after it.
\<close>

definition spacing_ok :: "crawl_sys \<Rightarrow> bool" where
  "spacing_ok s \<longleftrightarrow> spaced (sy_log s) \<and> delay_ok (hs_delay (sy_host s)) \<and> 0 < sy_clock s
     \<and> (InFlight \<notin># sy_tasks s \<longrightarrow>
          log_matches (sy_log s) (hs_last (sy_host s)))
     \<and> (\<forall>u. Sleeping u \<in># sy_tasks s \<longrightarrow> hs_last (sy_host s) + 1 \<le> u)"

lemma lone_task:
  assumes "slots_ok th s" and "th_max th = 1" and "p \<in># sy_tasks s" and "holding p"
  obtains M where "sy_tasks s = add_mset p M" "InFlight \<notin># M" "\<forall>u. Sleeping u \<notin># M"
proof -
  obtain M where M: "sy_tasks s = add_mset p M" using assms(3) by (meson multi_member_split)
  with assms have "0 \<le> hs_value (sy_host s)" "hs_value (sy_host s) + int (size (filter_mset holding M)) + int (sy_leaked s) = 0"
    by (simp_all add: slots_ok_def holders_def)
  then have "size (filter_mset holding M) = 0" by linarith
  then have "\<forall>q. q \<in># M \<longrightarrow> \<not> holding q" by simp
  then show ?thesis using that [OF M] phase_kinds(2,4) by blast
qed

lemma spaced_started:
  "spaced l \<Longrightarrow> log_matches l t \<Longrightarrow> 0 < t \<longrightarrow> t + 1 \<le> u \<Longrightarrow> spaced (Started u # l)"
  by (cases l) auto

lemma waited: "delay_ok (hs_delay hs) \<Longrightarrow> crawl_wait hs now = NoWait \<Longrightarrow> 0 < hs_last hs \<longrightarrow> hs_last hs + 1 \<le> now"
  and will_wait: "delay_ok (hs_delay hs) \<Longrightarrow> crawl_wait hs now = WaitFor r \<Longrightarrow> hs_last hs + 1 \<le> now + r"
  by (auto simp: crawl_wait_def delay_ok_def Let_def split: py_float.splits if_splits)

lemma spacing_ok_directive:
  assumes "spacing_ok s" and "delay_ok (th_default th)" and "d \<noteq> Some NaN"
  shows "spacing_ok (set_host (with_delay (th_default th) d) s)"
proof -
  have "delay_ok (hs_delay (with_delay (th_default th) d (sy_host s)))"
    using assms(2,3) by (cases d) (auto simp: with_delay_def delay_ok_max)
  moreover have "hs_last (with_delay (th_default th) d (sy_host s)) = hs_last (sy_host s)" by (simp add: with_delay_def)
  ultimately show ?thesis using assms(1) by (simp add: spacing_ok_def set_host_def)
qed

lemma spacing_ok_started:
  assumes "spacing_ok s" and "sy_tasks s = add_mset p M" and "p \<noteq> InFlight" and "InFlight \<notin># M" and "\<forall>u. Sleeping u \<notin># M"
    and "0 < hs_last (sy_host s) \<longrightarrow> hs_last (sy_host s) + 1 \<le> sy_clock s"
  shows "spacing_ok (log_event Started (move s p InFlight))"
proof -
  from assms have "spaced (Started (sy_clock s) # sy_log s)" by (intro spaced_started) (auto simp: spacing_ok_def)
  with assms show ?thesis by (simp add: spacing_ok_def crawl_updates)
qed

lemma spacing_ok_lock: "spacing_ok (set_lock b s) = spacing_ok s"
  by (simp add: spacing_ok_def crawl_updates)

lemma lock_commutes: "move (set_lock b s) p q = set_lock b (move s p q)" "log_event e (set_lock b s) = set_lock b (log_event e s)"
  "remove_task (set_lock b s) p = set_lock b (remove_task s p)"
  by (simp_all add: crawl_updates)

lemma spacing_ok_remove: "spacing_ok s \<Longrightarrow> p \<noteq> InFlight \<Longrightarrow> spacing_ok (remove_task s p)"
  by (cases "p \<in># sy_tasks s") (auto simp: spacing_ok_def remove_task_def diff_single_trivial insert_noteq_member dest!: multi_member_split [of p])

lemma spacing_ok_leak: "spacing_ok (leak s) = spacing_ok s"
  by (simp add: spacing_ok_def leak_def)

lemma spacing_ok_step:
  assumes step: "crawl_step th False s s'" and slots: "slots_ok th s" and one: "th_max th = 1"
    and default: "delay_ok (th_default th)" and ok: "spacing_ok s"
  shows "spacing_ok s'"
  using step
proof cases
  case (directive d)
  with spacing_ok_directive [OF ok default] show ?thesis by blast
next
  case slot
  have "size (filter_mset holding (sy_tasks s)) = 0" using slots one slot(3) unfolding slots_ok_def holders_def by linarith
  then have "InFlight \<notin># sy_tasks s" "\<And>u. Sleeping u \<notin># sy_tasks s" by auto
  with ok slot show ?thesis by (auto simp: spacing_ok_def crawl_updates dest: in_diffD)
next
  case go
  obtain M where M: "sy_tasks s = add_mset HasSlot M" "InFlight \<notin># M" "\<forall>u. Sleeping u \<notin># M"
    by (rule lone_task [OF slots one go(2)]) simp
  from ok have "delay_ok (hs_delay (sy_host s))" by (simp add: spacing_ok_def)
  from waited [OF this go(4)] have "spacing_ok (log_event Started (move s HasSlot InFlight))"
    by (intro spacing_ok_started [OF ok M(1)]) (simp_all add: M)
  with go(1) show ?thesis by simp
next
  case (sleep r)
  obtain M where "sy_tasks s = add_mset HasSlot M" "InFlight \<notin># M" "\<forall>u. Sleeping u \<notin># M"
    by (rule lone_task [OF slots one sleep(2)]) simp
  moreover have "hs_last (sy_host s) + 1 \<le> sy_clock s + r" using ok sleep by (intro will_wait) (simp_all add: spacing_ok_def)
  ultimately show ?thesis using ok sleep by (auto simp: spacing_ok_def crawl_updates)
next
  case sleep_forever
  obtain M where "sy_tasks s = add_mset HasSlot M" "InFlight \<notin># M" "\<forall>u. Sleeping u \<notin># M"
    by (rule lone_task [OF slots one sleep_forever(2)]) simp
  with ok sleep_forever show ?thesis by (simp add: spacing_ok_def crawl_updates)
next
  case (wake u)
  obtain M where M: "sy_tasks s = add_mset (Sleeping u) M" "InFlight \<notin># M" "\<forall>u. Sleeping u \<notin># M"
    by (rule lone_task [OF slots one wake(2)]) simp
  from ok M(1) wake(3) have "hs_last (sy_host s) + 1 \<le> sy_clock s" by (auto simp: spacing_ok_def)
  then have "spacing_ok (log_event Started (move s (Sleeping u) InFlight))" by (intro spacing_ok_started [OF ok M(1)]) (simp_all add: M)
  with wake show ?thesis by (simp add: lock_commutes spacing_ok_lock)
next
  case finish
  obtain M where "sy_tasks s = add_mset InFlight M" "InFlight \<notin># M" "\<forall>u. Sleeping u \<notin># M"
    by (rule lone_task [OF slots one finish(2)]) simp
  with ok finish show ?thesis by (auto simp: spacing_ok_def crawl_updates)
qed (use ok spacing_ok_remove [OF ok] in \<open>auto simp: lock_commutes spacing_ok_lock spacing_ok_leak\<close>,
    use ok in \<open>auto simp: spacing_ok_def\<close>)

lemma spacing_ok_reachable:
  assumes "crawl_steps th False (start_sys th t) s" and "th_max th = 1" and "delay_ok (th_default th)" and "0 < t"
  shows "spacing_ok s"
  using assms(1)
proof induction
  case base
  then show ?case using assms by (simp add: spacing_ok_def start_sys_def new_host_def)
next
  case (step y z)
  have "slots_ok th y" using slots_ok_reachable [OF step.hyps(1)] assms(2) by simp
  with step.IH step.hyps(2) assms show ?case using spacing_ok_step by blast
qed

section \<open>Progress and leaks\<close>

lemma leaked_grows: "crawl_steps th nan s s' \<Longrightarrow> sy_leaked s \<le> sy_leaked s'"
proof (induction rule: rtranclp_induct)
  case (step y z)
  from step.hyps(2) have "sy_leaked y \<le> sy_leaked z" by cases (simp_all add: crawl_updates)
  with step.IH show ?case by simp
qed simp

lemma slot_leads_to_flight:
  assumes "HasSlot \<in># sy_tasks s" and "\<not> hs_locked (sy_host s)" and "hs_delay (sy_host s) \<noteq> PosInf"
  shows "\<exists>s'. crawl_steps th nan s s' \<and> InFlight \<in># sy_tasks s'"
proof (cases "crawl_wait (sy_host s) (sy_clock s)")
  case NoWait
  from crawl_step.go [OF assms(1,2) this] show ?thesis
    by (intro exI [of _ "log_event Started (move s HasSlot InFlight)"]) (auto simp: log_event_def move_def)
next
  case (WaitFor r)
  define s1 where "s1 = set_lock True (move s HasSlot (Sleeping (sy_clock s + r)))"
  define s2 where "s2 = s1\<lparr>sy_clock := sy_clock s1 + r\<rparr>"
  define s3 where "s3 = log_event Started (set_lock False (move s2 (Sleeping (sy_clock s + r)) InFlight))"
  have r: "0 \<le> r" using WaitFor by (auto simp: crawl_wait_def Let_def split: if_splits py_float.splits)
  have "crawl_step th nan s s1" unfolding s1_def by (rule crawl_step.sleep [OF assms(1,2) WaitFor])
  moreover have "crawl_step th nan s1 s2" unfolding s2_def by (rule crawl_step.time [OF r])
  moreover have "Sleeping (sy_clock s + r) \<in># sy_tasks s2" "sy_clock s + r \<le> sy_clock s2"
    by (simp_all add: s2_def s1_def crawl_updates)
  then have "crawl_step th nan s2 s3" unfolding s3_def by (rule crawl_step.wake)
  moreover have "InFlight \<in># sy_tasks s3" by (simp add: s3_def crawl_updates)
  ultimately show ?thesis by (meson converse_rtranclp_into_rtranclp rtranclp.rtrancl_refl)
next
  case WaitForever
  with assms(3) show ?thesis by (auto simp: crawl_wait_def Let_def split: if_splits py_float.splits)
qed

section \<open>Schedules\<close>

text \<open>A schedule fixes which task moves; running one is a function, whose runs are runs of the relation.\<close>

datatype action = ATime rat | ADirective "py_float option" | AArrive | ASlot | AGo | ASleep | AWake rat | AFinish
  | ACancelSleep phase

fun act :: "throttle \<Rightarrow> action \<Rightarrow> crawl_sys \<Rightarrow> crawl_sys option" where
  "act th (ATime d) s = (if 0 \<le> d then Some (s\<lparr>sy_clock := sy_clock s + d\<rparr>) else None)"
| "act th (ADirective d) s = Some (set_host (with_delay (th_default th) d) s)"
| "act th AArrive s = Some (s\<lparr>sy_tasks := add_mset Waiting (sy_tasks s)\<rparr>)"
| "act th ASlot s = (if Waiting \<in># sy_tasks s \<and> 0 < hs_value (sy_host s)
     then Some (set_host (\<lambda>h. h\<lparr>hs_value := hs_value h - 1\<rparr>) (move s Waiting HasSlot)) else None)"
| "act th AGo s = (if HasSlot \<in># sy_tasks s \<and> \<not> hs_locked (sy_host s) \<and> crawl_wait (sy_host s) (sy_clock s) = NoWait
     then Some (log_event Started (move s HasSlot InFlight)) else None)"
| "act th ASleep s = (if HasSlot \<in># sy_tasks s \<and> \<not> hs_locked (sy_host s)
     then (case crawl_wait (sy_host s) (sy_clock s) of
             WaitFor r \<Rightarrow> Some (set_lock True (move s HasSlot (Sleeping (sy_clock s + r)))) | _ \<Rightarrow> None)
     else None)"
| "act th (AWake u) s = (if Sleeping u \<in># sy_tasks s \<and> u \<le> sy_clock s
     then Some (log_event Started (set_lock False (move s (Sleeping u) InFlight))) else None)"
| "act th AFinish s = (if InFlight \<in># sy_tasks s
     then Some (log_event Finished (set_host (release_host (sy_clock s)) (remove_task s InFlight))) else None)"
| "act th (ACancelSleep p) s = (if p \<in># sy_tasks s \<and> sleeping p then Some (leak (set_lock False (remove_task s p))) else None)"

fun acts :: "throttle \<Rightarrow> action list \<Rightarrow> crawl_sys \<Rightarrow> crawl_sys option" where
  "acts th [] s = Some s"
| "acts th (a # as) s = (case act th a s of None \<Rightarrow> None | Some s' \<Rightarrow> acts th as s')"

lemma act_step: "act th a s = Some s' \<Longrightarrow> a = ADirective (Some NaN) \<longrightarrow> nan \<Longrightarrow> crawl_step th nan s s'"
  by (cases a) (auto intro: crawl_step.intros simp: sleeping_def split: if_splits wait.splits phase.splits)

lemma acts_steps: "acts th as s = Some s' \<Longrightarrow> ADirective (Some NaN) \<in> set as \<longrightarrow> nan \<Longrightarrow> crawl_steps th nan s s'"
proof (induction as arbitrary: s)
  case (Cons a as)
  then obtain s1 where "act th a s = Some s1" "acts th as s1 = Some s'" by (auto split: option.splits)
  with Cons act_step [of th a s s1 nan] show ?case by (auto intro: converse_rtranclp_into_rtranclp)
qed simp

lemmas act_simps = crawl_updates start_sys_def new_host_def new_throttle_def min_concurrency_def max_concurrency_def
  min_crawl_delay_def float_max_def float_gt_def crawl_wait_def Let_def

section \<open>Properties\<close>

text \<open>
  C25. However tasks arrive, wait, sleep, finish and are cancelled, the requests in flight to a host never
  exceed the configured concurrency, which lies between 1 and 8; every slot is free, held by a task, or lost
  to a cancelled one; and at most one task sleeps on the crawl delay at a time.
\<close>

theorem throttle_concurrency:
  assumes "crawl_steps (new_throttle n d) nan (start_sys (new_throttle n d) t) s"
  shows "int (count (sy_tasks s) InFlight) \<le> max 1 (min n 8)
    \<and> hs_value (sy_host s) + int (holders s) + int (sy_leaked s) = max 1 (min n 8) \<and> 0 \<le> hs_value (sy_host s)
    \<and> sleepers s \<le> 1"
proof -
  let ?th = "new_throttle n d"
  have m: "th_max ?th = max 1 (min n 8)" by (simp add: new_throttle_def min_concurrency_def max_concurrency_def)
  have "slots_ok ?th s" using slots_ok_reachable [OF assms] th_max_bounds(1) [of n d] by simp
  moreover have "count M InFlight \<le> size (filter_mset holding M)" for M
    by (induction M) auto
  then have "count (sy_tasks s) InFlight \<le> holders s" by (simp add: holders_def)
  ultimately show ?thesis using m by (auto simp: slots_ok_def split: if_splits)
qed

theorem throttle_concurrency_witness:
  "\<exists>s :: crawl_sys. count (sy_tasks s) InFlight = 2 \<and> int (count (sy_tasks s) InFlight) \<le> max 1 (min 2 8)"
proof -
  obtain s where s: "acts (new_throttle 2 (Fin 1)) [AArrive, ASlot, AGo, AArrive, ASlot, AGo] (start_sys (new_throttle 2 (Fin 1)) 10) = Some s"
    "count (sy_tasks s) InFlight = 2"
    by (simp add: act_simps)
  have "crawl_steps (new_throttle 2 (Fin 1)) False (start_sys (new_throttle 2 (Fin 1)) 10) s"
    using acts_steps [OF s(1)] by simp
  from throttle_concurrency [OF this] s(2) show ?thesis by blast
qed

text \<open>
  With a concurrency of one and no directive that is the float nan, every request to a host starts at
  least one second after the previous one finished, whatever delays the directives set.
\<close>

theorem throttle_spacing:
  assumes "n \<le> 1" and "d \<noteq> NaN" and "0 < t"
    and "crawl_steps (new_throttle n d) False (start_sys (new_throttle n d) t) s"
  shows "spaced (sy_log s)"
proof -
  have "th_max (new_throttle n d) = 1" using assms(1) by (simp add: new_throttle_def min_concurrency_def max_concurrency_def)
  moreover have "delay_ok (th_default (new_throttle n d))" using assms(2) by (simp add: new_throttle_def delay_ok_max)
  ultimately have "spacing_ok s" using spacing_ok_reachable [OF assms(4)] assms(3) by blast
  then show ?thesis by (simp add: spacing_ok_def)
qed

theorem throttle_spacing_witness:
  "\<exists>s :: crawl_sys. sy_log s = [Started 15, Finished 12, Started 10] \<and> spaced (sy_log s)"
proof -
  obtain s where s: "acts (new_throttle 1 (Fin 3)) [AArrive, ASlot, AGo, ATime 2, AFinish, AArrive, ASlot, ASleep, ATime 3, AWake 15]
      (start_sys (new_throttle 1 (Fin 3)) 10) = Some s" "sy_log s = [Started 15, Finished 12, Started 10]"
    by (simp add: act_simps)
  have "crawl_steps (new_throttle 1 (Fin 3)) False (start_sys (new_throttle 1 (Fin 3)) 10) s"
    using acts_steps [OF s(1)] by simp
  with s(2) throttle_spacing [of 1 "Fin 3" 10 s] show ?thesis by auto
qed

text \<open>
  A task never waits in vain: in every reachable state where some slot is not lost, the delay is
  finite and nobody sleeps for ever, a waiting task means that a request is in flight or can get in flight.
\<close>

theorem throttle_progress:
  assumes "crawl_steps (new_throttle n d) nan (start_sys (new_throttle n d) t) s"
    and "Waiting \<in># sy_tasks s" and "int (sy_leaked s) < max 1 (min n 8)"
    and "hs_delay (sy_host s) \<noteq> PosInf" and "SleepingForever \<notin># sy_tasks s"
  shows "\<exists>s'. crawl_steps (new_throttle n d) nan s s' \<and> InFlight \<in># sy_tasks s'"
proof -
  let ?th = "new_throttle n d"
  have m: "th_max ?th = max 1 (min n 8)" by (simp add: new_throttle_def min_concurrency_def max_concurrency_def)
  have ok: "slots_ok ?th s" using slots_ok_reachable [OF assms(1)] th_max_bounds(1) [of n d] by simp
  consider "InFlight \<in># sy_tasks s" | u where "Sleeping u \<in># sy_tasks s"
    | "filter_mset sleeping (sy_tasks s) = {#}" "HasSlot \<in># sy_tasks s"
    | "filter_mset sleeping (sy_tasks s) = {#}" "filter_mset holding (sy_tasks s) = {#}"
  proof -
    have "p = InFlight \<or> (\<exists>u. p = Sleeping u) \<or> p = HasSlot" if "p \<in># sy_tasks s" "holding p" for p
      using that assms(5) by (cases p) auto
    moreover have "\<exists>u. p = Sleeping u" if "p \<in># sy_tasks s" "sleeping p" for p
      using that assms(5) by (cases p) auto
    ultimately show ?thesis using that by (metis filter_mset_eq_mempty_iff)
  qed
  then show ?thesis
  proof cases
    case 1
    then show ?thesis by blast
  next
    case (2 u)
    define s1 where "s1 = s\<lparr>sy_clock := sy_clock s + max 0 (u - sy_clock s)\<rparr>"
    have "crawl_step ?th nan s s1" unfolding s1_def by (rule crawl_step.time) simp
    moreover have "crawl_step ?th nan s1 (log_event Started (set_lock False (move s1 (Sleeping u) InFlight)))"
      using 2 by (intro crawl_step.wake) (simp_all add: s1_def)
    moreover have "InFlight \<in># sy_tasks (log_event Started (set_lock False (move s1 (Sleeping u) InFlight)))"
      by (simp add: crawl_updates)
    ultimately show ?thesis by (meson converse_rtranclp_into_rtranclp rtranclp.rtrancl_refl)
  next
    case 3
    then have "sleepers s = 0" by (simp add: sleepers_def)
    then have "\<not> hs_locked (sy_host s)" using ok by (auto simp: slots_ok_def)
    with 3 assms(4) slot_leads_to_flight show ?thesis by blast
  next
    case 4
    then have "sleepers s = 0" by (simp add: sleepers_def)
    then have un: "\<not> hs_locked (sy_host s)" using ok by (auto simp: slots_ok_def)
    have "holders s = 0" using 4(2) by (simp add: holders_def)
    then have v: "0 < hs_value (sy_host s)" using ok m assms(3) by (simp add: slots_ok_def)
    define s1 where "s1 = set_host (\<lambda>h. h\<lparr>hs_value := hs_value h - 1\<rparr>) (move s Waiting HasSlot)"
    have s1: "crawl_step ?th nan s s1" unfolding s1_def by (rule crawl_step.slot [OF assms(2) v])
    obtain s' where "crawl_steps ?th nan s1 s'" "InFlight \<in># sy_tasks s'"
      using slot_leads_to_flight [of s1 ?th nan] un assms(4) by (auto simp: s1_def crawl_updates)
    with s1 show ?thesis by (meson converse_rtranclp_into_rtranclp)
  qed
qed

theorem throttle_progress_witness:
  "\<exists>s s'. Waiting \<in># sy_tasks s \<and> crawl_steps (new_throttle 1 (Fin 1)) False s s' \<and> InFlight \<in># sy_tasks s'"
proof -
  obtain s where s: "acts (new_throttle 1 (Fin 1)) [AArrive] (start_sys (new_throttle 1 (Fin 1)) 10) = Some s"
    "Waiting \<in># sy_tasks s" "sy_leaked s = 0" "hs_delay (sy_host s) \<noteq> PosInf" "SleepingForever \<notin># sy_tasks s"
    by (simp add: act_simps)
  have r: "crawl_steps (new_throttle 1 (Fin 1)) False (start_sys (new_throttle 1 (Fin 1)) 10) s"
    using acts_steps [OF s(1)] by simp
  from throttle_progress [OF r s(2) _ s(4,5)] s(2,3) show ?thesis by auto
qed

text \<open>
  What the throttle does not give: with a concurrency of two, two requests to a host start at the same
  instant; a directive of the float nan removes the delay, so that a request starts as the previous one
  finishes; and when the only slot's task is cancelled while it sleeps, no task is ever served again.
\<close>

theorem throttle_gaps:
  "(\<exists>s. crawl_steps (new_throttle 2 (Fin 1)) False (start_sys (new_throttle 2 (Fin 1)) 10) s \<and> sy_log s = [Started 10, Started 10])
   \<and> (\<exists>s. crawl_steps (new_throttle 1 (Fin 1)) True (start_sys (new_throttle 1 (Fin 1)) 10) s
          \<and> sy_log s = [Started 11, Finished 11, Started 10])
   \<and> (\<exists>s. crawl_steps (new_throttle 1 (Fin 1)) False (start_sys (new_throttle 1 (Fin 1)) 10) s \<and> sy_tasks s = {#}
          \<and> \<not> (\<exists>s'. crawl_steps (new_throttle 1 (Fin 1)) False s s' \<and> InFlight \<in># sy_tasks s'))"
proof (intro conjI)
  obtain s where s: "acts (new_throttle 2 (Fin 1)) [AArrive, ASlot, AGo, AArrive, ASlot, AGo] (start_sys (new_throttle 2 (Fin 1)) 10) = Some s"
    "sy_log s = [Started 10, Started 10]"
    by (simp add: act_simps)
  then show "\<exists>s. crawl_steps (new_throttle 2 (Fin 1)) False (start_sys (new_throttle 2 (Fin 1)) 10) s \<and> sy_log s = [Started 10, Started 10]"
    using acts_steps [OF s(1), of False] by auto
next
  obtain s where s: "acts (new_throttle 1 (Fin 1)) [ADirective (Some NaN), AArrive, ASlot, AGo, ATime 1, AFinish, AArrive, ASlot, AGo]
      (start_sys (new_throttle 1 (Fin 1)) 10) = Some s" "sy_log s = [Started 11, Finished 11, Started 10]"
    by (simp add: act_simps)
  then show "\<exists>s. crawl_steps (new_throttle 1 (Fin 1)) True (start_sys (new_throttle 1 (Fin 1)) 10) s
          \<and> sy_log s = [Started 11, Finished 11, Started 10]"
    using acts_steps [OF s(1), of True] by auto
next
  define th where "th = new_throttle 1 (Fin 1)"
  obtain s where s: "acts th [AArrive, ASlot, AGo, AFinish, AArrive, ASlot, ASleep, ACancelSleep (Sleeping 11)] (start_sys th 10) = Some s"
    "sy_tasks s = {#}" "sy_leaked s = 1"
    by (simp add: act_simps th_def)
  have r: "crawl_steps th False (start_sys th 10) s" using acts_steps [OF s(1)] by simp
  have "InFlight \<notin># sy_tasks s'" if s': "crawl_steps th False s s'" for s'
  proof -
    have "slots_ok th s'" using slots_ok_reachable [OF rtranclp_trans [OF r s']] th_max_bounds(1) [of 1 "Fin 1"] by (simp add: th_def)
    moreover have "1 \<le> sy_leaked s'" using leaked_grows [OF s'] s(3) by simp
    moreover have "th_max th = 1" by (simp add: th_def new_throttle_def min_concurrency_def max_concurrency_def)
    ultimately have "holders s' = 0" by (auto simp: slots_ok_def)
    then show ?thesis by (auto simp: holders_def)
  qed
  with r s(2) show "\<exists>s. crawl_steps (new_throttle 1 (Fin 1)) False (start_sys (new_throttle 1 (Fin 1)) 10) s \<and> sy_tasks s = {#}
          \<and> \<not> (\<exists>s'. crawl_steps (new_throttle 1 (Fin 1)) False s s' \<and> InFlight \<in># sy_tasks s')"
    unfolding th_def by blast
qed

end
