(* ===== verification/Urls.thy ===== *)
theory Urls
  imports PyStr
begin

text \<open>
  Addresses: what \<open>backend/crawler/fetcher.py\<close> and \<open>backend/retriever/find_similar.py\<close> use of
  \<open>urllib.parse\<close>, and \<open>canonicalize_url\<close>.  The validation of bracketed hosts by \<open>ipaddress\<close> is an
  argument.
\<close>

section \<open>Splitting an address\<close>

definition scheme_char :: "char \<Rightarrow> bool" where
  "scheme_char c = (let n = cp c in (48 \<le> n \<and> n \<le> 57) \<or> (65 \<le> n \<and> n \<le> 90) \<or> (97 \<le> n \<and> n \<le> 122)
     \<or> c = CHR ''+'' \<or> c = CHR ''-'' \<or> c = CHR ''.'')"

definition ascii_letter :: "char \<Rightarrow> bool" where
  "ascii_letter c = (let n = cp c in (65 \<le> n \<and> n \<le> 90) \<or> (97 \<le> n \<and> n \<le> 122))"

definition before :: "char \<Rightarrow> string \<Rightarrow> string" where
  "before c s = takeWhile (\<lambda>x. x \<noteq> c) s"

definition after_first :: "char \<Rightarrow> string \<Rightarrow> string" where
  "after_first c s = tl (dropWhile (\<lambda>x. x \<noteq> c) s)"

definition after_last :: "char \<Rightarrow> string \<Rightarrow> string" where
  "after_last c s = rev (takeWhile (\<lambda>x. x \<noteq> c) (rev s))"

definition split_scheme :: "string \<Rightarrow> string \<times> string" where
  "split_scheme url =
     (let s = before CHR '':'' url in
      if CHR '':'' \<in> set url \<and> s \<noteq> [] \<and> ascii_letter (hd s) \<and> list_all scheme_char s
      then (py_lower s, after_first CHR '':'' url) else ([], url))"

definition params_schemes :: "string list" where
  "params_schemes = ['''', ''ftp'', ''hdl'', ''prospero'', ''http'', ''https'', ''shttp'', ''rtsp'', ''rtspu'', ''sip'',
     ''sips'', ''mms'', ''sftp'', ''tel'']"

definition strip_params :: "string \<Rightarrow> string" where
  "strip_params path =
     (let tail = after_last CHR ''/'' path in take (length path - length tail) path @ before CHR '';'' tail)"

definition host_of_netloc :: "string \<Rightarrow> string" where
  "host_of_netloc netloc =
     (let info = after_last CHR ''@'' netloc;
          h = (if CHR ''['' \<in> set info then before CHR '']'' (after_first CHR ''['' info) else before CHR '':'' info)
      in py_lower (before CHR ''%'' h) @ dropWhile (\<lambda>c. c \<noteq> CHR ''%'') h)"

text \<open>\<open>urlparse(url)\<close>: the host name (empty when there is none) and the path; \<open>None\<close> is a \<open>ValueError\<close>.\<close>

definition urlparse :: "(string \<Rightarrow> bool) \<Rightarrow> string \<Rightarrow> (string \<times> string) option" where
  "urlparse bracket_ok url =
     (let clean = filter (\<lambda>c. c \<notin> {CHR 0x09, CHR 0x0A, CHR 0x0D}) (dropWhile (\<lambda>c. cp c \<le> 32) url) in
      case split_scheme clean of (scheme, rest) \<Rightarrow>
        (let has_netloc = starts_with rest ''//'';
             stop = (\<lambda>c. c = CHR ''/'' \<or> c = CHR ''?'' \<or> c = CHR ''#'');
             netloc = (if has_netloc then takeWhile (\<lambda>c. \<not> stop c) (drop 2 rest) else []);
             tail = (if has_netloc then dropWhile (\<lambda>c. \<not> stop c) (drop 2 rest) else rest);
             path = before CHR ''?'' (before CHR ''#'' tail)
         in if (CHR ''['' \<in> set netloc) \<noteq> (CHR '']'' \<in> set netloc) then None
            else if CHR ''['' \<in> set netloc \<and> \<not> bracket_ok netloc then None
            else Some (host_of_netloc netloc, if scheme \<in> set params_schemes then strip_params path else path)))"

section \<open>All components\<close>

record url_parts =
  up_scheme :: string
  up_netloc :: string
  up_path :: string
  up_params :: string
  up_query :: string
  up_fragment :: string

definition path_params :: "string \<Rightarrow> string" where
  "path_params path = after_first CHR '';'' (after_last CHR ''/'' path)"

text \<open>\<open>urlparse(url)\<close> with all its components; \<open>None\<close> is a \<open>ValueError\<close>.\<close>

definition urlparse_all :: "(string \<Rightarrow> bool) \<Rightarrow> string \<Rightarrow> url_parts option" where
  "urlparse_all bracket_ok url =
     (let clean = filter (\<lambda>c. c \<notin> {CHR 0x09, CHR 0x0A, CHR 0x0D}) (dropWhile (\<lambda>c. cp c \<le> 32) url) in
      case split_scheme clean of (scheme, rest) \<Rightarrow>
        (let has_netloc = starts_with rest ''//'';
             stop = (\<lambda>c. c = CHR ''/'' \<or> c = CHR ''?'' \<or> c = CHR ''#'');
             netloc = (if has_netloc then takeWhile (\<lambda>c. \<not> stop c) (drop 2 rest) else []);
             tail = (if has_netloc then dropWhile (\<lambda>c. \<not> stop c) (drop 2 rest) else rest);
             unfragmented = before CHR ''#'' tail;
             path = before CHR ''?'' unfragmented
         in if (CHR ''['' \<in> set netloc) \<noteq> (CHR '']'' \<in> set netloc) then None
            else if CHR ''['' \<in> set netloc \<and> \<not> bracket_ok netloc then None
            else Some \<lparr>up_scheme = scheme, up_netloc = netloc,
                       up_path = (if scheme \<in> set params_schemes then strip_params path else path),
                       up_params = (if scheme \<in> set params_schemes then path_params path else []),
                       up_query = after_first CHR ''?'' unfragmented,
                       up_fragment = after_first CHR ''#'' tail\<rparr>))"

text \<open>\<open>parsed.port\<close>: no port, a number, or (\<open>None\<close>) a \<open>ValueError\<close>.\<close>

definition port_text :: "string \<Rightarrow> string" where
  "port_text netloc =
     (let info = after_last CHR ''@'' netloc in
      after_first CHR '':'' (if CHR ''['' \<in> set info then after_first CHR '']'' (after_first CHR ''['' info) else info))"

definition port_of_netloc :: "string \<Rightarrow> nat option option" where
  "port_of_netloc netloc =
     (let p = port_text netloc in
      if p = [] then Some None
      else if list_all ascii_digit p
      then (if int (nat_of_digits p) \<le> 65535 then Some (Some (nat_of_digits p)) else None)
      else None)"

definition netloc_schemes :: "string list" where
  "netloc_schemes = ['''', ''ftp'', ''http'', ''gopher'', ''nntp'', ''telnet'', ''imap'', ''wais'', ''file'', ''mms'',
     ''https'', ''shttp'', ''snews'', ''prospero'', ''rtsp'', ''rtspu'', ''rsync'', ''svn'', ''svn+ssh'', ''sftp'',
     ''nfs'', ''git'', ''git+ssh'', ''ws'', ''wss'']"

text \<open>\<open>urlunparse\<close> as of Python 3.11, without a fragment.\<close>

definition urlunparse :: "string \<Rightarrow> string \<Rightarrow> string \<Rightarrow> string \<Rightarrow> string \<Rightarrow> string" where
  "urlunparse scheme netloc path params query =
     (let url = (if params \<noteq> [] then path @ '';'' @ params else path);
          url = (if netloc \<noteq> [] \<or> (scheme \<noteq> [] \<and> scheme \<in> set netloc_schemes \<and> \<not> starts_with url ''//'')
                 then ''//'' @ netloc @ (if url \<noteq> [] \<and> hd url \<noteq> CHR ''/'' then CHR ''/'' # url else url)
                 else url);
          url = (if scheme \<noteq> [] then scheme @ '':'' @ url else url)
      in if query \<noteq> [] then url @ ''?'' @ query else url)"

section \<open>Canonical addresses\<close>

definition rstrip_slash :: "string \<Rightarrow> string" where
  "rstrip_slash s = rev (dropWhile (\<lambda>c. c = CHR ''/'') (rev s))"

definition canonical_path :: "string \<Rightarrow> string" where
  "canonical_path path =
     (if path = [] then ''/''
      else if path \<noteq> ''/'' \<and> last path = CHR ''/'' then rstrip_slash path else path)"

definition canonicalize_url :: "(string \<Rightarrow> bool) \<Rightarrow> string \<Rightarrow> string option" where
  "canonicalize_url bracket_ok url =
     (case urlparse_all bracket_ok url of
        None \<Rightarrow> None
      | Some p \<Rightarrow>
          (let scheme = py_lower (up_scheme p);
               host = py_lower (host_of_netloc (up_netloc p))
           in case port_of_netloc (up_netloc p) of
                None \<Rightarrow> None
              | Some port \<Rightarrow>
                  (let port = (if port = Some 80 \<and> scheme = ''http'' then None
                               else if port = Some 443 \<and> scheme = ''https'' then None else port);
                       netloc = (case port of Some n \<Rightarrow> if n = 0 then host else host @ '':'' @ str_nat n | None \<Rightarrow> host)
                   in Some (urlunparse scheme netloc (canonical_path (up_path p)) (up_params p) (up_query p)))))"

text \<open>
  A path of slashes only becomes the empty path, which is not canonical itself: canonicalization is
  not idempotent.  The brackets of an IPv6 host are lost.
\<close>

lemma canonicalize_samples:
  "canonicalize_url (\<lambda>_. True) ''HTTP://Example.com:80/a/?x=1#top'' = Some ''http://example.com/a?x=1''"
  "canonicalize_url (\<lambda>_. True) ''http://h//'' = Some ''http://h''"
  "canonicalize_url (\<lambda>_. True) ''http://h'' = Some ''http://h/''"
  "canonicalize_url (\<lambda>_. True) ''http://[::1]:80/'' = Some ''http://::1/''"
  by code_simp+

end
