(* ===== verification/Crawler.thy ===== *)
theory Crawler
  imports Throttle AuditLog Urls
begin

text \<open>
  Fetching a page: the robots.txt cache of \<open>backend/crawler/robots.py\<close>, the opt-out registry of
  \<open>backend/crawler/opt_out.py\<close> and the pipeline of \<open>backend/crawler/fetcher.py\<close>, with the data of
  \<open>backend/crawler/models.py\<close>.

  The environment of one call supplies the clock readings, the replies of the two HTTP requests and the
  request id.  The audit emitter is an argument (a function on its state that may fail), so that the
  pipeline can be run on the audit log.  \<open>cw_sent\<close> is the list of HTTP requests made.  The validation of
  bracketed hosts by \<open>ipaddress\<close> is a parameter of \<open>urlparse\<close>; \<open>crawler.robots\<close> is taken to be importable.
\<close>

section \<open>The robots.txt cache\<close>

record robots_entry =
  re_result :: robots_result
  re_cached_at :: rat

record robots_cache =
  rc_ttl :: rat
  rc_entries :: "(string, robots_entry) dict"

definition max_cache_ttl :: rat where "max_cache_ttl = 24 * 60 * 60"

definition new_robots_cache :: "rat \<Rightarrow> robots_cache" where
  "new_robots_cache ttl = \<lparr>rc_ttl = min (max ttl 0) max_cache_ttl, rc_entries = []\<rparr>"

definition is_fresh :: "robots_cache \<Rightarrow> rat \<Rightarrow> robots_entry \<Rightarrow> bool" where
  "is_fresh c now e \<longleftrightarrow> now - re_cached_at e < rc_ttl c"

definition cached :: "robots_cache \<Rightarrow> rat \<Rightarrow> string \<Rightarrow> robots_result option" where
  "cached c now host =
     (case dict_get (rc_entries c) host of
        Some e \<Rightarrow> if is_fresh c now e then Some (re_result e) else None
      | None \<Rightarrow> None)"

definition store_robots :: "robots_cache \<Rightarrow> rat \<Rightarrow> string \<Rightarrow> robots_result \<Rightarrow> robots_cache" where
  "store_robots c now host r = c\<lparr>rc_entries := dict_set host \<lparr>re_result = r, re_cached_at = now\<rparr> (rc_entries c)\<rparr>"

definition invalidate :: "robots_cache \<Rightarrow> string \<Rightarrow> robots_cache" where
  "invalidate c host = c\<lparr>rc_entries := dict_del host (rc_entries c)\<rparr>"

definition clear_cache :: "robots_cache \<Rightarrow> robots_cache" where
  "clear_cache c = c\<lparr>rc_entries := []\<rparr>"

definition robots_stamp :: "robots_cache \<Rightarrow> string \<Rightarrow> (robots_result \<times> rat) option" where
  "robots_stamp c host = map_option (\<lambda>e. (re_result e, re_cached_at e)) (dict_get (rc_entries c) host)"

interpretation robots: ttl_cache cached "\<lambda>c _ _. c" store_robots invalidate rc_ttl robots_stamp
  by unfold_locales (auto simp: cached_def is_fresh_def store_robots_def invalidate_def robots_stamp_def
      split: option.splits if_splits)

text \<open>The reply to a request; \<open>HttpRaise\<close> is an exception \<open>_fetch_robots\<close> does not catch.\<close>

datatype http_reply = HttpReply nat string | HttpTimeout string | HttpNetwork string | HttpRaise string

definition robots_url :: "string \<Rightarrow> string" where
  "robots_url host = ''https://'' @ host @ ''/robots.txt''"

definition unavailable :: "string \<Rightarrow> robots_result" where
  "unavailable e = \<lparr>ro_available = False, ro_rules = [], ro_delay = None, ro_error = Some e\<rparr>"

definition fetch_robots :: "string \<Rightarrow> http_reply \<Rightarrow> string + robots_result" where
  "fetch_robots host reply =
     (case reply of
        HttpReply status body \<Rightarrow>
          if status \<ge> 500 then Inr (unavailable (''HTTP '' @ str_nat status @ '' from '' @ robots_url host))
          else if status \<ge> 400 then Inr \<lparr>ro_available = True, ro_rules = [], ro_delay = None, ro_error = None\<rparr>
          else Inr (parse_robots_txt body)
      | HttpTimeout m \<Rightarrow> Inr (unavailable (''Timeout fetching '' @ robots_url host @ '': '' @ m))
      | HttpNetwork m \<Rightarrow> Inr (unavailable (''Network error fetching '' @ robots_url host @ '': '' @ m))
      | HttpRaise m \<Rightarrow> Inl m)"

text \<open>
  \<open>get\<close>: the clock is read at the first check, at the second check under the lock, and when the fetched
  result is stored.  The flag says whether a request was made.
\<close>

definition robots_get :: "robots_cache \<Rightarrow> rat \<times> rat \<times> rat \<Rightarrow> string \<Rightarrow> http_reply \<Rightarrow> (string + robots_result) \<times> bool \<times> robots_cache" where
  "robots_get c ts host reply =
     (case ts of (t1, t2, t3) \<Rightarrow>
        (case cached c t1 host of
           Some r \<Rightarrow> (Inr r, False, c)
         | None \<Rightarrow> (case cached c t2 host of
               Some r \<Rightarrow> (Inr r, False, c)
             | None \<Rightarrow> (case fetch_robots host reply of
                   Inl e \<Rightarrow> (Inl e, True, c)
                 | Inr r \<Rightarrow> (Inr r, True, store_robots c t3 host r)))))"

definition cache_is_allowed :: "robots_cache \<Rightarrow> rat \<Rightarrow> (string \<Rightarrow> bool) \<Rightarrow> string \<Rightarrow> string \<Rightarrow> bool option option" where
  "cache_is_allowed c now bracket_ok url ua =
     map_option (\<lambda>(host, path).
       case cached c now host of
         None \<Rightarrow> None
       | Some r \<Rightarrow> if \<not> ro_available r then None
                   else Some (check_rules (ro_rules r) (py_lower ua) (if path = [] then ''/'' else path)))
       (urlparse bracket_ok url)"

section \<open>Opting out\<close>

type_synonym opt_outs = "(string, datetime) dict"

definition activation_window :: int where "activation_window = hours_us 24"

definition domain_key :: "string \<Rightarrow> string" where
  "domain_key d = py_strip (py_lower d)"

definition register_opt_out :: "opt_outs \<Rightarrow> datetime \<Rightarrow> string \<Rightarrow> opt_outs" where
  "register_opt_out reg now d = (if dict_get reg (domain_key d) = None then dict_set (domain_key d) now reg else reg)"

definition is_opted_out :: "opt_outs \<Rightarrow> datetime \<Rightarrow> string \<Rightarrow> bool" where
  "is_opted_out reg now d = (case dict_get reg (domain_key d) of None \<Rightarrow> False | Some t \<Rightarrow> now \<ge> t + activation_window)"

definition get_opt_out_time :: "opt_outs \<Rightarrow> string \<Rightarrow> datetime option" where
  "get_opt_out_time reg d = dict_get reg (domain_key d)"

definition remove_opt_out :: "opt_outs \<Rightarrow> string \<Rightarrow> bool \<times> opt_outs" where
  "remove_opt_out reg d = (dict_get reg (domain_key d) \<noteq> None, dict_del (domain_key d) reg)"

section \<open>The pipeline\<close>

datatype skip_type = DisallowedByRobots | RobotsUnavailable | DomainOptedOut

definition skip_value :: "skip_type \<Rightarrow> string" where
  "skip_value r = (case r of DisallowedByRobots \<Rightarrow> ''disallowed_by_robots'' | RobotsUnavailable \<Rightarrow> ''robots_unavailable''
     | DomainOptedOut \<Rightarrow> ''domain_opted_out'')"

record skip_reason =
  sk_reason :: skip_type
  sk_url :: string
  sk_detail :: "(string, json) dict"

record fetch_result =
  fr_content :: string
  fr_time :: datetime
  fr_status :: nat
  fr_content_type :: string
  fr_canonical_url :: string

datatype fetch_outcome = Skipped skip_reason | Fetched fetch_result

datatype content_reply = ContentReply string nat "string option" string datetime | ContentRaise string

datatype sent = SentRobots string http_reply rat | SentContent string rat

datatype 'e fetch_error = UrlError | AuditFailed 'e | HttpFailed string | Blocked

record 's crawler =
  cw_cache :: robots_cache
  cw_opt_outs :: opt_outs
  cw_throttle :: throttle
  cw_audit :: 's
  cw_agent :: string
  cw_sent :: "sent list"

record fetch_env =
  fe_now :: datetime
  fe_cache_times :: "rat \<times> rat \<times> rat"
  fe_acquire :: rat
  fe_release :: rat
  fe_robots :: http_reply
  fe_content :: content_reply
  fe_request_id :: string
  fe_bracket_ok :: "string \<Rightarrow> bool"

definition extract_domain :: "string \<Rightarrow> string" where
  "extract_domain host =
     (let parts = split_on CHR ''.'' (py_lower host) in
      if length parts \<ge> 2 then join ''.'' (drop (length parts - 2) parts) else py_lower host)"

text \<open>Emitting the audit entry of a skip and returning the skip; an emission that fails is raised.\<close>

definition skip :: "('s \<Rightarrow> audit_entry \<Rightarrow> 'e + 's) \<Rightarrow> 's crawler \<Rightarrow> fetch_env \<Rightarrow> skip_type \<Rightarrow> string
    \<Rightarrow> (string, json) dict \<Rightarrow> (string, json) dict \<Rightarrow> ('e fetch_error + fetch_outcome) \<times> 's crawler" where
  "skip emit st env reason url detail audit_detail =
     (case emit (cw_audit st) \<lparr>au_action = skip_value reason, au_tenant = None, au_actor = ''crawler'', au_resource = url,
             au_request_id = fe_request_id env, au_detail = audit_detail\<rparr> of
        Inl e \<Rightarrow> (Inl (AuditFailed e), st)
      | Inr s \<Rightarrow> (Inr (Skipped \<lparr>sk_reason = reason, sk_url = url, sk_detail = detail\<rparr>), st\<lparr>cw_audit := s\<rparr>))"

definition fetch_content :: "content_reply \<Rightarrow> string + fetch_result" where
  "fetch_content reply =
     (case reply of
        ContentReply body status ctype canonical stamp \<Rightarrow>
          Inr \<lparr>fr_content = body, fr_time = stamp, fr_status = status,
               fr_content_type = (case ctype of Some t \<Rightarrow> t | None \<Rightarrow> ''''), fr_canonical_url = canonical\<rparr>
      | ContentRaise m \<Rightarrow> Inl m)"

text \<open>Steps 3 and 4: the slot, the request, the release in the \<open>finally\<close> clause.\<close>

definition throttled_fetch :: "'s crawler \<Rightarrow> fetch_env \<Rightarrow> string \<Rightarrow> string \<Rightarrow> ('e fetch_error + fetch_outcome) \<times> 's crawler" where
  "throttled_fetch st env host url =
     (case acquire (cw_throttle st) host (fe_acquire env) of
        None \<Rightarrow> (Inl Blocked, st)
      | Some (start, th) \<Rightarrow>
          (let st' = st\<lparr>cw_throttle := release th host (fe_release env), cw_sent := cw_sent st @ [SentContent url start]\<rparr> in
           case fetch_content (fe_content env) of
             Inl m \<Rightarrow> (Inl (HttpFailed m), st')
           | Inr r \<Rightarrow> (Inr (Fetched r), st')))"

definition robots_detail :: "string \<Rightarrow> robots_result \<Rightarrow> (string, json) dict" where
  "robots_detail host r =
     [(''host'', JStr host), (''error'', JStr (case ro_error r of Some e \<Rightarrow> if e = [] then ''unknown'' else e | None \<Rightarrow> ''unknown''))]"

definition checked_fetch :: "('s \<Rightarrow> audit_entry \<Rightarrow> 'e + 's) \<Rightarrow> 's crawler \<Rightarrow> fetch_env \<Rightarrow> string \<Rightarrow> string \<Rightarrow> string
    \<Rightarrow> robots_result \<Rightarrow> ('e fetch_error + fetch_outcome) \<times> 's crawler" where
  "checked_fetch emit st env host path0 url r =
     (if \<not> ro_available r then
        skip emit st env RobotsUnavailable url (robots_detail host r) (robots_detail host r)
      else
        (let path = (if path0 = [] then ''/'' else path0) in
         if \<not> check_rules (ro_rules r) (cw_agent st) path then
           skip emit st env DisallowedByRobots url [(''host'', JStr host), (''path'', JStr path)]
             [(''host'', JStr host), (''path'', JStr path), (''user_agent'', JStr (cw_agent st))]
         else
           throttled_fetch (if ro_delay r \<noteq> None then st\<lparr>cw_throttle := set_crawl_delay (cw_throttle st) host (ro_delay r)\<rparr> else st)
             env host url))"

definition fetch :: "('s \<Rightarrow> audit_entry \<Rightarrow> 'e + 's) \<Rightarrow> 's crawler \<Rightarrow> fetch_env \<Rightarrow> string
    \<Rightarrow> ('e fetch_error + fetch_outcome) \<times> 's crawler" where
  "fetch emit st env url =
     (case urlparse (fe_bracket_ok env) url of
        None \<Rightarrow> (Inl UrlError, st)
      | Some (host, path) \<Rightarrow>
          (let domain = extract_domain host in
           if is_opted_out (cw_opt_outs st) (fe_now env) domain then
             skip emit st env DomainOptedOut url [(''domain'', JStr domain)] [(''domain'', JStr domain), (''url'', JStr url)]
           else
             (case robots_get (cw_cache st) (fe_cache_times env) host (fe_robots env) of
                (res, requested, c) \<Rightarrow>
                  (let st' = st\<lparr>cw_cache := c,
                        cw_sent := cw_sent st @ (if requested then [SentRobots host (fe_robots env) (snd (snd (fe_cache_times env)))] else [])\<rparr>
                   in case res of
                        Inl m \<Rightarrow> (Inl (HttpFailed m), st')
                      | Inr r \<Rightarrow> checked_fetch emit st' env host path url r))))"

section \<open>Histories\<close>

definition new_crawler :: "rat \<Rightarrow> int \<Rightarrow> py_float \<Rightarrow> 's \<Rightarrow> string \<Rightarrow> 's crawler" where
  "new_crawler ttl concurrency default_delay audit agent =
     \<lparr>cw_cache = new_robots_cache ttl, cw_opt_outs = [], cw_throttle = new_throttle concurrency default_delay,
      cw_audit = audit, cw_agent = agent, cw_sent = []\<rparr>"

datatype crawl_op = OpFetch fetch_env string | OpOptOut datetime string | OpRemoveOptOut string
  | OpInvalidate string | OpClear

fun run_op :: "('s \<Rightarrow> audit_entry \<Rightarrow> 'e + 's) \<Rightarrow> 's crawler \<Rightarrow> crawl_op \<Rightarrow> 's crawler" where
  "run_op emit st (OpFetch env url) = snd (fetch emit st env url)"
| "run_op emit st (OpOptOut now d) = st\<lparr>cw_opt_outs := register_opt_out (cw_opt_outs st) now d\<rparr>"
| "run_op emit st (OpRemoveOptOut d) = st\<lparr>cw_opt_outs := snd (remove_opt_out (cw_opt_outs st) d)\<rparr>"
| "run_op emit st (OpInvalidate host) = st\<lparr>cw_cache := invalidate (cw_cache st) host\<rparr>"
| "run_op emit st OpClear = st\<lparr>cw_cache := clear_cache (cw_cache st)\<rparr>"

definition crawl_run :: "('s \<Rightarrow> audit_entry \<Rightarrow> 'e + 's) \<Rightarrow> 's crawler \<Rightarrow> crawl_op list \<Rightarrow> 's crawler" where
  "crawl_run emit st ops = foldl (run_op emit) st ops"

text \<open>Every cached result is the reply to a request of the history.\<close>

definition cache_justified :: "'s crawler \<Rightarrow> bool" where
  "cache_justified st \<longleftrightarrow> rc_ttl (cw_cache st) \<le> max_cache_ttl
     \<and> (\<forall>host r s. robots_stamp (cw_cache st) host = Some (r, s) \<longrightarrow>
          (\<exists>reply. SentRobots host reply s \<in> set (cw_sent st) \<and> fetch_robots host reply = Inr r))"

lemma skip_frame:
  "skip emit st env reason url d ad = (res, st') \<Longrightarrow>
     cw_cache st' = cw_cache st \<and> cw_opt_outs st' = cw_opt_outs st \<and> cw_throttle st' = cw_throttle st
     \<and> cw_sent st' = cw_sent st \<and> cw_agent st' = cw_agent st"
  by (auto simp: skip_def split: sum.splits)

lemma throttled_fetch_frame:
  "throttled_fetch st env host url = (res, st') \<Longrightarrow>
     cw_cache st' = cw_cache st \<and> cw_opt_outs st' = cw_opt_outs st \<and> cw_audit st' = cw_audit st \<and> cw_agent st' = cw_agent st
     \<and> (cw_sent st' = cw_sent st \<or> (\<exists>start. cw_sent st' = cw_sent st @ [SentContent url start]))"
  by (auto simp: throttled_fetch_def Let_def split: option.splits sum.splits)

lemma checked_fetch_frame:
  assumes "checked_fetch emit st env host path url r = (res, st')"
  shows "cw_cache st' = cw_cache st" "cw_opt_outs st' = cw_opt_outs st" "cw_agent st' = cw_agent st"
    "cw_sent st' = cw_sent st \<or> (ro_available r \<and> check_rules (ro_rules r) (cw_agent st) (if path = [] then ''/'' else path)
       \<and> (\<exists>start. cw_sent st' = cw_sent st @ [SentContent url start]))"
  using assms unfolding checked_fetch_def Let_def
  by (auto dest!: skip_frame throttled_fetch_frame split: if_splits)

text \<open>The branches of the pipeline.\<close>

lemma fetch_cases:
  assumes "fetch emit st env url = (res, st')"
  obtains "urlparse (fe_bracket_ok env) url = None" "res = Inl UrlError" "st' = st"
    | host path where "urlparse (fe_bracket_ok env) url = Some (host, path)"
        "is_opted_out (cw_opt_outs st) (fe_now env) (extract_domain host)"
        "skip emit st env DomainOptedOut url [(''domain'', JStr (extract_domain host))]
           [(''domain'', JStr (extract_domain host)), (''url'', JStr url)] = (res, st')"
    | host path m where "urlparse (fe_bracket_ok env) url = Some (host, path)" "res = Inl (HttpFailed m)"
        "st' = st\<lparr>cw_sent := cw_sent st @ [SentRobots host (fe_robots env) (snd (snd (fe_cache_times env)))]\<rparr>"
    | host path r st1 where "urlparse (fe_bracket_ok env) url = Some (host, path)"
        "\<not> is_opted_out (cw_opt_outs st) (fe_now env) (extract_domain host)"
        "checked_fetch emit st1 env host path url r = (res, st')"
        "cw_opt_outs st1 = cw_opt_outs st" "cw_throttle st1 = cw_throttle st" "cw_audit st1 = cw_audit st" "cw_agent st1 = cw_agent st"
        "(st1 = st \<and> (\<exists>t\<in>{fst (fe_cache_times env), fst (snd (fe_cache_times env))}. cached (cw_cache st) t host = Some r))
         \<or> (cw_sent st1 = cw_sent st @ [SentRobots host (fe_robots env) (snd (snd (fe_cache_times env)))]
            \<and> fetch_robots host (fe_robots env) = Inr r
            \<and> cw_cache st1 = store_robots (cw_cache st) (snd (snd (fe_cache_times env))) host r)"
proof (cases "urlparse (fe_bracket_ok env) url")
  case None
  with assms that(1) show thesis by (simp add: fetch_def)
next
  case (Some hp)
  obtain host path where hp: "hp = (host, path)" by (cases hp)
  obtain t1 t2 t3 where t: "fe_cache_times env = (t1, t2, t3)" by (rule prod_cases3)
  show thesis
  proof (cases "is_opted_out (cw_opt_outs st) (fe_now env) (extract_domain host)")
    case True
    with assms Some hp that(2) show thesis by (simp add: fetch_def Let_def)
  next
    case False
    obtain gres requested c where g: "robots_get (cw_cache st) (t1, t2, t3) host (fe_robots env) = (gres, requested, c)"
      by (rule prod_cases3)
    define st1 where "st1 = st\<lparr>cw_cache := c, cw_sent := cw_sent st @ (if requested then [SentRobots host (fe_robots env) t3] else [])\<rparr>"
    have f: "fetch emit st env url = (case gres of Inl m \<Rightarrow> (Inl (HttpFailed m), st1) | Inr r \<Rightarrow> checked_fetch emit st1 env host path url r)"
      using Some hp False g t by (cases requested; cases gres) (simp_all add: fetch_def Let_def st1_def)
    show thesis
    proof (cases gres)
      case (Inl m)
      with g have "requested \<and> c = cw_cache st" by (auto simp: robots_get_def split: option.splits sum.splits)
      with Inl f assms Some hp t that(3) show thesis by (simp add: st1_def)
    next
      case (Inr r)
      with g have "(\<not> requested \<and> c = cw_cache st \<and> (cached (cw_cache st) t1 host = Some r \<or> cached (cw_cache st) t2 host = Some r))
        \<or> (requested \<and> fetch_robots host (fe_robots env) = Inr r \<and> c = store_robots (cw_cache st) t3 host r)"
        by (auto simp: robots_get_def split: option.splits sum.splits)
      with Inr f assms Some hp t False show thesis
        by (intro that(4) [of host path st1 r]) (auto simp: st1_def)
    qed
  qed
qed

lemma justified_store:
  assumes "cache_justified st" and "fetch_robots host reply = Inr r"
    and "cw_cache st' = store_robots (cw_cache st) t host r" and "set (cw_sent st) \<union> {SentRobots host reply t} \<subseteq> set (cw_sent st')"
  shows "cache_justified st'"
  unfolding cache_justified_def
proof (intro conjI allI impI)
  show "rc_ttl (cw_cache st') \<le> max_cache_ttl" using assms(1,3) by (simp add: cache_justified_def store_robots_def)
  fix h q s
  assume a: "robots_stamp (cw_cache st') h = Some (q, s)"
  show "\<exists>reply. SentRobots h reply s \<in> set (cw_sent st') \<and> fetch_robots h reply = Inr q"
  proof (cases "h = host")
    case True
    with a assms(3) have "q = r" "s = t" by (simp_all add: robots.stamp_put)
    with True assms(2,4) show ?thesis by blast
  next
    case False
    with a assms(3) have "robots_stamp (cw_cache st) h = Some (q, s)" using robots.stamp_put_other by metis
    with assms(1,4) show ?thesis unfolding cache_justified_def by blast
  qed
qed

lemma justified_frame:
  "cache_justified st \<Longrightarrow> cw_cache st' = cw_cache st \<Longrightarrow> set (cw_sent st) \<subseteq> set (cw_sent st') \<Longrightarrow> cache_justified st'"
  unfolding cache_justified_def by (metis subsetD)

lemma justified_fetch:
  assumes "fetch emit st env url = (res, st')" and "cache_justified st"
  shows "cache_justified st'"
  using assms(1)
proof (cases rule: fetch_cases)
  case 1
  with assms(2) show ?thesis by simp
next
  case (2 host path)
  from skip_frame [OF 2(3)] assms(2) show ?thesis by (auto intro: justified_frame)
next
  case (3 host path m)
  with assms(2) show ?thesis by (auto intro: justified_frame)
next
  case (4 host path r st1)
  have "cache_justified st1" using 4(8)
  proof
    assume "cw_sent st1 = cw_sent st @ [SentRobots host (fe_robots env) (snd (snd (fe_cache_times env)))]
      \<and> fetch_robots host (fe_robots env) = Inr r \<and> cw_cache st1 = store_robots (cw_cache st) (snd (snd (fe_cache_times env))) host r"
    then show ?thesis by (intro justified_store [OF assms(2), of host "fe_robots env" r st1 "snd (snd (fe_cache_times env))"]) auto
  qed (use assms(2) in simp)
  then show ?thesis using checked_fetch_frame(1,4) [OF 4(3)] by (auto intro: justified_frame)
qed

lemma justified_op: "cache_justified st \<Longrightarrow> cache_justified (run_op emit st op)"
proof (cases op)
  case (OpFetch env url)
  then show "cache_justified st \<Longrightarrow> ?thesis" using justified_fetch [of emit st env url] by (cases "fetch emit st env url") simp
next
  case (OpInvalidate host)
  assume a: "cache_justified st"
  have "robots_stamp (cw_cache st) h = Some x" if "robots_stamp (invalidate (cw_cache st) host) h = Some x" for h x
  proof (cases "h = host")
    case True
    with that show ?thesis by (simp add: robots.stamp_drop)
  next
    case False
    from robots.stamp_drop_other [OF this that] show ?thesis .
  qed
  with a show ?thesis by (auto simp: OpInvalidate cache_justified_def robots.ttl_drop)
next
  case OpClear
  then show "cache_justified st \<Longrightarrow> ?thesis" by (simp add: cache_justified_def clear_cache_def robots_stamp_def)
qed (simp_all add: cache_justified_def)

lemma justified_run: "cache_justified (crawl_run emit (new_crawler ttl n d audit agent) ops)"
proof (induction ops rule: rev_induct)
  case Nil
  then show ?case
    by (simp add: crawl_run_def new_crawler_def cache_justified_def new_robots_cache_def robots_stamp_def)
next
  case (snoc op ops)
  then show ?case by (simp add: crawl_run_def justified_op)
qed

section \<open>Slots\<close>

definition same_slots :: "throttle \<Rightarrow> throttle \<Rightarrow> bool" where
  "same_slots th th' \<longleftrightarrow> th_max th' = th_max th \<and> (\<forall>h. active_count th' h = active_count th h)"

lemma get_host_same: "get_host_state th host = (hs, th') \<Longrightarrow>
    th_max th' = th_max th \<and> th_default th' = th_default th \<and> (\<forall>h. fst (get_host_state th' h) = fst (get_host_state th h))"
  by (auto simp: get_host_state_def new_host_def split: option.splits if_splits)

lemma put_host_state: "fst (get_host_state (put_host th host hs) h) = (if h = host then hs else fst (get_host_state th h))"
  by (auto simp: get_host_state_def put_host_def new_host_def split: option.splits if_splits)

lemma same_slots_set_delay: "same_slots th (set_crawl_delay th host d)"
proof -
  obtain hs th' where g: "get_host_state th host = (hs, th')" by (cases "get_host_state th host")
  from get_host_same [OF g] g have "fst (get_host_state th' host) = hs" by simp
  with get_host_same [OF g] g show ?thesis
    by (auto simp: same_slots_def set_crawl_delay_def active_count_def put_host_state) (simp_all add: put_host_def with_delay_def)
qed

lemma same_slots_request:
  assumes "acquire th host now = Some (start, th1)"
  shows "same_slots th (release th1 host stop)"
proof -
  obtain hs th0 where g: "get_host_state th host = (hs, th0)" by (cases "get_host_state th host")
  with assms have th1: "th1 = put_host th0 host (hs\<lparr>hs_value := hs_value hs - 1\<rparr>)"
    by (auto simp: acquire_def Let_def split: if_splits wait.splits)
  obtain hs1 th2 where g1: "get_host_state th1 host = (hs1, th2)" by (cases "get_host_state th1 host")
  have "hs1 = hs\<lparr>hs_value := hs_value hs - 1\<rparr>" using put_host_state [of th0 host _ host] g1 th1 by (metis fst_conv)
  with get_host_same [OF g] get_host_same [OF g1] g g1 th1 show ?thesis
    by (auto simp: same_slots_def release_def active_count_def put_host_state release_host_def) (simp_all add: put_host_def)
qed

lemma same_slots_trans: "same_slots a b \<Longrightarrow> same_slots b c \<Longrightarrow> same_slots a c"
  by (simp add: same_slots_def)

lemma same_slots_refl: "same_slots a a"
  by (simp add: same_slots_def)

lemma same_slots_throttled:
  assumes "throttled_fetch st env host url = (res, st')"
  shows "same_slots (cw_throttle st) (cw_throttle st')"
  using assms same_slots_request
  by (auto simp: throttled_fetch_def Let_def same_slots_refl split: option.splits sum.splits)

lemma same_slots_checked:
  assumes "checked_fetch emit st env host path url r = (res, st')"
  shows "same_slots (cw_throttle st) (cw_throttle st')"
proof (cases "ro_available r \<and> check_rules (ro_rules r) (cw_agent st) (if path = [] then ''/'' else path)")
  case True
  define st0 where "st0 = (if ro_delay r \<noteq> None then st\<lparr>cw_throttle := set_crawl_delay (cw_throttle st) host (ro_delay r)\<rparr> else st)"
  have "throttled_fetch st0 env host url = (res, st')" using assms True unfolding checked_fetch_def Let_def st0_def by simp
  from same_slots_throttled [OF this] show ?thesis
    using same_slots_set_delay [of "cw_throttle st" host "ro_delay r"]
    by (cases "ro_delay r = None") (auto simp: st0_def intro: same_slots_trans)
next
  case False
  with assms show ?thesis
    unfolding checked_fetch_def Let_def by (auto simp: same_slots_refl dest!: skip_frame split: if_splits)
qed

lemma same_slots_fetch:
  assumes "fetch emit st env url = (res, st')"
  shows "same_slots (cw_throttle st) (cw_throttle st')"
  using assms
proof (cases rule: fetch_cases)
  case (2 host path)
  from skip_frame [OF 2(3)] show ?thesis by (simp add: same_slots_refl)
next
  case (4 host path r st1)
  from same_slots_checked [OF 4(3)] 4(5) show ?thesis by simp
qed (simp_all add: same_slots_refl)

section \<open>Properties\<close>

lemma robots_answer_recent:
  assumes just: "cache_justified st" and t: "fe_cache_times env = (t1, t2, t3)"
    and "st1 = st \<and> (\<exists>t\<in>{t1, t2}. cached (cw_cache st) t host = Some r)
      \<or> cw_sent st1 = cw_sent st @ [SentRobots host (fe_robots env) t3] \<and> fetch_robots host (fe_robots env) = Inr r"
  shows "\<exists>reply s. SentRobots host reply s \<in> set (cw_sent st1) \<and> fetch_robots host reply = Inr r
      \<and> (t1 - s \<le> 86400 \<or> t2 - s \<le> 86400 \<or> s = t3)"
  using assms(3)
proof
  assume "st1 = st \<and> (\<exists>t\<in>{t1, t2}. cached (cw_cache st) t host = Some r)"
  then obtain x where st1: "st1 = st" and x: "x \<in> {t1, t2}" "cached (cw_cache st) x host = Some r" by blast
  from robots.peek_stamp [OF x(2)] obtain s where s: "robots_stamp (cw_cache st) host = Some (r, s)" "x - s \<le> rc_ttl (cw_cache st)"
    by blast
  with just obtain reply where "SentRobots host reply s \<in> set (cw_sent st)" "fetch_robots host reply = Inr r"
    unfolding cache_justified_def by blast
  moreover have "x - s \<le> 86400" using s(2) just by (simp add: cache_justified_def max_cache_ttl_def)
  ultimately show ?thesis using x(1) st1 by blast
next
  assume "cw_sent st1 = cw_sent st @ [SentRobots host (fe_robots env) t3] \<and> fetch_robots host (fe_robots env) = Inr r"
  then show ?thesis by (intro exI [of _ "fe_robots env"] exI [of _ t3]) simp
qed


definition sample_env :: fetch_env where
  "sample_env = \<lparr>fe_now = 0, fe_cache_times = (1, 1, 2), fe_acquire = 3, fe_release = 4,
     fe_robots = HttpReply 200 (''User-agent: *'' @ [newline] @ ''Disallow: /private''),
     fe_content = ContentReply ''hello'' 200 None ''https://example.com/a'' 5, fe_request_id = ''crawl-0123456789abcdef'',
     fe_bracket_ok = (\<lambda>_. True)\<rparr>"

definition sample_audit :: audit_db where
  "sample_audit = \<lparr>adb_rows = [], adb_calls = 0, adb_env = (\<lambda>n. (int n, 0, InsertOk)), adb_triggers = []\<rparr>"

definition sample_crawler :: "audit_db crawler" where
  "sample_crawler = crawl_run audit_emit (new_crawler 86400 2 (Fin 1) sample_audit ''Bot'') [OpOptOut 0 ''Example.com'']"

lemma sample_fetch:
  "cw_sent (snd (fetch audit_emit sample_crawler sample_env ''https://example.com/a''))
     = [SentRobots ''example.com'' (fe_robots sample_env) 2, SentContent ''https://example.com/a'' 3]"
  "cw_sent sample_crawler = []"
  by code_simp+


definition page_requests :: "sent list \<Rightarrow> sent list" where
  "page_requests l = filter (\<lambda>x. case x of SentContent _ _ \<Rightarrow> True | _ \<Rightarrow> False) l"

text \<open>
  Every outcome of a fetch run on the audit log: a skip is returned exactly when its entry (of that
  reason, for that URL) is the one row appended, and then no page was requested; otherwise nothing is
  appended; a page is returned after exactly one request for it; and whatever happens the slots of the
  throttle are as before.
\<close>

theorem crawl_outcome:
  assumes "fetch audit_emit st env url = (res, st')"
  shows "(case res of
      Inr (Skipped sk) \<Rightarrow> (\<exists>row. adb_rows (cw_audit st') = adb_rows (cw_audit st) @ [row] \<and> ro_action row = skip_value (sk_reason sk)
          \<and> ro_resource row = url \<and> ro_actor row = ''crawler'') \<and> sk_url sk = url
          \<and> page_requests (cw_sent st') = page_requests (cw_sent st)
    | Inr (Fetched r) \<Rightarrow> adb_rows (cw_audit st') = adb_rows (cw_audit st)
          \<and> (\<exists>start. page_requests (cw_sent st')
                = page_requests (cw_sent st) @ [SentContent url start])
    | Inl e \<Rightarrow> adb_rows (cw_audit st') = adb_rows (cw_audit st))
    \<and> (\<forall>host. active_count (cw_throttle st') host = active_count (cw_throttle st) host)"
proof -
  define good where "good st0 res st' \<longleftrightarrow> (case res of
      Inr (Skipped sk) \<Rightarrow> (\<exists>row. adb_rows (cw_audit st') = adb_rows (cw_audit st0) @ [row] \<and> ro_action row = skip_value (sk_reason sk)
          \<and> ro_resource row = url \<and> ro_actor row = ''crawler'') \<and> sk_url sk = url \<and> page_requests (cw_sent st') = page_requests (cw_sent st0)
    | Inr (Fetched r) \<Rightarrow> adb_rows (cw_audit st') = adb_rows (cw_audit st0)
          \<and> (\<exists>start. page_requests (cw_sent st') = page_requests (cw_sent st0) @ [SentContent url start])
    | Inl e \<Rightarrow> adb_rows (cw_audit st') = adb_rows (cw_audit st0))" for st0 st' :: "audit_db crawler" and res :: "audit_error fetch_error + fetch_outcome"
  have skip: "good st0 res st'" if s: "skip audit_emit st0 env reason url dd ad = (res, st')" for st0 reason dd ad
  proof (cases "audit_emit (cw_audit st0) \<lparr>au_action = skip_value reason, au_tenant = None, au_actor = ''crawler'', au_resource = url,
             au_request_id = fe_request_id env, au_detail = ad\<rparr>")
    case (Inl e)
    with s show ?thesis by (auto simp: good_def skip_def)
  next
    case (Inr s')
    from trail.emit_appends [OF Inr] Inr s show ?thesis
      by (auto simp: good_def skip_def entry_row_def audit_row_of_def split: prod.splits)
  qed
  have request: "good st0 res st'" if "throttled_fetch st0 env host url = (res, st')" for st0 host
    using that by (auto simp: good_def throttled_fetch_def page_requests_def Let_def split: option.splits sum.splits)
  have checked: "good st0 res st'" if c: "checked_fetch audit_emit st0 env host path url r = (res, st')" for st0 host path r
  proof (cases "ro_available r \<and> check_rules (ro_rules r) (cw_agent st0) (if path = [] then ''/'' else path)")
    case True
    define st2 where "st2 = (if ro_delay r \<noteq> None then st0\<lparr>cw_throttle := set_crawl_delay (cw_throttle st0) host (ro_delay r)\<rparr> else st0)"
    have "throttled_fetch st2 env host url = (res, st')" using c True unfolding checked_fetch_def Let_def st2_def by simp
    from request [OF this] have "good st2 res st'" .
    moreover have "cw_audit st2 = cw_audit st0" "cw_sent st2 = cw_sent st0" by (simp_all add: st2_def)
    ultimately show ?thesis unfolding good_def by (simp only:)
  next
    case False
    with c skip show ?thesis unfolding checked_fetch_def Let_def by (auto split: if_splits)
  qed
  have "good st res st'"
    using assms
  proof (cases rule: fetch_cases)
    case (4 host path r st1)
    from checked [OF 4(3)] have "good st1 res st'" .
    moreover have "cw_audit st1 = cw_audit st" "page_requests (cw_sent st1) = page_requests (cw_sent st)" using 4(6,8) by (auto simp: page_requests_def)
    ultimately show ?thesis unfolding good_def by (simp only:)
  qed (auto simp: good_def dest: skip)
  then show ?thesis using same_slots_fetch [OF assms] by (simp add: good_def same_slots_def)
qed

theorem crawl_outcome_witness:
  "adb_rows (cw_audit (snd (fetch audit_emit sample_crawler sample_env ''https://example.com/private/x'')))
     \<noteq> adb_rows (cw_audit sample_crawler)"
proof -
  define url where "url = ''https://example.com/private/x''"
  obtain res st' where f: "fetch audit_emit sample_crawler sample_env url = (res, st')"
    by (cases "fetch audit_emit sample_crawler sample_env url")
  have "(case fst (fetch audit_emit sample_crawler sample_env url) of Inr (Skipped sk) \<Rightarrow> True | _ \<Rightarrow> False)"
    unfolding url_def by code_simp
  with f obtain sk where "res = Inr (Skipped sk)" by (auto split: sum.splits fetch_outcome.splits)
  with crawl_outcome [OF f] f show ?thesis by (auto simp: url_def)
qed

end
