(* ===== verification/Indexer.thy ===== *)
theory Indexer
  imports PyStr Interfaces
begin

text \<open>
  The indexer: \<open>backend/indexer/cleaner.py\<close>, \<open>hasher.py\<close>, \<open>embeddings.py\<close> (\<open>VectorIndex\<close>),
  \<open>lexical.py\<close>, \<open>dlq.py\<close>, \<open>scheduler.py\<close> and \<open>service.py\<close> (\<open>IndexerService\<close>).

  Arguments of the model: the entity decoder of the standard library (\<open>html.unescape\<close>), the digest
  \<open>sha256(...).hexdigest()\<close>, the embedding function (an external model or a digest) and the
  provenance scorer, which may be absent or raise.  A document arrives as text (decoding of bytes is
  not modelled).  The time an index entry was written is never read and is left out; the optional
  OpenSearch write, whose failures the code swallows, is in \<open>SearchCluster\<close>.
\<close>

section \<open>Cleaning\<close>

text \<open>The match of \<open><(script|style)[^>]*>.*?</\1>\<close> behind its opening bracket: what follows it.\<close>

fun drop_past :: "string \<Rightarrow> string \<Rightarrow> string option" where
  "drop_past p [] = None"
| "drop_past p (c # s) = (if starts_with (py_lower (c # s)) p then Some (drop (length p) (c # s)) else drop_past p s)"

definition element_end :: "string \<Rightarrow> string \<Rightarrow> string option" where
  "element_end name s =
     (if starts_with (py_lower s) name
      then (case dropWhile (\<lambda>c. c \<noteq> CHR ''>'') (drop (length name) s) of
              [] \<Rightarrow> None
            | _ # body \<Rightarrow> drop_past (''</'' @ name @ ''>'') body)
      else None)"

definition block_end :: "string \<Rightarrow> string option" where
  "block_end s = (case element_end ''script'' s of Some r \<Rightarrow> Some r | None \<Rightarrow> element_end ''style'' s)"

lemma drop_past_shorter: "drop_past p s = Some r \<Longrightarrow> length r \<le> length s"
  by (induction s) (auto split: if_splits)

lemma element_end_shorter: "element_end name s = Some r \<Longrightarrow> length r \<le> length s"
proof -
  assume e: "element_end name s = Some r"
  obtain x body where b: "dropWhile (\<lambda>c. c \<noteq> CHR ''>'') (drop (length name) s) = x # body"
      and r: "drop_past (''</'' @ name @ ''>'') body = Some r"
    using e by (auto simp: element_end_def split: if_splits list.splits)
  from b have "length (x # body) \<le> length (drop (length name) s)"
    by (metis length_dropWhile_le)
  with drop_past_shorter [OF r] show "length r \<le> length s" by simp
qed

lemma block_end_shorter: "block_end s = Some r \<Longrightarrow> length r \<le> length s"
  by (auto simp: block_end_def dest: element_end_shorter split: option.splits)

function strip_blocks :: "string \<Rightarrow> string" where
  "strip_blocks [] = []"
| "strip_blocks (c # s) =
     (if c = CHR ''<''
      then (case block_end s of Some r \<Rightarrow> strip_blocks r | None \<Rightarrow> c # strip_blocks s)
      else c # strip_blocks s)"
  by pat_completeness auto
termination by (relation "measure length") (auto dest: block_end_shorter)

text \<open>The match of \<open><[^>]+>\<close> behind its opening bracket.\<close>

definition tag_end :: "string \<Rightarrow> string option" where
  "tag_end s =
     (if takeWhile (\<lambda>c. c \<noteq> CHR ''>'') s = [] then None
      else (case dropWhile (\<lambda>c. c \<noteq> CHR ''>'') s of [] \<Rightarrow> None | _ # r \<Rightarrow> Some r))"

lemma tag_end_shorter: "tag_end s = Some r \<Longrightarrow> length r < length s"
proof -
  assume "tag_end s = Some r"
  then obtain x where "dropWhile (\<lambda>c. c \<noteq> CHR ''>'') s = x # r"
    by (auto simp: tag_end_def split: if_splits list.splits)
  then have "length (x # r) \<le> length s" by (metis length_dropWhile_le)
  then show "length r < length s" by simp
qed

function strip_tags :: "string \<Rightarrow> string" where
  "strip_tags [] = []"
| "strip_tags (c # s) =
     (if c = CHR ''<''
      then (case tag_end s of Some r \<Rightarrow> CHR '' '' # strip_tags r | None \<Rightarrow> c # strip_tags s)
      else c # strip_tags s)"
  by pat_completeness auto
termination by (relation "measure length") (auto dest: tag_end_shorter)

function collapse_ws :: "string \<Rightarrow> string" where
  "collapse_ws [] = []"
| "collapse_ws (c # s) =
     (if py_isspace c then CHR '' '' # collapse_ws (dropWhile py_isspace s) else c # collapse_ws s)"
  by pat_completeness auto
termination by (relation "measure length") (auto simp: less_Suc_eq_le length_dropWhile_le)

definition clean_html :: "(string \<Rightarrow> string) \<Rightarrow> string \<Rightarrow> string" where
  "clean_html unescape raw = py_strip (collapse_ws (unescape (strip_tags (strip_blocks raw))))"

section \<open>Lexical analysis\<close>

definition token_char :: "char \<Rightarrow> bool" where
  "token_char c = (let n = cp c in (97 \<le> n \<and> n \<le> 122) \<or> (48 \<le> n \<and> n \<le> 57))"

fun token_runs :: "string \<Rightarrow> string \<Rightarrow> string list" where
  "token_runs acc [] = (if acc = [] then [] else [rev acc])"
| "token_runs acc (c # s) =
     (if token_char c then token_runs (c # acc) s
      else if acc = [] then token_runs [] s else rev acc # token_runs [] s)"

definition stopwords :: "string list" where
  "stopwords = [
    ''a'', ''an'', ''the'', ''is'', ''are'', ''was'', ''were'', ''be'', ''been'', ''being'',
    ''have'', ''has'', ''had'', ''do'', ''does'', ''did'', ''will'', ''would'', ''could'',
    ''should'', ''may'', ''might'', ''shall'', ''can'', ''need'', ''dare'', ''ought'',
    ''used'', ''to'', ''of'', ''in'', ''for'', ''on'', ''with'', ''at'', ''by'', ''from'',
    ''as'', ''into'', ''through'', ''during'', ''before'', ''after'', ''above'', ''below'',
    ''between'', ''out'', ''off'', ''over'', ''under'', ''again'', ''further'', ''then'',
    ''once'', ''and'', ''but'', ''or'', ''nor'', ''not'', ''so'', ''yet'', ''both'', ''either'',
    ''neither'', ''each'', ''every'', ''all'', ''any'', ''few'', ''more'', ''most'', ''other'',
    ''some'', ''such'', ''no'', ''only'', ''own'', ''same'', ''than'', ''too'', ''very'',
    ''just'', ''because'', ''if'', ''when'', ''where'', ''how'', ''what'', ''which'', ''who'',
    ''whom'', ''this'', ''that'', ''these'', ''those'', ''it'', ''its'', ''i'', ''me'', ''my'',
    ''we'', ''our'', ''you'', ''your'', ''he'', ''him'', ''his'', ''she'', ''her'', ''they'',
    ''them'', ''their'']"

definition analyze_text :: "string \<Rightarrow> string list" where
  "analyze_text t = filter (\<lambda>w. w \<notin> set stopwords) (token_runs [] (py_lower t))"

section \<open>The two in-memory indexes\<close>

text \<open>
  Both are dictionaries from \<open>(document_id, version)\<close>: to the embedding, and to the analyzed tokens.
\<close>

type_synonym doc_key = "string \<times> int"
type_synonym vector_index = "(doc_key, rat list) dict"
type_synonym lexical_index = "(doc_key, string list) dict"

definition vector_write :: "vector_index \<Rightarrow> string \<Rightarrow> int \<Rightarrow> rat list \<Rightarrow> vector_index" where
  "vector_write ix d v e = dict_set (d, v) e ix"

definition vector_get :: "vector_index \<Rightarrow> string \<Rightarrow> int \<Rightarrow> rat list option" where
  "vector_get ix d v = dict_get ix (d, v)"

definition vector_delete :: "vector_index \<Rightarrow> string \<Rightarrow> int \<Rightarrow> bool \<times> vector_index" where
  "vector_delete ix d v = (if dict_get ix (d, v) \<noteq> None then (True, dict_del (d, v) ix) else (False, ix))"

definition lexical_write :: "lexical_index \<Rightarrow> string \<Rightarrow> int \<Rightarrow> string \<Rightarrow> lexical_index" where
  "lexical_write ix d v t = dict_set (d, v) (analyze_text t) ix"

definition lexical_get :: "lexical_index \<Rightarrow> string \<Rightarrow> int \<Rightarrow> string list option" where
  "lexical_get ix d v = dict_get ix (d, v)"

definition lexical_delete :: "lexical_index \<Rightarrow> string \<Rightarrow> int \<Rightarrow> bool \<times> lexical_index" where
  "lexical_delete ix d v = (if dict_get ix (d, v) \<noteq> None then (True, dict_del (d, v) ix) else (False, ix))"

section \<open>The dead-letter queue\<close>

record retry_state =
  rt_count :: nat
  rt_times :: "rat list"
  rt_error :: "string option"

record dlq_entry =
  dl_document_id :: "string option"
  dl_url :: string
  dl_reason :: string
  dl_attempts :: nat
  dl_routed_at :: datetime

record dead_letters =
  dq_states :: "(string, retry_state) dict"
  dq_entries :: "dlq_entry list"

definition min_retry_spacing :: rat where "min_retry_spacing = 60"
definition max_retry_attempts :: nat where "max_retry_attempts = 3"

definition new_retry_state :: retry_state where
  "new_retry_state = \<lparr>rt_count = 0, rt_times = [], rt_error = None\<rparr>"

definition retry_state_of :: "dead_letters \<Rightarrow> string \<Rightarrow> retry_state" where
  "retry_state_of q key = (case dict_get (dq_states q) key of Some s \<Rightarrow> s | None \<Rightarrow> new_retry_state)"

definition record_attempt :: "dead_letters \<Rightarrow> rat \<Rightarrow> string \<Rightarrow> string \<Rightarrow> dead_letters" where
  "record_attempt q now key err =
     (let s = retry_state_of q key;
          s' = s\<lparr>rt_count := rt_count s + 1, rt_times := rt_times s @ [now], rt_error := Some err\<rparr>
      in q\<lparr>dq_states := dict_set key s' (dq_states q)\<rparr>)"

fun well_spaced :: "rat list \<Rightarrow> bool" where
  "well_spaced (t # u # ts) = (if u - t < min_retry_spacing then False else well_spaced (u # ts))"
| "well_spaced _ = True"

definition should_route_to_dlq :: "dead_letters \<Rightarrow> string \<Rightarrow> bool" where
  "should_route_to_dlq q key =
     (case dict_get (dq_states q) key of
        None \<Rightarrow> False
      | Some s \<Rightarrow>
          if rt_count s < max_retry_attempts then False
          else if length (rt_times s) < max_retry_attempts then False
          else well_spaced (drop (length (rt_times s) - max_retry_attempts) (rt_times s)))"

text \<open>\<open>state.last_error or "unknown"\<close>: the empty error text is replaced as well.\<close>

definition route_to_dlq :: "dead_letters \<Rightarrow> datetime \<Rightarrow> string \<Rightarrow> string option \<Rightarrow> string \<Rightarrow> dlq_entry \<times> dead_letters" where
  "route_to_dlq q now key document_id source_url =
     (let s = retry_state_of q key;
          reason = (case rt_error s of Some e \<Rightarrow> if e = [] then ''unknown'' else e | None \<Rightarrow> ''unknown'');
          entry = \<lparr>dl_document_id = document_id, dl_url = source_url, dl_reason = reason,
                   dl_attempts = rt_count s, dl_routed_at = now\<rparr>
      in (entry, q\<lparr>dq_entries := dq_entries q @ [entry], dq_states := dict_del key (dq_states q)\<rparr>))"

definition clear_retry_state :: "dead_letters \<Rightarrow> string \<Rightarrow> dead_letters" where
  "clear_retry_state q key = q\<lparr>dq_states := dict_del key (dq_states q)\<rparr>"

section \<open>Priority sources\<close>

record priority_source =
  ps_url :: string
  ps_last_crawled :: "datetime option"
  ps_added :: datetime

type_synonym scheduler = "(string, priority_source) dict"

definition recrawl_window :: int where "recrawl_window = hours_us 24"

definition add_source :: "scheduler \<Rightarrow> datetime \<Rightarrow> string \<Rightarrow> priority_source \<times> scheduler" where
  "add_source sch now url =
     (case dict_get sch url of
        Some p \<Rightarrow> (p, sch)
      | None \<Rightarrow> (let p = \<lparr>ps_url = url, ps_last_crawled = None, ps_added = now\<rparr> in (p, dict_set url p sch)))"

definition remove_source :: "scheduler \<Rightarrow> string \<Rightarrow> bool \<times> scheduler" where
  "remove_source sch url = (if dict_get sch url \<noteq> None then (True, dict_del url sch) else (False, sch))"

definition record_crawl :: "scheduler \<Rightarrow> datetime \<Rightarrow> string \<Rightarrow> scheduler" where
  "record_crawl sch crawled_at url =
     (case dict_get sch url of
        Some p \<Rightarrow> dict_set url (p\<lparr>ps_last_crawled := Some crawled_at\<rparr>) sch
      | None \<Rightarrow> sch)"

definition source_due :: "datetime \<Rightarrow> priority_source \<Rightarrow> bool" where
  "source_due now p = (case ps_last_crawled p of None \<Rightarrow> True | Some t \<Rightarrow> now - t \<ge> recrawl_window)"

definition get_due_sources :: "scheduler \<Rightarrow> datetime \<Rightarrow> priority_source list" where
  "get_due_sources sch now = filter (source_due now) (map snd sch)"

definition is_source_due :: "scheduler \<Rightarrow> datetime \<Rightarrow> string \<Rightarrow> bool" where
  "is_source_due sch now url = (case dict_get sch url of None \<Rightarrow> False | Some p \<Rightarrow> source_due now p)"


section \<open>The service\<close>

record provenance_score =
  pv_credibility :: rat
  pv_ai :: rat
  pv_scored_at :: datetime

record document_version =
  dv_document_id :: string
  dv_version :: int
  dv_hash :: string
  dv_text :: string
  dv_url :: string
  dv_last_seen :: datetime
  dv_created :: datetime
  dv_provenance :: "provenance_score option"
  dv_visible :: bool

record index_result =
  xr_document_id :: string
  xr_version :: int
  xr_is_new :: bool
  xr_incremented :: bool
  xr_last_seen_only :: bool
  xr_dlq_routed :: bool

record index_env =
  ie_unescape :: "string \<Rightarrow> string"
  ie_sha256 :: "string \<Rightarrow> string"
  ie_embed :: "string \<Rightarrow> rat list"
  ie_score :: "(string \<Rightarrow> string + provenance_score) option"

record index_audit =
  xa_resource :: string
  xa_request_id :: string
  xa_document_id :: "string option"
  xa_url :: string
  xa_reason :: string
  xa_attempts :: nat

record indexer =
  ix_urls :: "(string, string) dict"
  ix_documents :: "(string, document_version list) dict"
  ix_vectors :: vector_index
  ix_lexical :: lexical_index
  ix_dlq :: dead_letters
  ix_audits :: "index_audit list option"

definition new_indexer :: "bool \<Rightarrow> indexer" where
  "new_indexer with_audit =
     \<lparr>ix_urls = [], ix_documents = [], ix_vectors = [], ix_lexical = [],
      ix_dlq = \<lparr>dq_states = [], dq_entries = []\<rparr>, ix_audits = (if with_audit then Some [] else None)\<rparr>"

definition compute_content_hash :: "index_env \<Rightarrow> string \<Rightarrow> string" where
  "compute_content_hash env t = ie_sha256 env t"

definition new_version :: "string \<Rightarrow> int \<Rightarrow> string \<Rightarrow> string \<Rightarrow> string \<Rightarrow> datetime \<Rightarrow> document_version" where
  "new_version d v h t url now =
     \<lparr>dv_document_id = d, dv_version = v, dv_hash = h, dv_text = t, dv_url = url,
      dv_last_seen = now, dv_created = now, dv_provenance = None, dv_visible = False\<rparr>"

text \<open>\<open>_score_document\<close> on the version object: the exception of the scorer, or the marked version.\<close>

definition score_document :: "index_env \<Rightarrow> document_version \<Rightarrow> string + document_version" where
  "score_document env d =
     (case ie_score env of
        Some scorer \<Rightarrow>
          (case scorer (dv_text d) of
             Inl e \<Rightarrow> Inl e
           | Inr sc \<Rightarrow> Inr (d\<lparr>dv_provenance := Some sc, dv_visible := True\<rparr>))
      | None \<Rightarrow> Inr (d\<lparr>dv_visible := True\<rparr>))"

definition put_versions :: "indexer \<Rightarrow> string \<Rightarrow> document_version list \<Rightarrow> indexer" where
  "put_versions ix d vs = ix\<lparr>ix_documents := dict_set d vs (ix_documents ix)\<rparr>"

definition write_indexes :: "index_env \<Rightarrow> indexer \<Rightarrow> document_version \<Rightarrow> indexer" where
  "write_indexes env ix d =
     ix\<lparr>ix_vectors := vector_write (ix_vectors ix) (dv_document_id d) (dv_version d) (ie_embed env (dv_text d)),
        ix_lexical := lexical_write (ix_lexical ix) (dv_document_id d) (dv_version d) (dv_text d)\<rparr>"

text \<open>
  Appending a version to the stored list, scoring it and writing the indexes.  When the scorer raises,
  the version has already been appended; it stays invisible and is in neither index.
\<close>

definition add_version :: "index_env \<Rightarrow> indexer \<Rightarrow> document_version list \<Rightarrow> document_version
    \<Rightarrow> index_result \<Rightarrow> (string + index_result) \<times> indexer" where
  "add_version env ix vs d res =
     (case score_document env d of
        Inl e \<Rightarrow> (Inl e, put_versions ix (dv_document_id d) (vs @ [d]))
      | Inr d' \<Rightarrow> (Inr res, write_indexes env (put_versions ix (dv_document_id d) (vs @ [d'])) d'))"

text \<open>
  \<open>fresh\<close> is the identifier \<open>uuid4\<close> yields.  The subscripts \<open>self._documents[document_id]\<close> and
  \<open>versions[-1]\<close> raise on a missing key or an empty list: \<open>KeyError\<close> and \<open>IndexError\<close>.
\<close>

definition index_document :: "index_env \<Rightarrow> indexer \<Rightarrow> datetime \<Rightarrow> string \<Rightarrow> string \<Rightarrow> string
    \<Rightarrow> (string + index_result) \<times> indexer" where
  "index_document env ix now fresh raw url =
     (let t = clean_html (ie_unescape env) raw;
          h = compute_content_hash env t
      in case dict_get (ix_urls ix) url of
           Some d \<Rightarrow>
             (case dict_get (ix_documents ix) d of
                None \<Rightarrow> (Inl ''KeyError'', ix)
              | Some vs \<Rightarrow>
                  if vs = [] then (Inl ''IndexError'', ix)
                  else if dv_hash (last vs) = h
                  then (Inr \<lparr>xr_document_id = d, xr_version = dv_version (last vs), xr_is_new = False,
                             xr_incremented = False, xr_last_seen_only = True, xr_dlq_routed = False\<rparr>,
                        put_versions ix d (butlast vs @ [(last vs)\<lparr>dv_last_seen := now\<rparr>]))
                  else (let v = dv_version (last vs) + 1
                        in add_version env ix vs (new_version d v h t url now)
                             \<lparr>xr_document_id = d, xr_version = v, xr_is_new = False,
                              xr_incremented = True, xr_last_seen_only = False, xr_dlq_routed = False\<rparr>))
         | None \<Rightarrow>
             add_version env (ix\<lparr>ix_urls := dict_set url fresh (ix_urls ix)\<rparr>) []
               (new_version fresh 1 h t url now)
               \<lparr>xr_document_id = fresh, xr_version = 1, xr_is_new = True,
                xr_incremented = False, xr_last_seen_only = False, xr_dlq_routed = False\<rparr>)"

definition py_or :: "string option \<Rightarrow> string \<Rightarrow> string" where
  "py_or x y = (case x of Some s \<Rightarrow> if s = [] then y else s | None \<Rightarrow> y)"

text \<open>
  Recording a failed attempt: \<open>now\<close> is the clock of \<open>time.time()\<close>, \<open>at_time\<close> that of \<open>datetime.now\<close>.
\<close>

definition index_document_with_retry :: "indexer \<Rightarrow> rat \<Rightarrow> datetime \<Rightarrow> string \<Rightarrow> string \<Rightarrow> string
    \<Rightarrow> (dlq_entry + index_result) \<times> indexer" where
  "index_document_with_retry ix now at_time request_id url err =
     (let q = record_attempt (ix_dlq ix) now url err;
          d = dict_get (ix_urls ix) url
      in if should_route_to_dlq q url
         then (let (entry, q') = route_to_dlq q at_time url d url;
                   a = \<lparr>xa_resource = py_or d url, xa_request_id = request_id, xa_document_id = d,
                        xa_url = url, xa_reason = dl_reason entry, xa_attempts = dl_attempts entry\<rparr>
               in (Inl entry, ix\<lparr>ix_dlq := q', ix_audits := map_option (\<lambda>as. as @ [a]) (ix_audits ix)\<rparr>))
         else (Inr \<lparr>xr_document_id = (case d of Some i \<Rightarrow> i | None \<Rightarrow> ''''), xr_version = 0, xr_is_new = False,
                    xr_incremented = False, xr_last_seen_only = False, xr_dlq_routed = False\<rparr>,
               ix\<lparr>ix_dlq := q\<rparr>))"

definition get_document :: "indexer \<Rightarrow> string \<Rightarrow> document_version list option" where
  "get_document ix d = dict_get (ix_documents ix) d"

definition get_latest_version :: "indexer \<Rightarrow> string \<Rightarrow> document_version option" where
  "get_latest_version ix d =
     (case dict_get (ix_documents ix) d of Some vs \<Rightarrow> if vs = [] then None else Some (last vs) | None \<Rightarrow> None)"

definition get_document_by_url :: "indexer \<Rightarrow> string \<Rightarrow> document_version list option" where
  "get_document_by_url ix url =
     (case dict_get (ix_urls ix) url of
        Some d \<Rightarrow> if d = [] then None else dict_get (ix_documents ix) d
      | None \<Rightarrow> None)"

definition is_visible :: "indexer \<Rightarrow> string \<Rightarrow> int option \<Rightarrow> bool" where
  "is_visible ix d version =
     (case dict_get (ix_documents ix) d of
        None \<Rightarrow> False
      | Some vs \<Rightarrow>
          if vs = [] then False
          else (case version of
              Some n \<Rightarrow> (case find (\<lambda>v. dv_version v = n) vs of Some v \<Rightarrow> dv_visible v | None \<Rightarrow> False)
            | None \<Rightarrow> dv_visible (last vs)))"


section \<open>The document store refines a map from addresses to content histories\<close>

datatype index_op = IndexOp datetime string string string

fun op_url :: "index_op \<Rightarrow> string" where "op_url (IndexOp now fresh raw url) = url"
fun op_fresh :: "index_op \<Rightarrow> string" where "op_fresh (IndexOp now fresh raw url) = fresh"

fun op_text :: "index_env \<Rightarrow> index_op \<Rightarrow> string" where
  "op_text env (IndexOp now fresh raw url) = clean_html (ie_unescape env) raw"

definition op_hash :: "index_env \<Rightarrow> index_op \<Rightarrow> string" where
  "op_hash env x = compute_content_hash env (op_text env x)"

fun index_step :: "index_env \<Rightarrow> indexer \<Rightarrow> index_op \<Rightarrow> (string + index_result) \<times> indexer" where
  "index_step env ix (IndexOp now fresh raw url) = index_document env ix now fresh raw url"

fun index_all :: "index_env \<Rightarrow> indexer \<Rightarrow> index_op list \<Rightarrow> (string + index_result) list \<times> indexer" where
  "index_all env ix [] = ([], ix)"
| "index_all env ix (x # xs) =
     (let (r, ix') = index_step env ix x; (rs, ix'') = index_all env ix' xs in (r # rs, ix''))"

definition can_score :: "index_env \<Rightarrow> string \<Rightarrow> bool" where
  "can_score env t = (case ie_score env of None \<Rightarrow> True | Some scorer \<Rightarrow> \<not> is_err (scorer t))"

text \<open>
  The specification: for every address the list of the content hashes stored under it.  A result says
  whether the content is new, is the next version, is the one already stored, or could not be scored.
\<close>

datatype observation = NewDocument | NewVersion int | SameContent int | ScoringFailed

type_synonym history = "string \<Rightarrow> string list"

definition history_step :: "index_env \<Rightarrow> history \<Rightarrow> index_op \<Rightarrow> observation \<times> history" where
  "history_step env H x =
     (let hs = H (op_url x); h = op_hash env x
      in if hs \<noteq> [] \<and> last hs = h then (SameContent (int (length hs)), H)
         else (if \<not> can_score env (op_text env x) then ScoringFailed
               else if hs = [] then NewDocument else NewVersion (int (length hs) + 1),
               H (op_url x := hs @ [h])))"

fun history_run :: "index_env \<Rightarrow> history \<Rightarrow> index_op list \<Rightarrow> observation list \<times> history" where
  "history_run env H [] = ([], H)"
| "history_run env H (x # xs) =
     (let (q, H') = history_step env H x; (qs, H'') = history_run env H' xs in (q # qs, H''))"

definition observe :: "string + index_result \<Rightarrow> observation" where
  "observe r = (case r of Inl e \<Rightarrow> ScoringFailed
     | Inr x \<Rightarrow> if xr_is_new x then NewDocument
               else if xr_incremented x then NewVersion (xr_version x) else SameContent (xr_version x))"

definition versions_at :: "indexer \<Rightarrow> string \<Rightarrow> document_version list" where
  "versions_at ix url =
     (case dict_get (ix_urls ix) url of
        None \<Rightarrow> []
      | Some d \<Rightarrow> (case dict_get (ix_documents ix) d of None \<Rightarrow> [] | Some vs \<Rightarrow> vs))"

definition history_of :: "indexer \<Rightarrow> history" where
  "history_of ix = (\<lambda>url. map dv_hash (versions_at ix url))"

text \<open>What holds of the versions stored under one identifier, and of the whole state.\<close>

definition versions_ok :: "string \<Rightarrow> string \<Rightarrow> document_version list \<Rightarrow> bool" where
  "versions_ok d url vs \<longleftrightarrow> vs \<noteq> [] \<and> map dv_version vs = map (\<lambda>i. int i + 1) [0..<length vs]
     \<and> (\<forall>v \<in> set vs. dv_document_id v = d \<and> dv_url v = url)"

definition indexed_text :: "document_version list option \<Rightarrow> int \<Rightarrow> string option" where
  "indexed_text vs n =
     (case vs of None \<Rightarrow> None
      | Some l \<Rightarrow> (case find (\<lambda>v. dv_version v = n) l of
                     None \<Rightarrow> None
                   | Some v \<Rightarrow> if dv_visible v then Some (dv_text v) else None))"

definition indexes_ok :: "index_env \<Rightarrow> indexer \<Rightarrow> bool" where
  "indexes_ok env ix \<longleftrightarrow> (\<forall>d n.
     vector_get (ix_vectors ix) d n = map_option (ie_embed env) (indexed_text (get_document ix d) n)
     \<and> lexical_get (ix_lexical ix) d n = map_option analyze_text (indexed_text (get_document ix d) n))"

definition store_ok :: "indexer \<Rightarrow> bool" where
  "store_ok ix \<longleftrightarrow>
     (\<forall>url d. dict_get (ix_urls ix) url = Some d \<longrightarrow>
        (\<exists>vs. dict_get (ix_documents ix) d = Some vs \<and> versions_ok d url vs))
     \<and> (\<forall>url url' d. dict_get (ix_urls ix) url = Some d \<longrightarrow> dict_get (ix_urls ix) url' = Some d \<longrightarrow> url = url')
     \<and> (\<forall>d. dict_get (ix_documents ix) d \<noteq> None \<longrightarrow> (\<exists>url. dict_get (ix_urls ix) url = Some d))"

definition indexer_ok :: "index_env \<Rightarrow> indexer \<Rightarrow> bool" where
  "indexer_ok env ix \<longleftrightarrow> store_ok ix \<and> indexes_ok env ix"

definition fresh_for :: "indexer \<Rightarrow> index_op \<Rightarrow> bool" where
  "fresh_for ix x \<longleftrightarrow> dict_get (ix_documents ix) (op_fresh x) = None"

text \<open>The four ways \<open>index_document\<close> can go on a consistent store.\<close>

lemma index_cases [consumes 1, case_names new same changed]:
  assumes ok: "store_ok ix"
  obtains (new) "dict_get (ix_urls ix) url = None"
      "index_step env ix (IndexOp now fresh raw url)
       = (let t = clean_html (ie_unescape env) raw
          in add_version env (ix\<lparr>ix_urls := dict_set url fresh (ix_urls ix)\<rparr>) []
               (new_version fresh 1 (compute_content_hash env t) t url now)
               \<lparr>xr_document_id = fresh, xr_version = 1, xr_is_new = True,
                xr_incremented = False, xr_last_seen_only = False, xr_dlq_routed = False\<rparr>)"
  | (same) d vs v where "dict_get (ix_urls ix) url = Some d" "dict_get (ix_documents ix) d = Some (vs @ [v])"
      "versions_ok d url (vs @ [v])" "dv_hash v = op_hash env (IndexOp now fresh raw url)"
      "index_step env ix (IndexOp now fresh raw url)
       = (Inr \<lparr>xr_document_id = d, xr_version = dv_version v, xr_is_new = False,
               xr_incremented = False, xr_last_seen_only = True, xr_dlq_routed = False\<rparr>,
          put_versions ix d (vs @ [v\<lparr>dv_last_seen := now\<rparr>]))"
  | (changed) d vs v where "dict_get (ix_urls ix) url = Some d" "dict_get (ix_documents ix) d = Some (vs @ [v])"
      "versions_ok d url (vs @ [v])" "dv_hash v \<noteq> op_hash env (IndexOp now fresh raw url)"
      "index_step env ix (IndexOp now fresh raw url)
       = (let t = clean_html (ie_unescape env) raw; n = dv_version v + 1
          in add_version env ix (vs @ [v]) (new_version d n (compute_content_hash env t) t url now)
               \<lparr>xr_document_id = d, xr_version = n, xr_is_new = False,
                xr_incremented = True, xr_last_seen_only = False, xr_dlq_routed = False\<rparr>)"
proof (cases "dict_get (ix_urls ix) url")
  case None
  then show ?thesis by (intro new) (simp_all add: index_document_def Let_def)
next
  case (Some d)
  with ok obtain l where l: "dict_get (ix_documents ix) d = Some l" and vok: "versions_ok d url l"
    unfolding store_ok_def by blast
  from vok have "l \<noteq> []" by (simp add: versions_ok_def)
  then obtain vs v where lv: "l = vs @ [v]" by (cases l rule: rev_cases) auto
  show ?thesis
  proof (cases "dv_hash v = op_hash env (IndexOp now fresh raw url)")
    case True
    with Some l lv vok show ?thesis
      by (intro same [of d vs v]) (simp_all add: index_document_def Let_def op_hash_def)
  next
    case False
    with Some l lv vok show ?thesis
      by (intro changed [of d vs v]) (simp_all add: index_document_def Let_def op_hash_def)
  qed
qed


lemma versions_ok_last: "versions_ok d url (vs @ [v]) \<Longrightarrow> dv_version v = int (length vs) + 1"
  by (simp add: versions_ok_def)

lemma versions_ok_distinct: "versions_ok d url vs \<Longrightarrow> distinct (map dv_version vs)"
  by (simp add: versions_ok_def distinct_map inj_on_def)

lemma versions_ok_snoc:
  assumes "versions_ok d url (vs @ [v])" and "dv_version w = dv_version v + 1"
    and "dv_document_id w = d" and "dv_url w = url"
  shows "versions_ok d url (vs @ [v, w])"
  using assms by (auto simp: versions_ok_def)

lemma versions_ok_touch:
  "versions_ok d url (vs @ [v]) \<Longrightarrow> versions_ok d url (vs @ [v\<lparr>dv_last_seen := now\<rparr>])"
  by (auto simp: versions_ok_def)

lemma find_snoc: "find P (xs @ [x]) = (case find P xs of Some y \<Rightarrow> Some y | None \<Rightarrow> if P x then Some x else None)"
  by (induction xs) auto

lemma versions_ok_unused:
  assumes "versions_ok d url vs" and "n > int (length vs) \<or> n < 1"
  shows "find (\<lambda>v. dv_version v = n) vs = None"
proof -
  have "dv_version v \<noteq> n" if "v \<in> set vs" for v
  proof -
    have "dv_version v \<in> set (map dv_version vs)" using that by simp
    also have "map dv_version vs = map (\<lambda>i. int i + 1) [0..<length vs]"
      using assms(1) by (simp add: versions_ok_def)
    finally show ?thesis using assms(2) by auto
  qed
  then show ?thesis by (simp add: find_None_iff)
qed

lemma store_ok_put:
  assumes ok: "store_ok ix" and u: "dict_get (ix_urls ix) url = Some d" and v: "versions_ok d url vs"
  shows "store_ok (put_versions ix d vs)"
  unfolding store_ok_def put_versions_def
proof (intro conjI allI impI)
  fix url' d'
  assume a: "dict_get (ix_urls (ix\<lparr>ix_documents := dict_set d vs (ix_documents ix)\<rparr>)) url' = Some d'"
  show "\<exists>l. dict_get (ix_documents (ix\<lparr>ix_documents := dict_set d vs (ix_documents ix)\<rparr>)) d' = Some l
          \<and> versions_ok d' url' l"
  proof (cases "d' = d")
    case True
    with a ok u have "url' = url" unfolding store_ok_def by fastforce
    with True v show ?thesis by simp
  next
    case False
    with a ok show ?thesis unfolding store_ok_def by simp
  qed
next
  fix url1 url2 d'
  assume "dict_get (ix_urls (ix\<lparr>ix_documents := dict_set d vs (ix_documents ix)\<rparr>)) url1 = Some d'"
    and "dict_get (ix_urls (ix\<lparr>ix_documents := dict_set d vs (ix_documents ix)\<rparr>)) url2 = Some d'"
  with ok show "url1 = url2" unfolding store_ok_def by fastforce
next
  fix d'
  assume "dict_get (ix_documents (ix\<lparr>ix_documents := dict_set d vs (ix_documents ix)\<rparr>)) d' \<noteq> None"
  with ok u show "\<exists>url. dict_get (ix_urls (ix\<lparr>ix_documents := dict_set d vs (ix_documents ix)\<rparr>)) url = Some d'"
    unfolding store_ok_def by (cases "d' = d") auto
qed

lemma store_ok_new:
  assumes ok: "store_ok ix" and u: "dict_get (ix_urls ix) url = None"
    and f: "dict_get (ix_documents ix) fresh = None" and v: "versions_ok fresh url vs"
  shows "store_ok (put_versions (ix\<lparr>ix_urls := dict_set url fresh (ix_urls ix)\<rparr>) fresh vs)"
proof -
  have nf: "dict_get (ix_urls ix) x \<noteq> Some fresh" for x
    using ok f unfolding store_ok_def by fastforce
  from ok have a: "\<And>x d. dict_get (ix_urls ix) x = Some d \<Longrightarrow>
      \<exists>vs. dict_get (ix_documents ix) d = Some vs \<and> versions_ok d x vs"
    and b: "\<And>x y d. dict_get (ix_urls ix) x = Some d \<Longrightarrow> dict_get (ix_urls ix) y = Some d \<Longrightarrow> x = y"
    and c: "\<And>d. dict_get (ix_documents ix) d \<noteq> None \<Longrightarrow> \<exists>x. dict_get (ix_urls ix) x = Some d"
    unfolding store_ok_def by blast+
  show ?thesis
    unfolding store_ok_def put_versions_def
  proof (intro conjI allI impI, goal_cases)
    case (1 x d)
    then show ?case
    proof (cases "x = url")
      case False
      with 1 nf [of x] a [of x d] show ?thesis by auto
    qed (use v in simp)
  next
    case (2 x y d)
    with nf b show ?case by (auto split: if_splits)
  next
    case (3 d)
    show ?case
    proof (cases "d = fresh")
      case True
      then show ?thesis by (intro exI [of _ url]) simp
    next
      case False
      with 3 c [of d] obtain x where "dict_get (ix_urls ix) x = Some d" by auto
      with u show ?thesis by (intro exI [of _ x]) auto
    qed
  qed
qed

lemma write_indexes_frame [simp]:
  "ix_urls (write_indexes env ix d) = ix_urls ix"
  "ix_documents (write_indexes env ix d) = ix_documents ix"
  by (simp_all add: write_indexes_def)

lemma store_ok_write [simp]: "store_ok (write_indexes env ix d) = store_ok ix"
  by (simp add: store_ok_def)

lemma put_versions_frame [simp]:
  "ix_urls (put_versions ix d vs) = ix_urls ix"
  "ix_vectors (put_versions ix d vs) = ix_vectors ix"
  "ix_lexical (put_versions ix d vs) = ix_lexical ix"
  "get_document (put_versions ix d vs) d' = (if d' = d then Some vs else get_document ix d')"
  by (simp_all add: put_versions_def get_document_def)

lemma score_document_eq:
  "score_document env d = (if can_score env (dv_text d)
     then Inr (d\<lparr>dv_provenance := (case ie_score env of Some f \<Rightarrow> Some (projr (f (dv_text d))) | None \<Rightarrow> dv_provenance d),
                 dv_visible := True\<rparr>)
     else Inl (projl ((the (ie_score env)) (dv_text d))))"
  by (auto simp: score_document_def can_score_def split: option.splits sum.splits)


lemma indexed_text_snoc:
  "find (\<lambda>v. dv_version v = dv_version w) vs = None \<Longrightarrow>
   indexed_text (Some (vs @ [w])) n =
     (if n = dv_version w then (if dv_visible w then Some (dv_text w) else None) else indexed_text (Some vs) n)"
  by (auto simp: indexed_text_def find_snoc split: option.splits)

lemma indexed_text_touch:
  "indexed_text (Some (vs @ [v\<lparr>dv_last_seen := now\<rparr>])) n = indexed_text (Some (vs @ [v])) n"
  by (auto simp: indexed_text_def find_snoc split: option.splits)

lemma indexes_ok_put:
  assumes "indexes_ok env ix" and "\<And>n. indexed_text (Some l) n = indexed_text (get_document ix d) n"
  shows "indexes_ok env (put_versions ix d l)"
  using assms by (simp add: indexes_ok_def)

lemma indexes_ok_add:
  assumes ok: "indexes_ok env ix"
    and cur: "\<And>n. indexed_text (get_document ix (dv_document_id w)) n = indexed_text (Some vs) n"
    and new: "find (\<lambda>v. dv_version v = dv_version w) vs = None" and inv: "\<not> dv_visible w"
  shows "indexes_ok env (snd (add_version env ix vs w res))"
proof (cases "score_document env w")
  case (Inl e)
  have "indexed_text (Some vs) (dv_version w) = None" using new by (simp add: indexed_text_def)
  then have "indexes_ok env (put_versions ix (dv_document_id w) (vs @ [w]))"
    using inv by (intro indexes_ok_put [OF ok]) (simp add: indexed_text_snoc [OF new] cur)
  then show ?thesis by (simp add: add_version_def Inl)
next
  case (Inr w')
  then have w': "dv_document_id w' = dv_document_id w" "dv_version w' = dv_version w"
      "dv_text w' = dv_text w" "dv_visible w'"
    by (auto simp: score_document_eq split: if_splits)
  from new w'(2) have new': "find (\<lambda>v. dv_version v = dv_version w') vs = None" by simp
  have "vector_get (vector_write (ix_vectors ix) (dv_document_id w') (dv_version w') (ie_embed env (dv_text w'))) d n
      = (if d = dv_document_id w \<and> n = dv_version w then Some (ie_embed env (dv_text w)) else vector_get (ix_vectors ix) d n)"
   and "lexical_get (lexical_write (ix_lexical ix) (dv_document_id w') (dv_version w') (dv_text w')) d n
      = (if d = dv_document_id w \<and> n = dv_version w then Some (analyze_text (dv_text w)) else lexical_get (ix_lexical ix) d n)" for d n
    by (simp_all add: vector_get_def vector_write_def lexical_get_def lexical_write_def w')
  moreover have "indexed_text (get_document (put_versions ix (dv_document_id w) (vs @ [w'])) d) n
      = (if d = dv_document_id w \<and> n = dv_version w then Some (dv_text w) else indexed_text (get_document ix d) n)" for d n
    using cur by (simp add: indexed_text_snoc [OF new'] w')
  ultimately show ?thesis
    using ok by (simp add: add_version_def Inr indexes_ok_def write_indexes_def get_document_def put_versions_def w')
qed

lemma add_version_cases:
  "add_version env ix vs w res
     = (if can_score env (dv_text w)
        then (let w' = projr (score_document env w) in (Inr res, write_indexes env (put_versions ix (dv_document_id w) (vs @ [w'])) w'))
        else (Inl (projl (score_document env w)), put_versions ix (dv_document_id w) (vs @ [w])))"
  by (simp add: add_version_def score_document_eq Let_def)

text \<open>What a step leaves under the address, and that it touches no other address.\<close>

lemma versions_at_put:
  "store_ok ix \<Longrightarrow> dict_get (ix_urls ix) url = Some d \<Longrightarrow>
   versions_at (put_versions ix d l) url' = (if url' = url then l else versions_at ix url')"
  by (auto simp: versions_at_def put_versions_def store_ok_def split: option.splits)

lemma versions_at_new:
  "store_ok ix \<Longrightarrow> dict_get (ix_urls ix) url = None \<Longrightarrow> dict_get (ix_documents ix) fresh = None \<Longrightarrow>
   versions_at (put_versions (ix\<lparr>ix_urls := dict_set url fresh (ix_urls ix)\<rparr>) fresh l) url'
     = (if url' = url then l else versions_at ix url')"
  by (fastforce simp: versions_at_def put_versions_def store_ok_def split: option.splits)

lemma versions_at_write [simp]: "versions_at (write_indexes env ix w) url = versions_at ix url"
  by (simp add: versions_at_def split: option.split)

lemma versions_at_some:
  "dict_get (ix_urls ix) url = Some d \<Longrightarrow> dict_get (ix_documents ix) d = Some l \<Longrightarrow> versions_at ix url = l"
  by (simp add: versions_at_def)

lemma versions_at_none: "dict_get (ix_urls ix) url = None \<Longrightarrow> versions_at ix url = []"
  by (simp add: versions_at_def)

lemma scored_version:
  "can_score env (dv_text w) \<Longrightarrow> dv_hash (projr (score_document env w)) = dv_hash w
     \<and> dv_version (projr (score_document env w)) = dv_version w \<and> dv_url (projr (score_document env w)) = dv_url w
     \<and> dv_document_id (projr (score_document env w)) = dv_document_id w \<and> dv_visible (projr (score_document env w))
     \<and> dv_text (projr (score_document env w)) = dv_text w"
  by (simp add: score_document_eq)


lemma versions_ok_single: "dv_version w = 1 \<Longrightarrow> dv_document_id w = d \<Longrightarrow> dv_url w = url \<Longrightarrow> versions_ok d url [w]"
  by (simp add: versions_ok_def)

lemma new_version_simps [simp]:
  "dv_document_id (new_version d v h t url now) = d" "dv_version (new_version d v h t url now) = v"
  "dv_hash (new_version d v h t url now) = h" "dv_text (new_version d v h t url now) = t"
  "dv_url (new_version d v h t url now) = url" "\<not> dv_visible (new_version d v h t url now)"
  by (simp_all add: new_version_def)

lemma store_ok_add_new:
  assumes "store_ok ix" and "dict_get (ix_urls ix) url = None" and "dict_get (ix_documents ix) fresh = None"
  shows "store_ok (snd (add_version env (ix\<lparr>ix_urls := dict_set url fresh (ix_urls ix)\<rparr>) []
      (new_version fresh 1 h t url now) res))"
  using scored_version [of env "new_version fresh 1 h t url now"]
  by (auto simp: add_version_cases Let_def intro!: store_ok_new [OF assms] versions_ok_single)

lemma store_ok_add_changed:
  assumes "store_ok ix" and "dict_get (ix_urls ix) url = Some d" and "versions_ok d url (vs @ [v])"
  shows "store_ok (snd (add_version env ix (vs @ [v]) (new_version d (dv_version v + 1) h t url now) res))"
  using scored_version [of env "new_version d (dv_version v + 1) h t url now"]
  by (auto simp: add_version_cases Let_def intro!: store_ok_put [OF assms(1,2)] versions_ok_snoc [OF assms(3)])

lemma index_step_ok:
  assumes ok: "indexer_ok env ix" and f: "fresh_for ix x"
  shows "indexer_ok env (snd (index_step env ix x))"
proof -
  obtain now fresh raw url where x: "x = IndexOp now fresh raw url" by (cases x)
  from ok have s: "store_ok ix" and i: "indexes_ok env ix" by (simp_all add: indexer_ok_def)
  from f x have f': "dict_get (ix_documents ix) fresh = None" by (simp add: fresh_for_def)
  from s show ?thesis unfolding x
  proof (cases rule: index_cases [where env = env and url = url and now = now and fresh = fresh and raw = raw])
    case new
    have "indexes_ok env (ix\<lparr>ix_urls := dict_set url fresh (ix_urls ix)\<rparr>)"
      using i by (simp add: indexes_ok_def get_document_def)
    then have "indexes_ok env (snd (index_step env ix (IndexOp now fresh raw url)))"
      unfolding new(2) Let_def by (rule indexes_ok_add) (simp_all add: get_document_def f' indexed_text_def)
    moreover have "store_ok (snd (index_step env ix (IndexOp now fresh raw url)))"
      unfolding new(2) Let_def by (rule store_ok_add_new [OF s new(1) f'])
    ultimately show "indexer_ok env (snd (index_step env ix (IndexOp now fresh raw url)))"
      by (simp add: indexer_ok_def)
  next
    case (same d vs v)
    have "store_ok (put_versions ix d (vs @ [v\<lparr>dv_last_seen := now\<rparr>]))"
      by (rule store_ok_put [OF s same(1) versions_ok_touch [OF same(3)]])
    moreover have "indexes_ok env (put_versions ix d (vs @ [v\<lparr>dv_last_seen := now\<rparr>]))"
      by (rule indexes_ok_put [OF i]) (simp add: indexed_text_touch get_document_def same(2))
    ultimately show "indexer_ok env (snd (index_step env ix (IndexOp now fresh raw url)))"
      unfolding same(5) by (simp add: indexer_ok_def)
  next
    case (changed d vs v)
    have "indexes_ok env (snd (index_step env ix (IndexOp now fresh raw url)))"
      unfolding changed(5) Let_def
      by (rule indexes_ok_add [OF i])
        (simp_all add: get_document_def changed(2) versions_ok_unused [OF changed(3)] versions_ok_last [OF changed(3)])
    moreover have "store_ok (snd (index_step env ix (IndexOp now fresh raw url)))"
      unfolding changed(5) Let_def by (rule store_ok_add_changed [OF s changed(1,3)])
    ultimately show "indexer_ok env (snd (index_step env ix (IndexOp now fresh raw url)))"
      by (simp add: indexer_ok_def)
  qed
qed

lemma add_version_new_at:
  assumes "store_ok ix" and "dict_get (ix_urls ix) url = None" and "dict_get (ix_documents ix) fresh = None"
  shows "history_of (snd (add_version env (ix\<lparr>ix_urls := dict_set url fresh (ix_urls ix)\<rparr>) []
      (new_version fresh 1 h t url now) res)) = (history_of ix)(url := [h])"
  using scored_version [of env "new_version fresh 1 h t url now"]
  by (auto simp: add_version_cases history_of_def versions_at_new [OF assms] fun_eq_iff Let_def)

lemma add_version_changed_at:
  assumes "store_ok ix" and "dict_get (ix_urls ix) url = Some d" and "dict_get (ix_documents ix) d = Some vs"
  shows "history_of (snd (add_version env ix vs (new_version d n h t url now) res))
      = (history_of ix)(url := map dv_hash vs @ [h])"
  using scored_version [of env "new_version d n h t url now"]
  by (auto simp: add_version_cases history_of_def versions_at_put [OF assms(1,2)] fun_eq_iff Let_def)

lemma index_step_history:
  assumes ok: "indexer_ok env ix" and f: "fresh_for ix x"
  shows "history_of (snd (index_step env ix x)) = snd (history_step env (history_of ix) x)"
proof -
  obtain now fresh raw url where x: "x = IndexOp now fresh raw url" by (cases x)
  from ok have s: "store_ok ix" by (simp add: indexer_ok_def)
  from f x have f': "dict_get (ix_documents ix) fresh = None" by (simp add: fresh_for_def)
  from s show ?thesis unfolding x
  proof (cases rule: index_cases [where env = env and url = url and now = now and fresh = fresh and raw = raw])
    case new
    have "history_of ix url = []" by (simp add: history_of_def versions_at_none [OF new(1)])
    then show "history_of (snd (index_step env ix (IndexOp now fresh raw url)))
        = snd (history_step env (history_of ix) (IndexOp now fresh raw url))"
      unfolding new(2) Let_def add_version_new_at [OF s new(1) f']
      by (simp add: history_step_def op_hash_def Let_def)
  next
    case (same d vs v)
    have "history_of ix url = map dv_hash (vs @ [v])"
      by (simp add: history_of_def versions_at_some [OF same(1,2)])
    then show "history_of (snd (index_step env ix (IndexOp now fresh raw url)))
        = snd (history_step env (history_of ix) (IndexOp now fresh raw url))"
      unfolding same(5) by (auto simp: same(4) history_step_def history_of_def versions_at_put [OF s same(1)] fun_eq_iff)
  next
    case (changed d vs v)
    have "history_of ix url = map dv_hash (vs @ [v])"
      by (simp add: history_of_def versions_at_some [OF changed(1,2)])
    then show "history_of (snd (index_step env ix (IndexOp now fresh raw url)))
        = snd (history_step env (history_of ix) (IndexOp now fresh raw url))"
      unfolding changed(5) Let_def add_version_changed_at [OF s changed(1,2)]
      using changed(4) by (simp add: history_step_def op_hash_def Let_def)
  qed
qed

lemma fst_add_version: "fst (add_version env ix vs w res)
    = (if can_score env (dv_text w) then Inr res else Inl (projl (score_document env w)))"
  by (simp add: add_version_cases Let_def)

lemma index_step_observe:
  assumes ok: "indexer_ok env ix" and f: "fresh_for ix x"
  shows "observe (fst (index_step env ix x)) = fst (history_step env (history_of ix) x)"
proof -
  obtain now fresh raw url where x: "x = IndexOp now fresh raw url" by (cases x)
  from ok have s: "store_ok ix" by (simp add: indexer_ok_def)
  from s show ?thesis unfolding x
  proof (cases rule: index_cases [where env = env and url = url and now = now and fresh = fresh and raw = raw])
    case new
    then show "observe (fst (index_step env ix (IndexOp now fresh raw url)))
        = fst (history_step env (history_of ix) (IndexOp now fresh raw url))"
      by (simp add: Let_def fst_add_version observe_def history_step_def history_of_def versions_at_none)
  next
    case (same d vs v)
    then show "observe (fst (index_step env ix (IndexOp now fresh raw url)))
        = fst (history_step env (history_of ix) (IndexOp now fresh raw url))"
      by (simp add: observe_def history_step_def history_of_def versions_at_some versions_ok_last)
  next
    case (changed d vs v)
    then show "observe (fst (index_step env ix (IndexOp now fresh raw url)))
        = fst (history_step env (history_of ix) (IndexOp now fresh raw url))"
      by (simp add: Let_def fst_add_version observe_def history_step_def history_of_def versions_at_some versions_ok_last)
  qed
qed

interpretation store: simulation history_of "indexer_ok env" fresh_for "index_step env" "history_step env" observe
  for env
  by unfold_locales (fact index_step_ok index_step_history index_step_observe)+


lemma index_all_run: "index_all env ix ops = store.run env ix ops"
  by (induction ops arbitrary: ix) simp_all

lemma history_run_arun: "history_run env H ops = store.arun env H ops"
  by (induction ops arbitrary: H) simp_all

lemma add_version_documents:
  "dict_get (ix_documents (snd (add_version env ix vs w res))) d \<noteq> None \<Longrightarrow>
   d = dv_document_id w \<or> dict_get (ix_documents ix) d \<noteq> None"
  by (auto simp: add_version_cases Let_def put_versions_def split: if_splits)

lemma index_step_documents:
  assumes "store_ok ix" and "dict_get (ix_documents (snd (index_step env ix x))) d \<noteq> None"
  shows "d = op_fresh x \<or> dict_get (ix_documents ix) d \<noteq> None"
proof -
  obtain now fresh raw url where x: "x = IndexOp now fresh raw url" by (cases x)
  from assms(1) show ?thesis
  proof (cases rule: index_cases [where env = env and url = url and now = now and fresh = fresh and raw = raw])
    case new
    from assms(2) show ?thesis
      unfolding x new(2) Let_def by - (drule add_version_documents, auto)
  next
    case (same d' vs v)
    from assms(2) show ?thesis
      unfolding x same(5) by (auto simp: put_versions_def same(2) split: if_splits)
  next
    case (changed d' vs v)
    from assms(2) show ?thesis
      unfolding x changed(5) Let_def by - (drule add_version_documents, auto simp: changed(2))
  qed
qed

lemma fresh_guarded:
  assumes "indexer_ok env ix" and "distinct (map op_fresh ops)"
    and "\<forall>x \<in> set ops. fresh_for ix x"
  shows "store.guarded_run env ix ops"
  using assms
proof (induction ops arbitrary: ix)
  case Nil
  then show ?case by simp
next
  case (Cons x xs)
  let ?ix = "snd (index_step env ix x)"
  from Cons.prems(1) have s: "store_ok ix" by (simp add: indexer_ok_def)
  have "fresh_for ?ix y" if "y \<in> set xs" for y
  proof -
    from that Cons.prems(2) have "op_fresh y \<noteq> op_fresh x" by (auto simp: image_iff)
    moreover from that Cons.prems(3) have "dict_get (ix_documents ix) (op_fresh y) = None"
      by (simp add: fresh_for_def)
    ultimately show ?thesis
      using index_step_documents [OF s, of env x "op_fresh y"] unfolding fresh_for_def by blast
  qed
  moreover have "indexer_ok env ?ix" using Cons.prems by (intro index_step_ok) simp_all
  ultimately have "store.guarded_run env ?ix xs" using Cons by simp
  with Cons.prems show ?case by simp
qed

lemma indexer_ok_new: "indexer_ok env (new_indexer b)"
  by (simp add: indexer_ok_def store_ok_def indexes_ok_def new_indexer_def vector_get_def lexical_get_def
      get_document_def indexed_text_def)

lemma fresh_guarded_new: "distinct (map op_fresh ops) \<Longrightarrow> store.guarded_run env (new_indexer b) ops"
  by (rule fresh_guarded [OF indexer_ok_new]) (simp_all add: fresh_for_def new_indexer_def)

lemma history_run_snoc:
  "snd (history_run env H (xs @ [x])) = snd (history_step env (snd (history_run env H xs)) x)"
  by (induction xs arbitrary: H) (simp_all add: split_beta)

lemma remdups_adj_snoc:
  "remdups_adj (xs @ [x]) = (if xs \<noteq> [] \<and> last xs = x then remdups_adj xs else remdups_adj xs @ [x])"
proof (cases "xs = []")
  case False
  then show ?thesis by (simp add: remdups_adj_append'')
qed simp

lemma history_run_contents:
  "snd (history_run env (\<lambda>_. []) ops) url = remdups_adj (map (op_hash env) (filter (\<lambda>x. op_url x = url) ops))"
proof (induction ops rule: rev_induct)
  case Nil
  then show ?case by simp
next
  case (snoc x xs)
  show ?case
  proof (cases "op_url x = url")
    case True
    with snoc show ?thesis
      by (simp add: history_run_snoc history_step_def remdups_adj_snoc Let_def)
  next
    case False
    with snoc show ?thesis by (simp add: history_run_snoc history_step_def Let_def)
  qed
qed

lemma versions_at_numbers:
  "store_ok ix \<Longrightarrow> map dv_version (versions_at ix url) = map (\<lambda>i. int i + 1) [0..<length (versions_at ix url)]"
  by (fastforce simp: versions_at_def store_ok_def versions_ok_def split: option.splits)

text \<open>
  C11. The document store implements a map from addresses to content histories.  For any sequence of
  documents offered under distinct fresh identifiers, the result of every call is the one the map
  gives (new document, next version, content already stored, or scoring failed); the versions stored
  under an address are the contents offered for it with adjacent repetitions removed, and they are
  numbered 1, 2, 3, and so on.
\<close>

theorem index_refines_history:
  assumes ids: "distinct (map op_fresh ops)"
    and run: "index_all env (new_indexer with_audit) ops = (rs, ix)"
  shows "map observe rs = fst (history_run env (\<lambda>_. []) ops)
     \<and> map dv_hash (versions_at ix url) = remdups_adj (map (op_hash env) (filter (\<lambda>x. op_url x = url) ops))
     \<and> map dv_version (versions_at ix url) = map (\<lambda>i. int i + 1) [0..<length (versions_at ix url)]"
proof -
  note sim = store.run_simulates [OF indexer_ok_new fresh_guarded_new [OF ids], of env with_audit]
  have empty: "history_of (new_indexer with_audit) = (\<lambda>_. [])"
    by (simp add: fun_eq_iff history_of_def versions_at_def new_indexer_def)
  from run have r: "rs = fst (store.run env (new_indexer with_audit) ops)"
      and ix: "ix = snd (store.run env (new_indexer with_audit) ops)"
    by (simp_all flip: index_all_run)
  have "map observe rs = fst (history_run env (\<lambda>_. []) ops)"
    using sim(3) unfolding r empty history_run_arun .
  moreover have "history_of ix = snd (history_run env (\<lambda>_. []) ops)"
    using sim(2) unfolding ix empty history_run_arun .
  then have "map dv_hash (versions_at ix url) = snd (history_run env (\<lambda>_. []) ops) url"
    by (metis history_of_def)
  moreover have "store_ok ix" using sim(1) unfolding ix by (simp add: indexer_ok_def)
  ultimately show ?thesis by (simp add: history_run_contents versions_at_numbers)
qed

text \<open>
  C18. Visibility and the indexes agree.  After any sequence of indexing calls, with a scorer that is
  absent, scores or raises, a version is in the vector index exactly if it is visible, and then under
  the embedding of its own text; the lexical index holds the same versions with the tokens of their
  texts.  So a version that was never scored cannot be retrieved.
\<close>

theorem index_holds_visible_versions:
  assumes ids: "distinct (map op_fresh ops)"
    and run: "index_all env (new_indexer with_audit) ops = (rs, ix)"
  shows "(is_visible ix d (Some n) \<longleftrightarrow> vector_get (ix_vectors ix) d n \<noteq> None)
     \<and> vector_get (ix_vectors ix) d n = map_option (ie_embed env) (indexed_text (get_document ix d) n)
     \<and> lexical_get (ix_lexical ix) d n = map_option analyze_text (indexed_text (get_document ix d) n)"
proof -
  note sim = store.run_simulates(1) [OF indexer_ok_new fresh_guarded_new [OF ids], of env with_audit]
  from run have "ix = snd (store.run env (new_indexer with_audit) ops)"
    by (simp flip: index_all_run)
  with sim have i: "indexes_ok env ix" by (simp add: indexer_ok_def)
  have "is_visible ix d (Some n) \<longleftrightarrow> indexed_text (get_document ix d) n \<noteq> None"
    by (auto simp: is_visible_def indexed_text_def get_document_def split: option.splits)
  with i show ?thesis by (simp add: indexes_ok_def)
qed


section \<open>A document whose scoring failed\<close>

lemma index_again:
  assumes "dict_get (ix_urls ix) url = Some d" and "dict_get (ix_documents ix) d = Some (l @ [w])"
    and "dv_hash w = ie_sha256 env (clean_html (ie_unescape env) raw)"
  shows "index_document env ix now fresh raw url =
    (Inr \<lparr>xr_document_id = d, xr_version = dv_version w, xr_is_new = False,
          xr_incremented = False, xr_last_seen_only = True, xr_dlq_routed = False\<rparr>,
     put_versions ix d (l @ [w\<lparr>dv_last_seen := now\<rparr>]))"
  using assms by (simp add: index_document_def compute_content_hash_def Let_def)

lemma failed_version:
  assumes "add_version env ix l w res = (Inl e, ix1)"
  shows "dict_get (ix_documents ix1) (dv_document_id w) = Some (l @ [w]) \<and> ix_urls ix1 = ix_urls ix"
  using assms by (auto simp: add_version_cases Let_def put_versions_def split: if_splits)

lemma failed_index:
  assumes ok: "store_ok ix" and fail: "index_document env ix now fresh raw url = (Inl e, ix1)"
  obtains d l w where "dict_get (ix_urls ix1) url = Some d" "dict_get (ix_documents ix1) d = Some (l @ [w])"
    "dv_hash w = ie_sha256 env (clean_html (ie_unescape env) raw)" "\<not> dv_visible w"
  using ok
proof (cases rule: index_cases [where env = env and url = url and now = now and fresh = fresh and raw = raw])
  case new
  let ?h = "compute_content_hash env (clean_html (ie_unescape env) raw)"
  let ?w = "new_version fresh 1 ?h (clean_html (ie_unescape env) raw) url now"
  from fail new(2) obtain res
    where "add_version env (ix\<lparr>ix_urls := dict_set url fresh (ix_urls ix)\<rparr>) [] ?w res = (Inl e, ix1)"
    by (simp add: Let_def)
  from failed_version [OF this] have "dict_get (ix_documents ix1) fresh = Some ([] @ [?w])
      \<and> ix_urls ix1 = dict_set url fresh (ix_urls ix)" by simp
  then show ?thesis by (intro that [of fresh "[]" ?w]) (simp_all add: compute_content_hash_def)
next
  case (same d vs v)
  with fail show ?thesis by simp
next
  case (changed d vs v)
  let ?h = "compute_content_hash env (clean_html (ie_unescape env) raw)"
  let ?w = "new_version d (dv_version v + 1) ?h (clean_html (ie_unescape env) raw) url now"
  from fail changed(5) obtain res where "add_version env ix (vs @ [v]) ?w res = (Inl e, ix1)"
    by (simp add: Let_def)
  from failed_version [OF this]
  have "dict_get (ix_documents ix1) d = Some ((vs @ [v]) @ [?w]) \<and> ix_urls ix1 = ix_urls ix" by simp
  with changed(1) show ?thesis by (intro that [of d "vs @ [v]" ?w]) (simp_all add: compute_content_hash_def)
qed

text \<open>
  A scoring failure is not retried.  When the scorer raises, the version has already been stored;
  offering the same content again, whatever the scorer answers by then, only updates the time it was
  last seen: the call succeeds, the latest version of the document stays invisible, and it is in
  neither index.
\<close>

theorem failed_scoring_not_retried:
  assumes ids: "distinct (fresh # map op_fresh ops)"
    and run: "index_all env (new_indexer with_audit) ops = (rs, ix)"
    and fail: "index_document env ix now fresh raw url = (Inl e, ix1)"
    and again: "index_document (env\<lparr>ie_score := scorer\<rparr>) ix1 now2 fresh2 raw url = (r, ix2)"
  shows "\<exists>x. r = Inr x \<and> xr_last_seen_only x \<and> \<not> is_visible ix2 (xr_document_id x) None
     \<and> vector_get (ix_vectors ix2) (xr_document_id x) (xr_version x) = None
     \<and> lexical_get (ix_lexical ix2) (xr_document_id x) (xr_version x) = None"
proof -
  let ?op = "IndexOp now fresh raw url"
  from ids have "distinct (map op_fresh (ops @ [?op]))" by auto
  then have g: "store.guarded_run env (new_indexer with_audit) (ops @ [?op])" by (rule fresh_guarded_new)
  have split: "store.guarded_run env s (xs @ [y]) \<longleftrightarrow>
      store.guarded_run env s xs \<and> fresh_for (snd (store.run env s xs)) y" for s xs y
    by (induction xs arbitrary: s) (simp_all add: split_beta)
  have ix: "ix = snd (store.run env (new_indexer with_audit) ops)" using run by (simp flip: index_all_run)
  have ok: "indexer_ok env ix" and f: "fresh_for ix ?op"
    using g store.run_simulates(1) [OF indexer_ok_new, of env with_audit ops] unfolding split ix by blast+
  have ok1: "indexer_ok env ix1" using index_step_ok [OF ok f] fail by simp
  from ok have "store_ok ix" by (simp add: indexer_ok_def)
  from failed_index [OF this fail] obtain d l w
    where w: "dict_get (ix_urls ix1) url = Some d" "dict_get (ix_documents ix1) d = Some (l @ [w])"
      "dv_hash w = ie_sha256 env (clean_html (ie_unescape env) raw)" "\<not> dv_visible w" by blast
  from ok1 w(1,2) have v: "versions_ok d url (l @ [w])" unfolding indexer_ok_def store_ok_def by fastforce
  have "find (\<lambda>v. dv_version v = dv_version w) l = None"
    using versions_ok_distinct [OF v] by (auto simp: find_None_iff image_iff)
  then have "find (\<lambda>v. dv_version v = dv_version w) (l @ [w]) = Some w" by (simp add: find_snoc)
  then have none: "indexed_text (get_document ix1 d) (dv_version w) = None"
    using w(2,4) by (simp add: indexed_text_def get_document_def)
  have two: "(r, ix2) = (Inr \<lparr>xr_document_id = d, xr_version = dv_version w, xr_is_new = False,
      xr_incremented = False, xr_last_seen_only = True, xr_dlq_routed = False\<rparr>,
     put_versions ix1 d (l @ [w\<lparr>dv_last_seen := now2\<rparr>]))"
    using index_again [OF w(1,2), of "env\<lparr>ie_score := scorer\<rparr>" raw now2 fresh2] w(3) again by simp
  have "vector_get (ix_vectors ix1) d (dv_version w) = None \<and> lexical_get (ix_lexical ix1) d (dv_version w) = None"
    using ok1 none unfolding indexer_ok_def indexes_ok_def by simp
  then show ?thesis using two w(4) by (simp add: is_visible_def put_versions_def)
qed


section \<open>Routing to the dead-letter queue\<close>

type_synonym failure = "rat \<times> datetime \<times> string \<times> string"

fun fail_all :: "indexer \<Rightarrow> string \<Rightarrow> failure list \<Rightarrow> (dlq_entry + index_result) list \<times> indexer" where
  "fail_all ix url [] = ([], ix)"
| "fail_all ix url ((now, at_time, request_id, err) # fs) =
     (let (r, ix') = index_document_with_retry ix now at_time request_id url err;
          (rs, ix'') = fail_all ix' url fs
      in (r # rs, ix''))"

text \<open>
  The rule of routing: \<open>acc\<close> are the times of the failures since the last routing; the document is
  routed when there are three or more and each of the last two gaps is a minute or longer.
\<close>

definition three_spaced :: "rat list \<Rightarrow> bool" where
  "three_spaced ts = (case rev ts of c # b # a # _ \<Rightarrow> b - a \<ge> 60 \<and> c - b \<ge> 60 | _ \<Rightarrow> False)"

fun routing :: "rat list \<Rightarrow> rat list \<Rightarrow> nat option list" where
  "routing acc [] = []"
| "routing acc (t # ts) =
     (if three_spaced (acc @ [t]) then Some (length acc + 1) # routing [] ts
      else None # routing (acc @ [t]) ts)"

definition routed :: "dlq_entry + index_result \<Rightarrow> nat option" where
  "routed r = (case r of Inl entry \<Rightarrow> Some (dl_attempts entry) | Inr _ \<Rightarrow> None)"

definition failures_since :: "indexer \<Rightarrow> string \<Rightarrow> rat list" where
  "failures_since ix url = rt_times (retry_state_of (ix_dlq ix) url)"

definition counted :: "indexer \<Rightarrow> string \<Rightarrow> bool" where
  "counted ix url \<longleftrightarrow> rt_count (retry_state_of (ix_dlq ix) url) = length (failures_since ix url)"

lemma three_spaced_short: "length ts < 3 \<Longrightarrow> \<not> three_spaced ts"
  by (cases ts rule: rev_cases; simp add: three_spaced_def split: list.split) (auto split: list.split)

lemma well_spaced_last:
  "length ts \<ge> 3 \<Longrightarrow> well_spaced (drop (length ts - 3) ts) = three_spaced ts"
proof -
  assume len: "length ts \<ge> 3"
  define us where "us = drop (length ts - 3) ts"
  from len have "length us = 3" by (simp add: us_def)
  then obtain a b c where abc: "us = [a, b, c]" by (auto simp: numeral_3_eq_3 length_Suc_conv)
  have "rev ts = rev (take (length ts - 3) ts @ us)" by (simp only: us_def append_take_drop_id)
  then have r: "rev ts = c # b # a # rev (take (length ts - 3) ts)" by (simp add: abc)
  have "three_spaced ts \<longleftrightarrow> b - a \<ge> 60 \<and> c - b \<ge> 60" unfolding three_spaced_def r by simp
  then show ?thesis unfolding us_def [symmetric] abc by (auto simp: min_retry_spacing_def not_less)
qed

lemma retry_state_recorded:
  "retry_state_of (record_attempt q now key err) key =
     \<lparr>rt_count = rt_count (retry_state_of q key) + 1, rt_times = rt_times (retry_state_of q key) @ [now],
      rt_error = Some err\<rparr>"
  by (simp add: record_attempt_def retry_state_of_def Let_def)

lemma should_route_recorded:
  assumes "rt_count (retry_state_of q key) = length (rt_times (retry_state_of q key))"
  shows "should_route_to_dlq (record_attempt q now key err) key = three_spaced (rt_times (retry_state_of q key) @ [now])"
proof -
  let ?ts = "rt_times (retry_state_of q key) @ [now]"
  obtain s where s: "dict_get (dq_states (record_attempt q now key err)) key = Some s"
    by (simp add: record_attempt_def Let_def)
  with retry_state_recorded [of q now key err] have "rt_count s = length ?ts \<and> rt_times s = ?ts"
    using assms by (simp add: retry_state_of_def)
  with s show ?thesis
    using well_spaced_last [of ?ts] three_spaced_short [of ?ts]
    by (simp add: should_route_to_dlq_def max_retry_attempts_def not_less)
qed

definition route_effect :: "indexer \<Rightarrow> indexer \<Rightarrow> string \<Rightarrow> nat option list \<Rightarrow> bool" where
  "route_effect ix ix' url rs \<longleftrightarrow>
     (\<exists>new. dq_entries (ix_dlq ix') = dq_entries (ix_dlq ix) @ new
        \<and> map (\<lambda>e. Some (dl_attempts e)) new = filter (\<lambda>r. r \<noteq> None) rs \<and> (\<forall>e \<in> set new. dl_url e = url)
        \<and> (\<forall>as. ix_audits ix = Some as \<longrightarrow> (\<exists>bs. ix_audits ix' = Some (as @ bs) \<and> map xa_attempts bs = map dl_attempts new)))"

lemma record_attempt_entries [simp]: "dq_entries (record_attempt q now key err) = dq_entries q"
  by (simp add: record_attempt_def Let_def)

lemma route_to_dlq_facts:
  "route_to_dlq q now key d url = (entry, q') \<Longrightarrow>
     dl_attempts entry = rt_count (retry_state_of q key) \<and> dl_url entry = url
     \<and> retry_state_of q' key = new_retry_state \<and> dq_entries q' = dq_entries q @ [entry]"
  by (auto simp: route_to_dlq_def Let_def retry_state_of_def)

lemma retry_routes:
  assumes c: "counted ix url" and t: "three_spaced (failures_since ix url @ [now])"
    and run: "index_document_with_retry ix now at_time rid url err = (r, ix')"
  shows "routed r = Some (length (failures_since ix url) + 1) \<and> counted ix' url \<and> failures_since ix' url = []
    \<and> route_effect ix ix' url [routed r]"
proof -
  let ?q = "record_attempt (ix_dlq ix) now url err"
  let ?d = "dict_get (ix_urls ix) url"
  obtain entry q' where e: "route_to_dlq ?q at_time url ?d url = (entry, q')" by (cases "route_to_dlq ?q at_time url ?d url")
  have "should_route_to_dlq ?q url"
    using c t by (simp add: should_route_recorded counted_def failures_since_def)
  with run e have r: "r = Inl entry" and q: "ix_dlq ix' = q'"
    by (auto simp: index_document_with_retry_def Let_def)
  have a: "\<exists>x. xa_attempts x = dl_attempts entry \<and> ix_audits ix' = map_option (\<lambda>as. as @ [x]) (ix_audits ix)"
    using run e \<open>should_route_to_dlq ?q url\<close>
    by (intro exI [of _ "\<lparr>xa_resource = py_or ?d url, xa_request_id = rid, xa_document_id = ?d, xa_url = url,
          xa_reason = dl_reason entry, xa_attempts = dl_attempts entry\<rparr>"])
      (auto simp: index_document_with_retry_def Let_def)
  have n: "dl_attempts entry = length (failures_since ix url) + 1"
    using route_to_dlq_facts [OF e] c by (simp add: retry_state_recorded counted_def)
  have "route_effect ix ix' url [routed r]"
    unfolding route_effect_def using route_to_dlq_facts [OF e] a
    by (intro exI [of _ "[entry]"]) (auto simp: r q routed_def)
  then show ?thesis
    using route_to_dlq_facts [OF e] n by (simp add: r q routed_def counted_def failures_since_def new_retry_state_def)
qed

lemma retry_waits:
  assumes c: "counted ix url" and t: "\<not> three_spaced (failures_since ix url @ [now])"
    and run: "index_document_with_retry ix now at_time rid url err = (r, ix')"
  shows "routed r = None \<and> counted ix' url \<and> failures_since ix' url = failures_since ix url @ [now]
    \<and> route_effect ix ix' url [routed r]"
proof -
  let ?q = "record_attempt (ix_dlq ix) now url err"
  have "\<not> should_route_to_dlq ?q url"
    using c t by (simp add: should_route_recorded counted_def failures_since_def)
  with run have r: "routed r = None" and q: "ix_dlq ix' = ?q" and a: "ix_audits ix' = ix_audits ix"
    by (auto simp: index_document_with_retry_def Let_def routed_def)
  have "route_effect ix ix' url [routed r]"
    unfolding route_effect_def by (intro exI [of _ "[]"]) (simp add: r q a)
  then show ?thesis using r c by (simp add: q counted_def failures_since_def retry_state_recorded)
qed

lemma route_effect_trans:
  assumes "route_effect ix ix1 url rs" and "route_effect ix1 ix2 url qs"
  shows "route_effect ix ix2 url (rs @ qs)"
proof -
  from assms(1) obtain n1 where 1: "dq_entries (ix_dlq ix1) = dq_entries (ix_dlq ix) @ n1"
    "map (\<lambda>e. Some (dl_attempts e)) n1 = filter (\<lambda>r. r \<noteq> None) rs" "\<forall>e \<in> set n1. dl_url e = url"
    "\<forall>as. ix_audits ix = Some as \<longrightarrow> (\<exists>bs. ix_audits ix1 = Some (as @ bs) \<and> map xa_attempts bs = map dl_attempts n1)"
    unfolding route_effect_def by blast
  from assms(2) obtain n2 where 2: "dq_entries (ix_dlq ix2) = dq_entries (ix_dlq ix1) @ n2"
    "map (\<lambda>e. Some (dl_attempts e)) n2 = filter (\<lambda>r. r \<noteq> None) qs" "\<forall>e \<in> set n2. dl_url e = url"
    "\<forall>as. ix_audits ix1 = Some as \<longrightarrow> (\<exists>bs. ix_audits ix2 = Some (as @ bs) \<and> map xa_attempts bs = map dl_attempts n2)"
    unfolding route_effect_def by blast
  have "\<exists>cs. ix_audits ix2 = Some (as @ cs) \<and> map xa_attempts cs = map dl_attempts (n1 @ n2)" if "ix_audits ix = Some as" for as
  proof -
    from 1(4) that obtain bs where b: "ix_audits ix1 = Some (as @ bs)" "map xa_attempts bs = map dl_attempts n1" by blast
    from 2(4) b(1) obtain cs where "ix_audits ix2 = Some ((as @ bs) @ cs)" "map xa_attempts cs = map dl_attempts n2" by blast
    with b(2) show ?thesis by (intro exI [of _ "bs @ cs"]) simp
  qed
  with 1(1,2,3) 2(1,2,3) show ?thesis
    unfolding route_effect_def by (intro exI [of _ "n1 @ n2"]) auto
qed

lemma fail_all_routing:
  assumes "counted ix url" and "fail_all ix url fs = (rs, ix')"
  shows "map routed rs = routing (failures_since ix url) (map fst fs) \<and> route_effect ix ix' url (map routed rs)"
  using assms
proof (induction fs arbitrary: ix rs)
  case Nil
  then show ?case by (auto simp: route_effect_def)
next
  case (Cons f fs)
  obtain now at_time rid err where f: "f = (now, at_time, rid, err)" by (cases f)
  obtain r ix1 where r: "index_document_with_retry ix now at_time rid url err = (r, ix1)"
    by (cases "index_document_with_retry ix now at_time rid url err")
  obtain qs where q: "fail_all ix1 url fs = (qs, ix')" and rs: "rs = r # qs"
    using Cons.prems(2) by (auto simp: f r split: prod.splits)
  have step: "counted ix1 url \<and> route_effect ix ix1 url [routed r]
      \<and> routed r # routing (failures_since ix1 url) (map fst fs) = routing (failures_since ix url) (map fst (f # fs))"
  proof (cases "three_spaced (failures_since ix url @ [now])")
    case True
    with retry_routes [OF Cons.prems(1) True r] show ?thesis by (auto simp: f)
  next
    case False
    with retry_waits [OF Cons.prems(1) False r] show ?thesis by (auto simp: f)
  qed
  then have c: "counted ix1 url" by blast
  have "route_effect ix ix' url ([routed r] @ map routed qs)"
    using step Cons.IH [OF c q] by (intro route_effect_trans) auto
  with step Cons.IH [OF c q] show ?case by (simp add: rs)
qed

text \<open>
  Routing to the dead-letter queue.  When indexing of an address fails at the given times, the
  calls that route it are those the rule selects: three or more failures since the last routing, the
  last two gaps a minute or longer, and the counter starts afresh.  Each routing adds one entry for
  the address with the number of attempts and, when there is an audit emitter, one audit event with
  the same number; nothing else is added to the queue.
\<close>

theorem dlq_routing:
  assumes new: "dict_get (dq_states (ix_dlq ix)) url = None"
    and run: "fail_all ix url fs = (rs, ix')"
  shows "map routed rs = routing [] (map fst fs) \<and> route_effect ix ix' url (map routed rs)"
proof -
  from new have "counted ix url" and "failures_since ix url = []"
    by (simp_all add: counted_def failures_since_def retry_state_of_def new_retry_state_def)
  with fail_all_routing [OF _ run] show ?thesis by metis
qed


section \<open>Cleaned text has no line breaks\<close>

lemma in_dropWhile: "x \<in> set (dropWhile P xs) \<Longrightarrow> x \<in> set xs"
  by (induction xs) (auto split: if_splits)

lemma set_py_strip: "set (py_strip s) \<subseteq> set s"
  by (auto simp: py_strip_def py_lstrip_def py_rstrip_def dest!: in_dropWhile)

lemma collapse_ws_blank: "c \<in> set (collapse_ws s) \<Longrightarrow> py_isspace c \<Longrightarrow> c = CHR '' ''"
  by (induction s rule: collapse_ws.induct) (auto split: if_splits)

lemma clean_html_blank: "c \<in> set (clean_html unescape raw) \<Longrightarrow> py_isspace c \<Longrightarrow> c = CHR '' ''"
  using set_py_strip by (auto simp: clean_html_def dest: collapse_ws_blank)

section \<open>Sample runs\<close>

definition sample_env :: "bool \<Rightarrow> index_env" where
  "sample_env up = \<lparr>ie_unescape = (\<lambda>s. s), ie_sha256 = (\<lambda>s. s), ie_embed = (\<lambda>s. [of_nat (length s)]),
     ie_score = Some (\<lambda>t. if up then Inr \<lparr>pv_credibility = 1 / 2, pv_ai = 1 / 2, pv_scored_at = 0\<rparr> else Inl ''down'')\<rparr>"

definition sample_docs :: "index_op list" where
  "sample_docs = [IndexOp 1 ''d1'' ''<p>one</p>'' ''u'', IndexOp 2 ''d2'' ''one'' ''u'', IndexOp 3 ''d3'' ''Two words'' ''u'',
                  IndexOp 4 ''d4'' ''one'' ''v'']"

lemma index_refines_history_witness:
  "map observe (fst (index_all (sample_env True) (new_indexer True) sample_docs))
     = [NewDocument, SameContent 1, NewVersion 2, NewDocument]
   \<and> map dv_hash (versions_at (snd (index_all (sample_env True) (new_indexer True) sample_docs)) ''u'')
     = [''one'', ''Two words'']"
proof -
  obtain rs ix where r: "index_all (sample_env True) (new_indexer True) sample_docs = (rs, ix)"
    by (cases "index_all (sample_env True) (new_indexer True) sample_docs")
  have "distinct (map op_fresh sample_docs)" by code_simp
  note t = index_refines_history [OF this r, of "''u''"]
  have "fst (history_run (sample_env True) (\<lambda>_. []) sample_docs) = [NewDocument, SameContent 1, NewVersion 2, NewDocument]"
    by code_simp
  moreover have "remdups_adj (map (op_hash (sample_env True)) (filter (\<lambda>x. op_url x = ''u'') sample_docs)) = [''one'', ''Two words'']"
    by code_simp
  ultimately show ?thesis using t r by simp
qed

lemma index_holds_visible_versions_witness:
  "vector_get (ix_vectors (snd (index_all (sample_env True) (new_indexer True) sample_docs))) ''d1'' 2 = Some [9]
   \<and> is_visible (snd (index_all (sample_env True) (new_indexer True) sample_docs)) ''d1'' (Some 2)"
proof -
  obtain rs ix where r: "index_all (sample_env True) (new_indexer True) sample_docs = (rs, ix)"
    by (cases "index_all (sample_env True) (new_indexer True) sample_docs")
  have "distinct (map op_fresh sample_docs)" by code_simp
  note t = index_holds_visible_versions [OF this r, of "''d1''" 2]
  have "indexed_text (get_document (snd (index_all (sample_env True) (new_indexer True) sample_docs)) ''d1'') 2 = Some ''Two words''"
    by code_simp
  with t r show ?thesis by (simp add: sample_env_def)
qed

lemma failed_scoring_not_retried_witness:
  "\<exists>e ix1 x ix2. index_document (sample_env False) (new_indexer True) 1 ''d1'' ''one'' ''u'' = (Inl e, ix1)
     \<and> index_document (sample_env True) ix1 2 ''d2'' ''one'' ''u'' = (Inr x, ix2)
     \<and> xr_last_seen_only x \<and> \<not> is_visible ix2 (xr_document_id x) None"
proof -
  obtain e ix1 where 1: "index_document (sample_env False) (new_indexer True) 1 ''d1'' ''one'' ''u'' = (Inl e, ix1)"
  proof -
    have "is_err (fst (index_document (sample_env False) (new_indexer True) 1 ''d1'' ''one'' ''u''))" by code_simp
    then show thesis
      by (cases "index_document (sample_env False) (new_indexer True) 1 ''d1'' ''one'' ''u''"; cases "fst (index_document (sample_env False) (new_indexer True) 1 ''d1'' ''one'' ''u'')")
        (auto intro: that)
  qed
  obtain r ix2 where 2: "index_document (sample_env True) ix1 2 ''d2'' ''one'' ''u'' = (r, ix2)"
    by (cases "index_document (sample_env True) ix1 2 ''d2'' ''one'' ''u''")
  have up: "(sample_env False)\<lparr>ie_score := ie_score (sample_env True)\<rparr> = sample_env True"
    by (simp add: sample_env_def)
  from 2 have "index_document ((sample_env False)\<lparr>ie_score := ie_score (sample_env True)\<rparr>) ix1 2 ''d2'' ''one'' ''u'' = (r, ix2)"
    by (simp only: up)
  from failed_scoring_not_retried [where ops = "[]", OF _ _ 1 this] 1 2 show ?thesis by auto
qed

lemma dlq_routing_witness:
  "map routed (fst (fail_all (new_indexer True) ''u''
      [(0, 0, ''r1'', ''boom''), (60, 60, ''r2'', ''boom''), (119, 119, ''r3'', ''boom''), (179, 179, ''r4'', ''boom''),
       (239, 239, ''r5'', ''boom''), (300, 300, ''r6'', ''boom'')]))
     = [None, None, None, None, Some 5, None]"
proof -
  let ?fs = "[(0, 0, ''r1'', ''boom''), (60, 60, ''r2'', ''boom''), (119, 119, ''r3'', ''boom''), (179, 179, ''r4'', ''boom''),
       (239, 239, ''r5'', ''boom''), (300, 300, ''r6'', ''boom'')] :: failure list"
  obtain rs ix where r: "fail_all (new_indexer True) ''u'' ?fs = (rs, ix)" by (cases "fail_all (new_indexer True) ''u'' ?fs")
  have "dict_get (dq_states (ix_dlq (new_indexer True))) ''u'' = None" by (simp add: new_indexer_def)
  from dlq_routing [OF this r] have "map routed rs = routing [] (map fst ?fs)" by blast
  also have "\<dots> = [None, None, None, None, Some 5, None]" by (simp add: three_spaced_def)
  finally show ?thesis using r by simp
qed

end
