(* ===== verification/Ranking.thy ===== *)
theory Ranking
  imports Indexer "HOL-Library.Product_Lexorder"
begin

text \<open>
  Ranking of candidates: \<open>backend/retriever/neural.py\<close>, \<open>keyword.py\<close>, \<open>hybrid.py\<close>, \<open>ordering.py\<close>,
  \<open>filters.py\<close> and \<open>models.py\<close>.

  The embedding function and the logarithm of \<open>math\<close> are arguments of the definitions; the latter is
  assumed positive above 1 where that matters.  Scores are exact rationals.
\<close>

section \<open>Candidates\<close>

record candidate =
  ca_id :: string
  ca_version :: int
  ca_score :: rat

definition candidate_key :: "candidate \<Rightarrow> rat \<times> string \<times> int" where
  "candidate_key c = (- ca_score c, ca_id c, ca_version c)"

definition rank_candidates :: "candidate list \<Rightarrow> candidate list" where
  "rank_candidates cs = sort_key candidate_key cs"

definition cut :: "int \<Rightarrow> 'a list \<Rightarrow> 'a list" where
  "cut n xs = py_take n xs"

section \<open>Neural retrieval\<close>

definition cosine_similarity :: "rat list \<Rightarrow> rat list \<Rightarrow> rat" where
  "cosine_similarity a b = max 0 (min 1 ((sum_list (map2 (*) a b) + 1) / 2))"

text \<open>The scan keeps the first version it meets of every document.\<close>

fun neural_scan :: "rat list \<Rightarrow> string set \<Rightarrow> string list \<Rightarrow> vector_index \<Rightarrow> candidate list" where
  "neural_scan q excluded seen [] = []"
| "neural_scan q excluded seen (((d, v), e) # es) =
     (if d \<in> excluded then neural_scan q excluded seen es
      else if d \<in> set seen then neural_scan q excluded seen es
      else \<lparr>ca_id = d, ca_version = v, ca_score = cosine_similarity q e\<rparr> # neural_scan q excluded (d # seen) es)"

definition neural_search :: "(string \<Rightarrow> rat list) \<Rightarrow> vector_index \<Rightarrow> string \<Rightarrow> int \<Rightarrow> string set \<Rightarrow> candidate list" where
  "neural_search emb ix q n excluded =
     (if py_strip q = [] then []
      else cut n (rank_candidates (neural_scan (emb q) excluded [] ix)))"

section \<open>Keyword retrieval\<close>

definition bm25_k1 :: rat where "bm25_k1 = 12 / 10"
definition bm25_b :: rat where "bm25_b = 75 / 100"

type_synonym latest_entries = "(string, int \<times> string list) dict"

definition add_latest :: "string set \<Rightarrow> doc_key \<times> string list \<Rightarrow> latest_entries \<Rightarrow> latest_entries" where
  "add_latest excluded e l =
     (case e of ((d, v), toks) \<Rightarrow>
        if d \<in> excluded then l
        else (case dict_get l d of
            None \<Rightarrow> dict_set d (v, toks) l
          | Some (v0, _) \<Rightarrow> if v > v0 then dict_set d (v, toks) l else l))"

definition latest_of :: "string set \<Rightarrow> lexical_index \<Rightarrow> latest_entries" where
  "latest_of excluded ix = fold (add_latest excluded) ix []"

definition doc_freq :: "latest_entries \<Rightarrow> string \<Rightarrow> nat" where
  "doc_freq l tok = length (filter (\<lambda>(d, v, toks). tok \<in> set toks) l)"

definition term_score :: "(rat \<Rightarrow> rat) \<Rightarrow> string list \<Rightarrow> rat \<Rightarrow> rat \<Rightarrow> (string \<Rightarrow> nat) \<Rightarrow> string \<Rightarrow> rat" where
  "term_score logf doc num_docs avg_dl df tok =
     (if tok \<notin> set doc then 0
      else (let tf = of_nat (count_list doc tok);
                f = of_nat (df tok);
                idf = logf ((num_docs - f + 1 / 2) / (f + 1 / 2) + 1);
                tf_norm = (tf * (bm25_k1 + 1)) / (tf + bm25_k1 * (1 - bm25_b + bm25_b * of_nat (length doc) / avg_dl))
            in idf * tf_norm))"

definition bm25_score :: "(rat \<Rightarrow> rat) \<Rightarrow> string list \<Rightarrow> string list \<Rightarrow> rat \<Rightarrow> rat \<Rightarrow> (string \<Rightarrow> nat) \<Rightarrow> rat" where
  "bm25_score logf query doc num_docs avg_dl df = sum_list (map (term_score logf doc num_docs avg_dl df) query)"

definition raw_scores :: "(rat \<Rightarrow> rat) \<Rightarrow> latest_entries \<Rightarrow> string list \<Rightarrow> candidate list" where
  "raw_scores logf l query =
     (let num_docs = of_nat (length l);
          avg_dl = of_nat (sum_list (map (\<lambda>(d, v, toks). length toks) l)) / num_docs
      in filter (\<lambda>c. ca_score c > 0)
           (map (\<lambda>(d, v, toks). \<lparr>ca_id = d, ca_version = v, ca_score = bm25_score logf query toks num_docs avg_dl (doc_freq l)\<rparr>) l))"

definition normalize_scores :: "candidate list \<Rightarrow> candidate list" where
  "normalize_scores cs =
     (let top = Max (set (map ca_score cs))
      in map (\<lambda>c. c\<lparr>ca_score := (if top > 0 then ca_score c / top else 0)\<rparr>) cs)"

definition keyword_search :: "(rat \<Rightarrow> rat) \<Rightarrow> lexical_index \<Rightarrow> string \<Rightarrow> int \<Rightarrow> string set \<Rightarrow> candidate list" where
  "keyword_search logf ix q n excluded =
     (if py_strip q = [] then []
      else (let query = analyze_text q in
        if query = [] then []
        else if ix = [] then []
        else (let l = latest_of excluded ix in
          if l = [] then []
          else (let raw = raw_scores logf l query in
            if raw = [] then [] else cut n (rank_candidates (normalize_scores raw))))))"

section \<open>Reciprocal-rank fusion\<close>

definition rrf_k :: rat where "rrf_k = 60"

text \<open>Rank, score per document, version per document.\<close>

type_synonym rrf_state = "nat \<times> (string, rat) dict \<times> (string, int) dict"

definition rrf_add :: "rat \<Rightarrow> bool \<Rightarrow> candidate \<Rightarrow> rrf_state \<Rightarrow> rrf_state" where
  "rrf_add k keep c s =
     (case s of (rank, scores, versions) \<Rightarrow>
        (rank + 1,
         dict_set (ca_id c) ((case dict_get scores (ca_id c) of Some x \<Rightarrow> x | None \<Rightarrow> 0) + 1 / (k + of_nat rank)) scores,
         if keep \<and> dict_get versions (ca_id c) \<noteq> None then versions else dict_set (ca_id c) (ca_version c) versions))"

definition rrf_scores :: "rat \<Rightarrow> candidate list \<Rightarrow> candidate list \<Rightarrow> (string, rat) dict \<times> (string, int) dict" where
  "rrf_scores k neural keyword =
     (let (_, s1, v1) = fold (rrf_add k False) neural (1, [], []);
          (_, s2, v2) = fold (rrf_add k True) keyword (1, s1, v1)
      in (s2, v2))"

definition reciprocal_rank_fusion :: "candidate list \<Rightarrow> candidate list \<Rightarrow> int \<Rightarrow> rat \<Rightarrow> candidate list" where
  "reciprocal_rank_fusion neural keyword n k =
     (let (scores, versions) = rrf_scores k neural keyword in
      if scores = [] then []
      else (let top = Max (set (map snd scores))
            in cut n (rank_candidates (map (\<lambda>(d, x).
                 \<lparr>ca_id = d, ca_version = the (dict_get versions d), ca_score = (if top > 0 then x / top else 0)\<rparr>) scores))))"

section \<open>Results\<close>

datatype search_mode = Neural | Keyword | Hybrid

fun mode_value :: "search_mode \<Rightarrow> string" where
  "mode_value Neural = ''neural''"
| "mode_value Keyword = ''keyword''"
| "mode_value Hybrid = ''hybrid''"

record search_result =
  sr_id :: string
  sr_url :: string
  sr_title :: string
  sr_score :: rat
  sr_published :: "datetime option"
  sr_provenance :: provenance_score
  sr_version :: int

definition result_key :: "search_result \<Rightarrow> rat \<times> string \<times> int" where
  "result_key r = (- sr_score r, sr_id r, sr_version r)"

definition apply_strict_ordering :: "search_result list \<Rightarrow> search_result list" where
  "apply_strict_ordering rs = sort_key result_key rs"

definition apply_min_credibility :: "search_result list \<Rightarrow> rat \<Rightarrow> search_result list" where
  "apply_min_credibility rs t = filter (\<lambda>r. pv_credibility (sr_provenance r) \<ge> t) rs"

definition apply_max_ai_generated :: "search_result list \<Rightarrow> rat \<Rightarrow> search_result list" where
  "apply_max_ai_generated rs t = filter (\<lambda>r. pv_ai (sr_provenance r) \<le> t) rs"

definition apply_threshold_filters :: "search_result list \<Rightarrow> rat option \<Rightarrow> rat option \<Rightarrow> search_result list" where
  "apply_threshold_filters rs min_cred max_ai =
     (let rs = (case min_cred of None \<Rightarrow> rs | Some t \<Rightarrow> apply_min_credibility rs t)
      in case max_ai of None \<Rightarrow> rs | Some t \<Rightarrow> apply_max_ai_generated rs t)"


section \<open>Order\<close>

lemma set_rank [simp]: "set (rank_candidates cs) = set cs"
  by (simp add: rank_candidates_def)

lemma distinct_rank: "distinct (map ca_id (rank_candidates cs)) = distinct (map ca_id cs)"
proof -
  have "mset (map ca_id (rank_candidates cs)) = mset (map ca_id cs)"
    by (simp add: rank_candidates_def)
  then show ?thesis by (metis mset_eq_imp_distinct_iff)
qed

lemma sorted_rank: "sorted (map candidate_key (rank_candidates cs))"
  by (simp add: rank_candidates_def)

lemma set_cut: "set (cut n xs) \<subseteq> set xs"
  by (auto simp: cut_def py_take_def dest: in_set_takeD)

lemma cut_map: "map f (cut n xs) = cut n (map f xs)"
  by (simp add: cut_def py_take_def take_map)

lemma distinct_cut: "distinct xs \<Longrightarrow> distinct (cut n xs)"
  by (simp add: cut_def py_take_def)

lemma sorted_cut: "sorted xs \<Longrightarrow> sorted (cut n xs)"
  by (simp add: cut_def py_take_def sorted_wrt_take)

lemma length_cut: "0 \<le> n \<Longrightarrow> length (cut n xs) = min (nat n) (length xs)"
  by (simp add: cut_def py_take_def min.commute)

lemma distinct_ids_cut_rank: "distinct (map ca_id cs) \<Longrightarrow> distinct (map ca_id (cut n (rank_candidates cs)))"
  by (simp add: cut_map distinct_cut distinct_rank)

section \<open>Neural candidates\<close>

lemma cosine_bounds: "0 \<le> cosine_similarity a b \<and> cosine_similarity a b \<le> 1"
  by (simp add: cosine_similarity_def)

lemma neural_scan_ids:
  "c \<in> set (neural_scan q X seen es) \<Longrightarrow> ca_id c \<notin> X \<and> ca_id c \<notin> set seen
     \<and> (\<exists>e. ((ca_id c, ca_version c), e) \<in> set es \<and> ca_score c = cosine_similarity q e)"
  by (induction q X seen es rule: neural_scan.induct) (fastforce split: if_splits)+

lemma neural_scan_distinct: "distinct (map ca_id (neural_scan q X seen es))"
  by (induction q X seen es rule: neural_scan.induct) (auto dest: neural_scan_ids)

lemma neural_search_ids:
  "c \<in> set (neural_search emb ix q n X) \<Longrightarrow> ca_id c \<notin> X \<and> 0 \<le> ca_score c \<and> ca_score c \<le> 1
     \<and> (\<exists>e. ((ca_id c, ca_version c), e) \<in> set ix \<and> ca_score c = cosine_similarity (emb q) e)"
  using set_cut cosine_bounds
  by (fastforce simp: neural_search_def dest!: neural_scan_ids split: if_splits)

lemma neural_search_distinct: "distinct (map ca_id (neural_search emb ix q n X))"
  by (simp add: neural_search_def distinct_ids_cut_rank neural_scan_distinct)

section \<open>Keyword candidates\<close>

lemma add_latest_ok: "dict_ok l \<Longrightarrow> dict_ok (add_latest X e l)"
  by (auto simp: add_latest_def split: prod.splits option.splits)

lemma latest_of_ok: "dict_ok (latest_of X ix)"
proof -
  have "dict_ok l \<Longrightarrow> dict_ok (fold (add_latest X) es l)" for es l
    by (induction es arbitrary: l) (simp_all add: add_latest_ok)
  then show ?thesis by (simp add: latest_of_def)
qed

text \<open>The greatest version of a document in a list of entries.\<close>

lemma add_latest_get:
  "dict_get (add_latest X ((d, v), toks) l) d' =
     (if d' = d \<and> d \<notin> X \<and> (\<forall>p. dict_get l d = Some p \<longrightarrow> fst p < v) then Some (v, toks) else dict_get l d')"
  by (auto simp: add_latest_def split: option.splits prod.splits)

lemma latest_of_snoc: "latest_of X (es @ [e]) = add_latest X e (latest_of X es)"
  by (simp add: latest_of_def)

lemma latest_of_get:
  "dict_get (latest_of X es) d = Some (v, toks) \<Longrightarrow>
     d \<notin> X \<and> ((d, v), toks) \<in> set es \<and> (\<forall>v' toks'. ((d, v'), toks') \<in> set es \<longrightarrow> v' \<le> v)"
proof (induction es arbitrary: v toks rule: rev_induct)
  case Nil
  then show ?case by (simp add: latest_of_def)
next
  case (snoc e es)
  obtain d1 v1 t1 where e: "e = ((d1, v1), t1)" by (metis prod.collapse)
  show ?case
  proof (cases "d = d1 \<and> d1 \<notin> X \<and> (\<forall>p. dict_get (latest_of X es) d1 = Some p \<longrightarrow> fst p < v1)")
    case True
    with snoc.prems have vt: "v = v1" "toks = t1" by (simp_all add: e latest_of_snoc add_latest_get)
    have "v' \<le> v1" if "((d, v'), toks') \<in> set es" for v' toks'
    proof (cases "dict_get (latest_of X es) d1")
      case None
      have "dict_get (latest_of X es) d1 \<noteq> None"
        using that True
      proof (induction es rule: rev_induct)
        case (snoc e' es)
        obtain d2 v2 t2 where "e' = ((d2, v2), t2)" by (metis prod.collapse)
        with snoc show ?case by (fastforce simp: latest_of_snoc add_latest_get)
      qed simp
      with None show ?thesis by simp
    next
      case (Some p)
      with True have "fst p < v1" by blast
      moreover from snoc.IH [of "fst p" "snd p"] Some True that have "v' \<le> fst p" by auto
      ultimately show ?thesis by simp
    qed
    with True vt e show ?thesis by auto
  next
    case False
    with snoc.prems have g: "dict_get (latest_of X es) d = Some (v, toks)"
      by (auto simp: e latest_of_snoc add_latest_get split: if_splits)
    with snoc.IH have ih: "d \<notin> X \<and> ((d, v), toks) \<in> set es \<and> (\<forall>v' toks'. ((d, v'), toks') \<in> set es \<longrightarrow> v' \<le> v)" by blast
    moreover have "v1 \<le> v" if "d = d1" using False g ih that by auto
    ultimately show ?thesis by (auto simp: e)
  qed
qed


lemma raw_scores_mem:
  assumes "c \<in> set (raw_scores logf l query)"
  shows "ca_score c > 0 \<and> (\<exists>toks. (ca_id c, ca_version c, toks) \<in> set l)"
  using assms by (auto simp: raw_scores_def Let_def)

lemma raw_scores_distinct: "dict_ok l \<Longrightarrow> distinct (map ca_id (raw_scores logf l query))"
proof -
  assume "dict_ok l"
  then have d: "distinct (map ca_id (map (\<lambda>(d, v, toks). \<lparr>ca_id = d, ca_version = v, ca_score = s d v toks\<rparr>) l))" for s
    by (simp add: dict_ok_def comp_def split_beta)
  show ?thesis
    unfolding raw_scores_def Let_def by (rule distinct_map_filter) (rule d)
qed

lemma normalize_ids [simp]: "map ca_id (normalize_scores cs) = map ca_id cs"
  by (simp add: normalize_scores_def Let_def comp_def)

lemma normalize_mem:
  assumes "c \<in> set (normalize_scores cs)" and "\<forall>c \<in> set cs. ca_score c > 0"
  shows "0 < ca_score c \<and> ca_score c \<le> 1 \<and> (\<exists>c0 \<in> set cs. ca_id c = ca_id c0 \<and> ca_version c = ca_version c0)"
proof -
  define top where "top = Max (set (map ca_score cs))"
  from assms(1) obtain c0 where c0: "c0 \<in> set cs"
      "c = c0\<lparr>ca_score := (if top > 0 then ca_score c0 / top else 0)\<rparr>"
    by (auto simp: normalize_scores_def Let_def top_def)
  from c0(1) have le: "ca_score c0 \<le> top" by (simp add: top_def)
  moreover from assms(2) c0(1) le have "0 < top" by (meson order_less_le_trans)
  ultimately have "0 < ca_score c" "ca_score c \<le> 1" using assms(2) c0 by simp_all
  with c0 show ?thesis by auto
qed

lemma keyword_search_cases:
  "keyword_search logf ix q n X = [] \<or>
   keyword_search logf ix q n X = cut n (rank_candidates (normalize_scores (raw_scores logf (latest_of X ix) (analyze_text q))))"
  by (simp add: keyword_search_def Let_def)

lemma keyword_search_ids:
  assumes "c \<in> set (keyword_search logf ix q n X)"
  shows "ca_id c \<notin> X \<and> 0 < ca_score c \<and> ca_score c \<le> 1
     \<and> (\<exists>toks. ((ca_id c, ca_version c), toks) \<in> set ix)
     \<and> (\<forall>v toks. ((ca_id c, v), toks) \<in> set ix \<longrightarrow> v \<le> ca_version c)"
proof -
  let ?raw = "raw_scores logf (latest_of X ix) (analyze_text q)"
  have "c \<in> set (normalize_scores ?raw)"
    using assms keyword_search_cases [of logf ix q n X] set_cut by (metis empty_iff empty_set set_rank subsetD)
  then have n: "0 < ca_score c \<and> ca_score c \<le> 1 \<and> (\<exists>c0 \<in> set ?raw. ca_id c = ca_id c0 \<and> ca_version c = ca_version c0)"
    by (rule normalize_mem) (auto dest: raw_scores_mem)
  then obtain toks where "(ca_id c, ca_version c, toks) \<in> set (latest_of X ix)"
    by (metis raw_scores_mem)
  then have "dict_get (latest_of X ix) (ca_id c) = Some (ca_version c, toks)"
    by (rule dict_mem_get [OF latest_of_ok])
  with latest_of_get n show ?thesis by blast
qed

lemma keyword_search_distinct: "distinct (map ca_id (keyword_search logf ix q n X))"
  using keyword_search_cases [of logf ix q n X]
  by (auto simp: distinct_ids_cut_rank raw_scores_distinct latest_of_ok)

section \<open>Fusion\<close>

text \<open>The sum of \<open>1 / (k + rank)\<close> over the places of a document in a list.\<close>

fun rr_from :: "rat \<Rightarrow> nat \<Rightarrow> candidate list \<Rightarrow> string \<Rightarrow> rat" where
  "rr_from k r [] d = 0"
| "rr_from k r (c # cs) d = (if ca_id c = d then 1 / (k + of_nat r) else 0) + rr_from k (r + 1) cs d"

definition rrf_score :: "rat \<Rightarrow> candidate list \<Rightarrow> candidate list \<Rightarrow> string \<Rightarrow> rat" where
  "rrf_score k neural keyword d = rr_from k 1 neural d + rr_from k 1 keyword d"

definition ids_of :: "candidate list \<Rightarrow> string set" where
  "ids_of cs = set (map ca_id cs)"

lemma ids_of_simps [simp]: "ids_of [] = {}" "ids_of (c # cs) = insert (ca_id c) (ids_of cs)"
  by (simp_all add: ids_of_def)

lemma rr_from_nonneg: "0 \<le> k \<Longrightarrow> 0 \<le> rr_from k r cs d"
  by (induction cs arbitrary: r) simp_all

lemma rr_from_pos: "0 < k \<Longrightarrow> d \<in> ids_of cs \<Longrightarrow> 0 < rr_from k r cs d"
proof (induction cs arbitrary: r)
  case (Cons c cs)
  have "0 \<le> rr_from k (r + 1) cs d" using Cons.prems(1) by (simp add: rr_from_nonneg)
  moreover have "0 < 1 / (k + of_nat r)" using Cons.prems(1) by (simp add: add_pos_nonneg)
  ultimately show ?case using Cons.IH [of "r + 1"] Cons.prems by (auto simp: add_pos_nonneg)
qed simp

lemma rr_from_out: "d \<notin> ids_of cs \<Longrightarrow> rr_from k r cs d = 0"
  by (induction cs arbitrary: r) auto

definition got :: "(string, rat) dict \<Rightarrow> string \<Rightarrow> rat" where
  "got s d = (case dict_get s d of Some x \<Rightarrow> x | None \<Rightarrow> 0)"

lemma rrf_fold_scores:
  "fold (rrf_add k keep) cs (r, s, v) = (r', s', v') \<Longrightarrow>
   dict_get s' d = (if d \<in> ids_of cs then Some (got s d + rr_from k r cs d) else dict_get s d) \<and> (dict_ok s \<longrightarrow> dict_ok s')"
proof (induction cs arbitrary: r s v)
  case Nil
  then show ?case by simp
next
  case (Cons c cs)
  obtain v1 where step: "rrf_add k keep c (r, s, v)
      = (r + 1, dict_set (ca_id c) (got s (ca_id c) + 1 / (k + of_nat r)) s, v1)"
    by (simp add: rrf_add_def got_def)
  with Cons.prems have "fold (rrf_add k keep) cs (r + 1, dict_set (ca_id c) (got s (ca_id c) + 1 / (k + of_nat r)) s, v1) = (r', s', v')"
    by simp
  from Cons.IH [OF this] show ?case
    by (auto simp: got_def rr_from_out add.assoc)
qed

lemma rrf_fold_versions:
  "fold (rrf_add k keep) cs (r, s, v) = (r', s', v') \<Longrightarrow>
   dict_get v' d =
     (if keep
      then (case dict_get v d of Some n \<Rightarrow> Some n | None \<Rightarrow> map_option ca_version (find (\<lambda>c. ca_id c = d) cs))
      else (case find (\<lambda>c. ca_id c = d) (rev cs) of Some c \<Rightarrow> Some (ca_version c) | None \<Rightarrow> dict_get v d))"
proof (induction cs arbitrary: r s v)
  case Nil
  then show ?case by (simp split: option.split)
next
  case (Cons c cs)
  let ?v1 = "if keep \<and> dict_get v (ca_id c) \<noteq> None then v else dict_set (ca_id c) (ca_version c) v"
  obtain s1 where step: "rrf_add k keep c (r, s, v) = (r + 1, s1, ?v1)"
    by (simp add: rrf_add_def)
  with Cons.prems have "fold (rrf_add k keep) cs (r + 1, s1, ?v1) = (r', s', v')" by simp
  from Cons.IH [OF this] show ?case
    by (auto simp: find_snoc split: option.splits)
qed


lemma rrf_scores_get:
  assumes "rrf_scores k neural keyword = (scores, versions)"
  shows "dict_ok scores"
    and "dict_get scores d = (if d \<in> ids_of neural \<union> ids_of keyword then Some (rrf_score k neural keyword d) else None)"
    and "dict_get versions d = (case find (\<lambda>c. ca_id c = d) (rev neural) of
           Some c \<Rightarrow> Some (ca_version c) | None \<Rightarrow> map_option ca_version (find (\<lambda>c. ca_id c = d) keyword))"
proof -
  obtain r1 s1 v1 where 1: "fold (rrf_add k False) neural (1, [], []) = (r1, s1, v1)" by (metis prod_cases3)
  obtain r2 where 2: "fold (rrf_add k True) keyword (1, s1, v1) = (r2, scores, versions)"
    using assms 1 by (cases "fold (rrf_add k True) keyword (1, s1, v1)") (auto simp: rrf_scores_def)
  show "dict_ok scores" using rrf_fold_scores [OF 1] rrf_fold_scores [OF 2] by simp
  show "dict_get scores d = (if d \<in> ids_of neural \<union> ids_of keyword then Some (rrf_score k neural keyword d) else None)"
    using rrf_fold_scores [OF 1, of d] rrf_fold_scores [OF 2, of d]
    by (auto simp: got_def rrf_score_def rr_from_out)
  show "dict_get versions d = (case find (\<lambda>c. ca_id c = d) (rev neural) of
           Some c \<Rightarrow> Some (ca_version c) | None \<Rightarrow> map_option ca_version (find (\<lambda>c. ca_id c = d) keyword))"
    using rrf_fold_versions [OF 1, of d] rrf_fold_versions [OF 2, of d] by (simp split: option.split)
qed

definition fused_version :: "candidate list \<Rightarrow> candidate list \<Rightarrow> string \<Rightarrow> int option" where
  "fused_version neural keyword d = (case find (\<lambda>c. ca_id c = d) (rev neural) of
     Some c \<Rightarrow> Some (ca_version c) | None \<Rightarrow> map_option ca_version (find (\<lambda>c. ca_id c = d) keyword))"

definition fused_ids :: "candidate list \<Rightarrow> candidate list \<Rightarrow> string set" where
  "fused_ids neural keyword = ids_of neural \<union> ids_of keyword"

definition top_score :: "rat \<Rightarrow> candidate list \<Rightarrow> candidate list \<Rightarrow> rat" where
  "top_score k neural keyword = Max (rrf_score k neural keyword ` fused_ids neural keyword)"

lemma top_score_ge: "d \<in> fused_ids neural keyword \<Longrightarrow> rrf_score k neural keyword d \<le> top_score k neural keyword"
  by (simp add: top_score_def fused_ids_def ids_of_def)

lemma rrf_score_pos: "0 < k \<Longrightarrow> d \<in> fused_ids neural keyword \<Longrightarrow> 0 < rrf_score k neural keyword d"
  using rr_from_pos [of k d neural 1] rr_from_pos [of k d keyword 1]
    rr_from_nonneg [of k 1 neural d] rr_from_nonneg [of k 1 keyword d]
  by (auto simp: fused_ids_def rrf_score_def)

definition fused_candidates :: "rat \<Rightarrow> candidate list \<Rightarrow> candidate list \<Rightarrow> candidate set" where
  "fused_candidates k neural keyword =
     (\<lambda>d. \<lparr>ca_id = d, ca_version = the (fused_version neural keyword d),
           ca_score = rrf_score k neural keyword d / top_score k neural keyword\<rparr>) ` fused_ids neural keyword"

lemma fusion_eq:
  assumes k: "0 < k"
  obtains cs where "reciprocal_rank_fusion neural keyword n k = cut n (rank_candidates cs)"
    "set cs = fused_candidates k neural keyword" "distinct (map ca_id cs)" "length cs = card (fused_ids neural keyword)"
proof -
  obtain scores versions where s: "rrf_scores k neural keyword = (scores, versions)"
    by (cases "rrf_scores k neural keyword")
  note get = rrf_scores_get [OF s]
  have keys: "fst ` set scores = fused_ids neural keyword"
  proof -
    have "d \<in> fst ` set scores \<longleftrightarrow> d \<in> fused_ids neural keyword" for d
      using get(2) [of d] dict_get_None_iff [of scores d] by (auto simp: fused_ids_def split: if_splits)
    then show ?thesis by blast
  qed
  have mem: "x = rrf_score k neural keyword d" if "(d, x) \<in> set scores" for d x
    using dict_mem_get [OF get(1) that] get(2) [of d] by (auto split: if_splits)
  have entries: "set scores = (\<lambda>d. (d, rrf_score k neural keyword d)) ` fused_ids neural keyword"
    using mem by (force simp flip: keys)
  define top where "top = Max (set (map snd scores))"
  have top: "top = top_score k neural keyword"
    by (simp add: top_def top_score_def entries image_image)
  define cs where "cs = map (\<lambda>(d, x). \<lparr>ca_id = d, ca_version = the (dict_get versions d),
      ca_score = (if top > 0 then x / top else 0)\<rparr>) scores"
  have pos: "0 < top_score k neural keyword" if "d \<in> fused_ids neural keyword" for d
    using rrf_score_pos [OF k that] top_score_ge [OF that, of k] by linarith
  have "set cs = fused_candidates k neural keyword"
    using pos by (auto simp: cs_def entries fused_candidates_def top fused_version_def get(3) image_image)
  moreover have ids: "map ca_id cs = map fst scores"
    by (simp add: cs_def comp_def split_beta)
  moreover have d: "distinct (map fst scores)" using get(1) by (simp add: dict_ok_def)
  moreover have "length cs = card (fused_ids neural keyword)"
    using distinct_card [OF d] by (simp add: keys cs_def)
  moreover have "reciprocal_rank_fusion neural keyword n k = cut n (rank_candidates cs)"
  proof (cases "scores = []")
    case True
    then show ?thesis by (simp add: reciprocal_rank_fusion_def s cs_def rank_candidates_def cut_def py_take_def)
  next
    case False
    then show ?thesis
      unfolding reciprocal_rank_fusion_def s cs_def top_def Let_def by (simp only: prod.case if_False)
  qed
  ultimately show thesis using that by metis
qed

text \<open>
  Reciprocal-rank fusion.  The fused list holds every document of the two input lists once, up to
  the requested number; the score of a document is the sum of the reciprocals of its ranks (the
  constant added) over the greatest such sum, so it lies in (0, 1] and the first entry has score 1;
  the version is that of the neural list when the document is in it; and the list is ordered by
  falling score, then identifier, then version.
\<close>

theorem rrf_fusion:
  assumes k: "0 < k" and n: "1 \<le> n"
    and run: "reciprocal_rank_fusion neural keyword n k = cs"
  shows "set cs \<subseteq> fused_candidates k neural keyword
     \<and> length cs = min (nat n) (card (fused_ids neural keyword))
     \<and> distinct (map ca_id cs) \<and> sorted (map candidate_key cs)
     \<and> (\<forall>c \<in> set cs. 0 < ca_score c \<and> ca_score c \<le> 1)
     \<and> (cs \<noteq> [] \<longrightarrow> ca_score (hd cs) = 1)"
proof -
  obtain xs where xs: "cs = cut n (rank_candidates xs)" "set xs = fused_candidates k neural keyword"
      "distinct (map ca_id xs)" "length xs = card (fused_ids neural keyword)"
    using fusion_eq [OF k, of neural keyword n] run by metis
  have bounds: "0 < ca_score c \<and> ca_score c \<le> 1" if "c \<in> set xs" for c
    using that rrf_score_pos [OF k] top_score_ge
    by (auto simp: xs(2) fused_candidates_def divide_le_eq_1 intro!: divide_pos_pos) (meson order_less_le_trans)+
  have "ca_score (hd cs) = 1" if "cs \<noteq> []"
  proof -
    from that n have hd: "hd cs = hd (rank_candidates xs)" and "rank_candidates xs \<noteq> []"
      by (auto simp: xs(1) cut_def py_take_def hd_take)
    then obtain c ys where cys: "rank_candidates xs = c # ys" by (cases "rank_candidates xs") auto
    then have "xs \<noteq> []" by (auto simp: rank_candidates_def)
    then have "fused_ids neural keyword \<noteq> {}" using xs(2) by (auto simp: fused_candidates_def)
    then obtain d where d: "d \<in> fused_ids neural keyword" "rrf_score k neural keyword d = top_score k neural keyword"
      unfolding top_score_def
      by (metis (no_types, lifting) Max_in finite_imageI fused_ids_def finite_UnI ids_of_def finite_set imageE image_is_empty)
    define c1 where "c1 = \<lparr>ca_id = d, ca_version = the (fused_version neural keyword d),
        ca_score = rrf_score k neural keyword d / top_score k neural keyword\<rparr>"
    have "c1 \<in> set xs" unfolding xs(2) fused_candidates_def c1_def using d(1) by (rule imageI)
    moreover have one: "ca_score c1 = 1" using d rrf_score_pos [OF k d(1)] by (simp add: c1_def)
    moreover from calculation have "c1 \<in> set (c # ys)" using cys by (metis set_rank)
    moreover have "sorted (map candidate_key (c # ys))" using sorted_rank [of xs] cys by simp
    ultimately have "candidate_key c \<le> candidate_key c1" by auto
    then have "1 \<le> ca_score c" using one by (auto simp: candidate_key_def)
    moreover have "ca_score c \<le> 1" using bounds cys by (metis list.set_intros(1) set_rank)
    ultimately show ?thesis using hd cys by simp
  qed
  moreover have sub: "set cs \<subseteq> set xs" using set_cut [of n "rank_candidates xs"] by (simp add: xs(1))
  moreover have "length cs = min (nat n) (card (fused_ids neural keyword))"
    using n by (simp add: xs(1) length_cut rank_candidates_def flip: xs(4))
  moreover have "distinct (map ca_id cs)" using xs(3) by (simp add: xs(1) distinct_ids_cut_rank)
  moreover have "sorted (map candidate_key cs)" by (simp add: xs(1) cut_map sorted_cut sorted_rank)
  ultimately show ?thesis using bounds xs(2) by blast
qed

lemma rrf_fusion_witness:
  "\<exists>cs. reciprocal_rank_fusion [\<lparr>ca_id = ''a'', ca_version = 1, ca_score = 1\<rparr>, \<lparr>ca_id = ''b'', ca_version = 2, ca_score = 1 / 2\<rparr>]
        [\<lparr>ca_id = ''b'', ca_version = 3, ca_score = 1\<rparr>] 20 rrf_k = cs \<and> length cs = 2 \<and> ca_score (hd cs) = 1"
proof -
  let ?n = "[\<lparr>ca_id = ''a'', ca_version = 1, ca_score = 1\<rparr>, \<lparr>ca_id = ''b'', ca_version = 2, ca_score = 1 / 2\<rparr>]"
  let ?w = "[\<lparr>ca_id = ''b'', ca_version = 3, ca_score = 1\<rparr>]"
  define cs where "cs = reciprocal_rank_fusion ?n ?w 20 rrf_k"
  have "fused_ids ?n ?w = {''a'', ''b''}" by (auto simp: fused_ids_def)
  moreover have "0 < rrf_k" by (simp add: rrf_k_def)
  ultimately have "length cs = 2" and "cs \<noteq> [] \<longrightarrow> ca_score (hd cs) = 1"
    using rrf_fusion [OF _ _ cs_def [symmetric]] by simp_all
  then show ?thesis by (intro exI [of _ cs]) (auto simp: cs_def)
qed

section \<open>Thresholds and the order of results\<close>

lemma threshold_filters_eq:
  "apply_threshold_filters rs min_cred max_ai = filter (\<lambda>r.
     (\<forall>t. min_cred = Some t \<longrightarrow> t \<le> pv_credibility (sr_provenance r))
     \<and> (\<forall>t. max_ai = Some t \<longrightarrow> pv_ai (sr_provenance r) \<le> t)) rs"
  by (auto simp: apply_threshold_filters_def apply_min_credibility_def apply_max_ai_generated_def
      intro: filter_cong split: option.split)

lemma strict_ordering_set [simp]: "set (apply_strict_ordering rs) = set rs"
  by (simp add: apply_strict_ordering_def)

text \<open>
  The order does not depend on how the results were collected, as long as no two of them have the
  same document and version.
\<close>

lemma strict_ordering_unique:
  assumes "distinct (map (\<lambda>r. (sr_id r, sr_version r)) rs)" and "mset rs = mset rs'"
  shows "apply_strict_ordering rs = apply_strict_ordering rs'"
  unfolding apply_strict_ordering_def
proof (rule sort_key_inj_cong)
  show "inj_on result_key (set rs)"
    using assms(1) by (auto simp: distinct_map inj_on_def result_key_def)
qed fact

end
