(* ===== verification/Retriever.thy ===== *)
theory Retriever
  imports Ranking Urls
begin

text \<open>
  The search service: \<open>backend/retriever/cache.py\<close> (\<open>WarmCache\<close>), \<open>service.py\<close> (\<open>RetrieverService\<close>) and
  the fusion of \<open>opensearch_client.py\<close>.

  Arguments of the model: embedding, logarithm, digest and the serialization of filters
  (\<open>json.dumps\<close>), the validation of bracketed hosts, and the two queries of an OpenSearch cluster, when
  there is one.  Clock readings are arguments of the operations.
\<close>

section \<open>The warm cache\<close>

record cache_entry =
  ce_results :: "search_result list"
  ce_index_version :: int
  ce_created_at :: rat

record warm_cache =
  wc_ttl :: rat
  wc_store :: "(string, cache_entry) dict"

definition cache_ttl_seconds :: rat where "cache_ttl_seconds = 300"

definition new_warm_cache :: "rat \<Rightarrow> warm_cache" where
  "new_warm_cache ttl = \<lparr>wc_ttl = ttl, wc_store = []\<rparr>"

definition cache_size :: "warm_cache \<Rightarrow> nat" where
  "cache_size c = length (wc_store c)"

record search_request =
  rq_query :: string
  rq_mode :: search_mode
  rq_num_results :: int
  rq_filters :: "json option"
  rq_pipeline :: "string option"
  rq_min_credibility :: "rat option"
  rq_max_ai :: "rat option"
  rq_tenant :: string

record cache_env =
  cv_dumps :: "json \<Rightarrow> string"
  cv_sha256 :: "string \<Rightarrow> string"

definition filters_text :: "cache_env \<Rightarrow> json option \<Rightarrow> string" where
  "filters_text ce f = (case f of Some j \<Rightarrow> if json_truthy j then cv_dumps ce j else '''' | None \<Rightarrow> '''')"

definition raw_key :: "cache_env \<Rightarrow> search_request \<Rightarrow> string" where
  "raw_key ce r = rq_tenant r @ '':'' @ rq_query r @ '':'' @ mode_value (rq_mode r) @ '':'' @ filters_text ce (rq_filters r)
     @ '':'' @ (case rq_pipeline r of Some p \<Rightarrow> p | None \<Rightarrow> '''') @ '':'' @ str_int (rq_num_results r)"

definition make_key :: "cache_env \<Rightarrow> search_request \<Rightarrow> string" where
  "make_key ce r = rq_tenant r @ '':'' @ cv_sha256 ce (raw_key ce r)"

definition cache_del :: "warm_cache \<Rightarrow> string \<Rightarrow> warm_cache" where
  "cache_del c key = c\<lparr>wc_store := dict_del key (wc_store c)\<rparr>"

definition cache_lookup :: "warm_cache \<Rightarrow> rat \<Rightarrow> string \<Rightarrow> search_result list option \<times> warm_cache" where
  "cache_lookup c now key =
     (case dict_get (wc_store c) key of
        None \<Rightarrow> (None, c)
      | Some e \<Rightarrow> if now - ce_created_at e > wc_ttl c then (None, cache_del c key) else (Some (ce_results e), c))"

definition cache_get :: "cache_env \<Rightarrow> warm_cache \<Rightarrow> rat \<Rightarrow> search_request \<Rightarrow> search_result list option \<times> warm_cache" where
  "cache_get ce c now r = cache_lookup c now (make_key ce r)"

definition cache_insert :: "warm_cache \<Rightarrow> rat \<Rightarrow> string \<Rightarrow> search_result list \<times> int \<Rightarrow> warm_cache" where
  "cache_insert c now key p =
     c\<lparr>wc_store := dict_set key \<lparr>ce_results = fst p, ce_index_version = snd p, ce_created_at = now\<rparr> (wc_store c)\<rparr>"

definition cache_put :: "cache_env \<Rightarrow> warm_cache \<Rightarrow> rat \<Rightarrow> search_request \<Rightarrow> search_result list \<Rightarrow> int \<Rightarrow> warm_cache" where
  "cache_put ce c now r results index_version = cache_insert c now (make_key ce r) (results, index_version)"

text \<open>\<open>invalidate\<close>: everything, or the entries whose key starts with the tenant and a colon.\<close>

definition cache_invalidate :: "warm_cache \<Rightarrow> string option \<Rightarrow> nat \<times> warm_cache" where
  "cache_invalidate c tenant =
     (case tenant of
        None \<Rightarrow> (length (wc_store c), c\<lparr>wc_store := []\<rparr>)
      | Some t \<Rightarrow>
          (let keys = filter (\<lambda>k. starts_with k (t @ '':'')) (dict_keys (wc_store c))
           in (length keys, c\<lparr>wc_store := fold dict_del keys (wc_store c)\<rparr>)))"

definition cache_peek :: "warm_cache \<Rightarrow> rat \<Rightarrow> string \<Rightarrow> (search_result list \<times> int) option" where
  "cache_peek c now key =
     (case dict_get (wc_store c) key of
        None \<Rightarrow> None
      | Some e \<Rightarrow> if now - ce_created_at e > wc_ttl c then None else Some (ce_results e, ce_index_version e))"

definition cache_stamp :: "warm_cache \<Rightarrow> string \<Rightarrow> ((search_result list \<times> int) \<times> rat) option" where
  "cache_stamp c key = map_option (\<lambda>e. ((ce_results e, ce_index_version e), ce_created_at e)) (dict_get (wc_store c) key)"

lemma cache_lookup_peek: "fst (cache_lookup c now key) = map_option fst (cache_peek c now key)"
  by (simp add: cache_lookup_def cache_peek_def split: option.split)

interpretation warm: ttl_cache cache_peek "\<lambda>c now key. snd (cache_lookup c now key)" cache_insert cache_del wc_ttl cache_stamp
  by unfold_locales
    (auto simp: cache_peek_def cache_lookup_def cache_insert_def cache_del_def cache_stamp_def
      split: option.splits if_splits)

section \<open>Results from candidates\<close>

definition extract_title :: "document_version \<Rightarrow> string" where
  "extract_title v =
     (if dv_text v = [] then ''''
      else take 100 (py_strip (takeWhile (\<lambda>c. c \<noteq> CHR 0x0A) (dv_text v))))"

definition build_provenance :: "datetime \<Rightarrow> document_version \<Rightarrow> provenance_score" where
  "build_provenance now v = (case dv_provenance v of Some p \<Rightarrow> p
     | None \<Rightarrow> \<lparr>pv_credibility = 1 / 2, pv_ai = 1 / 2, pv_scored_at = now\<rparr>)"

definition get_document_version :: "indexer \<Rightarrow> string \<Rightarrow> int \<Rightarrow> document_version option" where
  "get_document_version ix d n =
     (case get_document ix d of
        None \<Rightarrow> None
      | Some vs \<Rightarrow> if vs = [] then None
                  else (case find (\<lambda>v. dv_version v = n) vs of Some v \<Rightarrow> Some v | None \<Rightarrow> Some (last vs)))"

definition result_of :: "indexer \<Rightarrow> datetime \<Rightarrow> candidate \<Rightarrow> search_result option" where
  "result_of ix now c =
     (case get_document_version ix (ca_id c) (ca_version c) of
        None \<Rightarrow> None
      | Some v \<Rightarrow>
          if \<not> dv_visible v then None
          else Some \<lparr>sr_id = ca_id c, sr_url = dv_url v, sr_title = extract_title v,
                     sr_score = max 0 (min 1 (ca_score c)), sr_published = None,
                     sr_provenance = build_provenance now v, sr_version = ca_version c\<rparr>)"

definition candidates_to_results :: "indexer \<Rightarrow> datetime \<Rightarrow> candidate list \<Rightarrow> search_result list" where
  "candidates_to_results ix now cs = List.map_filter (result_of ix now) cs"

section \<open>OpenSearch\<close>

record os_hit =
  oh_id :: string
  oh_version :: int
  oh_score :: rat
  oh_url :: string
  oh_title :: string
  oh_credibility :: rat
  oh_ai :: rat

text \<open>The two queries: number of hits, tenant.\<close>

record os_client =
  oc_keyword :: "string \<Rightarrow> int \<Rightarrow> string \<Rightarrow> os_hit list"
  oc_vector :: "rat list \<Rightarrow> int \<Rightarrow> string \<Rightarrow> os_hit list"

definition hit_key :: "os_hit \<Rightarrow> string" where
  "hit_key h = oh_id h @ ''_'' @ str_int (oh_version h)"

definition fuse_hit :: "os_hit \<Rightarrow> nat \<times> (string, rat) dict \<times> (string, os_hit) dict
    \<Rightarrow> nat \<times> (string, rat) dict \<times> (string, os_hit) dict" where
  "fuse_hit h s =
     (case s of (rank, scores, sources) \<Rightarrow>
        (rank + 1,
         dict_set (hit_key h) ((case dict_get scores (hit_key h) of Some x \<Rightarrow> x | None \<Rightarrow> 0) + 1 / (60 + of_nat rank + 1)) scores,
         dict_set (hit_key h) h sources))"

definition hybrid_search :: "os_client \<Rightarrow> string \<Rightarrow> rat list \<Rightarrow> int \<Rightarrow> string \<Rightarrow> os_hit list" where
  "hybrid_search os q e n tenant =
     (let kw = oc_keyword os q (n * 2) tenant;
          vs = oc_vector os e (n * 2) tenant;
          (_, sc, so) = fold fuse_hit kw (0, [], []);
          (_, scores, sources) = fold fuse_hit vs (0, sc, so);
          ks = sort_key (\<lambda>k. - the (dict_get scores k)) (dict_keys scores)
      in map (\<lambda>k. (the (dict_get sources k))\<lparr>oh_score := the (dict_get scores k)\<rparr>) (cut n ks))"

definition hit_result :: "datetime \<Rightarrow> rat \<Rightarrow> os_hit \<Rightarrow> search_result" where
  "hit_result now max_score h =
     \<lparr>sr_id = oh_id h, sr_url = oh_url h, sr_title = take 100 (oh_title h),
      sr_score = max 0 (min 1 (if max_score > 0 then oh_score h / max_score else 0)), sr_published = None,
      sr_provenance = \<lparr>pv_credibility = oh_credibility h, pv_ai = oh_ai h, pv_scored_at = now\<rparr>,
      sr_version = oh_version h\<rparr>"

section \<open>The service\<close>

record retriever_env =
  re_embed :: "string \<Rightarrow> rat list"
  re_log :: "rat \<Rightarrow> rat"
  re_cache :: cache_env
  re_opensearch :: "os_client option"
  re_bracket_ok :: "string \<Rightarrow> bool"

record retriever =
  rv_cache :: warm_cache
  rv_index_versions :: "(string, int) dict"

record retrieval_response =
  rr_results :: "search_result list"
  rr_index_version :: int
  rr_cache_hit :: bool

definition new_retriever :: retriever where
  "new_retriever = \<lparr>rv_cache = new_warm_cache cache_ttl_seconds, rv_index_versions = []\<rparr>"

definition get_index_version :: "retriever \<Rightarrow> string \<Rightarrow> int \<times> retriever" where
  "get_index_version rv tenant =
     (case dict_get (rv_index_versions rv) tenant of
        Some n \<Rightarrow> (n, rv)
      | None \<Rightarrow> (1, rv\<lparr>rv_index_versions := dict_set tenant 1 (rv_index_versions rv)\<rparr>))"

definition increment_index_version :: "retriever \<Rightarrow> string \<Rightarrow> int \<times> retriever" where
  "increment_index_version rv tenant =
     (let (n, rv') = get_index_version rv tenant
      in (n + 1, rv'\<lparr>rv_index_versions := dict_set tenant (n + 1) (rv_index_versions rv')\<rparr>))"

definition opensearch_hits :: "retriever_env \<Rightarrow> os_client \<Rightarrow> search_request \<Rightarrow> os_hit list" where
  "opensearch_hits env os r =
     (let n = rq_num_results r * 2 in
      case rq_mode r of
        Neural \<Rightarrow> oc_vector os (re_embed env (rq_query r)) n (rq_tenant r)
      | Keyword \<Rightarrow> oc_keyword os (rq_query r) n (rq_tenant r)
      | Hybrid \<Rightarrow> hybrid_search os (rq_query r) (re_embed env (rq_query r)) n (rq_tenant r))"

definition opensearch_retrieval :: "retriever_env \<Rightarrow> os_client \<Rightarrow> datetime \<Rightarrow> search_request \<Rightarrow> search_result list" where
  "opensearch_retrieval env os now r =
     (let hits = opensearch_hits env os r
      in map (hit_result now (case hits of [] \<Rightarrow> 1 | h # _ \<Rightarrow> oh_score h)) hits)"

definition mode_candidates :: "retriever_env \<Rightarrow> indexer \<Rightarrow> search_request \<Rightarrow> candidate list" where
  "mode_candidates env ix r =
     (let n = rq_num_results r * 2;
          neural = neural_search (re_embed env) (ix_vectors ix) (rq_query r) n {};
          keyword = keyword_search (re_log env) (ix_lexical ix) (rq_query r) n {}
      in case rq_mode r of
           Neural \<Rightarrow> neural
         | Keyword \<Rightarrow> keyword
         | Hybrid \<Rightarrow> reciprocal_rank_fusion neural keyword n rrf_k)"

definition execute_retrieval :: "retriever_env \<Rightarrow> indexer \<Rightarrow> datetime \<Rightarrow> search_request \<Rightarrow> search_result list" where
  "execute_retrieval env ix now r =
     (case re_opensearch env of
        Some os \<Rightarrow> opensearch_retrieval env os now r
      | None \<Rightarrow> candidates_to_results ix now (mode_candidates env ix r))"

text \<open>\<open>now\<close> is the reading of \<open>time.time()\<close>, \<open>at_time\<close> that of \<open>datetime.now\<close>.\<close>

definition search :: "retriever_env \<Rightarrow> indexer \<Rightarrow> retriever \<Rightarrow> rat \<Rightarrow> datetime \<Rightarrow> search_request
    \<Rightarrow> retrieval_response \<times> retriever" where
  "search env ix rv now at_time r =
     (let (index_version, rv1) = get_index_version rv (rq_tenant r);
          (hit, c) = cache_get (re_cache env) (rv_cache rv1) now r;
          rv2 = rv1\<lparr>rv_cache := c\<rparr>
      in case hit of
           Some results \<Rightarrow> (\<lparr>rr_results = results, rr_index_version = index_version, rr_cache_hit = True\<rparr>, rv2)
         | None \<Rightarrow>
             (let results = execute_retrieval env ix at_time r;
                  results = apply_threshold_filters results (rq_min_credibility r) (rq_max_ai r);
                  results = apply_strict_ordering results;
                  results = cut (rq_num_results r) results
              in (\<lparr>rr_results = results, rr_index_version = index_version, rr_cache_hit = False\<rparr>,
                  rv2\<lparr>rv_cache := cache_put (re_cache env) c now r results index_version\<rparr>)))"

record similar_request =
  sq_url :: string
  sq_num_results :: int
  sq_min_credibility :: "rat option"
  sq_max_ai :: "rat option"
  sq_tenant :: string

datatype find_error = DocumentNotFoundError string | UrlValueError

definition lookup_url :: "indexer \<Rightarrow> string \<Rightarrow> string \<Rightarrow> document_version list" where
  "lookup_url ix canonical url =
     (case get_document_by_url ix canonical of
        Some vs \<Rightarrow> if vs \<noteq> [] then vs
                   else (case get_document_by_url ix url of Some ws \<Rightarrow> ws | None \<Rightarrow> [])
      | None \<Rightarrow> (case get_document_by_url ix url of Some ws \<Rightarrow> ws | None \<Rightarrow> []))"

definition find_similar :: "retriever_env \<Rightarrow> indexer \<Rightarrow> retriever \<Rightarrow> datetime \<Rightarrow> similar_request
    \<Rightarrow> (find_error + retrieval_response) \<times> retriever" where
  "find_similar env ix rv at_time r =
     (let (index_version, rv1) = get_index_version rv (sq_tenant r) in
      case canonicalize_url (re_bracket_ok env) (sq_url r) of
        None \<Rightarrow> (Inl UrlValueError, rv1)
      | Some canonical \<Rightarrow>
          (let vs = lookup_url ix canonical (sq_url r) in
           if vs = [] then (Inl (DocumentNotFoundError (sq_url r)), rv1)
           else (let cs = neural_search (re_embed env) (ix_vectors ix) (dv_text (last vs)) (sq_num_results r * 2)
                            {dv_document_id (hd vs)};
                     results = candidates_to_results ix at_time cs;
                     results = apply_threshold_filters results (sq_min_credibility r) (sq_max_ai r);
                     results = apply_strict_ordering results;
                     results = cut (sq_num_results r) results
                 in (Inr \<lparr>rr_results = results, rr_index_version = index_version, rr_cache_hit = False\<rparr>, rv1))))"


section \<open>What a retrieved candidate stands for\<close>

definition result_ok :: "indexer \<Rightarrow> rat option \<Rightarrow> rat option \<Rightarrow> search_result \<Rightarrow> bool" where
  "result_ok ix min_cred max_ai r \<longleftrightarrow>
     (\<exists>vs v. get_document ix (sr_id r) = Some vs \<and> v \<in> set vs \<and> dv_version v = sr_version r
        \<and> dv_visible v \<and> sr_url r = dv_url v)
     \<and> 0 \<le> sr_score r \<and> sr_score r \<le> 1
     \<and> (\<forall>t. min_cred = Some t \<longrightarrow> t \<le> pv_credibility (sr_provenance r))
     \<and> (\<forall>t. max_ai = Some t \<longrightarrow> pv_ai (sr_provenance r) \<le> t)"

definition indexed :: "indexer \<Rightarrow> string \<Rightarrow> int \<Rightarrow> bool" where
  "indexed ix d n \<longleftrightarrow> indexed_text (get_document ix d) n \<noteq> None"

lemma indexed_vector: "indexes_ok env ix \<Longrightarrow> ((d, n), e) \<in> set (ix_vectors ix) \<Longrightarrow> indexed ix d n"
proof -
  assume "indexes_ok env ix" and m: "((d, n), e) \<in> set (ix_vectors ix)"
  moreover from m have "vector_get (ix_vectors ix) d n \<noteq> None"
    unfolding vector_get_def dict_get_None_iff by force
  ultimately show ?thesis by (auto simp: indexes_ok_def indexed_def)
qed

lemma indexed_lexical: "indexes_ok env ix \<Longrightarrow> ((d, n), e) \<in> set (ix_lexical ix) \<Longrightarrow> indexed ix d n"
proof -
  assume i: "indexes_ok env ix" and m: "((d, n), e) \<in> set (ix_lexical ix)"
  from m have "lexical_get (ix_lexical ix) d n \<noteq> None"
    unfolding lexical_get_def dict_get_None_iff by force
  with i show ?thesis unfolding indexes_ok_def indexed_def by (metis option.map_disc_iff)
qed

lemma indexed_version:
  assumes "indexed ix d n"
  obtains vs v where "get_document ix d = Some vs" "v \<in> set vs" "dv_version v = n" "dv_visible v"
    "get_document_version ix d n = Some v"
proof -
  from assms obtain vs v where v: "get_document ix d = Some vs" "find (\<lambda>v. dv_version v = n) vs = Some v" "dv_visible v"
    by (auto simp: indexed_def indexed_text_def split: option.splits if_splits)
  moreover from v(2) have "v \<in> set vs" "dv_version v = n" by (auto simp: find_Some_iff)
  moreover from v(1,2) have "get_document_version ix d n = Some v" by (auto simp: get_document_version_def)
  ultimately show thesis using that by blast
qed

lemma result_of_indexed:
  assumes "indexed ix (ca_id c) (ca_version c)" and "result_of ix now c = Some r"
  shows "result_ok ix None None r \<and> sr_id r = ca_id c \<and> sr_version r = ca_version c"
proof -
  from indexed_version [OF assms(1)] obtain vs v
    where "get_document ix (ca_id c) = Some vs" "v \<in> set vs" "dv_version v = ca_version c" "dv_visible v"
      "get_document_version ix (ca_id c) (ca_version c) = Some v" by blast
  with assms(2) show ?thesis by (auto simp: result_of_def result_ok_def)
qed

lemma map_filter_keys:
  assumes "\<And>x y. f x = Some y \<Longrightarrow> k y = h x" and "distinct (map h xs)"
  shows "distinct (map k (List.map_filter f xs))"
  using assms(2)
proof (induction xs)
  case Nil
  then show ?case by (simp add: List.map_filter_def)
next
  case (Cons x xs)
  show ?case
  proof (cases "f x")
    case (Some y)
    have "h x \<notin> k ` set (List.map_filter f xs)"
      using Cons.prems assms(1) by (fastforce simp: List.map_filter_def image_iff)
    with Cons Some assms(1) [OF Some] show ?thesis by (simp add: List.map_filter_simps)
  qed (use Cons in \<open>simp add: List.map_filter_simps\<close>)
qed

lemma results_distinct:
  "distinct (map ca_id cs) \<Longrightarrow> distinct (map sr_id (candidates_to_results ix now cs))"
  unfolding candidates_to_results_def
  by (rule map_filter_keys) (auto simp: result_of_def split: option.splits if_splits)

lemma results_mem:
  "r \<in> set (candidates_to_results ix now cs) \<Longrightarrow> \<exists>c \<in> set cs. result_of ix now c = Some r"
  by (auto simp: candidates_to_results_def List.map_filter_def)

text \<open>Filtering, ordering and cutting: what both operations do with the results of their candidates.\<close>

definition finish_results :: "rat option \<Rightarrow> rat option \<Rightarrow> int \<Rightarrow> search_result list \<Rightarrow> search_result list" where
  "finish_results min_cred max_ai n rs = cut n (apply_strict_ordering (apply_threshold_filters rs min_cred max_ai))"

lemma finish_results_facts:
  assumes d: "distinct (map sr_id rs)" and n: "0 \<le> n"
  shows "length (finish_results min_cred max_ai n rs) \<le> nat n
     \<and> distinct (map sr_id (finish_results min_cred max_ai n rs))
     \<and> sorted (map result_key (finish_results min_cred max_ai n rs))
     \<and> (\<forall>r \<in> set (finish_results min_cred max_ai n rs). r \<in> set rs
          \<and> (\<forall>t. min_cred = Some t \<longrightarrow> t \<le> pv_credibility (sr_provenance r))
          \<and> (\<forall>t. max_ai = Some t \<longrightarrow> pv_ai (sr_provenance r) \<le> t))"
proof -
  let ?f = "apply_threshold_filters rs min_cred max_ai"
  have "distinct (map sr_id ?f)" unfolding threshold_filters_eq by (rule distinct_map_filter [OF d])
  moreover have "mset (map sr_id (apply_strict_ordering ?f)) = mset (map sr_id ?f)"
    by (simp add: apply_strict_ordering_def)
  ultimately have "distinct (map sr_id (apply_strict_ordering ?f))" by (metis mset_eq_imp_distinct_iff)
  then have "distinct (map sr_id (finish_results min_cred max_ai n rs))"
    by (simp add: finish_results_def cut_map distinct_cut)
  moreover have "sorted (map result_key (finish_results min_cred max_ai n rs))"
    by (simp add: finish_results_def cut_map sorted_cut apply_strict_ordering_def)
  moreover have "length (finish_results min_cred max_ai n rs) \<le> nat n"
    using n by (simp add: finish_results_def length_cut)
  moreover have "set (finish_results min_cred max_ai n rs) \<subseteq> set ?f"
    using set_cut [of n "apply_strict_ordering ?f"] by (simp add: finish_results_def)
  ultimately show ?thesis by (auto simp: threshold_filters_eq)
qed

text \<open>Nothing better is left out: what a cut answer lacks comes after it in the order.\<close>

definition meets :: "rat option \<Rightarrow> rat option \<Rightarrow> search_result \<Rightarrow> bool" where
  "meets min_cred max_ai r \<longleftrightarrow> (\<forall>t. min_cred = Some t \<longrightarrow> t \<le> pv_credibility (sr_provenance r))
     \<and> (\<forall>t. max_ai = Some t \<longrightarrow> pv_ai (sr_provenance r) \<le> t)"

definition answer_complete :: "rat option \<Rightarrow> rat option \<Rightarrow> int \<Rightarrow> search_result list \<Rightarrow> search_result list \<Rightarrow> bool" where
  "answer_complete min_cred max_ai n found rs \<longleftrightarrow>
     length rs = min (nat n) (length (filter (meets min_cred max_ai) found))
     \<and> (\<forall>x \<in> set found. meets min_cred max_ai x \<longrightarrow> x \<in> set rs \<or> (\<forall>y \<in> set rs. result_key y \<le> result_key x))"

lemma cut_split: "\<exists>zs. xs = cut n xs @ zs"
  unfolding cut_def py_take_def by (metis append_take_drop_id)

lemma finish_results_complete:
  assumes "0 \<le> n"
  shows "answer_complete min_cred max_ai n found (finish_results min_cred max_ai n found)"
proof -
  let ?f = "filter (meets min_cred max_ai) found"
  let ?s = "apply_strict_ordering ?f"
  have f: "apply_threshold_filters found min_cred max_ai = ?f"
    unfolding threshold_filters_eq meets_def ..
  obtain zs where z: "?s = cut n ?s @ zs" using cut_split by blast
  have "sorted (map result_key ?s)" by (simp add: apply_strict_ordering_def)
  then have le: "\<forall>y \<in> set (cut n ?s). \<forall>x \<in> set zs. result_key y \<le> result_key x"
    by (subst (asm) z) (simp add: sorted_append)
  have "x \<in> set (cut n ?s) \<or> (\<forall>y \<in> set (cut n ?s). result_key y \<le> result_key x)"
    if "x \<in> set found" "meets min_cred max_ai x" for x
  proof -
    have "x \<in> set ?s" using that by simp
    then have "x \<in> set (cut n ?s @ zs)" using z by metis
    with le show ?thesis by auto
  qed
  moreover have "length (cut n ?s) = min (nat n) (length ?f)"
    using assms by (simp add: length_cut apply_strict_ordering_def)
  ultimately show ?thesis by (simp add: answer_complete_def finish_results_def f)
qed

lemma search_eq:
  "search env ix rv now at_time r =
     (let (iv, rv1) = get_index_version rv (rq_tenant r);
          (hit, c) = cache_get (re_cache env) (rv_cache rv1) now r
      in case hit of
           Some results \<Rightarrow> (\<lparr>rr_results = results, rr_index_version = iv, rr_cache_hit = True\<rparr>, rv1\<lparr>rv_cache := c\<rparr>)
         | None \<Rightarrow>
             (let results = finish_results (rq_min_credibility r) (rq_max_ai r) (rq_num_results r) (execute_retrieval env ix at_time r)
              in (\<lparr>rr_results = results, rr_index_version = iv, rr_cache_hit = False\<rparr>,
                  rv1\<lparr>rv_cache := cache_put (re_cache env) c now r results iv\<rparr>)))"
  by (simp add: search_def finish_results_def Let_def split: prod.split option.split)


lemma find_mem: "find P xs = Some x \<Longrightarrow> x \<in> set xs \<and> P x"
  by (auto simp: find_Some_iff)

text \<open>Every candidate of the in-memory retrieval is an indexed version; no document comes twice.\<close>

lemma fused_indexed:
  assumes "\<forall>c \<in> set neural \<union> set keyword. indexed ix (ca_id c) (ca_version c)" and "0 < k"
    and "c \<in> set (reciprocal_rank_fusion neural keyword n k)"
  shows "indexed ix (ca_id c) (ca_version c)"
proof -
  obtain cs where "reciprocal_rank_fusion neural keyword n k = cut n (rank_candidates cs)"
      "set cs = fused_candidates k neural keyword"
    using fusion_eq [OF assms(2)] by metis
  with assms(3) set_cut [of n "rank_candidates cs"] have "c \<in> fused_candidates k neural keyword" by auto
  then obtain d where d: "d \<in> fused_ids neural keyword" and c: "ca_id c = d" "ca_version c = the (fused_version neural keyword d)"
    by (auto simp: fused_candidates_def)
  have "\<exists>c0 \<in> set neural \<union> set keyword. ca_id c0 = d \<and> ca_version c0 = ca_version c"
  proof (cases "find (\<lambda>c. ca_id c = d) (rev neural)")
    case (Some c0)
    then have "c0 \<in> set neural" "ca_id c0 = d" using find_mem by fastforce+
    with Some show ?thesis by (auto simp: c fused_version_def)
  next
    case None
    then have "d \<notin> ids_of neural" by (auto simp: find_None_iff ids_of_def)
    with d have "d \<in> ids_of keyword" by (simp add: fused_ids_def)
    then obtain c0 where c0: "find (\<lambda>c. ca_id c = d) keyword = Some c0"
      by (cases "find (\<lambda>c. ca_id c = d) keyword") (auto simp: find_None_iff ids_of_def)
    then have "c0 \<in> set keyword" "ca_id c0 = d" using find_mem by fastforce+
    with None c0 show ?thesis by (auto simp: c fused_version_def)
  qed
  with assms(1) c(1) show ?thesis by metis
qed

lemma mode_candidates_ok:
  assumes i: "indexes_ok ienv ix"
  shows "distinct (map ca_id (mode_candidates env ix r))"
    and "c \<in> set (mode_candidates env ix r) \<Longrightarrow> indexed ix (ca_id c) (ca_version c)"
proof -
  let ?n = "neural_search (re_embed env) (ix_vectors ix) (rq_query r) (rq_num_results r * 2) {}"
  let ?k = "keyword_search (re_log env) (ix_lexical ix) (rq_query r) (rq_num_results r * 2) {}"
  have n: "\<forall>c \<in> set ?n. indexed ix (ca_id c) (ca_version c)"
    using indexed_vector [OF i] by (blast dest: neural_search_ids)
  have k: "\<forall>c \<in> set ?k. indexed ix (ca_id c) (ca_version c)"
    using indexed_lexical [OF i] by (blast dest: keyword_search_ids)
  have pos: "0 < rrf_k" by (simp add: rrf_k_def)
  show "distinct (map ca_id (mode_candidates env ix r))"
  proof (cases "rq_mode r")
    case Hybrid
    obtain cs where "reciprocal_rank_fusion ?n ?k (rq_num_results r * 2) rrf_k = cut (rq_num_results r * 2) (rank_candidates cs)"
        "distinct (map ca_id cs)"
      using fusion_eq [OF pos] by metis
    with Hybrid show ?thesis by (simp add: mode_candidates_def distinct_ids_cut_rank)
  qed (simp_all add: mode_candidates_def neural_search_distinct keyword_search_distinct)
  assume "c \<in> set (mode_candidates env ix r)"
  with n k fused_indexed [OF _ pos, of ?n ?k ix c "rq_num_results r * 2"] show "indexed ix (ca_id c) (ca_version c)"
    by (cases "rq_mode r") (auto simp: mode_candidates_def Let_def)
qed

definition answer_ok :: "indexer \<Rightarrow> rat option \<Rightarrow> rat option \<Rightarrow> int \<Rightarrow> search_result list \<Rightarrow> bool" where
  "answer_ok ix min_cred max_ai n rs \<longleftrightarrow> length rs \<le> nat n \<and> distinct (map sr_id rs)
     \<and> sorted (map result_key rs) \<and> (\<forall>r \<in> set rs. result_ok ix min_cred max_ai r)"

lemma finished_answer_ok:
  assumes "distinct (map ca_id cs)" and "\<And>c. c \<in> set cs \<Longrightarrow> indexed ix (ca_id c) (ca_version c)" and "0 \<le> n"
  shows "answer_ok ix min_cred max_ai n (finish_results min_cred max_ai n (candidates_to_results ix now cs))"
    and "r \<in> set (finish_results min_cred max_ai n (candidates_to_results ix now cs)) \<Longrightarrow> sr_id r \<in> ca_id ` set cs"
proof -
  note f = finish_results_facts [OF results_distinct [OF assms(1), of ix now] assms(3), of min_cred max_ai]
  have r: "result_ok ix None None r \<and> sr_id r \<in> ca_id ` set cs" if "r \<in> set (candidates_to_results ix now cs)" for r
    using results_mem [OF that] result_of_indexed assms(2) by (metis imageI)
  with f show "answer_ok ix min_cred max_ai n (finish_results min_cred max_ai n (candidates_to_results ix now cs))"
    unfolding answer_ok_def result_ok_def by blast
  show "r \<in> set (finish_results min_cred max_ai n (candidates_to_results ix now cs)) \<Longrightarrow> sr_id r \<in> ca_id ` set cs"
    using f r by blast
qed

lemma reached_indexes_ok:
  assumes "distinct (map op_fresh ops)" and "index_all ienv (new_indexer b) ops = (rs, ix)"
  shows "indexer_ok ienv ix"
  using store.run_simulates(1) [OF indexer_ok_new fresh_guarded_new [OF assms(1)], of ienv b] assms(2)
  by (simp flip: index_all_run)


text \<open>
  Find-similar.  An address that is in the store under neither its canonical nor its literal form is
  an error.  Otherwise the answer has the properties of a search answer, and no version of the document
  itself is in it.
\<close>

theorem find_similar_answers:
  assumes ids: "distinct (map op_fresh ops)" and reach: "index_all ienv (new_indexer b) ops = (rs, ix)"
    and n: "0 \<le> sq_num_results r"
    and run: "find_similar env ix rv at_time r = (res, rv')"
    and canon: "canonicalize_url (re_bracket_ok env) (sq_url r) = Some u"
  shows "if lookup_url ix u (sq_url r) = [] then res = Inl (DocumentNotFoundError (sq_url r))
     else (\<exists>resp. res = Inr resp
       \<and> answer_ok ix (sq_min_credibility r) (sq_max_ai r) (sq_num_results r) (rr_results resp)
       \<and> (\<forall>x \<in> set (rr_results resp). \<forall>v \<in> set (lookup_url ix u (sq_url r)). sr_id x \<noteq> dv_document_id v))"
proof (cases "lookup_url ix u (sq_url r) = []")
  case True
  with run canon show ?thesis by (auto simp: find_similar_def Let_def split: prod.splits)
next
  case False
  have ok: "indexer_ok ienv ix" by (rule reached_indexes_ok [OF ids reach])
  then have i: "indexes_ok ienv ix" and s: "store_ok ix" by (simp_all add: indexer_ok_def)
  let ?vs = "lookup_url ix u (sq_url r)"
  define cs where "cs = neural_search (re_embed env) (ix_vectors ix) (dv_text (last ?vs)) (sq_num_results r * 2)
      {dv_document_id (hd ?vs)}"
  from run canon False obtain resp where res: "res = Inr resp"
    and rs: "rr_results resp = finish_results (sq_min_credibility r) (sq_max_ai r) (sq_num_results r) (candidates_to_results ix at_time cs)"
    by (auto simp: find_similar_def finish_results_def Let_def cs_def split: prod.splits)
  have c: "indexed ix (ca_id c) (ca_version c) \<and> ca_id c \<noteq> dv_document_id (hd ?vs)" if "c \<in> set cs" for c
    using that indexed_vector [OF i] unfolding cs_def by (blast dest: neural_search_ids)
  have same: "dv_document_id v = dv_document_id (hd ?vs)" if "v \<in> set ?vs" for v
  proof -
    from False that obtain url d where "dict_get (ix_urls ix) url = Some d" "dict_get (ix_documents ix) d = Some ?vs"
      by (auto simp: lookup_url_def get_document_by_url_def split: option.splits if_splits)
    with s have "versions_ok d url ?vs" by (fastforce simp: store_ok_def)
    with that False show ?thesis by (simp add: versions_ok_def)
  qed
  have d: "distinct (map ca_id cs)" by (simp add: cs_def neural_search_distinct)
  note f = finished_answer_ok [OF d _ n, where ix = ix and min_cred = "sq_min_credibility r" and max_ai = "sq_max_ai r"
      and now = at_time]
  have "answer_ok ix (sq_min_credibility r) (sq_max_ai r) (sq_num_results r) (rr_results resp)"
    unfolding rs by (rule f(1)) (use c in blast)
  moreover have "sr_id x \<noteq> dv_document_id v" if "x \<in> set (rr_results resp)" "v \<in> set ?vs" for x v
    using f(2) [of x] that c same unfolding rs by (metis imageE)
  ultimately show ?thesis using False res by simp
qed


section \<open>Answers from the cache\<close>

datatype search_op = SearchOp indexer rat datetime search_request

fun search_all :: "retriever_env \<Rightarrow> retriever \<Rightarrow> search_op list \<Rightarrow> retrieval_response list \<times> retriever" where
  "search_all env rv [] = ([], rv)"
| "search_all env rv (SearchOp ix now at_time r # ops) =
     (let (resp, rv') = search env ix rv now at_time r; (rs, rv'') = search_all env rv' ops in (resp # rs, rv''))"

lemma index_version_cache [simp]: "rv_cache (snd (get_index_version rv t)) = rv_cache rv"
  by (simp add: get_index_version_def split: option.split)

lemma search_cases:
  assumes "search env ix rv now at_time r = (resp, rv')"
  obtains (hit) iv where "rr_cache_hit resp" "cache_peek (rv_cache rv) now (make_key (re_cache env) r) = Some (rr_results resp, iv)"
      "rv_cache rv' = warm.run (rv_cache rv) [CGet now (make_key (re_cache env) r)]"
  | (miss) "\<not> rr_cache_hit resp"
      "rv_cache rv' = warm.run (rv_cache rv) [CGet now (make_key (re_cache env) r),
         CPut now (make_key (re_cache env) r) (rr_results resp, rr_index_version resp)]"
proof -
  obtain iv rv1 where v: "get_index_version rv (rq_tenant r) = (iv, rv1)" by (cases "get_index_version rv (rq_tenant r)")
  then have c1: "rv_cache rv1 = rv_cache rv" using index_version_cache [of rv "rq_tenant r"] by simp
  obtain h c where g: "cache_lookup (rv_cache rv) now (make_key (re_cache env) r) = (h, c)"
    by (cases "cache_lookup (rv_cache rv) now (make_key (re_cache env) r)")
  show thesis
  proof (cases h)
    case None
    with assms v c1 g have "\<not> rr_cache_hit resp"
      "rv_cache rv' = cache_insert c now (make_key (re_cache env) r) (rr_results resp, rr_index_version resp)"
      by (auto simp: search_eq cache_get_def cache_put_def Let_def)
    then show thesis using g by (intro miss) (simp_all add: warm.run_def)
  next
    case (Some results)
    with assms v c1 g have "rr_cache_hit resp" "rr_results resp = results" "rv_cache rv' = c"
      by (auto simp: search_eq cache_get_def Let_def)
    moreover have "map_option fst (cache_peek (rv_cache rv) now (make_key (re_cache env) r)) = Some results"
      using cache_lookup_peek [of "rv_cache rv" now "make_key (re_cache env) r"] g Some by simp
    then obtain n where "cache_peek (rv_cache rv) now (make_key (re_cache env) r) = Some (results, n)" by auto
    ultimately show thesis using g by (intro hit) (simp_all add: warm.run_def)
  qed
qed

lemma warm_run_append: "warm.run (warm.run c xs) ys = warm.run c (xs @ ys)"
  by (simp add: warm.run_def)

definition answered_by :: "retriever_env \<Rightarrow> (search_op \<times> retrieval_response) set \<Rightarrow> rat \<Rightarrow> string \<Rightarrow> search_result list \<Rightarrow> bool" where
  "answered_by env done t key results \<longleftrightarrow>
     (\<exists>ix at_time r resp. (SearchOp ix t at_time r, resp) \<in> done \<and> make_key (re_cache env) r = key
        \<and> \<not> rr_cache_hit resp \<and> rr_results resp = results)"

lemma search_all_cache:
  "search_all env rv ops = (rs, rv') \<Longrightarrow>
   \<exists>cops. rv_cache rv' = warm.run (rv_cache rv) cops
     \<and> (\<forall>t key v. CPut t key v \<in> set cops \<longrightarrow> answered_by env (set (zip ops rs)) t key (fst v))"
proof (induction ops arbitrary: rv rs)
  case Nil
  then show ?case by (intro exI [of _ "[]"]) (simp add: warm.run_def)
next
  case (Cons op ops)
  obtain ix now at_time r where op: "op = SearchOp ix now at_time r" by (cases op)
  obtain resp rv1 where s: "search env ix rv now at_time r = (resp, rv1)" by (cases "search env ix rv now at_time r")
  obtain qs where q: "search_all env rv1 ops = (qs, rv')" and rs: "rs = resp # qs"
    using Cons.prems by (auto simp: op s split: prod.splits)
  from Cons.IH [OF q] obtain cops where cops: "rv_cache rv' = warm.run (rv_cache rv1) cops"
      "\<forall>t key v. CPut t key v \<in> set cops \<longrightarrow> answered_by env (set (zip ops qs)) t key (fst v)" by blast
  have rest: "answered_by env (set (zip (op # ops) rs)) t key x" if "answered_by env (set (zip ops qs)) t key x" for t key x
    using that by (fastforce simp: answered_by_def rs)
  from s show ?case
  proof (cases rule: search_cases)
    case (hit iv)
    then show ?thesis
      using cops rest by (intro exI [of _ "CGet now (make_key (re_cache env) r) # cops"])
        (auto simp: warm_run_append)
  next
    case miss
    have "answered_by env (set (zip (op # ops) rs)) now (make_key (re_cache env) r) (rr_results resp)"
      using miss(1) by (fastforce simp: answered_by_def rs op)
    then show ?thesis
      using miss(2) cops rest
      by (intro exI [of _ "CGet now (make_key (re_cache env) r)
            # CPut now (make_key (re_cache env) r) (rr_results resp, rr_index_version resp) # cops"])
        (auto simp: warm_run_append)
  qed
qed

text \<open>
  Answers from the cache.  Whatever searches came before, over whatever states of the store, an answer
  served from the cache is the answer of an earlier search with the same cache key that was not served
  from the cache, at most five minutes ago.
\<close>

theorem cached_answer_origin:
  assumes before: "search_all env new_retriever ops = (rs, rv)"
    and run: "search env ix rv now at_time r = (resp, rv')" and hit: "rr_cache_hit resp"
  shows "\<exists>t. answered_by env (set (zip ops rs)) t (make_key (re_cache env) r) (rr_results resp) \<and> now - t \<le> 300"
proof -
  from search_all_cache [OF before] obtain cops where c: "rv_cache rv = warm.run (rv_cache new_retriever) cops"
    and puts: "\<forall>t key v. CPut t key v \<in> set cops \<longrightarrow> answered_by env (set (zip ops rs)) t key (fst v)" by blast
  from run hit obtain iv where "cache_peek (rv_cache rv) now (make_key (re_cache env) r) = Some (rr_results resp, iv)"
    by (cases rule: search_cases) auto
  then have p: "cache_peek (warm.run (rv_cache new_retriever) cops) now (make_key (re_cache env) r) = Some (rr_results resp, iv)"
    by (simp add: c)
  have "cache_stamp (rv_cache new_retriever) (make_key (re_cache env) r) = None"
    by (simp add: cache_stamp_def new_retriever_def new_warm_cache_def)
  from warm.hit_is_fresh [OF this p] obtain t where
      t: "CPut t (make_key (re_cache env) r) (rr_results resp, iv) \<in> set cops" "now - t \<le> wc_ttl (rv_cache new_retriever)" by blast
  from puts t(1) have "answered_by env (set (zip ops rs)) t (make_key (re_cache env) r) (rr_results resp)" by fastforce
  with t(2) show ?thesis by (auto simp: new_retriever_def new_warm_cache_def cache_ttl_seconds_def)
qed

text \<open>
  The key leaves out the thresholds, and the fields it joins with colons can be shifted: two different
  requests of a tenant may have the same key under any digest.
\<close>

lemma key_without_thresholds:
  "make_key ce (r\<lparr>rq_min_credibility := m, rq_max_ai := a\<rparr>) = make_key ce r"
  by (simp add: make_key_def raw_key_def)

lemma key_ambiguous:
  "make_key ce (r\<lparr>rq_query := ''q'', rq_mode := Hybrid, rq_filters := None, rq_pipeline := Some ''x:hybrid::y''\<rparr>)
   = make_key ce (r\<lparr>rq_query := ''q:hybrid::x'', rq_mode := Hybrid, rq_filters := None, rq_pipeline := Some ''y''\<rparr>)"
  by (simp add: make_key_def raw_key_def filters_text_def)

text \<open>
  What the cache hides.  After a search that was not served from the cache, for five minutes a search
  of the same tenant that differs in its thresholds only gets the same results, whatever the thresholds
  are and whatever the store holds by then.
\<close>

theorem cached_answer_ignores_thresholds:
  assumes first: "search env ix rv now at_time r = (resp, rv1)" and miss: "\<not> rr_cache_hit resp"
    and ttl: "wc_ttl (rv_cache rv) = cache_ttl_seconds" and soon: "now2 - now \<le> 300"
    and second: "search env ix2 rv1 now2 at_time2 (r\<lparr>rq_min_credibility := m, rq_max_ai := a\<rparr>) = (resp2, rv2)"
  shows "rr_cache_hit resp2 \<and> rr_results resp2 = rr_results resp"
proof -
  let ?key = "make_key (re_cache env) r"
  let ?c = "warm.run (rv_cache rv) [CGet now ?key]"
  from first miss have c1: "rv_cache rv1 = warm.run (rv_cache rv) [CGet now ?key, CPut now ?key (rr_results resp, rr_index_version resp)]"
    by (cases rule: search_cases) auto
  have t: "wc_ttl (rv_cache rv1) = 300"
    unfolding c1 using warm.ttl_run ttl by (simp add: cache_ttl_seconds_def)
  have "rv_cache rv1 = cache_insert ?c now ?key (rr_results resp, rr_index_version resp)"
    unfolding c1 by (simp add: warm.run_def)
  then have "cache_peek (rv_cache rv1) now2 ?key = Some (rr_results resp, rr_index_version resp)"
    using t soon by (simp add: cache_peek_def cache_insert_def)
  then have "fst (cache_lookup (rv_cache rv1) now2 ?key) = Some (rr_results resp)"
    by (simp add: cache_lookup_peek)
  with second show ?thesis
    using index_version_cache [of rv1 "rq_tenant r"]
    by (cases "get_index_version rv1 (rq_tenant r)"; cases "cache_lookup (rv_cache rv1) now2 ?key")
      (auto simp: search_eq cache_get_def key_without_thresholds Let_def)
qed


section \<open>Samples\<close>

definition sample_retriever_env :: retriever_env where
  "sample_retriever_env = \<lparr>re_embed = (\<lambda>s. [of_nat (length s) / 100]), re_log = (\<lambda>x. x - 1),
     re_cache = \<lparr>cv_dumps = (\<lambda>_. ''f''), cv_sha256 = (\<lambda>s. s)\<rparr>, re_opensearch = None, re_bracket_ok = (\<lambda>_. True)\<rparr>"

definition sample_request :: search_request where
  "sample_request = \<lparr>rq_query = ''words'', rq_mode = Keyword, rq_num_results = 2, rq_filters = None, rq_pipeline = None,
     rq_min_credibility = Some (1 / 2), rq_max_ai = Some (1 / 2), rq_tenant = ''t''\<rparr>"

definition sample_store :: indexer where
  "sample_store = snd (index_all (sample_env True) (new_indexer True) sample_docs)"

lemma sample_reach: "index_all (sample_env True) (new_indexer True) sample_docs
    = (fst (index_all (sample_env True) (new_indexer True) sample_docs), sample_store)"
  by (simp add: sample_store_def)

lemma sample_ids: "distinct (map op_fresh sample_docs)"
  by code_simp

lemma sample_miss: "\<not> rr_cache_hit (fst (search sample_retriever_env sample_store new_retriever 0 0 sample_request))"
  by (simp add: search_eq Let_def cache_get_def cache_lookup_def new_retriever_def new_warm_cache_def get_index_version_def)



definition sample_similar :: "string \<Rightarrow> similar_request" where
  "sample_similar url = \<lparr>sq_url = url, sq_num_results = 5, sq_min_credibility = None, sq_max_ai = None, sq_tenant = ''t''\<rparr>"

lemma find_similar_answers_witness:
  "\<exists>resp rv. find_similar sample_retriever_env sample_store new_retriever 0 (sample_similar ''u'') = (Inr resp, rv)
     \<and> answer_ok sample_store None None 5 (rr_results resp) \<and> ''d1'' \<notin> set (map sr_id (rr_results resp))"
proof -
  obtain res rv where run: "find_similar sample_retriever_env sample_store new_retriever 0 (sample_similar ''u'') = (res, rv)"
    by (cases "find_similar sample_retriever_env sample_store new_retriever 0 (sample_similar ''u'')")
  have u: "canonicalize_url (re_bracket_ok sample_retriever_env) (sq_url (sample_similar ''u'')) = Some ''u''"
    by code_simp
  have ids: "map dv_document_id (lookup_url sample_store ''u'' ''u'') = [''d1'', ''d1'']" by code_simp
  then have ne: "lookup_url sample_store ''u'' ''u'' \<noteq> []" by auto
  have "''d1'' \<in> set (map dv_document_id (lookup_url sample_store ''u'' ''u''))" unfolding ids by simp
  then have d1: "\<exists>v \<in> set (lookup_url sample_store ''u'' ''u''). dv_document_id v = ''d1''" by auto
  from find_similar_answers [OF sample_ids sample_reach _ run u] ne obtain resp where
    "res = Inr resp" "answer_ok sample_store None None 5 (rr_results resp)"
    "\<forall>x \<in> set (rr_results resp). \<forall>v \<in> set (lookup_url sample_store ''u'' ''u''). sr_id x \<noteq> dv_document_id v"
    by (auto simp: sample_similar_def)
  with run d1 show ?thesis by fastforce
qed

definition strict_request :: search_request where
  "strict_request = sample_request\<lparr>rq_min_credibility := Some 1, rq_max_ai := Some 0\<rparr>"

definition after_sample :: retriever where
  "after_sample = snd (search sample_retriever_env sample_store new_retriever 0 0 sample_request)"

lemma first_sample: "search sample_retriever_env sample_store new_retriever 0 0 sample_request
   = (fst (search sample_retriever_env sample_store new_retriever 0 0 sample_request), after_sample)"
  by (simp add: after_sample_def)

lemma cached_answer_ignores_thresholds_witness:
  "rr_cache_hit (fst (search sample_retriever_env sample_store after_sample 300 300 strict_request))
   \<and> map (pv_credibility \<circ> sr_provenance) (rr_results (fst (search sample_retriever_env sample_store after_sample 300 300 strict_request)))
     = [1 / 2]"
proof -
  have "wc_ttl (rv_cache new_retriever) = cache_ttl_seconds" by (simp add: new_retriever_def new_warm_cache_def)
  from cached_answer_ignores_thresholds [OF first_sample sample_miss this _ surjective_pairing, where ?now2.0 = 300]
  have "rr_cache_hit (fst (search sample_retriever_env sample_store after_sample 300 300 strict_request))
    \<and> rr_results (fst (search sample_retriever_env sample_store after_sample 300 300 strict_request))
      = rr_results (fst (search sample_retriever_env sample_store new_retriever 0 0 sample_request))"
    by (simp add: strict_request_def)
  moreover have "map (pv_credibility \<circ> sr_provenance)
      (rr_results (fst (search sample_retriever_env sample_store new_retriever 0 0 sample_request))) = [1 / 2]"
    by code_simp
  ultimately show ?thesis by simp
qed

lemma cached_answer_origin_witness:
  "\<exists>t. answered_by sample_retriever_env
      (set (zip [SearchOp sample_store 0 0 sample_request] (fst (search_all sample_retriever_env new_retriever [SearchOp sample_store 0 0 sample_request]))))
      t (make_key (re_cache sample_retriever_env) strict_request)
      (rr_results (fst (search sample_retriever_env sample_store after_sample 300 300 strict_request)))
     \<and> 300 - t \<le> 300"
proof -
  have all: "search_all sample_retriever_env new_retriever [SearchOp sample_store 0 0 sample_request]
     = (fst (search_all sample_retriever_env new_retriever [SearchOp sample_store 0 0 sample_request]), after_sample)"
    by (simp add: split_beta after_sample_def)
  have "rr_cache_hit (fst (search sample_retriever_env sample_store after_sample 300 300 strict_request))"
    by code_simp
  from cached_answer_origin [OF all surjective_pairing this] show ?thesis .
qed

text \<open>
  The scan of the vector index meets the first version of a document first: after an update, neural
  retrieval still scores and returns version 1 of it, keyword retrieval the newest one.
\<close>

lemma neural_returns_first_version:
  "map (\<lambda>c. (ca_id c, ca_version c)) (neural_search (re_embed sample_retriever_env) (ix_vectors sample_store) ''words'' 10 {})
     = [(''d1'', 1), (''d4'', 1)]
   \<and> map (\<lambda>c. (ca_id c, ca_version c)) (keyword_search (re_log sample_retriever_env) (ix_lexical sample_store) ''words'' 10 {})
     = [(''d1'', 2)]"
  by code_simp

end
