(* ===== verification/Pipeline.thy ===== *)
theory Pipeline
  imports Ranking Interfaces
begin

text \<open>
  Pipelines: \<open>backend/pipeline_engine/models.py\<close>, \<open>registry.py\<close> (the registry and the nine built-in
  steps), \<open>executor.py\<close> and \<open>service.py\<close>.

  A step works on search results and a configuration and may raise.  How long a step runs is an argument
  of the execution (a list of durations in milliseconds, in the order of execution); a step that takes
  longer than its timeout is timed out.  Rendering of a configuration value or of an attribute as text,
  beyond strings and integers, is an argument.
\<close>

section \<open>Models\<close>

datatype step_type = Filter | Reranker | Transform

type_synonym config = "(string, json) dict"

record pipeline_step =
  pp_name :: string
  pp_type :: step_type
  pp_config :: "config option"
  pp_timeout :: int

definition min_timeout :: int where "min_timeout = 100"
definition max_timeout :: int where "max_timeout = 30000"

definition clamp_timeout :: "int \<Rightarrow> int" where
  "clamp_timeout t = max min_timeout (min max_timeout t)"

text \<open>A step may be stored with no configuration at all; every built-in step treats that as an empty one.\<close>

definition step_config :: "pipeline_step \<Rightarrow> config" where
  "step_config s = (case pp_config s of None \<Rightarrow> [] | Some c \<Rightarrow> c)"

definition new_step :: "string \<Rightarrow> step_type \<Rightarrow> config option \<Rightarrow> int \<Rightarrow> pipeline_step" where
  "new_step name ty cfg t = \<lparr>pp_name = name, pp_type = ty, pp_config = cfg,
     pp_timeout = (if min_timeout \<le> t \<and> t \<le> max_timeout then t else clamp_timeout t)\<rparr>"

record pipeline =
  pl_id :: string
  pl_tenant :: string
  pl_name :: string
  pl_steps :: "pipeline_step list"
  pl_created :: datetime

datatype warning = StepNotFound string | StepTimeout string int

section \<open>Built-in steps\<close>

datatype step_error = TypeError | OverflowError | ZeroDivision | StepRaise string

type_synonym step_fn = "config \<Rightarrow> search_result list \<Rightarrow> step_error + search_result list"

text \<open>\<open>any(d in url for d in domains)\<close>: stops at the first hit, raises on an element that is no string.\<close>

fun any_in :: "json list \<Rightarrow> string \<Rightarrow> step_error + bool" where
  "any_in [] url = Inr False"
| "any_in (JStr d # ds) url = (if contains url d then Inr True else any_in ds url)"
| "any_in (_ # ds) url = Inl TypeError"

definition matches_any :: "json \<Rightarrow> string \<Rightarrow> step_error + bool" where
  "matches_any domains url = (case json_iter domains of None \<Rightarrow> Inl TypeError | Some ds \<Rightarrow> any_in ds url)"

fun keep_where :: "(search_result \<Rightarrow> step_error + bool) \<Rightarrow> search_result list \<Rightarrow> step_error + search_result list" where
  "keep_where p [] = Inr []"
| "keep_where p (r # rs) = (case p r of Inl e \<Rightarrow> Inl e
     | Inr b \<Rightarrow> (case keep_where p rs of Inl e \<Rightarrow> Inl e | Inr ks \<Rightarrow> Inr (if b then r # ks else ks)))"

fun map_all :: "(search_result \<Rightarrow> step_error + search_result) \<Rightarrow> search_result list \<Rightarrow> step_error + search_result list" where
  "map_all f [] = Inr []"
| "map_all f (r # rs) = (case f r of Inl e \<Rightarrow> Inl e
     | Inr x \<Rightarrow> (case map_all f rs of Inl e \<Rightarrow> Inl e | Inr xs \<Rightarrow> Inr (x # xs)))"

definition sort_by_score :: "search_result list \<Rightarrow> search_result list" where
  "sort_by_score rs = sort_key (\<lambda>r. - sr_score r) rs"

definition domain_filter :: step_fn where
  "domain_filter cfg rs =
     (if cfg = [] then Inr rs
      else (let domains = json_get cfg ''domains'' (JList []);
                exclude = json_truthy (json_get cfg ''exclude'' (JBool False))
            in if \<not> json_truthy domains then Inr rs
               else keep_where (\<lambda>r. case matches_any domains (sr_url r) of Inl e \<Rightarrow> Inl e | Inr m \<Rightarrow> Inr (m \<noteq> exclude)) rs))"

text \<open>\<open>datetime.now() - timedelta(days=...)\<close>: the ranges of the two types.\<close>

definition min_datetime :: rat where "min_datetime = - 62135596800000000"
definition max_datetime :: rat where "max_datetime = 253402300799999999"
definition max_timedelta_days :: rat where "max_timedelta_days = 999999999"
definition us_per_day :: rat where "us_per_day = 86400000000"

definition freshness_cutoff :: "datetime \<Rightarrow> json \<Rightarrow> step_error + rat" where
  "freshness_cutoff now j =
     (case json_num j of
        None \<Rightarrow> Inl TypeError
      | Some days \<Rightarrow>
          if \<bar>days\<bar> > max_timedelta_days then Inl OverflowError
          else (let cutoff = of_int now - days * us_per_day
                in if cutoff < min_datetime \<or> cutoff > max_datetime then Inl OverflowError else Inr cutoff))"

definition freshness_filter :: "datetime \<Rightarrow> step_fn" where
  "freshness_filter now cfg rs =
     (if cfg = [] then Inr rs
      else (let age = json_get cfg ''max_age_days'' JNull in
            if age = JNull then Inr rs
            else (case freshness_cutoff now age of
                    Inl e \<Rightarrow> Inl e
                  | Inr cutoff \<Rightarrow> keep_where (\<lambda>r. Inr (case sr_published r of None \<Rightarrow> True | Some t \<Rightarrow> of_int t \<ge> cutoff)) rs)))"

text \<open>A search result has no attribute \<open>language\<close>.\<close>

definition result_language :: "search_result \<Rightarrow> string option" where
  "result_language r = None"

definition language_filter :: step_fn where
  "language_filter cfg rs =
     (if cfg = [] then Inr rs
      else (let languages = json_get cfg ''languages'' (JList []) in
            if \<not> json_truthy languages then Inr rs
            else keep_where (\<lambda>r. case result_language r of None \<Rightarrow> Inr True
                   | Some l \<Rightarrow> (case json_iter languages of None \<Rightarrow> Inl TypeError | Some ls \<Rightarrow> Inr (JStr l \<in> set ls))) rs))"

definition boosted :: "json \<Rightarrow> json \<Rightarrow> search_result \<Rightarrow> step_error + search_result" where
  "boosted factor domains r =
     (if \<not> json_truthy domains then Inr r
      else (case matches_any domains (sr_url r) of
              Inl e \<Rightarrow> Inl e
            | Inr m \<Rightarrow>
                if \<not> m then Inr r
                else (case json_num factor of
                        None \<Rightarrow> Inl TypeError
                      | Some f \<Rightarrow> Inr (r\<lparr>sr_score := min 1 (sr_score r * f)\<rparr>))))"

definition score_reranker :: step_fn where
  "score_reranker cfg rs =
     (if cfg = [] then Inr rs
      else (case map_all (boosted (json_get cfg ''boost_factor'' (JReal 1)) (json_get cfg ''boost_domains'' (JList []))) rs of
              Inl e \<Rightarrow> Inl e | Inr xs \<Rightarrow> Inr (sort_by_score xs)))"

definition blended :: "json \<Rightarrow> search_result \<Rightarrow> step_error + search_result" where
  "blended weight r =
     (case json_num weight of
        None \<Rightarrow> Inl TypeError
      | Some w \<Rightarrow> Inr (r\<lparr>sr_score := min 1 ((1 - w) * sr_score r + w * pv_credibility (sr_provenance r))\<rparr>))"

definition credibility_reranker :: step_fn where
  "credibility_reranker cfg rs =
     (case map_all (blended (json_get cfg ''credibility_weight'' (JReal (3 / 10)))) rs of
        Inl e \<Rightarrow> Inl e | Inr xs \<Rightarrow> Inr (sort_by_score xs))"

fun rank_scored :: "json \<Rightarrow> nat \<Rightarrow> search_result list \<Rightarrow> step_error + search_result list" where
  "rank_scored k i [] = Inr []"
| "rank_scored k i (r # rs) =
     (case json_num k of
        None \<Rightarrow> Inl TypeError
      | Some x \<Rightarrow>
          if x + of_nat i + 1 = 0 then Inl ZeroDivision
          else (case rank_scored k (i + 1) rs of
                  Inl e \<Rightarrow> Inl e
                | Inr xs \<Rightarrow> Inr (r\<lparr>sr_score := min 1 (1 / (x + of_nat i + 1))\<rparr> # xs)))"

definition reciprocal_rank_reranker :: step_fn where
  "reciprocal_rank_reranker cfg rs =
     (case rank_scored (json_get cfg ''k'' (JInt 60)) 0 rs of
        Inl e \<Rightarrow> Inl e | Inr xs \<Rightarrow> Inr (sort_by_score xs))"

definition render :: "(json \<Rightarrow> string) \<Rightarrow> json \<Rightarrow> string" where
  "render show_json j = (case j of JStr s \<Rightarrow> s | JInt i \<Rightarrow> str_int i | _ \<Rightarrow> show_json j)"

definition retitled :: "(json \<Rightarrow> string) \<Rightarrow> json \<Rightarrow> json \<Rightarrow> json \<Rightarrow> search_result \<Rightarrow> step_error + search_result" where
  "retitled show_json max_length prefix suffix r =
     (let t = render show_json prefix @ sr_title r @ render show_json suffix in
      case json_num max_length of
        None \<Rightarrow> Inl TypeError
      | Some m \<Rightarrow>
          if of_nat (length t) > m
          then (case json_index max_length of None \<Rightarrow> Inl TypeError | Some n \<Rightarrow> Inr (r\<lparr>sr_title := py_take n t\<rparr>))
          else Inr (r\<lparr>sr_title := t\<rparr>))"

definition title_transform :: "(json \<Rightarrow> string) \<Rightarrow> step_fn" where
  "title_transform show_json cfg rs =
     (if cfg = [] then Inr rs
      else map_all (retitled show_json (json_get cfg ''max_length'' (JInt 100)) (json_get cfg ''prefix'' (JStr ''''))
                     (json_get cfg ''suffix'' (JStr ''''))) rs)"

definition snippet_transform :: step_fn where
  "snippet_transform cfg rs = Inr rs"

definition attribute_text :: "(string \<Rightarrow> search_result \<Rightarrow> string) \<Rightarrow> string \<Rightarrow> search_result \<Rightarrow> string" where
  "attribute_text other field r =
     (if field = ''url'' then sr_url r else if field = ''title'' then sr_title r
      else if field = ''document_id'' then sr_id r else if field = ''version'' then str_int (sr_version r)
      else other field r)"

fun dedup_by :: "(search_result \<Rightarrow> string) \<Rightarrow> string list \<Rightarrow> search_result list \<Rightarrow> search_result list" where
  "dedup_by f seen [] = []"
| "dedup_by f seen (r # rs) = (if f r \<in> set seen then dedup_by f seen rs else r # dedup_by f (f r # seen) rs)"

definition dedup_transform :: "(string \<Rightarrow> search_result \<Rightarrow> string) \<Rightarrow> step_fn" where
  "dedup_transform other cfg rs =
     (case json_get cfg ''field'' (JStr ''url'') of
        JStr field \<Rightarrow> Inr (dedup_by (attribute_text other field) [] rs)
      | _ \<Rightarrow> if rs = [] then Inr [] else Inl TypeError)"


section \<open>The registry\<close>

record registry_entry =
  ge_type :: step_type
  ge_fn :: step_fn

type_synonym registry = "(string, registry_entry) dict"

definition register :: "registry \<Rightarrow> string \<Rightarrow> step_type \<Rightarrow> step_fn \<Rightarrow> registry" where
  "register g name ty f = dict_set name \<lparr>ge_type = ty, ge_fn = f\<rparr> g"

definition get_step :: "registry \<Rightarrow> string \<Rightarrow> registry_entry option" where
  "get_step g name = dict_get g name"

definition step_exists :: "registry \<Rightarrow> string \<Rightarrow> bool" where
  "step_exists g name \<longleftrightarrow> dict_get g name \<noteq> None"

definition get_unknown_steps :: "registry \<Rightarrow> string list \<Rightarrow> string list" where
  "get_unknown_steps g names = filter (\<lambda>n. \<not> step_exists g n) names"

record step_env =
  sn_now :: datetime
  sn_show :: "json \<Rightarrow> string"
  sn_attribute :: "string \<Rightarrow> search_result \<Rightarrow> string"

definition default_registry :: "step_env \<Rightarrow> registry" where
  "default_registry env =
     (let g = register [] ''domain_filter'' Filter domain_filter;
          g = register g ''freshness_filter'' Filter (freshness_filter (sn_now env));
          g = register g ''language_filter'' Filter language_filter;
          g = register g ''score_reranker'' Reranker score_reranker;
          g = register g ''credibility_reranker'' Reranker credibility_reranker;
          g = register g ''reciprocal_rank_reranker'' Reranker reciprocal_rank_reranker;
          g = register g ''title_transform'' Transform (title_transform (sn_show env));
          g = register g ''snippet_transform'' Transform snippet_transform
      in register g ''dedup_transform'' Transform (dedup_transform (sn_attribute env)))"

section \<open>Execution\<close>

fun type_order :: "step_type \<Rightarrow> nat" where
  "type_order Filter = 0"
| "type_order Reranker = 1"
| "type_order Transform = 2"

definition apply_type_ordering :: "pipeline_step list \<Rightarrow> pipeline_step list" where
  "apply_type_ordering steps = sort_key (\<lambda>s. type_order (pp_type s)) steps"

fun ordered_from :: "int \<Rightarrow> pipeline_step list \<Rightarrow> bool" where
  "ordered_from prev [] = True"
| "ordered_from prev (s # ss) = (if int (type_order (pp_type s)) < prev then False else ordered_from (int (type_order (pp_type s))) ss)"

definition has_explicit_type_ordering :: "pipeline_step list \<Rightarrow> bool" where
  "has_explicit_type_ordering steps = ordered_from (- 1) steps"

datatype attempt = Done "search_result list" | TimedOut | Raised step_error

text \<open>
  \<open>took\<close> is how long the function runs.  A call that exceeds the timeout raises \<open>StepTimeoutError\<close>; the
  \<open>with\<close> block of the executor then waits for the worker thread, so the call takes \<open>took\<close> in any case.
\<close>

definition execute_step :: "step_fn \<Rightarrow> search_result list \<Rightarrow> config \<Rightarrow> int \<Rightarrow> int \<Rightarrow> attempt" where
  "execute_step f rs cfg timeout took =
     (if took > timeout then TimedOut
      else (case f cfg rs of Inl e \<Rightarrow> Raised e | Inr xs \<Rightarrow> Done xs))"

record execution =
  xe_results :: "search_result list"
  xe_warnings :: "warning list"
  xe_elapsed :: int

text \<open>Durations beyond the list are zero.\<close>

fun run_steps :: "registry \<Rightarrow> pipeline_step list \<Rightarrow> int list \<Rightarrow> execution \<Rightarrow> step_error + execution" where
  "run_steps g [] took x = Inr x"
| "run_steps g (s # ss) took x =
     (case get_step g (pp_name s) of
        None \<Rightarrow> run_steps g ss took (x\<lparr>xe_warnings := xe_warnings x @ [StepNotFound (pp_name s)]\<rparr>)
      | Some e \<Rightarrow>
          (let d = (case took of [] \<Rightarrow> 0 | t # _ \<Rightarrow> t);
               x' = x\<lparr>xe_elapsed := xe_elapsed x + d\<rparr>
           in case execute_step (ge_fn e) (xe_results x) (step_config s) (pp_timeout s) d of
                Done rs \<Rightarrow> run_steps g ss (tl took) (x'\<lparr>xe_results := rs\<rparr>)
              | TimedOut \<Rightarrow> run_steps g ss (tl took)
                  (x'\<lparr>xe_warnings := xe_warnings x @ [StepTimeout (pp_name s) (pp_timeout s)]\<rparr>)
              | Raised err \<Rightarrow> Inl err))"

definition execute_pipeline :: "registry \<Rightarrow> pipeline \<Rightarrow> int list \<Rightarrow> search_result list \<Rightarrow> step_error + execution" where
  "execute_pipeline g p took candidates =
     run_steps g (if has_explicit_type_ordering (pl_steps p) then pl_steps p else apply_type_ordering (pl_steps p)) took
       \<lparr>xe_results = candidates, xe_warnings = [], xe_elapsed = 0\<rparr>"

section \<open>The service\<close>

datatype pipeline_error =
    PipelineNotFound string
  | UnknownPipelineStep "string list"
  | InvalidPipeline string
  | PipelineKeyError
  | PipelineTypeError
  | StepFailed step_error

text \<open>A key of a step definition may be missing, or present with the value \<open>None\<close>.\<close>

record step_def =
  sd_name :: "string option"
  sd_timeout :: "int option option"
  sd_config :: "config option option"

record pipeline_service =
  pq_registry :: registry
  pq_pipelines :: "(string, pipeline) dict"

definition new_pipeline_service :: "registry \<Rightarrow> pipeline_service" where
  "new_pipeline_service g = \<lparr>pq_registry = g, pq_pipelines = []\<rparr>"

fun build_steps :: "registry \<Rightarrow> step_def list \<Rightarrow> pipeline_error + pipeline_step list" where
  "build_steps g [] = Inr []"
| "build_steps g (d # ds) =
     (case sd_name d of
        None \<Rightarrow> Inl PipelineKeyError
      | Some name \<Rightarrow>
          (case get_step g name of
             None \<Rightarrow> Inl PipelineKeyError
           | Some e \<Rightarrow>
               (case (case sd_timeout d of Some t \<Rightarrow> t | None \<Rightarrow> Some 2000) of
                  None \<Rightarrow> Inl PipelineTypeError
                | Some t \<Rightarrow>
                    (let s = new_step name (ge_type e) (case sd_config d of Some c \<Rightarrow> c | None \<Rightarrow> Some []) (clamp_timeout t)
                     in case build_steps g ds of Inl err \<Rightarrow> Inl err | Inr ss \<Rightarrow> Inr (s # ss)))))"

definition create_pipeline :: "pipeline_service \<Rightarrow> datetime \<Rightarrow> string \<Rightarrow> string \<Rightarrow> string \<Rightarrow> step_def list
    \<Rightarrow> (pipeline_error + pipeline) \<times> pipeline_service" where
  "create_pipeline sv now fresh tenant name steps =
     (if steps = [] then (Inl (InvalidPipeline ''Pipeline must have at least 1 step.''), sv)
      else if length steps > 20 then (Inl (InvalidPipeline ''Pipeline must have at most 20 steps.''), sv)
      else (let unknown = get_unknown_steps (pq_registry sv) (map (\<lambda>d. case sd_name d of Some n \<Rightarrow> n | None \<Rightarrow> '''') steps) in
        if unknown \<noteq> [] then (Inl (UnknownPipelineStep unknown), sv)
        else (case build_steps (pq_registry sv) steps of
            Inl e \<Rightarrow> (Inl e, sv)
          | Inr ss \<Rightarrow>
              (let p = \<lparr>pl_id = fresh, pl_tenant = tenant, pl_name = name, pl_steps = ss, pl_created = now\<rparr>
               in (Inr p, sv\<lparr>pq_pipelines := dict_set fresh p (pq_pipelines sv)\<rparr>)))))"

definition get_pipeline :: "pipeline_service \<Rightarrow> string \<Rightarrow> string \<Rightarrow> pipeline_error + pipeline" where
  "get_pipeline sv pid tenant =
     (case dict_get (pq_pipelines sv) pid of
        None \<Rightarrow> Inl (PipelineNotFound pid)
      | Some p \<Rightarrow> if pl_tenant p \<noteq> tenant then Inl (PipelineNotFound pid) else Inr p)"

definition execute :: "pipeline_service \<Rightarrow> string \<Rightarrow> string \<Rightarrow> int list \<Rightarrow> search_result list \<Rightarrow> pipeline_error + execution" where
  "execute sv pid tenant took candidates =
     (case get_pipeline sv pid tenant of
        Inl e \<Rightarrow> Inl e
      | Inr p \<Rightarrow> (case execute_pipeline (pq_registry sv) p took candidates of
                    Inl e \<Rightarrow> Inl (StepFailed e) | Inr x \<Rightarrow> Inr x))"

definition delete_pipeline :: "pipeline_service \<Rightarrow> string \<Rightarrow> string \<Rightarrow> (pipeline_error + bool) \<times> pipeline_service" where
  "delete_pipeline sv pid tenant =
     (case dict_get (pq_pipelines sv) pid of
        None \<Rightarrow> (Inl (PipelineNotFound pid), sv)
      | Some p \<Rightarrow> if pl_tenant p \<noteq> tenant then (Inl (PipelineNotFound pid), sv)
                 else (Inr True, sv\<lparr>pq_pipelines := dict_del pid (pq_pipelines sv)\<rparr>))"

definition list_pipelines :: "pipeline_service \<Rightarrow> string \<Rightarrow> pipeline list" where
  "list_pipelines sv tenant = filter (\<lambda>p. pl_tenant p = tenant) (map snd (pq_pipelines sv))"

interpretation pipelines: tenant_scoped
  "\<lambda>sv pid. dict_get (pq_pipelines sv) pid" pl_tenant "\<lambda>_. True" get_pipeline PipelineNotFound
  by unfold_locales (auto simp: get_pipeline_def split: option.splits if_splits)


section \<open>The order of execution\<close>

definition of_type :: "step_type \<Rightarrow> pipeline_step list \<Rightarrow> pipeline_step list" where
  "of_type ty steps = filter (\<lambda>s. pp_type s = ty) steps"

definition execution_order :: "pipeline_step list \<Rightarrow> pipeline_step list" where
  "execution_order steps = of_type Filter steps @ of_type Reranker steps @ of_type Transform steps"

lemma type_order_eq: "type_order a = type_order b \<longleftrightarrow> a = b"
  by (cases a; cases b) simp_all

lemma apply_type_ordering_eq: "apply_type_ordering steps = execution_order steps"
  unfolding apply_type_ordering_def
proof (rule properties_for_sort_key)
  show "mset (execution_order steps) = mset steps"
  proof (induction steps)
    case (Cons s ss)
    then show ?case by (cases "pp_type s") (simp_all add: execution_order_def of_type_def)
  qed (simp add: execution_order_def of_type_def)
  show "filter (\<lambda>x. type_order (pp_type k) = type_order (pp_type x)) (execution_order steps)
      = filter (\<lambda>x. type_order (pp_type k) = type_order (pp_type x)) steps" for k
    unfolding type_order_eq
    by (cases "pp_type k") (auto simp: execution_order_def of_type_def filter_empty_conv intro!: filter_cong)
  show "sorted (map (\<lambda>s. type_order (pp_type s)) (execution_order steps))"
    by (auto simp: execution_order_def of_type_def sorted_append sorted_wrt_map intro!: sorted_wrt_mono_rel [OF _ sorted_wrt_true])
qed

lemma ordered_from_sorted:
  "ordered_from n steps \<longleftrightarrow> (\<forall>s \<in> set steps. n \<le> int (type_order (pp_type s))) \<and> sorted (map (\<lambda>s. type_order (pp_type s)) steps)"
proof (induction steps arbitrary: n)
  case (Cons s ss)
  show ?case using Cons.IH [of "int (type_order (pp_type s))"] by (auto simp: not_less) (meson of_nat_le_iff order_trans)
qed simp

lemma chosen_order:
  "(if has_explicit_type_ordering steps then steps else apply_type_ordering steps) = execution_order steps"
proof (cases "has_explicit_type_ordering steps")
  case True
  then have "sorted (map (\<lambda>s. type_order (pp_type s)) steps)"
    by (simp add: has_explicit_type_ordering_def ordered_from_sorted)
  then have "apply_type_ordering steps = steps"
    unfolding apply_type_ordering_def by (rule sort_key_id_if_sorted)
  with True show ?thesis by (simp add: apply_type_ordering_eq)
qed (simp add: apply_type_ordering_eq)

lemma execute_pipeline_eq:
  "execute_pipeline g p took cs = run_steps g (execution_order (pl_steps p)) took \<lparr>xe_results = cs, xe_warnings = [], xe_elapsed = 0\<rparr>"
  unfolding execute_pipeline_def chosen_order ..

lemma set_execution_order [simp]: "set (execution_order steps) = set steps"
proof -
  have "mset (execution_order steps) = mset steps"
    by (simp add: apply_type_ordering_def flip: apply_type_ordering_eq)
  then show ?thesis by (metis set_mset_mset)
qed


section \<open>What the built-in steps preserve\<close>

text \<open>What no built-in step changes: everything but the score and the title.\<close>

definition core_of :: "search_result \<Rightarrow> string \<times> int \<times> string \<times> datetime option \<times> provenance_score" where
  "core_of r = (sr_id r, sr_version r, sr_url r, sr_published r, sr_provenance r)"

definition keeps_documents :: "step_fn \<Rightarrow> bool" where
  "keeps_documents f \<longleftrightarrow> (\<forall>cfg rs rs'. f cfg rs = Inr rs' \<longrightarrow> mset (map core_of rs') \<subseteq># mset (map core_of rs))"

lemma keep_where_core: "keep_where p rs = Inr ks \<Longrightarrow> mset (map core_of ks) \<subseteq># mset (map core_of rs)"
proof (induction rs arbitrary: ks)
  case (Cons r rs)
  from Cons.prems obtain b xs where "keep_where p rs = Inr xs" "ks = (if b then r # xs else xs)"
    by (auto split: sum.splits)
  with Cons.IH [of xs] show ?case by (auto intro: subset_mset.order_trans)
qed simp

lemma map_all_core:
  assumes "\<And>r x. f r = Inr x \<Longrightarrow> core_of x = core_of r"
  shows "map_all f rs = Inr xs \<Longrightarrow> map core_of xs = map core_of rs"
proof (induction rs arbitrary: xs)
  case (Cons r rs)
  from Cons.prems obtain y ys where "f r = Inr y" "map_all f rs = Inr ys" "xs = y # ys"
    by (auto split: sum.splits)
  with Cons.IH assms show ?case by simp
qed simp

lemma mset_sort_by_score [simp]: "mset (map core_of (sort_by_score rs)) = mset (map core_of rs)"
  by (simp add: sort_by_score_def)

lemma rank_scored_core: "rank_scored k i rs = Inr xs \<Longrightarrow> map core_of xs = map core_of rs"
proof (induction rs arbitrary: i xs)
  case (Cons r rs)
  from Cons.prems obtain n ys where "rank_scored k (i + 1) rs = Inr ys" "xs = r\<lparr>sr_score := n\<rparr> # ys"
    by (auto split: sum.splits option.splits if_splits)
  with Cons.IH [of "i + 1" ys] show ?case by (simp add: core_of_def)
qed simp

lemma dedup_by_core: "mset (map core_of (dedup_by f seen rs)) \<subseteq># mset (map core_of rs)"
  by (induction f seen rs rule: dedup_by.induct) (auto intro: subset_mset.order_trans)

lemma filters_keep:
  "keeps_documents domain_filter" "keeps_documents (freshness_filter now)" "keeps_documents language_filter"
  by (auto simp: keeps_documents_def domain_filter_def freshness_filter_def language_filter_def Let_def
      dest: keep_where_core split: if_splits sum.splits)

lemma boosted_core: "boosted factor domains r = Inr x \<Longrightarrow> core_of x = core_of r"
  by (auto simp: boosted_def core_of_def split: if_splits sum.splits option.splits)

lemma blended_core: "blended w r = Inr x \<Longrightarrow> core_of x = core_of r"
  by (auto simp: blended_def core_of_def split: option.splits)

lemma retitled_core: "retitled sh m p q r = Inr x \<Longrightarrow> core_of x = core_of r"
  by (auto simp: retitled_def core_of_def Let_def split: option.splits if_splits)

lemma map_all_builtin:
  "map_all (boosted factor domains) rs = Inr xs \<Longrightarrow> map core_of xs = map core_of rs"
  "map_all (blended w) rs = Inr xs \<Longrightarrow> map core_of xs = map core_of rs"
  "map_all (retitled sh m p q) rs = Inr xs \<Longrightarrow> map core_of xs = map core_of rs"
  by (erule map_all_core [rotated]; erule boosted_core blended_core retitled_core)+

lemma same_cores: "map core_of xs = map core_of rs \<Longrightarrow> image_mset core_of (mset xs) = image_mset core_of (mset rs)"
  by (metis mset_map)

lemmas builtin_cores = map_all_builtin [THEN same_cores] rank_scored_core [THEN same_cores]

lemma rerankers_keep:
  "keeps_documents score_reranker" "keeps_documents credibility_reranker" "keeps_documents reciprocal_rank_reranker"
  by (auto simp: keeps_documents_def score_reranker_def credibility_reranker_def reciprocal_rank_reranker_def sort_by_score_def
      dest!: builtin_cores split: if_splits sum.splits)

lemma transforms_keep:
  "keeps_documents (title_transform sh)" "keeps_documents snippet_transform" "keeps_documents (dedup_transform other)"
proof -
  show "keeps_documents (title_transform sh)"
    by (auto simp: keeps_documents_def title_transform_def dest!: builtin_cores split: if_splits)
  show "keeps_documents snippet_transform" by (simp add: keeps_documents_def snippet_transform_def)
  show "keeps_documents (dedup_transform other)"
    using dedup_by_core by (auto simp: keeps_documents_def dedup_transform_def split: json.splits if_splits)
qed

lemma default_registry_keeps: "get_step (default_registry env) name = Some e \<Longrightarrow> keeps_documents (ge_fn e)"
  using filters_keep rerankers_keep transforms_keep
  by (auto simp: default_registry_def register_def get_step_def Let_def split: if_splits)


section \<open>Execution as composition\<close>

definition fn_of :: "registry \<Rightarrow> pipeline_step \<Rightarrow> step_fn" where
  "fn_of g s = ge_fn (the (get_step g (pp_name s)))"

fun compose :: "registry \<Rightarrow> pipeline_step list \<Rightarrow> search_result list \<Rightarrow> step_error + search_result list" where
  "compose g [] rs = Inr rs"
| "compose g (s # ss) rs = (case fn_of g s (step_config s) rs of Inl e \<Rightarrow> Inl e | Inr rs' \<Rightarrow> compose g ss rs')"

definition in_time :: "pipeline_step \<times> int \<Rightarrow> bool" where
  "in_time p \<longleftrightarrow> snd p \<le> pp_timeout (fst p)"

definition on_time :: "(pipeline_step \<times> int) list \<Rightarrow> pipeline_step list" where
  "on_time l = map fst (filter in_time l)"

definition late :: "(pipeline_step \<times> int) list \<Rightarrow> pipeline_step list" where
  "late l = map fst (filter (\<lambda>p. \<not> in_time p) l)"

definition timeout_warning :: "pipeline_step \<Rightarrow> warning" where
  "timeout_warning s = StepTimeout (pp_name s) (pp_timeout s)"

definition known_steps :: "registry \<Rightarrow> pipeline_step list \<Rightarrow> bool" where
  "known_steps g ss \<longleftrightarrow> (\<forall>s \<in> set ss. get_step g (pp_name s) \<noteq> None)"

lemma run_steps_compose:
  assumes "known_steps g ss" and "length took = length ss"
  shows "run_steps g ss took x =
    (case compose g (on_time (zip ss took)) (xe_results x) of
       Inl e \<Rightarrow> Inl e
     | Inr rs \<Rightarrow> Inr \<lparr>xe_results = rs, xe_warnings = xe_warnings x @ map timeout_warning (late (zip ss took)),
                      xe_elapsed = xe_elapsed x + sum_list took\<rparr>)"
  using assms
proof (induction ss arbitrary: took x)
  case Nil
  then show ?case by (simp add: on_time_def late_def)
next
  case (Cons s ss)
  then obtain d took' where took: "took = d # took'" by (cases took) auto
  from Cons.prems(1) obtain e where e: "get_step g (pp_name s) = Some e" by (auto simp: known_steps_def)
  have k: "known_steps g ss" and l: "length took' = length ss"
    using Cons.prems by (simp_all add: known_steps_def took)
  note ih = Cons.IH [OF k l]
  show ?case
  proof (cases "in_time (s, d)")
    case True
    then show ?thesis
      by (cases "ge_fn e (step_config s) (xe_results x)")
        (simp_all add: took e execute_step_def in_time_def on_time_def late_def fn_of_def ih add.assoc Let_def split: sum.split)
  next
    case False
    then show ?thesis
      by (simp add: took e execute_step_def in_time_def on_time_def late_def timeout_warning_def ih add.assoc Let_def split: sum.split)
  qed
qed

text \<open>
  C20. What a pipeline computes.  When all steps are registered, execution is the composition of the step
  functions in the order filters, rerankers, transforms, each group in its declared order, with the steps
  that exceed their timeout left out: the first exception among the others is the outcome, otherwise the
  result comes with one timeout warning per step left out, in order.  The time it takes is the sum of
  the durations of all steps: a timeout does not cut the waiting short.
\<close>

theorem pipeline_composition:
  assumes known: "known_steps g (pl_steps p)" and took: "length took = length (pl_steps p)"
  shows "execute_pipeline g p took cs =
    (let timed = zip (of_type Filter (pl_steps p) @ of_type Reranker (pl_steps p) @ of_type Transform (pl_steps p)) took
     in case compose g (on_time timed) cs of
          Inl e \<Rightarrow> Inl e
        | Inr rs \<Rightarrow> Inr \<lparr>xe_results = rs, xe_warnings = map timeout_warning (late timed), xe_elapsed = sum_list took\<rparr>)"
proof -
  have "mset (execution_order (pl_steps p)) = mset (pl_steps p)"
    by (simp add: apply_type_ordering_def flip: apply_type_ordering_eq)
  then have "length took = length (execution_order (pl_steps p))" using took by (metis size_mset)
  moreover have "known_steps g (execution_order (pl_steps p))" using known by (simp add: known_steps_def)
  ultimately show ?thesis
    by (simp add: execute_pipeline_eq run_steps_compose Let_def flip: execution_order_def split: sum.split)
qed

lemma run_steps_keeps:
  assumes "run_steps (default_registry env) ss took x = Inr y"
  shows "mset (map core_of (xe_results y)) \<subseteq># mset (map core_of (xe_results x))"
  using assms
proof (induction "default_registry env" ss took x rule: run_steps.induct)
  case (1 took x)
  then show ?case by simp
next
  case (2 s ss took x)
  show ?case
  proof (cases "get_step (default_registry env) (pp_name s)")
    case None
    with 2 show ?thesis by simp
  next
    case (Some e)
    let ?d = "case took of [] \<Rightarrow> 0 | t # _ \<Rightarrow> t"
    show ?thesis
    proof (cases "execute_step (ge_fn e) (xe_results x) (step_config s) (pp_timeout s) ?d")
      case (Done rs)
      then have "ge_fn e (step_config s) (xe_results x) = Inr rs"
        by (auto simp: execute_step_def split: if_splits sum.splits)
      with default_registry_keeps [OF Some] have "mset (map core_of rs) \<subseteq># mset (map core_of (xe_results x))"
        by (simp add: keeps_documents_def)
      moreover from 2(2) [OF Some refl refl Done] 2(4) have "mset (map core_of (xe_results y)) \<subseteq># mset (map core_of rs)"
        by (simp add: Some Done)
      ultimately show ?thesis by (rule subset_mset.order_trans [rotated])
    next
      case TimedOut
      with 2(3) [OF Some refl refl TimedOut] 2(4) show ?thesis by (simp add: Some)
    next
      case (Raised err)
      with 2(4) show ?thesis by (simp add: Some)
    qed
  qed
qed

text \<open>
  A pipeline of built-in steps, whatever its steps and configurations, invents nothing: every result
  is a candidate, with the same document, version, address, publication time and provenance; no candidate
  is returned more often than it was given.
\<close>

theorem pipeline_keeps_documents:
  assumes "execute_pipeline (default_registry env) p took cs = Inr x"
  shows "mset (map core_of (xe_results x)) \<subseteq># mset (map core_of cs)"
  using run_steps_keeps [OF assms [unfolded execute_pipeline_eq]] by simp


section \<open>Created pipelines and their tenants\<close>

datatype pipeline_op =
    CreatePipeline datetime string string string "step_def list"
  | DeletePipeline string string

fun op_tenant :: "pipeline_op \<Rightarrow> string" where
  "op_tenant (CreatePipeline now fresh tenant name steps) = tenant"
| "op_tenant (DeletePipeline pid tenant) = tenant"

fun op_identifier :: "pipeline_op \<Rightarrow> string list" where
  "op_identifier (CreatePipeline now fresh tenant name steps) = [fresh]"
| "op_identifier (DeletePipeline pid tenant) = []"

fun pipeline_do :: "pipeline_service \<Rightarrow> pipeline_op \<Rightarrow> pipeline_service" where
  "pipeline_do sv (CreatePipeline now fresh tenant name steps) = snd (create_pipeline sv now fresh tenant name steps)"
| "pipeline_do sv (DeletePipeline pid tenant) = snd (delete_pipeline sv pid tenant)"

definition pipeline_run :: "pipeline_service \<Rightarrow> pipeline_op list \<Rightarrow> pipeline_service" where
  "pipeline_run sv ops = foldl pipeline_do sv ops"

definition step_ok :: "registry \<Rightarrow> pipeline_step \<Rightarrow> bool" where
  "step_ok g s \<longleftrightarrow> min_timeout \<le> pp_timeout s \<and> pp_timeout s \<le> max_timeout
     \<and> (\<exists>e. get_step g (pp_name s) = Some e \<and> ge_type e = pp_type s)"

definition pipeline_ok :: "registry \<Rightarrow> pipeline \<Rightarrow> bool" where
  "pipeline_ok g p \<longleftrightarrow> 1 \<le> length (pl_steps p) \<and> length (pl_steps p) \<le> 20 \<and> (\<forall>s \<in> set (pl_steps p). step_ok g s)"

lemma clamp_timeout_bounds: "min_timeout \<le> clamp_timeout t \<and> clamp_timeout t \<le> max_timeout"
  by (simp add: clamp_timeout_def min_timeout_def max_timeout_def)

lemma build_steps_ok: "build_steps g ds = Inr ss \<Longrightarrow> length ss = length ds \<and> (\<forall>s \<in> set ss. step_ok g s)"
proof (induction ds arbitrary: ss)
  case (Cons d ds)
  from Cons.prems obtain name e ts t c where "get_step g name = Some e" "build_steps g ds = Inr ts"
    "ss = new_step name (ge_type e) c (clamp_timeout t) # ts"
    by (auto simp: Let_def split: option.splits sum.splits)
  with Cons.IH clamp_timeout_bounds show ?case by (auto simp: step_ok_def new_step_def)
qed simp

lemma pipeline_do_registry [simp]: "pq_registry (pipeline_do sv x) = pq_registry sv"
  by (cases x) (auto simp: create_pipeline_def delete_pipeline_def Let_def split: option.splits sum.splits)

definition stored_ok :: "pipeline_service \<Rightarrow> bool" where
  "stored_ok sv \<longleftrightarrow> (\<forall>pid p. dict_get (pq_pipelines sv) pid = Some p \<longrightarrow> pipeline_ok (pq_registry sv) p)"

lemma stored_ok_do: "stored_ok sv \<Longrightarrow> stored_ok (pipeline_do sv x)"
proof (cases x)
  case (CreatePipeline now fresh tenant name steps)
  moreover assume "stored_ok sv"
  ultimately show ?thesis
    using build_steps_ok [of "pq_registry sv" steps]
    by (cases "build_steps (pq_registry sv) steps")
      (auto simp: stored_ok_def create_pipeline_def pipeline_ok_def Let_def Suc_le_eq split: if_splits)
next
  case (DeletePipeline pid tenant)
  moreover assume "stored_ok sv"
  ultimately show ?thesis
    by (auto simp: stored_ok_def delete_pipeline_def split: option.splits if_splits)
qed

lemma pipeline_run_ok: "stored_ok sv \<Longrightarrow> stored_ok (pipeline_run sv ops) \<and> pq_registry (pipeline_run sv ops) = pq_registry sv"
  unfolding pipeline_run_def by (induction ops arbitrary: sv) (simp_all add: stored_ok_do)

lemma late_warnings: "w \<in> set (map timeout_warning (late (zip ss took))) \<Longrightarrow> \<exists>s \<in> set ss. w = timeout_warning s"
  by (auto simp: late_def dest: set_zip_leftD)

text \<open>
  Stored pipelines are well-typed and do not go wrong.  Every pipeline the service holds has between
  1 and 20 steps, each registered under its name with its type and with a timeout between 100 and 30000
  ms.  So an execution that ends reports no unknown step: all its warnings are timeouts of its own
  steps.
\<close>

theorem stored_pipeline_typed:
  assumes own: "get_pipeline (pipeline_run (new_pipeline_service g) ops) pid tenant = Inr p"
    and took: "length took = length (pl_steps p)"
    and run: "execute (pipeline_run (new_pipeline_service g) ops) pid tenant took cs = Inr x"
  shows "pl_tenant p = tenant \<and> pipeline_ok g p \<and> xe_elapsed x = sum_list took
     \<and> (\<forall>w \<in> set (xe_warnings x). \<exists>s \<in> set (pl_steps p). w = timeout_warning s)"
proof -
  let ?sv = "pipeline_run (new_pipeline_service g) ops"
  have "stored_ok (new_pipeline_service g)" by (simp add: stored_ok_def new_pipeline_service_def)
  then have ok: "stored_ok ?sv" and g: "pq_registry ?sv = g"
    using pipeline_run_ok [of "new_pipeline_service g" ops] by (simp_all add: new_pipeline_service_def)
  from own have p: "dict_get (pq_pipelines ?sv) pid = Some p" and t: "pl_tenant p = tenant"
    by (simp_all add: pipelines.get_found)
  from ok p g have typed: "pipeline_ok g p" by (auto simp: stored_ok_def)
  then have "known_steps g (pl_steps p)" by (auto simp: known_steps_def pipeline_ok_def step_ok_def)
  from run own g have "execute_pipeline g p took cs = Inr x" by (auto simp: execute_def split: sum.splits)
  with pipeline_composition [OF \<open>known_steps g (pl_steps p)\<close> took, of cs]
  have "xe_elapsed x = sum_list took" and "xe_warnings x = map timeout_warning (late (zip (execution_order (pl_steps p)) took))"
    by (auto simp: Let_def execution_order_def split: sum.splits)
  with t typed late_warnings [of _ "execution_order (pl_steps p)" took] show ?thesis by auto
qed

text \<open>Two services that agree on what a tenant owns.\<close>

definition tenant_view :: "pipeline_service \<Rightarrow> string \<Rightarrow> (string \<times> pipeline) list" where
  "tenant_view sv t = filter (\<lambda>q. pl_tenant (snd q) = t) (pq_pipelines sv)"

lemma list_pipelines_view: "list_pipelines sv t = map snd (tenant_view sv t)"
  by (simp add: list_pipelines_def tenant_view_def filter_map comp_def)

lemma view_lookup:
  "dict_ok (pq_pipelines sv) \<Longrightarrow> pl_tenant p = t \<Longrightarrow>
   dict_get (pq_pipelines sv) pid = Some p \<longleftrightarrow> (pid, p) \<in> set (tenant_view sv t)"
  by (auto simp: tenant_view_def simp flip: dict_mem_iff)

lemma foreign_view:
  assumes ok: "dict_ok (pq_pipelines sv)" and t: "op_tenant x \<noteq> t"
    and fresh: "\<forall>i \<in> set (op_identifier x). dict_get (pq_pipelines sv) i = None"
  shows "tenant_view (pipeline_do sv x) t = tenant_view sv t \<and> dict_ok (pq_pipelines (pipeline_do sv x))"
proof (cases x)
  case (CreatePipeline now fresh' tenant name steps)
  with assms show ?thesis
    by (cases "build_steps (pq_registry sv) steps")
      (auto simp: create_pipeline_def tenant_view_def dict_set_new Let_def dict_ok_def dict_get_None_iff)
next
  case (DeletePipeline pid tenant)
  show ?thesis
  proof (cases "dict_get (pq_pipelines sv) pid")
    case (Some p)
    have "pl_tenant (snd q) \<noteq> t" if "q \<in> set (pq_pipelines sv)" "fst q = pid" "pl_tenant p = tenant" for q
    proof -
      from that ok have "dict_get (pq_pipelines sv) pid = Some (snd q)" by (metis dict_mem_get prod.collapse)
      with Some that t DeletePipeline show ?thesis by simp
    qed
    then have "pl_tenant p = tenant \<Longrightarrow> filter (\<lambda>q. fst q \<noteq> pid \<and> pl_tenant (snd q) = t) (pq_pipelines sv)
        = filter (\<lambda>q. pl_tenant (snd q) = t) (pq_pipelines sv)"
      by (intro filter_cong) auto
    with Some ok DeletePipeline show ?thesis
      by (auto simp: delete_pipeline_def tenant_view_def dict_del_def dict_ok_def distinct_map_filter)
  qed (use ok DeletePipeline in \<open>simp add: delete_pipeline_def\<close>)
qed


lemma dict_ok_do: "dict_ok (pq_pipelines sv) \<Longrightarrow> dict_ok (pq_pipelines (pipeline_do sv x))"
  by (cases x) (auto simp: create_pipeline_def delete_pipeline_def Let_def split: option.splits sum.splits)

lemma identifiers_do:
  "dict_get (pq_pipelines (pipeline_do sv x)) i \<noteq> None \<Longrightarrow> i \<in> set (op_identifier x) \<or> dict_get (pq_pipelines sv) i \<noteq> None"
  by (cases x) (auto simp: create_pipeline_def delete_pipeline_def Let_def split: option.splits sum.splits if_splits)

lemma pipeline_run_state:
  "dict_ok (pq_pipelines sv) \<Longrightarrow> dict_ok (pq_pipelines (pipeline_run sv ops))
     \<and> (\<forall>i. dict_get (pq_pipelines (pipeline_run sv ops)) i \<noteq> None \<longrightarrow>
          i \<in> set (concat (map op_identifier ops)) \<or> dict_get (pq_pipelines sv) i \<noteq> None)"
proof (induction ops arbitrary: sv)
  case Nil
  then show ?case by (simp add: pipeline_run_def)
next
  case (Cons x ops)
  have r: "pipeline_run sv (x # ops) = pipeline_run (pipeline_do sv x) ops" by (simp add: pipeline_run_def)
  from Cons.IH [OF dict_ok_do [OF Cons.prems, of x]] show ?case
    unfolding r using identifiers_do [of sv x] by (simp; blast)
qed

lemma foreign_pipeline_run:
  assumes "dict_ok (pq_pipelines sv)" and "\<forall>x \<in> set ops. op_tenant x \<noteq> t"
    and "distinct (concat (map op_identifier ops))"
    and "\<forall>i \<in> set (concat (map op_identifier ops)). dict_get (pq_pipelines sv) i = None"
  shows "tenant_view (pipeline_run sv ops) t = tenant_view sv t"
  using assms
proof (induction ops arbitrary: sv)
  case Nil
  then show ?case by (simp add: pipeline_run_def)
next
  case (Cons x ops)
  have r: "pipeline_run sv (x # ops) = pipeline_run (pipeline_do sv x) ops" by (simp add: pipeline_run_def)
  have v: "tenant_view (pipeline_do sv x) t = tenant_view sv t \<and> dict_ok (pq_pipelines (pipeline_do sv x))"
    using Cons.prems by (intro foreign_view) auto
  have "dict_get (pq_pipelines (pipeline_do sv x)) i = None" if "i \<in> set (concat (map op_identifier ops))" for i
  proof (rule ccontr)
    assume "dict_get (pq_pipelines (pipeline_do sv x)) i \<noteq> None"
    from identifiers_do [OF this] that Cons.prems(3,4) show False by auto
  qed
  then have "tenant_view (pipeline_run (pipeline_do sv x) ops) t = tenant_view (pipeline_do sv x) t"
    using Cons.prems v by (intro Cons.IH) auto
  with v show ?case unfolding r by simp
qed

text \<open>
  Tenants do not see each other's pipelines.  After any history, nothing that other tenants create
  or delete changes what a tenant lists, or what it gets under any identifier (new identifiers being
  fresh).
\<close>

theorem pipeline_isolation:
  assumes ids: "distinct (concat (map op_identifier (before_ops @ ops)))"
    and foreign: "\<forall>x \<in> set ops. op_tenant x \<noteq> t"
  shows "list_pipelines (pipeline_run (new_pipeline_service g) (before_ops @ ops)) t
       = list_pipelines (pipeline_run (new_pipeline_service g) before_ops) t
     \<and> get_pipeline (pipeline_run (new_pipeline_service g) (before_ops @ ops)) pid t
       = get_pipeline (pipeline_run (new_pipeline_service g) before_ops) pid t"
proof -
  let ?sv = "pipeline_run (new_pipeline_service g) before_ops"
  have run: "pipeline_run (new_pipeline_service g) (before_ops @ ops) = pipeline_run ?sv ops"
    by (simp add: pipeline_run_def)
  have new: "dict_ok (pq_pipelines (new_pipeline_service g))" "\<And>i. dict_get (pq_pipelines (new_pipeline_service g)) i = None"
    by (simp_all add: new_pipeline_service_def)
  note st = pipeline_run_state [OF new(1), of before_ops]
  have fresh: "\<forall>i \<in> set (concat (map op_identifier ops)). dict_get (pq_pipelines ?sv) i = None"
    using st new(2) ids by (auto simp del: not_None_eq)
  have view: "tenant_view (pipeline_run ?sv ops) t = tenant_view ?sv t"
    using foreign_pipeline_run [OF _ foreign _ fresh] st ids by simp
  have ok: "dict_ok (pq_pipelines (pipeline_run ?sv ops))" using pipeline_run_state st by blast
  have "get_pipeline (pipeline_run ?sv ops) pid t = get_pipeline ?sv pid t"
  proof (rule pipelines.get_noninterference)
    fix r :: pipeline assume "pl_tenant r = t"
    then show "dict_get (pq_pipelines (pipeline_run ?sv ops)) pid = Some r \<longleftrightarrow> dict_get (pq_pipelines ?sv) pid = Some r"
      using view_lookup [OF ok] view_lookup [OF conjunct1 [OF st]] view by simp
  qed
  then show ?thesis by (simp add: run list_pipelines_view view)
qed

section \<open>Samples\<close>

definition sample_steps_env :: step_env where
  "sample_steps_env = \<lparr>sn_now = 0, sn_show = (\<lambda>_. ''?''), sn_attribute = (\<lambda>_ _. ''?'')\<rparr>"

definition sample_step_defs :: "step_def list" where
  "sample_step_defs = [\<lparr>sd_name = Some ''dedup_transform'', sd_timeout = Some (Some 5), sd_config = None\<rparr>,
     \<lparr>sd_name = Some ''domain_filter'', sd_timeout = None, sd_config = Some (Some [(''domains'', JList [JStr ''a.org''])])\<rparr>]"

definition sample_ops :: "pipeline_op list" where
  "sample_ops = [CreatePipeline 0 ''p'' ''t'' ''mine'' sample_step_defs]"

definition sample_service :: pipeline_service where
  "sample_service = pipeline_run (new_pipeline_service (default_registry sample_steps_env)) sample_ops"

definition sample_pipeline :: pipeline where
  "sample_pipeline = \<lparr>pl_id = ''p'', pl_tenant = ''t'', pl_name = ''mine'',
     pl_steps = [new_step ''dedup_transform'' Transform (Some []) 100,
                 new_step ''domain_filter'' Filter (Some [(''domains'', JList [JStr ''a.org''])]) 2000], pl_created = 0\<rparr>"

definition sample_candidates :: "search_result list" where
  "sample_candidates = map (\<lambda>(d, u). \<lparr>sr_id = d, sr_url = u, sr_title = [], sr_score = 1 / 2, sr_published = None,
     sr_provenance = \<lparr>pv_credibility = 1 / 2, pv_ai = 0, pv_scored_at = 0\<rparr>, sr_version = 1\<rparr>)
     [(''x'', ''http://a.org/1''), (''y'', ''http://b.org/''), (''z'', ''http://a.org/1'')]"

lemma sample_registry_get:
  "get_step (default_registry sample_steps_env) ''dedup_transform'' = Some \<lparr>ge_type = Transform, ge_fn = dedup_transform (sn_attribute sample_steps_env)\<rparr>"
  "get_step (default_registry sample_steps_env) ''domain_filter'' = Some \<lparr>ge_type = Filter, ge_fn = domain_filter\<rparr>"
  by (simp_all add: default_registry_def register_def get_step_def Let_def)

lemma sample_known: "known_steps (default_registry sample_steps_env) (pl_steps sample_pipeline)"
  by (simp add: known_steps_def sample_pipeline_def new_step_def sample_registry_get)


lemma sample_created: "get_pipeline sample_service ''p'' ''t'' = Inr sample_pipeline"
proof -
  have "get_unknown_steps (default_registry sample_steps_env) [''dedup_transform'', ''domain_filter''] = []"
    using sample_registry_get by (simp add: get_unknown_steps_def step_exists_def get_step_def)
  moreover have "build_steps (default_registry sample_steps_env) sample_step_defs = Inr (pl_steps sample_pipeline)"
    by (simp add: sample_step_defs_def sample_registry_get sample_pipeline_def clamp_timeout_def min_timeout_def max_timeout_def)
  ultimately show ?thesis
    by (simp add: sample_service_def sample_ops_def pipeline_run_def create_pipeline_def new_pipeline_service_def
        get_pipeline_def sample_pipeline_def Let_def) (simp add: sample_step_defs_def)
qed

lemma pipeline_composition_witness:
  "\<exists>x. execute_pipeline (default_registry sample_steps_env) sample_pipeline [3, 101] sample_candidates = Inr x
     \<and> map sr_id (xe_results x) = [''x'', ''z''] \<and> xe_warnings x = [StepTimeout ''dedup_transform'' 100] \<and> xe_elapsed x = 104"
proof -
  have "length [3, 101 :: int] = length (pl_steps sample_pipeline)" by (simp add: sample_pipeline_def)
  note t = pipeline_composition [OF sample_known this, of sample_candidates]
  have "domain_filter [(''domains'', JList [JStr ''a.org''])] sample_candidates
      = Inr (filter (\<lambda>r. sr_id r \<noteq> ''y'') sample_candidates)"
    by code_simp
  then have c: "compose (default_registry sample_steps_env) [new_step ''domain_filter'' Filter (Some [(''domains'', JList [JStr ''a.org''])]) 2000]
      sample_candidates = Inr (filter (\<lambda>r. sr_id r \<noteq> ''y'') sample_candidates)"
    by (simp add: fn_of_def new_step_def step_config_def sample_registry_get)
  have ids: "map sr_id (filter (\<lambda>r. sr_id r \<noteq> ''y'') sample_candidates) = [''x'', ''z'']" by code_simp
  show ?thesis
    unfolding t using c ids
    by (simp add: sample_pipeline_def of_type_def new_step_def on_time_def late_def in_time_def timeout_warning_def
        min_timeout_def max_timeout_def)
qed

lemma pipeline_keeps_documents_witness:
  "\<exists>x. execute_pipeline (default_registry sample_steps_env) sample_pipeline [3, 101] sample_candidates = Inr x
     \<and> mset (map core_of (xe_results x)) \<subseteq># mset (map core_of sample_candidates)"
proof -
  have "length [3, 101 :: int] = length (pl_steps sample_pipeline)" by (simp add: sample_pipeline_def)
  note t = pipeline_composition [OF sample_known this, of sample_candidates]
  have "\<not> is_err (compose (default_registry sample_steps_env)
     [new_step ''domain_filter'' Filter (Some [(''domains'', JList [JStr ''a.org''])]) 2000] sample_candidates)"
    by code_simp
  then obtain x where "execute_pipeline (default_registry sample_steps_env) sample_pipeline [3, 101] sample_candidates = Inr x"
    unfolding t
    by (cases "compose (default_registry sample_steps_env)
         [new_step ''domain_filter'' Filter (Some [(''domains'', JList [JStr ''a.org''])]) 2000] sample_candidates")
      (auto simp: sample_pipeline_def of_type_def new_step_def on_time_def late_def in_time_def min_timeout_def max_timeout_def)
  with pipeline_keeps_documents [OF this] show ?thesis by blast
qed


lemma stored_pipeline_typed_witness:
  "pipeline_ok (default_registry sample_steps_env) sample_pipeline
   \<and> (\<exists>x. execute sample_service ''p'' ''t'' [3, 101] sample_candidates = Inr x
        \<and> (\<forall>w \<in> set (xe_warnings x). \<exists>s \<in> set (pl_steps sample_pipeline). w = timeout_warning s))"
proof -
  have g: "pq_registry sample_service = default_registry sample_steps_env"
    unfolding sample_service_def using pipeline_run_ok [of "new_pipeline_service (default_registry sample_steps_env)" sample_ops]
    by (simp add: new_pipeline_service_def stored_ok_def)
  have own: "get_pipeline (pipeline_run (new_pipeline_service (default_registry sample_steps_env)) sample_ops) ''p'' ''t''
      = Inr sample_pipeline"
    using sample_created by (simp add: sample_service_def)
  have took: "length [3, 101 :: int] = length (pl_steps sample_pipeline)" by (simp add: sample_pipeline_def)
  obtain x where "execute_pipeline (default_registry sample_steps_env) sample_pipeline [3, 101] sample_candidates = Inr x"
    using pipeline_keeps_documents_witness by blast
  then have run: "execute sample_service ''p'' ''t'' [3, 101] sample_candidates = Inr x"
    by (simp add: execute_def sample_created g)
  from stored_pipeline_typed [OF own took run [unfolded sample_service_def]] run show ?thesis by blast
qed

lemma pipeline_isolation_witness:
  "list_pipelines (pipeline_run (new_pipeline_service (default_registry sample_steps_env))
      (sample_ops @ [CreatePipeline 1 ''q'' ''u'' ''other'' sample_step_defs, DeletePipeline ''p'' ''u''])) ''t'' = [sample_pipeline]"
proof -
  let ?ops = "[CreatePipeline 1 ''q'' ''u'' ''other'' sample_step_defs, DeletePipeline ''p'' ''u'']"
  have ids: "distinct (concat (map op_identifier (sample_ops @ ?ops)))" by (simp add: sample_ops_def)
  have "list_pipelines sample_service ''t'' = [sample_pipeline]"
  proof -
    have "pq_pipelines sample_service = [(''p'', sample_pipeline)]"
    proof -
      from sample_created have "dict_get (pq_pipelines sample_service) ''p'' = Some sample_pipeline"
        by (simp add: get_pipeline_def split: option.splits if_splits)
      moreover have "pq_pipelines sample_service = [] \<or> (\<exists>p. pq_pipelines sample_service = [(''p'', p)])"
        by (simp add: sample_service_def sample_ops_def pipeline_run_def create_pipeline_def new_pipeline_service_def
            dict_set_def Let_def split: sum.split)
      ultimately show ?thesis by (auto simp: dict_get_def)
    qed
    then show ?thesis by (simp add: list_pipelines_def sample_pipeline_def)
  qed
  with pipeline_isolation [OF ids, of "''t''" "default_registry sample_steps_env"] show ?thesis
    by (simp add: sample_service_def)
qed

end
