(* ===== verification/Pii.thy ===== *)
theory Pii
  imports PyStr "HOL-Library.Product_Lexorder"
begin

text \<open>
  Detection and redaction of personal data: \<open>backend/pii_redactor/patterns.py\<close> and \<open>redactor.py\<close>.

  The patterns are terms of the fragment of \<open>re\<close> they use; \<open>ends\<close> enumerates the ends of the matches of
  a pattern at a position in the order of Python's backtracking search, whose first one counts, and
  \<open>finditer\<close> scans for them from left to right.
\<close>

section \<open>Patterns\<close>

datatype rx =
    Cls "char \<Rightarrow> bool"
  | Seq rx rx
  | Alt rx rx
  | Rep nat nat rx
  | Many rx
  | WordB

text \<open>Greedy repetition, between \<open>lo\<close> and \<open>hi\<close> times.\<close>

fun reps :: "(nat \<Rightarrow> nat list) \<Rightarrow> nat \<Rightarrow> nat \<Rightarrow> nat \<Rightarrow> nat list" where
  "reps f lo 0 i = (if lo = 0 then [i] else [])"
| "reps f lo (Suc hi) i = concat (map (reps f (lo - 1) hi) (f i)) @ (if lo = 0 then [i] else [])"

definition word_char :: "char \<Rightarrow> bool" where
  "word_char c \<longleftrightarrow> py_isalnum c \<or> c = CHR ''_''"

definition at_boundary :: "string \<Rightarrow> nat \<Rightarrow> bool" where
  "at_boundary s i \<longleftrightarrow> (0 < i \<and> i \<le> length s \<and> word_char (s ! (i - 1))) \<noteq> (i < length s \<and> word_char (s ! i))"

text \<open>\<open>Many r\<close> is \<open>r+\<close> for a pattern that does not match the empty string.\<close>

fun ends :: "rx \<Rightarrow> string \<Rightarrow> nat \<Rightarrow> nat list" where
  "ends (Cls p) s i = (if i < length s \<and> p (s ! i) then [i + 1] else [])"
| "ends (Seq a b) s i = concat (map (ends b s) (ends a s i))"
| "ends (Alt a b) s i = ends a s i @ ends b s i"
| "ends (Rep lo hi r) s i = reps (ends r s) lo hi i"
| "ends (Many r) s i = reps (ends r s) 1 (length s) i"
| "ends WordB s i = (if at_boundary s i then [i] else [])"

text \<open>\<open>finditer\<close>; \<open>n\<close> bounds the number of positions tried and is at most the number that are left.\<close>

fun finditer :: "rx \<Rightarrow> string \<Rightarrow> nat \<Rightarrow> nat \<Rightarrow> (nat \<times> nat) list" where
  "finditer r s 0 i = []"
| "finditer r s (Suc n) i =
     (if i > length s then []
      else (case ends r s i of
              [] \<Rightarrow> finditer r s n (i + 1)
            | e # _ \<Rightarrow> (i, e) # finditer r s n (max e (i + 1))))"

definition find_all :: "rx \<Rightarrow> string \<Rightarrow> (nat \<times> nat) list" where
  "find_all r s = finditer r s (length s + 1) 0"

section \<open>The patterns of the redactor\<close>

definition one :: "char \<Rightarrow> rx" where "one c = Cls (\<lambda>x. x = c)"
definition digit :: rx where "digit = Cls ascii_digit"
definition upper :: rx where "upper = Cls (\<lambda>c. 65 \<le> cp c \<and> cp c \<le> 90)"
definition blank :: rx where "blank = Cls py_isspace"
definition optional :: "rx \<Rightarrow> rx" where "optional r = Rep 0 1 r"
definition digits :: "nat \<Rightarrow> rx" where "digits n = Rep n n digit"

fun seq :: "rx list \<Rightarrow> rx" where
  "seq [] = Rep 0 0 WordB"
| "seq [r] = r"
| "seq (r # rs) = Seq r (seq rs)"

definition ascii_alnum :: "char \<Rightarrow> bool" where
  "ascii_alnum c \<longleftrightarrow> (48 \<le> cp c \<and> cp c \<le> 57) \<or> (65 \<le> cp c \<and> cp c \<le> 90) \<or> (97 \<le> cp c \<and> cp c \<le> 122)"

definition local_char :: "char \<Rightarrow> bool" where
  "local_char c \<longleftrightarrow> ascii_alnum c \<or> c \<in> set ''.!#$%&*+/=?^_{|}~-'' \<or> cp c = 39 \<or> cp c = 96"

definition domain_label :: rx where
  "domain_label = Seq (Cls ascii_alnum)
     (optional (Seq (Rep 0 61 (Cls (\<lambda>c. ascii_alnum c \<or> c = CHR ''-''))) (Cls ascii_alnum)))"

definition email_pattern :: rx where
  "email_pattern = seq [Many (Cls local_char), one CHR ''@'', domain_label, Many (Seq (one CHR ''.'') domain_label)]"

definition spaced_digit :: rx where
  "spaced_digit = Seq digit (optional (Cls (\<lambda>c. py_isspace c \<or> c = CHR ''-'')))"

definition phone_pattern :: rx where
  "phone_pattern = seq [one CHR ''+'', Rep 1 15 spaced_digit, digit]"

definition us_ssn_pattern :: rx where
  "us_ssn_pattern = Alt (seq [WordB, digits 3, one CHR ''-'', digits 2, one CHR ''-'', digits 4, WordB])
     (seq [WordB, digits 9, WordB])"

definition eu_patterns :: "rx list" where
  "eu_patterns =
     [seq [WordB, Cls (\<lambda>c. c \<in> {CHR ''1'', CHR ''2''}), optional blank, digits 2, optional blank, digits 2, optional blank,
           digits 2, optional blank, digits 3, optional blank, digits 3, optional blank, digits 2, WordB],
      seq [WordB, digits 8, upper, WordB],
      seq [WordB, upper, Rep 8 8 (Cls (\<lambda>c. ascii_digit c \<or> (65 \<le> cp c \<and> cp c \<le> 90))), WordB],
      seq [WordB, Rep 6 6 upper, digits 2, upper, digits 2, upper, digits 3, upper, WordB]]"

definition credit_card_pattern :: rx where
  "credit_card_pattern = seq [WordB, Rep 12 18 spaced_digit, digit, WordB]"

section \<open>The Luhn check\<close>

definition luhn_double :: "nat \<Rightarrow> nat" where
  "luhn_double n = (if 2 * n > 9 then 2 * n - 9 else 2 * n)"

fun luhn_sum :: "nat \<Rightarrow> string \<Rightarrow> nat" where
  "luhn_sum i [] = 0"
| "luhn_sum i (c # cs) = (if i mod 2 = 1 then luhn_double (digit_val c) else digit_val c) + luhn_sum (i + 1) cs"

text \<open>\<open>int(ch)\<close> raises on the superscript digits, which \<open>isdigit\<close> accepts: \<open>None\<close> is the \<open>ValueError\<close>.\<close>

definition luhn_check :: "string \<Rightarrow> bool option" where
  "luhn_check ds =
     (if ds = [] \<or> \<not> list_all py_isdigit ds then Some False
      else if \<not> list_all ascii_digit ds then None
      else Some (luhn_sum 0 (rev ds) mod 10 = 0))"

section \<open>Detection\<close>

datatype pii_type = Email | Phone | UsSsn | EuNationalId | CreditCard

record pii_match =
  pm_type :: pii_type
  pm_start :: nat
  pm_end :: nat
  pm_value :: string

definition strip_separators :: "string \<Rightarrow> string" where
  "strip_separators v = filter (\<lambda>c. c \<noteq> CHR '' '' \<and> c \<noteq> CHR ''-'') v"

definition matches_of :: "pii_type \<Rightarrow> (string \<Rightarrow> bool) \<Rightarrow> string \<Rightarrow> rx \<Rightarrow> pii_match list" where
  "matches_of ty ok s r =
     map (\<lambda>(a, b). \<lparr>pm_type = ty, pm_start = a, pm_end = b, pm_value = slice s a b\<rparr>)
       (filter (\<lambda>(a, b). ok (slice s a b)) (find_all r s))"

definition phone_ok :: "string \<Rightarrow> bool" where
  "phone_ok v \<longleftrightarrow> length (dropWhile (\<lambda>c. c = CHR ''+'') (strip_separators v)) \<ge> 7"

definition ssn_ok :: "string \<Rightarrow> bool" where
  "ssn_ok v \<longleftrightarrow> (let d = strip_separators v in
     length d = 9 \<and> take 3 d \<noteq> ''000'' \<and> take 3 d \<noteq> ''666'' \<and> \<not> starts_with d ''9''
     \<and> slice d 3 5 \<noteq> ''00'' \<and> drop 5 d \<noteq> ''0000'')"

definition card_ok :: "string \<Rightarrow> bool" where
  "card_ok v \<longleftrightarrow> (let d = strip_separators v in 13 \<le> length d \<and> length d \<le> 19 \<and> luhn_check d = Some True)"

definition all_matches :: "string \<Rightarrow> pii_match list" where
  "all_matches s =
     matches_of Email (\<lambda>_. True) s email_pattern
     @ matches_of Phone phone_ok s phone_pattern
     @ matches_of UsSsn ssn_ok s us_ssn_pattern
     @ concat (map (matches_of EuNationalId (\<lambda>_. True) s) eu_patterns)
     @ matches_of CreditCard card_ok s credit_card_pattern"

definition span :: "pii_match \<Rightarrow> nat \<times> nat" where
  "span m = (pm_start m, pm_end m)"

fun dedup_spans :: "(nat \<times> nat) list \<Rightarrow> pii_match list \<Rightarrow> pii_match list" where
  "dedup_spans seen [] = []"
| "dedup_spans seen (m # ms) =
     (if span m \<in> set seen then dedup_spans seen ms else m # dedup_spans (span m # seen) ms)"

definition detect_pii :: "string \<Rightarrow> pii_match list" where
  "detect_pii s = dedup_spans [] (sort_key span (all_matches s))"

section \<open>Redaction\<close>

fun placeholder_for :: "pii_type \<Rightarrow> string" where
  "placeholder_for Email = ''[REDACTED_EMAIL]''"
| "placeholder_for Phone = ''[REDACTED_PHONE]''"
| "placeholder_for UsSsn = ''[REDACTED_SSN]''"
| "placeholder_for EuNationalId = ''[REDACTED_EU_ID]''"
| "placeholder_for CreditCard = ''[REDACTED_CARD]''"

definition replace_match :: "string \<Rightarrow> pii_match \<Rightarrow> string" where
  "replace_match t m = take (pm_start m) t @ placeholder_for (pm_type m) @ drop (pm_end m) t"

definition redact :: "string \<Rightarrow> string" where
  "redact s = (let ms = detect_pii s in if ms = [] then s else foldl replace_match s (rev ms))"

record redaction_info =
  ri_type :: pii_type
  ri_start :: nat
  ri_end :: nat
  ri_placeholder :: string

record redaction_result =
  rd_text :: string
  rd_redactions :: "redaction_info list"
  rd_had_pii :: bool

definition redact_with_info :: "string \<Rightarrow> redaction_result" where
  "redact_with_info s =
     (let ms = detect_pii s in
      if ms = [] then \<lparr>rd_text = s, rd_redactions = [], rd_had_pii = False\<rparr>
      else \<lparr>rd_text = foldl replace_match s (rev ms),
             rd_redactions = map (\<lambda>m. \<lparr>ri_type = pm_type m, ri_start = pm_start m, ri_end = pm_end m,
                                     ri_placeholder = placeholder_for (pm_type m)\<rparr>) ms,
             rd_had_pii = True\<rparr>)"


section \<open>The Luhn check detects single errors\<close>

definition luhn_weight :: "nat \<Rightarrow> char \<Rightarrow> nat" where
  "luhn_weight i c = (if i mod 2 = 1 then luhn_double (digit_val c) else digit_val c)"

lemma luhn_sum_append: "luhn_sum i (xs @ ys) = luhn_sum i xs + luhn_sum (i + length xs) ys"
  by (induction xs arbitrary: i) simp_all

lemma luhn_sum_Cons: "luhn_sum i (c # cs) = luhn_weight i c + luhn_sum (i + 1) cs"
  by (simp add: luhn_weight_def)

lemma digit_val_less: "ascii_digit c \<Longrightarrow> digit_val c < 10"
  by (auto simp: ascii_digit_def digit_val_def)

lemma digit_val_inj: "ascii_digit c \<Longrightarrow> ascii_digit d \<Longrightarrow> digit_val c = digit_val d \<Longrightarrow> c = d"
  by (auto simp: ascii_digit_def digit_val_def simp flip: cp_inj)

lemma luhn_weight_less: "ascii_digit c \<Longrightarrow> luhn_weight i c < 10"
  using digit_val_less [of c] by (auto simp: luhn_weight_def luhn_double_def)

lemma luhn_weight_inj:
  assumes "ascii_digit c" "ascii_digit d" "luhn_weight i c = luhn_weight i d"
  shows "c = d"
proof -
  have "digit_val c = digit_val d"
    using assms digit_val_less [of c] digit_val_less [of d]
    by (auto simp: luhn_weight_def luhn_double_def split: if_splits) presburger+
  then show ?thesis using assms digit_val_inj by blast
qed

lemma mod_ten_shift:
  fixes a b n :: nat
  assumes "a < 10" and "b < 10" and "(n + a) mod 10 = 0" and "(n + b) mod 10 = 0"
  shows "a = b"
proof -
  from assms(3) have "10 dvd n + a" by (simp add: dvd_eq_mod_eq_0)
  then obtain k where "n + a = 10 * k" by (elim dvdE)
  moreover from assms(4) have "10 dvd n + b" by (simp add: dvd_eq_mod_eq_0)
  then obtain m where "n + b = 10 * m" by (elim dvdE)
  ultimately show ?thesis using assms(1,2) by (cases k m rule: linorder_cases) linarith+
qed

lemma luhn_check_iff:
  "luhn_check ds = Some True \<longleftrightarrow> ds \<noteq> [] \<and> list_all ascii_digit ds \<and> luhn_sum 0 (rev ds) mod 10 = 0"
proof -
  have "list_all ascii_digit ds \<Longrightarrow> list_all py_isdigit ds"
    by (auto simp: list_all_iff ascii_digit_isdigit)
  then show ?thesis by (auto simp: luhn_check_def)
qed

text \<open>
  The Luhn check detects every single-digit error: replacing any one digit of a number that passes
  by another digit makes it fail.
\<close>

theorem luhn_detects_single_error:
  assumes pass: "luhn_check ds = Some True" and i: "i < length ds" and d: "ascii_digit d" and ne: "d \<noteq> ds ! i"
  shows "luhn_check (ds[i := d]) = Some False"
proof -
  define xs ys where "xs = take i ds" and "ys = drop (Suc i) ds"
  have ds: "ds = xs @ ds ! i # ys" using i by (simp add: xs_def ys_def id_take_nth_drop)
  have upd: "ds[i := d] = xs @ d # ys" using i by (simp add: xs_def ys_def upd_conv_take_nth_drop)
  have sum: "luhn_sum 0 (rev (xs @ c # ys)) =
      luhn_sum 0 (rev ys) + luhn_sum (Suc (length ys)) (rev xs) + luhn_weight (length ys) c" for c
    by (simp add: luhn_sum_append luhn_sum_Cons del: luhn_sum.simps(2))
  have all: "list_all ascii_digit ds" and z: "luhn_sum 0 (rev ds) mod 10 = 0"
    using pass by (simp_all add: luhn_check_iff)
  then have c: "ascii_digit (ds ! i)" using i by (simp add: list_all_length)
  from all have all': "list_all ascii_digit (ds[i := d])"
    using d i by (auto simp: list_all_length nth_list_update)
  have "luhn_sum 0 (rev (ds[i := d])) mod 10 \<noteq> 0"
  proof
    assume z': "luhn_sum 0 (rev (ds[i := d])) mod 10 = 0"
    have "luhn_sum 0 (rev ys) + luhn_sum (Suc (length ys)) (rev xs) + luhn_weight (length ys) (ds ! i)
        = luhn_sum 0 (rev ds)"
      using sum [of "ds ! i"] ds by simp
    with z have "(luhn_sum 0 (rev ys) + luhn_sum (Suc (length ys)) (rev xs) + luhn_weight (length ys) (ds ! i)) mod 10 = 0"
      by simp
    moreover from z' have "(luhn_sum 0 (rev ys) + luhn_sum (Suc (length ys)) (rev xs) + luhn_weight (length ys) d) mod 10 = 0"
      unfolding upd sum .
    ultimately have "luhn_weight (length ys) (ds ! i) = luhn_weight (length ys) d"
      by (rule mod_ten_shift [OF luhn_weight_less [OF c] luhn_weight_less [OF d]])
    then show False using luhn_weight_inj [OF c d] ne by blast
  qed
  moreover have "list_all py_isdigit (ds[i := d])" using all' by (auto simp: list_all_iff ascii_digit_isdigit)
  moreover have "ds[i := d] \<noteq> []" using i by auto
  ultimately show ?thesis using all' by (simp add: luhn_check_def)
qed

lemma luhn_detects_single_error_witness:
  "luhn_check ''4111111111111111'' = Some True \<and> luhn_check (''4111111111111111''[3 := CHR ''7'']) = Some False"
proof
  show p: "luhn_check ''4111111111111111'' = Some True" by code_simp
  have d: "ascii_digit CHR ''7''" by code_simp
  show "luhn_check (''4111111111111111''[3 := CHR ''7'']) = Some False"
    by (rule luhn_detects_single_error [OF p _ d]) simp_all
qed


section \<open>The spans found\<close>

fun min_len :: "rx \<Rightarrow> nat" where
  "min_len (Cls p) = 1"
| "min_len (Seq a b) = min_len a + min_len b"
| "min_len (Alt a b) = min (min_len a) (min_len b)"
| "min_len (Rep lo hi r) = lo * min_len r"
| "min_len (Many r) = min_len r"
| "min_len WordB = 0"

lemma reps_range:
  assumes f: "\<And>i e. e \<in> set (f i) \<Longrightarrow> i + m \<le> e \<and> (i \<le> l \<longrightarrow> e \<le> l)"
  shows "e \<in> set (reps f lo hi i) \<Longrightarrow> i + lo * m \<le> e \<and> (i \<le> l \<longrightarrow> e \<le> l)"
proof (induction hi arbitrary: lo i e)
  case 0
  then show ?case by (simp split: if_splits)
next
  case (Suc hi)
  show ?case
  proof (cases "\<exists>j \<in> set (f i). e \<in> set (reps f (lo - 1) hi j)")
    case True
    then obtain j where j: "j \<in> set (f i)" "e \<in> set (reps f (lo - 1) hi j)" by blast
    from f [OF j(1)] Suc.IH [OF j(2)] show ?thesis by (cases lo) auto
  next
    case False
    with Suc.prems show ?thesis by (auto split: if_splits)
  qed
qed

lemma ends_range: "e \<in> set (ends r s i) \<Longrightarrow> i + min_len r \<le> e \<and> (i \<le> length s \<longrightarrow> e \<le> length s)"
proof (induction r arbitrary: i e)
  case (Seq a b)
  then obtain j where j: "j \<in> set (ends a s i)" "e \<in> set (ends b s j)" by auto
  from Seq.IH(1) [OF j(1)] Seq.IH(2) [OF j(2)] show ?case by auto
next
  case (Alt a b)
  then have "e \<in> set (ends a s i) \<or> e \<in> set (ends b s i)" by simp
  with Alt.IH(1) [of e i] Alt.IH(2) [of e i] show ?case by (auto simp: min_def)
next
  case (Rep lo hi r)
  then show ?case using reps_range [of "ends r s" "min_len r" "length s" e lo hi i] by simp
next
  case (Many r)
  then show ?case using reps_range [of "ends r s" "min_len r" "length s" e 1 "length s" i] by simp
qed (auto split: if_splits)

lemma finditer_range:
  "(a, b) \<in> set (finditer r s n i) \<Longrightarrow> a \<le> length s \<and> a + min_len r \<le> b \<and> b \<le> length s"
proof (induction n arbitrary: i)
  case (Suc n)
  show ?case
  proof (cases "i > length s \<or> ends r s i = []")
    case True
    with Suc show ?thesis by (auto split: if_splits)
  next
    case False
    then obtain e es where e: "ends r s i = e # es" by (cases "ends r s i") auto
    with ends_range [of e r s i] False Suc show ?thesis by auto
  qed
qed simp

lemma pattern_lengths:
  "min_len email_pattern > 0" "min_len phone_pattern > 0" "min_len us_ssn_pattern > 0"
  "list_all (\<lambda>r. min_len r > 0) eu_patterns" "min_len credit_card_pattern > 0"
  by code_simp+

definition match_ok :: "string \<Rightarrow> pii_match \<Rightarrow> bool" where
  "match_ok s m \<longleftrightarrow> pm_start m < pm_end m \<and> pm_end m \<le> length s \<and> pm_value m = slice s (pm_start m) (pm_end m)"

lemma matches_of_ok: "min_len r > 0 \<Longrightarrow> m \<in> set (matches_of ty ok s r) \<Longrightarrow> match_ok s m"
  by (auto simp: matches_of_def find_all_def match_ok_def simp del: finditer.simps dest!: finditer_range)

lemma all_matches_ok: "m \<in> set (all_matches s) \<Longrightarrow> match_ok s m"
  using pattern_lengths matches_of_ok [where s = s]
  by (auto simp: all_matches_def list_all_iff)

lemma set_dedup: "set (dedup_spans seen ms) \<subseteq> set ms"
  by (induction seen ms rule: dedup_spans.induct) auto

lemma dedup_sorted: "sorted (map span ms) \<Longrightarrow> sorted (map span (dedup_spans seen ms))"
proof (induction seen ms rule: dedup_spans.induct)
  case (2 seen m ms)
  have "\<forall>x \<in> set (dedup_spans (span m # seen) ms). span m \<le> span x"
    using 2(3) set_dedup [of "span m # seen" ms] by auto
  with 2 show ?case by simp
qed simp

lemma dedup_distinct: "distinct (map span (dedup_spans seen ms)) \<and> (\<forall>m \<in> set (dedup_spans seen ms). span m \<notin> set seen)"
proof (induction seen ms rule: dedup_spans.induct)
  case (2 seen m ms)
  show ?case
  proof (cases "span m \<in> set seen")
    case True
    with 2(1) [OF True] show ?thesis by simp
  next
    case False
    with 2(2) [OF False] show ?thesis by (simp add: image_iff) metis
  qed
qed simp

lemma dedup_spans_all: "span ` set (dedup_spans seen ms) \<union> set seen = span ` set ms \<union> set seen"
  by (induction seen ms rule: dedup_spans.induct) (auto simp: insert_absorb)

text \<open>The matches reported are proper parts of the text, in order, no part twice.\<close>

lemma detect_pii_facts:
  "m \<in> set (detect_pii s) \<Longrightarrow> match_ok s m"
  "sorted (map span (detect_pii s))" "distinct (map span (detect_pii s))"
  "span ` set (detect_pii s) = span ` set (all_matches s)"
proof -
  let ?ms = "sort_key span (all_matches s)"
  show "m \<in> set (detect_pii s) \<Longrightarrow> match_ok s m"
    using set_dedup [of "[]" ?ms] all_matches_ok [of m s] by (auto simp: detect_pii_def)
  show "sorted (map span (detect_pii s))" unfolding detect_pii_def by (rule dedup_sorted) simp
  show "distinct (map span (detect_pii s))" unfolding detect_pii_def using dedup_distinct by blast
  show "span ` set (detect_pii s) = span ` set (all_matches s)"
    using dedup_spans_all [of "[]" ?ms] by (simp add: detect_pii_def)
qed

section \<open>Redaction of disjoint matches\<close>

fun disjoint_from :: "nat \<Rightarrow> pii_match list \<Rightarrow> bool" where
  "disjoint_from p [] = True"
| "disjoint_from p (m # ms) = (p \<le> pm_start m \<and> disjoint_from (pm_end m) ms)"

text \<open>The text from position \<open>p\<close> on, with the matches replaced.\<close>

fun weave :: "nat \<Rightarrow> string \<Rightarrow> pii_match list \<Rightarrow> string" where
  "weave p s [] = drop p s"
| "weave p s (m # ms) = slice s p (pm_start m) @ placeholder_for (pm_type m) @ weave (pm_end m) s ms"

lemma replace_after:
  "foldl replace_match s (rev ms) = take p s @ w \<Longrightarrow> p \<le> length s \<Longrightarrow> pm_end m = p \<Longrightarrow> pm_start m \<le> p \<Longrightarrow>
   foldl replace_match s (rev (m # ms)) = take (pm_start m) s @ placeholder_for (pm_type m) @ w"
  by (simp add: replace_match_def min_def)

lemma foldl_weave:
  assumes "\<forall>m \<in> set ms. match_ok s m" and "disjoint_from p ms" and "p \<le> length s"
  shows "foldl replace_match s (rev ms) = take p s @ weave p s ms"
  using assms
proof (induction ms arbitrary: p)
  case (Cons m ms)
  from Cons.prems have m: "pm_start m < pm_end m" "pm_end m \<le> length s" "p \<le> pm_start m"
    by (simp_all add: match_ok_def)
  have "foldl replace_match s (rev ms) = take (pm_end m) s @ weave (pm_end m) s ms"
    using Cons m by (intro Cons.IH) simp_all
  from replace_after [OF this m(2) refl less_imp_le [OF m(1)]] show ?case
    by (simp add: take_slice [OF m(3)])
qed simp

text \<open>
  C26. Redaction.  When no two detected parts of the text overlap, the redacted text is the text with every
  detected part replaced by the placeholder of its type and nothing else changed, for both functions, and
  the reported offsets are those of the original text.
\<close>

theorem redaction_exact:
  assumes "disjoint_from 0 (detect_pii s)"
  shows "redact s = weave 0 s (detect_pii s) \<and> rd_text (redact_with_info s) = redact s
     \<and> rd_had_pii (redact_with_info s) = (all_matches s \<noteq> [])
     \<and> map (\<lambda>i. (ri_start i, ri_end i)) (rd_redactions (redact_with_info s)) = map span (detect_pii s)
     \<and> (\<forall>m \<in> set (detect_pii s). match_ok s m)"
proof -
  have w: "foldl replace_match s (rev (detect_pii s)) = weave 0 s (detect_pii s)"
    using foldl_weave [of "detect_pii s" s 0] assms detect_pii_facts(1) by simp
  have "detect_pii s = [] \<longleftrightarrow> all_matches s = []"
    using detect_pii_facts(4) [of s] by (metis image_is_empty set_empty)
  with w detect_pii_facts(1) show ?thesis
    by (auto simp: redact_def redact_with_info_def Let_def span_def)
qed

lemma redaction_exact_witness: "redact ''a@b.c 078-05-1120.'' = ''[REDACTED_EMAIL] [REDACTED_SSN].''"
proof -
  have d: "map (\<lambda>m. (pm_type m, pm_start m, pm_end m)) (detect_pii ''a@b.c 078-05-1120.'') = [(Email, 0, 5), (UsSsn, 6, 17)]"
    by code_simp
  then obtain m1 m2 where "detect_pii ''a@b.c 078-05-1120.'' = [m1, m2]" "pm_type m1 = Email" "pm_start m1 = 0" "pm_end m1 = 5"
    "pm_type m2 = UsSsn" "pm_start m2 = 6" "pm_end m2 = 17"
    by auto
  with redaction_exact [of "''a@b.c 078-05-1120.''"] show ?thesis by (simp add: slice_def)
qed

text \<open>
  When a detected part lies inside another one, its placeholder shifts the offsets of the outer one, and
  the end of the outer part stays readable.
\<close>

lemma nested_match_leaks: "redact ''+123-45-6789 55'' = ''[REDACTED_PHONE] 55''"
  by code_simp

end
