(* ===== verification/Answer.thy ===== *)
theory Answer
  imports PyStr
begin

text \<open>
  The answer engine: \<open>backend/answer_engine/models.py\<close>, \<open>citations.py\<close>, \<open>provider.py\<close> and
  \<open>service.py\<close>.

  An asynchronous generator of the provider is the list of what it does next, each item with the time
  it takes; the language models behind it are parameters.  The stream of an answer is the list of its
  events, of which a consumer that stops early has seen a prefix.
\<close>

section \<open>Events\<close>

datatype answer_error_code =
  NO_SOURCES_AVAILABLE | STREAM_TIMEOUT | MODEL_ERROR | INTERNAL_ERROR | CLIENT_CANCELLED

record citation_event =
  ci_document_id :: string
  ci_version :: int
  ci_answer_start :: int
  ci_answer_end :: int
  ci_source_start :: int
  ci_source_end :: int

datatype answer_event =
    TokenEvent string nat
  | CitationEvent citation_event
  | DoneEvent string "citation_event list"
  | ErrorEvent answer_error_code string

record source_doc =
  so_document_id :: string
  so_version :: int
  so_url :: string
  so_title :: string
  so_score :: rat
  so_cleaned_text :: string

section \<open>Citation tracking\<close>

record citation_tracker =
  tk_set :: "(string \<times> int, source_doc) dict"
  tk_citations :: "citation_event list"
  tk_length :: int

datatype citation_error = CitationIntegrityError string int | CitationOffsetError string

definition source_key :: "source_doc \<Rightarrow> string \<times> int" where
  "source_key r = (so_document_id r, so_version r)"

definition from_results :: "source_doc list \<Rightarrow> citation_tracker" where
  "from_results rs =
     \<lparr>tk_set = foldl (\<lambda>d r. dict_set (source_key r) r d) [] rs, tk_citations = [], tk_length = 0\<rparr>"

definition validate_and_add_citation ::
    "citation_tracker \<Rightarrow> string \<Rightarrow> int \<Rightarrow> int \<Rightarrow> int \<Rightarrow> int \<Rightarrow> int
      \<Rightarrow> citation_error + citation_event \<times> citation_tracker" where
  "validate_and_add_citation tk document_id version answer_start answer_end source_start source_end =
     (case dict_get (tk_set tk) (document_id, version) of
        None \<Rightarrow> Inl (CitationIntegrityError document_id version)
      | Some result \<Rightarrow>
          let source_length = int (length (so_cleaned_text result)) in
          if answer_start < 0 then
            Inl (CitationOffsetError (''answer_start ('' @ str_int answer_start @ '') must be >= 0''))
          else if answer_end \<le> answer_start then
            Inl (CitationOffsetError (''answer_end ('' @ str_int answer_end @ '') must be > answer_start ('' @
                 str_int answer_start @ '')''))
          else if answer_end > tk_length tk then
            Inl (CitationOffsetError (''answer_end ('' @ str_int answer_end @ '') must be <= answer text length ('' @
                 str_int (tk_length tk) @ '')''))
          else if source_start < 0 then
            Inl (CitationOffsetError (''source_start ('' @ str_int source_start @ '') must be >= 0''))
          else if source_end \<le> source_start then
            Inl (CitationOffsetError (''source_end ('' @ str_int source_end @ '') must be > source_start ('' @
                 str_int source_start @ '')''))
          else if source_end > source_length then
            Inl (CitationOffsetError (''source_end ('' @ str_int source_end @ '') must be <= source text length ('' @
                 str_int source_length @ '')''))
          else
            let c = \<lparr>ci_document_id = document_id, ci_version = version, ci_answer_start = answer_start,
                     ci_answer_end = answer_end, ci_source_start = source_start, ci_source_end = source_end\<rparr>
            in Inr (c, tk\<lparr>tk_citations := tk_citations tk @ [c]\<rparr>))"

definition update_answer_length :: "citation_tracker \<Rightarrow> int \<Rightarrow> citation_tracker" where
  "update_answer_length tk n = tk\<lparr>tk_length := n\<rparr>"

section \<open>Detection of citations\<close>

definition already_cited :: "citation_tracker \<Rightarrow> string \<Rightarrow> int \<Rightarrow> int \<Rightarrow> bool" where
  "already_cited tk document_id answer_start answer_end =
     (\<exists>e \<in> set (tk_citations tk). ci_document_id e = document_id \<and> ci_answer_start e = answer_start
        \<and> ci_answer_end e = answer_end)"

definition find_citation_match ::
    "string \<Rightarrow> source_doc \<Rightarrow> citation_tracker \<Rightarrow> citation_event option \<times> citation_tracker" where
  "find_citation_match answer_text result tk =
     (if length answer_text < 10 then (None, tk)
      else
        let source_text = so_cleaned_text result in
        if source_text = [] then (None, tk)
        else
          let window_size = min 30 (length answer_text);
              recent_text = drop (length answer_text - window_size) answer_text
          in case find_from source_text recent_text 0 of
               None \<Rightarrow> (None, tk)
             | Some source_pos \<Rightarrow>
                 let answer_start = int (length answer_text) - int window_size;
                     answer_end = int (length answer_text);
                     source_start = int source_pos;
                     source_end = int source_pos + int window_size
                 in if answer_start < 0 \<or> answer_end > int (length answer_text) then (None, tk)
                    else if source_start < 0 \<or> source_end > int (length source_text) then (None, tk)
                    else if answer_start \<ge> answer_end \<or> source_start \<ge> source_end then (None, tk)
                    else if already_cited tk (so_document_id result) answer_start answer_end then (None, tk)
                    else (case validate_and_add_citation tk (so_document_id result) (so_version result)
                                 answer_start answer_end source_start source_end of
                            Inl _ \<Rightarrow> (None, tk)
                          | Inr (c, tk') \<Rightarrow> (Some c, tk')))"

fun detect_citations ::
    "string \<Rightarrow> source_doc list \<Rightarrow> citation_tracker \<Rightarrow> citation_event list \<times> citation_tracker" where
  "detect_citations answer_text [] tk = ([], tk)"
| "detect_citations answer_text (r # rs) tk =
     (let (c, tk1) = find_citation_match answer_text r tk;
          (cs, tk2) = detect_citations answer_text rs tk1
      in ((case c of None \<Rightarrow> cs | Some c \<Rightarrow> c # cs), tk2))"

section \<open>Providers\<close>

record generation_request =
  gr_query :: string
  gr_context_documents :: "(string \<times> string \<times> string) list"
  gr_system_prompt :: string
  gr_max_tokens :: int

text \<open>
  The next thing a provider does: yield a token, return, or raise; the number in front is the time it
  takes from the moment it is asked, or from the previous failed attempt.  The empty list returns at once.
\<close>

datatype provider_item =
  Yield string | Return | RaiseLLM string | RaiseTimeout | RaiseOther string

type_synonym token_stream = "(rat \<times> provider_item) list"
type_synonym provider = "generation_request \<Rightarrow> token_stream"

datatype stream_end = Exhausted | Silence | ProviderFailure string | Unexpected string

text \<open>\<open>_timeout_aiter\<close>: the tokens that arrive in time and how the iteration ends.\<close>

fun timeout_aiter :: "rat \<Rightarrow> token_stream \<Rightarrow> string list \<times> stream_end" where
  "timeout_aiter timeout [] = ([], if timeout \<le> 0 then Silence else Exhausted)"
| "timeout_aiter timeout ((d, item) # rest) =
     (if timeout \<le> d then ([], Silence)
      else case item of
        Yield token \<Rightarrow> (let (ts, e) = timeout_aiter timeout rest in (token # ts, e))
      | Return \<Rightarrow> ([], Exhausted)
      | RaiseLLM m \<Rightarrow> ([], ProviderFailure m)
      | RaiseTimeout \<Rightarrow> ([], Silence)
      | RaiseOther m \<Rightarrow> ([], Unexpected m))"

fun mock_stream_tokens :: "string list \<Rightarrow> rat \<Rightarrow> nat option \<Rightarrow> nat option \<Rightarrow> nat \<Rightarrow> token_stream" where
  "mock_stream_tokens [] delay fail_after hang_after yielded = []"
| "mock_stream_tokens (t # ts) delay fail_after hang_after yielded =
     (if (case fail_after of None \<Rightarrow> False | Some n \<Rightarrow> n \<le> yielded)
      then [(0, RaiseLLM ''Simulated model failure'')]
      else if (case hang_after of None \<Rightarrow> False | Some n \<Rightarrow> n \<le> yielded)
      then [(3600, Return)]
      else (if delay > 0 then delay else 0, Yield t)
           # mock_stream_tokens ts delay fail_after hang_after (Suc yielded))"

text \<open>
  The real providers.  The answer of the remote service to a call is a parameter: a chunk with the text
  of its first choice, if any, or an exception with its message, each with the time it took.  The
  package may be missing (\<open>None\<close>), or the key empty.
\<close>

record provider_config =
  pc_model :: string
  pc_temperature :: rat
  pc_max_tokens :: int

datatype chunk = Chunk "string option" | ApiFailure string

record llm_call =
  lc_model :: string
  lc_messages :: "(string \<times> string) list"
  lc_max_tokens :: int
  lc_temperature :: "rat option"
  lc_system :: "string option"

type_synonym llm_client = "llm_call \<Rightarrow> (rat \<times> chunk) list"

definition newline :: char where
  "newline = CHR 0x0A"

definition default_openai_config :: provider_config where
  "default_openai_config = \<lparr>pc_model = ''gpt-4o-mini'', pc_temperature = 0, pc_max_tokens = 4096\<rparr>"

definition default_anthropic_config :: provider_config where
  "default_anthropic_config =
     \<lparr>pc_model = ''claude-sonnet-4-20250514'', pc_temperature = 0, pc_max_tokens = 4096\<rparr>"

definition get_client :: "string \<Rightarrow> string \<Rightarrow> string \<Rightarrow> llm_client option \<Rightarrow> string + llm_client" where
  "get_client package key_name api_key installed =
     (case installed of
        None \<Rightarrow> Inl (package @ '' package not installed. Run: pip install '' @ package)
      | Some client \<Rightarrow>
          if api_key = [] then Inl (key_name @ '' environment variable not set'') else Inr client)"

definition user_content :: "generation_request \<Rightarrow> string" where
  "user_content rq =
     (if gr_context_documents rq = [] then gr_query rq
      else ''Context:'' @ [newline]
           @ join [newline, newline] (map (\<lambda>(i, t, x). ''[Source: '' @ i @ ''] '' @ t @ [newline] @ x) (gr_context_documents rq))
           @ [newline, newline] @ ''Question: '' @ gr_query rq)"

fun openai_chunks :: "rat \<Rightarrow> (rat \<times> chunk) list \<Rightarrow> token_stream" where
  "openai_chunks waited [] = [(waited, Return)]"
| "openai_chunks waited ((d, Chunk content) # rest) =
     (case content of
        Some t \<Rightarrow> if t = [] then openai_chunks (waited + d) rest
                  else (waited + d, Yield t) # openai_chunks 0 rest
      | None \<Rightarrow> openai_chunks (waited + d) rest)"
| "openai_chunks waited ((d, ApiFailure e) # rest) = [(waited + d, RaiseLLM (''OpenAI API error: '' @ e))]"

definition openai_stream_tokens :: "provider_config \<Rightarrow> string \<Rightarrow> llm_client option \<Rightarrow> provider" where
  "openai_stream_tokens config api_key installed rq =
     (case get_client ''openai'' ''OPENAI_API_KEY'' api_key installed of
        Inl e \<Rightarrow> [(0, RaiseLLM e)]
      | Inr client \<Rightarrow>
          openai_chunks 0 (client
            \<lparr>lc_model = pc_model config,
             lc_messages = (if gr_system_prompt rq = [] then [] else [(''system'', gr_system_prompt rq)])
                           @ [(''user'', user_content rq)],
             lc_max_tokens = (if gr_max_tokens rq = 0 then pc_max_tokens config else gr_max_tokens rq),
             lc_temperature = Some (pc_temperature config), lc_system = None\<rparr>))"

fun anthropic_chunks :: "rat \<Rightarrow> (rat \<times> chunk) list \<Rightarrow> token_stream" where
  "anthropic_chunks waited [] = [(waited, Return)]"
| "anthropic_chunks waited ((d, Chunk content) # rest) =
     (case content of
        Some t \<Rightarrow> (waited + d, Yield t) # anthropic_chunks 0 rest
      | None \<Rightarrow> anthropic_chunks (waited + d) rest)"
| "anthropic_chunks waited ((d, ApiFailure e) # rest) = [(waited + d, RaiseLLM (''Anthropic API error: '' @ e))]"

definition anthropic_stream_tokens :: "provider_config \<Rightarrow> string \<Rightarrow> llm_client option \<Rightarrow> provider" where
  "anthropic_stream_tokens config api_key installed rq =
     (case get_client ''anthropic'' ''ANTHROPIC_API_KEY'' api_key installed of
        Inl e \<Rightarrow> [(0, RaiseLLM e)]
      | Inr client \<Rightarrow>
          anthropic_chunks 0 (client
            \<lparr>lc_model = pc_model config, lc_messages = [(''user'', user_content rq)],
             lc_max_tokens = (if gr_max_tokens rq = 0 then pc_max_tokens config else gr_max_tokens rq),
             lc_temperature = None,
             lc_system = Some (if gr_system_prompt rq = [] then ''You are a research assistant.''
                               else gr_system_prompt rq)\<rparr>))"

section \<open>Generation\<close>

definition build_system_prompt :: "source_doc list \<Rightarrow> string" where
  "build_system_prompt rs =
     ''You are a research assistant. Answer the user's question based on ''
     @ ''the provided sources. Cite sources inline when making claims.'' @ [newline, newline]
     @ ''Sources:'' @ [newline]
     @ join [newline] (map (\<lambda>(i, r). ''['' @ str_nat i @ ''] '' @ so_title r @ '' ('' @ so_url r @ '')'' @ [newline]
                             @ ''    '' @ take 200 (so_cleaned_text r) @ ''...'')
                           (zip [1..<Suc (length rs)] rs))"

definition build_request :: "string \<Rightarrow> source_doc list \<Rightarrow> generation_request" where
  "build_request query rs =
     \<lparr>gr_query = query,
      gr_context_documents = map (\<lambda>r. (so_document_id r, so_title r, so_cleaned_text r)) rs,
      gr_system_prompt = build_system_prompt rs, gr_max_tokens = 4096\<rparr>"

record gen_state =
  gs_text :: string
  gs_index :: nat
  gs_citations :: "citation_event list"
  gs_tracker :: citation_tracker

definition start_state :: "source_doc list \<Rightarrow> gen_state" where
  "start_state rs = \<lparr>gs_text = [], gs_index = 0, gs_citations = [], gs_tracker = from_results rs\<rparr>"

text \<open>One round of the loop of \<open>generate_answer\<close>: the token event, then the citations it allows.\<close>

definition token_step :: "source_doc list \<Rightarrow> gen_state \<Rightarrow> string \<Rightarrow> answer_event list \<times> gen_state" where
  "token_step rs s token =
     (let text = gs_text s @ token;
          tk = update_answer_length (gs_tracker s) (int (length text));
          (cs, tk') = detect_citations text rs tk
      in (TokenEvent token (gs_index s) # map CitationEvent cs,
          \<lparr>gs_text = text, gs_index = Suc (gs_index s), gs_citations = gs_citations s @ cs, gs_tracker = tk'\<rparr>))"

fun run_tokens :: "source_doc list \<Rightarrow> gen_state \<Rightarrow> string list \<Rightarrow> answer_event list \<times> gen_state" where
  "run_tokens rs s [] = ([], s)"
| "run_tokens rs s (t # ts) =
     (let (es, s1) = token_step rs s t; (es', s2) = run_tokens rs s1 ts in (es @ es', s2))"

definition final_event :: "gen_state \<Rightarrow> stream_end \<Rightarrow> answer_event" where
  "final_event s e = (case e of
     Exhausted \<Rightarrow> DoneEvent (gs_text s) (gs_citations s)
   | Silence \<Rightarrow> ErrorEvent STREAM_TIMEOUT ''No tokens received for 30 seconds.''
   | ProviderFailure m \<Rightarrow> ErrorEvent MODEL_ERROR (''Model error: '' @ m)
   | Unexpected m \<Rightarrow> ErrorEvent INTERNAL_ERROR (''Internal error: '' @ m))"

definition generate_answer :: "provider \<Rightarrow> rat \<Rightarrow> string \<Rightarrow> source_doc list \<Rightarrow> answer_event list" where
  "generate_answer stream_tokens silence_timeout query rs =
     (if rs = [] then [ErrorEvent NO_SOURCES_AVAILABLE ''No sources available to generate an answer.'']
      else
        let (tokens, e) = timeout_aiter silence_timeout (stream_tokens (build_request query rs));
            (events, s) = run_tokens rs (start_state rs) tokens
        in events @ [final_event s e])"

section \<open>What a match is\<close>

definition window :: "string \<Rightarrow> nat" where
  "window text = min 30 (length text)"

definition recent :: "string \<Rightarrow> string" where
  "recent text = drop (length text - window text) text"

definition new_citation :: "string \<Rightarrow> source_doc \<Rightarrow> nat \<Rightarrow> citation_event" where
  "new_citation text r p =
     \<lparr>ci_document_id = so_document_id r, ci_version = so_version r,
      ci_answer_start = int (length text) - int (window text), ci_answer_end = int (length text),
      ci_source_start = int p, ci_source_end = int p + int (window text)\<rparr>"

lemma length_recent [simp]: "length (recent text) = window text"
  by (simp add: recent_def window_def)

lemma validate_cases:
  assumes "validate_and_add_citation tk d v a b p q = Inr (c, tk')"
  obtains r where "dict_get (tk_set tk) (d, v) = Some r"
    "0 \<le> a" "a < b" "b \<le> tk_length tk" "0 \<le> p" "p < q" "q \<le> int (length (so_cleaned_text r))"
    "c = \<lparr>ci_document_id = d, ci_version = v, ci_answer_start = a, ci_answer_end = b,
          ci_source_start = p, ci_source_end = q\<rparr>"
    "tk' = tk\<lparr>tk_citations := tk_citations tk @ [c]\<rparr>"
  using assms that
  by (auto simp: validate_and_add_citation_def Let_def split: option.splits if_splits)

lemma match_Some:
  assumes "find_citation_match text r tk = (Some c, tk')"
  obtains p where "10 \<le> length text" "find_from (so_cleaned_text r) (recent text) 0 = Some p"
    "c = new_citation text r p"
    "\<not> already_cited tk (ci_document_id c) (ci_answer_start c) (ci_answer_end c)"
    "tk' = tk\<lparr>tk_citations := tk_citations tk @ [c]\<rparr>"
proof -
  from assms have len: "10 \<le> length text"
    by (auto simp: find_citation_match_def split: if_splits)
  from assms len obtain p where p: "find_from (so_cleaned_text r) (recent text) 0 = Some p"
    by (auto simp: find_citation_match_def Let_def recent_def window_def split: if_splits option.splits)
  with assms len have fresh: "\<not> already_cited tk (so_document_id r)
      (int (length text) - int (window text)) (int (length text))"
    and v: "\<exists>tk''. validate_and_add_citation tk (so_document_id r) (so_version r)
      (int (length text) - int (window text)) (int (length text)) (int p) (int p + int (window text)) = Inr (c, tk'')
      \<and> tk' = tk''"
    by (auto simp: find_citation_match_def Let_def recent_def window_def split: if_splits sum.splits)
  from v have "c = new_citation text r p \<and> tk' = tk\<lparr>tk_citations := tk_citations tk @ [c]\<rparr>"
    by (auto elim!: validate_cases simp: new_citation_def)
  with fresh show ?thesis using that [OF len p] by (simp add: new_citation_def)
qed

lemma match_None: "find_citation_match text r tk = (None, tk') \<Longrightarrow> tk' = tk"
  by (auto simp: find_citation_match_def Let_def split: if_splits option.splits sum.splits)

text \<open>A window that occurs in the source is cited, unless its span already is.\<close>

lemma match_complete:
  assumes len: "10 \<le> length text" and p: "find_from (so_cleaned_text r) (recent text) 0 = Some p"
    and key: "dict_get (tk_set tk) (source_key r) = Some r" and l: "tk_length tk = int (length text)"
    and m: "find_citation_match text r tk = (oc, tk')"
  shows "already_cited tk' (so_document_id r) (int (length text) - int (window text)) (int (length text))"
proof (cases "already_cited tk (so_document_id r) (int (length text) - int (window text)) (int (length text))")
  case True
  have "tk_citations tk' = tk_citations tk \<or> (\<exists>c. tk_citations tk' = tk_citations tk @ [c])"
  proof (cases oc)
    case None
    with m match_None show ?thesis by blast
  next
    case (Some c)
    from m [unfolded Some] show ?thesis by (cases rule: match_Some) auto
  qed
  with True show ?thesis by (auto simp: already_cited_def)
next
  case False
  have w: "10 \<le> window text" "window text \<le> length text" using len by (auto simp: window_def)
  from find_from_bound [OF p] have b: "p + window text \<le> length (so_cleaned_text r)" by simp
  with w have ne: "so_cleaned_text r \<noteq> []" by auto
  have v: "validate_and_add_citation tk (so_document_id r) (so_version r)
      (int (length text) - int (window text)) (int (length text)) (int p) (int p + int (window text))
      = Inr (new_citation text r p, tk\<lparr>tk_citations := tk_citations tk @ [new_citation text r p]\<rparr>)"
    using key w b l by (auto simp: validate_and_add_citation_def source_key_def new_citation_def Let_def)
  have "find_citation_match text r tk
      = (Some (new_citation text r p), tk\<lparr>tk_citations := tk_citations tk @ [new_citation text r p]\<rparr>)"
    using len p ne w b False v
    by (simp add: find_citation_match_def Let_def flip: window_def recent_def)
  with m show ?thesis by (auto simp: already_cited_def new_citation_def)
qed

section \<open>The events seen so far\<close>

fun token_texts :: "answer_event list \<Rightarrow> string list" where
  "token_texts [] = []"
| "token_texts (TokenEvent t i # es) = t # token_texts es"
| "token_texts (_ # es) = token_texts es"

fun citations_of :: "answer_event list \<Rightarrow> citation_event list" where
  "citations_of [] = []"
| "citations_of (CitationEvent c # es) = c # citations_of es"
| "citations_of (_ # es) = citations_of es"

definition answer_so_far :: "answer_event list \<Rightarrow> string" where
  "answer_so_far es = concat (token_texts es)"

definition span_of :: "citation_event \<Rightarrow> string \<times> int \<times> int" where
  "span_of c = (ci_document_id c, ci_answer_start c, ci_answer_end c)"

text \<open>The cited part of the answer is the cited part of a retrieved document.\<close>

definition supported :: "source_doc list \<Rightarrow> string \<Rightarrow> citation_event \<Rightarrow> bool" where
  "supported rs answer c \<longleftrightarrow>
     (\<exists>r \<in> set rs. ci_document_id c = so_document_id r \<and> ci_version c = so_version r
        \<and> 0 \<le> ci_answer_start c \<and> ci_answer_start c < ci_answer_end c \<and> ci_answer_end c \<le> int (length answer)
        \<and> 0 \<le> ci_source_start c \<and> ci_source_start c < ci_source_end c
        \<and> ci_source_end c \<le> int (length (so_cleaned_text r))
        \<and> slice answer (nat (ci_answer_start c)) (nat (ci_answer_end c))
          = slice (so_cleaned_text r) (nat (ci_source_start c)) (nat (ci_source_end c)))"

definition event_ok :: "source_doc list \<Rightarrow> answer_event list \<Rightarrow> answer_event \<Rightarrow> bool" where
  "event_ok rs seen e = (case e of
     TokenEvent t i \<Rightarrow> i = length (token_texts seen)
   | CitationEvent c \<Rightarrow> supported rs (answer_so_far seen) c \<and> ci_answer_end c = int (length (answer_so_far seen))
       \<and> span_of c \<notin> span_of ` set (citations_of seen)
   | _ \<Rightarrow> False)"

fun events_ok :: "source_doc list \<Rightarrow> answer_event list \<Rightarrow> answer_event list \<Rightarrow> bool" where
  "events_ok rs seen [] \<longleftrightarrow> True"
| "events_ok rs seen (e # es) \<longleftrightarrow> event_ok rs seen e \<and> events_ok rs (seen @ [e]) es"

lemma token_texts_append [simp]: "token_texts (xs @ ys) = token_texts xs @ token_texts ys"
  by (induction xs rule: token_texts.induct) auto

lemma citations_of_append [simp]: "citations_of (xs @ ys) = citations_of xs @ citations_of ys"
  by (induction xs rule: citations_of.induct) auto

lemma token_texts_citations [simp]: "token_texts (map CitationEvent cs) = []"
  by (induction cs) auto

lemma citations_of_citations [simp]: "citations_of (map CitationEvent cs) = cs"
  by (induction cs) auto

lemma events_ok_append:
  "events_ok rs seen (xs @ ys) \<longleftrightarrow> events_ok rs seen xs \<and> events_ok rs (seen @ xs) ys"
  by (induction xs arbitrary: seen) auto

lemma events_ok_at: "events_ok rs [] (pre @ e # post) \<Longrightarrow> event_ok rs pre e"
  by (simp add: events_ok_append)

lemma events_ok_spans: "events_ok rs seen es \<Longrightarrow> distinct (map span_of (citations_of es))
    \<and> span_of ` set (citations_of es) \<inter> span_of ` set (citations_of seen) = {}"
proof (induction es arbitrary: seen)
  case Nil
  then show ?case by simp
next
  case (Cons e es)
  from Cons.prems have e: "event_ok rs seen e" and es: "events_ok rs (seen @ [e]) es" by simp_all
  from Cons.IH [OF es] e show ?case by (cases e) (auto simp: event_ok_def)
qed

lemma events_ok_no_end:
  "events_ok rs seen es \<Longrightarrow> e \<in> set es \<Longrightarrow> (\<exists>t i. e = TokenEvent t i) \<or> (\<exists>c. e = CitationEvent c)"
  by (induction es arbitrary: seen) (auto simp: event_ok_def split: answer_event.splits)

lemma window_recent: "slice text (length text - window text) (length text) = recent text"
  by (simp add: slice_def recent_def window_def)

lemma new_citation_supported:
  assumes len: "10 \<le> length text" and r: "r \<in> set rs"
    and p: "find_from (so_cleaned_text r) (recent text) 0 = Some p"
  shows "supported rs text (new_citation text r p)"
proof -
  have w: "10 \<le> window text" "window text \<le> length text" using len by (auto simp: window_def)
  from find_from_bound [OF p] have b: "p + window text \<le> length (so_cleaned_text r)" by simp
  from find_from_Some [OF p] have "slice (so_cleaned_text r) p (p + window text) = recent text"
    by (simp add: slice_def starts_with_def)
  then have "slice text (length text - window text) (length text)
      = slice (so_cleaned_text r) p (p + window text)"
    by (simp add: window_recent)
  moreover have "nat (int (length text) - int (window text)) = length text - window text"
    "nat (int p + int (window text)) = p + window text" using w by simp_all
  ultimately show ?thesis using r w b
    by (auto simp: supported_def new_citation_def intro!: bexI [of _ r])
qed

text \<open>One round of detection, with the citations known to the tracker before it.\<close>

lemma detect_ok:
  assumes "detect_citations text rs' tk = (cs, tk')" and "set rs' \<subseteq> set rs"
    and "answer_so_far seen = text" and "tk_citations tk = citations_of seen"
  shows "events_ok rs seen (map CitationEvent cs) \<and> tk' = tk\<lparr>tk_citations := citations_of seen @ cs\<rparr>"
  using assms
proof (induction "text" rs' tk arbitrary: seen cs tk' rule: detect_citations.induct)
  case (1 "text" tk)
  then show ?case by simp
next
  case (2 "text" r rs' tk)
  obtain oc tk1 where m: "find_citation_match text r tk = (oc, tk1)" by (cases "find_citation_match text r tk")
  obtain cs2 tk2 where d: "detect_citations text rs' tk1 = (cs2, tk2)" by (cases "detect_citations text rs' tk1")
  show ?case
  proof (cases oc)
    case None
    with m match_None have tk1: "tk1 = tk" by blast
    have "events_ok rs seen (map CitationEvent cs2) \<and> tk2 = tk1\<lparr>tk_citations := citations_of seen @ cs2\<rparr>"
      by (rule "2.IH" [OF m [symmetric] refl d]) (use "2.prems" tk1 in auto)
    with "2.prems"(1) m d None tk1 show ?thesis by simp
  next
    case (Some c)
    from m [unfolded Some] show ?thesis
    proof (cases rule: match_Some)
      case (1 p)
      have len: "answer_so_far (seen @ [CitationEvent c]) = text"
        using "2.prems"(3) by (simp add: answer_so_far_def)
      have ih: "events_ok rs (seen @ [CitationEvent c]) (map CitationEvent cs2)
          \<and> tk2 = tk1\<lparr>tk_citations := citations_of (seen @ [CitationEvent c]) @ cs2\<rparr>"
        by (rule "2.IH" [OF m [symmetric] refl d _ len]) (use "2.prems" 1 in auto)
      have "supported rs text c" using new_citation_supported [OF 1(1) _ 1(2)] "2.prems"(2) 1(3) by simp
      moreover have "ci_answer_end c = int (length text)" using 1(3) by (simp add: new_citation_def)
      moreover have "span_of c \<notin> span_of ` set (citations_of seen)"
        using 1(4) "2.prems"(4) by (auto simp: already_cited_def span_of_def)
      ultimately have "event_ok rs seen (CitationEvent c)" using "2.prems"(3) by (simp add: event_ok_def)
      moreover have "cs = c # cs2" "tk' = tk2" using "2.prems"(1) m d Some by simp_all
      ultimately show ?thesis using ih 1(5) by simp
    qed
  qed
qed

section \<open>The stream\<close>

text \<open>The state of the loop is a function of the events it has emitted.\<close>

definition reflects :: "source_doc list \<Rightarrow> answer_event list \<Rightarrow> gen_state \<Rightarrow> bool" where
  "reflects rs seen s \<longleftrightarrow> gs_text s = answer_so_far seen \<and> gs_index s = length (token_texts seen)
     \<and> gs_citations s = citations_of seen \<and> tk_citations (gs_tracker s) = citations_of seen
     \<and> tk_set (gs_tracker s) = tk_set (from_results rs)"

lemma reflects_start: "reflects rs [] (start_state rs)"
  by (simp add: reflects_def start_state_def answer_so_far_def from_results_def)

lemma token_step_ok:
  assumes "token_step rs s t = (es, s')" and "reflects rs seen s"
  shows "(\<exists>cs. es = TokenEvent t (length (token_texts seen)) # map CitationEvent cs)
    \<and> events_ok rs seen es \<and> reflects rs (seen @ es) s'"
proof -
  let ?text = "gs_text s @ t"
  let ?tk = "update_answer_length (gs_tracker s) (int (length ?text))"
  let ?e = "TokenEvent t (gs_index s)"
  obtain cs tk' where d: "detect_citations ?text rs ?tk = (cs, tk')" by (cases "detect_citations ?text rs ?tk")
  from assms d have es: "es = ?e # map CitationEvent cs"
    and s': "s' = \<lparr>gs_text = ?text, gs_index = Suc (gs_index s), gs_citations = gs_citations s @ cs, gs_tracker = tk'\<rparr>"
    by (auto simp: token_step_def Let_def)
  have "events_ok rs (seen @ [?e]) (map CitationEvent cs)
      \<and> tk' = ?tk\<lparr>tk_citations := citations_of (seen @ [?e]) @ cs\<rparr>"
    by (rule detect_ok [OF d subset_refl])
      (use assms(2) in \<open>auto simp: reflects_def answer_so_far_def update_answer_length_def\<close>)
  with assms(2) show ?thesis
    by (auto simp: es s' reflects_def event_ok_def answer_so_far_def update_answer_length_def)
qed

lemma run_tokens_ok:
  assumes "run_tokens rs s ts = (es, s')" and "reflects rs seen s"
  shows "events_ok rs seen es \<and> reflects rs (seen @ es) s' \<and> token_texts es = ts"
  using assms
proof (induction ts arbitrary: seen s es s')
  case Nil
  then show ?case by simp
next
  case (Cons t ts)
  obtain es1 s1 where st: "token_step rs s t = (es1, s1)" by (cases "token_step rs s t")
  obtain es2 s2 where rt: "run_tokens rs s1 ts = (es2, s2)" by (cases "run_tokens rs s1 ts")
  from token_step_ok [OF st Cons.prems(2)] have 1: "events_ok rs seen es1" "reflects rs (seen @ es1) s1"
    "token_texts es1 = [t]" by auto
  from Cons.IH [OF rt 1(2)] Cons.prems(1) 1 st rt show ?case by (auto simp: events_ok_append)
qed

lemma generate_cases:
  assumes "rs \<noteq> []"
  obtains body s e where
    "generate_answer p timeout q rs = body @ [final_event s e]"
    "run_tokens rs (start_state rs) (fst (timeout_aiter timeout (p (build_request q rs)))) = (body, s)"
    "e = snd (timeout_aiter timeout (p (build_request q rs)))"
    "events_ok rs [] body" "reflects rs body s"
    "token_texts body = fst (timeout_aiter timeout (p (build_request q rs)))"
proof -
  let ?ts = "fst (timeout_aiter timeout (p (build_request q rs)))"
  let ?e = "snd (timeout_aiter timeout (p (build_request q rs)))"
  obtain body s where r: "run_tokens rs (start_state rs) ?ts = (body, s)"
    by (cases "run_tokens rs (start_state rs) ?ts")
  have "generate_answer p timeout q rs = body @ [final_event s ?e]"
    using assms r by (simp add: generate_answer_def Let_def case_prod_beta)
  with r run_tokens_ok [OF r reflects_start] show ?thesis using that by simp
qed

lemma final_event_neq [simp]:
  "final_event s e \<noteq> TokenEvent t i" "final_event s e \<noteq> CitationEvent c"
  by (cases e; simp add: final_event_def)+

lemma snoc_split:
  "body @ [z] = pre @ e # post \<Longrightarrow> e \<noteq> z \<Longrightarrow> \<exists>post'. body = pre @ e # post' \<and> post = post' @ [z]"
  by (cases post rule: rev_cases) auto

lemma generated_event_ok:
  assumes "generate_answer p timeout q rs = pre @ e # post"
    and "(\<exists>t i. e = TokenEvent t i) \<or> (\<exists>c. e = CitationEvent c)"
  shows "event_ok rs pre e"
proof -
  have "rs \<noteq> []" using assms by (auto simp: generate_answer_def append_eq_Cons_conv Cons_eq_append_conv)
  then show ?thesis
  proof (cases rule: generate_cases [where p = p and timeout = timeout and q = q])
    case (1 body s e')
    with assms have eq: "body @ [final_event s e'] = pre @ e # post" by metis
    have "e \<noteq> final_event s e'" using assms(2) final_event_neq by metis
    from snoc_split [OF eq this] 1(4) show ?thesis by (auto intro: events_ok_at)
  qed
qed

section \<open>Results\<close>

text \<open>
  C8. The stream of an answer: without sources it is the one error event.  Otherwise it holds one token
  event per token that arrived within the silence timeout, numbered from 0, no two citations of one
  document and span, and exactly one terminal event, the last: \<open>done\<close> with the whole text and exactly
  the citations emitted if the provider ran to its end, the error of its failure otherwise.
\<close>

theorem answer_stream:
  "(rs = [] \<and> generate_answer p timeout q rs
      = [ErrorEvent NO_SOURCES_AVAILABLE ''No sources available to generate an answer.''])
   \<or> (rs \<noteq> [] \<and> (\<exists>body tokens e. timeout_aiter timeout (p (build_request q rs)) = (tokens, e)
      \<and> generate_answer p timeout q rs = body @ [case e of
          Exhausted \<Rightarrow> DoneEvent (concat tokens) (citations_of body)
        | Silence \<Rightarrow> ErrorEvent STREAM_TIMEOUT ''No tokens received for 30 seconds.''
        | ProviderFailure m \<Rightarrow> ErrorEvent MODEL_ERROR (''Model error: '' @ m)
        | Unexpected m \<Rightarrow> ErrorEvent INTERNAL_ERROR (''Internal error: '' @ m)]
      \<and> filter (\<lambda>x. \<nexists>c. x = CitationEvent c) body
        = map (\<lambda>i. TokenEvent (tokens ! i) i) [0..<length tokens]
      \<and> distinct (map span_of (citations_of body))))"
proof (cases "rs = []")
  case True
  then show ?thesis by (simp add: generate_answer_def)
next
  case False
  have numbered: "events_ok rs seen es \<Longrightarrow> filter (\<lambda>x. \<nexists>c. x = CitationEvent c) es
      = map (\<lambda>i. TokenEvent (token_texts es ! i) (length (token_texts seen) + i)) [0..<length (token_texts es)]"
    for seen es
  proof (induction es arbitrary: seen)
    case Nil
    then show ?case by simp
  next
    case (Cons e es)
    from Cons.prems have e: "event_ok rs seen e" and es: "events_ok rs (seen @ [e]) es" by simp_all
    from Cons.IH [OF es] e show ?case
      by (cases e) (auto simp: event_ok_def upt_conv_Cons simp del: upt_Suc
        simp flip: map_Suc_upt intro!: map_cong)
  qed
  from False show ?thesis
  proof (cases rule: generate_cases [where p = p and timeout = timeout and q = q])
    case (1 body s e)
    have last: "final_event s e = (case e of
          Exhausted \<Rightarrow> DoneEvent (concat (token_texts body)) (citations_of body)
        | Silence \<Rightarrow> ErrorEvent STREAM_TIMEOUT ''No tokens received for 30 seconds.''
        | ProviderFailure m \<Rightarrow> ErrorEvent MODEL_ERROR (''Model error: '' @ m)
        | Unexpected m \<Rightarrow> ErrorEvent INTERNAL_ERROR (''Internal error: '' @ m))"
      using 1(5) by (cases e) (simp_all add: final_event_def reflects_def answer_so_far_def)
    have "timeout_aiter timeout (p (build_request q rs)) = (token_texts body, e)"
      using 1(3,6) by simp
    moreover have "distinct (map span_of (citations_of body))" using events_ok_spans [OF 1(4)] by simp
    ultimately show ?thesis using False numbered [OF 1(4)] 1(1) last by auto
  qed
qed

text \<open>
  C9. Citations can be checked: wherever a citation occurs in a stream, it names a retrieved document
  and version, its answer span is a non-empty range that ends exactly at the end of the answer so far,
  its source span is a non-empty range of that document's text, the two ranges hold the same
  characters, and no earlier citation of the stream has the same document and answer span.
\<close>

theorem citation_integrity:
  assumes "generate_answer p timeout q rs = pre @ CitationEvent c # post"
  shows "\<exists>r \<in> set rs. ci_document_id c = so_document_id r \<and> ci_version c = so_version r
    \<and> 0 \<le> ci_answer_start c \<and> ci_answer_start c < ci_answer_end c
    \<and> ci_answer_end c = int (length (answer_so_far pre))
    \<and> 0 \<le> ci_source_start c \<and> ci_source_start c < ci_source_end c
    \<and> ci_source_end c \<le> int (length (so_cleaned_text r))
    \<and> slice (answer_so_far pre) (nat (ci_answer_start c)) (nat (ci_answer_end c))
      = slice (so_cleaned_text r) (nat (ci_source_start c)) (nat (ci_source_end c))
    \<and> span_of c \<notin> span_of ` set (citations_of pre)"
proof -
  from generated_event_ok [OF assms] have "supported rs (answer_so_far pre) c"
    "ci_answer_end c = int (length (answer_so_far pre))" "span_of c \<notin> span_of ` set (citations_of pre)"
    by (simp_all add: event_ok_def)
  then show ?thesis by (auto simp: supported_def)
qed

definition sample_doc :: source_doc where
  "sample_doc = \<lparr>so_document_id = ''d'', so_version = 1, so_url = ''u'', so_title = ''t'', so_score = 1,
                 so_cleaned_text = ''so it is 42 now''\<rparr>"

definition sample_provider :: provider where
  "sample_provider rq = mock_stream_tokens [''it is'', '' 42 now''] 0 None None 0"

definition sample_citation :: citation_event where
  "sample_citation = \<lparr>ci_document_id = ''d'', ci_version = 1, ci_answer_start = 0, ci_answer_end = 12,
                      ci_source_start = 3, ci_source_end = 15\<rparr>"

lemma sample_stream:
  "generate_answer sample_provider 30 ''q'' [sample_doc]
     = [TokenEvent ''it is'' 0, TokenEvent '' 42 now'' 1, CitationEvent sample_citation,
        DoneEvent ''it is 42 now'' [sample_citation]]"
  by code_simp

lemma citation_integrity_witness:
  "slice (answer_so_far [TokenEvent ''it is'' 0, TokenEvent '' 42 now'' 1]) 0 12 = slice ''so it is 42 now'' 3 15"
  using citation_integrity [where p = sample_provider and timeout = 30 and q = "''q''" and rs = "[sample_doc]"
      and pre = "[TokenEvent ''it is'' 0, TokenEvent '' 42 now'' 1]" and c = sample_citation
      and post = "[DoneEvent ''it is 42 now'' [sample_citation]]"]
  by (simp add: sample_stream) (simp add: sample_citation_def sample_doc_def)

section \<open>Every supported span is cited\<close>

lemma dict_get_foldl_other:
  "k \<notin> f ` set rs \<Longrightarrow> dict_get (foldl (\<lambda>d r. dict_set (f r) r d) d rs) k = dict_get d k"
  by (induction rs arbitrary: d) auto

lemma dict_get_foldl:
  "distinct (map f rs) \<Longrightarrow> r \<in> set rs \<Longrightarrow> dict_get (foldl (\<lambda>d r. dict_set (f r) r d) d rs) (f r) = Some r"
  by (induction rs arbitrary: d) (auto simp: dict_get_foldl_other)

lemma from_results_get:
  "distinct (map source_key rs) \<Longrightarrow> r \<in> set rs \<Longrightarrow> dict_get (tk_set (from_results rs)) (source_key r) = Some r"
  by (simp add: from_results_def dict_get_foldl)

lemma match_tracker:
  assumes "find_citation_match text r tk = (oc, tk')"
  shows "tk_set tk' = tk_set tk \<and> tk_length tk' = tk_length tk
    \<and> set (tk_citations tk) \<subseteq> set (tk_citations tk')"
proof (cases oc)
  case None
  with assms match_None show ?thesis by blast
next
  case (Some c)
  from assms [unfolded Some] show ?thesis by (cases rule: match_Some) auto
qed

lemma detect_complete:
  assumes "detect_citations text rs' tk = (cs, tk')" and "r \<in> set rs'"
    and "10 \<le> length text" and "find_from (so_cleaned_text r) (recent text) 0 \<noteq> None"
    and "dict_get (tk_set tk) (source_key r) = Some r" and "tk_length tk = int (length text)"
  shows "already_cited tk' (so_document_id r) (int (length text) - int (window text)) (int (length text))"
  using assms
proof (induction "text" rs' tk arbitrary: cs tk' rule: detect_citations.induct)
  case (1 "text" tk)
  then show ?case by simp
next
  case (2 "text" x rs' tk)
  obtain oc tk1 where m: "find_citation_match text x tk = (oc, tk1)" by (cases "find_citation_match text x tk")
  obtain cs2 tk2 where d: "detect_citations text rs' tk1 = (cs2, tk2)" by (cases "detect_citations text rs' tk1")
  have keep: "set (tk_citations tk1) \<subseteq> set (tk_citations tk2)"
    using d
  proof (induction rs' arbitrary: tk1 cs2 tk2)
    case Nil
    then show ?case by simp
  next
    case (Cons y ys)
    obtain oy t1 where my: "find_citation_match text y tk1 = (oy, t1)" by (cases "find_citation_match text y tk1")
    obtain cy t2 where dy: "detect_citations text ys t1 = (cy, t2)" by (cases "detect_citations text ys t1")
    from Cons.IH [OF dy] match_tracker [OF my] Cons.prems my dy show ?case by auto
  qed
  have tk': "tk' = tk2" using "2.prems"(1) m d by simp
  show ?case
  proof (cases "x = r")
    case True
    from "2.prems"(4) obtain p where p: "find_from (so_cleaned_text r) (recent text) 0 = Some p" by auto
    from match_complete [OF "2.prems"(3) p "2.prems"(5,6) m [unfolded True]] keep show ?thesis
      by (auto simp: tk' already_cited_def)
  next
    case False
    have "already_cited tk2 (so_document_id r) (int (length text) - int (window text)) (int (length text))"
      by (rule "2.IH" [OF m [symmetric] refl d]) (use "2.prems" False match_tracker [OF m] in auto)
    then show ?thesis by (simp add: tk')
  qed
qed

definition is_citation :: "answer_event \<Rightarrow> bool" where
  "is_citation e = (case e of CitationEvent _ \<Rightarrow> True | _ \<Rightarrow> False)"

lemma is_citation_simps [simp]: "is_citation (CitationEvent c)" "\<not> is_citation (TokenEvent t i)"
  "\<not> is_citation (final_event s e)"
  by (cases e; simp add: is_citation_def final_event_def)+

lemma block_split:
  assumes "TokenEvent x k # map CitationEvent cs @ rest = pre @ TokenEvent t i # post"
  shows "(pre = [] \<and> t = x \<and> i = k \<and> post = map CitationEvent cs @ rest)
    \<or> (\<exists>pre'. pre = TokenEvent x k # map CitationEvent cs @ pre' \<and> rest = pre' @ TokenEvent t i # post)"
proof (cases pre)
  case Nil
  with assms show ?thesis by simp
next
  case (Cons e pre1)
  with assms have "map CitationEvent cs @ rest = pre1 @ TokenEvent t i # post" by simp
  then have "\<exists>pre'. pre1 = map CitationEvent cs @ pre' \<and> rest = pre' @ TokenEvent t i # post"
  proof (induction cs arbitrary: pre1)
    case Nil
    then show ?case by simp
  next
    case (Cons c cs)
    then show ?case by (cases pre1) auto
  qed
  with Cons assms show ?thesis by auto
qed

lemma already_cited_span:
  "already_cited tk d a b \<longleftrightarrow> (\<exists>c \<in> set (tk_citations tk). span_of c = (d, a, b))"
  by (auto simp: already_cited_def span_of_def)

lemma token_step_complete:
  assumes st: "token_step rs s t = (es, s')" and ref: "reflects rs seen s"
    and keys: "distinct (map source_key rs)" and r: "r \<in> set rs"
    and t: "answer = answer_so_far seen @ t" and len: "10 \<le> length answer"
    and occ: "find_from (so_cleaned_text r) (recent answer) 0 \<noteq> None"
  shows "\<exists>c \<in> set (citations_of (seen @ es)).
    span_of c = (so_document_id r, int (length answer) - int (window answer), int (length answer))"
proof -
  let ?tk = "update_answer_length (gs_tracker s) (int (length answer))"
  have gs: "gs_text s @ t = answer" using ref t by (simp add: reflects_def)
  obtain cs tk' where d: "detect_citations answer rs ?tk = (cs, tk')" by (cases "detect_citations answer rs ?tk")
  have "already_cited tk' (so_document_id r) (int (length answer) - int (window answer)) (int (length answer))"
    by (rule detect_complete [OF d r len occ])
      (use ref from_results_get [OF keys r] in \<open>simp_all add: reflects_def update_answer_length_def\<close>)
  moreover have "gs_tracker s' = tk'" using st d by (auto simp: token_step_def Let_def gs)
  moreover have "tk_citations (gs_tracker s') = citations_of (seen @ es)"
    using token_step_ok [OF st ref] by (simp add: reflects_def)
  ultimately show ?thesis by (simp only: already_cited_span)
qed

lemma run_tokens_head:
  "run_tokens rs s ts = (es, s') \<Longrightarrow> takeWhile is_citation (es @ [final_event s'' e]) = []"
  by (cases ts) (auto simp: token_step_def Let_def split: prod.splits)

lemma run_tokens_complete:
  assumes "run_tokens rs s ts = (es, s')" and "reflects rs seen s"
    and "es @ [final_event s'' e] = pre @ TokenEvent t i # post" and "answer = answer_so_far (seen @ pre) @ t"
    and keys: "distinct (map source_key rs)" "r \<in> set rs" and "10 \<le> length answer"
    and "find_from (so_cleaned_text r) (recent answer) 0 \<noteq> None"
  shows "\<exists>c \<in> set (citations_of (seen @ pre @ takeWhile is_citation post)).
    span_of c = (so_document_id r, int (length answer) - int (window answer), int (length answer))"
  using assms
proof (induction ts arbitrary: seen s es s' pre)
  case Nil
  then show ?case by (auto simp: append_eq_Cons_conv Cons_eq_append_conv)
next
  case (Cons x ts)
  obtain es1 s1 where st: "token_step rs s x = (es1, s1)" by (cases "token_step rs s x")
  obtain es2 s2 where rt: "run_tokens rs s1 ts = (es2, s2)" by (cases "run_tokens rs s1 ts")
  from token_step_ok [OF st Cons.prems(2)] obtain cs where
    es1: "es1 = TokenEvent x (length (token_texts seen)) # map CitationEvent cs"
    and ref: "reflects rs (seen @ es1) s1" by blast
  have es: "es = es1 @ es2" using Cons.prems(1) st rt by simp
  have "TokenEvent x (length (token_texts seen)) # map CitationEvent cs @ (es2 @ [final_event s'' e])
      = pre @ TokenEvent t i # post"
    using Cons.prems(3) es es1 by simp
  from block_split [OF this] show ?case
  proof (elim disjE conjE exE)
    assume *: "pre = []" "t = x" "post = map CitationEvent cs @ es2 @ [final_event s'' e]"
    have "takeWhile is_citation post = map CitationEvent cs"
      using run_tokens_head [OF rt, of s'' e] * by (simp add: takeWhile_append)
    moreover have "\<exists>c \<in> set (citations_of (seen @ es1)).
        span_of c = (so_document_id r, int (length answer) - int (window answer), int (length answer))"
      by (rule token_step_complete [OF st Cons.prems(2) keys]) (use Cons.prems * in simp_all)
    ultimately show ?thesis by (simp add: * es1)
  next
    fix pre' assume *: "pre = TokenEvent x (length (token_texts seen)) # map CitationEvent cs @ pre'"
      "es2 @ [final_event s'' e] = pre' @ TokenEvent t i # post"
    have "\<exists>c \<in> set (citations_of ((seen @ es1) @ pre' @ takeWhile is_citation post)).
        span_of c = (so_document_id r, int (length answer) - int (window answer), int (length answer))"
      by (rule Cons.IH [OF rt ref *(2)]) (use Cons.prems * es1 in simp_all)
    then show ?thesis by (simp add: * es1)
  qed
qed

text \<open>
  Supported spans are cited at once: if the last characters of the answer after a token (the last
  30, at least 10) occur in the text of a retrieved document, the document is cited for that span by
  the citations that directly follow the token, or was by an earlier one.  The retrieved documents are
  distinct as document and version.
\<close>

theorem supported_spans_cited:
  assumes "generate_answer p timeout q rs = pre @ TokenEvent t i # post"
    and "distinct (map source_key rs)" and "r \<in> set rs"
    and "answer = answer_so_far pre @ t" and "10 \<le> length answer"
    and "contains (so_cleaned_text r) (drop (length answer - 30) answer)"
  shows "\<exists>c \<in> set (citations_of pre) \<union> set (citations_of (takeWhile is_citation post)).
    ci_document_id c = so_document_id r \<and> ci_answer_start c = int (length answer) - min 30 (int (length answer))
    \<and> ci_answer_end c = int (length answer)"
proof -
  have rs: "rs \<noteq> []" using assms(3) by auto
  have "recent answer = drop (length answer - 30) answer" by (simp add: recent_def window_def min_def)
  with assms(6) have occ: "find_from (so_cleaned_text r) (recent answer) 0 \<noteq> None" by (simp add: contains_def)
  have w: "int (window answer) = min 30 (int (length answer))" by (simp add: window_def)
  from rs show ?thesis
  proof (cases rule: generate_cases [where p = p and timeout = timeout and q = q])
    case (1 body s e)
    have "\<exists>c \<in> set (citations_of ([] @ pre @ takeWhile is_citation post)).
        span_of c = (so_document_id r, int (length answer) - int (window answer), int (length answer))"
      by (rule run_tokens_complete [OF 1(2) reflects_start _ _ assms(2,3,5) occ, where e = e and s'' = s])
        (use assms(1,4) 1(1) in simp_all)
    then show ?thesis by (auto simp: span_of_def w)
  qed
qed

lemma supported_spans_cited_witness:
  "\<exists>c \<in> set [sample_citation]. ci_document_id c = ''d'' \<and> ci_answer_start c = 0 \<and> ci_answer_end c = 12"
proof -
  have 1: "generate_answer sample_provider 30 ''q'' [sample_doc] = [TokenEvent ''it is'' 0]
      @ TokenEvent '' 42 now'' 1 # [CitationEvent sample_citation, DoneEvent ''it is 42 now'' [sample_citation]]"
    by (simp add: sample_stream)
  have 2: "''it is 42 now'' = answer_so_far [TokenEvent ''it is'' 0] @ '' 42 now''" by code_simp
  have 3: "contains (so_cleaned_text sample_doc) (drop (length ''it is 42 now'' - 30) ''it is 42 now'')"
    by code_simp
  have 4: "citations_of [TokenEvent ''it is'' 0] = []"
    "citations_of (takeWhile is_citation [CitationEvent sample_citation, DoneEvent ''it is 42 now'' [sample_citation]])
      = [sample_citation]" by (simp_all add: is_citation_def)
  show ?thesis
    using supported_spans_cited [OF 1 _ _ 2 _ 3] by (simp add: 4) (simp add: sample_doc_def is_citation_def)
qed

section \<open>Failures of the remote providers\<close>

lemma openai_chunks_end: "snd (timeout_aiter timeout (openai_chunks w xs)) \<noteq> Unexpected m"
  by (induction w xs rule: openai_chunks.induct) (auto split: option.splits prod.splits)

lemma anthropic_chunks_end: "snd (timeout_aiter timeout (anthropic_chunks w xs)) \<noteq> Unexpected m"
  by (induction w xs rule: anthropic_chunks.induct) (auto split: option.splits prod.splits)

lemma remote_end:
  "snd (timeout_aiter timeout (openai_stream_tokens config key inst rq)) \<noteq> Unexpected m"
  "snd (timeout_aiter timeout (anthropic_stream_tokens config key inst rq)) \<noteq> Unexpected m"
  by (auto simp: openai_stream_tokens_def anthropic_stream_tokens_def openai_chunks_end anthropic_chunks_end
      split: sum.splits)

lemma internal_error_origin:
  assumes "ErrorEvent INTERNAL_ERROR m \<in> set (generate_answer p timeout q rs)"
  shows "\<exists>m'. snd (timeout_aiter timeout (p (build_request q rs))) = Unexpected m'"
proof -
  have "rs \<noteq> []" using assms by (auto simp: generate_answer_def)
  then show ?thesis
  proof (cases rule: generate_cases [where p = p and timeout = timeout and q = q])
    case (1 body s e)
    from events_ok_no_end [OF 1(4)] assms 1(1) have "final_event s e = ErrorEvent INTERNAL_ERROR m" by fastforce
    with 1(3) show ?thesis by (auto simp: final_event_def split: stream_end.splits)
  qed
qed

text \<open>
  Failures of the remote services surface as model errors: with either provider a stream never holds
  an internal error, whatever the service does, and with sources but without a key it is the one
  \<open>model_error\<close> that names the missing variable.
\<close>

theorem remote_failures_are_model_errors:
  "\<not> (\<exists>m. ErrorEvent INTERNAL_ERROR m \<in> set (generate_answer (openai_stream_tokens config key inst) timeout q rs)
      \<union> set (generate_answer (anthropic_stream_tokens config key inst) timeout q rs))
   \<and> generate_answer (openai_stream_tokens config [] (Some client)) 30 q (r # rs)
     = [ErrorEvent MODEL_ERROR ''Model error: OPENAI_API_KEY environment variable not set'']
   \<and> generate_answer (anthropic_stream_tokens config [] (Some client)) 30 q (r # rs)
     = [ErrorEvent MODEL_ERROR ''Model error: ANTHROPIC_API_KEY environment variable not set'']"
proof (intro conjI)
  show "\<not> (\<exists>m. ErrorEvent INTERNAL_ERROR m \<in> set (generate_answer (openai_stream_tokens config key inst) timeout q rs)
      \<union> set (generate_answer (anthropic_stream_tokens config key inst) timeout q rs))"
    using internal_error_origin remote_end by fastforce
qed (simp_all add: generate_answer_def openai_stream_tokens_def anthropic_stream_tokens_def
      get_client_def final_event_def)

end
