(* ===== verification/Highlights.thy ===== *)
theory Highlights
  imports PyStr "HOL-Library.Product_Lexorder" "HOL-Library.While_Combinator"
begin

text \<open>
  Highlights and summaries of documents: \<open>backend/answer_engine/highlights.py\<close> and \<open>summaries.py\<close>.

  The scanning loops are \<open>while_option\<close>, whose value is \<open>None\<close> if they do not end; that the functions
  return is a theorem.  Positions are natural numbers inside the functions, integers in the spans.
\<close>

section \<open>Highlights\<close>

record highlight_span =
  hs_start :: int
  hs_end :: int

definition max_highlights :: int where
  "max_highlights = 5"

definition tokenize_query :: "string \<Rightarrow> string list" where
  "tokenize_query query = filter (\<lambda>t. 2 \<le> length t) (split_ws (py_strip query))"

text \<open>The loop over the occurrences of one term: the next start, the matches, and whether it broke off.\<close>

type_synonym scan = "nat \<times> (nat \<times> nat) list \<times> bool"

definition scan_step :: "string \<Rightarrow> string \<Rightarrow> string \<Rightarrow> scan \<Rightarrow> scan" where
  "scan_step cleaned_text text_lower t = (\<lambda>(start, ms, _).
     case find_from text_lower (py_lower t) start of
       None \<Rightarrow> (start, ms, True)
     | Some pos \<Rightarrow>
         let e = pos + length t
         in (pos + 1, if pos < e \<and> e \<le> length cleaned_text then ms @ [(pos, e)] else ms, False))"

definition find_matches :: "string \<Rightarrow> string \<Rightarrow> (nat \<times> nat) list \<Rightarrow> string \<Rightarrow> (nat \<times> nat) list option" where
  "find_matches cleaned_text text_lower ms t =
     map_option (\<lambda>(_, ms, _). ms)
       (while_option (\<lambda>(start, _, broke). \<not> broke \<and> start < length text_lower)
          (scan_step cleaned_text text_lower t) (0, ms, False))"

fun find_all_matches ::
    "string \<Rightarrow> string \<Rightarrow> (nat \<times> nat) list \<Rightarrow> string list \<Rightarrow> (nat \<times> nat) list option" where
  "find_all_matches cleaned_text text_lower ms [] = Some ms"
| "find_all_matches cleaned_text text_lower ms (t # ts) =
     Option.bind (find_matches cleaned_text text_lower ms t)
       (\<lambda>ms'. find_all_matches cleaned_text text_lower ms' ts)"

fun merge_from :: "nat \<times> nat \<Rightarrow> (nat \<times> nat) list \<Rightarrow> (nat \<times> nat) list" where
  "merge_from prev [] = [prev]"
| "merge_from (prev_start, prev_end) ((s, e) # rest) =
     (if s \<le> prev_end then merge_from (prev_start, max prev_end e) rest
      else (prev_start, prev_end) # merge_from (s, e) rest)"

definition merge_overlapping :: "(nat \<times> nat) list \<Rightarrow> (nat \<times> nat) list" where
  "merge_overlapping spans = (case spans of [] \<Rightarrow> [] | p # rest \<Rightarrow> merge_from p rest)"

definition word_gap :: "char \<Rightarrow> bool" where
  "word_gap c \<longleftrightarrow> c = CHR '' '' \<or> c = CHR 0x0A \<or> c = CHR 0x09"

definition back_to_gap :: "string \<Rightarrow> nat \<Rightarrow> nat option" where
  "back_to_gap txt i = while_option (\<lambda>i. 0 < i \<and> \<not> word_gap (txt ! i)) (\<lambda>i. i - 1) i"

definition on_to_gap :: "string \<Rightarrow> nat \<Rightarrow> nat option" where
  "on_to_gap txt i = while_option (\<lambda>i. i < length txt \<and> \<not> word_gap (txt ! i)) Suc i"

definition expand_span :: "string \<Rightarrow> nat \<Rightarrow> nat \<times> nat \<Rightarrow> (nat \<times> nat) list option" where
  "expand_span txt context_chars = (\<lambda>(s, e).
     Option.bind (back_to_gap txt (s - context_chars)) (\<lambda>b.
     Option.bind (on_to_gap txt (min (length txt) (e + context_chars))) (\<lambda>f.
       let new_start = (if 0 < b then b + 1 else b);
           new_end = min f (length txt)
       in Some (if new_start < new_end then [(new_start, new_end)] else []))))"

fun expand_to_context :: "string \<Rightarrow> nat \<Rightarrow> (nat \<times> nat) list \<Rightarrow> (nat \<times> nat) list option" where
  "expand_to_context txt context_chars [] = Some []"
| "expand_to_context txt context_chars (p # ps) =
     Option.bind (expand_span txt context_chars p) (\<lambda>x.
       map_option ((@) x) (expand_to_context txt context_chars ps))"

definition span_within :: "string \<Rightarrow> nat \<times> nat \<Rightarrow> highlight_span list" where
  "span_within cleaned_text = (\<lambda>(s, e).
     let e' = min e (length cleaned_text)
     in if s < e' then [\<lparr>hs_start = int s, hs_end = int e'\<rparr>] else [])"

definition fallback_highlights :: "string \<Rightarrow> highlight_span list" where
  "fallback_highlights cleaned_text =
     (if cleaned_text = [] then []
      else let e = min (length cleaned_text) 200
           in if 0 < e then [\<lparr>hs_start = 0, hs_end = int e\<rparr>] else [])"

definition extract_highlights :: "string \<Rightarrow> string \<Rightarrow> int \<Rightarrow> highlight_span list option" where
  "extract_highlights query cleaned_text max_spans =
     (if query = [] \<or> cleaned_text = [] then Some []
      else if max_spans \<le> 0 then Some []
      else
        let max_spans = min max_spans max_highlights;
            query_terms = tokenize_query query
        in if query_terms = [] then Some []
           else Option.bind (find_all_matches cleaned_text (py_lower cleaned_text) [] query_terms)
             (\<lambda>matches.
               if matches = [] then Some (fallback_highlights cleaned_text)
               else map_option (\<lambda>expanded. concat (map (span_within cleaned_text) (take (nat max_spans) expanded)))
                      (expand_to_context cleaned_text 50 (merge_overlapping (sort matches)))))"

definition validate_highlight_spans :: "highlight_span list \<Rightarrow> nat \<Rightarrow> bool" where
  "validate_highlight_spans spans text_length \<longleftrightarrow>
     int (length spans) \<le> max_highlights
     \<and> list_all (\<lambda>h. 0 \<le> hs_start h \<and> hs_start h < hs_end h \<and> hs_end h \<le> int text_length) spans"

section \<open>Summaries\<close>

definition sentence_end :: "char \<Rightarrow> bool" where
  "sentence_end c \<longleftrightarrow> c \<in> set ''.!?''"

fun split_from :: "string \<Rightarrow> string \<Rightarrow> string list" where
  "split_from current [] = (if py_strip current = [] then [] else [py_strip current])"
| "split_from current (c # cs) =
     (let cur = current @ [c] in
      if sentence_end c \<and> 1 < length cur
      then (if py_strip cur = [] then [] else [py_strip cur]) @ split_from [] cs
      else split_from cur cs)"

definition split_sentences :: "string \<Rightarrow> string list" where
  "split_sentences txt = split_from [] txt"

fun take_sentences :: "nat \<Rightarrow> string list \<Rightarrow> nat \<Rightarrow> string list \<Rightarrow> string list" where
  "take_sentences max_chars parts total_chars [] = parts"
| "take_sentences max_chars parts total_chars (x # xs) =
     (let s = py_strip x in
      if s = [] then take_sentences max_chars parts total_chars xs
      else if total_chars + length s + 1 > max_chars
      then (if parts = [] then [take max_chars s] else parts)
      else take_sentences max_chars (parts @ [s]) (total_chars + length s + 1) xs)"

definition min_summary_tokens :: int where
  "min_summary_tokens = 1"

definition max_summary_tokens :: int where
  "max_summary_tokens = 512"

definition chars_per_token :: nat where
  "chars_per_token = 4"

definition generate_summary :: "string \<Rightarrow> int \<Rightarrow> string + string" where
  "generate_summary cleaned_text max_tokens =
     (if py_strip cleaned_text = [] then Inl ''Cannot generate summary from empty text''
      else
        let max_tokens = max min_summary_tokens (min max_tokens max_summary_tokens);
            max_chars = nat max_tokens * chars_per_token;
            sentences = split_sentences cleaned_text
        in if sentences = [] then
             let truncated = take max_chars (py_strip cleaned_text)
             in Inr (if truncated = [] then take chars_per_token (py_strip cleaned_text) else truncated)
           else
             let result = join '' '' (take_sentences max_chars [] 0 sentences)
             in Inr (if result = [] then take chars_per_token (py_strip cleaned_text) else result))"

definition word_tokens :: "string \<Rightarrow> nat" where
  "word_tokens w = (if length w \<le> 6 then 1 else max 1 (length w div 4))"

definition estimate_token_count :: "string \<Rightarrow> nat" where
  "estimate_token_count txt =
     (if txt = [] then 0 else max 1 (sum_list (map word_tokens (split_ws txt))))"

definition validate_summary_tokens :: "string \<Rightarrow> bool" where
  "validate_summary_tokens summary =
     (summary \<noteq> [] \<and> min_summary_tokens \<le> int (estimate_token_count summary)
        \<and> int (estimate_token_count summary) \<le> max_summary_tokens)"

section \<open>The loops return\<close>

text \<open>A loop with an invariant and a measure returns, in a state of the invariant that ends it.\<close>

lemma loop_returns:
  fixes f :: "'s \<Rightarrow> nat"
  assumes step: "\<And>s. P s \<Longrightarrow> b s \<Longrightarrow> P (c s) \<and> f (c s) < f s" and init: "P s"
  shows "\<exists>t. while_option b c s = Some t \<and> P t \<and> \<not> b t"
proof -
  from measure_while_option_Some [of P b c f, OF step init] obtain t where t: "while_option b c s = Some t" ..
  have "P t" by (rule while_option_rule [OF _ t, where P = P]) (use step init in auto)
  with t while_option_stop [OF t] show ?thesis by blast
qed

text \<open>A case-insensitive occurrence of a term.\<close>

definition occurs_at :: "string \<Rightarrow> string \<Rightarrow> nat \<Rightarrow> bool" where
  "occurs_at cleaned_text t p \<longleftrightarrow>
     p + length t \<le> length cleaned_text \<and> py_lower (slice cleaned_text p (p + length t)) = py_lower t"

lemma py_lower_take: "py_lower (take n s) = take n (py_lower s)"
  by (simp add: py_lower_def take_map)

lemma py_lower_drop: "py_lower (drop n s) = drop n (py_lower s)"
  by (simp add: py_lower_def drop_map)

lemma occurs_at_iff:
  "t \<noteq> [] \<Longrightarrow> occurs_at s t p \<longleftrightarrow> starts_with (drop p (py_lower s)) (py_lower t)"
proof -
  assume "t \<noteq> []"
  have "starts_with (drop p (py_lower s)) (py_lower t) \<Longrightarrow> p + length t \<le> length s"
  proof -
    assume "starts_with (drop p (py_lower s)) (py_lower t)"
    then obtain r where "drop p (py_lower s) = py_lower t @ r" by (auto simp: starts_with_iff)
    then have "length (drop p (py_lower s)) = length (py_lower t @ r)" by simp
    then have "length s - p = length t + length r" by simp
    moreover have "0 < length t" using \<open>t \<noteq> []\<close> by simp
    ultimately show "p + length t \<le> length s" by linarith
  qed
  then show ?thesis
    by (auto simp: occurs_at_def starts_with_def slice_def py_lower_take py_lower_drop)
qed

definition scanned :: "string \<Rightarrow> string \<Rightarrow> (nat \<times> nat) list \<Rightarrow> scan \<Rightarrow> bool" where
  "scanned cleaned_text t ms = (\<lambda>(start, cur, broke).
     set cur = set ms \<union> (\<lambda>p. (p, p + length t)) ` {p. p < start \<and> occurs_at cleaned_text t p}
     \<and> (broke \<longrightarrow> (\<forall>p \<ge> start. \<not> occurs_at cleaned_text t p)))"

lemma scan_step_ok:
  assumes t: "t \<noteq> []" and inv: "scanned s t ms (start, cur, False)" and start: "start < length s"
  shows "scanned s t ms (scan_step s (py_lower s) t (start, cur, False))"
proof (cases "find_from (py_lower s) (py_lower t) start")
  case None
  have "\<not> occurs_at s t p" if "start \<le> p" for p
    using find_from_None [OF None that] occurs_at_iff [OF t, of s p] by (auto simp: occurs_at_def)
  with inv None show ?thesis by (simp add: scan_step_def scanned_def)
next
  case (Some pos)
  have b: "start \<le> pos" "pos + length t \<le> length s" using find_from_Some [OF Some] find_from_bound [OF Some] by simp_all
  have "\<not> occurs_at s t p" if "start \<le> p" "p < pos" for p
    using find_from_first [OF Some that] occurs_at_iff [OF t] by simp
  moreover have "occurs_at s t pos" using find_from_Some [OF Some] occurs_at_iff [OF t] by simp
  ultimately have "{p. p < Suc pos \<and> occurs_at s t p} = insert pos {p. p < start \<and> occurs_at s t p}"
    using b(1) by (auto simp: less_Suc_eq) (metis not_less)
  with inv Some b t show ?thesis by (auto simp: scan_step_def scanned_def Let_def)
qed

lemma find_matches_returns:
  assumes t: "t \<noteq> []"
  shows "\<exists>ms'. find_matches s (py_lower s) ms t = Some ms'
    \<and> set ms' = set ms \<union> (\<lambda>p. (p, p + length t)) ` {p. occurs_at s t p}"
proof -
  let ?b = "\<lambda>(start, _, broke). \<not> broke \<and> start < length (py_lower s)"
  let ?c = "scan_step s (py_lower s) t"
  let ?f = "\<lambda>(start, _, broke). if broke then 0 else Suc (length s) - start"
  have "\<exists>st. while_option ?b ?c (0, ms, False) = Some st \<and> scanned s t ms st \<and> \<not> ?b st"
  proof (rule loop_returns [where f = ?f and P = "scanned s t ms"])
    fix st assume inv: "scanned s t ms st" and b: "?b st"
    obtain start cur broke where st: "st = (start, cur, broke)" by (cases st)
    with b have nb: "broke = False" and l: "start < length s" by simp_all
    have "?f (?c st) < ?f st"
      using l find_from_Some [of "py_lower s" "py_lower t" start]
      by (auto simp: st nb scan_step_def Let_def split: option.split)
    with scan_step_ok [OF t inv [unfolded st nb] l] show "scanned s t ms (?c st) \<and> ?f (?c st) < ?f st"
      by (simp add: st nb)
  next
    show "scanned s t ms (0, ms, False)" by (simp add: scanned_def)
  qed
  then obtain start cur broke where w: "while_option ?b ?c (0, ms, False) = Some (start, cur, broke)"
    and inv: "scanned s t ms (start, cur, broke)" and stop: "\<not> ?b (start, cur, broke)" by auto
  have "p < start" if "occurs_at s t p" for p
  proof (cases broke)
    case True
    with inv that show ?thesis by (auto simp: scanned_def not_less [symmetric])
  next
    case False
    with stop have "length s \<le> start" by simp
    moreover have "0 < length t" using t by simp
    moreover have "p + length t \<le> length s" using that by (simp add: occurs_at_def)
    ultimately show ?thesis by linarith
  qed
  then have "{p. p < start \<and> occurs_at s t p} = {p. occurs_at s t p}" by blast
  with inv have "set cur = set ms \<union> (\<lambda>p. (p, p + length t)) ` {p. occurs_at s t p}" by (simp add: scanned_def)
  with w show ?thesis by (simp add: find_matches_def)
qed

definition occurrences :: "string \<Rightarrow> string list \<Rightarrow> (nat \<times> nat) set" where
  "occurrences s ts = {(p, p + length t) | p t. t \<in> set ts \<and> occurs_at s t p}"

lemma find_all_matches_returns:
  "\<forall>t \<in> set ts. t \<noteq> [] \<Longrightarrow>
   \<exists>ms'. find_all_matches s (py_lower s) ms ts = Some ms' \<and> set ms' = set ms \<union> occurrences s ts"
proof (induction ts arbitrary: ms)
  case Nil
  then show ?case by (simp add: occurrences_def)
next
  case (Cons t ts)
  from Cons.prems find_matches_returns [of t s ms] obtain m1 where m1:
    "find_matches s (py_lower s) ms t = Some m1"
    "set m1 = set ms \<union> (\<lambda>p. (p, p + length t)) ` {p. occurs_at s t p}" by auto
  from Cons.IH [of m1] Cons.prems obtain m2 where m2:
    "find_all_matches s (py_lower s) m1 ts = Some m2" "set m2 = set m1 \<union> occurrences s ts" by auto
  have "occurrences s (t # ts) = (\<lambda>p. (p, p + length t)) ` {p. occurs_at s t p} \<union> occurrences s ts"
    by (auto simp: occurrences_def)
  with m1 m2 show ?case by auto
qed

lemma back_to_gap_returns:
  "\<exists>b. back_to_gap s i = Some b \<and> b \<le> i \<and> (b = 0 \<or> word_gap (s ! b))"
proof -
  have "\<exists>b. while_option (\<lambda>i. 0 < i \<and> \<not> word_gap (s ! i)) (\<lambda>i. i - 1) i = Some b
      \<and> b \<le> i \<and> \<not> (0 < b \<and> \<not> word_gap (s ! b))"
    by (rule loop_returns [where f = id and P = "\<lambda>b. b \<le> i"]) auto
  then show ?thesis by (auto simp: back_to_gap_def)
qed

lemma on_to_gap_returns:
  assumes "i \<le> length s"
  shows "\<exists>b. on_to_gap s i = Some b \<and> i \<le> b \<and> b \<le> length s \<and> (b = length s \<or> word_gap (s ! b))"
proof -
  have "\<exists>b. while_option (\<lambda>i. i < length s \<and> \<not> word_gap (s ! i)) Suc i = Some b
      \<and> (i \<le> b \<and> b \<le> length s) \<and> \<not> (b < length s \<and> \<not> word_gap (s ! b))"
    by (rule loop_returns [where f = "\<lambda>b. length s - b" and P = "\<lambda>b. i \<le> b \<and> b \<le> length s"])
      (use assms in auto)
  then show ?thesis by (auto simp: on_to_gap_def)
qed

section \<open>Merging and expanding\<close>

lemma merge_from_covers:
  "sorted (map fst (p # rest)) \<Longrightarrow> x \<in> set (p # rest) \<Longrightarrow>
   \<exists>y \<in> set (merge_from p rest). fst y \<le> fst x \<and> snd x \<le> snd y"
proof (induction p rest arbitrary: x rule: merge_from.induct)
  case (1 prev)
  then show ?case by auto
next
  case (2 ps pe s e rest)
  show ?case
  proof (cases "s \<le> pe")
    case True
    have srt: "sorted (map fst ((ps, max pe e) # rest))" using "2.prems"(1) by auto
    consider "x \<in> set rest" | "x = (ps, pe) \<or> x = (s, e)" using "2.prems"(2) by auto
    then show ?thesis
    proof cases
      case 1
      with "2.IH"(1) [OF True srt, of x] True show ?thesis by simp
    next
      case 2
      from "2.IH"(1) [OF True srt, of "(ps, max pe e)"] obtain y where
        "y \<in> set (merge_from (ps, max pe e) rest)" "fst y \<le> ps" "max pe e \<le> snd y" by auto
      with 2 True "2.prems"(1) show ?thesis by (intro bexI [of _ y]) auto
    qed
  next
    case False
    have srt: "sorted (map fst ((s, e) # rest))" using "2.prems"(1) by simp
    with "2.IH"(2) [OF False srt] False "2.prems"(2) show ?thesis by fastforce
  qed
qed

lemma merge_from_bounds:
  "\<forall>x \<in> set (p # rest). fst x < snd x \<and> snd x \<le> n \<Longrightarrow> \<forall>y \<in> set (merge_from p rest). fst y < snd y \<and> snd y \<le> n"
  by (induction p rest rule: merge_from.induct) (auto simp: less_max_iff_disj split: if_splits)

lemma merge_from_origin:
  "y \<in> set (merge_from p rest) \<Longrightarrow> \<exists>x \<in> set (p # rest). fst y \<le> fst x \<and> snd x \<le> snd y"
proof (induction p rest rule: merge_from.induct)
  case (1 prev)
  then show ?case by auto
next
  case (2 ps pe s e rest)
  show ?case
  proof (cases "s \<le> pe")
    case True
    with "2.prems" have "y \<in> set (merge_from (ps, max pe e) rest)" by simp
    from "2.IH"(1) [OF True this] show ?thesis by fastforce
  next
    case False
    with "2.IH"(2) "2.prems" show ?thesis by fastforce
  qed
qed

lemma merge_from_nonempty [simp]: "merge_from p rest \<noteq> []"
  by (induction p rest rule: merge_from.induct) auto

lemma sort_starts: "sorted (map fst (sort (xs :: (nat \<times> nat) list)))"
proof -
  have "sorted (sort xs)" by simp
  then show ?thesis by (rule sorted_map_mono) (auto simp: mono_on_def)
qed

lemma merge_overlapping_facts:
  assumes "xs \<noteq> []" and "\<forall>x \<in> set xs. fst x < snd x \<and> snd x \<le> n"
  shows "y \<in> set (merge_overlapping (sort xs)) \<Longrightarrow> \<exists>x \<in> set xs. fst y \<le> fst x \<and> snd x \<le> snd y"
    and "\<forall>y \<in> set (merge_overlapping (sort xs)). fst y < snd y \<and> snd y \<le> n"
    and "x \<in> set xs \<Longrightarrow> \<exists>y \<in> set (merge_overlapping (sort xs)). fst y \<le> fst x \<and> snd x \<le> snd y"
proof -
  from assms(1) have "sort xs \<noteq> []" by (metis set_empty set_sort)
  then obtain p rest where s: "sort xs = p # rest" by (cases "sort xs") auto
  have set: "set xs = set (p # rest)" by (metis s set_sort)
  show "y \<in> set (merge_overlapping (sort xs)) \<Longrightarrow> \<exists>x \<in> set xs. fst y \<le> fst x \<and> snd x \<le> snd y"
    using merge_from_origin [of y p rest] set by (simp add: s merge_overlapping_def)
  show "\<forall>y \<in> set (merge_overlapping (sort xs)). fst y < snd y \<and> snd y \<le> n"
    using merge_from_bounds [of p rest n] assms(2) set by (simp add: s merge_overlapping_def)
  show "x \<in> set xs \<Longrightarrow> \<exists>y \<in> set (merge_overlapping (sort xs)). fst y \<le> fst x \<and> snd x \<le> snd y"
    using merge_from_covers [of p rest x] sort_starts [of xs] set by (simp add: s merge_overlapping_def)
qed

text \<open>The range a span is expanded to: it contains the span and is cut at the ends of words.\<close>

definition expands :: "string \<Rightarrow> nat \<times> nat \<Rightarrow> nat \<times> nat \<Rightarrow> bool" where
  "expands doc p q \<longleftrightarrow> fst q \<le> fst p \<and> snd p \<le> snd q \<and> snd q \<le> length doc
     \<and> (fst q = 0 \<or> word_gap (doc ! (fst q - 1))) \<and> (snd q = length doc \<or> word_gap (doc ! snd q))"

lemma expand_span_returns:
  assumes "fst p < snd p" and "snd p \<le> length doc"
  shows "\<exists>q. expand_span doc 50 p = Some [q] \<and> expands doc p q"
proof -
  obtain s e where p: "p = (s, e)" by (cases p)
  from back_to_gap_returns [of doc "s - 50"] obtain b where
    b: "back_to_gap doc (s - 50) = Some b" "b \<le> s - 50" "b = 0 \<or> word_gap (doc ! b)" by blast
  from on_to_gap_returns [of "min (length doc) (e + 50)" doc] obtain f where
    f: "on_to_gap doc (min (length doc) (e + 50)) = Some f" "min (length doc) (e + 50) \<le> f" "f \<le> length doc"
      "f = length doc \<or> word_gap (doc ! f)" by auto
  let ?a = "if 0 < b then b + 1 else b"
  have "?a \<le> s" using b(2) by auto
  moreover have "e \<le> f" using f(2) assms p by simp
  moreover have "s < e" "e \<le> length doc" using assms p by simp_all
  moreover have "?a = 0 \<or> word_gap (doc ! (?a - 1))" using b(3) by auto
  ultimately show ?thesis using b(1) f(1,3,4)
    by (intro exI [of _ "(?a, f)"]) (simp add: p expand_span_def expands_def Let_def)
qed

lemma expand_to_context_returns:
  "\<forall>p \<in> set ps. fst p < snd p \<and> snd p \<le> length doc \<Longrightarrow>
   \<exists>qs. expand_to_context doc 50 ps = Some qs \<and> list_all2 (expands doc) ps qs"
proof (induction ps)
  case Nil
  then show ?case by simp
next
  case (Cons p ps)
  from Cons.prems expand_span_returns [of p doc] obtain q where "expand_span doc 50 p = Some [q]" "expands doc p q"
    by auto
  moreover from Cons obtain qs where "expand_to_context doc 50 ps = Some qs" "list_all2 (expands doc) ps qs" by auto
  ultimately show ?case by auto
qed

lemma list_all2_right_mem: "list_all2 R xs ys \<Longrightarrow> y \<in> set ys \<Longrightarrow> \<exists>x \<in> set xs. R x y"
  by (induction rule: list_all2_induct) auto

lemma list_all2_left_mem: "list_all2 R xs ys \<Longrightarrow> x \<in> set xs \<Longrightarrow> \<exists>y \<in> set ys. R x y"
  by (induction rule: list_all2_induct) auto

lemma tokenize_query_terms: "t \<in> set (tokenize_query q) \<Longrightarrow> 2 \<le> length t"
  by (simp add: tokenize_query_def)

text \<open>
  The outcomes of \<open>extract_highlights\<close>: nothing to match, no occurrence, and the expanded occurrences,
  which cover all of them before the first few are taken.
\<close>

definition shown :: "string \<Rightarrow> (nat \<times> nat) set \<Rightarrow> nat \<times> nat \<Rightarrow> bool" where
  "shown doc occ r \<longleftrightarrow> fst r < snd r \<and> snd r \<le> length doc \<and> (\<exists>x \<in> occ. fst r \<le> fst x \<and> snd x \<le> snd r)
     \<and> (fst r = 0 \<or> word_gap (doc ! (fst r - 1))) \<and> (snd r = length doc \<or> word_gap (doc ! snd r))"

definition to_span :: "nat \<times> nat \<Rightarrow> highlight_span" where
  "to_span r = \<lparr>hs_start = int (fst r), hs_end = int (snd r)\<rparr>"

lemma expanded_facts:
  assumes "ms \<noteq> []" and ok: "\<forall>x \<in> set ms. fst x < snd x \<and> snd x \<le> length doc"
  obtains qs where "expand_to_context doc 50 (merge_overlapping (sort ms)) = Some qs"
    "\<forall>r \<in> set qs. shown doc (set ms) r"
    "\<forall>x \<in> set ms. \<exists>r \<in> set qs. fst r \<le> fst x \<and> snd x \<le> snd r"
proof -
  note ps = merge_overlapping_facts [OF assms]
  from expand_to_context_returns [OF ps(2)] obtain qs where
    qs: "expand_to_context doc 50 (merge_overlapping (sort ms)) = Some qs"
    "list_all2 (expands doc) (merge_overlapping (sort ms)) qs" by blast
  have "shown doc (set ms) r" if "r \<in> set qs" for r
  proof -
    from list_all2_right_mem [OF qs(2) that] obtain p where
      p: "p \<in> set (merge_overlapping (sort ms))" "expands doc p r" by blast
    from ps(1) [OF p(1)] obtain x where x: "x \<in> set ms" "fst p \<le> fst x" "snd x \<le> snd p" by blast
    from p ps(2) have "fst p < snd p" by blast
    with p(2) x show ?thesis unfolding expands_def shown_def by (auto intro: bexI [of _ x])
  qed
  moreover have "\<exists>r \<in> set qs. fst r \<le> fst x \<and> snd x \<le> snd r" if "x \<in> set ms" for x
  proof -
    from ps(3) [OF that] obtain p where p: "p \<in> set (merge_overlapping (sort ms))" "fst p \<le> fst x" "snd x \<le> snd p"
      by blast
    from list_all2_left_mem [OF qs(2) p(1)] obtain r where "r \<in> set qs" "expands doc p r" by blast
    with p(2,3) show ?thesis by (intro bexI [of _ r]) (auto simp: expands_def)
  qed
  ultimately show ?thesis using that [OF qs(1)] by blast
qed

lemma occurrences_bounds:
  "x \<in> occurrences doc (tokenize_query q) \<Longrightarrow> fst x < snd x \<and> snd x \<le> length doc"
proof -
  assume "x \<in> occurrences doc (tokenize_query q)"
  then obtain p t where "x = (p, p + length t)" "t \<in> set (tokenize_query q)" "occurs_at doc t p"
    by (auto simp: occurrences_def)
  moreover from this(2) have "2 \<le> length t" by (rule tokenize_query_terms)
  ultimately show ?thesis by (cases t) (simp_all add: occurs_at_def)
qed

lemma span_within_shown: "shown doc occ r \<Longrightarrow> span_within doc r = [to_span r]"
  by (cases r) (simp add: shown_def span_within_def to_span_def min_def)

lemma extract_cases:
  obtains (nothing) "q = [] \<or> doc = [] \<or> m \<le> 0 \<or> tokenize_query q = []" "extract_highlights q doc m = Some []"
  | (fallback) "doc \<noteq> []" "0 < m" "occurrences doc (tokenize_query q) = {}"
      "extract_highlights q doc m = Some (fallback_highlights doc)"
  | (matches) qs where "0 < m" "occurrences doc (tokenize_query q) \<noteq> {}"
      "\<forall>r \<in> set qs. shown doc (occurrences doc (tokenize_query q)) r"
      "\<forall>x \<in> occurrences doc (tokenize_query q). \<exists>r \<in> set qs. fst r \<le> fst x \<and> snd x \<le> snd r"
      "extract_highlights q doc m = Some (map to_span (take (nat (min m 5)) qs))"
proof (cases "q = [] \<or> doc = [] \<or> m \<le> 0 \<or> tokenize_query q = []")
  case True
  show ?thesis by (rule that(1)) (use True in \<open>auto simp: extract_highlights_def Let_def\<close>)
next
  case False
  then have ne: "q \<noteq> []" "doc \<noteq> []" "0 < m" "tokenize_query q \<noteq> []" by auto
  have "\<forall>t \<in> set (tokenize_query q). t \<noteq> []" by (auto dest: tokenize_query_terms)
  from find_all_matches_returns [OF this, of doc "[]"] obtain ms where
    ms: "find_all_matches doc (py_lower doc) [] (tokenize_query q) = Some ms"
    "set ms = occurrences doc (tokenize_query q)" by auto
  show ?thesis
  proof (cases "ms = []")
    case True
    show ?thesis by (rule that(2)) (use True ms ne in \<open>auto simp: extract_highlights_def\<close>)
  next
    case False
    have ok: "\<forall>x \<in> set ms. fst x < snd x \<and> snd x \<le> length doc" using ms(2) occurrences_bounds by blast
    from False ok show ?thesis
    proof (cases rule: expanded_facts [where ms = ms and doc = doc])
      case (1 qs)
      have "concat (map (span_within doc) (take n qs)) = map to_span (take n qs)" for n
      proof -
        have "map (span_within doc) (take n qs) = map (\<lambda>r. [to_span r]) (take n qs)"
          using 1(2) by (intro map_cong) (auto dest!: in_set_takeD intro: span_within_shown)
        then show ?thesis by (metis concat_map_singleton)
      qed
      then have "extract_highlights q doc m = Some (map to_span (take (nat (min m 5)) qs))"
        using ms(1) 1(1) ne False by (simp add: extract_highlights_def max_highlights_def)
      moreover have "occurrences doc (tokenize_query q) \<noteq> {}" using ms(2) False by (metis set_empty)
      ultimately show ?thesis using that(3) [OF ne(3)] 1(2,3) unfolding ms(2) by blast
    qed
  qed
qed

lemma extract_returns:
  obtains hs where "extract_highlights q doc m = Some hs" "validate_highlight_spans hs (length doc)"
    "int (length hs) \<le> max 0 m"
proof (cases rule: extract_cases [of q doc m])
  case nothing
  then show ?thesis by (intro that) (auto simp: validate_highlight_spans_def max_highlights_def)
next
  case fallback
  then show ?thesis
    by (intro that [OF fallback(4)]) (auto simp: fallback_highlights_def validate_highlight_spans_def max_highlights_def Let_def)
next
  case (matches qs)
  then have "list_all (\<lambda>h. 0 \<le> hs_start h \<and> hs_start h < hs_end h \<and> hs_end h \<le> int (length doc))
      (map to_span (take (nat (min m 5)) qs))"
    by (auto simp: list_all_iff shown_def to_span_def dest!: in_set_takeD)
  with matches(1) show ?thesis
    by (intro that [OF matches(5)]) (auto simp: validate_highlight_spans_def max_highlights_def)
qed

section \<open>Highlights: results\<close>

text \<open>
  Highlight extraction always returns, whatever the query, the text and the number of spans asked
  for: each of its scanning loops ends.  What it returns passes its own validation (at most five
  non-empty ranges inside the text) and is no more than was asked for.
\<close>

theorem highlights_return:
  "\<exists>hs. extract_highlights q doc m = Some hs \<and> validate_highlight_spans hs (length doc)
     \<and> int (length hs) \<le> max 0 m"
by (rule extract_returns [of q doc m]) blast

text \<open>
  Highlights show the matches.  If no term of the query (of two characters or more) occurs in the
  text, ignoring case, the one span is the beginning of the text.  Otherwise each span contains an
  occurrence and is cut at the ends of words, and if fewer spans than allowed come back every occurrence
  of every term lies inside one of them.
\<close>

theorem highlights_cover_matches:
  assumes "extract_highlights q doc m = Some hs" and "q \<noteq> []" and "doc \<noteq> []" and "0 < m"
    and "tokenize_query q \<noteq> []"
  shows "occurrences doc (tokenize_query q) = {} \<and> hs = [\<lparr>hs_start = 0, hs_end = int (min (length doc) 200)\<rparr>]
    \<or> occurrences doc (tokenize_query q) \<noteq> {}
      \<and> (int (length hs) = min m 5 \<or> (\<forall>x \<in> occurrences doc (tokenize_query q).
            \<exists>h \<in> set hs. hs_start h \<le> int (fst x) \<and> int (snd x) \<le> hs_end h))
      \<and> (\<forall>h \<in> set hs. (\<exists>x \<in> occurrences doc (tokenize_query q). hs_start h \<le> int (fst x) \<and> int (snd x) \<le> hs_end h)
          \<and> (hs_start h = 0 \<or> word_gap (doc ! (nat (hs_start h) - 1)))
          \<and> (hs_end h = int (length doc) \<or> word_gap (doc ! nat (hs_end h))))"
proof (cases rule: extract_cases [of q doc m])
  case nothing
  with assms show ?thesis by auto
next
  case fallback
  with assms show ?thesis by (simp add: fallback_highlights_def Let_def)
next
  case (matches qs)
  let ?O = "occurrences doc (tokenize_query q)" and ?n = "nat (min m 5)"
  have hs: "hs = map to_span (take ?n qs)" using matches(5) assms(1) by simp
  have all: "int (length hs) = min m 5 \<or> take ?n qs = qs"
    using matches(1) by (auto simp: hs)
  have cover: "int (length hs) = min m 5 \<or> (\<forall>x \<in> ?O. \<exists>h \<in> set hs. hs_start h \<le> int (fst x) \<and> int (snd x) \<le> hs_end h)"
    using all
  proof (elim disjE)
    assume "take ?n qs = qs"
    with hs have "set hs = to_span ` set qs" by simp
    with matches(4) have "\<forall>x \<in> ?O. \<exists>h \<in> set hs. hs_start h \<le> int (fst x) \<and> int (snd x) \<le> hs_end h"
      unfolding \<open>set hs = to_span ` set qs\<close> by (auto simp: to_span_def)
    then show ?thesis ..
  qed simp
  have each: "(\<exists>x \<in> ?O. hs_start h \<le> int (fst x) \<and> int (snd x) \<le> hs_end h)
      \<and> (hs_start h = 0 \<or> word_gap (doc ! (nat (hs_start h) - 1)))
      \<and> (hs_end h = int (length doc) \<or> word_gap (doc ! nat (hs_end h)))" if "h \<in> set hs" for h
  proof -
    from that hs obtain r where "r \<in> set qs" and h: "h = to_span r" by (auto dest: in_set_takeD)
    with matches(3) have "shown doc ?O r" by blast
    then show ?thesis by (auto simp: h shown_def to_span_def)
  qed
  from matches(2) cover each show ?thesis by blast
qed

lemma highlights_cover_matches_witness:
  "\<exists>h \<in> set [\<lparr>hs_start = 0, hs_end = 9\<rparr>]. hs_start h \<le> 3 \<and> 5 \<le> hs_end h"
proof -
  have 1: "extract_highlights ''ab'' ''xx ABab c'' 5 = Some [\<lparr>hs_start = 0, hs_end = 9\<rparr>]" by code_simp
  have 2: "tokenize_query ''ab'' = [''ab'']" by code_simp
  have 3: "occurs_at ''xx ABab c'' ''ab'' 3" by code_simp
  then have 4: "(3, 5) \<in> occurrences ''xx ABab c'' [''ab'']" unfolding occurrences_def by force
  then have 5: "occurrences ''xx ABab c'' [''ab''] \<noteq> {}" by blast
  show ?thesis
    using highlights_cover_matches [OF 1] 5 bspec [OF _ 4] unfolding 2 by simp
qed

text \<open>
  Spans are deduplicated before they are widened, not after: matches whose contexts overlap give
  overlapping, even identical, spans.
\<close>

lemma highlights_repeat:
  "extract_highlights ''ab cd'' ''ab cd'' 5
     = Some [\<lparr>hs_start = 0, hs_end = 5\<rparr>, \<lparr>hs_start = 0, hs_end = 5\<rparr>]"
  by code_simp

section \<open>Summaries are extracts\<close>

definition ink :: "string \<Rightarrow> string" where
  "ink s = filter (\<lambda>c. \<not> py_isspace c) s"

lemma ink_append [simp]: "ink (xs @ ys) = ink xs @ ink ys"
  by (simp add: ink_def)

lemma ink_Cons: "ink (c # s) = (if py_isspace c then ink s else c # ink s)"
  by (simp add: ink_def)

lemma space_is_space [simp]: "py_isspace CHR '' ''"
  by code_simp

lemma ink_nil [simp]: "ink [] = []"
  by (simp add: ink_def)

lemma ink_dropWhile: "ink (dropWhile py_isspace s) = ink s"
  by (induction s) (auto simp: ink_def)

lemma ink_rev: "ink (rev s) = rev (ink s)"
  by (simp add: ink_def rev_filter)

lemma ink_strip [simp]: "ink (py_strip s) = ink s"
  by (simp add: py_strip_def py_rstrip_def py_lstrip_def ink_rev ink_dropWhile)

lemma py_strip_ends: "py_strip s = [] \<or> \<not> py_isspace (hd (py_strip s)) \<and> \<not> py_isspace (last (py_strip s))"
proof (cases "py_strip s = []")
  case False
  let ?l = "dropWhile py_isspace s"
  have r: "py_strip s = rev (dropWhile py_isspace (rev ?l))"
    by (simp add: py_strip_def py_rstrip_def py_lstrip_def)
  with False have d: "dropWhile py_isspace (rev ?l) \<noteq> []" by simp
  have "\<not> py_isspace (last (py_strip s))" using hd_dropWhile [OF d] d by (simp add: r last_rev)
  moreover have "\<not> py_isspace (hd (py_strip s))"
  proof -
    obtain pre where "rev ?l = pre @ dropWhile py_isspace (rev ?l)" by (metis takeWhile_dropWhile_id)
    then have "?l = py_strip s @ rev pre" unfolding r by (metis rev_append rev_rev_ident)
    with False have "hd (py_strip s) = hd ?l" "?l \<noteq> []" by auto
    with hd_dropWhile [of py_isspace s] show ?thesis by simp
  qed
  ultimately show ?thesis by simp
qed simp

lemma py_strip_idem [simp]: "py_strip (py_strip s) = py_strip s"
  using py_strip_ends [of s] py_strip_id [of "py_strip s"] by (cases "py_strip s = []") auto

lemma split_from_ink: "concat (map ink (split_from cur s)) = ink cur @ ink s"
proof (induction cur s rule: split_from.induct)
  case (1 cur)
  then show ?case using ink_strip [of cur] by (simp del: ink_strip) (metis ink_nil ink_strip)
next
  case (2 cur c cs)
  have "ink (cur @ [c]) = []" if "py_strip (cur @ [c]) = []"
    using ink_strip [of "cur @ [c]"] that by simp
  moreover have "ink (cur @ c # cs) = ink (cur @ [c]) @ ink cs" by (simp flip: ink_append)
  ultimately show ?case using 2 by (auto simp: Let_def simp del: ink_append) (simp_all add: ink_append)
qed

lemma split_from_stripped: "x \<in> set (split_from cur s) \<Longrightarrow> x \<noteq> [] \<and> py_strip x = x"
  by (induction cur s rule: split_from.induct) (auto simp: Let_def split: if_splits)

lemma ink_join: "ink (join '' '' xs) = concat (map ink xs)"
proof (induction xs rule: induct_list012)
  case (3 x y zs)
  then show ?case by (simp add: ink_Cons)
qed simp_all

definition room :: "string list \<Rightarrow> nat" where
  "room parts = sum_list (map (\<lambda>p. length p + 1) parts)"

lemma length_join: "parts \<noteq> [] \<Longrightarrow> length (join '' '' parts) + 1 = room parts"
  by (induction parts rule: induct_list012) (auto simp: room_def)

lemma room_append [simp]: "room (xs @ ys) = room xs + room ys"
  by (simp add: room_def)

lemma take_sentences_facts:
  assumes "room parts \<le> m" and "0 < m" and "\<forall>x \<in> set xs. x \<noteq> [] \<and> py_strip x = x" and "parts \<noteq> [] \<or> xs \<noteq> []"
    and "\<forall>x \<in> set parts. x \<noteq> []"
  shows "\<exists>ys rest. take_sentences m parts (room parts) xs = parts @ ys \<and> parts @ ys \<noteq> []
    \<and> (\<forall>x \<in> set ys. x \<noteq> []) \<and> length (join '' '' (parts @ ys)) \<le> m
    \<and> concat (map ink xs) = concat (map ink ys) @ rest"
  using assms
proof (induction xs arbitrary: parts)
  case Nil
  with length_join [of parts] show ?case by (intro exI [of _ "[]"]) auto
next
  case (Cons x xs)
  from Cons.prems have x: "x \<noteq> []" "py_strip x = x" by auto
  show ?case
  proof (cases "room parts + length x + 1 > m")
    case True
    show ?thesis
    proof (cases "parts = []")
      case p: True
      have "ink x = ink (take m x) @ ink (drop m x)" by (metis append_take_drop_id ink_append)
      with True p x Cons.prems(2) show ?thesis
        by (intro exI [of _ "[take m x]"] exI [of _ "ink (drop m x) @ concat (map ink xs)"]) (simp add: room_def)
    next
      case p: False
      with True x length_join [OF p] Cons.prems(1) show ?thesis
        by (intro exI [of _ "[]"] exI [of _ "concat (map ink (x # xs))"]) simp
    qed
  next
    case False
    have r: "room (parts @ [x]) = room parts + length x + 1" by (simp add: room_def)
    have "\<exists>ys rest. take_sentences m (parts @ [x]) (room (parts @ [x])) xs = (parts @ [x]) @ ys \<and> (parts @ [x]) @ ys \<noteq> []
        \<and> (\<forall>y \<in> set ys. y \<noteq> []) \<and> length (join '' '' ((parts @ [x]) @ ys)) \<le> m
        \<and> concat (map ink xs) = concat (map ink ys) @ rest"
      by (rule Cons.IH) (use Cons.prems False r x in auto)
    then obtain ys rest where "take_sentences m (parts @ [x]) (room parts + length x + 1) xs = (parts @ [x]) @ ys"
      "\<forall>y \<in> set ys. y \<noteq> []" "length (join '' '' ((parts @ [x]) @ ys)) \<le> m"
      "concat (map ink xs) = concat (map ink ys) @ rest" unfolding r by blast
    with False x show ?thesis by (intro exI [of _ "x # ys"] exI [of _ rest]) simp
  qed
qed

lemma word_tokens_bound: "w \<noteq> [] \<Longrightarrow> 2 * word_tokens w \<le> length w + 1"
  by (cases w) (auto simp: word_tokens_def max_def)

lemma split_ws_room:
  "sum_list (map (\<lambda>w. length w + 1) (split_ws_aux acc s)) \<le> length acc + length s + 1
   \<and> (\<forall>w \<in> set (split_ws_aux acc s). w \<noteq> [])"
proof (induction acc s rule: split_ws_aux.induct)
  case (1 acc)
  then show ?case by simp
next
  case (2 acc x xs)
  show ?case
  proof (cases "py_isspace x")
    case False
    with "2.IH"(3) show ?thesis by simp
  next
    case True
    with "2.IH"(1,2) show ?thesis by (cases "acc = []") simp_all
  qed
qed

lemma estimate_bound: "2 * estimate_token_count s \<le> max 2 (length s + 1)"
proof -
  let ?ws = "split_ws s"
  have "2 * sum_list (map word_tokens ?ws) = sum_list (map (\<lambda>w. 2 * word_tokens w) ?ws)"
    by (simp add: sum_list_const_mult)
  also have "\<dots> \<le> sum_list (map (\<lambda>w. length w + 1) ?ws)"
    by (rule sum_list_mono) (use split_ws_room [of "[]" s] word_tokens_bound in \<open>auto simp: split_ws_def\<close>)
  also have "\<dots> \<le> length s + 1" using split_ws_room [of "[]" s] by (simp add: split_ws_def)
  finally have "2 * sum_list (map word_tokens ?ws) \<le> length s + 1" .
  then show ?thesis by (simp add: estimate_token_count_def max_def)
qed

text \<open>
  A summary is refused exactly for a blank text.  Otherwise it is not empty, has at most four
  characters per token asked for (a number put into the range 1 to 512 first), its characters other than
  blanks are the beginning of those of the text, and its estimated length is at least 1 token and at most
  twice the number asked for.
\<close>

theorem summary_extract:
  "(case generate_summary doc n of
      Inl e \<Rightarrow> py_strip doc = []
    | Inr s \<Rightarrow> py_strip doc \<noteq> [] \<and> s \<noteq> [] \<and> int (length s) \<le> 4 * clamp 1 512 n
        \<and> (\<exists>rest. ink doc = ink s @ rest)
        \<and> 1 \<le> estimate_token_count s \<and> int (estimate_token_count s) \<le> 2 * clamp 1 512 n)"
proof (cases "py_strip doc = []")
  case True
  then show ?thesis by (simp add: generate_summary_def)
next
  case False
  let ?n = "max 1 (min n 512)" and ?ss = "split_sentences doc"
  let ?m = "nat ?n * 4"
  have m: "0 < ?m" and im: "int ?m = 4 * ?n" by auto
  have ss: "?ss \<noteq> []"
  proof
    assume "?ss = []"
    then have "ink doc = []" using split_from_ink [of "[]" doc] by (simp add: split_sentences_def)
    then have "ink (py_strip doc) = []" by simp
    moreover have "hd (py_strip doc) \<in> set (py_strip doc)" using False by simp
    ultimately show False using py_strip_ends [of doc] False by (auto simp: ink_def filter_empty_conv)
  qed
  have "\<exists>ys rest. take_sentences ?m [] (room []) ?ss = [] @ ys \<and> [] @ ys \<noteq> []
      \<and> (\<forall>x \<in> set ys. x \<noteq> []) \<and> length (join '' '' ([] @ ys)) \<le> ?m
      \<and> concat (map ink ?ss) = concat (map ink ys) @ rest"
    by (rule take_sentences_facts) (use m ss split_from_stripped in \<open>auto simp: room_def split_sentences_def\<close>)
  then obtain ys rest where ys: "take_sentences ?m [] 0 ?ss = ys" "ys \<noteq> []" "\<forall>x \<in> set ys. x \<noteq> []"
    "length (join '' '' ys) \<le> ?m" "concat (map ink ?ss) = concat (map ink ys) @ rest" by (auto simp: room_def)
  have "join '' '' ys \<noteq> []" using ys(2,3) by (cases ys rule: remdups_adj.cases) auto
  then have g: "generate_summary doc n = Inr (join '' '' ys)"
    using False ss ys(1)
    by (simp add: generate_summary_def min_summary_tokens_def max_summary_tokens_def chars_per_token_def)
  have inks: "ink doc = ink (join '' '' ys) @ rest"
    using ys(5) split_from_ink [of "[]" doc] by (simp add: ink_join split_sentences_def)
  have len: "int (length (join '' '' ys)) \<le> 4 * ?n" using ys(4) im by linarith
  have "2 * int (estimate_token_count (join '' '' ys)) \<le> max 2 (4 * ?n + 1)"
    using estimate_bound [of "join '' '' ys"] len by linarith
  then have est: "int (estimate_token_count (join '' '' ys)) \<le> 2 * ?n" by linarith
  have "1 \<le> estimate_token_count (join '' '' ys)" using \<open>join '' '' ys \<noteq> []\<close> by (simp add: estimate_token_count_def)
  with False \<open>join '' '' ys \<noteq> []\<close> inks len est show ?thesis by (auto simp: g clamp_def min.commute)
qed

text \<open>
  The bound is tight: by the module's own estimate a summary can have more tokens than were asked for,
  since words are shorter than four characters.
\<close>

lemma summary_exceeds_tokens:
  "generate_summary ''a b c'' 1 = Inr ''a b '' \<and> estimate_token_count ''a b '' = 2"
  by code_simp

end
