(* ===== verification/Contents.thy ===== *)
theory Contents
  imports Highlights Indexer
begin

text \<open>
  Batch content retrieval: \<open>backend/api_gateway/contents.py\<close>, over any document store; the store of the
  running system is the indexer.  A flag is \<open>None\<close>, true or false as in the request.  Building an entry
  can fail only if extraction does not return, hence the option.
\<close>

record provenance_data =
  pd_credibility :: rat
  pd_ai :: rat
  pd_scored_at :: string

record content_result =
  cr_document_id :: string
  cr_version :: int
  cr_url :: string
  cr_cleaned_text :: string
  cr_highlights :: "highlight_span list option"
  cr_summary :: "string option"
  cr_provenance :: "provenance_data option"

record content_error =
  ce_code :: string
  ce_message :: string

record content_entry =
  en_document_id :: string
  en_result :: "content_result option"
  en_error :: "content_error option"

text \<open>
  The service: its store, its optional generator of summaries (from the text and the number of tokens),
  and how a time is written.
\<close>

record contents_service =
  cs_store :: "string \<Rightarrow> document_version option"
  cs_summaries :: "(string \<Rightarrow> int \<Rightarrow> string) option"
  cs_isoformat :: "datetime \<Rightarrow> string"

definition validate_request :: "string list \<Rightarrow> bool option \<Rightarrow> string option \<Rightarrow> (string \<times> string) option" where
  "validate_request document_ids highlights query =
     (if length document_ids < 1 \<or> length document_ids > 100 then
        Some (''invalid_document_id_count'', ''document_ids must contain between 1 and 100 items'')
      else if highlights = Some True \<and> (case query of None \<Rightarrow> True | Some q \<Rightarrow> py_strip q = []) then
        Some (''missing_highlight_query'', ''highlights requires a non-empty query field'')
      else None)"

definition content_of ::
    "contents_service \<Rightarrow> bool option \<Rightarrow> string option \<Rightarrow> bool option \<Rightarrow> string \<Rightarrow> document_version
      \<Rightarrow> content_entry option" where
  "content_of svc highlights query summary doc_id dv =
     (let provenance = map_option (\<lambda>p. \<lparr>pd_credibility = pv_credibility p, pd_ai = pv_ai p,
            pd_scored_at = cs_isoformat svc (pv_scored_at p)\<rparr>) (dv_provenance dv);
          doc_summary = (case cs_summaries svc of
              None \<Rightarrow> None
            | Some summarize \<Rightarrow> if summary = Some True then Some (summarize (dv_text dv) 512) else None)
      in map_option
           (\<lambda>spans. \<lparr>en_document_id = doc_id,
              en_result = Some \<lparr>cr_document_id = doc_id, cr_version = dv_version dv, cr_url = dv_url dv,
                cr_cleaned_text = dv_text dv, cr_highlights = spans, cr_summary = doc_summary,
                cr_provenance = provenance\<rparr>,
              en_error = None\<rparr>)
           (case query of
              None \<Rightarrow> Some None
            | Some q \<Rightarrow> if highlights = Some True \<and> q \<noteq> []
                        then map_option Some (extract_highlights q (dv_text dv) max_highlights)
                        else Some None))"

definition not_found_entry :: "string \<Rightarrow> content_entry" where
  "not_found_entry doc_id = \<lparr>en_document_id = doc_id, en_result = None,
     en_error = Some \<lparr>ce_code = ''document_not_found'',
       ce_message = ''Document '' @ [CHR 0x27] @ doc_id @ [CHR 0x27] @ '' was not found in the index''\<rparr>\<rparr>"

definition fetch_entry ::
    "contents_service \<Rightarrow> bool option \<Rightarrow> string option \<Rightarrow> bool option \<Rightarrow> string \<Rightarrow> content_entry option" where
  "fetch_entry svc highlights query summary doc_id =
     (case cs_store svc doc_id of
        None \<Rightarrow> Some (not_found_entry doc_id)
      | Some dv \<Rightarrow> content_of svc highlights query summary doc_id dv)"

fun fetch_contents ::
    "contents_service \<Rightarrow> bool option \<Rightarrow> string option \<Rightarrow> bool option \<Rightarrow> string list \<Rightarrow> content_entry list option" where
  "fetch_contents svc highlights query summary [] = Some []"
| "fetch_contents svc highlights query summary (doc_id # ids) =
     Option.bind (fetch_entry svc highlights query summary doc_id)
       (\<lambda>e. map_option ((#) e) (fetch_contents svc highlights query summary ids))"

definition entry_json :: "content_entry \<Rightarrow> json list" where
  "entry_json e = (case en_error e of
     Some x \<Rightarrow> [JObj [(''document_id'', JStr (en_document_id e)),
                 (''error'', JObj [(''code'', JStr (ce_code x)), (''message'', JStr (ce_message x))])]]
   | None \<Rightarrow> (case en_result e of
       None \<Rightarrow> []
     | Some r \<Rightarrow> [JObj
        ([(''document_id'', JStr (cr_document_id r)), (''version'', JInt (cr_version r)),
          (''url'', JStr (cr_url r)), (''cleaned_text'', JStr (cr_cleaned_text r))]
         @ (case cr_highlights r of None \<Rightarrow> [] | Some hs \<Rightarrow>
              [(''highlights'', JList (map (\<lambda>h. JObj [(''start'', JInt (hs_start h)), (''end'', JInt (hs_end h))]) hs))])
         @ (case cr_summary r of None \<Rightarrow> [] | Some s \<Rightarrow> [(''summary'', JStr s)])
         @ (case cr_provenance r of None \<Rightarrow> [] | Some p \<Rightarrow>
              [(''provenance'', JObj [(''credibility_score'', JReal (pd_credibility p)),
                 (''ai_generated_likelihood'', JReal (pd_ai p)), (''scored_at'', JStr (pd_scored_at p))])]))]))"

definition to_response_dict :: "content_entry list \<Rightarrow> json list" where
  "to_response_dict entries = concat (map entry_json entries)"

text \<open>The service of the running system reads the indexer and has no generator of summaries.\<close>

definition indexer_contents :: "indexer \<Rightarrow> (datetime \<Rightarrow> string) \<Rightarrow> contents_service" where
  "indexer_contents ix isoformat =
     \<lparr>cs_store = get_latest_version ix, cs_summaries = None, cs_isoformat = isoformat\<rparr>"

section \<open>Results\<close>

text \<open>What the entry for one identifier has to say.\<close>

definition entry_ok ::
    "contents_service \<Rightarrow> bool option \<Rightarrow> string option \<Rightarrow> bool option \<Rightarrow> string \<Rightarrow> content_entry \<Rightarrow> bool" where
  "entry_ok svc highlights query summary doc_id e =
     (case cs_store svc doc_id of
        None \<Rightarrow> e = not_found_entry doc_id
      | Some dv \<Rightarrow> en_document_id e = doc_id \<and> en_error e = None
          \<and> (case en_result e of None \<Rightarrow> False | Some r \<Rightarrow>
               cr_document_id r = doc_id \<and> cr_version r = dv_version dv \<and> cr_url r = dv_url dv
             \<and> cr_cleaned_text r = dv_text dv
             \<and> (case cr_highlights r of
                  None \<Rightarrow> highlights \<noteq> Some True \<or> query = None \<or> query = Some []
                | Some hs \<Rightarrow> highlights = Some True \<and> validate_highlight_spans hs (length (dv_text dv)))
             \<and> (case cr_summary r of
                  None \<Rightarrow> summary \<noteq> Some True \<or> cs_summaries svc = None
                | Some s \<Rightarrow> summary = Some True)
             \<and> map_option pd_credibility (cr_provenance r) = map_option pv_credibility (dv_provenance dv)
             \<and> map_option pd_ai (cr_provenance r) = map_option pv_ai (dv_provenance dv)))"

lemma content_of_ok:
  assumes "cs_store svc d = Some dv"
  shows "\<exists>e. content_of svc highlights query summary d dv = Some e \<and> entry_ok svc highlights query summary d e
    \<and> en_document_id e = d \<and> length (entry_json e) = 1"
proof (cases "highlights = Some True \<and> query \<noteq> None \<and> query \<noteq> Some []")
  case True
  then obtain q where q: "query = Some q" "q \<noteq> []" "highlights = Some True" by auto
  obtain hs where hs: "extract_highlights q (dv_text dv) max_highlights = Some hs"
    "validate_highlight_spans hs (length (dv_text dv))"
    by (rule extract_returns)
  with q assms show ?thesis
    by (auto simp: content_of_def entry_ok_def entry_json_def Let_def option.map_comp comp_def split: option.split)
next
  case False
  then show ?thesis using assms
    by (auto simp: content_of_def entry_ok_def entry_json_def Let_def option.map_comp comp_def split: option.split)
qed

lemma fetch_entry_ok:
  "\<exists>e. fetch_entry svc highlights query summary d = Some e \<and> entry_ok svc highlights query summary d e
    \<and> en_document_id e = d \<and> length (entry_json e) = 1"
proof (cases "cs_store svc d")
  case None
  then show ?thesis by (simp add: fetch_entry_def entry_ok_def not_found_entry_def entry_json_def)
next
  case (Some dv)
  with content_of_ok [OF Some, of highlights query summary] show ?thesis by (simp add: fetch_entry_def)
qed

text \<open>
  A batch of documents is answered in full and in order: fetching always returns, with one entry per
  requested identifier in the order of the request, each an error \<open>document_not_found\<close> or the stored
  text, version and address with exactly the optional parts asked for, whose highlights pass
  validation; and no entry is dropped from the response.
\<close>

theorem contents_in_request_order:
  "\<exists>es. fetch_contents svc highlights query summary ids = Some es
     \<and> map en_document_id es = ids
     \<and> list_all2 (entry_ok svc highlights query summary) ids es
     \<and> length (to_response_dict es) = length ids"
proof (induction ids)
  case Nil
  then show ?case by (simp add: to_response_dict_def)
next
  case (Cons d ids)
  from fetch_entry_ok [of svc highlights query summary d] obtain e where
    e: "fetch_entry svc highlights query summary d = Some e" "entry_ok svc highlights query summary d e"
      "en_document_id e = d" "length (entry_json e) = 1" by blast
  from Cons.IH obtain es where
    es: "fetch_contents svc highlights query summary ids = Some es" "map en_document_id es = ids"
      "list_all2 (entry_ok svc highlights query summary) ids es" "length (to_response_dict es) = length ids" by blast
  from e es show ?case by (simp add: to_response_dict_def)
qed

text \<open>
  The store of the running system is not restricted to visible versions: a version whose scoring failed,
  which the search indexes never hold, is served with its text.
\<close>

lemma contents_serve_unscored:
  "\<exists>ix. snd (index_document (sample_env False) (new_indexer True) 1 ''d'' ''one'' ''u'') = ix
     \<and> \<not> is_visible ix ''d'' None
     \<and> map_option (map (\<lambda>e. map_option cr_cleaned_text (en_result e)))
         (fetch_contents (indexer_contents ix (\<lambda>_. [])) None None None [''d'']) = Some [Some ''one'']"
  unfolding ex_simps(1) by (rule exI, rule conjI, rule refl) code_simp

end
