(* ===== verification/Provenance.thy ===== *)
theory Provenance
  imports Pii Indexer
begin

text \<open>
  Provenance scoring: \<open>backend/provenance_scorer/scorer.py\<close>.

  The reply of the language model, parsed, is a parameter (\<open>None\<close> when the call or the parsing raises),
  as is \<open>float\<close> on a string.  Scores are exact rationals.
\<close>

section \<open>Heuristics\<close>

text \<open>\<open>re.split(r'[...]+', s)\<close>: the parts between maximal runs of the class.\<close>

function split_runs :: "(char \<Rightarrow> bool) \<Rightarrow> string \<Rightarrow> string \<Rightarrow> string list" where
  "split_runs p acc [] = [rev acc]"
| "split_runs p acc (c # cs) =
     (if p c then rev acc # split_runs p [] (dropWhile p cs) else split_runs p (c # acc) cs)"
  by pat_completeness auto

termination
  by (relation "measure (\<lambda>(p, acc, s). length s)") (auto simp: le_imp_less_Suc length_dropWhile_le)

text \<open>\<open>s.split('\n\n')\<close>.\<close>

fun split_paragraphs :: "string \<Rightarrow> string \<Rightarrow> string list" where
  "split_paragraphs acc [] = [rev acc]"
| "split_paragraphs acc [c] = [rev (c # acc)]"
| "split_paragraphs acc (c # d # cs) =
     (if c = CHR 0x0A \<and> d = CHR 0x0A then rev acc # split_paragraphs [] cs
      else split_paragraphs (c # acc) (d # cs))"

definition stripped_parts :: "string list \<Rightarrow> string list" where
  "stripped_parts parts = filter (\<lambda>s. s \<noteq> []) (map py_strip parts)"

definition sentences_of :: "string \<Rightarrow> string list" where
  "sentences_of txt = stripped_parts (split_runs (\<lambda>c. c \<in> set ''.!?'') [] txt)"

definition number_pattern :: rx where
  "number_pattern = seq [Many digit, optional (one CHR ''.''), optional (Many digit)]"

definition average :: "rat list \<Rightarrow> rat" where
  "average xs = sum_list xs / of_nat (length xs)"

definition variance :: "rat list \<Rightarrow> rat" where
  "variance xs = average (map (\<lambda>x. (x - average xs) ^ 2) xs)"

definition lengths :: "'a list list \<Rightarrow> rat list" where
  "lengths xs = map (\<lambda>x. of_nat (length x)) xs"

definition heuristic_credibility :: "string \<Rightarrow> rat" where
  "heuristic_credibility txt =
     (let score = 1/2;
          score = (if length txt > 500 then score + 1/10 else score);
          score = (if length txt > 2000 then score + 1/10 else score);
          score = (if length (find_all number_pattern txt) > 3 then score + 1/10 else score);
          sentences = sentences_of txt;
          score = (if length sentences > 3 \<and> variance (lengths sentences) > 100 then score + 5/100 else score);
          words = split_ws (py_lower txt);
          score = (if words \<noteq> [] \<and> of_nat (length (remdups words)) / of_nat (length words) > (6/10 :: rat)
                   then score + 5/100 else score)
      in max 0 (min 1 score))"

definition ai_transitions :: "string list" where
  "ai_transitions = [''furthermore'', ''moreover'', ''additionally'', ''in conclusion'',
     ''it is important to note'', ''it is worth noting'']"

definition heuristic_ai_detection :: "string \<Rightarrow> rat" where
  "heuristic_ai_detection txt =
     (let score = 3/10;
          sentences = sentences_of txt
      in if length sentences < 3 then score
         else
           let v = variance (lengths (map split_ws sentences));
               score = (if v < 20 then score + 2/10 else if v < 50 then score + 1/10 else score);
               transition_count = length (filter (\<lambda>t. contains (py_lower txt) t) ai_transitions);
               score = (if transition_count \<ge> 3 then score + 15/100
                        else if transition_count \<ge> 2 then score + 1/10 else score);
               paragraphs = stripped_parts (split_paragraphs [] txt);
               score = (if length paragraphs > 2 \<and> variance (lengths paragraphs) < 500 then score + 1/10 else score)
           in max 0 (min 1 score))"

section \<open>The scores of a text\<close>

record scorer_env =
  se_api_key :: bool
  se_credibility_reply :: "string \<Rightarrow> json option"
  se_ai_reply :: "string \<Rightarrow> json option"
  se_float :: "string \<Rightarrow> rat option"

definition json_float :: "scorer_env \<Rightarrow> json \<Rightarrow> rat option" where
  "json_float env j = (case j of JStr s \<Rightarrow> se_float env s | _ \<Rightarrow> json_num j)"

text \<open>\<open>None\<close> is an exception.\<close>

definition llm_score :: "scorer_env \<Rightarrow> json option \<Rightarrow> rat option" where
  "llm_score env reply = (case reply of
     Some (JObj kvs) \<Rightarrow>
       map_option (\<lambda>x. max 0 (min 1 x)) (json_float env (json_get kvs ''score'' (JReal (1/2))))
   | _ \<Rightarrow> None)"

definition compute_credibility :: "scorer_env \<Rightarrow> string \<Rightarrow> rat" where
  "compute_credibility env txt =
     (case (if se_api_key env then llm_score env (se_credibility_reply env (take 2000 txt)) else None) of
        Some x \<Rightarrow> x | None \<Rightarrow> heuristic_credibility txt)"

definition compute_ai_likelihood :: "scorer_env \<Rightarrow> string \<Rightarrow> rat" where
  "compute_ai_likelihood env txt =
     (case (if se_api_key env then llm_score env (se_ai_reply env (take 2000 txt)) else None) of
        Some x \<Rightarrow> x | None \<Rightarrow> heuristic_ai_detection txt)"

definition score_text :: "scorer_env \<Rightarrow> datetime \<Rightarrow> string \<Rightarrow> provenance_score" where
  "score_text env now txt =
     \<lparr>pv_credibility = compute_credibility env txt, pv_ai = compute_ai_likelihood env txt, pv_scored_at = now\<rparr>"

section \<open>The scoring gate\<close>

record scored_document =
  sd_document_id :: string
  sd_version :: int
  sd_hash :: string
  sd_score :: "provenance_score option"
  sd_visible :: bool

type_synonym scorer = "(string \<times> int, scored_document) dict"

definition score_document ::
    "scorer_env \<Rightarrow> scorer \<Rightarrow> datetime \<Rightarrow> string \<Rightarrow> int \<Rightarrow> string \<Rightarrow> string \<Rightarrow> scored_document \<times> scorer" where
  "score_document env sc now document_id version content_hash document_text =
     (let d = \<lparr>sd_document_id = document_id, sd_version = version, sd_hash = content_hash,
               sd_score = Some (score_text env now document_text), sd_visible = True\<rparr>
      in (d, dict_set (document_id, version) d sc))"

definition rescore ::
    "scorer_env \<Rightarrow> scorer \<Rightarrow> datetime \<Rightarrow> string \<Rightarrow> int \<Rightarrow> string \<Rightarrow> (string + provenance_score) \<times> scorer" where
  "rescore env sc now document_id version document_text =
     (case dict_get sc (document_id, version) of
        None \<Rightarrow> (Inl (''Document ('' @ document_id @ '', version='' @ str_int version
                 @ '') has not been scored. Use score_document() for initial scoring.''), sc)
      | Some d \<Rightarrow>
          let s = score_text env now document_text
          in (Inr s, dict_set (document_id, version) (d\<lparr>sd_score := Some s\<rparr>) sc))"

definition scored_visible :: "scorer \<Rightarrow> string \<Rightarrow> int \<Rightarrow> bool" where
  "scored_visible sc document_id version =
     (case dict_get sc (document_id, version) of None \<Rightarrow> False | Some d \<Rightarrow> sd_visible d)"

definition get_score :: "scorer \<Rightarrow> string \<Rightarrow> int \<Rightarrow> provenance_score option" where
  "get_score sc document_id version =
     (case dict_get sc (document_id, version) of None \<Rightarrow> None | Some d \<Rightarrow> sd_score d)"

section \<open>Scores are in range\<close>

definition unit :: "rat \<Rightarrow> bool" where
  "unit x \<longleftrightarrow> 0 \<le> x \<and> x \<le> 1"

definition bump :: "bool \<Rightarrow> rat \<Rightarrow> rat \<Rightarrow> rat" where
  "bump b x s = (if b then s + x else s)"

lemma bump_range: "0 \<le> x \<Longrightarrow> lo \<le> s \<and> s \<le> hi \<Longrightarrow> lo \<le> bump b x s \<and> bump b x s \<le> hi + x"
  by (simp add: bump_def)

lemma clamped_range: "lo \<le> s \<and> s \<le> hi \<Longrightarrow> lo \<le> 1 \<Longrightarrow> 0 \<le> hi \<Longrightarrow>
    lo \<le> max 0 (min 1 s) \<and> max 0 (min 1 s) \<le> (hi :: rat)"
  by (auto simp: max_def min_def)

lemma heuristic_credibility_range: "1/2 \<le> heuristic_credibility doc \<and> heuristic_credibility doc \<le> 9/10"
proof -
  have sum: "(9/10 :: rat) = 1/2 + 1/10 + 1/10 + 1/10 + 5/100 + 5/100" by simp
  show ?thesis
    unfolding heuristic_credibility_def Let_def bump_def [symmetric] sum
    by (intro clamped_range bump_range) simp_all
qed

lemma heuristic_ai_range: "3/10 \<le> heuristic_ai_detection doc \<and> heuristic_ai_detection doc \<le> 3/4"
proof -
  have two: "lo \<le> s \<and> s \<le> hi \<Longrightarrow> 0 \<le> y \<Longrightarrow> y \<le> x \<Longrightarrow>
      lo \<le> (if a then s + x else bump b y s) \<and> (if a then s + x else bump b y s) \<le> hi + x"
    for lo s hi x y :: rat and a b by (auto simp: bump_def)
  have sum: "(3/4 :: rat) = 3/10 + 2/10 + 15/100 + 1/10" by simp
  show ?thesis
  proof (cases "length (sentences_of doc) < 3")
    case True
    then show ?thesis by (simp add: heuristic_ai_detection_def)
  next
    case False
    have "3/10 \<le> heuristic_ai_detection doc \<and> heuristic_ai_detection doc \<le> 3/10 + 2/10 + 15/100 + 1/10"
      unfolding heuristic_ai_detection_def Let_def if_not_P [OF False] bump_def [symmetric]
      by (intro clamped_range bump_range two) simp_all
    then show ?thesis by simp
  qed
qed

lemma llm_score_range: "llm_score env reply = Some x \<Longrightarrow> unit x"
  by (auto simp: llm_score_def unit_def split: option.splits json.splits)

lemma computed_range: "unit (compute_credibility env doc)" "unit (compute_ai_likelihood env doc)"
proof -
  have h: "unit (heuristic_credibility doc)" "unit (heuristic_ai_detection doc)"
    using heuristic_credibility_range [of doc] heuristic_ai_range [of doc] by (auto simp: unit_def)
  show "unit (compute_credibility env doc)" "unit (compute_ai_likelihood env doc)"
    using h llm_score_range by (auto simp: compute_credibility_def compute_ai_likelihood_def split: option.split)
qed

section \<open>Histories of scoring\<close>

datatype scorer_op =
    ScoreOp datetime string int string string
  | RescoreOp datetime string int string

definition scorer_step :: "scorer_env \<Rightarrow> scorer \<Rightarrow> scorer_op \<Rightarrow> scorer" where
  "scorer_step env sc op' = (case op' of
     ScoreOp now d v h doc \<Rightarrow> snd (score_document env sc now d v h doc)
   | RescoreOp now d v doc \<Rightarrow> snd (rescore env sc now d v doc))"

definition scorer_run :: "scorer_env \<Rightarrow> scorer_op list \<Rightarrow> scorer" where
  "scorer_run env ops = foldl (scorer_step env) [] ops"

text \<open>
  What a history says of a document version, most recent operation first: the hash it was first scored
  with last, and its current scores.
\<close>

fun scored_hash :: "string \<times> int \<Rightarrow> scorer_op list \<Rightarrow> string option" where
  "scored_hash k [] = None"
| "scored_hash k (ScoreOp now d v h doc # ops) = (if (d, v) = k then Some h else scored_hash k ops)"
| "scored_hash k (RescoreOp now d v doc # ops) = scored_hash k ops"

fun current_score :: "scorer_env \<Rightarrow> string \<times> int \<Rightarrow> scorer_op list \<Rightarrow> provenance_score option" where
  "current_score env k [] = None"
| "current_score env k (ScoreOp now d v h doc # ops) =
     (if (d, v) = k then Some (score_text env now doc) else current_score env k ops)"
| "current_score env k (RescoreOp now d v doc # ops) =
     (if (d, v) = k \<and> scored_hash k ops \<noteq> None then Some (score_text env now doc) else current_score env k ops)"

definition spec_record :: "scorer_env \<Rightarrow> scorer_op list \<Rightarrow> string \<times> int \<Rightarrow> scored_document option" where
  "spec_record env ops k =
     map_option (\<lambda>h. \<lparr>sd_document_id = fst k, sd_version = snd k, sd_hash = h,
                      sd_score = current_score env k (rev ops), sd_visible = True\<rparr>) (scored_hash k (rev ops))"

lemma scorer_run_spec: "dict_get (scorer_run env ops) k = spec_record env ops k"
proof (induction ops arbitrary: k rule: rev_induct)
  case Nil
  then show ?case by (simp add: scorer_run_def spec_record_def)
next
  case (snoc x ops)
  have run: "scorer_run env (ops @ [x]) = scorer_step env (scorer_run env ops) x" by (simp add: scorer_run_def)
  show ?case
  proof (cases x)
    case (ScoreOp now d v h doc)
    then show ?thesis
      by (auto simp: run [unfolded ScoreOp] snoc.IH scorer_step_def score_document_def spec_record_def Let_def)
  next
    case (RescoreOp now d v doc)
    then show ?thesis
      by (cases k) (auto simp: run [unfolded RescoreOp] snoc.IH scorer_step_def rescore_def spec_record_def Let_def split: option.split)
  qed
qed

lemma current_score_range:
  "current_score env k ops = Some s \<Longrightarrow> unit (pv_credibility s) \<and> unit (pv_ai s)"
  by (induction env k ops rule: current_score.induct) (auto simp: score_text_def computed_range split: if_splits)

lemma current_score_scored: "current_score env k ops = None \<longleftrightarrow> scored_hash k ops = None"
  by (induction env k ops rule: current_score.induct) auto

text \<open>
  C30. The scoring gate: after any sequence of scorings and rescorings of any documents, a document version
  is visible exactly if it was scored; its record then has its own identifier and version, the hash given
  at its last scoring and not touched by rescoring, and the scores of the last operation on it, which lie
  in [0, 1] whatever the language model replied; rescoring anything else is refused and changes nothing.
\<close>

theorem scoring_gate:
  "(case scored_hash (d, v) (rev ops) of
      None \<Rightarrow> \<not> scored_visible (scorer_run env ops) d v \<and> get_score (scorer_run env ops) d v = None
        \<and> is_err (fst (rescore env (scorer_run env ops) now d v doc))
        \<and> snd (rescore env (scorer_run env ops) now d v doc) = scorer_run env ops
    | Some h \<Rightarrow> scored_visible (scorer_run env ops) d v
        \<and> dict_get (scorer_run env ops) (d, v)
          = Some \<lparr>sd_document_id = d, sd_version = v, sd_hash = h,
                  sd_score = current_score env (d, v) (rev ops), sd_visible = True\<rparr>
        \<and> (case get_score (scorer_run env ops) d v of None \<Rightarrow> False
           | Some s \<Rightarrow> current_score env (d, v) (rev ops) = Some s
               \<and> 0 \<le> pv_credibility s \<and> pv_credibility s \<le> 1 \<and> 0 \<le> pv_ai s \<and> pv_ai s \<le> 1))"
proof (cases "scored_hash (d, v) (rev ops)")
  case None
  then have "dict_get (scorer_run env ops) (d, v) = None" by (simp add: scorer_run_spec spec_record_def)
  with None show ?thesis by (simp add: scored_visible_def get_score_def rescore_def)
next
  case (Some h)
  then have r: "dict_get (scorer_run env ops) (d, v) = Some \<lparr>sd_document_id = d, sd_version = v, sd_hash = h,
      sd_score = current_score env (d, v) (rev ops), sd_visible = True\<rparr>"
    by (simp add: scorer_run_spec spec_record_def)
  from Some current_score_scored [of env "(d, v)" "rev ops"] obtain s where
    s: "current_score env (d, v) (rev ops) = Some s" by auto
  from current_score_range [OF s] r s Some show ?thesis
    by (simp add: scored_visible_def get_score_def unit_def)
qed

end
