(* ===== verification/Validation.thy ===== *)
theory Validation
  imports Urls
begin

text \<open>
  Request validation and error responses: \<open>backend/api_gateway/validation.py\<close> and \<open>errors.py\<close>.

  The values of a request body have the types its model declares when these validators see them, so
  the tests of types are left out; a field that is not given has the default of the model.  The
  validators run in the order of the fields and the first failure counts.
\<close>

section \<open>Requests\<close>

datatype validation_error = ValidationError string string

record search_body =
  sb_query :: string
  sb_mode :: string
  sb_num_results :: int
  sb_filters :: "string option"
  sb_pipeline_id :: "string option"
  sb_min_credibility :: "rat option"
  sb_max_ai :: "rat option"

record similar_body =
  fb_url :: string
  fb_num_results :: int
  fb_filters :: "string option"

record contents_body =
  cb_document_ids :: "string list"
  cb_highlights :: "bool option"
  cb_query :: "string option"
  cb_summary :: "bool option"

record research_body =
  ab_goal :: string
  ab_schema :: "(string, json) dict option"
  ab_session_id :: "string option"
  ab_max_steps :: "int option"
  ab_max_duration_ms :: "int option"
  ab_max_tool_calls :: "int option"

definition query_max :: nat where "query_max = 2048"
definition url_max :: nat where "url_max = 2048"
definition goal_max :: nat where "goal_max = 4096"

definition valid_search_modes :: "string list" where
  "valid_search_modes = [''neural'', ''keyword'', ''hybrid'']"

definition validate_query :: "string \<Rightarrow> validation_error option" where
  "validate_query v =
     (if py_strip v = [] then Some (ValidationError ''invalid_query'' ''query must not be empty after trimming'')
      else if length v > query_max
      then Some (ValidationError ''invalid_query'' (''query must not exceed '' @ str_nat query_max @ '' code points''))
      else None)"

definition validate_mode :: "string \<Rightarrow> validation_error option" where
  "validate_mode v =
     (if v \<notin> set valid_search_modes
      then Some (ValidationError ''invalid_mode'' (''mode must be one of: '' @ join '', '' (sort valid_search_modes)))
      else None)"

definition validate_num_results :: "int \<Rightarrow> validation_error option" where
  "validate_num_results v =
     (if v < 0 \<or> v > 100
      then Some (ValidationError ''invalid_num_results'' ''num_results must be between 0 and 100 inclusive'')
      else None)"

definition validate_threshold :: "string \<Rightarrow> rat option \<Rightarrow> validation_error option" where
  "validate_threshold name v =
     (case v of
        None \<Rightarrow> None
      | Some x \<Rightarrow> if x < 0 \<or> x > 1
          then Some (ValidationError ''invalid_threshold'' (name @ '' must be between 0.0 and 1.0 inclusive''))
          else None)"

fun first_error :: "validation_error option list \<Rightarrow> validation_error option" where
  "first_error [] = None"
| "first_error (None # es) = first_error es"
| "first_error (Some e # es) = Some e"

definition search_request_errors :: "search_body \<Rightarrow> validation_error option" where
  "search_request_errors b = first_error
     [validate_query (sb_query b), validate_mode (sb_mode b), validate_num_results (sb_num_results b),
      validate_threshold ''min_credibility'' (sb_min_credibility b),
      validate_threshold ''max_ai_generated_likelihood'' (sb_max_ai b)]"

definition validate_url :: "(string \<Rightarrow> bool) \<Rightarrow> string \<Rightarrow> validation_error option" where
  "validate_url bracket_ok v =
     (if py_strip v = [] then Some (ValidationError ''invalid_url'' ''url is required'')
      else if length v > url_max
      then Some (ValidationError ''invalid_url'' (''url must not exceed '' @ str_nat url_max @ '' code points''))
      else case urlparse_all bracket_ok v of
          None \<Rightarrow> Some (ValidationError ''invalid_url'' ''url must be a syntactically valid URL'')
        | Some p \<Rightarrow>
            if up_scheme p = [] \<or> up_netloc p = []
            then Some (ValidationError ''invalid_url'' ''url must be a syntactically valid URL with scheme and host'')
            else None)"

definition similar_request_errors :: "(string \<Rightarrow> bool) \<Rightarrow> similar_body \<Rightarrow> validation_error option" where
  "similar_request_errors bracket_ok b =
     first_error [validate_url bracket_ok (fb_url b), validate_num_results (fb_num_results b)]"

definition validate_document_ids :: "string list \<Rightarrow> validation_error option" where
  "validate_document_ids v =
     (if length v < 1 \<or> length v > 100
      then Some (ValidationError ''invalid_document_id_count'' ''document_ids must contain between 1 and 100 items'')
      else None)"

definition validate_contents_request :: "contents_body \<Rightarrow> validation_error option" where
  "validate_contents_request b =
     (if cb_highlights b = Some True \<and> (case cb_query b of None \<Rightarrow> True | Some q \<Rightarrow> py_strip q = [])
      then Some (ValidationError ''missing_highlight_query'' ''highlights requires a non-empty query field'')
      else None)"

definition contents_request_errors :: "contents_body \<Rightarrow> validation_error option" where
  "contents_request_errors b = first_error [validate_document_ids (cb_document_ids b), validate_contents_request b]"

definition validate_research_goal :: "string \<Rightarrow> validation_error option" where
  "validate_research_goal v =
     (if py_strip v = []
      then Some (ValidationError ''invalid_research_request'' ''research_goal is required and must not be empty'')
      else if length v > goal_max
      then Some (ValidationError ''invalid_research_request''
             (''research_goal must not exceed '' @ str_nat goal_max @ '' code points''))
      else None)"

definition research_request_errors :: "research_body \<Rightarrow> validation_error option" where
  "research_request_errors b = validate_research_goal (ab_goal b)"

section \<open>Errors of the schema library\<close>

datatype loc_part = LocName string | LocIndex int

record schema_error =
  xe_loc :: "loc_part list option"
  xe_msg :: "string option"

definition field_to_error_code :: "(string, string) dict" where
  "field_to_error_code =
     [(''query'', ''invalid_query''), (''mode'', ''invalid_mode''), (''num_results'', ''invalid_num_results''),
      (''url'', ''invalid_url''), (''document_ids'', ''invalid_document_id_count''),
      (''research_goal'', ''invalid_research_request''), (''output_schema'', ''invalid_research_request''),
      (''min_credibility'', ''invalid_threshold''), (''max_ai_generated_likelihood'', ''invalid_threshold'')]"

fun known_field :: "loc_part list \<Rightarrow> string option" where
  "known_field [] = None"
| "known_field (LocIndex i # ps) = known_field ps"
| "known_field (LocName n # ps) = (if dict_get field_to_error_code n \<noteq> None then Some n else known_field ps)"

definition map_schema_error :: "schema_error list \<Rightarrow> validation_error" where
  "map_schema_error es =
     (case es of
        [] \<Rightarrow> ValidationError ''validation_error'' ''Request validation failed''
      | e # _ \<Rightarrow>
          (case known_field (case xe_loc e of Some l \<Rightarrow> l | None \<Rightarrow> []) of
             Some n \<Rightarrow> ValidationError (case dict_get field_to_error_code n of Some c \<Rightarrow> c | None \<Rightarrow> '''')
                        (case xe_msg e of Some m \<Rightarrow> m | None \<Rightarrow> ''Invalid value for '' @ n)
           | None \<Rightarrow> ValidationError ''validation_error''
                        (case xe_msg e of Some m \<Rightarrow> m | None \<Rightarrow> ''Request validation failed'')))"

section \<open>Error responses\<close>

record api_response =
  ap_status :: int
  ap_body :: json
  ap_headers :: "(string, string) dict"

definition json_response :: "int \<Rightarrow> json \<Rightarrow> api_response" where
  "json_response status body = \<lparr>ap_status = status, ap_body = body, ap_headers = []\<rparr>"

definition error_json :: "string \<Rightarrow> string \<Rightarrow> json" where
  "error_json code message = JObj [(''error'', JObj [(''code'', JStr code), (''message'', JStr message)])]"

definition error_response :: "int \<Rightarrow> string \<Rightarrow> string \<Rightarrow> api_response" where
  "error_response status code message = json_response status (error_json code message)"

definition validation_response :: "int \<Rightarrow> validation_error \<Rightarrow> api_response" where
  "validation_response status e = (case e of ValidationError code message \<Rightarrow> error_response status code message)"

datatype api_exn =
    RequestInvalid validation_error
  | ResourceNotFound string string
  | SchemaInvalid "schema_error list"
  | OtherError string

text \<open>\<open>ErrorHandlingMiddleware.dispatch\<close>: the inner argument is what the rest of the chain returns or raises.\<close>

definition error_dispatch :: "api_exn + api_response \<Rightarrow> api_response" where
  "error_dispatch outcome = (case outcome of
     Inr r \<Rightarrow> r
   | Inl (RequestInvalid e) \<Rightarrow> validation_response 400 e
   | Inl (ResourceNotFound code message) \<Rightarrow> error_response 404 code message
   | Inl (SchemaInvalid es) \<Rightarrow> validation_response 400 (map_schema_error es)
   | Inl (OtherError m) \<Rightarrow>
       error_response 500 ''internal_error'' ''An internal error occurred. Please try again later.'')"

end
