(* ===== verification/Sse.thy ===== *)
theory Sse
  imports PyStr
begin

text \<open>
  Server-sent events: \<open>backend/api_gateway/sse.py\<close> on the side of the server and the parser
  \<open>_parse_sse_stream\<close> of \<open>sdks/python/src/agentic_research_sdk/client.py\<close> on the side of the client.

  \<open>json.dumps(x, ensure_ascii=False)\<close> is defined up to the rendering of floats, which is a parameter, as
  is \<open>json.loads\<close>.  The lines of a response are those of \<open>str.splitlines\<close>, which is how the HTTP library
  of the client splits them.
\<close>

section \<open>JSON text\<close>

definition hex_digit :: "nat \<Rightarrow> char" where
  "hex_digit d = (if d < 10 then char_of (48 + d) else char_of (87 + d))"

definition json_escape :: "char \<Rightarrow> string" where
  "json_escape c = (let n = cp c in
     if n = 34 then [CHR 0x5C, CHR 0x22]
     else if n = 92 then [CHR 0x5C, CHR 0x5C]
     else if n = 10 then [CHR 0x5C, CHR ''n'']
     else if n = 13 then [CHR 0x5C, CHR ''r'']
     else if n = 9 then [CHR 0x5C, CHR ''t'']
     else if n = 12 then [CHR 0x5C, CHR ''f'']
     else if n = 8 then [CHR 0x5C, CHR ''b'']
     else if n < 32 then [CHR 0x5C, CHR ''u'', CHR ''0'', CHR ''0'', hex_digit (n div 16), hex_digit (n mod 16)]
     else [c])"

definition json_string :: "string \<Rightarrow> string" where
  "json_string s = [CHR 0x22] @ concat (map json_escape s) @ [CHR 0x22]"

fun json_dumps :: "(rat \<Rightarrow> string) \<Rightarrow> json \<Rightarrow> string" where
  "json_dumps fl JNull = ''null''"
| "json_dumps fl (JBool b) = (if b then ''true'' else ''false'')"
| "json_dumps fl (JInt i) = str_int i"
| "json_dumps fl (JReal x) = fl x"
| "json_dumps fl (JStr s) = json_string s"
| "json_dumps fl (JList xs) = ''['' @ join '', '' (map (json_dumps fl) xs) @ '']''"
| "json_dumps fl (JObj kvs) = ''{'' @ join '', '' (map (\<lambda>(k, v). json_string k @ '': '' @ json_dumps fl v) kvs) @ ''}''"

section \<open>Events on the wire\<close>

record sse_event =
  sv_event :: string
  sv_data :: json
  sv_id :: "string option"
  sv_retry :: "int option"

definition nl :: char where "nl = CHR 0x0A"

definition sse_lines :: "(rat \<Rightarrow> string) \<Rightarrow> sse_event \<Rightarrow> string list" where
  "sse_lines fl e =
     (case sv_id e of None \<Rightarrow> [] | Some i \<Rightarrow> [''id: '' @ i])
     @ (case sv_retry e of None \<Rightarrow> [] | Some r \<Rightarrow> [''retry: '' @ str_int r])
     @ [''event: '' @ sv_event e]
     @ map (\<lambda>line. ''data: '' @ line) (split_on nl (json_dumps fl (sv_data e)))"

definition sse_format :: "(rat \<Rightarrow> string) \<Rightarrow> sse_event \<Rightarrow> string" where
  "sse_format fl e = join [nl] (sse_lines fl e) @ [nl, nl]"

text \<open>
  \<open>SSEStream.stream\<close>: each wait for the next event ends with the event or after the keepalive interval;
  the generator is exhausted at the end of the list.
\<close>

datatype stream_wait = Arrives sse_event | StaysSilent

definition keepalive :: string where
  "keepalive = '': keepalive'' @ [nl, nl]"

definition stream_chunk :: "(rat \<Rightarrow> string) \<Rightarrow> stream_wait \<Rightarrow> string" where
  "stream_chunk fl w = (case w of Arrives e \<Rightarrow> sse_format fl e | StaysSilent \<Rightarrow> keepalive)"

definition sse_stream :: "(rat \<Rightarrow> string) \<Rightarrow> stream_wait list \<Rightarrow> string" where
  "sse_stream fl ws = concat (map (stream_chunk fl) ws)"

definition sse_headers :: "(string, string) dict \<Rightarrow> (string, string) dict" where
  "sse_headers extra =
     foldl (\<lambda>d (k, v). dict_set k v d)
       [(''Cache-Control'', ''no-cache''), (''Connection'', ''keep-alive''), (''X-Accel-Buffering'', ''no'')] extra"

section \<open>The client\<close>

text \<open>\<open>int(s)\<close>: blanks around, a sign, single underscores between digits; \<open>None\<close> is the \<open>ValueError\<close>.\<close>

fun int_body :: "bool \<Rightarrow> nat \<Rightarrow> string \<Rightarrow> nat option" where
  "int_body after acc [] = (if after then Some acc else None)"
| "int_body after acc (c # s) =
     (if ascii_digit c then int_body True (10 * acc + digit_val c) s
      else if c = CHR ''_'' \<and> after then int_body False acc s else None)"

definition py_int :: "string \<Rightarrow> int option" where
  "py_int s =
     (let t = py_strip s;
          (sgn, t) = (if starts_with t ''-'' then (- 1, drop 1 t)
                      else if starts_with t ''+'' then (1, drop 1 t) else (1 :: int, t))
      in map_option (\<lambda>n. sgn * int n) (int_body False 0 t))"

text \<open>\<open>str.splitlines()\<close> on characters below 256.\<close>

definition line_break :: "char \<Rightarrow> bool" where
  "line_break c \<longleftrightarrow> (let n = cp c in (10 \<le> n \<and> n \<le> 13) \<or> (28 \<le> n \<and> n \<le> 30) \<or> n = 133)"

fun split_lines_from :: "string \<Rightarrow> string \<Rightarrow> string list" where
  "split_lines_from acc [] = (if acc = [] then [] else [rev acc])"
| "split_lines_from acc (c # cs) =
     (if line_break c
      then rev acc # split_lines_from [] (if cp c = 13 \<and> cs \<noteq> [] \<and> cp (hd cs) = 10 then tl cs else cs)
      else split_lines_from (c # acc) cs)"

definition split_lines :: "string \<Rightarrow> string list" where
  "split_lines s = split_lines_from [] s"

record stream_event =
  sx_type :: string
  sx_data :: json
  sx_id :: "int option"

record parse_acc =
  px_type :: string
  px_id :: "int option"
  px_data :: "string list"

definition empty_acc :: parse_acc where
  "empty_acc = \<lparr>px_type = [], px_id = None, px_data = []\<rparr>"

definition event_data :: "(string \<Rightarrow> json option) \<Rightarrow> string list \<Rightarrow> json" where
  "event_data loads data_lines =
     (let s = join [nl] data_lines
      in if s = [] then JObj []
         else case loads s of Some j \<Rightarrow> j | None \<Rightarrow> JObj [(''raw'', JStr s)])"

fun parse_sse :: "(string \<Rightarrow> json option) \<Rightarrow> parse_acc \<Rightarrow> string list \<Rightarrow> stream_event list" where
  "parse_sse loads a [] = []"
| "parse_sse loads a (line # rest) =
     (if starts_with line ''event:'' then parse_sse loads (a\<lparr>px_type := py_strip (drop 6 line)\<rparr>) rest
      else if starts_with line ''id:'' then parse_sse loads (a\<lparr>px_id := py_int (drop 3 line)\<rparr>) rest
      else if starts_with line ''data:'' then
        parse_sse loads (a\<lparr>px_data := px_data a @ [py_strip (drop 5 line)]\<rparr>) rest
      else if py_strip line = [] \<and> (px_type a \<noteq> [] \<or> px_data a \<noteq> []) then
        \<lparr>sx_type = px_type a, sx_data = event_data loads (px_data a), sx_id = px_id a\<rparr>
        # parse_sse loads empty_acc rest
      else parse_sse loads a rest)"

definition sdk_events :: "(string \<Rightarrow> json option) \<Rightarrow> string \<Rightarrow> stream_event list" where
  "sdk_events loads text = parse_sse loads empty_acc (split_lines text)"

text \<open>\<open>answer\<close> and \<open>research_events\<close> of the client stop after the first terminal event.\<close>

fun until_terminal :: "stream_event list \<Rightarrow> stream_event list" where
  "until_terminal [] = []"
| "until_terminal (e # es) =
     e # (if sx_type e = ''done'' \<or> sx_type e = ''error'' then [] else until_terminal es)"

section \<open>Lines\<close>

definition plain :: "string \<Rightarrow> bool" where
  "plain s \<longleftrightarrow> list_all (\<lambda>c. \<not> line_break c) s"

lemma plain_simps [simp]:
  "plain []" "plain (c # s) \<longleftrightarrow> \<not> line_break c \<and> plain s" "plain (s @ t) \<longleftrightarrow> plain s \<and> plain t"
  by (simp_all add: plain_def)

lemma plain_concat: "(\<And>s. s \<in> set ss \<Longrightarrow> plain s) \<Longrightarrow> plain (concat ss)"
  by (induction ss) auto

lemma plain_join: "plain sep \<Longrightarrow> (\<And>s. s \<in> set ss \<Longrightarrow> plain s) \<Longrightarrow> plain (join sep ss)"
  by (induction sep ss rule: join.induct) auto

lemma nl_break [simp]: "line_break nl" "cp nl = 10"
  by code_simp+

lemma split_lines_line: "plain l \<Longrightarrow> split_lines_from acc (l @ nl # rest) = (rev acc @ l) # split_lines_from [] rest"
  by (induction l arbitrary: acc) auto

lemma split_lines_block:
  "(\<And>l. l \<in> set ls \<Longrightarrow> plain l) \<Longrightarrow>
   split_lines_from [] (concat (map (\<lambda>l. l @ [nl]) ls) @ rest) = ls @ split_lines_from [] rest"
proof (induction ls)
  case Nil
  then show ?case by simp
next
  case (Cons l ls)
  have "split_lines_from [] (l @ nl # (concat (map (\<lambda>l. l @ [nl]) ls) @ rest))
      = l # split_lines_from [] (concat (map (\<lambda>l. l @ [nl]) ls) @ rest)"
    using Cons.prems by (simp add: split_lines_line)
  with Cons show ?case by simp
qed

lemma join_lines: "ls \<noteq> [] \<Longrightarrow> join [nl] ls @ [nl] = concat (map (\<lambda>l. l @ [nl]) ls)"
  by (induction "[nl]" ls rule: join.induct) auto

lemma format_lines: "sse_format fl e = concat (map (\<lambda>l. l @ [nl]) (sse_lines fl e @ [[]]))"
proof -
  have "sse_lines fl e \<noteq> []" by (simp add: sse_lines_def)
  from join_lines [OF this] show ?thesis by (simp add: sse_format_def)
qed

lemma keepalive_lines: "keepalive = concat (map (\<lambda>l. l @ [nl]) ['': keepalive'', []])"
  by (simp add: keepalive_def)

section \<open>The text of JSON values\<close>

text \<open>The next-line character 133 is the one line break that \<open>json.dumps\<close> leaves as it is.\<close>

definition nel :: char where "nel = char_of (133 :: nat)"

definition floats_ok :: "(rat \<Rightarrow> string) \<Rightarrow> bool" where
  "floats_ok fl \<longleftrightarrow> (\<forall>x. fl x \<noteq> [] \<and> list_all (\<lambda>c. 33 \<le> cp c \<and> cp c < 127) (fl x))"

lemma printable_not_break: "32 \<le> cp c \<Longrightarrow> line_break c \<Longrightarrow> c = nel"
  by (auto simp: line_break_def Let_def nel_def cp_inj [symmetric])

lemma hex_digit_printable: "d < 16 \<Longrightarrow> 33 \<le> cp (hex_digit d)"
  by (auto simp: hex_digit_def)

lemma digit_char_printable: "d < 10 \<Longrightarrow> 33 \<le> cp (digit_char d)"
  by (simp add: digit_char_def)

lemma escape_printable: "x \<in> set (json_escape c) \<Longrightarrow> 32 \<le> cp x"
proof -
  assume x: "x \<in> set (json_escape c)"
  have cs: "32 \<le> cp CHR 0x5C" "32 \<le> cp CHR 0x22" "32 \<le> cp CHR ''n''" "32 \<le> cp CHR ''r''" "32 \<le> cp CHR ''t''"
    "32 \<le> cp CHR ''f''" "32 \<le> cp CHR ''b''" "32 \<le> cp CHR ''u''" "32 \<le> cp CHR ''0''" by code_simp+
  have h: "n < 32 \<Longrightarrow> 32 \<le> cp (hex_digit (n div 16))" "32 \<le> cp (hex_digit (n mod 16))" for n :: nat
    using hex_digit_printable [of "n div 16"] hex_digit_printable [of "n mod 16"] by (auto simp: less_mult_imp_div_less)
  show ?thesis using x cs h by (auto simp: json_escape_def Let_def split: if_splits)
qed

lemma string_printable: "x \<in> set (json_string s) \<Longrightarrow> 32 \<le> cp x"
proof -
  have "32 \<le> cp CHR 0x22" by code_simp
  then show "x \<in> set (json_string s) \<Longrightarrow> 32 \<le> cp x" by (auto simp: json_string_def dest: escape_printable)
qed

lemma set_join: "set (join sep xs) \<subseteq> set sep \<union> \<Union> (set ` set xs)"
  by (induction sep xs rule: join.induct) auto

lemma str_int_printable: "x \<in> set (str_int i) \<Longrightarrow> 32 \<le> cp x"
proof -
  have "32 \<le> cp CHR ''-''" by code_simp
  then show "x \<in> set (str_int i) \<Longrightarrow> 32 \<le> cp x"
    by (auto simp: str_int_def ascii_digit_def split: if_splits dest: str_nat_digits)
qed

lemma list_all_chars: "list_all P s \<Longrightarrow> x \<in> set s \<Longrightarrow> P x"
  by (simp add: list_all_iff)

lemma dumps_printable:
  "floats_ok fl \<Longrightarrow> x \<in> set (json_dumps fl j) \<Longrightarrow> 32 \<le> cp x"
proof (induction fl j arbitrary: x rule: json_dumps.induct)
  case (1 fl)
  have "list_all (\<lambda>c. 32 \<le> cp c) ''null''" by code_simp
  with 1 show ?case by (auto dest: list_all_chars)
next
  case (2 fl b)
  have "list_all (\<lambda>c. 32 \<le> cp c) ''true''" "list_all (\<lambda>c. 32 \<le> cp c) ''false''" by code_simp+
  with 2 show ?case by (auto dest: list_all_chars split: if_splits)
next
  case (3 fl i)
  then show ?case by (simp add: str_int_printable)
next
  case (4 fl y)
  then have "33 \<le> cp x" unfolding floats_ok_def by (auto dest: list_all_chars)
  then show ?case by simp
next
  case (5 fl s)
  then show ?case by (simp add: string_printable)
next
  case (6 fl xs)
  have c: "list_all (\<lambda>c. 32 \<le> cp c) ''[]''" "list_all (\<lambda>c. 32 \<le> cp c) '', ''" by code_simp+
  from "6.prems"(2) set_join [of "'', ''" "map (json_dumps fl) xs"]
  have "x \<in> set ''[]'' \<or> x \<in> set '', '' \<or> (\<exists>y \<in> set xs. x \<in> set (json_dumps fl y))" by auto
  with c "6.IH" "6.prems"(1) show ?case by (blast dest: list_all_chars)
next
  case (7 fl kvs)
  let ?f = "\<lambda>(k, v). json_string k @ '': '' @ json_dumps fl v"
  have c: "list_all (\<lambda>c. 32 \<le> cp c) ''{}''" "list_all (\<lambda>c. 32 \<le> cp c) '', ''" "list_all (\<lambda>c. 32 \<le> cp c) '': ''"
    by code_simp+
  from "7.prems"(2) set_join [of "'', ''" "map ?f kvs"]
  have "x \<in> set ''{}'' \<or> x \<in> set '', '' \<or> (\<exists>k v. (k, v) \<in> set kvs \<and>
      (x \<in> set (json_string k) \<or> x \<in> set '': '' \<or> x \<in> set (json_dumps fl v)))" by fastforce
  then show ?case
  proof (elim disjE exE conjE)
    fix k v assume "(k, v) \<in> set kvs" "x \<in> set (json_dumps fl v)"
    with "7.IH" "7.prems"(1) show ?thesis by fastforce
  qed (use c in \<open>blast dest: list_all_chars string_printable\<close>)+
qed

text \<open>The text neither starts nor ends with a blank.\<close>

definition tight :: "string \<Rightarrow> bool" where
  "tight s \<longleftrightarrow> s \<noteq> [] \<and> \<not> py_isspace (hd s) \<and> \<not> py_isspace (last s)"

lemma tight_strip: "tight s \<Longrightarrow> py_strip s = s"
  by (simp add: tight_def py_strip_id)

lemma graphic_not_space: "33 \<le> cp c \<Longrightarrow> cp c < 127 \<Longrightarrow> \<not> py_isspace c"
  by (auto simp: py_isspace_def Let_def)

lemma tight_graphic: "s \<noteq> [] \<Longrightarrow> list_all (\<lambda>c. 33 \<le> cp c \<and> cp c < 127) s \<Longrightarrow> tight s"
  using graphic_not_space [of "hd s"] graphic_not_space [of "last s"]
  by (simp add: tight_def list_all_iff)

lemma tight_brackets: "\<not> py_isspace a \<Longrightarrow> \<not> py_isspace b \<Longrightarrow> tight (a # s @ [b])"
  by (simp add: tight_def)

lemma str_int_graphic: "list_all (\<lambda>c. 33 \<le> cp c \<and> cp c < 127) (str_int i)"
proof -
  have "33 \<le> cp CHR ''-'' \<and> cp CHR ''-'' < 127" by code_simp
  then show ?thesis
    by (fastforce simp: str_int_def list_all_iff ascii_digit_def dest: str_nat_digits)
qed

lemma tight_dumps:
  assumes "floats_ok fl"
  shows "tight (json_dumps fl j)"
proof (cases j)
  case JNull
  have "tight ''null''" by code_simp
  then show ?thesis by (simp add: JNull)
next
  case (JBool b)
  have "tight ''true''" "tight ''false''" by code_simp+
  then show ?thesis by (simp add: JBool)
next
  case (JInt i)
  have "str_int i \<noteq> []" by (simp add: str_int_def)
  then show ?thesis by (simp add: JInt tight_graphic str_int_graphic)
next
  case (JReal x)
  then show ?thesis using assms by (simp add: floats_ok_def tight_graphic)
next
  case (JStr s)
  have "\<not> py_isspace CHR 0x22" by code_simp
  then show ?thesis by (simp add: JStr json_string_def tight_brackets)
next
  case (JList xs)
  have "\<not> py_isspace CHR ''[''" "\<not> py_isspace CHR '']''" by code_simp+
  then show ?thesis by (simp add: JList tight_brackets)
next
  case (JObj kvs)
  have "\<not> py_isspace CHR ''{''" "\<not> py_isspace CHR ''}''" by code_simp+
  then show ?thesis by (simp add: JObj tight_brackets)
qed


section \<open>From the server to the client\<close>

text \<open>What the generator yields, in order.\<close>

definition arrivals :: "stream_wait list \<Rightarrow> sse_event list" where
  "arrivals ws = concat (map (\<lambda>w. case w of Arrives e \<Rightarrow> [e] | StaysSilent \<Rightarrow> []) ws)"

definition client_view :: "sse_event \<Rightarrow> stream_event" where
  "client_view e = \<lparr>sx_type = sv_event e, sx_data = sv_data e, sx_id = Option.bind (sv_id e) py_int\<rparr>"

text \<open>An event the wire can carry: its name is one stripped non-empty line, its id is one line, and the text
  of its data holds no next-line character.\<close>

definition carries :: "(rat \<Rightarrow> string) \<Rightarrow> sse_event \<Rightarrow> bool" where
  "carries fl e \<longleftrightarrow> sv_event e \<noteq> [] \<and> plain (sv_event e) \<and> py_strip (sv_event e) = sv_event e
     \<and> (case sv_id e of None \<Rightarrow> True | Some i \<Rightarrow> plain i)
     \<and> list_all (\<lambda>c. c \<noteq> nel) (json_dumps fl (sv_data e))"

lemma split_on_absent: "c \<notin> set s \<Longrightarrow> split_on c s = [s]"
  by (induction s) auto

lemma dumps_plain:
  "floats_ok fl \<Longrightarrow> list_all (\<lambda>c. c \<noteq> nel) (json_dumps fl j) \<Longrightarrow> plain (json_dumps fl j)"
  unfolding plain_def list_all_iff using dumps_printable printable_not_break by blast

lemma dumps_one_line: "floats_ok fl \<Longrightarrow> split_on nl (json_dumps fl j) = [json_dumps fl j]"
proof (rule split_on_absent)
  assume "floats_ok fl"
  then show "nl \<notin> set (json_dumps fl j)" using dumps_printable [of fl nl j] by auto
qed

lemma strip_space: "py_strip (CHR '' '' # s) = py_strip s"
proof -
  have "py_isspace CHR '' ''" by code_simp
  then show ?thesis by (simp add: py_strip_def py_lstrip_def)
qed

lemma strip_nonempty: "\<not> py_isspace a \<Longrightarrow> py_strip (a # s) \<noteq> []"
  by (auto simp: py_strip_def py_lstrip_def py_rstrip_def)

lemma carried_lines_plain:
  assumes "floats_ok fl" "carries fl e" "l \<in> set (sse_lines fl e)"
  shows "plain l"
proof -
  have c: "plain ''id: ''" "plain ''retry: ''" "plain ''event: ''" "plain ''data: ''" by code_simp+
  have r: "plain (str_int i)" for i
    using str_int_graphic [of i] by (auto simp: plain_def list_all_iff line_break_def Let_def)
  show ?thesis
    using assms c r dumps_plain [of fl "sv_data e"]
    by (auto simp: sse_lines_def carries_def dumps_one_line split: option.splits)
qed

lemma parse_skips:
  "parse_sse loads a ((''retry: '' @ s) # rest) = parse_sse loads a rest"
  "parse_sse loads a ('': keepalive'' # rest) = parse_sse loads a rest"
proof -
  have "\<not> py_isspace CHR ''r''" by code_simp
  then have "py_strip (''retry: '' @ s) \<noteq> []" by (simp add: strip_nonempty)
  then show "parse_sse loads a ((''retry: '' @ s) # rest) = parse_sse loads a rest"
    by (simp add: starts_with_def)
  have "py_strip '': keepalive'' \<noteq> []" by code_simp
  then show "parse_sse loads a ('': keepalive'' # rest) = parse_sse loads a rest"
    by (simp add: starts_with_def)
qed

lemma parse_event_line:
  "parse_sse loads a ((''event: '' @ s) # rest) = parse_sse loads (a\<lparr>px_type := py_strip s\<rparr>) rest"
  by (simp add: starts_with_def strip_space)

lemma py_int_space: "py_int (CHR '' '' # s) = py_int s"
  by (simp add: py_int_def strip_space)

lemma parse_id_line:
  "parse_sse loads a ((''id: '' @ s) # rest) = parse_sse loads (a\<lparr>px_id := py_int s\<rparr>) rest"
  by (simp add: starts_with_def py_int_space)

lemma parse_data_line:
  "parse_sse loads a ((''data: '' @ s) # rest) = parse_sse loads (a\<lparr>px_data := px_data a @ [py_strip s]\<rparr>) rest"
  by (simp add: starts_with_def strip_space)

lemma parse_blank_line:
  "parse_sse loads a ([] # rest) =
     (if px_type a \<noteq> [] \<or> px_data a \<noteq> []
      then \<lparr>sx_type = px_type a, sx_data = event_data loads (px_data a), sx_id = px_id a\<rparr> # parse_sse loads empty_acc rest
      else parse_sse loads a rest)"
  by (simp add: starts_with_def py_strip_def py_lstrip_def py_rstrip_def)

lemmas parse_lines = parse_skips parse_event_line parse_id_line parse_data_line parse_blank_line

lemma parse_chunk:
  assumes fl: "floats_ok fl" and e: "carries fl e"
    and loads: "loads (json_dumps fl (sv_data e)) = Some (sv_data e)"
  shows "parse_sse loads empty_acc (sse_lines fl e @ [] # rest) = client_view e # parse_sse loads empty_acc rest"
proof -
  have t: "tight (json_dumps fl (sv_data e))" using fl by (rule tight_dumps)
  then have d: "event_data loads [json_dumps fl (sv_data e)] = sv_data e"
    using loads by (simp add: event_data_def tight_def)
  show ?thesis
    using e t d
    by (simp add: sse_lines_def dumps_one_line [OF fl] carries_def tight_strip client_view_def empty_acc_def
        parse_lines [unfolded append.simps] del: parse_sse.simps(2) split: option.split)
qed

lemma sdk_chunk:
  assumes "floats_ok fl" "\<And>e. w = Arrives e \<Longrightarrow> carries fl e \<and> loads (json_dumps fl (sv_data e)) = Some (sv_data e)"
  shows "parse_sse loads empty_acc (split_lines_from [] (stream_chunk fl w @ rest))
       = (case w of Arrives e \<Rightarrow> [client_view e] | StaysSilent \<Rightarrow> [])
         @ parse_sse loads empty_acc (split_lines_from [] rest)"
proof (cases w)
  case (Arrives e)
  have "plain l" if "l \<in> set (sse_lines fl e @ [[]])" for l
    using that carried_lines_plain assms Arrives by auto
  from split_lines_block [of "sse_lines fl e @ [[]]", OF this]
  show ?thesis
    using parse_chunk [of fl e loads] assms Arrives
    by (simp add: stream_chunk_def format_lines)
next
  case StaysSilent
  have "plain l" if "l \<in> set ['': keepalive'', []]" for l
  proof -
    have "list_all plain ['': keepalive'', []]" by code_simp
    with that show ?thesis by (auto simp: list_all_iff)
  qed
  from split_lines_block [of "['': keepalive'', []]", OF this]
  show ?thesis
    using StaysSilent
    by (simp add: stream_chunk_def keepalive_lines empty_acc_def parse_lines del: parse_sse.simps(2))
qed

text \<open>
  For every sequence of events and of silences long enough for a keepalive, the client's parser, applied
  to the bytes of the stream, yields exactly the events, in order, and no event for a keepalive.
\<close>

lemma sse_roundtrip:
  assumes "floats_ok fl"
    and "\<And>e. e \<in> set (arrivals ws) \<Longrightarrow> carries fl e"
    and "\<And>e. e \<in> set (arrivals ws) \<Longrightarrow> loads (json_dumps fl (sv_data e)) = Some (sv_data e)"
  shows "sdk_events loads (sse_stream fl ws) = map client_view (arrivals ws)"
  using assms(2,3)
proof (induction ws)
  case Nil
  show ?case by (simp add: sdk_events_def sse_stream_def arrivals_def split_lines_def)
next
  case (Cons w ws)
  have "carries fl e \<and> loads (json_dumps fl (sv_data e)) = Some (sv_data e)" if "w = Arrives e" for e
    using Cons.prems that by (simp add: arrivals_def)
  from sdk_chunk [OF assms(1) this, where rest = "sse_stream fl ws"]
  have "sdk_events loads (sse_stream fl (w # ws))
      = (case w of Arrives e \<Rightarrow> [client_view e] | StaysSilent \<Rightarrow> []) @ sdk_events loads (sse_stream fl ws)"
    by (simp add: sdk_events_def sse_stream_def split_lines_def)
  moreover have "sdk_events loads (sse_stream fl ws) = map client_view (arrivals ws)"
    using Cons by (simp add: arrivals_def)
  ultimately show ?case by (simp add: arrivals_def split: stream_wait.split)
qed


definition sample_token :: sse_event where
  "sample_token = \<lparr>sv_event = ''token'', sv_data = JObj [(''text'', JStr [CHR ''a'', CHR 0x0A]), (''index'', JInt 0)],
     sv_id = Some ''1'', sv_retry = None\<rparr>"

definition sample_done :: sse_event where
  "sample_done = \<lparr>sv_event = ''done'', sv_data = JObj [(''answer'', JReal (1 / 2))], sv_id = Some ''2'', sv_retry = Some 5\<rparr>"

definition half :: "rat \<Rightarrow> string" where "half x = ''0.5''"

lemma half_ok: "floats_ok half"
proof -
  have "list_all (\<lambda>c. 33 \<le> cp c \<and> cp c < 127) ''0.5''" by code_simp
  then show ?thesis by (simp add: floats_ok_def half_def)
qed

text \<open>A decoder that knows the two texts.\<close>

definition sample_loads :: "string \<Rightarrow> json option" where
  "sample_loads s = map_of [(json_dumps half (sv_data sample_token), sv_data sample_token),
     (json_dumps half (sv_data sample_done), sv_data sample_done)] s"

lemma sample_carried:
  "carries half sample_token" "carries half sample_done"
  "sample_loads (json_dumps half (sv_data sample_token)) = Some (sv_data sample_token)"
  "sample_loads (json_dumps half (sv_data sample_done)) = Some (sv_data sample_done)"
  by code_simp+

lemma sse_roundtrip_sample:
  "floats_ok half \<and>
   sdk_events sample_loads (sse_stream half [StaysSilent, Arrives sample_token, StaysSilent, Arrives sample_done])
     = [\<lparr>sx_type = ''token'', sx_data = JObj [(''text'', JStr [CHR ''a'', CHR 0x0A]), (''index'', JInt 0)], sx_id = Some 1\<rparr>,
        \<lparr>sx_type = ''done'', sx_data = JObj [(''answer'', JReal (1 / 2))], sx_id = Some 2\<rparr>]"
proof -
  let ?ws = "[StaysSilent, Arrives sample_token, StaysSilent, Arrives sample_done]"
  have a: "arrivals ?ws = [sample_token, sample_done]" by (simp add: arrivals_def)
  have "sdk_events sample_loads (sse_stream half ?ws) = map client_view (arrivals ?ws)"
    by (rule sse_roundtrip [OF half_ok]) (auto simp: a sample_carried)
  moreover have "map client_view [sample_token, sample_done]
     = [\<lparr>sx_type = ''token'', sx_data = JObj [(''text'', JStr [CHR ''a'', CHR 0x0A]), (''index'', JInt 0)], sx_id = Some 1\<rparr>,
        \<lparr>sx_type = ''done'', sx_data = JObj [(''answer'', JReal (1 / 2))], sx_id = Some 2\<rparr>]" by code_simp
  ultimately show ?thesis by (simp add: a half_ok)
qed

text \<open>\<open>int(str(n))\<close> is \<open>n\<close>.\<close>

lemma int_body_digits:
  "list_all ascii_digit s \<Longrightarrow> s \<noteq> [] \<or> after \<Longrightarrow> int_body after acc s = Some (foldl (\<lambda>n c. 10 * n + digit_val c) acc s)"
  by (induction s arbitrary: after acc) auto

lemma py_int_str_nat: "py_int (str_nat n) = Some (int n)"
proof -
  have g: "list_all (\<lambda>c. 33 \<le> cp c \<and> cp c < 127) (str_nat n)"
    by (auto simp: list_all_iff ascii_digit_def dest!: str_nat_digits)
  have ne: "str_nat n \<noteq> []" by simp
  have s: "py_strip (str_nat n) = str_nat n"
    by (rule tight_strip, rule tight_graphic) (use g ne in auto)
  have d: "list_all ascii_digit (str_nat n)" by (auto simp: list_all_iff dest: str_nat_digits)
  obtain c cs where c: "str_nat n = c # cs" using ne by (cases "str_nat n") auto
  have "ascii_digit c" using d c by simp
  moreover have "\<not> ascii_digit CHR ''-''" "\<not> ascii_digit CHR ''+''" by code_simp+
  ultimately have "\<not> starts_with (str_nat n) ''-''" "\<not> starts_with (str_nat n) ''+''"
    by (auto simp: c starts_with_def)
  then show ?thesis
    using int_body_digits [OF d, of False 0] ne nat_of_digits_str_nat [of n] by (simp add: py_int_def s nat_of_digits_def Let_def)
qed

text \<open>The next-line character is not escaped, so it cuts the data in two and the rest is lost.\<close>

lemma nel_cuts_event:
  assumes "loads (CHR 0x22 # ''a'') = None"
  shows "sdk_events loads (sse_stream fl
      [Arrives \<lparr>sv_event = ''token'', sv_data = JStr [CHR ''a'', nel, CHR ''b''], sv_id = None, sv_retry = None\<rparr>])
    = [\<lparr>sx_type = ''token'', sx_data = JObj [(''raw'', JStr (CHR 0x22 # ''a''))], sx_id = None\<rparr>]"
proof -
  let ?e = "\<lparr>sv_event = ''token'', sv_data = JStr [CHR ''a'', nel, CHR ''b''], sv_id = None, sv_retry = None\<rparr>"
  have lines: "split_lines (sse_stream fl [Arrives ?e])
      = [''event: '' @ ''token'', ''data: '' @ CHR 0x22 # ''a'', ''b'' @ [CHR 0x22], []]"
  proof -
    have "json_dumps fl (sv_data ?e) = json_string [CHR ''a'', nel, CHR ''b'']" by simp
    moreover have "split_lines (join [nl] ([''event: token''] @ map (\<lambda>line. ''data: '' @ line)
         (split_on nl (json_string [CHR ''a'', nel, CHR ''b'']))) @ [nl, nl])
      = [''event: '' @ ''token'', ''data: '' @ CHR 0x22 # ''a'', ''b'' @ [CHR 0x22], []]" by code_simp
    ultimately show ?thesis
      by (simp add: sse_stream_def stream_chunk_def sse_format_def sse_lines_def)
  qed
  have s: "py_strip ''token'' = ''token''" "py_strip (CHR 0x22 # ''a'') = CHR 0x22 # ''a''"
    "starts_with (''b'' @ [CHR 0x22]) ''event:'' = False" "starts_with (''b'' @ [CHR 0x22]) ''id:'' = False"
    "starts_with (''b'' @ [CHR 0x22]) ''data:'' = False" "py_strip (''b'' @ [CHR 0x22]) \<noteq> []" by code_simp+
  have skip: "parse_sse loads a ((''b'' @ [CHR 0x22]) # rest) = parse_sse loads a rest" for a rest
    using s by simp
  show ?thesis
    unfolding sdk_events_def lines parse_event_line parse_data_line skip parse_blank_line
    using s assms by (simp add: empty_acc_def event_data_def)
qed

end
