(* ===== verification/Ingest.thy ===== *)
theory Ingest
  imports Prelude PyStr
begin

text \<open>
  The queue in front of the indexer: \<open>backend/indexer/kafka_ingest.py\<close>.

  The broker is a parameter: whether a client can be started at all, and whether a send is
  acknowledged.  A topic is the list of the messages it has taken.  The producer keeps the messages it
  cannot send in a list; the consumer works through batches and moves what its handler rejects to the
  dead-letter topic.
\<close>

section \<open>The producer\<close>

record ingest_message =
  im_id :: string
  im_url :: string
  im_content :: string
  im_tenant :: string
  im_request :: string
  im_published :: datetime

text \<open>
  The environment: \<open>KAFKA_BOOTSTRAP_SERVERS\<close> is set, the package can be imported and the client starts,
  a send is acknowledged.
\<close>

record broker =
  bk_configured :: bool
  bk_starts :: bool
  bk_accepts :: bool

record ingest_producer =
  kp_connected :: bool
  kp_available :: "bool option"
  kp_topic :: "ingest_message list"
  kp_pending :: "ingest_message list"

definition new_producer :: ingest_producer where
  "new_producer = \<lparr>kp_connected = False, kp_available = None, kp_topic = [], kp_pending = []\<rparr>"

text \<open>
  \<open>_get_producer\<close>.  The client object is assigned before it is started: when the start fails, the object
  stays, so the next call takes it for a connected one.
\<close>

definition get_producer :: "broker \<Rightarrow> ingest_producer \<Rightarrow> bool \<times> ingest_producer" where
  "get_producer b p =
     (if kp_connected p then (True, p)
      else if \<not> bk_configured b then (False, p\<lparr>kp_available := Some False\<rparr>)
      else if bk_starts b then (True, p\<lparr>kp_connected := True, kp_available := Some True\<rparr>)
      else (False, p\<lparr>kp_connected := True, kp_available := Some False\<rparr>))"

definition is_available :: "ingest_producer \<Rightarrow> bool" where
  "is_available p = (kp_available p = Some True)"

text \<open>\<open>publish\<close>: the identifier of the message, or the exception of the send.\<close>

definition publish :: "broker \<Rightarrow> ingest_producer \<Rightarrow> datetime \<Rightarrow> string \<Rightarrow> string \<Rightarrow> string \<Rightarrow> string
    \<Rightarrow> string \<Rightarrow> string option \<Rightarrow> (string + string) \<times> ingest_producer" where
  "publish b p now fresh fresh_request source_url raw_content tenant_id request_id =
     (let m = \<lparr>im_id = fresh, im_url = source_url, im_content = raw_content, im_tenant = tenant_id,
               im_request = (case request_id of Some r \<Rightarrow> if r = [] then fresh_request else r | None \<Rightarrow> fresh_request),
               im_published = now\<rparr>;
          (connected, p') = get_producer b p
      in if connected
         then (if bk_accepts b then (Inr fresh, p'\<lparr>kp_topic := kp_topic p' @ [m]\<rparr>) else (Inl ''KafkaError'', p'))
         else (Inr fresh, p'\<lparr>kp_pending := kp_pending p' @ [m]\<rparr>))"

definition close_producer :: "ingest_producer \<Rightarrow> ingest_producer" where
  "close_producer p = (if kp_connected p then p\<lparr>kp_connected := False\<rparr> else p)"

section \<open>The consumer\<close>

text \<open>
  The state of the handler is whatever it writes to; \<open>Inl\<close> is its exception.  The client reads on from its
  position; the committed offset is where a new client starts.
\<close>

record 's ingest_consumer =
  kc_state :: 's
  kc_dlq :: "(ingest_message \<times> string) list"
  kc_position :: nat
  kc_committed :: nat

type_synonym 's index_handler = "string \<Rightarrow> string \<Rightarrow> string \<Rightarrow> 's \<Rightarrow> (string + unit) \<times> 's"

definition route_failed :: "broker \<Rightarrow> ingest_message \<Rightarrow> string \<Rightarrow> 's ingest_consumer \<Rightarrow> 's ingest_consumer" where
  "route_failed b m err c =
     (if bk_configured b \<and> bk_starts b \<and> bk_accepts b then c\<lparr>kc_dlq := kc_dlq c @ [(m, err)]\<rparr> else c)"

definition process_message ::
    "'s index_handler \<Rightarrow> broker \<Rightarrow> 's ingest_consumer \<Rightarrow> ingest_message \<Rightarrow> 's ingest_consumer" where
  "process_message handler b c m =
     (case handler (im_content m) (im_url m) (im_request m) (kc_state c) of
        (Inr u, s) \<Rightarrow> c\<lparr>kc_state := s\<rparr>
      | (Inl err, s) \<Rightarrow> route_failed b m err (c\<lparr>kc_state := s\<rparr>))"

text \<open>
  One round of \<open>_consume_loop\<close> fetches up to ten messages and commits its position, which may fail;
  between rounds the process may be restarted.
\<close>

datatype consumer_event = Round nat bool | Restart

definition consume_batch ::
    "'s index_handler \<Rightarrow> broker \<Rightarrow> bool \<Rightarrow> ingest_message list \<Rightarrow> 's ingest_consumer \<Rightarrow> 's ingest_consumer" where
  "consume_batch handler b commits ms c =
     (let c' = foldl (process_message handler b) (c\<lparr>kc_position := kc_position c + length ms\<rparr>) ms
      in if ms \<noteq> [] \<and> commits then c'\<lparr>kc_committed := kc_position c'\<rparr> else c')"

fun consume :: "'s index_handler \<Rightarrow> broker \<Rightarrow> ingest_message list \<Rightarrow> consumer_event list \<Rightarrow> 's ingest_consumer \<Rightarrow> 's ingest_consumer" where
  "consume handler b topic [] c = c"
| "consume handler b topic (Round n ok # es) c =
     consume handler b topic es (consume_batch handler b ok (take (min 10 n) (drop (kc_position c) topic)) c)"
| "consume handler b topic (Restart # es) c = consume handler b topic es (c\<lparr>kc_position := kc_committed c\<rparr>)"

section \<open>What reaches the queue\<close>

text \<open>A producer on which nothing has been published is not available, whatever the broker.\<close>

lemma fresh_producer_unavailable: "\<not> is_available new_producer"
  by (simp add: is_available_def new_producer_def)

section \<open>No message is lost\<close>

text \<open>What the handler does to a sequence of messages: its final state and the rejections, in order.\<close>

fun handled :: "'s index_handler \<Rightarrow> 's \<Rightarrow> ingest_message list \<Rightarrow> 's \<times> (ingest_message \<times> string) list" where
  "handled handler s [] = (s, [])"
| "handled handler s (m # ms) =
     (case handler (im_content m) (im_url m) (im_request m) s of
        (Inr u, s') \<Rightarrow> handled handler s' ms
      | (Inl err, s') \<Rightarrow> (case handled handler s' ms of (s'', ds) \<Rightarrow> (s'', (m, err) # ds)))"

definition reachable :: "broker \<Rightarrow> bool" where
  "reachable b \<longleftrightarrow> bk_configured b \<and> bk_starts b \<and> bk_accepts b"

lemma process_reachable:
  "reachable b \<Longrightarrow> process_message handler b c m =
     (case handler (im_content m) (im_url m) (im_request m) (kc_state c) of
        (Inr u, s) \<Rightarrow> c\<lparr>kc_state := s\<rparr>
      | (Inl err, s) \<Rightarrow> c\<lparr>kc_state := s, kc_dlq := kc_dlq c @ [(m, err)]\<rparr>)"
  by (auto simp: process_message_def route_failed_def reachable_def split: prod.split sum.split)

lemma batch_handled:
  "reachable b \<Longrightarrow> foldl (process_message handler b) c ms =
     (case handled handler (kc_state c) ms of (s, ds) \<Rightarrow> c\<lparr>kc_state := s, kc_dlq := kc_dlq c @ ds\<rparr>)"
  by (induction ms arbitrary: c) (auto simp: process_reachable split: prod.split sum.split)

lemma handled_append:
  "handled handler s (xs @ ys) = (case handled handler s xs of (s1, d1) \<Rightarrow>
     case handled handler s1 ys of (s2, d2) \<Rightarrow> (s2, d1 @ d2))"
  by (induction xs arbitrary: s) (auto split: prod.split sum.split)

lemma batch_consumed:
  assumes "reachable b" and "handled handler (kc_state c) ms = (s, ds)"
  shows "consume_batch handler b ok ms c =
    c\<lparr>kc_state := s, kc_dlq := kc_dlq c @ ds, kc_position := kc_position c + length ms,
      kc_committed := (if ms \<noteq> [] \<and> ok then kc_position c + length ms else kc_committed c)\<rparr>"
  using assms by (simp add: consume_batch_def batch_handled)

text \<open>What is delivered to the handler: after a restart everything past the committed offset again.\<close>

fun deliveries :: "ingest_message list \<Rightarrow> consumer_event list \<Rightarrow> nat \<Rightarrow> nat \<Rightarrow> ingest_message list" where
  "deliveries topic [] pos com = []"
| "deliveries topic (Round n ok # es) pos com =
     (let ms = take (min 10 n) (drop pos topic)
      in ms @ deliveries topic es (pos + length ms) (if ms \<noteq> [] \<and> ok then pos + length ms else com))"
| "deliveries topic (Restart # es) pos com = deliveries topic es com com"

lemma consume_delivers:
  assumes "reachable b"
  shows "handled handler (kc_state c) (deliveries topic es (kc_position c) (kc_committed c))
    = (kc_state (consume handler b topic es c), drop (length (kc_dlq c)) (kc_dlq (consume handler b topic es c)))
    \<and> take (length (kc_dlq c)) (kc_dlq (consume handler b topic es c)) = kc_dlq c"
proof (induction es arbitrary: c)
  case Nil
  then show ?case by simp
next
  case (Cons e es)
  show ?case
  proof (cases e)
    case (Round n ok)
    let ?ms = "take (min 10 n) (drop (kc_position c) topic)"
    let ?c = "consume_batch handler b ok ?ms c"
    obtain s ds where h: "handled handler (kc_state c) ?ms = (s, ds)" by fastforce
    note c = batch_consumed [OF assms h, of ok]
    from Cons.IH [of ?c] have
      i: "handled handler s (deliveries topic es (kc_position ?c) (kc_committed ?c))
        = (kc_state (consume handler b topic es ?c), drop (length (kc_dlq c @ ds)) (kc_dlq (consume handler b topic es ?c)))"
      and t: "take (length (kc_dlq c @ ds)) (kc_dlq (consume handler b topic es ?c)) = kc_dlq c @ ds"
      by (simp_all add: c)
    have "drop (length (kc_dlq c)) (kc_dlq (consume handler b topic es ?c))
        = ds @ drop (length (kc_dlq c @ ds)) (kc_dlq (consume handler b topic es ?c))"
      using append_take_drop_id [of "length (kc_dlq c @ ds)" "kc_dlq (consume handler b topic es ?c)"] t
      by (metis append.assoc append_eq_conv_conj)
    moreover have "take (length (kc_dlq c)) (kc_dlq (consume handler b topic es ?c)) = kc_dlq c"
      using append_take_drop_id [of "length (kc_dlq c @ ds)" "kc_dlq (consume handler b topic es ?c)"] t
      by (metis append.assoc append_eq_conv_conj)
    ultimately show ?thesis
      using i h Round by (simp add: handled_append Let_def c)
  next
    case Restart
    then show ?thesis using Cons.IH [of "c\<lparr>kc_position := kc_committed c\<rparr>"] by simp
  qed
qed

lemma take_length_take: "take (length (take k xs)) xs = take k xs"
  by (metis append_eq_conv_conj append_take_drop_id)

text \<open>The committed offset never passes a message that was not delivered.\<close>

lemma committed_delivered:
  assumes "reachable b" and "kc_committed c \<le> kc_position c"
  shows "set (take (kc_committed (consume handler b topic es c)) topic)
    \<subseteq> set (take (kc_position c) topic) \<union> set (deliveries topic es (kc_position c) (kc_committed c))"
  using assms(2)
proof (induction es arbitrary: c)
  case Nil
  then show ?case by (simp add: set_take_subset_set_take)
next
  case (Cons e es)
  show ?case
  proof (cases e)
    case (Round n ok)
    let ?ms = "take (min 10 n) (drop (kc_position c) topic)"
    let ?c = "consume_batch handler b ok ?ms c"
    obtain s ds where h: "handled handler (kc_state c) ?ms = (s, ds)" by fastforce
    note c = batch_consumed [OF assms(1) h, of ok]
    have "set (take (kc_position c + length ?ms) topic) \<subseteq> set (take (kc_position c) topic) \<union> set ?ms"
      by (simp only: take_add take_length_take set_append)
    moreover have "kc_committed ?c \<le> kc_position ?c" using Cons.prems by (simp add: c)
    from Cons.IH [OF this] have "set (take (kc_committed (consume handler b topic es ?c)) topic)
      \<subseteq> set (take (kc_position ?c) topic) \<union> set (deliveries topic es (kc_position ?c) (kc_committed ?c))" .
    ultimately show ?thesis using Round by (auto simp: Let_def c)
  next
    case Restart
    have "set (take (kc_committed c) topic) \<subseteq> set (take (kc_position c) topic)"
      using Cons.prems by (rule set_take_subset_set_take)
    then show ?thesis using Restart Cons.IH [of "c\<lparr>kc_position := kc_committed c\<rparr>"] by auto
  qed
qed


definition sample_message :: "string \<Rightarrow> ingest_message" where
  "sample_message u = \<lparr>im_id = ''m'', im_url = u, im_content = ''text'', im_tenant = ''t'', im_request = ''r'', im_published = 0\<rparr>"

definition sample_handler :: "string list index_handler" where
  "sample_handler content url rid s = (if url = ''bad'' then (Inl ''no'', s) else (Inr (), s @ [url]))"

definition fresh_consumer :: "string list ingest_consumer" where
  "fresh_consumer = \<lparr>kc_state = [], kc_dlq = [], kc_position = 0, kc_committed = 0\<rparr>"


text \<open>
  When the dead-letter topic cannot be reached, the rejected message is committed all the same: it is
  neither indexed nor kept.
\<close>

lemma unreachable_dlq_loses_message:
  "let c = consume_batch sample_handler \<lparr>bk_configured = True, bk_starts = False, bk_accepts = True\<rparr> True
             [sample_message ''bad''] fresh_consumer
   in kc_state c = [] \<and> kc_dlq c = [] \<and> kc_committed c = 1"
  by (simp add: consume_batch_def process_message_def route_failed_def sample_handler_def sample_message_def fresh_consumer_def)

text \<open>
  A message published while the broker cannot be reached goes to a list that nothing reads; and after a
  failed start the producer counts as connected, so that the next message raises instead of waiting.
\<close>

lemma failed_start_sticks:
  "let b = \<lparr>bk_configured = True, bk_starts = False, bk_accepts = False\<rparr>;
       (r1, p1) = publish b new_producer 0 ''m1'' ''r1'' ''u'' ''c'' ''t'' None;
       (r2, p2) = publish b p1 0 ''m2'' ''r2'' ''u'' ''c'' ''t'' None
   in r1 = Inr ''m1'' \<and> length (kp_pending p1) = 1 \<and> r2 = Inl ''KafkaError'' \<and> length (kp_pending p2) = 1"
  by (simp add: publish_def get_producer_def new_producer_def)

end
