(* ===== verification/Gateway.thy ===== *)
theory Gateway
  imports Validation Answer Contents Retriever ResearchAgent SessionStore Pipeline Sse Ingest
begin

text \<open>
  The handlers of \<open>backend/api_gateway/routes.py\<close> over the services they share.

  One record holds the state of all services of a process.  A handler takes it with the tenant that the
  authentication stored, the body of the request and the readings of the clocks and of the generators of
  identifiers (\<open>tick\<close>), and returns its response, or the exception that leaves it, and the new state.  The
  handlers run one after the other: each reads and writes the services without awaiting, except where
  it waits for the broker or the model.
\<close>

section \<open>State and environment\<close>

text \<open>
  The table \<open>documents\<close> of the database, when \<open>DATABASE_URL\<close> is set: its columns, those of a unique
  constraint, and its rows as the two statements of this module see them.  A statement that names a
  column the table lacks raises.
\<close>

record document_row =
  dr_document_id :: string
  dr_source_url :: string
  dr_version :: int
  dr_hash :: string
  dr_text :: string
  dr_visible :: bool

record documents_table =
  dt_columns :: "string list"
  dt_unique :: "string list"
  dt_visible_default :: bool
  dt_rows :: "document_row list"

record gateway =
  gw_indexer :: indexer
  gw_retriever :: retriever
  gw_research :: research_service
  gw_sessions :: session_service
  gw_pipelines :: pipeline_service
  gw_producer :: ingest_producer
  gw_table :: "documents_table option"

text \<open>
  The parameters of the services, how times are written, and the identifiers and times of emission that
  the models of the services leave out: by job, and position in the report or number of the event.
\<close>

record gateway_env =
  ge_index :: index_env
  ge_retriever :: Retriever.retriever_env
  ge_research :: research_env
  ge_provider :: provider
  ge_broker :: broker
  ge_isoformat :: "datetime \<Rightarrow> string"
  ge_citation_id :: "string \<Rightarrow> nat \<Rightarrow> string"
  ge_emitted_at :: "string \<Rightarrow> nat \<Rightarrow> string"
  ge_floats :: "rat \<Rightarrow> string"

record tick =
  tk_now :: rat
  tk_at :: datetime
  tk_fresh :: string
  tk_fresh2 :: string

type_synonym outcome = "api_exn + api_response"

section \<open>The database of documents\<close>

definition persist_columns :: "string list" where
  "persist_columns = [''document_id'', ''source_url'', ''version'', ''content_hash'', ''cleaned_text'', ''updated_at'']"

definition load_columns :: "string list" where
  "load_columns = [''document_id'', ''source_url'', ''version'', ''cleaned_text'', ''visible'']"

text \<open>The table that the migration \<open>003_create_documents.sql\<close> creates.\<close>

definition migrated_columns :: "string list" where
  "migrated_columns = [''document_id'', ''tenant_id'', ''canonical_url'', ''first_seen_at'']"

fun upsert_row :: "document_row \<Rightarrow> document_row list \<Rightarrow> document_row list" where
  "upsert_row r [] = [r]"
| "upsert_row r (x # xs) =
     (if dr_source_url x = dr_source_url r
      then x\<lparr>dr_version := dr_version x + 1, dr_hash := dr_hash r, dr_text := dr_text r\<rparr> # xs
      else x # upsert_row r xs)"

definition persist_document :: "gateway_env \<Rightarrow> documents_table option \<Rightarrow> string \<Rightarrow> string \<Rightarrow> int \<Rightarrow> string
    \<Rightarrow> documents_table option" where
  "persist_document env table document_id source_url version content =
     (case table of
        None \<Rightarrow> None
      | Some t \<Rightarrow>
          (let cleaned = clean_html (ie_unescape (ge_index env)) content;
               content_hash = compute_content_hash (ge_index env) cleaned
           in if set persist_columns \<subseteq> set (dt_columns t) \<and> ''source_url'' \<in> set (dt_unique t)
              then Some (t\<lparr>dt_rows := upsert_row \<lparr>dr_document_id = document_id, dr_source_url = source_url,
                       dr_version = version, dr_hash = content_hash, dr_text = cleaned,
                       dr_visible = dt_visible_default t\<rparr> (dt_rows t)\<rparr>)
              else Some t))"

definition load_row :: "index_env \<Rightarrow> datetime \<Rightarrow> indexer \<Rightarrow> document_row \<Rightarrow> indexer" where
  "load_row env now ix r =
     (let v = \<lparr>dv_document_id = dr_document_id r, dv_version = dr_version r, dv_hash = ''loaded'',
               dv_text = dr_text r, dv_url = dr_source_url r, dv_last_seen = now, dv_created = now,
               dv_provenance = None, dv_visible = True\<rparr>
      in write_indexes env
           (ix\<lparr>ix_urls := dict_set (dr_source_url r) (dr_document_id r) (ix_urls ix),
               ix_documents := dict_set (dr_document_id r) [v] (ix_documents ix)\<rparr>) v)"

definition load_persisted_documents :: "index_env \<Rightarrow> datetime \<Rightarrow> documents_table option \<Rightarrow> indexer \<Rightarrow> indexer" where
  "load_persisted_documents env now table ix =
     (case table of
        None \<Rightarrow> ix
      | Some t \<Rightarrow>
          if set load_columns \<subseteq> set (dt_columns t)
          then foldl (load_row env now) ix (filter dr_visible (dt_rows t))
          else ix)"

text \<open>\<open>_get_services\<close> on the first request: fresh services, then the reload.\<close>

definition get_services :: "gateway_env \<Rightarrow> datetime \<Rightarrow> step_env \<Rightarrow> documents_table option \<Rightarrow> gateway" where
  "get_services env now steps table =
     \<lparr>gw_indexer = load_persisted_documents (ge_index env) now table (new_indexer False),
      gw_retriever = new_retriever, gw_research = new_research_service 32,
      gw_sessions = \<lparr>ss_sessions = [], ss_audit_ok = None, ss_audits = []\<rparr>,
      gw_pipelines = new_pipeline_service (default_registry steps),
      gw_producer = new_producer, gw_table = table\<rparr>"


section \<open>Indexing\<close>

definition with_indexer :: "indexer \<Rightarrow> gateway \<Rightarrow> gateway" where
  "with_indexer ix g = g\<lparr>gw_indexer := ix\<rparr>"

definition post_index :: "gateway_env \<Rightarrow> gateway \<Rightarrow> tick \<Rightarrow> string \<Rightarrow> string \<Rightarrow> string \<Rightarrow> outcome \<times> gateway" where
  "post_index env g t tenant url content =
     (if url = [] \<or> content = []
      then (Inr (error_response 422 ''validation_error'' ''url and content are required''), g)
      else if is_available (gw_producer g) then
        (case publish (ge_broker env) (gw_producer g) (tk_at t) (tk_fresh t) (tk_fresh2 t) url content tenant None of
           (Inl e, p) \<Rightarrow> (Inl (OtherError e), g\<lparr>gw_producer := p\<rparr>)
         | (Inr message_id, p) \<Rightarrow>
             (Inr (json_response 202 (JObj [(''message_id'', JStr message_id), (''status'', JStr ''queued'')])),
              g\<lparr>gw_producer := p\<rparr>))
      else
        (case index_document (ge_index env) (gw_indexer g) (tk_at t) (tk_fresh t) content url of
           (Inl e, ix) \<Rightarrow> (Inl (OtherError e), g\<lparr>gw_indexer := ix\<rparr>)
         | (Inr res, ix) \<Rightarrow>
             (Inr (json_response 201 (JObj [(''document_id'', JStr (xr_document_id res)),
                     (''version'', JInt (xr_version res)), (''is_new'', JBool (xr_is_new res))])),
              g\<lparr>gw_indexer := ix,
                gw_table := persist_document env (gw_table g) (xr_document_id res) url (xr_version res) content\<rparr>)))"

section \<open>Search\<close>

definition search_mode_of :: "string \<Rightarrow> search_mode option" where
  "search_mode_of s = (if s = ''neural'' then Some Neural else if s = ''keyword'' then Some Keyword
     else if s = ''hybrid'' then Some Hybrid else None)"

definition provenance_json :: "search_result \<Rightarrow> json" where
  "provenance_json r = JObj [(''credibility_score'', JReal (pv_credibility (sr_provenance r))),
     (''ai_generated_likelihood'', JReal (pv_ai (sr_provenance r)))]"

definition result_json :: "gateway_env \<Rightarrow> search_result \<Rightarrow> json" where
  "result_json env r = JObj
     [(''document_id'', JStr (sr_id r)), (''url'', JStr (sr_url r)), (''title'', JStr (sr_title r)),
      (''score'', JReal (sr_score r)),
      (''published_at'', case sr_published r of None \<Rightarrow> JNull | Some d \<Rightarrow> JStr (ge_isoformat env d)),
      (''provenance'', provenance_json r), (''version'', JInt (sr_version r))]"

definition similar_json :: "search_result \<Rightarrow> json" where
  "similar_json r = JObj
     [(''document_id'', JStr (sr_id r)), (''url'', JStr (sr_url r)), (''title'', JStr (sr_title r)),
      (''score'', JReal (sr_score r)), (''provenance'', provenance_json r), (''version'', JInt (sr_version r))]"

definition results_body :: "json list \<Rightarrow> json" where
  "results_body rs = JObj [(''results'', JList rs), (''total'', JInt (int (length rs)))]"

definition post_search :: "gateway_env \<Rightarrow> gateway \<Rightarrow> tick \<Rightarrow> string \<Rightarrow> search_body \<Rightarrow> outcome \<times> gateway" where
  "post_search env g t tenant b =
     (case search_request_errors b of
        Some e \<Rightarrow> (Inr (validation_response 422 e), g)
      | None \<Rightarrow>
          (case search_mode_of (sb_mode b) of
             None \<Rightarrow> (Inl (OtherError ''ValueError''), g)
           | Some m \<Rightarrow>
               (let r = \<lparr>rq_query = sb_query b, rq_mode = m, rq_num_results = sb_num_results b,
                         rq_filters = map_option JStr (sb_filters b), rq_pipeline = sb_pipeline_id b,
                         rq_min_credibility = sb_min_credibility b, rq_max_ai = sb_max_ai b, rq_tenant = tenant\<rparr>;
                    (response, rv) = search (ge_retriever env) (gw_indexer g) (gw_retriever g) (tk_now t) (tk_at t) r
                in (Inr \<lparr>ap_status = 200, ap_body = results_body (map (result_json env) (Retriever.rr_results response)),
                         ap_headers = [(''X-Index-Version'', str_int (rr_index_version response))]\<rparr>,
                    g\<lparr>gw_retriever := rv\<rparr>))))"

definition post_find_similar :: "gateway_env \<Rightarrow> gateway \<Rightarrow> tick \<Rightarrow> string \<Rightarrow> similar_body \<Rightarrow> outcome \<times> gateway" where
  "post_find_similar env g t tenant b =
     (case similar_request_errors (re_bracket_ok (ge_retriever env)) b of
        Some e \<Rightarrow> (Inr (validation_response 422 e), g)
      | None \<Rightarrow>
          (case find_similar (ge_retriever env) (gw_indexer g) (gw_retriever g) (tk_at t)
                  \<lparr>sq_url = fb_url b, sq_num_results = fb_num_results b, sq_min_credibility = None,
                   sq_max_ai = None, sq_tenant = tenant\<rparr> of
             (Inl (DocumentNotFoundError u), rv) \<Rightarrow>
               (Inr (error_response 404 ''document_not_found'' ''URL not found in index''), g\<lparr>gw_retriever := rv\<rparr>)
           | (Inl UrlValueError, rv) \<Rightarrow> (Inl (OtherError ''ValueError''), g\<lparr>gw_retriever := rv\<rparr>)
           | (Inr response, rv) \<Rightarrow>
               (Inr (json_response 200 (results_body (map similar_json (Retriever.rr_results response)))),
                g\<lparr>gw_retriever := rv\<rparr>)))"

section \<open>Contents\<close>

text \<open>\<open>extract_highlights\<close> returns on every input, by \<open>highlights_return\<close>, so the last case is never reached.\<close>

definition post_contents :: "gateway_env \<Rightarrow> gateway \<Rightarrow> contents_body \<Rightarrow> outcome \<times> gateway" where
  "post_contents env g b =
     (case contents_request_errors b of
        Some e \<Rightarrow> (Inr (validation_response 422 e), g)
      | None \<Rightarrow>
          (case fetch_contents (indexer_contents (gw_indexer g) (ge_isoformat env)) (cb_highlights b) (cb_query b)
                  (cb_summary b) (cb_document_ids b) of
             Some entries \<Rightarrow>
               (Inr (json_response 200 (JObj [(''results'', JList (to_response_dict entries))])), g)
           | None \<Rightarrow> (Inl (OtherError ''does not return''), g)))"

section \<open>Answers\<close>

definition answer_request :: "string \<Rightarrow> string \<Rightarrow> search_request" where
  "answer_request tenant query =
     \<lparr>rq_query = query, rq_mode = Hybrid, rq_num_results = 5, rq_filters = None, rq_pipeline = None,
      rq_min_credibility = None, rq_max_ai = None, rq_tenant = tenant\<rparr>"

text \<open>A source carries the version that the search found and the text of the latest version.\<close>

definition retrieval_result :: "indexer \<Rightarrow> search_result \<Rightarrow> source_doc list" where
  "retrieval_result ix r =
     (case get_latest_version ix (sr_id r) of
        None \<Rightarrow> []
      | Some d \<Rightarrow> [\<lparr>so_document_id = sr_id r, so_version = sr_version r, so_url = sr_url r, so_title = sr_title r,
                    so_score = sr_score r, so_cleaned_text = dv_text d\<rparr>])"

definition answer_error_value :: "answer_error_code \<Rightarrow> string" where
  "answer_error_value c = (case c of
     NO_SOURCES_AVAILABLE \<Rightarrow> ''no_sources_available''
   | STREAM_TIMEOUT \<Rightarrow> ''stream_timeout''
   | MODEL_ERROR \<Rightarrow> ''model_error''
   | INTERNAL_ERROR \<Rightarrow> ''internal_error''
   | CLIENT_CANCELLED \<Rightarrow> ''client_cancelled'')"

definition error_object :: "answer_error_code \<Rightarrow> string \<Rightarrow> json" where
  "error_object c m = JObj [(''code'', JStr (answer_error_value c)), (''message'', JStr m)]"

definition span_json :: "citation_event \<Rightarrow> json" where
  "span_json c = JObj [(''document_id'', JStr (ci_document_id c)), (''version'', JInt (ci_version c)),
     (''answer_start'', JInt (ci_answer_start c)), (''answer_end'', JInt (ci_answer_end c))]"

definition citation_json :: "citation_event \<Rightarrow> json" where
  "citation_json c = JObj [(''document_id'', JStr (ci_document_id c)), (''version'', JInt (ci_version c)),
     (''answer_start'', JInt (ci_answer_start c)), (''answer_end'', JInt (ci_answer_end c)),
     (''source_start'', JInt (ci_source_start c)), (''source_end'', JInt (ci_source_end c))]"

definition sse_answer_event :: "nat \<Rightarrow> answer_event \<Rightarrow> sse_event" where
  "sse_answer_event event_id e =
     (let (name, data) = (case e of
        TokenEvent t i \<Rightarrow> (''token'', JObj [(''text'', JStr t), (''index'', JInt (int i))])
      | Answer.CitationEvent c \<Rightarrow> (''citation'', citation_json c)
      | DoneEvent a cs \<Rightarrow> (''done'', JObj [(''answer'', JStr a), (''citations'', JList (map span_json cs))])
      | Answer.ErrorEvent c m \<Rightarrow> (''error'', error_object c m))
      in \<lparr>sv_event = name, sv_data = data, sv_id = Some (str_nat event_id), sv_retry = None\<rparr>)"

definition sse_answer :: "answer_event list \<Rightarrow> sse_event list" where
  "sse_answer es = map (\<lambda>(i, e). sse_answer_event i e) (zip [1..<Suc (length es)] es)"

text \<open>The loop of the JSON response: the text, the citations and the error collected so far.\<close>

definition collect_event :: "string \<times> json list \<times> json option \<Rightarrow> answer_event \<Rightarrow> string \<times> json list \<times> json option" where
  "collect_event s e = (case s of (full_answer, citations, err) \<Rightarrow> (case e of
     TokenEvent t i \<Rightarrow> (full_answer @ t, citations, err)
   | Answer.CitationEvent c \<Rightarrow> (full_answer, citations @ [citation_json c], err)
   | DoneEvent a cs \<Rightarrow> (a, map span_json cs, err)
   | Answer.ErrorEvent c m \<Rightarrow> (full_answer, citations, Some (error_object c m))))"

definition collected_response :: "answer_event list \<Rightarrow> api_response" where
  "collected_response es =
     (case foldl collect_event ([], [], None) es of
        (full_answer, citations, Some err) \<Rightarrow> json_response 200 (JObj [(''error'', err)])
      | (full_answer, citations, None) \<Rightarrow>
          json_response 200 (JObj [(''answer'', JStr full_answer), (''citations'', JList citations)]))"

datatype answer_reply = JsonReply api_response | SseReply "sse_event list"

definition silence_seconds :: rat where "silence_seconds = 30"

definition post_answer :: "gateway_env \<Rightarrow> gateway \<Rightarrow> tick \<Rightarrow> string \<Rightarrow> string \<Rightarrow> string \<Rightarrow> answer_reply \<times> gateway" where
  "post_answer env g t tenant accept query =
     (if py_strip query = [] then (JsonReply (error_response 422 ''invalid_query'' ''query is required''), g)
      else
        let (response, rv) = search (ge_retriever env) (gw_indexer g) (gw_retriever g) (tk_now t) (tk_at t)
                               (answer_request tenant query);
            sources = concat (map (retrieval_result (gw_indexer g)) (Retriever.rr_results response));
            events = generate_answer (ge_provider env) silence_seconds query sources
        in (if contains accept ''text/event-stream'' then SseReply (sse_answer events)
            else JsonReply (collected_response events),
            g\<lparr>gw_retriever := rv\<rparr>))"


section \<open>Research\<close>

text \<open>
  The retriever as the executor of a job uses it: five results for the tenant with the empty name, and the
  texts of the latest versions.  A job runs to its end inside \<open>start_job\<close>; the results of its searches are
  those of the state in which it starts, and the searches of the steps it started, in order, are what
  changes the retriever.
\<close>

definition research_request :: "string \<Rightarrow> search_request" where
  "research_request query =
     \<lparr>rq_query = query, rq_mode = Hybrid, rq_num_results = 5, rq_filters = None, rq_pipeline = None,
      rq_min_credibility = None, rq_max_ai = None, rq_tenant = []\<rparr>"

definition research_retriever :: "gateway_env \<Rightarrow> gateway \<Rightarrow> tick \<Rightarrow> ResearchAgent.retriever_env" where
  "research_retriever env g t =
     \<lparr>rv_search = (\<lambda>q. Some (map (\<lambda>r. \<lparr>sh_document_id = sr_id r, sh_version = sr_version r, sh_url = sr_url r,
                         sh_title = sr_title r, sh_score = sr_score r\<rparr>)
                       (Retriever.rr_results (fst (search (ge_retriever env) (gw_indexer g) (gw_retriever g)
                          (tk_now t) (tk_at t) (research_request q)))))),
      rv_indexer = Some (\<lambda>d. map_option dv_text (get_latest_version (gw_indexer g) d))\<rparr>"

definition step_query :: "plan_step \<Rightarrow> string" where
  "step_query st = take 200 (if ps_description st \<noteq> [] then ps_description st
     else (case ps_goal st of Some goal \<Rightarrow> goal | None \<Rightarrow> ''research''))"

definition job_searches :: "research_service \<Rightarrow> string \<Rightarrow> string list" where
  "job_searches sv job_id =
     (case Option.bind (dict_get (rs_jobs sv) job_id) rj_plan of
        None \<Rightarrow> []
      | Some plan \<Rightarrow>
          (let started = length (filter (\<lambda>e. re_type e = StepStarted) (stream (rs_emitter sv) job_id))
           in map step_query (filter (\<lambda>st. ps_type st = RetrievalStep) (take started (rp_steps plan)))))"

definition run_searches :: "gateway_env \<Rightarrow> gateway \<Rightarrow> tick \<Rightarrow> string list \<Rightarrow> retriever" where
  "run_searches env g t queries =
     foldl (\<lambda>rv q. snd (search (ge_retriever env) (gw_indexer g) rv (tk_now t) (tk_at t) (research_request q)))
       (gw_retriever g) queries"

definition int_or :: "int option \<Rightarrow> int \<Rightarrow> int" where
  "int_or x d = (case x of Some n \<Rightarrow> if n = 0 then d else n | None \<Rightarrow> d)"

definition request_budgets :: "research_body \<Rightarrow> budget_config" where
  "request_budgets b = \<lparr>bc_max_steps = int_or (ab_max_steps b) 32,
     bc_max_duration_ms = int_or (ab_max_duration_ms b) 300000, bc_max_tool_calls = int_or (ab_max_tool_calls b) 100\<rparr>"

definition post_research :: "gateway_env \<Rightarrow> gateway \<Rightarrow> tick \<Rightarrow> string \<Rightarrow> research_body \<Rightarrow> outcome \<times> gateway" where
  "post_research env g t tenant b =
     (case research_request_errors b of
        Some e \<Rightarrow> (Inr (validation_response 422 e), g)
      | None \<Rightarrow>
          (case start_job (gw_research g) ((ge_research env)\<lparr>ev_retriever := Some (research_retriever env g t)\<rparr>)
                  (tk_now t) (tk_fresh t) tenant (ab_goal b) (ab_schema b) (Some (request_budgets b)) of
             (Inl (InvalidResearchRequest m), sv) \<Rightarrow>
               (Inr (error_response 422 ''invalid_research_request'' m), g\<lparr>gw_research := sv\<rparr>)
           | (Inl (JobNotFound j), sv) \<Rightarrow> (Inl (OtherError ''JobNotFoundError''), g\<lparr>gw_research := sv\<rparr>)
           | (Inr job_id, sv) \<Rightarrow>
               (Inr (json_response 201 (JObj [(''job_id'', JStr job_id)])),
                g\<lparr>gw_research := sv, gw_retriever := run_searches env g t (job_searches sv job_id)\<rparr>)))"

definition job_not_found :: api_response where
  "job_not_found = error_response 404 ''job_not_found'' ''Research job not found''"

definition report_citation_json :: "gateway_env \<Rightarrow> string \<Rightarrow> nat \<Rightarrow> research_citation \<Rightarrow> json" where
  "report_citation_json env job_id i c = JObj
     [(''citation_id'', JStr (ge_citation_id env job_id i)), (''document_id'', rc_document_id c),
      (''version'', rc_version c), (''answer_start'', rc_answer_start c), (''answer_end'', rc_answer_end c),
      (''source_start'', rc_source_start c), (''source_end'', rc_source_end c)]"

definition report_json :: "gateway_env \<Rightarrow> research_report \<Rightarrow> json" where
  "report_json env r = JObj
     [(''job_id'', JStr (rr_job r)), (''text'', JStr (rr_text r)),
      (''structured_payload'', case rr_structured r of None \<Rightarrow> JNull | Some d \<Rightarrow> JObj d),
      (''citations'', JList (map (\<lambda>(i, c). report_citation_json env (rr_job r) i c)
                             (zip [0..<length (rr_citations r)] (rr_citations r)))),
      (''is_partial'', JBool (rr_partial r))]"

definition get_research :: "gateway_env \<Rightarrow> gateway \<Rightarrow> string \<Rightarrow> string \<Rightarrow> outcome" where
  "get_research env g tenant job_id =
     (case get_report (gw_research g) job_id tenant of
        Inl e \<Rightarrow> Inr job_not_found
      | Inr report \<Rightarrow> Inr (json_response 200 (report_json env report)))"

definition event_type_value :: "event_type \<Rightarrow> string" where
  "event_type_value t = (case t of PlanUpdated \<Rightarrow> ''plan_updated'' | StepStarted \<Rightarrow> ''step_started''
     | StepCompleted \<Rightarrow> ''step_completed'' | ResearchEvents.CitationEvent \<Rightarrow> ''citation''
     | ReportChunk \<Rightarrow> ''report_chunk'' | ResearchEvents.Done \<Rightarrow> ''done'' | ResearchEvents.ErrorEvent \<Rightarrow> ''error'')"

definition event_json :: "gateway_env \<Rightarrow> research_event \<Rightarrow> json" where
  "event_json env e = JObj
     [(''event_id'', JInt (int (re_id e))), (''type'', JStr (event_type_value (re_type e))),
      (''payload'', JObj (re_payload e)), (''emitted_at'', JStr (ge_emitted_at env (re_job e) (re_id e)))]"

text \<open>
  The identifier the client saw last: absent or empty for the whole stream; a number below zero is below
  every identifier; \<open>Inl\<close> is the \<open>ValueError\<close> of a text that is no number.
\<close>

definition last_event :: "string option \<Rightarrow> api_exn + nat option" where
  "last_event header =
     (case header of
        None \<Rightarrow> Inr None
      | Some s \<Rightarrow> if s = [] then Inr None
                  else (case py_int s of
                      None \<Rightarrow> Inl (OtherError ''ValueError'')
                    | Some n \<Rightarrow> Inr (if n < 0 then None else Some (nat n))))"

definition get_research_events :: "gateway_env \<Rightarrow> gateway \<Rightarrow> string \<Rightarrow> string \<Rightarrow> string option \<Rightarrow> outcome" where
  "get_research_events env g tenant job_id header =
     (case last_event header of
        Inl e \<Rightarrow> Inl e
      | Inr last_id \<Rightarrow>
          (case get_events (gw_research g) job_id tenant last_id of
             Inl e \<Rightarrow> Inr job_not_found
           | Inr es \<Rightarrow> Inr (json_response 200 (JObj [(''events'', JList (map (event_json env) es))]))))"

section \<open>Sessions\<close>

definition post_session :: "gateway_env \<Rightarrow> gateway \<Rightarrow> tick \<Rightarrow> string \<Rightarrow> int option \<Rightarrow> outcome \<times> gateway" where
  "post_session env g t tenant retention_days =
     (case create_session (gw_sessions g) (tk_fresh t) (tk_at t) tenant retention_days of
        (Inl e, sv) \<Rightarrow>
          (Inr (error_response 422 ''invalid_session_request''
             (''retention_days must be an integer in ['' @ str_int min_retention @ '', '' @ str_int max_retention @ '']'')),
           g\<lparr>gw_sessions := sv\<rparr>)
      | (Inr s, sv) \<Rightarrow>
          (Inr (json_response 201 (JObj [(''session_id'', JStr (se_id s)), (''tenant_id'', JStr (se_tenant s)),
             (''retention_days'', JInt (se_retention s)), (''expires_at'', JStr (ge_isoformat env (expires_at s)))])),
           g\<lparr>gw_sessions := sv\<rparr>))"

definition session_not_found :: api_response where
  "session_not_found = error_response 404 ''session_not_found'' ''Session not found''"

definition delete_session_route :: "gateway \<Rightarrow> tick \<Rightarrow> string \<Rightarrow> string \<Rightarrow> outcome \<times> gateway" where
  "delete_session_route g t tenant session_id =
     (case delete_session (gw_sessions g) (tk_at t) session_id tenant of
        (Inl e, sv) \<Rightarrow> (Inr session_not_found, g\<lparr>gw_sessions := sv\<rparr>)
      | (Inr u, sv) \<Rightarrow> (Inr (json_response 204 JNull), g\<lparr>gw_sessions := sv\<rparr>))"

section \<open>Pipelines\<close>

record step_body =
  tb_name :: string
  tb_config :: "config option"
  tb_timeout :: "int option"

definition step_dict :: "step_body \<Rightarrow> step_def" where
  "step_dict s = \<lparr>sd_name = Some (tb_name s), sd_timeout = Some (tb_timeout s), sd_config = Some (tb_config s)\<rparr>"

definition pipeline_type_value :: "Pipeline.step_type \<Rightarrow> string" where
  "pipeline_type_value ty = (case ty of Filter \<Rightarrow> ''filter'' | Reranker \<Rightarrow> ''reranker'' | Transform \<Rightarrow> ''transform'')"

definition created_step_json :: "pipeline_step \<Rightarrow> json" where
  "created_step_json s = JObj [(''name'', JStr (pp_name s)), (''type'', JStr (pipeline_type_value (pp_type s))),
     (''timeout_ms'', JInt (pp_timeout s))]"

definition stored_step_json :: "pipeline_step \<Rightarrow> json" where
  "stored_step_json s = JObj [(''name'', JStr (pp_name s)), (''type'', JStr (pipeline_type_value (pp_type s))),
     (''config'', case pp_config s of None \<Rightarrow> JNull | Some c \<Rightarrow> JObj c), (''timeout_ms'', JInt (pp_timeout s))]"

definition pipeline_json :: "gateway_env \<Rightarrow> (pipeline_step \<Rightarrow> json) \<Rightarrow> pipeline \<Rightarrow> json" where
  "pipeline_json env step p = JObj
     [(''pipeline_id'', JStr (pl_id p)), (''name'', JStr (pl_name p)), (''steps'', JList (map step (pl_steps p))),
      (''created_at'', JStr (ge_isoformat env (pl_created p)))]"

definition post_pipeline :: "gateway_env \<Rightarrow> gateway \<Rightarrow> tick \<Rightarrow> string \<Rightarrow> string \<Rightarrow> step_body list \<Rightarrow> outcome \<times> gateway" where
  "post_pipeline env g t tenant name steps =
     (if name = [] then (Inr (error_response 422 ''validation_error'' ''name is required''), g)
      else
        (case create_pipeline (gw_pipelines g) (tk_at t) (tk_fresh t) tenant name (map step_dict steps) of
           (Inl (InvalidPipeline m), sv) \<Rightarrow>
             (Inr (error_response 422 ''invalid_pipeline'' m), g\<lparr>gw_pipelines := sv\<rparr>)
         | (Inl (UnknownPipelineStep names), sv) \<Rightarrow>
             (Inr (error_response 422 ''unknown_pipeline_step'' (''Unknown pipeline steps: '' @ join '', '' names)),
              g\<lparr>gw_pipelines := sv\<rparr>)
         | (Inl e, sv) \<Rightarrow> (Inl (OtherError ''exception''), g\<lparr>gw_pipelines := sv\<rparr>)
         | (Inr p, sv) \<Rightarrow>
             (Inr (json_response 201 (pipeline_json env created_step_json p)), g\<lparr>gw_pipelines := sv\<rparr>)))"

definition get_pipeline_route :: "gateway_env \<Rightarrow> gateway \<Rightarrow> string \<Rightarrow> string \<Rightarrow> outcome" where
  "get_pipeline_route env g tenant pipeline_id =
     (case get_pipeline (gw_pipelines g) pipeline_id tenant of
        Inl e \<Rightarrow> Inr (error_response 404 ''pipeline_not_found'' ''Pipeline not found'')
      | Inr p \<Rightarrow> Inr (json_response 200 (pipeline_json env stored_step_json p)))"


section \<open>Requests\<close>

datatype request =
    IndexReq string string
  | SearchReq search_body
  | SimilarReq similar_body
  | ContentsReq contents_body
  | AnswerReq string string
  | ResearchReq research_body
  | ReportReq string
  | EventsReq string "string option"
  | SessionReq "int option"
  | DeleteSessionReq string
  | PipelineReq string "step_body list"
  | GetPipelineReq string

text \<open>The handler of a request behind \<open>ErrorHandlingMiddleware\<close>, the innermost layer of the application.\<close>

definition respond :: "outcome \<times> gateway \<Rightarrow> answer_reply \<times> gateway" where
  "respond r = (JsonReply (error_dispatch (fst r)), snd r)"

definition serve_request :: "gateway_env \<Rightarrow> gateway \<Rightarrow> tick \<Rightarrow> string \<Rightarrow> request \<Rightarrow> answer_reply \<times> gateway" where
  "serve_request env g t tenant q = (case q of
     IndexReq url content \<Rightarrow> respond (post_index env g t tenant url content)
   | SearchReq b \<Rightarrow> respond (post_search env g t tenant b)
   | SimilarReq b \<Rightarrow> respond (post_find_similar env g t tenant b)
   | ContentsReq b \<Rightarrow> respond (post_contents env g b)
   | AnswerReq accept query \<Rightarrow> post_answer env g t tenant accept query
   | ResearchReq b \<Rightarrow> respond (post_research env g t tenant b)
   | ReportReq j \<Rightarrow> respond (get_research env g tenant j, g)
   | EventsReq j header \<Rightarrow> respond (get_research_events env g tenant j header, g)
   | SessionReq days \<Rightarrow> respond (post_session env g t tenant days)
   | DeleteSessionReq s \<Rightarrow> respond (delete_session_route g t tenant s)
   | PipelineReq name steps \<Rightarrow> respond (post_pipeline env g t tenant name steps)
   | GetPipelineReq p \<Rightarrow> respond (get_pipeline_route env g tenant p, g))"

definition run_gateway :: "gateway_env \<Rightarrow> gateway \<Rightarrow> (tick \<times> string \<times> request) list \<Rightarrow> gateway" where
  "run_gateway env g hs = foldl (\<lambda>g (t, tenant, q). snd (serve_request env g t tenant q)) g hs"

lemma run_gateway_append: "run_gateway env g (hs @ xs) = run_gateway env (run_gateway env g hs) xs"
  by (simp add: run_gateway_def)

section \<open>Errors\<close>

text \<open>The errors a request can be answered with: status and code.\<close>

fun error_table :: "request \<Rightarrow> (int \<times> string) list" where
  "error_table (IndexReq u c) = [(422, ''validation_error''), (500, ''internal_error'')]"
| "error_table (SearchReq b) = [(422, ''invalid_query''), (422, ''invalid_mode''), (422, ''invalid_num_results''), (422, ''invalid_threshold'')]"
| "error_table (SimilarReq b) = [(422, ''invalid_url''), (422, ''invalid_num_results''), (404, ''document_not_found''), (500, ''internal_error'')]"
| "error_table (ContentsReq b) = [(422, ''invalid_document_id_count''), (422, ''missing_highlight_query'')]"
| "error_table (AnswerReq a q) = [(422, ''invalid_query'')]"
| "error_table (ResearchReq b) = [(422, ''invalid_research_request'')]"
| "error_table (ReportReq j) = [(404, ''job_not_found'')]"
| "error_table (EventsReq j h) = [(404, ''job_not_found''), (500, ''internal_error'')]"
| "error_table (SessionReq d) = [(422, ''invalid_session_request'')]"
| "error_table (DeleteSessionReq s) = [(404, ''session_not_found'')]"
| "error_table (PipelineReq n ss) = [(422, ''validation_error''), (422, ''invalid_pipeline''), (422, ''unknown_pipeline_step''), (500, ''internal_error'')]"
| "error_table (GetPipelineReq p) = [(404, ''pipeline_not_found'')]"

fun success_status :: "request \<Rightarrow> int list" where
  "success_status (IndexReq u c) = [201, 202]"
| "success_status (ResearchReq b) = [201]"
| "success_status (SessionReq d) = [201]"
| "success_status (PipelineReq n ss) = [201]"
| "success_status (DeleteSessionReq s) = [204]"
| "success_status q = [200]"

definition reply_ok :: "request \<Rightarrow> gateway \<Rightarrow> api_response \<times> gateway \<Rightarrow> bool" where
  "reply_ok q g r = (case r of (a, g') \<Rightarrow>
     if ap_status a < 400 then ap_status a \<in> set (success_status q)
     else (\<exists>code message. ap_body a = error_json code message \<and> (ap_status a, code) \<in> set (error_table q))
        \<and> (if ap_status a = 422 then g' = g else True))"

lemma error_reply [simp]:
  "ap_status (error_response n c m) = n" "ap_body (error_response n c m) = error_json c m"
  "ap_status (json_response n b) = n" "ap_body (json_response n b) = b"
  by (simp_all add: error_response_def json_response_def)

lemma error_json_inject [simp]: "error_json c m = error_json c' m' \<longleftrightarrow> c = c' \<and> m = m'"
  by (simp add: error_json_def)

lemma reply_errorI: "(n, c) \<in> set (error_table q) \<Longrightarrow> 400 \<le> n \<Longrightarrow> n = 422 \<longrightarrow> g' = g \<Longrightarrow> reply_ok q g (error_response n c m, g')"
  by (auto simp: reply_ok_def)

lemma reply_successI: "ap_status a \<in> set (success_status q) \<Longrightarrow> ap_status a < 400 \<Longrightarrow> reply_ok q g (a, g')"
  by (simp add: reply_ok_def)

text \<open>What each validator can complain about.\<close>

lemma first_error_Some: "first_error es = Some e \<Longrightarrow> Some e \<in> set es"
  by (induction es rule: first_error.induct) auto

lemma validator_codes:
  "validate_query v = Some (ValidationError c m) \<Longrightarrow> c = ''invalid_query''"
  "validate_mode v = Some (ValidationError c m) \<Longrightarrow> c = ''invalid_mode''"
  "validate_num_results n = Some (ValidationError c m) \<Longrightarrow> c = ''invalid_num_results''"
  "validate_threshold f x = Some (ValidationError c m) \<Longrightarrow> c = ''invalid_threshold''"
  "validate_url k u = Some (ValidationError c m) \<Longrightarrow> c = ''invalid_url''"
  "validate_document_ids ids = Some (ValidationError c m) \<Longrightarrow> c = ''invalid_document_id_count''"
  "validate_contents_request cb = Some (ValidationError c m) \<Longrightarrow> c = ''missing_highlight_query''"
  "validate_research_goal goal = Some (ValidationError c m) \<Longrightarrow> c = ''invalid_research_request''"
  unfolding validate_query_def validate_mode_def validate_num_results_def validate_threshold_def validate_url_def
    validate_document_ids_def validate_contents_request_def validate_research_goal_def
  by (simp_all only: split: if_splits option.splits) simp_all

lemma search_errors_codes: "search_request_errors b = Some (ValidationError c m) \<Longrightarrow>
   c = ''invalid_query'' \<or> c = ''invalid_mode'' \<or> c = ''invalid_num_results'' \<or> c = ''invalid_threshold''"
  unfolding search_request_errors_def by (drule first_error_Some) (auto dest!: validator_codes [OF sym])

lemma first_error_None: "first_error (e # es) = None \<longleftrightarrow> e = None \<and> first_error es = None" "first_error [] = None"
  by (cases e) simp_all

lemma search_accepts_mode: "search_request_errors b = None \<Longrightarrow> search_mode_of (sb_mode b) \<noteq> None"
  unfolding search_request_errors_def first_error_None
  by (auto simp only: validate_mode_def valid_search_modes_def search_mode_of_def set_simps insert_iff empty_iff split: if_splits)

lemma similar_errors_codes: "similar_request_errors k b = Some (ValidationError c m) \<Longrightarrow>
   c = ''invalid_url'' \<or> c = ''invalid_num_results''"
  unfolding similar_request_errors_def by (drule first_error_Some) (auto dest!: validator_codes [OF sym])

lemma contents_errors_codes: "contents_request_errors b = Some (ValidationError c m) \<Longrightarrow>
   c = ''invalid_document_id_count'' \<or> c = ''missing_highlight_query''"
  unfolding contents_request_errors_def by (drule first_error_Some) (auto dest!: validator_codes [OF sym])

lemma research_errors_codes: "research_request_errors b = Some (ValidationError c m) \<Longrightarrow> c = ''invalid_research_request''"
  unfolding research_request_errors_def by (rule validator_codes)


lemma fetch_contents_returns: "\<exists>es. fetch_contents svc highlights query summary ids = Some es"
proof (induction ids)
  case Nil
  then show ?case by simp
next
  case (Cons d ids)
  then show ?case using fetch_entry_ok [of svc highlights query summary d] by auto
qed

lemma respond_simps [simp]:
  "fst (respond (Inr a, g)) = JsonReply a" "snd (respond r) = snd r"
  "fst (respond (Inl (OtherError m), g)) =
     JsonReply (error_response 500 ''internal_error'' ''An internal error occurred. Please try again later.'')"
  by (simp_all add: respond_def error_dispatch_def)

definition answered :: "request \<Rightarrow> gateway \<Rightarrow> answer_reply \<times> gateway \<Rightarrow> bool" where
  "answered q g r = (case fst r of SseReply es \<Rightarrow> True | JsonReply a \<Rightarrow> reply_ok q g (a, snd r))"

lemma answered_error: "(n, c) \<in> set (error_table q) \<Longrightarrow> 400 \<le> n \<Longrightarrow> n = 422 \<longrightarrow> g' = g \<Longrightarrow>
    answered q g (respond (Inr (error_response n c m), g'))"
  by (simp add: answered_def reply_errorI)

lemma answered_internal: "(500, ''internal_error'') \<in> set (error_table q) \<Longrightarrow> answered q g (respond (Inl (OtherError m), g'))"
  by (simp add: answered_def reply_errorI)

lemma answered_success: "ap_status a \<in> set (success_status q) \<Longrightarrow> ap_status a < 400 \<Longrightarrow> answered q g (respond (Inr a, g'))"
  by (simp add: answered_def reply_successI)

lemma answered_json: "n \<in> set (success_status q) \<Longrightarrow> n < 400 \<Longrightarrow> answered q g (respond (Inr (json_response n b), g'))"
  by (rule answered_success) simp_all

lemma answered_invalid:
  "(\<And>c m. e = ValidationError c m \<Longrightarrow> (422, c) \<in> set (error_table q)) \<Longrightarrow> answered q g (respond (Inr (validation_response 422 e), g))"
  by (cases e) (auto simp: validation_response_def intro!: answered_error)

lemmas answered_rules = answered_error answered_internal answered_json answered_invalid

lemma answered_index: "answered (IndexReq u c) g (respond (post_index env g t tenant u c))"
  by (auto simp: post_index_def split: prod.split sum.split intro!: answered_rules)

lemma answered_search: "answered (SearchReq b) g (respond (post_search env g t tenant b))"
proof (cases "search_request_errors b")
  case None
  with search_accepts_mode [OF None] show ?thesis
    by (auto simp: post_search_def Let_def split: prod.split intro!: answered_success)
next
  case (Some e)
  then show ?thesis using search_errors_codes [of b]
    by (auto simp: post_search_def intro!: answered_invalid dest!: search_errors_codes)
qed

lemma answered_similar: "answered (SimilarReq b) g (respond (post_find_similar env g t tenant b))"
proof (cases "similar_request_errors (re_bracket_ok (ge_retriever env)) b")
  case None
  then show ?thesis
    by (auto simp: post_find_similar_def split: prod.split sum.split find_error.split intro!: answered_rules)
next
  case (Some e)
  then show ?thesis
    by (auto simp: post_find_similar_def intro!: answered_invalid dest!: similar_errors_codes)
qed

lemma answered_contents: "answered (ContentsReq b) g (respond (post_contents env g b))"
proof (cases "contents_request_errors b")
  case None
  then show ?thesis
    using fetch_contents_returns [of "indexer_contents (gw_indexer g) (ge_isoformat env)" "cb_highlights b" "cb_query b" "cb_summary b" "cb_document_ids b"]
    by (auto simp: post_contents_def intro!: answered_json)
next
  case (Some e)
  then show ?thesis
    by (auto simp: post_contents_def intro!: answered_invalid dest!: contents_errors_codes)
qed

lemma answered_answer: "answered (AnswerReq a q) g (post_answer env g t tenant a q)"
  by (auto simp: answered_def reply_ok_def post_answer_def collected_response_def Let_def split: prod.split option.split)

lemma start_job_error:
  "start_job sv env now fresh tenant goal schema budgets = (Inl e, sv') \<Longrightarrow> sv' = sv \<and> (\<exists>m. e = InvalidResearchRequest m)"
  by (auto simp: start_job_def split: if_splits prod.splits)

lemma answered_research: "answered (ResearchReq b) g (respond (post_research env g t tenant b))"
proof (cases "research_request_errors b")
  case None
  then show ?thesis
    by (auto simp: post_research_def split: prod.split sum.split research_error.split dest!: start_job_error
        intro!: answered_rules)
next
  case (Some e)
  then show ?thesis
    by (auto simp: post_research_def intro!: answered_invalid dest!: research_errors_codes)
qed

lemma answered_session: "answered (SessionReq d) g (respond (post_session env g t tenant d))"
  by (auto simp: post_session_def create_session_def Let_def intro!: answered_rules)

lemma answered_delete: "answered (DeleteSessionReq s) g (respond (delete_session_route g t tenant s))"
  by (auto simp: delete_session_route_def split: prod.split sum.split intro!: answered_rules simp: session_not_found_def)

lemma create_pipeline_error: "create_pipeline sv now fresh tenant name steps = (Inl e, sv') \<Longrightarrow> sv' = sv"
  by (auto simp: create_pipeline_def Let_def split: if_splits sum.splits)

lemma create_pipeline_stores: "create_pipeline sv now fresh tenant name steps = (Inr p, sv') \<Longrightarrow>
    pl_tenant p = tenant \<and> pq_pipelines sv' = dict_set fresh p (pq_pipelines sv)"
  by (auto simp: create_pipeline_def Let_def split: if_splits sum.splits)

lemma answered_pipeline: "answered (PipelineReq n ss) g (respond (post_pipeline env g t tenant n ss))"
  by (auto simp: post_pipeline_def split: prod.split sum.split pipeline_error.split dest!: create_pipeline_error
      intro!: answered_rules)

lemma answered_reads:
  "answered (ReportReq j) g (respond (get_research env g tenant j, g))"
  "answered (EventsReq j h) g (respond (get_research_events env g tenant j h, g))"
  "answered (GetPipelineReq p) g (respond (get_pipeline_route env g tenant p, g))"
  by (auto simp: get_research_def get_research_events_def get_pipeline_route_def last_event_def job_not_found_def
      split: sum.split option.split intro!: answered_rules)

lemmas answered_all = answered_index answered_search answered_similar answered_contents answered_answer
  answered_research answered_session answered_delete answered_pipeline answered_reads


text \<open>The declared list of stable codes; three of those the handlers use are not in it.\<close>

definition all_error_codes :: "string list" where
  "all_error_codes =
     [''missing_token'', ''invalid_token'', ''expired_token'', ''revoked_token'', ''invalid_num_results'',
      ''invalid_mode'', ''invalid_query'', ''invalid_url'', ''invalid_document_id_count'',
      ''missing_highlight_query'', ''invalid_research_request'', ''invalid_threshold'', ''resource_not_found'',
      ''pipeline_not_found'', ''job_not_found'', ''session_not_found'', ''unknown_url'', ''document_not_found'',
      ''rate_limited'', ''audit_log_unavailable'', ''no_sources_available'', ''budget_exceeded'',
      ''internal_error'', ''empty_input'', ''filter_too_large'', ''unknown_pipeline_step'', ''step_timeout'']"

lemma undeclared_codes:
  "filter (\<lambda>(n, c). c \<notin> set all_error_codes) (error_table (PipelineReq n ss)) = [(422, ''validation_error''), (422, ''invalid_pipeline'')]"
  "filter (\<lambda>(n, c). c \<notin> set all_error_codes) (error_table (SessionReq d)) = [(422, ''invalid_session_request'')]"
  "filter (\<lambda>(n, c). c \<notin> set all_error_codes) (error_table (IndexReq u c)) = [(422, ''validation_error'')]"
  by (simp_all add: all_error_codes_def)


section \<open>Tenants do not interfere\<close>

text \<open>The requests that name an object.\<close>

fun by_id :: "request \<Rightarrow> bool" where
  "by_id (ReportReq j) = True"
| "by_id (EventsReq j h) = True"
| "by_id (DeleteSessionReq s) = True"
| "by_id (GetPipelineReq p) = True"
| "by_id q = False"

text \<open>What a tenant owns under an identifier: its job with the events of it, its session, its pipeline.\<close>

definition owned_by :: "string \<Rightarrow> ('a \<Rightarrow> string) \<Rightarrow> 'a option \<Rightarrow> 'a option" where
  "owned_by tenant owner x = (case x of None \<Rightarrow> None | Some a \<Rightarrow> if owner a = tenant then Some a else None)"

definition owned_job :: "string \<Rightarrow> gateway \<Rightarrow> string \<Rightarrow> (research_job \<times> research_event list) option" where
  "owned_job tenant g k = map_option (\<lambda>j. (j, stream (rs_emitter (gw_research g)) k))
     (owned_by tenant rj_tenant (dict_get (rs_jobs (gw_research g)) k))"

definition owned_session :: "string \<Rightarrow> gateway \<Rightarrow> string \<Rightarrow> session option" where
  "owned_session tenant g k = owned_by tenant se_tenant (dict_get (ss_sessions (gw_sessions g)) k)"

definition owned_pipeline :: "string \<Rightarrow> gateway \<Rightarrow> string \<Rightarrow> pipeline option" where
  "owned_pipeline tenant g k = owned_by tenant pl_tenant (dict_get (pq_pipelines (gw_pipelines g)) k)"

definition same_for :: "string \<Rightarrow> gateway \<Rightarrow> gateway \<Rightarrow> bool" where
  "same_for tenant g g' \<longleftrightarrow> owned_job tenant g' = owned_job tenant g \<and> owned_session tenant g' = owned_session tenant g
     \<and> owned_pipeline tenant g' = owned_pipeline tenant g"

lemma same_for_refl [simp]: "same_for tenant g g"
  by (simp add: same_for_def)

lemma same_for_trans: "same_for tenant g1 g2 \<Longrightarrow> same_for tenant g2 g3 \<Longrightarrow> same_for tenant g1 g3"
  by (simp add: same_for_def)

text \<open>What a request by identifier is answered depends on what the tenant owns under it, and nothing else.\<close>

lemma report_owned:
  "get_research env g tenant k = (case owned_job tenant g k of
     None \<Rightarrow> Inr job_not_found
   | Some (j, es) \<Rightarrow> Inr (json_response 200 (report_json env (case rj_report j of None \<Rightarrow> failed_report k | Some r \<Rightarrow> r))))"
  by (auto simp: get_research_def get_report_def get_job_def owned_job_def owned_by_def split: option.split)

lemma events_owned:
  "get_research_events env g tenant k header = (case last_event header of
     Inl e \<Rightarrow> Inl e
   | Inr n \<Rightarrow> (case owned_job tenant g k of
       None \<Rightarrow> Inr job_not_found
     | Some (j, es) \<Rightarrow> Inr (json_response 200 (JObj [(''events'', JList (map (event_json env)
           (case n of None \<Rightarrow> es | Some i \<Rightarrow> filter (\<lambda>e. re_id e > i) es)))]))))"
  by (auto simp: get_research_events_def get_events_def get_job_def owned_job_def owned_by_def replay_def stream_def
      split: option.split sum.split)

lemma delete_owned:
  "fst (delete_session_route g t tenant k) = (case owned_session tenant g k of
     None \<Rightarrow> Inr session_not_found
   | Some s \<Rightarrow> if is_expired (tk_at t) s then Inr session_not_found else Inr (json_response 204 JNull))"
  by (auto simp: delete_session_route_def delete_session_def get_session_def owned_session_def owned_by_def is_expired_def
      split: option.split)

lemma pipeline_owned:
  "get_pipeline_route env g tenant k = (case owned_pipeline tenant g k of
     None \<Rightarrow> Inr (error_response 404 ''pipeline_not_found'' ''Pipeline not found'')
   | Some p \<Rightarrow> Inr (json_response 200 (pipeline_json env stored_step_json p)))"
  by (auto simp: get_pipeline_route_def get_pipeline_def owned_pipeline_def owned_by_def split: option.split)

lemma by_id_owned:
  "by_id q \<Longrightarrow> same_for tenant g g' \<Longrightarrow>
     fst (serve_request env g' t tenant q) = fst (serve_request env g t tenant q)"
  by (cases q) (simp_all add: serve_request_def respond_def report_owned events_owned delete_owned pipeline_owned same_for_def
      split: sum.split)

text \<open>The identifiers in use, and the invariant of the research service over them.\<close>

definition gateway_inv :: "string set \<Rightarrow> gateway \<Rightarrow> bool" where
  "gateway_inv used g \<longleftrightarrow> service_inv used (gw_research g)
     \<and> (\<forall>k. k \<notin> used \<longrightarrow> dict_get (ss_sessions (gw_sessions g)) k = None \<and> dict_get (pq_pipelines (gw_pipelines g)) k = None)"

lemma service_inv_mono: "service_inv used sv \<Longrightarrow> used \<subseteq> used' \<Longrightarrow> service_inv used' sv"
  by (auto simp: service_inv_def)

lemma services_inv: "gateway_inv {} (get_services env now steps table)"
  by (simp add: gateway_inv_def get_services_def service_inv_def new_research_service_def new_emitter_def stream_def
      buffer_of_def counter_of_def new_pipeline_service_def)

text \<open>The requests that leave the three stores alone.\<close>

definition same_stores :: "gateway \<Rightarrow> gateway \<Rightarrow> bool" where
  "same_stores g g' \<longleftrightarrow> gw_research g' = gw_research g \<and> gw_sessions g' = gw_sessions g \<and> gw_pipelines g' = gw_pipelines g"

lemma same_stores_keeps:
  "same_stores g g' \<Longrightarrow> gateway_inv used g \<Longrightarrow> gateway_inv (insert x used) g' \<and> same_for tenant g g'"
  by (auto simp: same_stores_def gateway_inv_def same_for_def owned_job_def owned_session_def owned_pipeline_def fun_eq_iff
      intro: service_inv_mono)

lemma shared_requests:
  "same_stores g (snd (post_index env g t tenant u c))"
  "same_stores g (snd (post_search env g t tenant sb))"
  "same_stores g (snd (post_find_similar env g t tenant fb))"
  "same_stores g (snd (post_contents env g cb))"
  "same_stores g (snd (post_answer env g t tenant a query))"
  by (auto simp: same_stores_def post_index_def post_search_def post_find_similar_def post_contents_def post_answer_def Let_def
      split: prod.split sum.split option.split find_error.split)

text \<open>A job that another tenant starts, whatever else changes outside of the three stores.\<close>

lemma started_job_keeps:
  assumes "gateway_inv used g" and "fresh \<notin> used" and "u \<noteq> tenant"
    and r: "gw_research g' = snd (start_job (gw_research g) renv now fresh u goal schema budgets)"
      "gw_sessions g' = gw_sessions g" "gw_pipelines g' = gw_pipelines g"
  shows "gateway_inv (insert fresh used) g' \<and> same_for tenant g g'"
proof -
  have inv: "service_inv used (gw_research g)" using assms(1) by (simp add: gateway_inv_def)
  have "gateway_inv (insert fresh used) g'"
    using assms(1) start_job_inv [OF inv assms(2)] by (auto simp: gateway_inv_def r)
  moreover have "owned_job tenant g' k = owned_job tenant g k" for k
  proof (cases "k = fresh")
    case False
    then show ?thesis using start_job_frame [OF inv assms(2)] by (simp add: owned_job_def r)
  next
    case True
    have "dict_get (rs_jobs (gw_research g)) k = None" using inv assms(2) True by (simp add: service_inv_def)
    then show ?thesis
      using True start_job_tenant [OF inv assms(2)] assms(3)
      by (auto simp: owned_job_def owned_by_def r split: option.split)
  qed
  ultimately show ?thesis by (auto simp: same_for_def owned_session_def owned_pipeline_def r)
qed

lemma research_request_keeps:
  assumes "gateway_inv used g" and "tk_fresh t \<notin> used" and "u \<noteq> tenant"
  shows "gateway_inv (insert (tk_fresh t) used) (snd (post_research env g t u b)) \<and> same_for tenant g (snd (post_research env g t u b))"
proof (cases "research_request_errors b")
  case (Some e)
  then have "same_stores g (snd (post_research env g t u b))" by (simp add: post_research_def same_stores_def)
  from same_stores_keeps [OF this assms(1)] show ?thesis .
next
  case None
  show ?thesis
  proof (rule started_job_keeps [OF assms])
    show "gw_research (snd (post_research env g t u b)) = snd (start_job (gw_research g)
        ((ge_research env)\<lparr>ev_retriever := Some (research_retriever env g t)\<rparr>)
        (tk_now t) (tk_fresh t) u (ab_goal b) (ab_schema b) (Some (request_budgets b)))"
      "gw_sessions (snd (post_research env g t u b)) = gw_sessions g"
      "gw_pipelines (snd (post_research env g t u b)) = gw_pipelines g"
      using None by (auto simp: post_research_def split: prod.split sum.split research_error.split)
  qed
qed

lemma session_request_keeps:
  assumes "gateway_inv used g" and "tk_fresh t \<notin> used" and "u \<noteq> tenant"
  shows "gateway_inv (insert (tk_fresh t) used) (snd (post_session env g t u d)) \<and> same_for tenant g (snd (post_session env g t u d))"
  using assms service_inv_mono [of used "gw_research g" "insert (tk_fresh t) used"]
  by (auto simp: post_session_def create_session_def Let_def gateway_inv_def same_for_def owned_job_def owned_session_def
      owned_pipeline_def owned_by_def fun_eq_iff split: option.split)

lemma pipeline_request_keeps:
  assumes "gateway_inv used g" and "tk_fresh t \<notin> used" and "u \<noteq> tenant"
  shows "gateway_inv (insert (tk_fresh t) used) (snd (post_pipeline env g t u n ss)) \<and> same_for tenant g (snd (post_pipeline env g t u n ss))"
proof -
  let ?g = "snd (post_pipeline env g t u n ss)"
  have "same_stores g ?g \<or> (\<exists>p. pl_tenant p = u \<and> gw_research ?g = gw_research g \<and> gw_sessions ?g = gw_sessions g
      \<and> pq_pipelines (gw_pipelines ?g) = dict_set (tk_fresh t) p (pq_pipelines (gw_pipelines g)))"
  proof (cases "n = []")
    case True
    then show ?thesis by (simp add: post_pipeline_def same_stores_def)
  next
    case False
    obtain r sv where c: "create_pipeline (gw_pipelines g) (tk_at t) (tk_fresh t) u n (map step_dict ss) = (r, sv)" by fastforce
    show ?thesis
    proof (cases r)
      case (Inl e)
      with c create_pipeline_error [of "gw_pipelines g"] False show ?thesis
        by (auto simp: post_pipeline_def same_stores_def split: pipeline_error.split)
    next
      case (Inr p)
      with c have p: "pl_tenant p = u" "pq_pipelines sv = dict_set (tk_fresh t) p (pq_pipelines (gw_pipelines g))"
        using create_pipeline_stores by blast+
      have "?g = g\<lparr>gw_pipelines := sv\<rparr>" using c Inr False by (simp add: post_pipeline_def)
      with p show ?thesis by auto
    qed
  qed
  then show ?thesis
  proof
    assume "same_stores g ?g"
    from same_stores_keeps [OF this assms(1)] show ?thesis .
  next
    assume "\<exists>p. pl_tenant p = u \<and> gw_research ?g = gw_research g \<and> gw_sessions ?g = gw_sessions g
      \<and> pq_pipelines (gw_pipelines ?g) = dict_set (tk_fresh t) p (pq_pipelines (gw_pipelines g))"
    then obtain p where p: "pl_tenant p = u" "gw_research ?g = gw_research g" "gw_sessions ?g = gw_sessions g"
      "pq_pipelines (gw_pipelines ?g) = dict_set (tk_fresh t) p (pq_pipelines (gw_pipelines g))" by blast
    then show ?thesis
      using assms service_inv_mono [of used "gw_research g" "insert (tk_fresh t) used"]
      by (auto simp: gateway_inv_def same_for_def owned_job_def owned_session_def owned_pipeline_def owned_by_def fun_eq_iff)
  qed
qed

lemma delete_request_keeps:
  assumes "gateway_inv used g" and "u \<noteq> tenant"
  shows "gateway_inv (insert x used) (snd (delete_session_route g t u s)) \<and> same_for tenant g (snd (delete_session_route g t u s))"
proof -
  let ?g = "snd (delete_session_route g t u s)"
  have "same_stores g ?g \<or> (\<exists>a b. dict_get (ss_sessions (gw_sessions g)) s = Some a \<and> se_tenant a = u \<and> se_tenant b = u
      \<and> gw_research ?g = gw_research g \<and> gw_pipelines ?g = gw_pipelines g
      \<and> ss_sessions (gw_sessions ?g) = dict_set s b (ss_sessions (gw_sessions g)))"
  proof (cases "get_session (gw_sessions g) (tk_at t) s u")
    case (Inl e)
    then show ?thesis by (simp add: delete_session_route_def delete_session_def same_stores_def)
  next
    case (Inr a)
    then have "dict_get (ss_sessions (gw_sessions g)) s = Some a" "se_tenant a = u"
      by (simp_all add: get_session_Inr)
    moreover have "ss_sessions (gw_sessions ?g) = dict_set s (a\<lparr>se_state := Deleted, se_memory := clear_memory (se_memory a)\<rparr>) (ss_sessions (gw_sessions g))"
      "gw_research ?g = gw_research g" "gw_pipelines ?g = gw_pipelines g"
      using Inr by (simp_all add: delete_session_route_def delete_session_def store_session_def)
    moreover have "se_tenant (a\<lparr>se_state := Deleted, se_memory := clear_memory (se_memory a)\<rparr>) = u" using calculation by simp
    ultimately show ?thesis by blast
  qed
  then show ?thesis
  proof
    assume "same_stores g ?g"
    from same_stores_keeps [OF this assms(1)] show ?thesis .
  next
    assume "\<exists>a b. dict_get (ss_sessions (gw_sessions g)) s = Some a \<and> se_tenant a = u \<and> se_tenant b = u
      \<and> gw_research ?g = gw_research g \<and> gw_pipelines ?g = gw_pipelines g
      \<and> ss_sessions (gw_sessions ?g) = dict_set s b (ss_sessions (gw_sessions g))"
    then obtain a b where p: "dict_get (ss_sessions (gw_sessions g)) s = Some a" "se_tenant a = u" "se_tenant b = u"
      "gw_research ?g = gw_research g" "gw_pipelines ?g = gw_pipelines g"
      "ss_sessions (gw_sessions ?g) = dict_set s b (ss_sessions (gw_sessions g))" by blast
    then show ?thesis
      using assms service_inv_mono [of used "gw_research g" "insert x used"]
      by (auto simp: gateway_inv_def same_for_def owned_job_def owned_session_def owned_pipeline_def owned_by_def fun_eq_iff)
  qed
qed

lemma foreign_request_keeps:
  assumes "gateway_inv used g" and "tk_fresh t \<notin> used" and "u \<noteq> tenant"
  shows "gateway_inv (insert (tk_fresh t) used) (snd (serve_request env g t u q)) \<and> same_for tenant g (snd (serve_request env g t u q))"
  using same_stores_keeps [OF _ assms(1), of _ "tk_fresh t" tenant] shared_requests
    research_request_keeps [OF assms] session_request_keeps [OF assms] pipeline_request_keeps [OF assms]
    delete_request_keeps [OF assms(1,3), of "tk_fresh t"]
  by (cases q) (simp_all add: serve_request_def same_stores_def)


lemma own_request_inv:
  assumes "gateway_inv used g" and "tk_fresh t \<notin> used"
  shows "gateway_inv (insert (tk_fresh t) used) (snd (serve_request env g t u q))"
  using foreign_request_keeps [OF assms, of u "u @ ''x''"] by simp

lemma gateway_run_inv:
  "gateway_inv used g \<Longrightarrow> distinct (map (\<lambda>(t, u, q). tk_fresh t) hs) \<Longrightarrow> set (map (\<lambda>(t, u, q). tk_fresh t) hs) \<inter> used = {} \<Longrightarrow>
     gateway_inv (set (map (\<lambda>(t, u, q). tk_fresh t) hs) \<union> used) (run_gateway env g hs)"
proof (induction hs arbitrary: g used)
  case Nil
  then show ?case by (simp add: run_gateway_def)
next
  case (Cons h hs)
  obtain t u q where h: "h = (t, u, q)" by (cases h)
  have "gateway_inv (insert (tk_fresh t) used) (snd (serve_request env g t u q))"
    using own_request_inv [OF Cons.prems(1)] Cons.prems(3) by (simp add: h)
  from Cons.IH [OF this] Cons.prems show ?case by (auto simp: h run_gateway_def)
qed

lemma foreign_run:
  "gateway_inv used g \<Longrightarrow> distinct (map (\<lambda>(t, u, q). tk_fresh t) xs) \<Longrightarrow> set (map (\<lambda>(t, u, q). tk_fresh t) xs) \<inter> used = {} \<Longrightarrow>
     (\<And>t u q. (t, u, q) \<in> set xs \<Longrightarrow> u \<noteq> tenant) \<Longrightarrow> same_for tenant g (run_gateway env g xs)"
proof (induction xs arbitrary: g used)
  case Nil
  then show ?case by (simp add: run_gateway_def)
next
  case (Cons h xs)
  obtain t u q where h: "h = (t, u, q)" by (cases h)
  have new: "tk_fresh t \<notin> used" "u \<noteq> tenant" using Cons.prems(3,4) by (auto simp: h)
  from foreign_request_keeps [OF Cons.prems(1) new]
  have "gateway_inv (insert (tk_fresh t) used) (snd (serve_request env g t u q))"
    and one: "same_for tenant g (snd (serve_request env g t u q))" by blast+
  from Cons.IH [OF this(1)] Cons.prems
  have "same_for tenant (snd (serve_request env g t u q)) (run_gateway env (snd (serve_request env g t u q)) xs)"
    by (auto simp: h)
  from same_for_trans [OF one this] show ?case by (simp add: h run_gateway_def)
qed

text \<open>
  Tenants do not interfere through their objects.  In a process that has served any requests of any
  tenants, whatever requests other tenants make then, of any kind and in any order, change nothing in
  what a tenant is answered when it names a research job, its events, a session or a pipeline: their own
  objects stay as they were, and an object another tenant creates meanwhile is answered exactly as one
  that does not exist.  Identifiers are drawn fresh.
\<close>

theorem tenants_do_not_interfere:
  assumes "distinct (map (\<lambda>(t, u, q). tk_fresh t) (hs @ xs))"
    and "\<And>t u q. (t, u, q) \<in> set xs \<Longrightarrow> u \<noteq> tenant"
    and "by_id q"
  shows "fst (serve_request env (run_gateway env (get_services env now steps table) (hs @ xs)) t tenant q)
       = fst (serve_request env (run_gateway env (get_services env now steps table) hs) t tenant q)"
proof -
  let ?g = "run_gateway env (get_services env now steps table) hs"
  let ?ids = "\<lambda>hs. map (\<lambda>(t, u, q). tk_fresh t) hs"
  have d: "distinct (?ids hs)" "distinct (?ids xs)" "set (?ids xs) \<inter> (set (?ids hs) \<union> {}) = {}"
    using assms(1) by (simp_all add: Int_commute)
  have "gateway_inv (set (?ids hs) \<union> {}) ?g"
    by (rule gateway_run_inv [OF services_inv d(1)]) simp
  from foreign_run [OF this d(2,3) assms(2)] have "same_for tenant ?g (run_gateway env ?g xs)" .
  from by_id_owned [OF assms(3) this] show ?thesis by (simp add: run_gateway_append)
qed

section \<open>Witnesses\<close>

definition sample_gateway_env :: gateway_env where
  "sample_gateway_env = \<lparr>ge_index = \<lparr>ie_unescape = (\<lambda>s. s), ie_sha256 = (\<lambda>s. s), ie_embed = (\<lambda>s. [of_nat (length s) / 100]), ie_score = None\<rparr>,
     ge_retriever = sample_retriever_env, ge_research = sample_env, ge_provider = sample_provider,
     ge_broker = \<lparr>bk_configured = False, bk_starts = False, bk_accepts = False\<rparr>, ge_isoformat = str_int,
     ge_citation_id = (\<lambda>j i. str_nat i), ge_emitted_at = (\<lambda>j i. str_nat i), ge_floats = half\<rparr>"

definition sample_tick :: "string \<Rightarrow> tick" where
  "sample_tick fresh = \<lparr>tk_now = 0, tk_at = 0, tk_fresh = fresh, tk_fresh2 = ''r''\<rparr>"

definition sample_start :: gateway where
  "sample_start = get_services sample_gateway_env 0 sample_steps_env None"

lemma tenants_do_not_interfere_witness:
  "fst (serve_request sample_gateway_env (run_gateway sample_gateway_env sample_start
       [(sample_tick ''s'', ''T'', SessionReq (Some 3)), (sample_tick ''s2'', ''U'', SessionReq None),
        (sample_tick ''s3'', ''U'', DeleteSessionReq ''s'')])
     (sample_tick ''s4'') ''T'' (DeleteSessionReq ''s'')) = JsonReply (json_response 204 JNull)"
proof -
  let ?hs = "[(sample_tick ''s'', ''T'', SessionReq (Some 3))]"
  let ?xs = "[(sample_tick ''s2'', ''U'', SessionReq None), (sample_tick ''s3'', ''U'', DeleteSessionReq ''s'')]"
  have d: "distinct (map (\<lambda>(t, u, q). tk_fresh t) (?hs @ ?xs))" by (simp add: sample_tick_def)
  have u: "u \<noteq> ''T''" if "(t, u, q) \<in> set ?xs" for t u q using that by auto
  have b: "by_id (DeleteSessionReq ''s'')" by simp
  have "fst (serve_request sample_gateway_env (run_gateway sample_gateway_env sample_start ?hs) (sample_tick ''s4'') ''T'' (DeleteSessionReq ''s''))
      = JsonReply (json_response 204 JNull)"
    by (simp add: run_gateway_def sample_start_def get_services_def serve_request_def post_session_def create_session_def
        delete_session_route_def delete_session_def get_session_def is_expired_def expires_at_def sample_tick_def
        min_retention_def max_retention_def days_us_def hours_us_def seconds_us_def us_per_second_def Let_def)
  with tenants_do_not_interfere [OF d u b, where env = sample_gateway_env and now = 0 and steps = sample_steps_env and table = None
      and t = "sample_tick ''s4''"]
  show ?thesis by (simp add: sample_start_def)
qed

section \<open>Inputs that end in an internal error\<close>

definition internal_error :: api_response where
  "internal_error = error_response 500 ''internal_error'' ''An internal error occurred. Please try again later.''"

text \<open>An event identifier that is no number, whatever the job.\<close>

lemma bad_event_id:
  "fst (serve_request env g t tenant (EventsReq j (Some ''abc''))) = JsonReply internal_error"
proof -
  have "py_int ''abc'' = None" by code_simp
  then show ?thesis by (simp add: serve_request_def get_research_events_def last_event_def internal_error_def)
qed

text \<open>A step whose time limit is explicitly null, which the request model allows.\<close>

lemma null_timeout:
  "fst (serve_request sample_gateway_env sample_start t tenant
      (PipelineReq ''p'' [\<lparr>tb_name = ''dedup_transform'', tb_config = None, tb_timeout = None\<rparr>])) = JsonReply internal_error"
proof -
  let ?ss = "map step_dict [\<lparr>tb_name = ''dedup_transform'', tb_config = None, tb_timeout = None\<rparr>]"
  obtain r sv where c: "create_pipeline (gw_pipelines sample_start) (tk_at t) (tk_fresh t) tenant ''p'' ?ss = (r, sv)" by fastforce
  have "case fst (create_pipeline (gw_pipelines sample_start) now fresh tn nm ?ss) of
      Inl e \<Rightarrow> e = PipelineTypeError | Inr p \<Rightarrow> False" for now fresh tn nm by code_simp
  from this [of "tk_at t" "tk_fresh t" tenant "''p''"] have "r = Inl PipelineTypeError" by (simp only: c) (cases r; simp)
  with c show ?thesis by (simp only: serve_request_def request.case post_pipeline_def) (simp add: internal_error_def)
qed

end
