(* ===== verification/AnswerRoutes.thy ===== *)
theory AnswerRoutes
  imports Gateway
begin

text \<open>
  The answer endpoint end to end: the stream and the JSON form of an answer, and what the client of the
  SDK reads from the stream.
\<close>

section \<open>The two forms of an answer\<close>

definition terminal_event :: "answer_event \<Rightarrow> bool" where
  "terminal_event e = (case e of DoneEvent a cs \<Rightarrow> True | Answer.ErrorEvent c m \<Rightarrow> True | _ \<Rightarrow> False)"

lemma generated_shape:
  obtains body z where "generate_answer p timeout q rs = body @ [z]" "terminal_event z" "list_all (\<lambda>e. \<not> terminal_event e) body"
proof (cases "rs = []")
  case True
  show ?thesis
    by (rule that [of "[]" "Answer.ErrorEvent NO_SOURCES_AVAILABLE ''No sources available to generate an answer.''"])
       (simp_all add: generate_answer_def True terminal_event_def)
next
  case False
  from generate_cases [OF False, of p timeout q] obtain body s e where
    g: "generate_answer p timeout q rs = body @ [final_event s e]"
       "run_tokens rs (start_state rs) (fst (timeout_aiter timeout (p (build_request q rs)))) = (body, s)" by metis
  have "events_ok rs [] body" using run_tokens_ok [OF g(2) reflects_start] by simp
  then have "list_all (\<lambda>e. \<not> terminal_event e) body"
    unfolding list_all_iff terminal_event_def by (auto dest: events_ok_no_end)
  moreover have "terminal_event (final_event s e)" by (cases e) (simp_all add: terminal_event_def final_event_def)
  ultimately show ?thesis using that g(1) by blast
qed

lemma collect_no_error: "list_all (\<lambda>e. \<not> terminal_event e) es \<Longrightarrow> snd (snd (foldl collect_event (a, cs, None) es)) = None"
proof (induction es arbitrary: a cs)
  case Nil
  then show ?case by simp
next
  case (Cons e es)
  then show ?case by (cases e) (simp_all add: collect_event_def terminal_event_def)
qed

lemma collected_terminal:
  assumes "list_all (\<lambda>e. \<not> terminal_event e) body"
  shows "collected_response (body @ [DoneEvent a cs]) = json_response 200 (JObj [(''answer'', JStr a), (''citations'', JList (map span_json cs))])"
    and "collected_response (body @ [Answer.ErrorEvent c m]) = json_response 200 (JObj [(''error'', error_object c m)])"
  using collect_no_error [OF assms, of "[]" "[]"]
  by (cases "foldl collect_event ([], [], None) body"; simp add: collected_response_def collect_event_def)+

lemma sse_answer_nth: "i < length es \<Longrightarrow> sse_answer es ! i = sse_answer_event (Suc i) (es ! i)"
  by (simp add: sse_answer_def nth_append del: upt_Suc)

lemma length_sse_answer [simp]: "length (sse_answer es) = length es"
  by (simp add: sse_answer_def del: upt_Suc)

lemma sse_answer_snoc: "sse_answer (body @ [z]) = sse_answer body @ [sse_answer_event (Suc (length body)) z]"
  by (rule nth_equalityI) (auto simp: sse_answer_nth nth_append less_Suc_eq)

definition answer_events :: "gateway_env \<Rightarrow> gateway \<Rightarrow> tick \<Rightarrow> string \<Rightarrow> string \<Rightarrow> answer_event list" where
  "answer_events env g t tenant query =
     generate_answer (ge_provider env) silence_seconds query (concat (map (retrieval_result (gw_indexer g))
       (Retriever.rr_results (fst (search (ge_retriever env) (gw_indexer g) (gw_retriever g) (tk_now t) (tk_at t)
          (answer_request tenant query))))))"

lemma post_answer_eq:
  "py_strip query \<noteq> [] \<Longrightarrow> fst (post_answer env g t tenant accept query) =
     (if contains accept ''text/event-stream'' then SseReply (sse_answer (answer_events env g t tenant query))
      else JsonReply (collected_response (answer_events env g t tenant query)))"
  by (simp add: post_answer_def answer_events_def Let_def split: prod.split)

text \<open>
  C31. The JSON form of an answer is the outcome of its stream: for the same request in the same state, a
  client that accepts \<open>text/event-stream\<close> gets events of which the last, and only the last, is \<open>done\<close> or
  \<open>error\<close>, and a client that does not gets status 200 with the data of that last event: the answer and
  its citations, or the error under the key \<open>error\<close>.
\<close>

theorem answer_modes_agree:
  assumes "py_strip query \<noteq> []" and "contains a1 ''text/event-stream''" and "\<not> contains a2 ''text/event-stream''"
  shows "\<exists>es e a. fst (post_answer env g t tenant a1 query) = SseReply (es @ [e])
    \<and> fst (post_answer env g t tenant a2 query) = JsonReply a
    \<and> (sv_event e = ''done'' \<or> sv_event e = ''error'') \<and> list_all (\<lambda>x. sv_event x = ''token'' \<or> sv_event x = ''citation'') es
    \<and> ap_status a = 200 \<and> ap_body a = (if sv_event e = ''done'' then sv_data e else JObj [(''error'', sv_data e)])"
proof -
  obtain body z where b: "answer_events env g t tenant query = body @ [z]" "terminal_event z" "list_all (\<lambda>e. \<not> terminal_event e) body"
    unfolding answer_events_def by (rule generated_shape)
  let ?e = "sse_answer_event (Suc (length body)) z"
  have "list_all (\<lambda>x. sv_event x = ''token'' \<or> sv_event x = ''citation'') (sse_answer body)"
    using b(3) by (auto simp: list_all_length sse_answer_nth sse_answer_event_def terminal_event_def split: answer_event.split)
  moreover have "sv_event ?e = ''done'' \<or> sv_event ?e = ''error''"
    using b(2) by (cases z) (simp_all add: terminal_event_def sse_answer_event_def)
  moreover have "ap_status (collected_response (body @ [z])) = 200 \<and> ap_body (collected_response (body @ [z]))
      = (if sv_event ?e = ''done'' then sv_data ?e else JObj [(''error'', sv_data ?e)])"
    using b(2) collected_terminal [OF b(3)] by (cases z) (simp_all add: terminal_event_def sse_answer_event_def)
  ultimately show ?thesis
    using assms by (simp add: post_answer_eq b(1) sse_answer_snoc)
qed

section \<open>A streamed answer reaches the client\<close>

lemma until_terminal_all:
  "list_all (\<lambda>e. sx_type e \<noteq> ''done'' \<and> sx_type e \<noteq> ''error'') es \<Longrightarrow> until_terminal (es @ [e]) = es @ [e]"
  by (induction es) auto

lemma str_nat_plain: "plain (str_nat n)"
  by (auto simp: plain_def list_all_iff ascii_digit_def line_break_def Let_def dest!: str_nat_digits)

lemma answer_event_carried:
  assumes "list_all (\<lambda>c. c \<noteq> nel) (json_dumps fl (sv_data (sse_answer_event i e)))"
  shows "carries fl (sse_answer_event i e)"
proof -
  have "list_all (\<lambda>n. n \<noteq> [] \<and> plain n \<and> py_strip n = n) [''token'', ''citation'', ''done'', ''error'']" by code_simp
  then show ?thesis using assms str_nat_plain [of i]
    by (cases e) (simp_all add: carries_def sse_answer_event_def)
qed

text \<open>
  C14. A streamed answer reaches the client as it was generated.  Whatever silences fall between the
  events, the client's parser turns the bytes of the response back into the events, one for one, with
  their types and data and the identifiers 1, 2, 3, ...; its loop, which stops at the first terminal
  event, sees all of them, because only the last one is terminal.  It holds for a decoder that inverts
  the encoder on the data sent, when that data holds no next-line character.
\<close>

theorem answer_reaches_client:
  assumes "fst (post_answer env g t tenant accept query) = SseReply es"
    and "arrivals ws = es"
    and "floats_ok fl"
    and "\<And>e. e \<in> set es \<Longrightarrow> list_all (\<lambda>c. c \<noteq> nel) (json_dumps fl (sv_data e))"
    and "\<And>e. e \<in> set es \<Longrightarrow> loads (json_dumps fl (sv_data e)) = Some (sv_data e)"
  shows "until_terminal (sdk_events loads (sse_stream fl ws))
      = map (\<lambda>(i, e). \<lparr>sx_type = sv_event e, sx_data = sv_data e, sx_id = Some i\<rparr>) (zip [1..int (length es)] es)
    \<and> (\<exists>x. last (sdk_events loads (sse_stream fl ws)) = x \<and> (sx_type x = ''done'' \<or> sx_type x = ''error''))"
proof -
  have q: "py_strip query \<noteq> []" "contains accept ''text/event-stream''"
    using assms(1) by (auto simp: post_answer_def Let_def split: if_splits prod.splits)
  with assms(1) have es: "es = sse_answer (answer_events env g t tenant query)" by (simp add: post_answer_eq)
  obtain body z where b: "answer_events env g t tenant query = body @ [z]" "terminal_event z" "list_all (\<lambda>e. \<not> terminal_event e) body"
    unfolding answer_events_def by (rule generated_shape)
  have split: "es = sse_answer body @ [sse_answer_event (Suc (length body)) z]" by (simp add: es b(1) sse_answer_snoc)
  have "carries fl e" if "e \<in> set es" for e
  proof -
    from that obtain i x where "e = sse_answer_event i x" by (auto simp: es sse_answer_def)
    with answer_event_carried assms(4) [OF that] show ?thesis by blast
  qed
  with sse_roundtrip [OF assms(3), of ws loads] assms(2,5)
  have r: "sdk_events loads (sse_stream fl ws) = map client_view es" by auto
  have "until_terminal (map client_view es) = map client_view es"
    unfolding split map_append list.map
    by (rule until_terminal_all)
       (use b(3) in \<open>auto simp: list_all_length sse_answer_nth client_view_def sse_answer_event_def terminal_event_def split: answer_event.split\<close>)
  moreover have "map client_view es
      = map (\<lambda>(i, e). \<lparr>sx_type = sv_event e, sx_data = sv_data e, sx_id = Some i\<rparr>) (zip [1..int (length es)] es)"
    by (rule nth_equalityI)
       (auto simp: es sse_answer_nth client_view_def sse_answer_event_def py_int_str_nat split: answer_event.split)
  moreover have "sx_type (last (map client_view es)) = ''done'' \<or> sx_type (last (map client_view es)) = ''error''"
    using b(2) by (cases z) (simp_all add: split client_view_def sse_answer_event_def terminal_event_def)
  ultimately show ?thesis by (simp add: r)
qed


text \<open>
  A source of an answer carries the version the search found, which may be an old one, or one from the
  cache, and the text of the latest.
\<close>

lemma stale_version_cited:
  assumes "get_document ix (sr_id r) = Some [v1, v2]" and "sr_version r = dv_version v1"
  shows "map (\<lambda>s. (so_version s, so_cleaned_text s)) (retrieval_result ix r) = [(dv_version v1, dv_text v2)]"
  using assms by (simp add: retrieval_result_def get_latest_version_def get_document_def)

section \<open>Witnesses\<close>

lemma answer_modes_agree_witness:
  "\<exists>es e a. fst (post_answer sample_gateway_env sample_start (sample_tick ''a'') ''T'' ''text/event-stream'' ''q'') = SseReply (es @ [e])
    \<and> fst (post_answer sample_gateway_env sample_start (sample_tick ''a'') ''T'' ''*/*'' ''q'') = JsonReply a \<and> ap_status a = 200"
proof -
  have "py_strip ''q'' \<noteq> []" "contains ''text/event-stream'' ''text/event-stream''" "\<not> contains ''*/*'' ''text/event-stream''" by code_simp+
  from answer_modes_agree [OF this, of sample_gateway_env sample_start "sample_tick ''a''" "''T''"] show ?thesis by blast
qed

text \<open>Without a document the stream is one error event.\<close>

lemma sample_answer:
  "fst (post_answer sample_gateway_env sample_start (sample_tick ''a'') ''T'' ''text/event-stream'' ''q'')
     = SseReply [sse_answer_event 1 (Answer.ErrorEvent NO_SOURCES_AVAILABLE ''No sources available to generate an answer.'')]"
  by code_simp

definition no_sources_text :: string where
  "no_sources_text = json_dumps half (error_object NO_SOURCES_AVAILABLE ''No sources available to generate an answer.'')"

definition no_sources_loads :: "string \<Rightarrow> json option" where
  "no_sources_loads s = (if s = no_sources_text
     then Some (error_object NO_SOURCES_AVAILABLE ''No sources available to generate an answer.'') else None)"

lemma answer_reaches_client_witness:
  "until_terminal (sdk_events no_sources_loads (sse_stream half [StaysSilent,
      Arrives (sse_answer_event 1 (Answer.ErrorEvent NO_SOURCES_AVAILABLE ''No sources available to generate an answer.''))]))
   = [\<lparr>sx_type = ''error'', sx_data = error_object NO_SOURCES_AVAILABLE ''No sources available to generate an answer.'', sx_id = Some 1\<rparr>]"
proof -
  let ?e = "sse_answer_event 1 (Answer.ErrorEvent NO_SOURCES_AVAILABLE ''No sources available to generate an answer.'')"
  have a: "arrivals [StaysSilent, Arrives ?e] = [?e]" by (simp add: arrivals_def)
  have n: "list_all (\<lambda>c. c \<noteq> nel) (json_dumps half (sv_data ?e))" by code_simp
  have l: "no_sources_loads (json_dumps half (sv_data ?e)) = Some (sv_data ?e)"
    by (simp add: no_sources_loads_def no_sources_text_def sse_answer_event_def)
  have i: "list_all (\<lambda>c. c \<noteq> nel) (json_dumps half (sv_data e))"
    "no_sources_loads (json_dumps half (sv_data e)) = Some (sv_data e)" if "e \<in> set [?e]" for e
    using that n l by simp_all
  from answer_reaches_client [OF sample_answer a half_ok i] show ?thesis
    by (simp add: sse_answer_event_def)
qed

end
