(* ===== verification/IndexRoutes.thy ===== *)
theory IndexRoutes
  imports Gateway
begin

text \<open>
  The indexing endpoint end to end: the queue in front of the indexer, the database behind it, and what
  the contents endpoint serves afterwards.
\<close>

section \<open>The queue is never used\<close>

text \<open>
  The producer learns whether the broker is there only when it publishes, and the handler publishes only
  when the producer is known to be available.
\<close>

lemma producer_unused:
  "gw_producer (snd (post_search env g t u sb)) = gw_producer g"
  "gw_producer (snd (post_find_similar env g t u fb)) = gw_producer g"
  "gw_producer (snd (post_contents env g cb)) = gw_producer g"
  "gw_producer (snd (post_answer env g t u a query)) = gw_producer g"
  "gw_producer (snd (post_session env g t u d)) = gw_producer g"
  "gw_producer (snd (delete_session_route g t u s)) = gw_producer g"
  by (auto simp: post_search_def post_find_similar_def post_contents_def post_answer_def post_session_def
      delete_session_route_def Let_def split: prod.split sum.split option.split find_error.split)

lemma producer_unused_jobs:
  "gw_producer (snd (post_research env g t u rb)) = gw_producer g"
  "gw_producer (snd (post_pipeline env g t u n ss)) = gw_producer g"
proof -
  show "gw_producer (snd (post_research env g t u rb)) = gw_producer g"
    by (auto simp: post_research_def split: prod.split sum.split option.split research_error.split)
  obtain r sv where c: "create_pipeline (gw_pipelines g) (tk_at t) (tk_fresh t) u n (map step_dict ss) = (r, sv)" by fastforce
  show "gw_producer (snd (post_pipeline env g t u n ss)) = gw_producer g"
    by (simp add: post_pipeline_def c split: sum.split pipeline_error.split)
qed

lemma producer_index:
  "gw_producer g = new_producer \<Longrightarrow> gw_producer (snd (post_index env g t u url c)) = new_producer"
  by (auto simp: post_index_def fresh_producer_unavailable split: prod.split sum.split)

lemma producer_untouched:
  "gw_producer g = new_producer \<Longrightarrow> gw_producer (snd (serve_request env g t u q)) = new_producer"
  by (cases q) (simp_all add: serve_request_def producer_unused producer_unused_jobs producer_index)

lemma queue_never_used:
  "gw_producer (run_gateway env (get_services env now steps table) hs) = new_producer"
proof (induction hs rule: rev_induct)
  case Nil
  then show ?case by (simp add: run_gateway_def get_services_def)
next
  case (snoc h hs)
  then show ?case by (cases h) (simp add: run_gateway_append run_gateway_def [of _ _ "[_]"] producer_untouched)
qed

section \<open>Nothing is persisted\<close>

definition migrated_table :: documents_table where
  "migrated_table = \<lparr>dt_columns = migrated_columns, dt_unique = [''document_id'', ''canonical_url''],
     dt_visible_default = True, dt_rows = []\<rparr>"

text \<open>On the table the migrations create, both statements fail, and the failures are swallowed.\<close>

lemma migrated_table_not_written: "persist_document env (Some migrated_table) d u v c = Some migrated_table"
proof -
  have "\<not> set persist_columns \<subseteq> set (dt_columns migrated_table)"
    by (simp add: persist_columns_def migrated_table_def migrated_columns_def)
  then show ?thesis by (simp add: persist_document_def Let_def)
qed

lemma migrated_table_not_loaded: "load_persisted_documents env now (Some migrated_table) ix = ix"
proof -
  have "\<not> set load_columns \<subseteq> set (dt_columns migrated_table)"
    by (simp add: load_columns_def migrated_table_def migrated_columns_def)
  then show ?thesis by (simp add: load_persisted_documents_def)
qed


section \<open>What was indexed is what is served\<close>

text \<open>The service has indexed every document itself: nothing was reloaded.\<close>

lemma post_index_sync:
  "gw_producer g = new_producer \<Longrightarrow> url \<noteq> [] \<Longrightarrow> content \<noteq> [] \<Longrightarrow>
     post_index env g t tenant url content =
       (case index_document (ge_index env) (gw_indexer g) (tk_at t) (tk_fresh t) content url of
          (Inl e, ix) \<Rightarrow> (Inl (OtherError e), g\<lparr>gw_indexer := ix\<rparr>)
        | (Inr res, ix) \<Rightarrow>
            (Inr (json_response 201 (JObj [(''document_id'', JStr (xr_document_id res)),
                    (''version'', JInt (xr_version res)), (''is_new'', JBool (xr_is_new res))])),
             g\<lparr>gw_indexer := ix,
               gw_table := persist_document env (gw_table g) (xr_document_id res) url (xr_version res) content\<rparr>))"
  by (simp add: post_index_def fresh_producer_unavailable)

definition hashed :: "index_env \<Rightarrow> indexer \<Rightarrow> bool" where
  "hashed env ix \<longleftrightarrow> (\<forall>d vs v. dict_get (ix_documents ix) d = Some vs \<longrightarrow> v \<in> set vs \<longrightarrow> dv_hash v = compute_content_hash env (dv_text v))"

text \<open>No stored text has the hash of another text.\<close>

definition no_collision :: "index_env \<Rightarrow> indexer \<Rightarrow> string \<Rightarrow> bool" where
  "no_collision env ix t \<longleftrightarrow> (\<forall>d vs v. dict_get (ix_documents ix) d = Some vs \<longrightarrow> v \<in> set vs \<longrightarrow>
     compute_content_hash env (dv_text v) = compute_content_hash env t \<longrightarrow> dv_text v = t)"

lemma score_document_keeps:
  "score_document env d = Inr d' \<Longrightarrow> dv_version d' = dv_version d \<and> dv_text d' = dv_text d \<and> dv_hash d' = dv_hash d"
  by (auto simp: score_document_def split: option.splits sum.splits)

lemma index_document_latest:
  assumes "index_document env ix now fresh raw url = (Inr res, ix')" and "hashed env ix"
    and "no_collision env ix (clean_html (ie_unescape env) raw)"
  shows "\<exists>v. get_latest_version ix' (xr_document_id res) = Some v \<and> dv_version v = xr_version res
    \<and> dv_text v = clean_html (ie_unescape env) raw"
proof -
  let ?text = "clean_html (ie_unescape env) raw"
  have same: "dv_text v = ?text" if "dict_get (ix_documents ix) d = Some vs" "v \<in> set vs" "dv_hash v = compute_content_hash env ?text" for d vs v
    using that assms(2,3) by (auto simp: hashed_def no_collision_def)
  show ?thesis
    using assms(1) score_document_keeps same
    by (auto simp: index_document_def Let_def add_version_def put_versions_def write_indexes_def get_latest_version_def
        new_version_def split: option.splits if_splits sum.splits)
qed

lemma add_version_stored:
  "ix_documents (snd (add_version env ix vs d res)) =
     dict_set (dv_document_id d) (vs @ [case score_document env d of Inl e \<Rightarrow> d | Inr d' \<Rightarrow> d']) (ix_documents ix)"
proof (cases "score_document env d")
  case (Inr d')
  then have "dv_document_id d' = dv_document_id d" by (auto simp: score_document_def split: option.splits sum.splits)
  with Inr show ?thesis by (simp add: add_version_def put_versions_def write_indexes_def)
qed (simp add: add_version_def put_versions_def)

lemma hashed_set:
  "hashed env ix \<Longrightarrow> (\<And>v. v \<in> set vs \<Longrightarrow> dv_hash v = compute_content_hash env (dv_text v)) \<Longrightarrow>
     ix_documents ix' = dict_set d vs (ix_documents ix) \<Longrightarrow> hashed env ix'"
  by (auto simp: hashed_def split: if_splits)

lemma hashed_add:
  assumes "hashed env ix" and "ix_documents ix0 = ix_documents ix" and "dv_hash d = compute_content_hash env (dv_text d)"
    and "\<And>v. v \<in> set vs \<Longrightarrow> dv_hash v = compute_content_hash env (dv_text v)"
  shows "hashed env (snd (add_version env ix0 vs d res))"
proof (rule hashed_set [OF assms(1)])
  show "ix_documents (snd (add_version env ix0 vs d res)) =
     dict_set (dv_document_id d) (vs @ [case score_document env d of Inl e \<Rightarrow> d | Inr d' \<Rightarrow> d']) (ix_documents ix)"
    by (simp add: add_version_stored assms(2))
  show "dv_hash v = compute_content_hash env (dv_text v)"
    if "v \<in> set (vs @ [case score_document env d of Inl e \<Rightarrow> d | Inr d' \<Rightarrow> d'])" for v
    using that assms(3,4) score_document_keeps [of env d] by (auto split: sum.splits)
qed

lemma index_document_hashed:
  assumes "hashed env ix"
  shows "hashed env (snd (index_document env ix now fresh raw url))"
proof (cases "dict_get (ix_urls ix) url")
  case None
  then show ?thesis
    by (auto simp: index_document_def Let_def new_version_def intro!: hashed_add [OF assms])
next
  case (Some d)
  note url = this
  show ?thesis
  proof (cases "dict_get (ix_documents ix) d")
    case None
    with url assms show ?thesis by (simp add: index_document_def Let_def)
  next
    case (Some vs)
    then have vs: "\<And>v. v \<in> set vs \<Longrightarrow> dv_hash v = compute_content_hash env (dv_text v)" using assms by (auto simp: hashed_def)
    show ?thesis
    proof (cases "vs = [] \<or> dv_hash (last vs) \<noteq> compute_content_hash env (clean_html (ie_unescape env) raw)")
      case True
      then show ?thesis
        using url Some assms hashed_add [OF assms refl _ vs] by (auto simp: index_document_def Let_def new_version_def)
    next
      case False
      have "hashed env (put_versions ix d (butlast vs @ [(last vs)\<lparr>dv_last_seen := now\<rparr>]))"
      proof (rule hashed_set [OF assms])
        show "ix_documents (put_versions ix d (butlast vs @ [(last vs)\<lparr>dv_last_seen := now\<rparr>]))
          = dict_set d (butlast vs @ [(last vs)\<lparr>dv_last_seen := now\<rparr>]) (ix_documents ix)" by (simp add: put_versions_def)
        show "dv_hash v = compute_content_hash env (dv_text v)" if "v \<in> set (butlast vs @ [(last vs)\<lparr>dv_last_seen := now\<rparr>])" for v
          using that vs False by (auto dest: in_set_butlastD)
      qed
      then show ?thesis using url Some False by (simp add: index_document_def Let_def)
    qed
  qed
qed

lemma indexer_unused:
  "gw_indexer (snd (post_search env g t u sb)) = gw_indexer g"
  "gw_indexer (snd (post_find_similar env g t u fb)) = gw_indexer g"
  "gw_indexer (snd (post_contents env g cb)) = gw_indexer g"
  "gw_indexer (snd (post_answer env g t u a query)) = gw_indexer g"
  "gw_indexer (snd (post_session env g t u d)) = gw_indexer g"
  "gw_indexer (snd (delete_session_route g t u s)) = gw_indexer g"
  by (auto simp: post_search_def post_find_similar_def post_contents_def post_answer_def post_session_def
      delete_session_route_def Let_def split: prod.split sum.split option.split find_error.split)

lemma indexer_unused_jobs:
  "gw_indexer (snd (post_research env g t u rb)) = gw_indexer g"
  "gw_indexer (snd (post_pipeline env g t u n ss)) = gw_indexer g"
proof -
  show "gw_indexer (snd (post_research env g t u rb)) = gw_indexer g"
    by (auto simp: post_research_def split: prod.split sum.split option.split research_error.split)
  obtain r sv where c: "create_pipeline (gw_pipelines g) (tk_at t) (tk_fresh t) u n (map step_dict ss) = (r, sv)" by fastforce
  show "gw_indexer (snd (post_pipeline env g t u n ss)) = gw_indexer g"
    by (simp add: post_pipeline_def c split: sum.split pipeline_error.split)
qed

lemma index_request_indexer:
  "gw_indexer (snd (post_index env g t u url c)) = gw_indexer g
   \<or> gw_indexer (snd (post_index env g t u url c)) = snd (index_document (ge_index env) (gw_indexer g) (tk_at t) (tk_fresh t) c url)"
  by (auto simp: post_index_def split: prod.split sum.split)

lemma request_hashed:
  "hashed (ge_index env) (gw_indexer g) \<Longrightarrow> hashed (ge_index env) (gw_indexer (snd (serve_request env g t u q)))"
proof (cases q)
  case (IndexReq url c)
  assume "hashed (ge_index env) (gw_indexer g)"
  then show ?thesis
    using index_request_indexer [of env g t u url c] index_document_hashed [of "ge_index env" "gw_indexer g"]
    by (auto simp: serve_request_def IndexReq)
qed (simp_all add: serve_request_def indexer_unused indexer_unused_jobs)

lemma run_hashed:
  assumes "load_persisted_documents (ge_index env) now table (new_indexer False) = new_indexer False"
  shows "hashed (ge_index env) (gw_indexer (run_gateway env (get_services env now steps table) hs))"
proof (induction hs rule: rev_induct)
  case Nil
  have "hashed (ge_index env) (new_indexer False)" by (simp add: hashed_def new_indexer_def)
  then show ?case by (simp add: run_gateway_def get_services_def assms)
next
  case (snoc h hs)
  then show ?case by (cases h) (simp add: run_gateway_append run_gateway_def [of _ _ "[_]"] request_hashed)
qed

text \<open>
  C21. What was indexed is what is served.  After any requests to a process that reloaded nothing, when a
  document is indexed and the reply names an identifier and a version, the contents endpoint answers a
  request for that identifier with that version and exactly the cleaned text of what was posted, whether
  the document is new, changed or unchanged; provided no stored text has the hash of another one.
\<close>

theorem indexed_is_served:
  assumes "table = None \<or> table = Some migrated_table"
    and "g = run_gateway env (get_services env now steps table) hs"
    and "post_index env g t tenant url content = (Inr a, g')" and "ap_status a = 201"
    and "no_collision (ge_index env) (gw_indexer g) (clean_html (ie_unescape (ge_index env)) content)"
  shows "\<exists>d n u fresh provenance. ap_body a = JObj [(''document_id'', JStr d), (''version'', JInt n), (''is_new'', JBool fresh)]
    \<and> fst (post_contents env g' \<lparr>cb_document_ids = [d], cb_highlights = None, cb_query = None, cb_summary = None\<rparr>)
      = Inr (json_response 200 (JObj [(''results'', JList [JObj ([(''document_id'', JStr d), (''version'', JInt n),
          (''url'', JStr u), (''cleaned_text'', JStr (clean_html (ie_unescape (ge_index env)) content))] @ provenance)])]))"
proof -
  let ?ix = "index_document (ge_index env) (gw_indexer g) (tk_at t) (tk_fresh t) content url"
  have p: "gw_producer g = new_producer" by (simp add: assms(2) queue_never_used)
  have ne: "url \<noteq> [] \<and> content \<noteq> []" using assms(3,4) by (auto simp: post_index_def)
  obtain res ix' where i: "?ix = (Inr res, ix')" "ap_body a = JObj [(''document_id'', JStr (xr_document_id res)),
        (''version'', JInt (xr_version res)), (''is_new'', JBool (xr_is_new res))]" "gw_indexer g' = ix'"
    using assms(3) ne by (auto simp: post_index_sync [OF p] split: prod.splits sum.splits)
  have "load_persisted_documents (ge_index env) now table (new_indexer False) = new_indexer False"
    using assms(1) migrated_table_not_loaded by (auto simp: load_persisted_documents_def)
  from run_hashed [OF this] have "hashed (ge_index env) (gw_indexer g)" by (simp add: assms(2))
  from index_document_latest [OF i(1) this assms(5)] obtain v where
    v: "get_latest_version ix' (xr_document_id res) = Some v" "dv_version v = xr_version res"
       "dv_text v = clean_html (ie_unescape (ge_index env)) content" by blast
  then show ?thesis
    using i by (intro exI [of _ "xr_document_id res"] exI [of _ "xr_version res"] exI [of _ "dv_url v"] exI [of _ "xr_is_new res"])
      (auto simp: post_contents_def contents_request_errors_def validate_document_ids_def validate_contents_request_def
        indexer_contents_def fetch_entry_def content_of_def to_response_dict_def entry_json_def)
qed

text \<open>A reloaded document has the hash \<open>loaded\<close>, so posting the very same content again makes a new version of it.\<close>

lemma reloaded_content_is_new_version:
  assumes "clean_html (ie_unescape env) raw = dr_text r" and "compute_content_hash env (dr_text r) \<noteq> ''loaded''"
    and "index_document env (load_row env now ix r) now2 fresh raw (dr_source_url r) = (Inr res, ix')"
  shows "xr_version res = dr_version r + 1 \<and> xr_incremented res"
proof -
  have d: "dict_get (ix_urls (load_row env now ix r)) (dr_source_url r) = Some (dr_document_id r)"
    "\<exists>v. dict_get (ix_documents (load_row env now ix r)) (dr_document_id r) = Some [v] \<and> dv_hash v = ''loaded'' \<and> dv_version v = dr_version r"
    by (simp_all add: load_row_def write_indexes_def)
  then show ?thesis using assms by (auto simp: index_document_def Let_def add_version_def split: sum.splits)
qed

lemma indexed_is_served_witness:
  "\<exists>d n u provenance. fst (post_contents sample_gateway_env (snd (post_index sample_gateway_env sample_start (sample_tick ''d'') ''T'' ''u'' ''hi''))
      \<lparr>cb_document_ids = [d], cb_highlights = None, cb_query = None, cb_summary = None\<rparr>)
     = Inr (json_response 200 (JObj [(''results'', JList [JObj ([(''document_id'', JStr d), (''version'', JInt n),
          (''url'', JStr u), (''cleaned_text'', JStr ''hi'')] @ provenance)])]))"
proof -
  let ?r = "post_index sample_gateway_env sample_start (sample_tick ''d'') ''T'' ''u'' ''hi''"
  have g: "sample_start = run_gateway sample_gateway_env (get_services sample_gateway_env 0 sample_steps_env None) []"
    by (simp add: run_gateway_def sample_start_def)
  have c: "clean_html (ie_unescape (ge_index sample_gateway_env)) ''hi'' = ''hi''" by code_simp
  have n: "no_collision (ge_index sample_gateway_env) (gw_indexer sample_start) (clean_html (ie_unescape (ge_index sample_gateway_env)) ''hi'')"
    by (simp add: no_collision_def sample_start_def get_services_def load_persisted_documents_def new_indexer_def)
  have s: "case fst ?r of Inr a \<Rightarrow> ap_status a = 201 | Inl e \<Rightarrow> False" by code_simp
  then obtain a where a: "?r = (Inr a, snd ?r)" "ap_status a = 201" by (cases "fst ?r") (auto simp: prod_eq_iff)
  have "None = (None :: documents_table option) \<or> None = Some migrated_table" by simp
  from indexed_is_served [OF this g a n] c show ?thesis by auto
qed

end
