(* ===== verification/Http.thy ===== *)
theory Http
  imports Gateway
begin

text \<open>
  From an HTTP request to a handler: the request models and the router of
  \<open>backend/api_gateway/routes.py\<close>.

  The web framework checks the body against the request model and finds the route.  A field of a model
  must have the JSON type declared for it (the framework would also convert some values of other types;
  no client of this repository sends such values); a field that is not given has its default.  What the
  framework itself answers is a parameter: to a body that does not fit, to a path without a route and to
  a method that a path does not have.
\<close>

section \<open>Request models\<close>

definition as_str :: "json \<Rightarrow> string option" where
  "as_str j = (case j of JStr s \<Rightarrow> Some s | _ \<Rightarrow> None)"

definition as_int :: "json \<Rightarrow> int option" where
  "as_int j = (case j of JInt i \<Rightarrow> Some i | _ \<Rightarrow> None)"

definition as_bool :: "json \<Rightarrow> bool option" where
  "as_bool j = (case j of JBool b \<Rightarrow> Some b | _ \<Rightarrow> None)"

definition as_float :: "json \<Rightarrow> rat option" where
  "as_float j = (case j of JReal x \<Rightarrow> Some x | JInt i \<Rightarrow> Some (of_int i) | _ \<Rightarrow> None)"

definition as_dict :: "json \<Rightarrow> (string, json) dict option" where
  "as_dict j = (case j of JObj d \<Rightarrow> Some d | _ \<Rightarrow> None)"

fun as_list :: "(json \<Rightarrow> 'a option) \<Rightarrow> json list \<Rightarrow> 'a list option" where
  "as_list f [] = Some []"
| "as_list f (j # js) = Option.bind (f j) (\<lambda>x. map_option ((#) x) (as_list f js))"

text \<open>A field that must be given, one with a default, and one that may be null.\<close>

definition field :: "(json \<Rightarrow> 'a option) \<Rightarrow> (string, json) dict \<Rightarrow> string \<Rightarrow> 'a option" where
  "field f d k = Option.bind (dict_get d k) f"

definition field_or :: "(json \<Rightarrow> 'a option) \<Rightarrow> 'a \<Rightarrow> (string, json) dict \<Rightarrow> string \<Rightarrow> 'a option" where
  "field_or f v d k = (case dict_get d k of None \<Rightarrow> Some v | Some j \<Rightarrow> f j)"

definition nullable :: "(json \<Rightarrow> 'a option) \<Rightarrow> json \<Rightarrow> 'a option option" where
  "nullable f j = (case j of JNull \<Rightarrow> Some None | _ \<Rightarrow> map_option Some (f j))"

definition optional :: "(json \<Rightarrow> 'a option) \<Rightarrow> (string, json) dict \<Rightarrow> string \<Rightarrow> 'a option option" where
  "optional f d k = field_or (nullable f) None d k"

definition decode_index :: "(string, json) dict \<Rightarrow> request option" where
  "decode_index d = Option.bind (field as_str d ''url'') (\<lambda>u. map_option (IndexReq u) (field as_str d ''content''))"

definition decode_search :: "(string, json) dict \<Rightarrow> request option" where
  "decode_search d =
     Option.bind (field as_str d ''query'') (\<lambda>q.
     Option.bind (field_or as_str ''hybrid'' d ''mode'') (\<lambda>mode.
     Option.bind (field_or as_int 10 d ''num_results'') (\<lambda>n.
     Option.bind (optional as_str d ''filters'') (\<lambda>fs.
     Option.bind (optional as_str d ''pipeline_id'') (\<lambda>p.
     Option.bind (optional as_float d ''min_credibility'') (\<lambda>mc.
     Option.bind (optional as_float d ''max_ai_generated_likelihood'') (\<lambda>ma.
     Some (SearchReq \<lparr>sb_query = q, sb_mode = mode, sb_num_results = n, sb_filters = fs, sb_pipeline_id = p,
       sb_min_credibility = mc, sb_max_ai = ma\<rparr>))))))))"

definition decode_similar :: "(string, json) dict \<Rightarrow> request option" where
  "decode_similar d =
     Option.bind (field as_str d ''url'') (\<lambda>u.
     Option.bind (field_or as_int 10 d ''num_results'') (\<lambda>n.
     Option.bind (optional as_str d ''filters'') (\<lambda>fs.
     Some (SimilarReq \<lparr>fb_url = u, fb_num_results = n, fb_filters = fs\<rparr>))))"

definition strings :: "json \<Rightarrow> string list option" where
  "strings j = (case j of JList js \<Rightarrow> as_list as_str js | _ \<Rightarrow> None)"

definition decode_contents :: "(string, json) dict \<Rightarrow> request option" where
  "decode_contents d =
     Option.bind (field strings d ''document_ids'') (\<lambda>ids.
     Option.bind (optional as_bool d ''highlights'') (\<lambda>h.
     Option.bind (optional as_str d ''query'') (\<lambda>q.
     Option.bind (optional as_bool d ''summary'') (\<lambda>s.
     Some (ContentsReq \<lparr>cb_document_ids = ids, cb_highlights = h, cb_query = q, cb_summary = s\<rparr>)))))"

definition decode_answer :: "string \<Rightarrow> (string, json) dict \<Rightarrow> request option" where
  "decode_answer accept d =
     Option.bind (field as_str d ''query'') (\<lambda>q.
     Option.bind (field_or as_bool True d ''stream'') (\<lambda>s.
     Option.bind (optional as_str d ''session_id'') (\<lambda>sid. Some (AnswerReq accept q))))"

definition decode_research :: "(string, json) dict \<Rightarrow> request option" where
  "decode_research d =
     Option.bind (field as_str d ''research_goal'') (\<lambda>goal.
     Option.bind (optional as_dict d ''output_schema'') (\<lambda>sch.
     Option.bind (optional as_str d ''session_id'') (\<lambda>sid.
     Option.bind (optional as_int d ''max_steps'') (\<lambda>ms.
     Option.bind (optional as_int d ''max_duration_ms'') (\<lambda>md.
     Option.bind (optional as_int d ''max_tool_calls'') (\<lambda>mt.
     Some (ResearchReq \<lparr>ab_goal = goal, ab_schema = sch, ab_session_id = sid, ab_max_steps = ms,
       ab_max_duration_ms = md, ab_max_tool_calls = mt\<rparr>)))))))"

definition decode_session :: "(string, json) dict \<Rightarrow> request option" where
  "decode_session d =
     map_option SessionReq (field_or (nullable as_int) (Some 14) d ''retention_days'')"

definition decode_step :: "json \<Rightarrow> step_body option" where
  "decode_step j =
     Option.bind (as_dict j) (\<lambda>d.
     Option.bind (field as_str d ''name'') (\<lambda>n.
     Option.bind (optional as_dict d ''config'') (\<lambda>c.
     Option.bind (field_or (nullable as_int) (Some 2000) d ''timeout_ms'') (\<lambda>t.
     Some \<lparr>tb_name = n, tb_config = c, tb_timeout = t\<rparr>))))"

definition steps_of :: "json \<Rightarrow> step_body list option" where
  "steps_of j = (case j of JList js \<Rightarrow> as_list decode_step js | _ \<Rightarrow> None)"

definition decode_pipeline :: "(string, json) dict \<Rightarrow> request option" where
  "decode_pipeline d =
     Option.bind (field as_str d ''name'') (\<lambda>n. map_option (PipelineReq n) (field steps_of d ''steps''))"

section \<open>The router\<close>

datatype routed = Routed request | BadBody | NoRoute | WrongMethod

definition with_body :: "((string, json) dict \<Rightarrow> request option) \<Rightarrow> json option \<Rightarrow> routed" where
  "with_body decode body =
     (case body of
        Some (JObj d) \<Rightarrow> (case decode d of Some q \<Rightarrow> Routed q | None \<Rightarrow> BadBody)
      | _ \<Rightarrow> BadBody)"

text \<open>The endpoints that take a body, and those that name an object, under the prefix \<open>/v1\<close>.\<close>

definition post_route :: "string \<Rightarrow> string \<Rightarrow> json option \<Rightarrow> routed" where
  "post_route name accept body =
     (if name = ''index'' then with_body decode_index body
      else if name = ''search'' then with_body decode_search body
      else if name = ''find_similar'' then with_body decode_similar body
      else if name = ''contents'' then with_body decode_contents body
      else if name = ''answer'' then with_body (decode_answer accept) body
      else if name = ''research'' then with_body decode_research body
      else if name = ''sessions'' then with_body decode_session body
      else if name = ''pipelines'' then with_body decode_pipeline body
      else NoRoute)"

definition item_route :: "string \<Rightarrow> string \<Rightarrow> string \<Rightarrow> routed" where
  "item_route verb name identifier =
     (if identifier = [] then NoRoute
      else if name = ''research'' then (if verb = ''GET'' then Routed (ReportReq identifier) else WrongMethod)
      else if name = ''sessions'' then (if verb = ''DELETE'' then Routed (DeleteSessionReq identifier) else WrongMethod)
      else if name = ''pipelines'' then (if verb = ''GET'' then Routed (GetPipelineReq identifier) else WrongMethod)
      else NoRoute)"

definition route :: "string \<Rightarrow> string \<Rightarrow> (string, string) dict \<Rightarrow> json option \<Rightarrow> routed" where
  "route verb path headers body =
     (case split_on CHR ''/'' path of
        [a, b, name] \<Rightarrow>
          if a = [] \<and> b = ''v1''
          then (if verb = ''POST'' then post_route name (case dict_get headers ''accept'' of Some s \<Rightarrow> s | None \<Rightarrow> '''') body
                else if post_route name '''' None = NoRoute then NoRoute else WrongMethod)
          else NoRoute
      | [a, b, name, identifier] \<Rightarrow> if a = [] \<and> b = ''v1'' then item_route verb name identifier else NoRoute
      | [a, b, name, identifier, sub] \<Rightarrow>
          if a = [] \<and> b = ''v1'' \<and> name = ''research'' \<and> identifier \<noteq> [] \<and> sub = ''events''
          then (if verb = ''GET'' then Routed (EventsReq identifier (dict_get headers ''last-event-id'')) else WrongMethod)
          else NoRoute
      | _ \<Rightarrow> NoRoute)"

section \<open>Responses\<close>

datatype wire_body = JsonBody json | EventBody "sse_event list"

record wire_response =
  wr_status :: int
  wr_headers :: "(string, string) dict"
  wr_body :: wire_body

record framework =
  fw_bad_body :: json
  fw_not_found :: json
  fw_not_allowed :: json

definition wire_of_reply :: "answer_reply \<Rightarrow> wire_response" where
  "wire_of_reply r = (case r of
     JsonReply a \<Rightarrow> \<lparr>wr_status = ap_status a, wr_headers = ap_headers a, wr_body = JsonBody (ap_body a)\<rparr>
   | SseReply es \<Rightarrow> \<lparr>wr_status = 200, wr_headers = sse_headers [], wr_body = EventBody es\<rparr>)"

definition json_wire :: "int \<Rightarrow> json \<Rightarrow> wire_response" where
  "json_wire status body = \<lparr>wr_status = status, wr_headers = [], wr_body = JsonBody body\<rparr>"

definition serve_http :: "framework \<Rightarrow> gateway_env \<Rightarrow> gateway \<Rightarrow> tick \<Rightarrow> string \<Rightarrow> string \<Rightarrow> string
    \<Rightarrow> (string, string) dict \<Rightarrow> json option \<Rightarrow> wire_response \<times> gateway" where
  "serve_http fw env g t tenant verb path headers body =
     (case route verb path headers body of
        Routed q \<Rightarrow> (case serve_request env g t tenant q of (r, g') \<Rightarrow> (wire_of_reply r, g'))
      | BadBody \<Rightarrow> (json_wire 422 (fw_bad_body fw), g)
      | NoRoute \<Rightarrow> (json_wire 404 (fw_not_found fw), g)
      | WrongMethod \<Rightarrow> (json_wire 405 (fw_not_allowed fw), g))"

end
