(* ===== verification/Sdk.thy ===== *)
theory Sdk
  imports Http
begin

text \<open>
  The Python client: \<open>sdks/python/src/agentic_research_sdk/client.py\<close>.

  The HTTP library is a parameter: what it returns or raises for a request.  The data classes of the
  client check no types, so their fields hold JSON values; a subscript of a missing key is \<open>KeyError\<close>,
  an attribute that a value does not have \<open>AttributeError\<close>.
\<close>

section \<open>Requests and their errors\<close>

record http_response =
  hr_status :: int
  hr_headers :: "(string, string) dict"
  hr_json :: "json option"

text \<open>The exceptions of httpx, and those of an injected client, by class name and message.\<close>

datatype transport_failure = HttpxTimeout | HttpxConnect string | HttpxOther string | InjectedFailure string string

type_synonym transport_outcome = "transport_failure + http_response"

record http_request =
  hq_method :: string
  hq_url :: string
  hq_headers :: "(string, string) dict"
  hq_json :: "json option"

type_synonym transport = "http_request \<Rightarrow> transport_outcome"

record sdk_error_info =
  sd_message :: json
  sd_status :: "int option"
  sd_code :: "json option"
  sd_request_id :: "string option"

datatype sdk_error =
    APIError sdk_error_info
  | SdkTimeout sdk_error_info
  | SdkConnection sdk_error_info
  | SdkParse sdk_error_info
  | PyRaise string

record sdk_client =
  sk_base_url :: string
  sk_api_key :: string
  sk_transport :: transport

definition new_client :: "string \<Rightarrow> string \<Rightarrow> transport \<Rightarrow> sdk_client" where
  "new_client base_url api_key tr =
     \<lparr>sk_base_url = rev (dropWhile (\<lambda>c. c = CHR ''/'') (rev base_url)), sk_api_key = api_key, sk_transport = tr\<rparr>"

definition client_headers :: "sdk_client \<Rightarrow> (string, string) dict" where
  "client_headers c = [(''Authorization'', ''Bearer '' @ sk_api_key c), (''Content-Type'', ''application/json''),
     (''Accept'', ''application/json'')]"

definition build_url :: "sdk_client \<Rightarrow> string \<Rightarrow> string" where
  "build_url c path = sk_base_url c @ path"

definition plain_error :: "string \<Rightarrow> sdk_error_info" where
  "plain_error message = \<lparr>sd_message = JStr message, sd_status = None, sd_code = None, sd_request_id = None\<rparr>"

text \<open>\<open>float_text\<close> is how the time limit of the client is written.\<close>

definition map_failure :: "string \<Rightarrow> transport_failure \<Rightarrow> sdk_error" where
  "map_failure float_text f = (case f of
     HttpxTimeout \<Rightarrow> SdkTimeout (plain_error (''Request timed out after '' @ float_text @ ''s''))
   | HttpxConnect m \<Rightarrow> SdkConnection (plain_error (''Connection failed: '' @ m))
   | HttpxOther m \<Rightarrow> PyRaise m
   | InjectedFailure name m \<Rightarrow>
       if contains name ''Timeout'' \<or> contains (py_lower m) ''timeout''
       then SdkTimeout (plain_error (''Request timed out after '' @ float_text @ ''s''))
       else if contains name ''Connect'' \<or> contains (py_lower m) ''connection''
       then SdkConnection (plain_error (''Connection failed: '' @ m))
       else PyRaise m)"

definition response_request_id :: "http_response \<Rightarrow> string option" where
  "response_request_id r =
     (case dict_get (hr_headers r) ''X-Request-Id'' of
        Some s \<Rightarrow> if s \<noteq> [] then Some s else dict_get (hr_headers r) ''x-request-id''
      | None \<Rightarrow> dict_get (hr_headers r) ''x-request-id'')"

definition error_of_body :: "string \<Rightarrow> json option \<Rightarrow> json \<times> json option" where
  "error_of_body dflt body =
     (case body of
        Some (JObj d) \<Rightarrow>
          (case dict_get d ''error'' of
             Some (JObj e) \<Rightarrow> (json_get e ''message'' (JStr dflt), dict_get e ''code'')
           | _ \<Rightarrow> (JStr dflt, None))
      | _ \<Rightarrow> (JStr dflt, None))"

definition read_response :: "int \<Rightarrow> http_response \<Rightarrow> sdk_error + json" where
  "read_response expected r =
     (let request_id = response_request_id r; status = hr_status r in
      if status \<noteq> expected \<and> (status < 200 \<or> status \<ge> 300)
      then (let (message, code) = error_of_body (''HTTP '' @ str_int status) (hr_json r)
            in Inl (APIError \<lparr>sd_message = message, sd_status = Some status, sd_code = code, sd_request_id = request_id\<rparr>))
      else (case hr_json r of
          Some j \<Rightarrow> Inr j
        | None \<Rightarrow> Inl (SdkParse \<lparr>sd_message = JStr ''Failed to parse response'', sd_status = Some status,
                        sd_code = None, sd_request_id = request_id\<rparr>)))"

definition sdk_request :: "sdk_client \<Rightarrow> string \<Rightarrow> string \<Rightarrow> string \<Rightarrow> json option \<Rightarrow> int \<Rightarrow> sdk_error + json" where
  "sdk_request c float_text verb path body expected =
     (case sk_transport c \<lparr>hq_method = verb, hq_url = build_url c path, hq_headers = client_headers c, hq_json = body\<rparr> of
        Inl f \<Rightarrow> Inl (map_failure float_text f)
      | Inr r \<Rightarrow> read_response expected r)"

section \<open>Reading JSON\<close>

definition jneed :: "json \<Rightarrow> string \<Rightarrow> sdk_error + json" where
  "jneed j k = (case j of
     JObj d \<Rightarrow> (case dict_get d k of Some v \<Rightarrow> Inr v | None \<Rightarrow> Inl (PyRaise (''KeyError: '' @ k)))
   | _ \<Rightarrow> Inl (PyRaise ''TypeError''))"

definition jget :: "json \<Rightarrow> string \<Rightarrow> sdk_error + json option" where
  "jget j k = (case j of JObj d \<Rightarrow> Inr (dict_get d k) | _ \<Rightarrow> Inl (PyRaise ''AttributeError''))"

definition jor :: "json option \<Rightarrow> json \<Rightarrow> json" where
  "jor x d = (case x of Some j \<Rightarrow> j | None \<Rightarrow> d)"

definition jiter :: "json \<Rightarrow> sdk_error + json list" where
  "jiter j = (case json_iter j of Some xs \<Rightarrow> Inr xs | None \<Rightarrow> Inl (PyRaise ''TypeError''))"

definition bind_sum :: "'e + 'a \<Rightarrow> ('a \<Rightarrow> 'e + 'b) \<Rightarrow> 'e + 'b" where
  "bind_sum x f = (case x of Inl e \<Rightarrow> Inl e | Inr a \<Rightarrow> f a)"

fun map_sum_list :: "('a \<Rightarrow> 'e + 'b) \<Rightarrow> 'a list \<Rightarrow> 'e + 'b list" where
  "map_sum_list f [] = Inr []"
| "map_sum_list f (x # xs) = bind_sum (f x) (\<lambda>y. bind_sum (map_sum_list f xs) (\<lambda>ys. Inr (y # ys)))"

lemma bind_sum_simps [simp]: "bind_sum (Inl e) f = Inl e" "bind_sum (Inr a) f = f a"
  by (simp_all add: bind_sum_def)

lemma map_sum_list_map: "(\<And>x. f (h x) = Inr (g x)) \<Longrightarrow> map_sum_list f (map h xs) = Inr (map g xs)"
  by (induction xs) auto

section \<open>Search\<close>

record sdk_result =
  sz_document_id :: json
  sz_url :: json
  sz_title :: json
  sz_score :: json
  sz_published_at :: json
  sz_credibility :: json
  sz_ai :: json
  sz_scored_at :: json

record sdk_search_response =
  sy_results :: "sdk_result list"
  sy_warnings :: json
  sy_index_version :: json

definition parse_result :: "json \<Rightarrow> sdk_error + sdk_result" where
  "parse_result r =
     bind_sum (jget r ''provenance'') (\<lambda>prov.
     bind_sum (jneed r ''document_id'') (\<lambda>document_id.
     bind_sum (jneed r ''url'') (\<lambda>url.
     bind_sum (jneed r ''title'') (\<lambda>title.
     bind_sum (jneed r ''score'') (\<lambda>score.
     bind_sum (jget r ''published_at'') (\<lambda>published.
     bind_sum (jget (jor prov (JObj [])) ''credibility_score'') (\<lambda>cred.
     bind_sum (jget (jor prov (JObj [])) ''ai_generated_likelihood'') (\<lambda>ai.
     bind_sum (jget (jor prov (JObj [])) ''scored_at'') (\<lambda>scored.
     Inr \<lparr>sz_document_id = document_id, sz_url = url, sz_title = title, sz_score = score,
          sz_published_at = jor published JNull, sz_credibility = jor cred (JReal 0), sz_ai = jor ai (JReal 0),
          sz_scored_at = jor scored (JStr '''')\<rparr>)))))))))"

definition parse_search_response :: "json \<Rightarrow> sdk_error + sdk_search_response" where
  "parse_search_response data =
     bind_sum (jget data ''results'') (\<lambda>rs.
     bind_sum (jiter (jor rs (JList []))) (\<lambda>items.
     bind_sum (map_sum_list parse_result items) (\<lambda>results.
     bind_sum (jget data ''warnings'') (\<lambda>warnings.
     bind_sum (jget data ''index_version'') (\<lambda>index_version.
     Inr \<lparr>sy_results = results, sy_warnings = jor warnings (JList []), sy_index_version = jor index_version JNull\<rparr>)))))"

definition opt_field :: "string \<Rightarrow> ('a \<Rightarrow> json) \<Rightarrow> 'a option \<Rightarrow> (string \<times> json) list" where
  "opt_field k f x = (case x of None \<Rightarrow> [] | Some a \<Rightarrow> [(k, f a)])"

definition sdk_search :: "sdk_client \<Rightarrow> string \<Rightarrow> string \<Rightarrow> search_mode \<Rightarrow> int \<Rightarrow> string option \<Rightarrow> string option
    \<Rightarrow> rat option \<Rightarrow> rat option \<Rightarrow> sdk_error + sdk_search_response" where
  "sdk_search c float_text query mode num_results filters pipeline_id min_credibility max_ai =
     (let body = JObj ([(''query'', JStr query), (''mode'', JStr (mode_value mode)), (''num_results'', JInt num_results)]
            @ opt_field ''filters'' JStr filters @ opt_field ''pipeline_id'' JStr pipeline_id
            @ opt_field ''min_credibility'' JReal min_credibility @ opt_field ''max_ai_generated_likelihood'' JReal max_ai)
      in bind_sum (sdk_request c float_text ''POST'' ''/search'' (Some body) 200) parse_search_response)"

definition sdk_find_similar :: "sdk_client \<Rightarrow> string \<Rightarrow> string \<Rightarrow> int \<Rightarrow> string option
    \<Rightarrow> rat option \<Rightarrow> rat option \<Rightarrow> sdk_error + sdk_search_response" where
  "sdk_find_similar c float_text url num_results filters min_credibility max_ai =
     (let body = JObj ([(''url'', JStr url), (''num_results'', JInt num_results)] @ opt_field ''filters'' JStr filters
            @ opt_field ''min_credibility'' JReal min_credibility @ opt_field ''max_ai_generated_likelihood'' JReal max_ai)
      in bind_sum (sdk_request c float_text ''POST'' ''/find_similar'' (Some body) 200) parse_search_response)"

section \<open>Contents\<close>

record sdk_entry =
  sn_document_id :: json
  sn_version :: json
  sn_cleaned_text :: json
  sn_highlights :: json
  sn_summary :: json
  sn_error :: json

definition parse_entry :: "json \<Rightarrow> sdk_error + sdk_entry" where
  "parse_entry e =
     bind_sum (jget e ''document_id'') (\<lambda>document_id. bind_sum (jget e ''version'') (\<lambda>version.
     bind_sum (jget e ''cleaned_text'') (\<lambda>cleaned. bind_sum (jget e ''highlights'') (\<lambda>highlights.
     bind_sum (jget e ''summary'') (\<lambda>summary. bind_sum (jget e ''error'') (\<lambda>err.
     Inr \<lparr>sn_document_id = jor document_id (JStr ''''), sn_version = jor version JNull,
          sn_cleaned_text = jor cleaned JNull, sn_highlights = jor highlights JNull,
          sn_summary = jor summary JNull, sn_error = jor err JNull\<rparr>))))))"

definition sdk_contents :: "sdk_client \<Rightarrow> string \<Rightarrow> string list \<Rightarrow> bool \<Rightarrow> string option \<Rightarrow> bool \<Rightarrow> sdk_error + sdk_entry list" where
  "sdk_contents c float_text document_ids highlights query summary =
     (let body = JObj ([(''document_ids'', JList (map JStr document_ids)), (''highlights'', JBool highlights),
            (''summary'', JBool summary)] @ opt_field ''query'' JStr query)
      in bind_sum (sdk_request c float_text ''POST'' ''/contents'' (Some body) 200) (\<lambda>data.
         bind_sum (jget data ''results'') (\<lambda>rs.
         bind_sum (jiter (jor rs (JList []))) (map_sum_list parse_entry))))"

section \<open>Research, sessions and pipelines\<close>

definition sdk_create_research :: "sdk_client \<Rightarrow> string \<Rightarrow> string \<Rightarrow> (string, json) dict option \<Rightarrow> string option
    \<Rightarrow> int option \<Rightarrow> int option \<Rightarrow> int option \<Rightarrow> sdk_error + json" where
  "sdk_create_research c float_text goal output_schema session_id max_steps max_duration_ms max_tool_calls =
     (let body = JObj ([(''research_goal'', JStr goal)] @ opt_field ''output_schema'' JObj output_schema
            @ opt_field ''session_id'' JStr session_id @ opt_field ''max_steps'' JInt max_steps
            @ opt_field ''max_duration_ms'' JInt max_duration_ms @ opt_field ''max_tool_calls'' JInt max_tool_calls)
      in bind_sum (sdk_request c float_text ''POST'' ''/research'' (Some body) 201) (\<lambda>data. jneed data ''job_id''))"

record sdk_citation =
  sc_document :: json
  sc_ver :: json
  sc_spans :: "json list"

definition parse_citation :: "json \<Rightarrow> sdk_error + sdk_citation" where
  "parse_citation c =
     bind_sum (jneed c ''document_id'') (\<lambda>d. bind_sum (jneed c ''version'') (\<lambda>v.
     bind_sum (map_sum_list (jneed c) [''answer_start'', ''answer_end'', ''source_start'', ''source_end'']) (\<lambda>ss.
     Inr \<lparr>sc_document = d, sc_ver = v, sc_spans = ss\<rparr>)))"

record sdk_job =
  sj_job_id :: json
  sj_state :: json
  sj_created_at :: json
  sj_report :: json
  sj_citations :: "sdk_citation list option"

definition sdk_get_research_job :: "sdk_client \<Rightarrow> string \<Rightarrow> string \<Rightarrow> sdk_error + sdk_job" where
  "sdk_get_research_job c float_text job_id =
     bind_sum (sdk_request c float_text ''GET'' (''/research/'' @ job_id) None 200) (\<lambda>data.
     bind_sum (jget data ''citations'') (\<lambda>cs.
     bind_sum (if json_truthy (jor cs JNull)
               then bind_sum (jiter (jor cs JNull)) (\<lambda>items. bind_sum (map_sum_list parse_citation items) (\<lambda>xs. Inr (Some xs)))
               else Inr None) (\<lambda>citations.
     bind_sum (jneed data ''job_id'') (\<lambda>j. bind_sum (jneed data ''state'') (\<lambda>state.
     bind_sum (jneed data ''created_at'') (\<lambda>created. bind_sum (jget data ''report'') (\<lambda>report.
     Inr \<lparr>sj_job_id = j, sj_state = state, sj_created_at = created, sj_report = jor report JNull,
          sj_citations = citations\<rparr>)))))))"

record sdk_session =
  sw_session_id :: json
  sw_created_at :: json
  sw_retention_days :: json
  sw_expires_at :: json

definition sdk_create_session :: "sdk_client \<Rightarrow> string \<Rightarrow> int \<Rightarrow> sdk_error + sdk_session" where
  "sdk_create_session c float_text retention_days =
     bind_sum (sdk_request c float_text ''POST'' ''/sessions'' (Some (JObj [(''retention_days'', JInt retention_days)])) 201) (\<lambda>data.
     bind_sum (jneed data ''session_id'') (\<lambda>s. bind_sum (jneed data ''created_at'') (\<lambda>created.
     bind_sum (jneed data ''retention_days'') (\<lambda>days. bind_sum (jget data ''expires_at'') (\<lambda>expires.
     Inr \<lparr>sw_session_id = s, sw_created_at = created, sw_retention_days = days, sw_expires_at = jor expires JNull\<rparr>)))))"

text \<open>The two deletions read only the status; their time-out message names no limit.\<close>

definition sdk_delete :: "sdk_client \<Rightarrow> string \<Rightarrow> sdk_error + unit" where
  "sdk_delete c path =
     (case sk_transport c \<lparr>hq_method = ''DELETE'', hq_url = build_url c path, hq_headers = client_headers c, hq_json = None\<rparr> of
        Inl HttpxTimeout \<Rightarrow> Inl (SdkTimeout (plain_error ''Request timed out''))
      | Inl (HttpxConnect m) \<Rightarrow> Inl (SdkConnection (plain_error (''Connection failed: '' @ m)))
      | Inl (HttpxOther m) \<Rightarrow> Inl (PyRaise m)
      | Inl (InjectedFailure name m) \<Rightarrow> Inl (PyRaise m)
      | Inr r \<Rightarrow>
          if hr_status r = 204 \<or> hr_status r = 200 then Inr ()
          else Inl (APIError \<lparr>sd_message = JStr (''HTTP '' @ str_int (hr_status r)), sd_status = Some (hr_status r),
                     sd_code = None, sd_request_id = dict_get (hr_headers r) ''X-Request-Id''\<rparr>))"

definition sdk_delete_session :: "sdk_client \<Rightarrow> string \<Rightarrow> sdk_error + unit" where
  "sdk_delete_session c session_id = sdk_delete c (''/sessions/'' @ session_id)"

definition sdk_delete_pipeline :: "sdk_client \<Rightarrow> string \<Rightarrow> sdk_error + unit" where
  "sdk_delete_pipeline c pipeline_id = sdk_delete c (''/pipelines/'' @ pipeline_id)"

record sdk_pipeline =
  sp_pipeline_id :: json
  sp_name :: json
  sp_steps :: json
  sp_created_at :: json

definition parse_pipeline :: "json \<Rightarrow> sdk_error + sdk_pipeline" where
  "parse_pipeline data =
     bind_sum (jneed data ''pipeline_id'') (\<lambda>p. bind_sum (jneed data ''name'') (\<lambda>n.
     bind_sum (jneed data ''steps'') (\<lambda>ss. bind_sum (jneed data ''created_at'') (\<lambda>created.
     Inr \<lparr>sp_pipeline_id = p, sp_name = n, sp_steps = ss, sp_created_at = created\<rparr>))))"

definition sdk_create_pipeline :: "sdk_client \<Rightarrow> string \<Rightarrow> string \<Rightarrow> json \<Rightarrow> sdk_error + sdk_pipeline" where
  "sdk_create_pipeline c float_text name steps =
     bind_sum (sdk_request c float_text ''POST'' ''/pipelines'' (Some (JObj [(''name'', JStr name), (''steps'', steps)])) 201)
       parse_pipeline"

definition sdk_get_pipeline :: "sdk_client \<Rightarrow> string \<Rightarrow> string \<Rightarrow> sdk_error + sdk_pipeline" where
  "sdk_get_pipeline c float_text pipeline_id =
     bind_sum (sdk_request c float_text ''GET'' (''/pipelines/'' @ pipeline_id) None 200) parse_pipeline"

section \<open>Streams\<close>

definition stream_headers :: "sdk_client \<Rightarrow> (string, string) dict \<Rightarrow> (string, string) dict" where
  "stream_headers c extra = foldl (\<lambda>d (k, v). dict_set k v d) (dict_set ''Accept'' ''text/event-stream'' (client_headers c)) extra"

text \<open>The text a stream endpoint sends; neither its status nor its type is looked at.\<close>

definition sdk_answer :: "(string \<Rightarrow> json option) \<Rightarrow> string \<Rightarrow> stream_event list" where
  "sdk_answer loads body = until_terminal (sdk_events loads body)"

definition sdk_research_events :: "(string \<Rightarrow> json option) \<Rightarrow> string \<Rightarrow> stream_event list" where
  "sdk_research_events loads body = until_terminal (sdk_events loads body)"


section \<open>The client in front of the server\<close>

text \<open>
  A transport that delivers every request to the gateway, as the tenant of the client's key, and its reply
  to the client; JSON arrives as it was sent.
\<close>

definition http_of_wire :: "wire_response \<Rightarrow> http_response" where
  "http_of_wire w = \<lparr>hr_status = wr_status w, hr_headers = wr_headers w,
     hr_json = (case wr_body w of JsonBody j \<Rightarrow> Some j | EventBody es \<Rightarrow> None)\<rparr>"

definition to_server :: "framework \<Rightarrow> gateway_env \<Rightarrow> gateway \<Rightarrow> tick \<Rightarrow> string \<Rightarrow> string \<Rightarrow> transport" where
  "to_server fw env g t tenant host rq =
     Inr (http_of_wire (fst (serve_http fw env g t tenant (hq_method rq) (drop (length host) (hq_url rq))
            (map (\<lambda>(k, v). (py_lower k, v)) (hq_headers rq)) (hq_json rq))))"

definition client_of :: "framework \<Rightarrow> gateway_env \<Rightarrow> gateway \<Rightarrow> tick \<Rightarrow> string \<Rightarrow> string \<Rightarrow> string \<Rightarrow> sdk_client" where
  "client_of fw env g t tenant host api_key = new_client (host @ ''/v1'') api_key (to_server fw env g t tenant host)"

definition request_headers :: "sdk_client \<Rightarrow> (string, string) dict" where
  "request_headers c = map (\<lambda>(k, v). (py_lower k, v)) (client_headers c)"

lemma client_url: "build_url (client_of fw env g t tenant host k) path = host @ ''/v1'' @ path"
  by (simp add: client_of_def new_client_def build_url_def)

lemma sdk_request_served:
  "sdk_request (client_of fw env g t tenant host k) ft verb path body expected =
     read_response expected (http_of_wire (fst (serve_http fw env g t tenant verb (''/v1'' @ path)
       (request_headers (client_of fw env g t tenant host k)) body)))"
  unfolding sdk_request_def client_url
  by (simp add: client_of_def new_client_def to_server_def request_headers_def)

lemma read_json_reply:
  "read_response expected (http_of_wire (wire_of_reply (JsonReply (json_response n j)))) =
     (if n \<noteq> expected \<and> (n < 200 \<or> 300 \<le> n)
      then Inl (APIError \<lparr>sd_message = fst (error_of_body (''HTTP '' @ str_int n) (Some j)), sd_status = Some n,
             sd_code = snd (error_of_body (''HTTP '' @ str_int n) (Some j)), sd_request_id = None\<rparr>)
      else Inr j)"
  by (simp add: read_response_def http_of_wire_def wire_of_reply_def json_response_def response_request_id_def Let_def
      split: prod.split)

lemma error_of_error_json: "error_of_body dflt (Some (error_json c m)) = (JStr m, Some (JStr c))"
  by (simp add: error_of_body_def error_json_def json_get_def dict_get_def)

lemma read_error_reply:
  "400 \<le> n \<Longrightarrow> expected < 300 \<Longrightarrow> read_response expected (http_of_wire (wire_of_reply (JsonReply (error_response n c m)))) =
     Inl (APIError \<lparr>sd_message = JStr m, sd_status = Some n, sd_code = Some (JStr c), sd_request_id = None\<rparr>)"
  by (simp add: error_response_def read_json_reply error_of_error_json)

definition api_error :: "int \<Rightarrow> string \<Rightarrow> string \<Rightarrow> sdk_error" where
  "api_error status code message = APIError \<lparr>sd_message = JStr message, sd_status = Some status,
     sd_code = Some (JStr code), sd_request_id = None\<rparr>"

lemma posted: "split_on CHR ''/'' (''/v1/'' @ name) = [] # ''v1'' # split_on CHR ''/'' name"
  by simp

subsection \<open>Search\<close>

definition result_view :: "gateway_env \<Rightarrow> search_result \<Rightarrow> sdk_result" where
  "result_view env r = \<lparr>sz_document_id = JStr (sr_id r), sz_url = JStr (sr_url r), sz_title = JStr (sr_title r),
     sz_score = JReal (sr_score r),
     sz_published_at = (case sr_published r of None \<Rightarrow> JNull | Some d \<Rightarrow> JStr (ge_isoformat env d)),
     sz_credibility = JReal (pv_credibility (sr_provenance r)), sz_ai = JReal (pv_ai (sr_provenance r)),
     sz_scored_at = JStr ''''\<rparr>"

lemma parse_result_json: "parse_result (result_json env r) = Inr (result_view env r)"
  by (simp add: parse_result_def result_json_def provenance_json_def jget_def jneed_def dict_get_def jor_def result_view_def)

lemma parse_results_body:
  "parse_search_response (results_body (map (result_json env) rs)) =
     Inr \<lparr>sy_results = map (result_view env) rs, sy_warnings = JList [], sy_index_version = JNull\<rparr>"
  by (simp add: parse_search_response_def results_body_def jget_def dict_get_def jor_def jiter_def json_iter_def
      map_sum_list_map [of parse_result, OF parse_result_json])

definition search_body_of :: "string \<Rightarrow> search_mode \<Rightarrow> int \<Rightarrow> string option \<Rightarrow> string option \<Rightarrow> rat option \<Rightarrow> rat option \<Rightarrow> search_body" where
  "search_body_of query mode n fs p mc ma = \<lparr>sb_query = query, sb_mode = mode_value mode, sb_num_results = n,
     sb_filters = fs, sb_pipeline_id = p, sb_min_credibility = mc, sb_max_ai = ma\<rparr>"

lemma decode_search_body:
  "decode_search ([(''query'', JStr query), (''mode'', JStr m), (''num_results'', JInt n)]
     @ opt_field ''filters'' JStr fs @ opt_field ''pipeline_id'' JStr p
     @ opt_field ''min_credibility'' JReal mc @ opt_field ''max_ai_generated_likelihood'' JReal ma)
   = Some (SearchReq \<lparr>sb_query = query, sb_mode = m, sb_num_results = n, sb_filters = fs, sb_pipeline_id = p,
       sb_min_credibility = mc, sb_max_ai = ma\<rparr>)"
  by (cases fs; cases p; cases mc; cases ma)
     (simp_all add: decode_search_def field_def field_or_def optional_def nullable_def opt_field_def dict_get_def
       as_str_def as_int_def as_float_def)

lemma search_mode_value: "search_mode_of (mode_value m) = Some m"
  by (cases m) (simp_all add: search_mode_of_def)


text \<open>
  C34. The client's search is the server's.  Whatever the arguments, \<open>search\<close> of the client, on top of the
  request model, the validation, the retriever and the response of the gateway, returns exactly the
  results of the retriever in their order, with every field the response carries, or raises \<open>APIError\<close>
  with status 422 and the code and message of the first validator that fails.
\<close>

theorem search_through_client:
  "sdk_search (client_of fw env g t tenant host k) ft query mode n filters pipeline_id mc ma =
     (case search_request_errors (search_body_of query mode n filters pipeline_id mc ma) of
        Some (ValidationError c m) \<Rightarrow> Inl (api_error 422 c m)
      | None \<Rightarrow> Inr \<lparr>sy_results = map (result_view env) (Retriever.rr_results (fst (search (ge_retriever env) (gw_indexer g)
            (gw_retriever g) (tk_now t) (tk_at t) \<lparr>rq_query = query, rq_mode = mode, rq_num_results = n,
              rq_filters = map_option JStr filters, rq_pipeline = pipeline_id, rq_min_credibility = mc, rq_max_ai = ma,
              rq_tenant = tenant\<rparr>))), sy_warnings = JList [], sy_index_version = JNull\<rparr>)"
proof -
  let ?c = "client_of fw env g t tenant host k"
  let ?b = "search_body_of query mode n filters pipeline_id mc ma"
  let ?body = "[(''query'', JStr query), (''mode'', JStr (mode_value mode)), (''num_results'', JInt n)]
     @ opt_field ''filters'' JStr filters @ opt_field ''pipeline_id'' JStr pipeline_id
     @ opt_field ''min_credibility'' JReal mc @ opt_field ''max_ai_generated_likelihood'' JReal ma"
  have path: "split_on CHR ''/'' (''/v1'' @ ''/search'') = [[], ''v1'', ''search'']" by code_simp
  have "decode_search ?body = Some (SearchReq ?b)"
    unfolding search_body_of_def by (rule decode_search_body)
  then have r: "route ''POST'' (''/v1'' @ ''/search'') h (Some (JObj ?body)) = Routed (SearchReq ?b)" for h
    unfolding route_def path by (simp add: post_route_def with_body_def)
  have s: "fst (serve_http fw env g t tenant ''POST'' (''/v1'' @ ''/search'') h (Some (JObj ?body)))
      = wire_of_reply (fst (respond (post_search env g t tenant ?b)))" for h
    unfolding serve_http_def r by (simp add: serve_request_def split: prod.split)
  show ?thesis
  proof (cases "search_request_errors ?b")
    case (Some e)
    then show ?thesis
      unfolding sdk_search_def Let_def sdk_request_served s
      by (cases e) (simp add: post_search_def validation_response_def read_error_reply api_error_def)
  next
    case None
    then show ?thesis
      unfolding sdk_search_def Let_def sdk_request_served s
      by (simp add: post_search_def search_body_of_def search_mode_value Let_def read_response_def http_of_wire_def
          wire_of_reply_def parse_results_body split: prod.split)
  qed
qed


subsection \<open>Errors\<close>

lemma answered_request: "answered q g (serve_request env g t tenant q)"
  by (cases q) (simp_all only: serve_request_def request.case answered_all)

lemma success_2xx: "n \<in> set (success_status q) \<Longrightarrow> 200 \<le> n \<and> n < 300"
  by (cases q) auto


section \<open>Where client and server disagree\<close>

text \<open>A session is created, and the client fails on the answer: there is no \<open>created_at\<close> in it.\<close>

lemma session_created_then_keyerror:
  assumes "1 \<le> days" and "days \<le> 90"
  shows "sdk_create_session (client_of fw env g t tenant host k) ft days = Inl (PyRaise ''KeyError: created_at'')"
    and "\<exists>s. dict_get (ss_sessions (gw_sessions (snd (post_session env g t tenant (Some days))))) (tk_fresh t) = Some s"
proof -
  have path: "split_on CHR ''/'' (''/v1'' @ ''/sessions'') = [[], ''v1'', ''sessions'']" by code_simp
  have r: "route ''POST'' (''/v1'' @ ''/sessions'') h (Some (JObj [(''retention_days'', JInt days)])) = Routed (SessionReq (Some days))" for h
    unfolding route_def path
    by (simp add: post_route_def with_body_def decode_session_def field_or_def nullable_def as_int_def dict_get_def)
  have s: "fst (serve_http fw env g t tenant ''POST'' (''/v1'' @ ''/sessions'') h (Some (JObj [(''retention_days'', JInt days)])))
      = wire_of_reply (fst (respond (post_session env g t tenant (Some days))))" for h
    unfolding serve_http_def r by (simp add: serve_request_def split: prod.split)
  show "sdk_create_session (client_of fw env g t tenant host k) ft days = Inl (PyRaise ''KeyError: created_at'')"
    unfolding sdk_create_session_def sdk_request_served s
    using assms by (simp add: post_session_def create_session_def min_retention_def max_retention_def Let_def
        read_json_reply jneed_def dict_get_def)
  show "\<exists>s. dict_get (ss_sessions (gw_sessions (snd (post_session env g t tenant (Some days))))) (tk_fresh t) = Some s"
    using assms by (simp add: post_session_def create_session_def min_retention_def max_retention_def Let_def)
qed

text \<open>A report the server has is never delivered: the response has no \<open>state\<close>.\<close>

lemma job_report_then_keyerror:
  assumes "get_report (gw_research g) j tenant = Inr r" and "rr_citations r = []"
    and "split_on CHR ''/'' j = [j]" and "j \<noteq> []"
  shows "sdk_get_research_job (client_of fw env g t tenant host k) ft j = Inl (PyRaise ''KeyError: state'')"
proof -
  have "split_on CHR ''/'' (''/v1'' @ ''/research/'' @ j) = [[], ''v1'', ''research'', j]" using assms(3) by simp
  then have rt: "route ''GET'' (''/v1'' @ ''/research/'' @ j) h None = Routed (ReportReq j)" for h
    using assms(4) by (simp add: route_def item_route_def)
  have s: "fst (serve_http fw env g t tenant ''GET'' (''/v1'' @ ''/research/'' @ j) h None)
      = wire_of_reply (fst (respond (get_research env g tenant j, g)))" for h
    unfolding serve_http_def rt by (simp add: serve_request_def split: prod.split)
  have b: "get_research env g tenant j = Inr (json_response 200 (report_json env r))"
    by (simp add: get_research_def assms(1))
  show ?thesis
    unfolding sdk_get_research_job_def sdk_request_served s b
    by (simp add: read_json_reply report_json_def assms(2) jget_def jneed_def dict_get_def jor_def json_truthy_def)
qed

text \<open>There is no route for the deletion of a pipeline.\<close>

lemma pipeline_deletion_fails:
  assumes "split_on CHR ''/'' p = [p]" and "p \<noteq> []"
  shows "sdk_delete_pipeline (client_of fw env g t tenant host k) p = Inl (APIError \<lparr>sd_message = JStr ''HTTP 405'',
     sd_status = Some 405, sd_code = None, sd_request_id = None\<rparr>)"
proof -
  have "split_on CHR ''/'' (''/v1'' @ ''/pipelines/'' @ p) = [[], ''v1'', ''pipelines'', p]" using assms(1) by simp
  then have rt: "route ''DELETE'' (''/v1'' @ ''/pipelines/'' @ p) h None = WrongMethod" for h
    using assms(2) by (simp add: route_def item_route_def)
  have u: "sk_transport (client_of fw env g t tenant host k) = to_server fw env g t tenant host"
    by (simp add: client_of_def new_client_def)
  have i: "str_int 405 = ''405''" by code_simp
  show ?thesis
    unfolding sdk_delete_pipeline_def sdk_delete_def client_url u
    by (simp add: to_server_def serve_http_def rt [simplified] http_of_wire_def json_wire_def i)
qed

text \<open>
  The events of a job are sent as one JSON text, in which the client's parser of event streams finds
  nothing: it reports no events, and no error.
\<close>

lemma job_events_not_streamed:
  assumes "floats_ok fl" and "list_all (\<lambda>c. c \<noteq> nel) (json_dumps fl (JObj d))"
  shows "sdk_research_events loads (json_dumps fl (JObj d)) = []"
proof -
  let ?s = "json_dumps fl (JObj d)"
  have p: "plain ?s" by (rule dumps_plain [OF assms])
  have l: "split_lines_from acc u = (if acc = [] \<and> u = [] then [] else [rev acc @ u])" if "plain u" for acc u
    using that by (induction u arbitrary: acc) auto
  obtain u where u: "?s = CHR ''{'' # u" by simp
  have n: "\<not> starts_with ?s ''event:''" "\<not> starts_with ?s ''id:''" "\<not> starts_with ?s ''data:''"
    by (simp_all add: u starts_with_def)
  have "split_lines ?s = [?s]" using l [OF p, of "[]"] by (simp add: split_lines_def)
  then show ?thesis
    using n by (simp add: sdk_research_events_def sdk_events_def empty_acc_def)
qed

end
