(* ===== verification/McpRoutes.thy ===== *)
theory McpRoutes
  imports Http
begin

text \<open>
  The tools of the gateway for agents: \<open>backend/api_gateway/mcp_sse.py\<close>.

  A call names a tool and its arguments in a JSON-RPC message.  The arguments are not checked: a field has
  its default when it is missing, and the type that the schema of the tool declares (what Python does
  with a value of another type is the parameter \<open>mp_untyped\<close>).  The texts of exceptions and
  \<open>repr\<close> are parameters too.
\<close>

section \<open>JSON text with escapes and layout\<close>

definition ascii_escape :: "char \<Rightarrow> string" where
  "ascii_escape c = (let n = cp c in
     if n > 126 then [CHR 0x5C, CHR ''u'', CHR ''0'', CHR ''0'', hex_digit (n div 16), hex_digit (n mod 16)]
     else json_escape c)"

definition ascii_string :: "string \<Rightarrow> string" where
  "ascii_string s = [CHR 0x22] @ concat (map ascii_escape s) @ [CHR 0x22]"

text \<open>\<open>json.dumps(x, indent=k)\<close>, or with \<open>indent=None\<close>; \<open>level\<close> is the depth of the value.\<close>

definition line_break :: "nat option \<Rightarrow> nat \<Rightarrow> string" where
  "line_break ind level = (case ind of None \<Rightarrow> '''' | Some k \<Rightarrow> nl # replicate (k * level) CHR '' '')"

definition item_break :: "nat option \<Rightarrow> nat \<Rightarrow> string" where
  "item_break ind level = (case ind of None \<Rightarrow> '', '' | Some k \<Rightarrow> '','' @ line_break ind level)"

fun layout :: "(rat \<Rightarrow> string) \<Rightarrow> nat option \<Rightarrow> nat \<Rightarrow> json \<Rightarrow> string" where
  "layout fl ind level (JStr s) = ascii_string s"
| "layout fl ind level (JList []) = ''[]''"
| "layout fl ind level (JList (x # xs)) = ''['' @ line_break ind (Suc level)
     @ join (item_break ind (Suc level)) (map (layout fl ind (Suc level)) (x # xs)) @ line_break ind level @ '']''"
| "layout fl ind level (JObj []) = ''{}''"
| "layout fl ind level (JObj (kv # kvs)) = ''{'' @ line_break ind (Suc level)
     @ join (item_break ind (Suc level))
         (map (\<lambda>(k, v). ascii_string k @ '': '' @ layout fl ind (Suc level) v) (kv # kvs)) @ line_break ind level @ ''}''"
| "layout fl ind level j = json_dumps fl j"

section \<open>The tools\<close>

definition mcp_tenant :: string where "mcp_tenant = ''mcp-agent''"

datatype mcp_exn = BadSearchMode string | BadGoal string | BadUrl | NoSuchJob string | OtherFailure string

record mcp_env =
  mp_str :: "mcp_exn \<Rightarrow> string"
  mp_repr :: "json \<Rightarrow> string"
  mp_untyped :: "gateway \<Rightarrow> string \<Rightarrow> (string, json) dict \<Rightarrow> (mcp_exn + json) \<times> gateway"

type_synonym tool_outcome = "(mcp_exn + json) \<times> gateway"

definition hit_json :: "search_result \<Rightarrow> json" where
  "hit_json r = JObj [(''document_id'', JStr (sr_id r)), (''url'', JStr (sr_url r)), (''title'', JStr (sr_title r)),
     (''score'', JReal (sr_score r))]"

definition similar_hit_json :: "search_result \<Rightarrow> json" where
  "similar_hit_json r = JObj [(''document_id'', JStr (sr_id r)), (''url'', JStr (sr_url r)), (''score'', JReal (sr_score r))]"

definition tool_search :: "gateway_env \<Rightarrow> gateway \<Rightarrow> tick \<Rightarrow> string \<Rightarrow> string \<Rightarrow> int \<Rightarrow> tool_outcome" where
  "tool_search env g t query mode n =
     (case search_mode_of mode of
        None \<Rightarrow> (Inl (BadSearchMode mode), g)
      | Some m \<Rightarrow>
          (let (response, rv) = search (ge_retriever env) (gw_indexer g) (gw_retriever g) (tk_now t) (tk_at t)
                 \<lparr>rq_query = query, rq_mode = m, rq_num_results = n, rq_filters = None, rq_pipeline = None,
                  rq_min_credibility = None, rq_max_ai = None, rq_tenant = mcp_tenant\<rparr>
           in (Inr (JObj [(''results'', JList (map hit_json (Retriever.rr_results response)))]), g\<lparr>gw_retriever := rv\<rparr>)))"

definition tool_find_similar :: "gateway_env \<Rightarrow> gateway \<Rightarrow> tick \<Rightarrow> string \<Rightarrow> int \<Rightarrow> tool_outcome" where
  "tool_find_similar env g t url n =
     (case find_similar (ge_retriever env) (gw_indexer g) (gw_retriever g) (tk_at t)
             \<lparr>sq_url = url, sq_num_results = n, sq_min_credibility = None, sq_max_ai = None, sq_tenant = mcp_tenant\<rparr> of
        (Inl (DocumentNotFoundError u), rv) \<Rightarrow>
          (Inr (JObj [(''error'', JStr ''URL not found in index'')]), g\<lparr>gw_retriever := rv\<rparr>)
      | (Inl UrlValueError, rv) \<Rightarrow> (Inl BadUrl, g\<lparr>gw_retriever := rv\<rparr>)
      | (Inr response, rv) \<Rightarrow>
          (Inr (JObj [(''results'', JList (map similar_hit_json (Retriever.rr_results response)))]), g\<lparr>gw_retriever := rv\<rparr>))"

definition tool_contents :: "gateway_env \<Rightarrow> gateway \<Rightarrow> string list \<Rightarrow> tool_outcome" where
  "tool_contents env g ids =
     (case fetch_contents (indexer_contents (gw_indexer g) (ge_isoformat env)) None None None ids of
        Some entries \<Rightarrow> (Inr (JObj [(''results'', JList (to_response_dict entries))]), g)
      | None \<Rightarrow> (Inl (OtherFailure ''does not return''), g))"

definition cited_json :: "citation_event \<Rightarrow> json" where
  "cited_json c = JObj [(''document_id'', JStr (ci_document_id c)), (''version'', JInt (ci_version c))]"

text \<open>The loop over the answer stream returns at the first error.\<close>

fun tool_collect :: "string \<Rightarrow> json list \<Rightarrow> answer_event list \<Rightarrow> json" where
  "tool_collect full_answer citations [] = JObj [(''answer'', JStr full_answer), (''citations'', JList citations)]"
| "tool_collect full_answer citations (e # es) = (case e of
     TokenEvent t i \<Rightarrow> tool_collect (full_answer @ t) citations es
   | Answer.CitationEvent c \<Rightarrow> tool_collect full_answer citations es
   | DoneEvent a cs \<Rightarrow> tool_collect a (map cited_json cs) es
   | Answer.ErrorEvent c m \<Rightarrow> JObj [(''error'', JStr m)])"

definition tool_answer :: "gateway_env \<Rightarrow> gateway \<Rightarrow> tick \<Rightarrow> string \<Rightarrow> tool_outcome" where
  "tool_answer env g t query =
     (let (response, rv) = search (ge_retriever env) (gw_indexer g) (gw_retriever g) (tk_now t) (tk_at t)
                             (answer_request mcp_tenant query);
          sources = concat (map (retrieval_result (gw_indexer g)) (Retriever.rr_results response))
      in (Inr (tool_collect [] [] (generate_answer (ge_provider env) silence_seconds query sources)),
          g\<lparr>gw_retriever := rv\<rparr>))"

definition brief_report :: "string \<Rightarrow> research_report \<Rightarrow> json" where
  "brief_report job_id r = JObj [(''job_id'', JStr job_id), (''text'', JStr (rr_text r)),
     (''citations'', JList (map (\<lambda>c. JObj [(''document_id'', rc_document_id c)]) (rr_citations r)))]"

definition tool_research :: "gateway_env \<Rightarrow> gateway \<Rightarrow> tick \<Rightarrow> string \<Rightarrow> tool_outcome" where
  "tool_research env g t goal =
     (case start_job (gw_research g) ((ge_research env)\<lparr>ev_retriever := Some (research_retriever env g t)\<rparr>)
             (tk_now t) (tk_fresh t) mcp_tenant goal None None of
        (Inl (InvalidResearchRequest m), sv) \<Rightarrow> (Inl (BadGoal m), g\<lparr>gw_research := sv\<rparr>)
      | (Inl (JobNotFound j), sv) \<Rightarrow> (Inl (NoSuchJob j), g\<lparr>gw_research := sv\<rparr>)
      | (Inr job_id, sv) \<Rightarrow>
          (case get_report sv job_id mcp_tenant of
             Inl e \<Rightarrow> Inl (NoSuchJob job_id)
           | Inr report \<Rightarrow> Inr (brief_report job_id report),
           g\<lparr>gw_research := sv, gw_retriever := run_searches env g t (job_searches sv job_id)\<rparr>))"

text \<open>\<open>_execute_tool\<close>: the fields of the arguments with their defaults, and the tool they are given to.\<close>

definition execute_tool :: "mcp_env \<Rightarrow> gateway_env \<Rightarrow> gateway \<Rightarrow> tick \<Rightarrow> string \<Rightarrow> (string, json) dict \<Rightarrow> tool_outcome" where
  "execute_tool mp env g t tool args =
     (let str = field_or as_str '''' args; num = field_or as_int 10 args
      in if tool = ''search'' then
           (case (str ''query'', field_or as_str ''hybrid'' args ''mode'', num ''num_results'') of
              (Some q, Some m, Some n) \<Rightarrow> tool_search env g t q m n | _ \<Rightarrow> mp_untyped mp g tool args)
         else if tool = ''find_similar'' then
           (case (str ''url'', num ''num_results'') of
              (Some u, Some n) \<Rightarrow> tool_find_similar env g t u n | _ \<Rightarrow> mp_untyped mp g tool args)
         else if tool = ''contents'' then
           (case field_or strings [] args ''document_ids'' of
              Some ids \<Rightarrow> tool_contents env g ids | None \<Rightarrow> mp_untyped mp g tool args)
         else if tool = ''answer'' then
           (case str ''query'' of Some q \<Rightarrow> tool_answer env g t q | None \<Rightarrow> mp_untyped mp g tool args)
         else if tool = ''research'' then
           (case str ''research_goal'' of Some q \<Rightarrow> tool_research env g t q | None \<Rightarrow> mp_untyped mp g tool args)
         else (Inr (JObj [(''error'', JStr (''Unknown tool: '' @ tool))]), g))"

section \<open>Messages\<close>

definition text_field :: "string \<Rightarrow> string \<Rightarrow> string \<times> json" where
  "text_field name description = (name, JObj [(''type'', JStr ''string''), (''description'', JStr description)])"

definition tool_entry :: "string \<Rightarrow> string \<Rightarrow> (string \<times> json) list \<Rightarrow> string \<Rightarrow> json" where
  "tool_entry name description properties required = JObj [(''name'', JStr name), (''description'', JStr description),
     (''inputSchema'', JObj [(''type'', JStr ''object''), (''properties'', JObj properties), (''required'', JList [JStr required])])]"

definition mcp_tools :: json where
  "mcp_tools = JList
     [tool_entry ''search'' ''Search documents using neural, keyword, or hybrid retrieval. Returns ranked results with provenance scores.''
        [text_field ''query'' ''Search query'',
         (''mode'', JObj [(''type'', JStr ''string''),
            (''enum'', JList [JStr ''neural'', JStr ''keyword'', JStr ''hybrid'']), (''default'', JStr ''hybrid'')]),
         (''num_results'', JObj [(''type'', JStr ''integer''), (''default'', JInt 10), (''description'', JStr ''Max results (0-100)'')])]
        ''query'',
      tool_entry ''find_similar'' ''Find documents similar to a given URL.''
        [text_field ''url'' ''URL to find similar documents for'',
         (''num_results'', JObj [(''type'', JStr ''integer''), (''default'', JInt 10)])]
        ''url'',
      tool_entry ''contents'' ''Fetch cleaned text content for documents by ID.''
        [(''document_ids'', JObj [(''type'', JStr ''array''), (''items'', JObj [(''type'', JStr ''string'')]),
            (''description'', JStr ''Document IDs to fetch'')])]
        ''document_ids'',
      tool_entry ''answer'' ''Get an AI-generated answer with citations from indexed documents.''
        [text_field ''query'' ''Question to answer'']
        ''query'',
      tool_entry ''research'' ''Launch a multi-hop research job that searches, reads, and synthesizes information.''
        [text_field ''research_goal'' ''Research goal (1-4096 chars)'']
        ''research_goal'']"

definition rpc_reply :: "json \<Rightarrow> string \<Rightarrow> json \<Rightarrow> outcome" where
  "rpc_reply msg_id key v = Inr (json_response 200 (JObj [(''jsonrpc'', JStr ''2.0''), (''id'', msg_id), (key, v)]))"

definition text_content :: "string \<Rightarrow> json" where
  "text_content s = JList [JObj [(''type'', JStr ''text''), (''text'', JStr s)]]"

definition server_info :: json where
  "server_info = JObj [(''protocolVersion'', JStr ''2024-11-05''), (''capabilities'', JObj [(''tools'', JObj [])]),
     (''serverInfo'', JObj [(''name'', JStr ''verisearch''), (''version'', JStr ''1.0.0'')])]"

text \<open>The result of a tool, or the text of the exception it raised, as the content of a reply.\<close>

definition tool_reply :: "mcp_env \<Rightarrow> gateway_env \<Rightarrow> json \<Rightarrow> mcp_exn + json \<Rightarrow> outcome" where
  "tool_reply mp env msg_id r = (case r of
     Inr result \<Rightarrow> rpc_reply msg_id ''result'' (JObj [(''content'', text_content (layout (ge_floats env) (Some 2) 0 result))])
   | Inl e \<Rightarrow> rpc_reply msg_id ''result''
       (JObj [(''content'', text_content (layout (ge_floats env) None 0 (JObj [(''error'', JStr (mp_str mp e))]))),
              (''isError'', JBool True)]))"

text \<open>
  The body is \<open>None\<close> when it is no JSON.  A \<open>get\<close> on a value that is no object is an \<open>AttributeError\<close>;
  inside the call of the tool it becomes the result of the call.
\<close>

definition attribute_error :: api_exn where "attribute_error = OtherError ''AttributeError''"

definition call_tool :: "mcp_env \<Rightarrow> gateway_env \<Rightarrow> gateway \<Rightarrow> tick \<Rightarrow> json \<Rightarrow> json \<Rightarrow> outcome \<times> gateway" where
  "call_tool mp env g t msg_id params =
     (case params of
        JObj ps \<Rightarrow>
          (let name = json_get ps ''name'' (JStr ''''); arguments = json_get ps ''arguments'' (JObj []);
               (r, g') = (case (name, arguments) of
                  (JStr tool, JObj args) \<Rightarrow> execute_tool mp env g t tool args
                | (JStr tool, a) \<Rightarrow>
                    if tool \<in> set [''search'', ''find_similar'', ''contents'', ''answer'', ''research'']
                    then (Inl (OtherFailure ''get''), g)
                    else (Inr (JObj [(''error'', JStr (''Unknown tool: '' @ tool))]), g)
                | (n, a) \<Rightarrow> (Inr (JObj [(''error'', JStr (''Unknown tool: '' @ mp_repr mp n))]), g))
           in (tool_reply mp env msg_id r, g'))
      | _ \<Rightarrow> (Inl attribute_error, g))"

definition mcp_messages :: "mcp_env \<Rightarrow> gateway_env \<Rightarrow> gateway \<Rightarrow> tick \<Rightarrow> json option \<Rightarrow> outcome \<times> gateway" where
  "mcp_messages mp env g t body =
     (case body of
        Some (JObj b) \<Rightarrow>
          (let rpc_method = json_get b ''method'' (JStr ''''); msg_id = json_get b ''id'' JNull; params = json_get b ''params'' (JObj [])
           in if rpc_method = JStr ''initialize'' then (rpc_reply msg_id ''result'' server_info, g)
              else if rpc_method = JStr ''notifications/initialized'' then (rpc_reply msg_id ''result'' (JObj []), g)
              else if rpc_method = JStr ''tools/list'' then (rpc_reply msg_id ''result'' (JObj [(''tools'', mcp_tools)]), g)
              else if rpc_method = JStr ''tools/call'' then call_tool mp env g t msg_id params
              else (rpc_reply msg_id ''error'' (JObj [(''code'', JInt (- 32601)),
                      (''message'', JStr (''Method not found: '' @ (case rpc_method of JStr s \<Rightarrow> s | j \<Rightarrow> mp_repr mp j)))]), g))
      | Some j \<Rightarrow> (Inl attribute_error, g)
      | None \<Rightarrow> (Inl (OtherError ''JSONDecodeError''), g))"

section \<open>The event stream\<close>

text \<open>\<open>GET /mcp/sse\<close>: the address for messages, then a comment after every 15 seconds until the client leaves.\<close>

definition mcp_endpoint_url :: "string option \<Rightarrow> string \<Rightarrow> string \<Rightarrow> string" where
  "mcp_endpoint_url host request_url session_id =
     (let host = (case host of Some h \<Rightarrow> h | None \<Rightarrow> ''verisearch-production.up.railway.app'');
          scheme = (if contains host ''railway'' \<or> contains request_url ''https'' then ''https'' else ''http'')
      in scheme @ ''://'' @ host @ ''/mcp/messages?session_id='' @ session_id)"

definition mcp_stream :: "(rat \<Rightarrow> string) \<Rightarrow> string option \<Rightarrow> string \<Rightarrow> string \<Rightarrow> nat \<Rightarrow> string" where
  "mcp_stream fl host request_url session_id waits =
     ''event: endpoint'' @ [nl] @ ''data: '' @ layout fl None 0 (JStr (mcp_endpoint_url host request_url session_id)) @ [nl, nl]
       @ concat (replicate waits keepalive)"

section \<open>Replies\<close>

text \<open>A message that is an object with object parameters gets status 200 and its own identifier back.\<close>

definition rpc_ok :: "json \<Rightarrow> outcome \<Rightarrow> bool" where
  "rpc_ok msg_id r = (case r of
     Inl e \<Rightarrow> False
   | Inr a \<Rightarrow> ap_status a = 200 \<and> (\<exists>key v. ap_body a = JObj [(''jsonrpc'', JStr ''2.0''), (''id'', msg_id), (key, v)]
       \<and> key \<in> {''result'', ''error''}))"

lemma rpc_reply_ok: "key \<in> {''result'', ''error''} \<Longrightarrow> rpc_ok msg_id (rpc_reply msg_id key v)"
  by (auto simp: rpc_ok_def rpc_reply_def)

lemma tool_reply_ok: "rpc_ok msg_id (tool_reply mp env msg_id r)"
  by (auto simp: tool_reply_def intro!: rpc_reply_ok split: sum.split)

lemma call_tool_ok: "rpc_ok msg_id (fst (call_tool mp env g t msg_id (JObj ps)))"
  by (simp add: call_tool_def Let_def tool_reply_ok split: prod.split)

lemma message_answered:
  "rpc_ok (json_get b ''id'' JNull)
     (fst (mcp_messages mp env g t (Some (JObj (dict_set ''params'' (JObj ps) b)))))"
  by (auto simp: mcp_messages_def Let_def json_get_def call_tool_ok intro!: rpc_reply_ok)

section \<open>Isolation\<close>

text \<open>A call whose arguments have the types of the schema of its tool.\<close>

definition typed_call :: "string \<Rightarrow> (string, json) dict \<Rightarrow> bool" where
  "typed_call tool args \<longleftrightarrow> field_or as_str '''' args ''query'' \<noteq> None \<and> field_or as_str ''hybrid'' args ''mode'' \<noteq> None
     \<and> field_or as_int 10 args ''num_results'' \<noteq> None \<and> field_or as_str '''' args ''url'' \<noteq> None
     \<and> field_or strings [] args ''document_ids'' \<noteq> None \<and> field_or as_str '''' args ''research_goal'' \<noteq> None"

lemma shared_tools:
  "same_stores g (snd (tool_search env g t query mode n))"
  "same_stores g (snd (tool_find_similar env g t url n))"
  "same_stores g (snd (tool_contents env g ids))"
  "same_stores g (snd (tool_answer env g t query))"
  by (auto simp: same_stores_def tool_search_def tool_find_similar_def tool_contents_def tool_answer_def Let_def
      split: prod.split sum.split option.split find_error.split)

lemma tool_research_stores:
  "gw_research (snd (tool_research env g t goal)) = snd (start_job (gw_research g)
     ((ge_research env)\<lparr>ev_retriever := Some (research_retriever env g t)\<rparr>) (tk_now t) (tk_fresh t) mcp_tenant goal None None)"
  "gw_sessions (snd (tool_research env g t goal)) = gw_sessions g"
  "gw_pipelines (snd (tool_research env g t goal)) = gw_pipelines g"
  by (auto simp: tool_research_def split: prod.split sum.split research_error.split)

lemma execute_tool_state:
  assumes typed: "typed_call tool args"
  shows "same_stores g (snd (execute_tool mp env g t tool args)) \<or> (\<exists>goal. execute_tool mp env g t tool args = tool_research env g t goal)"
proof -
  from typed obtain q m n u ids goal where v: "field_or as_str '''' args ''query'' = Some q"
    "field_or as_str ''hybrid'' args ''mode'' = Some m" "field_or as_int 10 args ''num_results'' = Some n"
    "field_or as_str '''' args ''url'' = Some u" "field_or strings [] args ''document_ids'' = Some ids"
    "field_or as_str '''' args ''research_goal'' = Some goal"
    unfolding typed_call_def by blast
  have "execute_tool mp env g t tool args =
     (if tool = ''search'' then tool_search env g t q m n
      else if tool = ''find_similar'' then tool_find_similar env g t u n
      else if tool = ''contents'' then tool_contents env g ids
      else if tool = ''answer'' then tool_answer env g t q
      else if tool = ''research'' then tool_research env g t goal
      else (Inr (JObj [(''error'', JStr (''Unknown tool: '' @ tool))]), g))"
    unfolding execute_tool_def Let_def v prod.case option.case by (rule refl)
  moreover have "same_stores g (snd (Inr (JObj [(''error'', JStr (''Unknown tool: '' @ tool))]), g))"
    by (simp add: same_stores_def)
  ultimately show ?thesis using shared_tools by (metis (full_types))
qed

lemma tool_keeps:
  assumes inv: "gateway_inv used g" and new: "tk_fresh t \<notin> used" and other: "tenant \<noteq> mcp_tenant" and typed: "typed_call tool args"
  shows "gateway_inv (insert (tk_fresh t) used) (snd (execute_tool mp env g t tool args))
    \<and> same_for tenant g (snd (execute_tool mp env g t tool args))"
  using execute_tool_state [OF typed, of g mp env t]
proof
  assume "same_stores g (snd (execute_tool mp env g t tool args))"
  from same_stores_keeps [OF this inv] show ?thesis .
next
  assume "\<exists>goal. execute_tool mp env g t tool args = tool_research env g t goal"
  then show ?thesis using started_job_keeps [OF inv new not_sym [OF other] tool_research_stores] by auto
qed

definition typed_message :: "json option \<Rightarrow> bool" where
  "typed_message body = (case body of
     Some (JObj b) \<Rightarrow> (case json_get b ''params'' (JObj []) of
         JObj ps \<Rightarrow> (case (json_get ps ''name'' (JStr ''''), json_get ps ''arguments'' (JObj [])) of
             (JStr tool, JObj args) \<Rightarrow> typed_call tool args
           | _ \<Rightarrow> True)
       | _ \<Rightarrow> True)
   | _ \<Rightarrow> True)"

lemma call_tool_state:
  "snd (call_tool mp env g t msg_id params) = g \<or>
     (\<exists>ps tool args. params = JObj ps \<and> json_get ps ''name'' (JStr '''') = JStr tool
        \<and> json_get ps ''arguments'' (JObj []) = JObj args
        \<and> snd (call_tool mp env g t msg_id params) = snd (execute_tool mp env g t tool args))"
proof (cases params)
  case (JObj ps)
  note params = this
  show ?thesis
  proof (cases "json_get ps ''name'' (JStr '''')")
    case (JStr tool)
    note name = this
    show ?thesis
    proof (cases "json_get ps ''arguments'' (JObj [])")
      case (JObj args)
      with params name show ?thesis by (simp add: call_tool_def split: prod.split)
    qed (simp_all add: call_tool_def params name split: prod.split)
  qed (simp_all add: call_tool_def params split: prod.split)
qed (simp_all add: call_tool_def)

lemma mcp_messages_state:
  "snd (mcp_messages mp env g t body) = g \<or>
     (\<exists>b. body = Some (JObj b) \<and> snd (mcp_messages mp env g t body)
        = snd (call_tool mp env g t (json_get b ''id'' JNull) (json_get b ''params'' (JObj []))))"
  by (auto simp: mcp_messages_def Let_def split: option.split json.split)

lemma message_keeps:
  assumes "gateway_inv used g" and "tk_fresh t \<notin> used" and "tenant \<noteq> mcp_tenant" and typed: "typed_message body"
  shows "gateway_inv (insert (tk_fresh t) used) (snd (mcp_messages mp env g t body))
    \<and> same_for tenant g (snd (mcp_messages mp env g t body))"
proof -
  have same: ?thesis if "snd (mcp_messages mp env g t body) = g"
    using same_stores_keeps [of g g used "tk_fresh t" tenant] assms(1) that by (simp add: same_stores_def)
  show ?thesis
  proof (cases "snd (mcp_messages mp env g t body) = g")
    case True
    then show ?thesis by (rule same)
  next
    case False
    then obtain b where b: "body = Some (JObj b)" and m: "snd (mcp_messages mp env g t body)
        = snd (call_tool mp env g t (json_get b ''id'' JNull) (json_get b ''params'' (JObj [])))"
      using mcp_messages_state [of mp env g t body] by blast
    with False call_tool_state [of mp env g t "json_get b ''id'' JNull" "json_get b ''params'' (JObj [])"]
    obtain ps tool args where p: "json_get b ''params'' (JObj []) = JObj ps" "json_get ps ''name'' (JStr '''') = JStr tool"
      "json_get ps ''arguments'' (JObj []) = JObj args"
      and e: "snd (mcp_messages mp env g t body) = snd (execute_tool mp env g t tool args)" by auto
    from typed b p have "typed_call tool args" by (simp add: typed_message_def)
    from tool_keeps [OF assms(1-3) this] show ?thesis by (simp add: e)
  qed
qed

text \<open>A job started through a message belongs to \<open>mcp-agent\<close>: whoever sent it cannot read it through the API.\<close>

lemma mcp_job_unreachable:
  assumes "gateway_inv used g" and "tk_fresh t \<notin> used" and "tenant \<noteq> mcp_tenant"
  shows "get_research env (snd (tool_research env g t goal)) tenant (tk_fresh t) = Inr job_not_found"
proof -
  have "dict_get (rs_jobs (gw_research g)) (tk_fresh t) = None"
    using assms(1,2) by (simp add: gateway_inv_def service_inv_def)
  then have "owned_job tenant g (tk_fresh t) = None" by (simp add: owned_job_def owned_by_def)
  moreover have "same_for tenant g (snd (tool_research env g t goal))"
    using started_job_keeps [OF assms(1,2) not_sym [OF assms(3)] tool_research_stores] by blast
  ultimately show ?thesis by (simp add: report_owned same_for_def)
qed

section \<open>The tools and the API\<close>

text \<open>The values of some keys of an object, in this order.\<close>

fun pick :: "string list \<Rightarrow> json \<Rightarrow> json" where
  "pick ks (JObj d) = JObj (map (\<lambda>k. (k, json_get d k JNull)) ks)"
| "pick ks j = JNull"

definition hit_keys :: "string list" where
  "hit_keys = [''document_id'', ''url'', ''title'', ''score'']"

lemma pick_result: "pick hit_keys (result_json env r) = hit_json r"
  by (simp add: result_json_def hit_json_def hit_keys_def json_get_def dict_get_def)

definition search_arguments :: "search_body \<Rightarrow> (string, json) dict" where
  "search_arguments b = [(''query'', JStr (sb_query b)), (''mode'', JStr (sb_mode b)), (''num_results'', JInt (sb_num_results b))]"

lemma search_arguments_call:
  "execute_tool mp env g t ''search'' (search_arguments b) = tool_search env g t (sb_query b) (sb_mode b) (sb_num_results b)"
  by (simp add: execute_tool_def search_arguments_def field_or_def as_str_def as_int_def dict_get_def)

text \<open>
  C32. The two interfaces search alike.  For a request that the API accepts, without filters, pipeline and
  thresholds, the tool changes the services as the endpoint does for the same tenant and returns the same
  documents in the same order, of each exactly the identifier, the address, the title and the score.
\<close>

theorem mcp_search_agrees:
  assumes "search_request_errors b = None"
    and "sb_filters b = None" "sb_pipeline_id b = None" "sb_min_credibility b = None" "sb_max_ai b = None"
  shows "\<exists>a rs g'. post_search env g t mcp_tenant b = (Inr a, g') \<and> ap_body a = results_body rs
    \<and> execute_tool mp env g t ''search'' (search_arguments b) = (Inr (JObj [(''results'', JList (map (pick hit_keys) rs))]), g')"
proof -
  from search_accepts_mode [OF assms(1)] obtain m where m: "search_mode_of (sb_mode b) = Some m" by blast
  obtain response rv where r: "search (ge_retriever env) (gw_indexer g) (gw_retriever g) (tk_now t) (tk_at t)
      \<lparr>rq_query = sb_query b, rq_mode = m, rq_num_results = sb_num_results b, rq_filters = None, rq_pipeline = None,
       rq_min_credibility = None, rq_max_ai = None, rq_tenant = mcp_tenant\<rparr> = (response, rv)" by fastforce
  have "map (pick hit_keys) (map (result_json env) rs) = map hit_json rs" for rs by (simp add: pick_result comp_def)
  then have "execute_tool mp env g t ''search'' (search_arguments b)
     = (Inr (JObj [(''results'', JList (map (pick hit_keys) (map (result_json env) (Retriever.rr_results response))))]), g\<lparr>gw_retriever := rv\<rparr>)"
    by (simp only: search_arguments_call tool_search_def m r option.case Let_def prod.case)
  moreover have "\<exists>a. post_search env g t mcp_tenant b = (Inr a, g\<lparr>gw_retriever := rv\<rparr>)
      \<and> ap_body a = results_body (map (result_json env) (Retriever.rr_results response))"
    by (simp add: post_search_def assms m r)
  ultimately show ?thesis by blast
qed

lemma mcp_search_agrees_witness:
  "\<exists>a rs g'. post_search sample_gateway_env sample_start (sample_tick ''s'') mcp_tenant
      \<lparr>sb_query = ''words'', sb_mode = ''keyword'', sb_num_results = 2, sb_filters = None, sb_pipeline_id = None,
       sb_min_credibility = None, sb_max_ai = None\<rparr> = (Inr a, g') \<and> ap_body a = results_body rs"
proof -
  let ?b = "\<lparr>sb_query = ''words'', sb_mode = ''keyword'', sb_num_results = 2, sb_filters = None, sb_pipeline_id = None,
       sb_min_credibility = None, sb_max_ai = None\<rparr>"
  have "search_request_errors ?b = None" by code_simp
  from mcp_search_agrees [OF this, of sample_gateway_env sample_start "sample_tick ''s''"] show ?thesis by fastforce
qed

text \<open>What the endpoint rejects, the tool runs: an empty query, and a negative number of results, a slice from the end.\<close>

lemma mcp_unvalidated:
  "fst (post_search env g t mcp_tenant
     \<lparr>sb_query = [], sb_mode = ''hybrid'', sb_num_results = - 1, sb_filters = None, sb_pipeline_id = None,
      sb_min_credibility = None, sb_max_ai = None\<rparr>)
     = Inr (error_response 422 ''invalid_query'' ''query must not be empty after trimming'')
   \<and> (case fst (execute_tool mp env g t ''search'' [(''query'', JStr []), (''num_results'', JInt (- 1))]) of
        Inr (JObj [(k, JList hits)]) \<Rightarrow> k = ''results'' | _ \<Rightarrow> False)"
proof
  have e: "search_request_errors \<lparr>sb_query = [], sb_mode = ''hybrid'', sb_num_results = - 1, sb_filters = None,
      sb_pipeline_id = None, sb_min_credibility = None, sb_max_ai = None\<rparr>
    = Some (ValidationError ''invalid_query'' ''query must not be empty after trimming'')" by code_simp
  show "fst (post_search env g t mcp_tenant
     \<lparr>sb_query = [], sb_mode = ''hybrid'', sb_num_results = - 1, sb_filters = None, sb_pipeline_id = None,
      sb_min_credibility = None, sb_max_ai = None\<rparr>)
     = Inr (error_response 422 ''invalid_query'' ''query must not be empty after trimming'')"
    by (simp add: post_search_def e validation_response_def)
  have m: "search_mode_of ''hybrid'' = Some Hybrid" by code_simp
  show "case fst (execute_tool mp env g t ''search'' [(''query'', JStr []), (''num_results'', JInt (- 1))]) of
        Inr (JObj [(k, JList hits)]) \<Rightarrow> k = ''results'' | _ \<Rightarrow> False"
    by (simp add: execute_tool_def field_or_def as_str_def as_int_def dict_get_def tool_search_def m split: prod.split)
qed

end
