(* ===== verification/App.thy ===== *)
theory App
  imports McpRoutes Auth RateLimiter
begin

text \<open>
  The whole application: \<open>create_app\<close> of \<open>backend/api_gateway/app.py\<close> with its middleware, in the order
  request id, authentication, rate limit, redaction, error handling, route.

  A process keeps the cache of the authentication service, the buckets in Redis (which other processes
  could share; here there is one) and the state of the services behind the routes.  A request comes with
  the readings of the clocks, the table of keys as a query would see it, and whether Redis answers.  What
  a middleware raises is answered by the outermost handler of the framework.
\<close>

section \<open>Configuration\<close>

datatype auth_service =
    DatabaseAuth "string \<Rightarrow> string \<Rightarrow> verify_outcome" "bool option"
  | NoOpAuth

datatype limiter = TokenBucket int | PassThrough

record app_config =
  cf_auth :: auth_service
  cf_limiter :: limiter
  cf_env :: gateway_env
  cf_mcp :: mcp_env
  cf_framework :: framework
  cf_docs :: "string \<Rightarrow> wire_response"

text \<open>\<open>_create_redis_rate_limiter\<close>: the value of \<open>REDIS_URL\<close>, and whether the client can be constructed.\<close>

definition create_redis_rate_limiter :: "string \<Rightarrow> bool \<Rightarrow> limiter option" where
  "create_redis_rate_limiter redis_url constructs =
     (if redis_url = [] then None else if constructs then Some (TokenBucket 60) else None)"

definition create_app :: "auth_service option \<Rightarrow> limiter option \<Rightarrow> string \<Rightarrow> bool \<Rightarrow> gateway_env \<Rightarrow> mcp_env \<Rightarrow> framework
    \<Rightarrow> (string \<Rightarrow> wire_response) \<Rightarrow> app_config" where
  "create_app auth_service rate_limiter redis_url constructs env mcp fw docs =
     (let rate_limiter = (case rate_limiter of None \<Rightarrow> create_redis_rate_limiter redis_url constructs | Some l \<Rightarrow> Some l)
      in \<lparr>cf_auth = (case auth_service of Some a \<Rightarrow> a | None \<Rightarrow> NoOpAuth),
          cf_limiter = (case rate_limiter of Some l \<Rightarrow> l | None \<Rightarrow> PassThrough),
          cf_env = env, cf_mcp = mcp, cf_framework = fw, cf_docs = docs\<rparr>)"

section \<open>State and requests\<close>

record app_state =
  as_cache :: auth_cache
  as_audits :: "auth_failure list"
  as_buckets :: "(string, redis_hash) dict"
  as_gateway :: gateway

record incoming =
  in_method :: string
  in_path :: string
  in_url :: string
  in_items :: "(string \<times> string) list"
  in_body :: "json option"

record moment =
  mo_monotonic :: rat
  mo_wall :: datetime
  mo_seconds :: rat
  mo_uuid :: string
  mo_keys :: "key_row list option"
  mo_redis :: bool
  mo_tick :: tick

definition app_start :: "rat \<Rightarrow> gateway \<Rightarrow> app_state" where
  "app_start ttl g = \<lparr>as_cache = new_auth_cache ttl, as_audits = [], as_buckets = [], as_gateway = g\<rparr>"

text \<open>The headers of a request: names in lower case, the first item of a name counts.\<close>

definition first_headers :: "(string \<times> string) list \<Rightarrow> (string, string) dict" where
  "first_headers items = foldr (\<lambda>(k, v) d. dict_set (py_lower k) v d) items []"

section \<open>The layers\<close>

definition request_id :: "string \<Rightarrow> (string, string) dict \<Rightarrow> string" where
  "request_id generated headers =
     (let incoming_id = (case dict_get headers ''x-request-id'' of Some s \<Rightarrow> s | None \<Rightarrow> '''')
      in if 16 \<le> length incoming_id \<and> length incoming_id \<le> 64 then incoming_id else generated)"

definition with_request_id :: "string \<Rightarrow> wire_response \<Rightarrow> wire_response" where
  "with_request_id rid r = r\<lparr>wr_headers := dict_set ''X-Request-Id'' rid (wr_headers r)\<rparr>"

definition auth_layer :: "app_config \<Rightarrow> app_state \<Rightarrow> moment \<Rightarrow> incoming \<Rightarrow> string
    \<Rightarrow> (auth_exn + auth_reply) \<times> auth_failure list \<times> auth_cache" where
  "auth_layer cfg st mo q rid = (case cf_auth cfg of
     DatabaseAuth verify emit \<Rightarrow>
       auth_dispatch verify emit (as_cache st) (mo_monotonic mo) (mo_wall mo) (mo_keys mo) (in_path q) (in_items q) rid
   | NoOpAuth \<Rightarrow>
       (Inr (CallNext (if in_path q \<in> set public_paths then None else Some (''test-tenant'', ''test-key''))), [], as_cache st))"

text \<open>The call of the limiter, \<open>None\<close> when it raises.\<close>

definition limiter_call :: "app_config \<Rightarrow> app_state \<Rightarrow> moment \<Rightarrow> string \<Rightarrow> string \<Rightarrow> (rate_limit_result \<times> (string, redis_hash) dict) option" where
  "limiter_call cfg st mo tenant path = (case cf_limiter cfg of
     PassThrough \<Rightarrow> Some (pass_through_check (mo_seconds mo) None, as_buckets st)
   | TokenBucket limit \<Rightarrow>
       if mo_redis mo then Some (check_rate_limit limit (as_buckets st) (mo_seconds mo) tenant path None) else None)"

definition pii_redact_dispatch :: "wire_response \<Rightarrow> wire_response" where
  "pii_redact_dispatch response = response"

definition health :: wire_response where
  "health = json_wire 200 (JObj [(''status'', JStr ''healthy''), (''version'', JStr ''0.1.0'')])"

definition only_for :: "app_config \<Rightarrow> string \<Rightarrow> incoming \<Rightarrow> wire_response \<Rightarrow> wire_response" where
  "only_for cfg verb q r = (if in_method q = verb then r else json_wire 405 (fw_not_allowed (cf_framework cfg)))"

text \<open>The routes of the application; a handler that finds no tenant in the request takes \<open>test-tenant\<close>.\<close>

definition app_route :: "app_config \<Rightarrow> gateway \<Rightarrow> moment \<Rightarrow> incoming \<Rightarrow> string option \<Rightarrow> wire_response \<times> gateway" where
  "app_route cfg g mo q tenant =
     (let headers = first_headers (in_items q); path = in_path q
      in if path = ''/health'' then (only_for cfg ''GET'' q health, g)
         else if path \<in> set [''/docs'', ''/redoc'', ''/v1/openapi.json''] then (only_for cfg ''GET'' q (cf_docs cfg path), g)
         else if path = ''/mcp/sse'' then
           (only_for cfg ''GET'' q \<lparr>wr_status = 200, wr_headers = sse_headers [], wr_body = EventBody
              [\<lparr>sv_event = ''endpoint'', sv_data = JStr (mcp_endpoint_url (dict_get headers ''host'') (in_url q) (tk_fresh (mo_tick mo))),
                sv_id = None, sv_retry = None\<rparr>]\<rparr>, g)
         else if path = ''/mcp/messages'' then
           (if in_method q = ''POST''
            then (case respond (mcp_messages (cf_mcp cfg) (cf_env cfg) g (mo_tick mo) (in_body q)) of
                    (r, g') \<Rightarrow> (wire_of_reply r, g'))
            else (json_wire 405 (fw_not_allowed (cf_framework cfg)), g))
         else serve_http (cf_framework cfg) (cf_env cfg) g (mo_tick mo) (case tenant of Some t \<Rightarrow> t | None \<Rightarrow> ''test-tenant'')
                (in_method q) path headers (in_body q))"

definition server_error :: wire_response where
  "server_error = json_wire 500 (error_json ''internal_error'' ''An internal error occurred. Please try again later.'')"

definition rate_limited_body :: wire_body where
  "rate_limited_body = JsonBody (error_json ''rate_limited'' ''Rate limit exceeded. Please retry after the specified time.'')"

text \<open>The rate limit and what is behind it: the reply, and the new state.\<close>

definition limited_route :: "app_config \<Rightarrow> app_state \<Rightarrow> moment \<Rightarrow> incoming \<Rightarrow> string option \<Rightarrow> (wire_response \<times> app_state) option" where
  "limited_route cfg st mo q tenant =
     (let (inner, g') = app_route cfg (as_gateway st) mo q tenant;
          inner = pii_redact_dispatch inner;
          limited = (\<lambda>limiter. case rate_limit_dispatch limiter (as_buckets st)
               \<lparr>resp_status = wr_status inner, resp_error_code = None, resp_headers = wr_headers inner\<rparr> (in_path q) tenant of
             (reply, True, buckets) \<Rightarrow>
               (inner\<lparr>wr_headers := resp_headers reply\<rparr>, st\<lparr>as_buckets := buckets, as_gateway := g'\<rparr>)
           | (reply, False, buckets) \<Rightarrow>
               (\<lparr>wr_status = resp_status reply, wr_headers = resp_headers reply, wr_body = rate_limited_body\<rparr>,
                st\<lparr>as_buckets := buckets\<rparr>))
      in if in_path q \<in> set skip_rate_limit_paths \<or> tenant = None
         then Some (inner, st\<lparr>as_gateway := g'\<rparr>)
         else (case limiter_call cfg st mo (the tenant) (in_path q) of
             None \<Rightarrow> None
           | Some r \<Rightarrow> Some (limited (\<lambda>t path. r))))"

definition app_request :: "app_config \<Rightarrow> app_state \<Rightarrow> moment \<Rightarrow> incoming \<Rightarrow> wire_response \<times> app_state" where
  "app_request cfg st mo q =
     (let rid = request_id (mo_uuid mo) (first_headers (in_items q));
          (outcome, audits, cache) = auth_layer cfg st mo q rid;
          st = st\<lparr>as_cache := cache, as_audits := as_audits st @ audits\<rparr>
      in case outcome of
           Inl x \<Rightarrow> (server_error, st)
         | Inr (Unauthorized code message) \<Rightarrow> (with_request_id rid (json_wire 401 (error_json code message)), st)
         | Inr (CallNext context) \<Rightarrow>
             (case limited_route cfg st mo q (map_option fst context) of
                None \<Rightarrow> (server_error, st)
              | Some (reply, st') \<Rightarrow> (with_request_id rid reply, st')))"

definition app_run :: "app_config \<Rightarrow> app_state \<Rightarrow> (moment \<times> incoming) list \<Rightarrow> app_state" where
  "app_run cfg st hs = foldl (\<lambda>st (mo, q). snd (app_request cfg st mo q)) st hs"

lemma app_run_append: "app_run cfg st (hs @ xs) = app_run cfg (app_run cfg st hs) xs"
  by (simp add: app_run_def)

section \<open>Only valid keys are served\<close>

text \<open>The calls of the authentication service that a history of requests makes.\<close>

definition auth_call :: "moment \<Rightarrow> incoming \<Rightarrow> auth_event list" where
  "auth_call mo q = (if in_path q \<in> set public_paths then []
     else [AuthCall (mo_monotonic mo) (mo_wall mo) (mo_keys mo) (lower_headers (in_items q))
             (request_id (mo_uuid mo) (first_headers (in_items q))) (in_path q)])"

definition auth_calls :: "(moment \<times> incoming) list \<Rightarrow> auth_event list" where
  "auth_calls hs = concat (map (\<lambda>(mo, q). auth_call mo q) hs)"

lemma limited_route_keeps:
  "limited_route cfg st mo q tenant = Some (reply, st') \<Longrightarrow> as_cache st' = as_cache st \<and> as_audits st' = as_audits st"
  by (auto simp: limited_route_def Let_def split: prod.splits if_splits option.splits bool.splits)

lemma app_request_cache:
  "as_cache (snd (app_request cfg st mo q))
     = snd (snd (auth_layer cfg st mo q (request_id (mo_uuid mo) (first_headers (in_items q)))))"
  by (auto simp: app_request_def Let_def dest!: limited_route_keeps
      split: prod.split sum.split auth_reply.split option.split)

lemma auth_layer_cache:
  assumes "cf_auth cfg = DatabaseAuth verify emit" and "as_cache st = auth_run verify emit ttl events"
  shows "snd (snd (auth_layer cfg st mo q (request_id (mo_uuid mo) (first_headers (in_items q)))))
    = auth_run verify emit ttl (events @ auth_call mo q)"
  using assms by (auto simp: auth_layer_def auth_dispatch_def auth_call_def auth_run_def
      split: prod.split sum.split)

lemma app_run_cache:
  assumes "cf_auth cfg = DatabaseAuth verify emit"
  shows "as_cache (app_run cfg (app_start ttl g) hs) = auth_run verify emit ttl (auth_calls hs)"
proof (induction hs rule: rev_induct)
  case Nil
  then show ?case by (simp add: app_run_def app_start_def auth_run_def auth_calls_def)
next
  case (snoc h hs)
  obtain mo q where h: "h = (mo, q)" by (cases h)
  have "as_cache (app_run cfg (app_start ttl g) (hs @ [h])) = as_cache (snd (app_request cfg (app_run cfg (app_start ttl g) hs) mo q))"
    by (simp add: h app_run_def)
  also have "\<dots> = auth_run verify emit ttl (auth_calls hs @ auth_call mo q)"
    using auth_layer_cache [OF assms snoc.IH] by (simp add: app_request_cache)
  finally show ?case by (simp add: h auth_calls_def)
qed

text \<open>A request that gets behind the middleware was handled for the tenant its key was accepted for.\<close>

lemma app_request_through:
  assumes auth: "cf_auth cfg = DatabaseAuth verify emit" and closed: "in_path q \<notin> set public_paths"
    and reply: "app_request cfg st mo q = (reply, st')"
    and through: "wr_status reply < 400 \<or> as_gateway st' \<noteq> as_gateway st"
  shows "\<exists>ok audits cache. authenticate verify emit (as_cache st) (mo_monotonic mo) (mo_wall mo) (mo_keys mo)
      (lower_headers (in_items q)) (request_id (mo_uuid mo) (first_headers (in_items q))) (in_path q) = (Inr (Inr ok), audits, cache)
    \<and> as_gateway st' = snd (app_route cfg (as_gateway st) mo q (Some (ar_tenant ok)))
    \<and> wr_body reply = wr_body (fst (app_route cfg (as_gateway st) mo q (Some (ar_tenant ok))))
    \<and> (\<exists>r buckets. limiter_call cfg st mo (ar_tenant ok) (in_path q) = Some (r, buckets) \<and> rl_allowed r)"
proof -
  let ?rid = "request_id (mo_uuid mo) (first_headers (in_items q))"
  obtain res audits cache where a: "authenticate verify emit (as_cache st) (mo_monotonic mo) (mo_wall mo) (mo_keys mo)
      (lower_headers (in_items q)) ?rid (in_path q) = (res, audits, cache)" by (metis prod_cases3)
  let ?st = "st\<lparr>as_cache := cache, as_audits := as_audits st @ audits\<rparr>"
  from closed have skip: "in_path q \<notin> set skip_rate_limit_paths" by (auto simp: public_paths_def skip_rate_limit_paths_def)
  show ?thesis
  proof (cases res)
    case (Inl x)
    with reply through auth closed a show ?thesis
      by (auto simp: app_request_def Let_def auth_layer_def auth_dispatch_def server_error_def json_wire_def)
  next
    case (Inr r)
    show ?thesis
    proof (cases r)
      case (Inl e)
      with \<open>res = Inr r\<close> reply through auth closed a show ?thesis
        by (auto simp: app_request_def Let_def auth_layer_def auth_dispatch_def json_wire_def with_request_id_def)
    next
      case (Inr ok)
      note res = \<open>res = Inr r\<close> \<open>r = Inr ok\<close>
      have layer: "auth_layer cfg st mo q ?rid = (Inr (CallNext (Some (ar_tenant ok, ar_key ok))), audits, cache)"
        using auth closed a by (simp add: auth_layer_def auth_dispatch_def res)
      obtain inner g' where route: "app_route cfg (as_gateway st) mo q (Some (ar_tenant ok)) = (inner, g')" by fastforce
      have same: "limiter_call cfg ?st mo t p = limiter_call cfg st mo t p" for t p
        by (simp add: limiter_call_def split: limiter.split)
      show ?thesis
      proof (cases "limiter_call cfg st mo (ar_tenant ok) (in_path q)")
        case None
        with reply through show ?thesis
          by (auto simp: app_request_def Let_def layer limited_route_def route same skip server_error_def json_wire_def)
      next
        case (Some rb)
        obtain lr buckets where rb: "rb = (lr, buckets)" by (cases rb)
        show ?thesis
        proof (cases "rl_allowed lr")
          case True
          with reply a Some rb show ?thesis
            by (auto simp: app_request_def Let_def layer limited_route_def route same skip rate_limit_dispatch_def res
                with_request_id_def pii_redact_dispatch_def)
        next
          case False
          with reply through Some rb show ?thesis
            by (auto simp: app_request_def Let_def layer limited_route_def route same skip rate_limit_dispatch_def
                with_request_id_def)
        qed
      qed
    qed
  qed
qed

text \<open>
  C1. Nobody is served without a valid key.  In a process with a real authentication service, whatever
  requests were handled before: a request to a path that is not public that changes the state of a service
  or is answered with a status below 400 carries a bearer token whose row was in the key table as read at
  most \<open>ttl\<close> seconds before, whose hash verifies the token, and which is neither expired nor past its
  grace period now; the limiter granted it a token, and what the services did and answered is exactly the
  work of the route for the tenant of that row.
\<close>

theorem only_valid_keys_served:
  assumes "cf_auth cfg = DatabaseAuth verify emit" and "0 \<le> ttl" and "in_path q \<notin> set public_paths"
    and "app_request cfg (app_run cfg (app_start ttl g) hs) mo q = (reply, st')"
    and "wr_status reply < 400 \<or> as_gateway st' \<noteq> as_gateway (app_run cfg (app_start ttl g) hs)"
  shows "\<exists>h token s table r. dict_get (lower_headers (in_items q)) ''authorization'' = Some h \<and> bearer_token h = Some token
    \<and> (observed (auth_calls hs) s table \<or> (s = mo_monotonic mo \<and> mo_keys mo = Some table)) \<and> mo_monotonic mo - s \<le> ttl
    \<and> r \<in> set table \<and> extract_prefix token = Some (ak_prefix r) \<and> verify token (ak_hash r) = Verified
    \<and> \<not> key_expired (mo_wall mo) r \<and> \<not> key_revoked (mo_wall mo) r
    \<and> (\<exists>grant buckets. limiter_call cfg (app_run cfg (app_start ttl g) hs) mo (ak_tenant r) (in_path q) = Some (grant, buckets)
         \<and> rl_allowed grant)
    \<and> (wr_body reply, as_gateway st')
        = (case app_route cfg (as_gateway (app_run cfg (app_start ttl g) hs)) mo q (Some (ak_tenant r)) of
             (inner, g') \<Rightarrow> (wr_body inner, g'))"
proof -
  let ?st = "app_run cfg (app_start ttl g) hs"
  from app_request_through [OF assms(1,3,4,5)] obtain ok audits cache where
    a: "authenticate verify emit (as_cache ?st) (mo_monotonic mo) (mo_wall mo) (mo_keys mo) (lower_headers (in_items q))
      (request_id (mo_uuid mo) (first_headers (in_items q))) (in_path q) = (Inr (Inr ok), audits, cache)"
    and route: "as_gateway st' = snd (app_route cfg (as_gateway ?st) mo q (Some (ar_tenant ok)))"
      "wr_body reply = wr_body (fst (app_route cfg (as_gateway ?st) mo q (Some (ar_tenant ok))))"
    and lim: "\<exists>r buckets. limiter_call cfg ?st mo (ar_tenant ok) (in_path q) = Some (r, buckets) \<and> rl_allowed r" by blast
  from authenticated_by_recent_row [OF a [unfolded app_run_cache [OF assms(1)]] assms(2)]
  obtain h token s table r where row: "dict_get (lower_headers (in_items q)) ''authorization'' = Some h" "bearer_token h = Some token"
    "observed (auth_calls hs) s table \<or> (s = mo_monotonic mo \<and> mo_keys mo = Some table)" "mo_monotonic mo - s \<le> ttl"
    "r \<in> set table" "extract_prefix token = Some (ak_prefix r)" "verify token (ak_hash r) = Verified"
    "\<not> key_expired (mo_wall mo) r" "\<not> key_revoked (mo_wall mo) r" and t: "ar_tenant ok = ak_tenant r" by blast
  have "(wr_body reply, as_gateway st') = (case app_route cfg (as_gateway ?st) mo q (Some (ak_tenant r)) of
      (inner, g') \<Rightarrow> (wr_body inner, g'))"
    using route by (simp add: t split_beta)
  with row lim [unfolded t] show ?thesis by blast
qed

definition sample_key :: key_row where
  "sample_key = \<lparr>ak_id = ''k1'', ak_tenant = ''T'', ak_prefix = ''abcdefgh'', ak_hash = ''abcdefgh_x'', ak_expires = None,
     ak_revoked = None, ak_grace = 3600\<rparr>"

definition sample_app :: app_config where
  "sample_app = create_app (Some (DatabaseAuth (\<lambda>token hash. if token = hash then Verified else Mismatch) None)) None
     ''redis://localhost'' True sample_gateway_env
     \<lparr>mp_str = (\<lambda>e. ''failed''), mp_repr = (\<lambda>j. ''value''), mp_untyped = (\<lambda>g tool args. (Inr JNull, g))\<rparr>
     \<lparr>fw_bad_body = JNull, fw_not_found = JNull, fw_not_allowed = JNull\<rparr> (\<lambda>path. json_wire 200 JNull)"

definition sample_moment :: "string \<Rightarrow> key_row list \<Rightarrow> moment" where
  "sample_moment fresh rows = \<lparr>mo_monotonic = 50, mo_wall = 7, mo_seconds = 1000, mo_uuid = ''0123456789abcdef'',
     mo_keys = Some rows, mo_redis = True, mo_tick = sample_tick fresh\<rparr>"

definition sample_incoming :: "string \<Rightarrow> string \<Rightarrow> json option \<Rightarrow> incoming" where
  "sample_incoming verb path body = \<lparr>in_method = verb, in_path = path, in_url = path,
     in_items = [(''Authorization'', ''Bearer abcdefgh_x'')], in_body = body\<rparr>"

lemma sample_accepted:
  "fst (auth_dispatch (\<lambda>token hash. if token = hash then Verified else Mismatch) None (new_auth_cache 60) 50 7 (Some [sample_key])
     ''/mcp/sse'' [(''Authorization'', ''Bearer abcdefgh_x'')] ''0123456789abcdef'') = Inr (CallNext (Some (''T'', ''k1'')))"
  by code_simp

lemma sample_granted: "rl_allowed (fst (check_rate_limit 60 [] 1000 ''T'' ''/mcp/sse'' None))"
  by code_simp

lemma sample_served:
  "wr_status (fst (app_request sample_app (app_start 60 sample_start) (sample_moment fresh [sample_key])
     (sample_incoming ''GET'' ''/mcp/sse'' None))) = 200"
proof -
  obtain audits cache where a: "auth_dispatch (\<lambda>token hash. if token = hash then Verified else Mismatch) None (new_auth_cache 60) 50 7
      (Some [sample_key]) ''/mcp/sse'' [(''Authorization'', ''Bearer abcdefgh_x'')] ''0123456789abcdef''
    = (Inr (CallNext (Some (''T'', ''k1''))), audits, cache)"
    using sample_accepted by (metis prod.collapse)
  obtain grant buckets where r: "check_rate_limit 60 [] 1000 ''T'' ''/mcp/sse'' None = (grant, buckets)" "rl_allowed grant"
    using sample_granted by (metis prod.collapse)
  have i: "request_id ''0123456789abcdef'' (first_headers [(''Authorization'', ''Bearer abcdefgh_x'')]) = ''0123456789abcdef''"
    by code_simp
  show ?thesis
    by (simp add: app_request_def sample_incoming_def sample_moment_def i auth_layer_def sample_app_def create_app_def
        create_redis_rate_limiter_def app_start_def a limited_route_def limiter_call_def r rate_limit_dispatch_def
        skip_rate_limit_paths_def app_route_def only_for_def with_request_id_def pii_redact_dispatch_def)
qed

lemma only_valid_keys_served_witness:
  "\<exists>s table r. (observed [] s table \<or> (s = (50 :: rat) \<and> Some [sample_key] = Some table)) \<and> r \<in> set table \<and> ak_tenant r = ''T''"
proof -
  let ?q = "sample_incoming ''GET'' ''/mcp/sse'' None"
  let ?mo = "sample_moment ''s'' [sample_key]"
  let ?st = "app_run sample_app (app_start 60 sample_start) []"
  have c: "cf_auth sample_app = DatabaseAuth (\<lambda>token hash. if token = hash then Verified else Mismatch) None"
    by (simp add: sample_app_def create_app_def)
  have p: "in_path ?q \<notin> set public_paths" by (simp add: sample_incoming_def public_paths_def)
  have s: "wr_status (fst (app_request sample_app ?st ?mo ?q)) < 400 \<or> x" for x
    by (simp add: app_run_def sample_served)
  have z: "(0 :: rat) \<le> 60" by simp
  have m: "mo_monotonic ?mo = 50" "mo_keys ?mo = Some [sample_key]" by (simp_all add: sample_moment_def)
  from only_valid_keys_served [OF c z p prod.collapse [symmetric] s] obtain s table r where
    "observed (auth_calls []) s table \<or> (s = mo_monotonic ?mo \<and> mo_keys ?mo = Some table)" "r \<in> set table" by blast
  then have "(observed [] s table \<or> (s = 50 \<and> Some [sample_key] = Some table)) \<and> r \<in> set table \<and> ak_tenant r = ''T''"
    unfolding m by (auto simp: auth_calls_def observed_def sample_key_def)
  then show ?thesis by blast
qed

section \<open>Tenants do not interfere through the application\<close>

text \<open>The tenant a request is handled for, when it gets that far.\<close>

definition accepted_tenant :: "app_config \<Rightarrow> app_state \<Rightarrow> moment \<Rightarrow> incoming \<Rightarrow> string option" where
  "accepted_tenant cfg st mo q =
     (case fst (auth_layer cfg st mo q (request_id (mo_uuid mo) (first_headers (in_items q)))) of
        Inr (CallNext context) \<Rightarrow> map_option fst context
      | _ \<Rightarrow> None)"

fun no_request_of :: "string \<Rightarrow> app_config \<Rightarrow> app_state \<Rightarrow> (moment \<times> incoming) list \<Rightarrow> bool" where
  "no_request_of tenant cfg st [] = True"
| "no_request_of tenant cfg st ((mo, q) # xs) =
     (accepted_tenant cfg st mo q \<noteq> Some tenant \<and> no_request_of tenant cfg (snd (app_request cfg st mo q)) xs)"

definition fresh_ids :: "(moment \<times> incoming) list \<Rightarrow> string list" where
  "fresh_ids hs = map (\<lambda>(mo, q). tk_fresh (mo_tick mo)) hs"

definition typed_request :: "incoming \<Rightarrow> bool" where
  "typed_request q = (if in_path q = ''/mcp/messages'' then typed_message (in_body q) else True)"

lemma same_gateway_keeps: "gateway_inv used g \<Longrightarrow> gateway_inv (insert x used) g \<and> same_for tenant g g"
  using same_stores_keeps [of g g used x tenant] by (simp add: same_stores_def)

lemma serve_http_keeps:
  assumes "gateway_inv used g" and "tk_fresh t \<notin> used" and "u \<noteq> tenant"
  shows "gateway_inv (insert (tk_fresh t) used) (snd (serve_http fw env g t u verb path headers body))
    \<and> same_for tenant g (snd (serve_http fw env g t u verb path headers body))"
  using foreign_request_keeps [OF assms] same_gateway_keeps [OF assms(1)]
  by (auto simp: serve_http_def split_beta split: routed.split)

lemma app_route_keeps:
  assumes inv: "gateway_inv used g" and new: "tk_fresh (mo_tick mo) \<notin> used" and "tenant \<noteq> mcp_tenant"
    and "u \<noteq> Some tenant" and typed: "typed_request q" and none: "u = None \<longrightarrow> in_path q \<in> set public_paths"
  shows "gateway_inv (insert (tk_fresh (mo_tick mo)) used) (snd (app_route cfg g mo q u))
    \<and> same_for tenant g (snd (app_route cfg g mo q u))"
proof (cases "in_path q = ''/mcp/messages''")
  case True
  with typed have "typed_message (in_body q)" by (simp add: typed_request_def)
  from message_keeps [OF inv new assms(3) this] same_gateway_keeps [OF inv] True show ?thesis
    by (simp add: app_route_def Let_def split_beta)
next
  case False
  have api: "gateway_inv (insert (tk_fresh (mo_tick mo)) used) (snd (serve_http (cf_framework cfg) (cf_env cfg) g (mo_tick mo)
        (case u of Some t \<Rightarrow> t | None \<Rightarrow> ''test-tenant'') (in_method q) (in_path q) (first_headers (in_items q)) (in_body q)))
      \<and> same_for tenant g (snd (serve_http (cf_framework cfg) (cf_env cfg) g (mo_tick mo)
        (case u of Some t \<Rightarrow> t | None \<Rightarrow> ''test-tenant'') (in_method q) (in_path q) (first_headers (in_items q)) (in_body q)))"
    if "in_path q \<notin> set [''/health'', ''/docs'', ''/redoc'', ''/v1/openapi.json'']"
  proof (cases u)
    case (Some t)
    with assms(4) serve_http_keeps [OF inv new] show ?thesis by simp
  next
    case None
    with none that have "in_path q = ''/openapi.json''" by (auto simp: public_paths_def)
    moreover have "split_on CHR ''/'' ''/openapi.json'' = ['''', ''openapi.json'']" by code_simp
    ultimately have "route (in_method q) (in_path q) h b = NoRoute" for h b by (simp add: route_def)
    with same_gateway_keeps [OF inv] show ?thesis by (simp add: serve_http_def)
  qed
  with False same_gateway_keeps [OF inv] show ?thesis by (simp add: app_route_def Let_def)
qed

lemma app_request_gateway:
  "as_gateway (snd (app_request cfg st mo q)) = as_gateway st
   \<or> (\<exists>u. as_gateway (snd (app_request cfg st mo q)) = snd (app_route cfg (as_gateway st) mo q u)
        \<and> u = accepted_tenant cfg st mo q \<and> (u = None \<longrightarrow> in_path q \<in> set public_paths))"
proof -
  let ?rid = "request_id (mo_uuid mo) (first_headers (in_items q))"
  obtain outcome audits cache where layer: "auth_layer cfg st mo q ?rid = (outcome, audits, cache)" by (metis prod_cases3)
  let ?st = "st\<lparr>as_cache := cache, as_audits := as_audits st @ audits\<rparr>"
  have route: "as_gateway st' = as_gateway ?st \<or> as_gateway st' = snd (app_route cfg (as_gateway ?st) mo q u)"
    if "limited_route cfg ?st mo q u = Some (reply, st')" for u reply st'
    using that by (auto simp: limited_route_def Let_def split: prod.splits if_splits option.splits bool.splits)
  show ?thesis
  proof (cases "\<exists>context. outcome = Inr (CallNext context)")
    case False
    then show ?thesis by (auto simp: app_request_def Let_def layer split: sum.split auth_reply.split)
  next
    case True
    then obtain ctx where o: "outcome = Inr (CallNext ctx)" by blast
    have u: "accepted_tenant cfg st mo q = map_option fst ctx" by (simp add: accepted_tenant_def layer o)
    have p: "ctx = None \<longrightarrow> in_path q \<in> set public_paths"
      using layer o by (auto simp: auth_layer_def auth_dispatch_def split: auth_service.splits if_splits prod.splits sum.splits)
    show ?thesis
    proof (cases "limited_route cfg ?st mo q (map_option fst ctx)")
      case None
      then show ?thesis by (simp add: app_request_def Let_def layer o)
    next
      case (Some r)
      obtain reply st' where r: "r = (reply, st')" by (cases r)
      have "as_gateway (snd (app_request cfg st mo q)) = as_gateway st'" using Some by (simp add: app_request_def Let_def layer o r)
      with route [OF Some [unfolded r]] u p show ?thesis by auto
    qed
  qed
qed

lemma app_request_keeps:
  assumes inv: "gateway_inv used (as_gateway st)" and "tk_fresh (mo_tick mo) \<notin> used" and "tenant \<noteq> mcp_tenant"
    and "accepted_tenant cfg st mo q \<noteq> Some tenant" and "typed_request q"
  shows "gateway_inv (insert (tk_fresh (mo_tick mo)) used) (as_gateway (snd (app_request cfg st mo q)))
    \<and> same_for tenant (as_gateway st) (as_gateway (snd (app_request cfg st mo q)))"
  using app_request_gateway [of cfg st mo q] app_route_keeps [OF assms(1-3) assms(4,5)] same_gateway_keeps [OF inv]
  by auto

text \<open>A tenant that no key of the first request belongs to, to keep the identifiers of a request of any tenant.\<close>

lemma app_request_inv:
  assumes "gateway_inv used (as_gateway st)" and "tk_fresh (mo_tick mo) \<notin> used" and "typed_request q"
  shows "gateway_inv (insert (tk_fresh (mo_tick mo)) used) (as_gateway (snd (app_request cfg st mo q)))"
proof -
  let ?u = "case accepted_tenant cfg st mo q of None \<Rightarrow> '''' | Some t \<Rightarrow> t"
  let ?other = "mcp_tenant @ ?u @ ''x''"
  have "?other \<noteq> mcp_tenant" by simp
  moreover have "length ?other \<noteq> length ?u" by simp
  then have "accepted_tenant cfg st mo q \<noteq> Some ?other" by (auto split: option.split)
  ultimately show ?thesis using app_request_keeps [OF assms(1,2) _ _ assms(3)] by blast
qed

lemma app_run_inv:
  "gateway_inv used (as_gateway st) \<Longrightarrow> distinct (fresh_ids hs) \<Longrightarrow> set (fresh_ids hs) \<inter> used = {} \<Longrightarrow>
     (\<And>mo q. (mo, q) \<in> set hs \<Longrightarrow> typed_request q) \<Longrightarrow>
     gateway_inv (set (fresh_ids hs) \<union> used) (as_gateway (app_run cfg st hs))"
proof (induction hs arbitrary: st used)
  case Nil
  then show ?case by (simp add: app_run_def fresh_ids_def)
next
  case (Cons h hs)
  obtain mo q where h: "h = (mo, q)" by (cases h)
  have "gateway_inv (insert (tk_fresh (mo_tick mo)) used) (as_gateway (snd (app_request cfg st mo q)))"
    using Cons.prems by (intro app_request_inv) (auto simp: h fresh_ids_def)
  from Cons.IH [OF this] Cons.prems show ?case by (auto simp: h app_run_def fresh_ids_def)
qed

lemma app_foreign_run:
  "gateway_inv used (as_gateway st) \<Longrightarrow> distinct (fresh_ids xs) \<Longrightarrow> set (fresh_ids xs) \<inter> used = {} \<Longrightarrow>
     tenant \<noteq> mcp_tenant \<Longrightarrow> no_request_of tenant cfg st xs \<Longrightarrow> (\<And>mo q. (mo, q) \<in> set xs \<Longrightarrow> typed_request q) \<Longrightarrow>
     same_for tenant (as_gateway st) (as_gateway (app_run cfg st xs))"
proof (induction xs arbitrary: st used)
  case Nil
  then show ?case by (simp add: app_run_def)
next
  case (Cons h xs)
  obtain mo q where h: "h = (mo, q)" by (cases h)
  let ?st = "snd (app_request cfg st mo q)"
  have one: "gateway_inv (insert (tk_fresh (mo_tick mo)) used) (as_gateway ?st) \<and> same_for tenant (as_gateway st) (as_gateway ?st)"
    using Cons.prems by (intro app_request_keeps) (auto simp: h fresh_ids_def)
  then have "same_for tenant (as_gateway ?st) (as_gateway (app_run cfg ?st xs))"
    using Cons.prems by (intro Cons.IH [of "insert (tk_fresh (mo_tick mo)) used"]) (auto simp: h fresh_ids_def)
  with one show ?case using same_for_trans by (auto simp: h app_run_def)
qed

lemma app_route_owned:
  assumes r: "route (in_method q) (in_path q) (first_headers (in_items q)) (in_body q) = Routed rq" and "by_id rq"
    and "same_for tenant g g'"
  shows "fst (app_route cfg g' mo q (Some tenant)) = fst (app_route cfg g mo q (Some tenant))"
proof -
  have "split_on CHR ''/'' ''/health'' = ['''', ''health'']" "split_on CHR ''/'' ''/docs'' = ['''', ''docs'']"
    "split_on CHR ''/'' ''/redoc'' = ['''', ''redoc'']" "split_on CHR ''/'' ''/v1/openapi.json'' = ['''', ''v1'', ''openapi.json'']"
    "split_on CHR ''/'' ''/mcp/sse'' = ['''', ''mcp'', ''sse'']" "split_on CHR ''/'' ''/mcp/messages'' = ['''', ''mcp'', ''messages'']"
    by code_simp+
  with r have "in_path q \<noteq> ''/health'' \<and> in_path q \<notin> set [''/docs'', ''/redoc'', ''/v1/openapi.json''] \<and> in_path q \<noteq> ''/mcp/sse''
      \<and> in_path q \<noteq> ''/mcp/messages''"
    by (auto simp: route_def post_route_def split: if_splits)
  then show ?thesis
    using by_id_owned [OF assms(2,3), of "cf_env cfg" "mo_tick mo"]
    by (simp add: app_route_def Let_def serve_http_def r split_beta)
qed

text \<open>
  C2. Tenants do not interfere through the application.  After any requests to a process, let any further
  requests come, over the API or as messages of agents, of which none is accepted as the tenant: what the
  tenant is then answered about a research job, its events, a session or a pipeline it names is what it
  would have been answered before them.  Identifiers are drawn fresh and the tenant is not \<open>mcp-agent\<close>,
  which all agents share.
\<close>

theorem app_isolation:
  assumes "distinct (fresh_ids (hs @ xs))" and "\<And>mo q. (mo, q) \<in> set (hs @ xs) \<Longrightarrow> typed_request q"
    and "tenant \<noteq> mcp_tenant" and "no_request_of tenant cfg (app_run cfg (app_start ttl (get_services env now steps table)) hs) xs"
    and "route (in_method q) (in_path q) (first_headers (in_items q)) (in_body q) = Routed rq" and "by_id rq"
  shows "fst (app_route cfg (as_gateway (app_run cfg (app_start ttl (get_services env now steps table)) (hs @ xs))) mo q (Some tenant))
       = fst (app_route cfg (as_gateway (app_run cfg (app_start ttl (get_services env now steps table)) hs)) mo q (Some tenant))"
proof -
  let ?start = "app_start ttl (get_services env now steps table)"
  have d: "distinct (fresh_ids hs)" "distinct (fresh_ids xs)" "set (fresh_ids xs) \<inter> (set (fresh_ids hs) \<union> {}) = {}"
    using assms(1) by (simp_all add: fresh_ids_def Int_commute)
  have "gateway_inv {} (as_gateway ?start)" by (simp add: app_start_def services_inv)
  then have "gateway_inv (set (fresh_ids hs) \<union> {}) (as_gateway (app_run cfg ?start hs))"
    using d(1) assms(2) by (intro app_run_inv) auto
  then have "same_for tenant (as_gateway (app_run cfg ?start hs)) (as_gateway (app_run cfg (app_run cfg ?start hs) xs))"
    using d(2,3) assms(2-4) by (intro app_foreign_run) auto
  from app_route_owned [OF assms(5,6) this] show ?thesis by (simp add: app_run_append)
qed

lemma app_isolation_witness:
  "fst (app_route sample_app (as_gateway (app_run sample_app (app_start 60 sample_start)
        [(sample_moment ''s'' [sample_key], sample_incoming ''GET'' ''/mcp/sse'' None)]))
      (sample_moment ''s2'' []) (sample_incoming ''GET'' ''/v1/research/j'' None) (Some ''U''))
   = fst (app_route sample_app (as_gateway (app_run sample_app (app_start 60 sample_start) []))
      (sample_moment ''s2'' []) (sample_incoming ''GET'' ''/v1/research/j'' None) (Some ''U''))"
proof -
  let ?xs = "[(sample_moment ''s'' [sample_key], sample_incoming ''GET'' ''/mcp/sse'' None)]"
  have d: "distinct (fresh_ids ([] @ ?xs))" by (simp add: fresh_ids_def)
  have t: "typed_request q" if "(mo, q) \<in> set ([] @ ?xs)" for mo q
    using that by (simp add: typed_request_def sample_incoming_def)
  have i: "request_id ''0123456789abcdef'' (first_headers [(''Authorization'', ''Bearer abcdefgh_x'')]) = ''0123456789abcdef''"
    by code_simp
  have n: "no_request_of ''U'' sample_app (app_run sample_app (app_start 60 (get_services sample_gateway_env 0 sample_steps_env None)) []) ?xs"
    by (simp add: app_run_def accepted_tenant_def auth_layer_def sample_app_def create_app_def app_start_def sample_incoming_def
        sample_moment_def i sample_accepted)
  have "split_on CHR ''/'' ''/v1/research/j'' = ['''', ''v1'', ''research'', ''j'']" by code_simp
  then have r: "route (in_method (sample_incoming ''GET'' ''/v1/research/j'' None)) (in_path (sample_incoming ''GET'' ''/v1/research/j'' None))
      (first_headers (in_items (sample_incoming ''GET'' ''/v1/research/j'' None))) (in_body (sample_incoming ''GET'' ''/v1/research/j'' None))
    = Routed (ReportReq ''j'')"
    by (simp add: route_def item_route_def sample_incoming_def)
  have u: "''U'' \<noteq> mcp_tenant" by (simp add: mcp_tenant_def)
  have b: "by_id (ReportReq ''j'')" by simp
  from app_isolation [OF d t u n r b] show ?thesis by (simp add: sample_start_def)
qed

section \<open>Every reply\<close>

text \<open>A reply behind the limiter: a 429, or the reply of the route with the headers of the limiter.\<close>

definition route_reply :: "app_config \<Rightarrow> app_state \<Rightarrow> moment \<Rightarrow> incoming \<Rightarrow> string option \<Rightarrow> wire_response \<Rightarrow> app_state \<Rightarrow> bool" where
  "route_reply cfg st mo q tenant reply st' =
     (let inner = fst (app_route cfg (as_gateway st) mo q tenant)
      in wr_status reply = wr_status inner \<and> wr_body reply = wr_body inner
         \<and> as_gateway st' = snd (app_route cfg (as_gateway st) mo q tenant)
         \<and> (in_path q \<in> set skip_rate_limit_paths \<or> tenant = None
            \<or> (\<exists>r buckets. limiter_call cfg st mo (the tenant) (in_path q) = Some (r, buckets)
                 \<and> dict_get (wr_headers reply) ''X-RateLimit-Limit'' = Some (str_int (rl_limit r))
                 \<and> dict_get (wr_headers reply) ''X-RateLimit-Remaining'' = Some (str_int (rl_remaining r))
                 \<and> dict_get (wr_headers reply) ''X-RateLimit-Reset'' = Some (str_int (rl_reset_at r)))))"

lemma limited_reply:
  assumes "limited_route cfg st mo q tenant = Some (reply, st')"
  shows "(wr_status reply = 429 \<and> wr_body reply = rate_limited_body \<and> dict_get (wr_headers reply) ''Retry-After'' \<noteq> None
      \<and> as_gateway st' = as_gateway st)
    \<or> route_reply cfg st mo q tenant reply st'"
proof -
  obtain inner g' where route: "app_route cfg (as_gateway st) mo q tenant = (inner, g')" by fastforce
  show ?thesis
  proof (cases "in_path q \<in> set skip_rate_limit_paths \<or> tenant = None")
    case True
    with assms show ?thesis by (auto simp: route_reply_def limited_route_def route pii_redact_dispatch_def)
  next
    case False
    then obtain t where t: "tenant = Some t" and skip: "in_path q \<notin> set skip_rate_limit_paths" by blast
    with assms obtain lr buckets where "limiter_call cfg st mo t (in_path q) = Some (lr, buckets)"
      by (cases "limiter_call cfg st mo t (in_path q)") (auto simp: limited_route_def route [unfolded t])
    note limited = assms this
    note [simp] = route_reply_def limited_route_def route [unfolded t] t skip rate_limit_dispatch_def rate_headers_def pii_redact_dispatch_def
    show ?thesis
    proof (cases "rl_allowed lr")
      case True
      with limited show ?thesis by auto
    next
      case False
      with limited show ?thesis by (auto simp: dict_get_def dict_set_def)
    qed
  qed
qed

lemma route_reply_cache: "route_reply cfg (st\<lparr>as_cache := c, as_audits := a\<rparr>) mo q tenant reply st' = route_reply cfg st mo q tenant reply st'"
  by (simp add: route_reply_def limiter_call_def split: limiter.split)

lemma route_reply_id: "route_reply cfg st mo q tenant (with_request_id rid reply) st' = route_reply cfg st mo q tenant reply st'"
  by (simp add: route_reply_def with_request_id_def)

text \<open>
  C5. What a request can be answered with.  Unless the authentication or the limiter raises, every reply
  carries a request identifier, the one the client sent if it has 16 to 64 characters; an unauthorized
  request gets 401 and one over the limit 429 with \<open>Retry-After\<close>, both in the uniform error shape and
  without any effect on the services; every other reply is the one of the route, and behind the
  limiter it names the limit, the remaining requests and the time of the reset.
\<close>

theorem every_reply:
  "case app_request cfg st mo q of (reply, st') \<Rightarrow>
     (let rid = request_id (mo_uuid mo) (first_headers (in_items q)); tenant = accepted_tenant cfg st mo q;
          inner = fst (app_route cfg (as_gateway st) mo q tenant)
      in (reply = server_error \<and> as_gateway st' = as_gateway st)
       \<or> (dict_get (wr_headers reply) ''X-Request-Id'' = Some rid
          \<and> ((wr_status reply = 401 \<and> (\<exists>code message. wr_body reply = JsonBody (error_json code message)) \<and> as_gateway st' = as_gateway st)
             \<or> (wr_status reply = 429 \<and> wr_body reply = rate_limited_body \<and> dict_get (wr_headers reply) ''Retry-After'' \<noteq> None
                \<and> as_gateway st' = as_gateway st)
             \<or> (wr_status reply = wr_status inner \<and> wr_body reply = wr_body inner
                \<and> as_gateway st' = snd (app_route cfg (as_gateway st) mo q tenant)
                \<and> (in_path q \<in> set skip_rate_limit_paths \<or> tenant = None
                   \<or> (\<exists>r buckets. limiter_call cfg st mo (the tenant) (in_path q) = Some (r, buckets)
                        \<and> dict_get (wr_headers reply) ''X-RateLimit-Limit'' = Some (str_int (rl_limit r))
                        \<and> dict_get (wr_headers reply) ''X-RateLimit-Remaining'' = Some (str_int (rl_remaining r))
                        \<and> dict_get (wr_headers reply) ''X-RateLimit-Reset'' = Some (str_int (rl_reset_at r))))))))"
proof -
  let ?rid = "request_id (mo_uuid mo) (first_headers (in_items q))"
  obtain outcome audits cache where layer: "auth_layer cfg st mo q ?rid = (outcome, audits, cache)" by (metis prod_cases3)
  show ?thesis
  proof (cases "\<exists>ctx. outcome = Inr (CallNext ctx)")
    case False
    then show ?thesis
      by (cases outcome; cases "projr outcome") (auto simp: app_request_def Let_def layer with_request_id_def json_wire_def)
  next
    case True
    then obtain ctx where o: "outcome = Inr (CallNext ctx)" by blast
    have u: "accepted_tenant cfg st mo q = map_option fst ctx" by (simp add: accepted_tenant_def layer o)
    show ?thesis
    proof (cases "limited_route cfg (st\<lparr>as_cache := cache, as_audits := as_audits st @ audits\<rparr>) mo q (map_option fst ctx)")
      case None
      then show ?thesis by (simp add: app_request_def Let_def layer o)
    next
      case (Some x)
      obtain reply st' where x: "x = (reply, st')" by (cases x)
      have r: "app_request cfg st mo q = (with_request_id ?rid reply, st')" using Some by (simp add: app_request_def Let_def layer o x)
      have rid: "dict_get (wr_headers (with_request_id ?rid reply)) ''X-Request-Id'' = Some ?rid" by (simp add: with_request_id_def)
      from limited_reply [OF Some [unfolded x]] consider
          (denied) "wr_status reply = 429" "wr_body reply = rate_limited_body" "dict_get (wr_headers reply) ''Retry-After'' \<noteq> None"
            "as_gateway st' = as_gateway st"
        | (routed) "route_reply cfg st mo q (map_option fst ctx) (with_request_id ?rid reply) st'"
        unfolding route_reply_cache route_reply_id by auto
      then show ?thesis
      proof cases
        case denied
        then show ?thesis unfolding r Let_def prod.case using rid by (simp add: with_request_id_def)
      next
        case routed
        then show ?thesis unfolding r u Let_def prod.case route_reply_def using rid by blast
      qed
    qed
  qed
qed

section \<open>The application as it is deployed\<close>

text \<open>
  The commands that start the server call \<open>create_app\<close> without arguments: every request is served as the
  same tenant, whatever its headers.
\<close>

lemma deployed_without_auth:
  assumes "in_path q \<notin> set public_paths"
  shows "accepted_tenant (create_app None None redis_url ok env mcp fw docs) st mo q = Some ''test-tenant''"
  using assms by (simp add: accepted_tenant_def auth_layer_def create_app_def Let_def)

text \<open>The buckets are kept by path: a path that was never requested, such as that of another job, has a full bucket.\<close>

lemma new_path_granted:
  assumes "cf_limiter cfg = TokenBucket limit" and "1 \<le> limit" and "mo_redis mo"
    and "dict_get (as_buckets st) (bucket_key tenant path) = None"
  shows "\<exists>r buckets. limiter_call cfg st mo tenant path = Some (r, buckets) \<and> rl_allowed r"
  using assms by (simp add: limiter_call_def check_rate_limit_def redis_hmget_def token_bucket_lua_def lua_load_def lua_refill_def
      Let_def split: prod.split)

end
