(* ===== verification/McpServer.thy ===== *)
theory McpServer
  imports Gateway RateLimiter
begin

text \<open>
  The MCP server: \<open>backend/mcp_server/server.py\<close> over the schemas of \<open>schemas.py\<close>.

  The server is given its checkers and subsystems; all of them act on one state, that of the process, and
  may raise.  The library that validates a value against a schema is a parameter: it returns the
  violation it reports, or nothing.  The descriptions in the schemas, which validation ignores, are left out.
\<close>

section \<open>Schemas\<close>

definition typed :: "string \<Rightarrow> (string \<times> json) list \<Rightarrow> json" where
  "typed ty rest = JObj ((''type'', JStr ty) # rest)"

definition object_schema :: "(string \<times> json) list \<Rightarrow> string list \<Rightarrow> json" where
  "object_schema properties required = typed ''object''
     ([(''properties'', JObj properties)] @ (if required = [] then [] else [(''required'', JList (map JStr required))]))"

definition closed_schema :: "(string \<times> json) list \<Rightarrow> string list \<Rightarrow> json" where
  "closed_schema properties required = typed ''object''
     [(''properties'', JObj properties), (''required'', JList (map JStr required)), (''additionalProperties'', JBool False)]"

definition array_schema :: "json \<Rightarrow> (string \<times> json) list \<Rightarrow> json" where
  "array_schema items rest = typed ''array'' ((''items'', items) # rest)"

definition bounded_string :: "int \<Rightarrow> int \<Rightarrow> json" where
  "bounded_string lo hi = typed ''string'' [(''minLength'', JInt lo), (''maxLength'', JInt hi)]"

definition mode_schema :: "(string \<times> json) list \<Rightarrow> json" where
  "mode_schema rest = typed ''string'' ((''enum'', JList [JStr ''neural'', JStr ''keyword'', JStr ''hybrid'']) # rest)"

definition count_schema :: "int \<Rightarrow> json" where
  "count_schema lo = typed ''integer'' [(''minimum'', JInt lo), (''maximum'', JInt 100), (''default'', JInt 10)]"

definition unit_number :: json where
  "unit_number = typed ''number'' [(''minimum'', JReal 0), (''maximum'', JReal 1)]"

definition at_least :: "int \<Rightarrow> json" where
  "at_least lo = typed ''integer'' [(''minimum'', JInt lo)]"

definition search_input :: json where
  "search_input = closed_schema
     [(''query'', bounded_string 1 2048), (''mode'', mode_schema []), (''num_results'', count_schema 0),
      (''filters'', typed ''string'' []), (''pipeline_id'', typed ''string'' []), (''min_credibility'', unit_number),
      (''max_ai_generated_likelihood'', unit_number)]
     [''query'', ''mode'']"

definition search_output :: json where
  "search_output = object_schema
     [(''results'', array_schema (object_schema
         [(''document_id'', typed ''string'' []), (''url'', typed ''string'' []), (''title'', typed ''string'' []),
          (''score'', unit_number), (''published_at'', JObj [(''type'', JList [JStr ''string'', JStr ''null''])]),
          (''provenance'', object_schema
             [(''credibility_score'', unit_number), (''ai_generated_likelihood'', unit_number), (''scored_at'', typed ''string'' [])]
             [''credibility_score'', ''ai_generated_likelihood'', ''scored_at''])]
         [''document_id'', ''url'', ''title'', ''score'', ''provenance'']) []),
      (''warnings'', array_schema (object_schema [(''code'', typed ''string'' []), (''step'', typed ''string'' [])] []) [])]
     [''results'']"

definition find_similar_input :: json where
  "find_similar_input = closed_schema
     [(''url'', bounded_string 1 2048), (''num_results'', count_schema 0), (''filters'', typed ''string'' [])] [''url'']"

definition contents_input :: json where
  "contents_input = closed_schema
     [(''document_ids'', array_schema (typed ''string'' []) [(''minItems'', JInt 1), (''maxItems'', JInt 100)]),
      (''highlights'', typed ''boolean'' []), (''query'', typed ''string'' []), (''summary'', typed ''boolean'' [])]
     [''document_ids'']"

definition contents_output :: json where
  "contents_output = object_schema
     [(''results'', array_schema (object_schema
         [(''document_id'', typed ''string'' []), (''version'', typed ''integer'' []), (''url'', typed ''string'' []),
          (''cleaned_text'', typed ''string'' []),
          (''highlights'', array_schema (object_schema [(''start'', at_least 0), (''end'', at_least 1)] [''start'', ''end''])
             [(''maxItems'', JInt 5)]),
          (''summary'', typed ''string'' []),
          (''provenance'', object_schema
             [(''credibility_score'', typed ''number'' []), (''ai_generated_likelihood'', typed ''number'' []), (''scored_at'', typed ''string'' [])] []),
          (''error'', object_schema [(''code'', typed ''string'' []), (''message'', typed ''string'' [])] [''code'', ''message''])]
         [''document_id'']) [])]
     [''results'']"

definition answer_input :: json where
  "answer_input = closed_schema
     [(''query'', bounded_string 1 2048), (''num_results'', count_schema 1), (''mode'', mode_schema [(''default'', JStr ''hybrid'')]),
      (''session_id'', typed ''string'' [])]
     [''query'']"

definition answer_output :: json where
  "answer_output = object_schema
     [(''answer'', typed ''string'' []),
      (''citations'', array_schema (object_schema
         [(''document_id'', typed ''string'' []), (''version'', typed ''integer'' []), (''answer_start'', at_least 0),
          (''answer_end'', at_least 1), (''source_start'', at_least 0), (''source_end'', at_least 1)]
         [''document_id'', ''version'', ''answer_start'', ''answer_end'', ''source_start'', ''source_end'']) [])]
     [''answer'', ''citations'']"

definition research_input :: json where
  "research_input = closed_schema
     [(''research_goal'', bounded_string 1 4096), (''output_schema'', typed ''object'' []), (''session_id'', typed ''string'' []),
      (''max_steps'', at_least 1), (''max_duration_ms'', at_least 1), (''max_tool_calls'', at_least 1)]
     [''research_goal'']"

definition research_output :: json where
  "research_output = object_schema
     [(''job_id'', typed ''string'' []),
      (''status'', typed ''string'' [(''enum'', JList (map JStr [''queued'', ''planning'', ''running'', ''succeeded'', ''failed'', ''budget_exceeded'']))])]
     [''job_id'']"

record tool_def =
  td_name :: string
  td_description :: string
  td_input :: json
  td_output :: json

definition tool_definitions :: "(string, tool_def) dict" where
  "tool_definitions =
     [(''search'', \<lparr>td_name = ''search'', td_description = ''Search the web index using neural, keyword, or hybrid retrieval.'',
        td_input = search_input, td_output = search_output\<rparr>),
      (''find_similar'', \<lparr>td_name = ''find_similar'', td_description = ''Find documents semantically similar to a given URL.'',
        td_input = find_similar_input, td_output = search_output\<rparr>),
      (''contents'', \<lparr>td_name = ''contents'', td_description = ''Fetch cleaned page text, highlights, and summaries for document IDs.'',
        td_input = contents_input, td_output = contents_output\<rparr>),
      (''answer'', \<lparr>td_name = ''answer'', td_description = ''Generate a streaming answer with citations from retrieved documents.'',
        td_input = answer_input, td_output = answer_output\<rparr>),
      (''research'', \<lparr>td_name = ''research'', td_description = ''Launch a multi-hop research job that plans, searches, reads, and synthesizes.'',
        td_input = research_input, td_output = research_output\<rparr>)]"

section \<open>The server\<close>

datatype mcp_error_code = VALIDATION_ERROR | AUTHENTICATION_ERROR | RATE_LIMIT_ERROR | TOOL_EXECUTION_ERROR

record mcp_error =
  me_code :: mcp_error_code
  me_message :: string
  me_details :: "(string, json) dict option"

record mcp_tool_result =
  mt_success :: bool
  mt_data :: "json option"
  mt_error :: "mcp_error option"

record mcp_tool_call =
  mc_tool_name :: string
  mc_arguments :: json
  mc_api_key :: "string option"

record violation =
  vi_message :: string
  vi_path :: "json list"
  vi_validator :: string
  vi_schema_path :: "json list"

text \<open>
  An operation of a collaborator on the state \<open>'s\<close>: it raises, with the text of the exception, or returns.
  A tenant is what the authentication checker returned, which may be nothing.
\<close>

type_synonym ('s, 'a) effect = "'s \<Rightarrow> (string + 'a) \<times> 's"

type_synonym 's subsystem = "(json \<Rightarrow> string option \<Rightarrow> ('s, json) effect) option"

record 's mcp_server =
  ms_validate :: "json \<Rightarrow> json \<Rightarrow> violation option"
  ms_auth :: "(string \<Rightarrow> ('s, bool \<times> string option \<times> string option) effect) option"
  ms_rate :: "(string option \<Rightarrow> string \<Rightarrow> ('s, bool \<times> int option) effect) option"
  ms_search :: "'s subsystem"
  ms_find_similar :: "'s subsystem"
  ms_contents :: "'s subsystem"
  ms_answer :: "'s subsystem"
  ms_research :: "'s subsystem"

definition fail_with :: "mcp_error_code \<Rightarrow> string \<Rightarrow> (string, json) dict option \<Rightarrow> mcp_tool_result" where
  "fail_with code message details =
     \<lparr>mt_success = False, mt_data = None, mt_error = Some \<lparr>me_code = code, me_message = message, me_details = details\<rparr>\<rparr>"

definition list_tools :: json where
  "list_tools = JList (map (\<lambda>(k, d). JObj [(''name'', JStr (td_name d)), (''description'', JStr (td_description d)),
     (''inputSchema'', td_input d)]) tool_definitions)"

text \<open>\<open>_authenticate\<close>: a raised exception, the error of the call, or the tenant.\<close>

definition mcp_authenticate :: "'s mcp_server \<Rightarrow> string option \<Rightarrow> ('s, mcp_tool_result + string option) effect" where
  "mcp_authenticate sv api_key s =
     (case ms_auth sv of
        None \<Rightarrow> (Inr (Inr (Some ''test-tenant'')), s)
      | Some check \<Rightarrow>
          (case api_key of
             None \<Rightarrow> (Inr (Inl (fail_with AUTHENTICATION_ERROR ''API key is required'' None)), s)
           | Some key \<Rightarrow>
               (case check key s of
                  (Inl x, s') \<Rightarrow> (Inl x, s')
                | (Inr (is_authenticated, tenant, message), s') \<Rightarrow>
                    (Inr (if \<not> is_authenticated
                          then Inl (fail_with AUTHENTICATION_ERROR
                                 (case message of Some m \<Rightarrow> if m = [] then ''Authentication failed'' else m
                                                | None \<Rightarrow> ''Authentication failed'') None)
                          else Inr tenant), s'))))"

definition endpoint_map :: "(string, string) dict" where
  "endpoint_map = [(''search'', ''/v1/search''), (''find_similar'', ''/v1/find_similar''), (''contents'', ''/v1/contents''),
     (''answer'', ''/v1/answer''), (''research'', ''/v1/research'')]"

definition tool_endpoint :: "string \<Rightarrow> string" where
  "tool_endpoint tool = (case dict_get endpoint_map tool of Some e \<Rightarrow> e | None \<Rightarrow> ''/v1/'' @ tool)"

definition mcp_check_rate_limit :: "'s mcp_server \<Rightarrow> string option \<Rightarrow> string \<Rightarrow> ('s, mcp_tool_result option) effect" where
  "mcp_check_rate_limit sv tenant tool s =
     (case ms_rate sv of
        None \<Rightarrow> (Inr None, s)
      | Some check \<Rightarrow>
          (case check tenant (tool_endpoint tool) s of
             (Inl x, s') \<Rightarrow> (Inl x, s')
           | (Inr (is_allowed, retry_after), s') \<Rightarrow>
               (Inr (if is_allowed then None
                     else Some (fail_with RATE_LIMIT_ERROR ''Rate limit exceeded''
                            (Some [(''retry_after'', case retry_after of None \<Rightarrow> JNull | Some n \<Rightarrow> JInt n)]))), s')))"

definition path_part :: "json \<Rightarrow> string" where
  "path_part p = (case p of JStr s \<Rightarrow> s | JInt i \<Rightarrow> str_int i | _ \<Rightarrow> '''')"

definition dotted :: "json list \<Rightarrow> string" where
  "dotted ps = join ''.'' (map path_part ps)"

definition validate_input :: "'s mcp_server \<Rightarrow> tool_def \<Rightarrow> json \<Rightarrow> mcp_tool_result option" where
  "validate_input sv d arguments =
     (case ms_validate sv arguments (td_input d) of
        None \<Rightarrow> None
      | Some v \<Rightarrow> Some (fail_with VALIDATION_ERROR (''Input validation failed: '' @ vi_message v)
          (Some [(''path'', JStr (dotted (vi_path v))), (''constraint'', JStr (vi_validator v)),
                 (''schema_path'', JList (vi_schema_path v))])))"

definition validate_output :: "'s mcp_server \<Rightarrow> string \<Rightarrow> tool_def \<Rightarrow> json \<Rightarrow> mcp_tool_result option" where
  "validate_output sv tool d result =
     (case ms_validate sv result (td_output d) of
        None \<Rightarrow> None
      | Some v \<Rightarrow> Some (fail_with TOOL_EXECUTION_ERROR (''Output validation failed: '' @ vi_message v)
          (Some [(''tool'', JStr tool), (''path'', JStr (dotted (vi_path v)))])))"

text \<open>The handlers of \<open>_dispatch_map\<close>.\<close>

definition dispatch_to :: "string \<Rightarrow> 's subsystem \<Rightarrow> json \<Rightarrow> string option \<Rightarrow> ('s, json) effect" where
  "dispatch_to name subsystem arguments tenant s =
     (case subsystem of
        None \<Rightarrow> (Inl (name @ '' subsystem not configured''), s)
      | Some run \<Rightarrow> run arguments tenant s)"

definition dispatch_map :: "'s mcp_server \<Rightarrow> (string, json \<Rightarrow> string option \<Rightarrow> ('s, json) effect) dict" where
  "dispatch_map sv =
     [(''search'', dispatch_to ''Search'' (ms_search sv)), (''find_similar'', dispatch_to ''Find-similar'' (ms_find_similar sv)),
      (''contents'', dispatch_to ''Contents'' (ms_contents sv)), (''answer'', dispatch_to ''Answer'' (ms_answer sv)),
      (''research'', dispatch_to ''Research'' (ms_research sv))]"

definition mcp_call_tool :: "'s mcp_server \<Rightarrow> mcp_tool_call \<Rightarrow> ('s, mcp_tool_result) effect" where
  "mcp_call_tool sv call s =
     (let tool = mc_tool_name call; arguments = mc_arguments call in
      case dict_get tool_definitions tool of
        None \<Rightarrow> (Inr (fail_with VALIDATION_ERROR (''Unknown tool: '' @ tool) None), s)
      | Some d \<Rightarrow>
          (case mcp_authenticate sv (mc_api_key call) s of
             (Inl x, s1) \<Rightarrow> (Inl x, s1)
           | (Inr (Inl r), s1) \<Rightarrow> (Inr r, s1)
           | (Inr (Inr tenant), s1) \<Rightarrow>
               (case mcp_check_rate_limit sv tenant tool s1 of
                  (Inl x, s2) \<Rightarrow> (Inl x, s2)
                | (Inr (Some r), s2) \<Rightarrow> (Inr r, s2)
                | (Inr None, s2) \<Rightarrow>
                    (case validate_input sv d arguments of
                       Some r \<Rightarrow> (Inr r, s2)
                     | None \<Rightarrow>
                         (case dict_get (dispatch_map sv) tool of
                            None \<Rightarrow> (Inr (fail_with TOOL_EXECUTION_ERROR (''No handler registered for tool: '' @ tool) None), s2)
                          | Some handler \<Rightarrow>
                              (case handler arguments tenant s2 of
                                 (Inl x, s3) \<Rightarrow> (Inr (fail_with TOOL_EXECUTION_ERROR (''Subsystem error: '' @ x)
                                                    (Some [(''tool'', JStr tool)])), s3)
                               | (Inr result, s3) \<Rightarrow>
                                   (Inr (case validate_output sv tool d result of
                                           Some r \<Rightarrow> r
                                         | None \<Rightarrow> \<lparr>mt_success = True, mt_data = Some result, mt_error = None\<rparr>), s3))))))) "

section \<open>What the validator accepts\<close>

text \<open>
  The documented meaning of the keywords that the schemas use.  That the library accepts exactly these
  values is a hypothesis of the result below.
\<close>

definition has_type :: "string \<Rightarrow> json \<Rightarrow> bool" where
  "has_type ty v = (case v of
     JNull \<Rightarrow> ty = ''null''
   | JBool b \<Rightarrow> ty = ''boolean''
   | JInt i \<Rightarrow> ty = ''integer'' \<or> ty = ''number''
   | JReal x \<Rightarrow> ty = ''number'' \<or> (ty = ''integer'' \<and> of_int \<lfloor>x\<rfloor> = x)
   | JStr s \<Rightarrow> ty = ''string''
   | JList vs \<Rightarrow> ty = ''array''
   | JObj d \<Rightarrow> ty = ''object'')"

definition type_ok :: "json \<Rightarrow> json \<Rightarrow> bool" where
  "type_ok c v = (case c of
     JStr ty \<Rightarrow> has_type ty v
   | JList tys \<Rightarrow> list_ex (\<lambda>t. case t of JStr ty \<Rightarrow> has_type ty v | _ \<Rightarrow> False) tys
   | _ \<Rightarrow> True)"

definition json_number :: "json \<Rightarrow> rat option" where
  "json_number j = (case j of JInt i \<Rightarrow> Some (of_int i) | JReal x \<Rightarrow> Some x | _ \<Rightarrow> None)"

definition json_length :: "json \<Rightarrow> bool \<Rightarrow> rat option" where
  "json_length v strings = (case v of
     JStr s \<Rightarrow> if strings then Some (of_nat (length s)) else None
   | JList vs \<Rightarrow> if strings then None else Some (of_nat (length vs))
   | _ \<Rightarrow> None)"

text \<open>A bound holds unless the value has no such measure.\<close>

definition bound_ok :: "(rat \<Rightarrow> rat \<Rightarrow> bool) \<Rightarrow> rat option \<Rightarrow> json \<Rightarrow> bool" where
  "bound_ok ok x c = (case (x, json_number c) of (Some a, Some b) \<Rightarrow> ok a b | _ \<Rightarrow> True)"

definition required_ok :: "json \<Rightarrow> json \<Rightarrow> bool" where
  "required_ok c v = (case (c, v) of
     (JList ks, JObj d) \<Rightarrow> list_all (\<lambda>k. case k of JStr s \<Rightarrow> dict_get d s \<noteq> None | _ \<Rightarrow> True) ks
   | _ \<Rightarrow> True)"

text \<open>The keywords with no schemas below them; \<open>props\<close> are the declared properties of the same schema.\<close>

definition keyword_ok :: "string list \<Rightarrow> string \<Rightarrow> json \<Rightarrow> json \<Rightarrow> bool" where
  "keyword_ok props k c v =
     (if k = ''type'' then type_ok c v
      else if k = ''enum'' then (case c of JList vs \<Rightarrow> v \<in> set vs | _ \<Rightarrow> True)
      else if k = ''minLength'' then bound_ok (\<ge>) (json_length v True) c
      else if k = ''maxLength'' then bound_ok (\<le>) (json_length v True) c
      else if k = ''minItems'' then bound_ok (\<ge>) (json_length v False) c
      else if k = ''maxItems'' then bound_ok (\<le>) (json_length v False) c
      else if k = ''minimum'' then bound_ok (\<ge>) (json_number v) c
      else if k = ''maximum'' then bound_ok (\<le>) (json_number v) c
      else if k = ''required'' then required_ok c v
      else if k = ''additionalProperties'' then
        (case (c, v) of (JBool False, JObj d) \<Rightarrow> list_all (\<lambda>(p, x). p \<in> set props) d | _ \<Rightarrow> True)
      else True)"

definition declared :: "(string \<times> json) list \<Rightarrow> string list" where
  "declared schema = (case dict_get schema ''properties'' of Some (JObj ps) \<Rightarrow> map fst ps | _ \<Rightarrow> [])"

function (sequential) conforms :: "json \<Rightarrow> json \<Rightarrow> bool" and schema_keywords :: "string list \<Rightarrow> (string \<times> json) list \<Rightarrow> json \<Rightarrow> bool"
  and properties :: "(string \<times> json) list \<Rightarrow> (string, json) dict \<Rightarrow> bool" where
  "conforms (JObj schema) v = schema_keywords (declared schema) schema v"
| "conforms s v = True"
| "schema_keywords props [] v = True"
| "schema_keywords props ((k, c) # rest) v =
     ((if k = ''properties'' then (case (c, v) of (JObj ps, JObj d) \<Rightarrow> properties ps d | _ \<Rightarrow> True)
       else if k = ''items'' then (case v of JList vs \<Rightarrow> list_all (conforms c) vs | _ \<Rightarrow> True)
       else keyword_ok props k c v) \<and> schema_keywords props rest v)"
| "properties [] d = True"
| "properties ((p, s) # ps) d = ((case dict_get d p of None \<Rightarrow> True | Some x \<Rightarrow> conforms s x) \<and> properties ps d)"
  by pat_completeness auto
termination
  by (relation "measure (\<lambda>x. case x of Inl (s, v) \<Rightarrow> size s | Inr (Inl (props, ks, v)) \<Rightarrow> size_list (size_prod (\<lambda>_. 0) size) ks
       | Inr (Inr (ps, d)) \<Rightarrow> size_list (size_prod (\<lambda>_. 0) size) ps)") auto

text \<open>The results that a guard ends a call with are failures.\<close>

lemma guard_failures:
  "mcp_authenticate sv key s = (Inr (Inl r), s') \<Longrightarrow> \<not> mt_success r"
  "mcp_check_rate_limit sv tenant tool s = (Inr (Some r), s') \<Longrightarrow> \<not> mt_success r"
  "validate_input sv d v = Some r \<Longrightarrow> \<not> mt_success r"
  "validate_output sv tool d v = Some r \<Longrightarrow> \<not> mt_success r"
  by (auto simp: mcp_authenticate_def mcp_check_rate_limit_def validate_input_def validate_output_def fail_with_def
      split: option.splits prod.splits sum.splits if_splits)

lemma validated:
  "validate_input sv d v = None \<longleftrightarrow> ms_validate sv v (td_input d) = None"
  "validate_output sv tool d v = None \<longleftrightarrow> ms_validate sv v (td_output d) = None"
  by (simp_all add: validate_input_def validate_output_def split: option.split)

lemma call_success:
  assumes call: "mcp_call_tool sv call s = (Inr r, s')" and ok: "mt_success r"
  shows "\<exists>d tenant s1 s2 handler result. dict_get tool_definitions (mc_tool_name call) = Some d
    \<and> mcp_authenticate sv (mc_api_key call) s = (Inr (Inr tenant), s1)
    \<and> mcp_check_rate_limit sv tenant (mc_tool_name call) s1 = (Inr None, s2)
    \<and> ms_validate sv (mc_arguments call) (td_input d) = None
    \<and> dict_get (dispatch_map sv) (mc_tool_name call) = Some handler
    \<and> handler (mc_arguments call) tenant s2 = (Inr result, s')
    \<and> ms_validate sv result (td_output d) = None \<and> mt_data r = Some result"
proof (cases "dict_get tool_definitions (mc_tool_name call)")
  case None
  with call ok show ?thesis by (auto simp: mcp_call_tool_def Let_def fail_with_def)
next
  case (Some d)
  note d = this
  obtain ra s1 where a: "mcp_authenticate sv (mc_api_key call) s = (ra, s1)" by fastforce
  from call ok d a guard_failures(1) [of sv "mc_api_key call" s] obtain tenant where tenant: "ra = Inr (Inr tenant)"
    by (cases ra; cases "projr ra") (auto simp: mcp_call_tool_def Let_def)
  obtain rl s2 where l: "mcp_check_rate_limit sv tenant (mc_tool_name call) s1 = (rl, s2)" by fastforce
  from call ok d a tenant l guard_failures(2) [of sv tenant "mc_tool_name call" s1] have free: "rl = Inr None"
    by (cases rl; cases "projr rl") (auto simp: mcp_call_tool_def Let_def)
  from call ok d a tenant l free have "validate_input sv d (mc_arguments call) = None"
    using guard_failures(3) by (cases "validate_input sv d (mc_arguments call)") (auto simp: mcp_call_tool_def Let_def)
  note v = this
  from call ok d a tenant l free v obtain handler where h: "dict_get (dispatch_map sv) (mc_tool_name call) = Some handler"
    by (cases "dict_get (dispatch_map sv) (mc_tool_name call)") (auto simp: mcp_call_tool_def Let_def fail_with_def)
  obtain rh s3 where run: "handler (mc_arguments call) tenant s2 = (rh, s3)" by fastforce
  from call ok d a tenant l free v h run obtain result where "rh = Inr result"
    by (cases rh) (auto simp: mcp_call_tool_def Let_def fail_with_def)
  moreover from this call ok d a tenant l free v h run have "validate_output sv (mc_tool_name call) d result = None"
    by (cases "validate_output sv (mc_tool_name call) d result") (auto simp: mcp_call_tool_def Let_def dest: guard_failures(4))
  moreover from calculation call d a tenant l free v h run have "mt_data r = Some result" "s' = s3"
    by (auto simp: mcp_call_tool_def Let_def)
  ultimately show ?thesis using d a tenant l free v h run by (auto simp: validated)
qed

lemmas schema_defs = closed_schema_def object_schema_def array_schema_def typed_def bounded_string_def mode_schema_def
  count_schema_def unit_number_def at_least_def declared_def dict_get_def keyword_ok_def

lemma type_string: "type_ok (JStr ''string'') v \<longleftrightarrow> (\<exists>s. v = JStr s)"
  by (cases v) (simp_all add: type_ok_def has_type_def)

lemma type_object: "type_ok (JStr ''object'') v \<longleftrightarrow> (\<exists>d. v = JObj d)"
  by (cases v) (simp_all add: type_ok_def has_type_def)

lemma type_array: "type_ok (JStr ''array'') v \<longleftrightarrow> (\<exists>vs. v = JList vs)"
  by (cases v) (simp_all add: type_ok_def has_type_def)

lemma type_number: "type_ok (JStr ''number'') v \<longleftrightarrow> json_number v \<noteq> None"
  by (cases v) (simp_all add: type_ok_def has_type_def json_number_def)

lemma type_integer: "type_ok (JStr ''integer'') v \<Longrightarrow> \<exists>x. json_number v = Some x"
  by (cases v) (simp_all add: type_ok_def has_type_def json_number_def)

definition in_unit :: "json option \<Rightarrow> bool" where
  "in_unit v = (case v of None \<Rightarrow> False | Some j \<Rightarrow> (case json_number j of None \<Rightarrow> False | Some x \<Rightarrow> 0 \<le> x \<and> x \<le> 1))"

definition is_string :: "json option \<Rightarrow> bool" where
  "is_string v = (case v of Some (JStr s) \<Rightarrow> True | _ \<Rightarrow> False)"

definition hit_ok :: "json \<Rightarrow> bool" where
  "hit_ok h = (case h of
     JObj d \<Rightarrow> is_string (dict_get d ''document_id'') \<and> is_string (dict_get d ''url'') \<and> is_string (dict_get d ''title'')
       \<and> in_unit (dict_get d ''score'')
       \<and> (case dict_get d ''provenance'' of
            Some (JObj p) \<Rightarrow> in_unit (dict_get p ''credibility_score'') \<and> in_unit (dict_get p ''ai_generated_likelihood'')
              \<and> is_string (dict_get p ''scored_at'')
          | _ \<Rightarrow> False)
   | _ \<Rightarrow> False)"

lemma conforms_string: "conforms (typed ''string'' []) v \<longleftrightarrow> (\<exists>s. v = JStr s)"
  by (simp add: typed_def keyword_ok_def type_string)

lemma conforms_unit: "conforms unit_number v \<longleftrightarrow> in_unit (Some v)"
  by (auto simp: unit_number_def typed_def keyword_ok_def type_number in_unit_def bound_ok_def json_number_def split: option.split)

lemma conforms_bounded: "conforms (bounded_string lo hi) v \<longleftrightarrow> (\<exists>s. v = JStr s \<and> lo \<le> int (length s) \<and> int (length s) \<le> hi)"
proof (cases v)
  case (JStr s)
  have "(rat_of_int i \<le> rat_of_nat n) = (i \<le> int n)" "(rat_of_nat n \<le> rat_of_int i) = (int n \<le> i)" for i n
    using of_int_le_iff [of i "int n", where ?'a = rat] of_int_le_iff [of "int n" i, where ?'a = rat] by simp_all
  with JStr show ?thesis
    by (simp add: bounded_string_def typed_def keyword_ok_def type_ok_def has_type_def bound_ok_def json_number_def json_length_def)
qed (simp_all add: bounded_string_def typed_def keyword_ok_def type_ok_def has_type_def)

lemma conforms_mode: "conforms (mode_schema []) v \<longleftrightarrow> (\<exists>s. v = JStr s \<and> s \<in> set valid_search_modes)"
  by (auto simp: mode_schema_def typed_def keyword_ok_def type_string valid_search_modes_def)

lemma conforms_count: "conforms (count_schema lo) v \<Longrightarrow> \<exists>x. json_number v = Some x \<and> of_int lo \<le> x \<and> x \<le> 100"
  by (auto simp: count_schema_def typed_def keyword_ok_def bound_ok_def json_number_def [of "JInt _"] dest!: type_integer)

lemma conforms_object:
  "conforms (object_schema ps (k # ks)) (JObj d) \<longleftrightarrow>
     properties ps d \<and> list_all (\<lambda>k. dict_get d k \<noteq> None) (k # ks)"
  by (simp add: object_schema_def typed_def keyword_ok_def type_object required_ok_def list_all_iff)

lemma conforms_closed:
  "conforms (closed_schema ps ks) v \<longleftrightarrow> (\<exists>d. v = JObj d \<and> properties ps d \<and> list_all (\<lambda>k. dict_get d k \<noteq> None) ks
     \<and> list_all (\<lambda>(p, x). p \<in> set (map fst ps)) d)"
  by (auto simp: closed_schema_def typed_def keyword_ok_def type_object required_ok_def declared_def dict_get_def list_all_iff)

lemma conforms_array: "conforms (array_schema c []) v \<longleftrightarrow> (\<exists>vs. v = JList vs \<and> list_all (conforms c) vs)"
  by (auto simp: array_schema_def typed_def keyword_ok_def type_array)

lemma object_value: "conforms (object_schema ps ks) v \<Longrightarrow> \<exists>d. v = JObj d"
  by (simp add: object_schema_def typed_def keyword_ok_def type_object)

lemma search_hit_ok:
  assumes "conforms (object_schema
         [(''document_id'', typed ''string'' []), (''url'', typed ''string'' []), (''title'', typed ''string'' []),
          (''score'', unit_number), (''published_at'', pub),
          (''provenance'', object_schema
             [(''credibility_score'', unit_number), (''ai_generated_likelihood'', unit_number), (''scored_at'', typed ''string'' [])]
             [''credibility_score'', ''ai_generated_likelihood'', ''scored_at''])]
         [''document_id'', ''url'', ''title'', ''score'', ''provenance'']) h"
  shows "hit_ok h"
proof -
  from object_value [OF assms] obtain d where h: "h = JObj d" by blast
  from assms obtain i u t sc pv where keys: "dict_get d ''document_id'' = Some i" "dict_get d ''url'' = Some u"
    "dict_get d ''title'' = Some t" "dict_get d ''score'' = Some sc" "dict_get d ''provenance'' = Some pv"
    unfolding h conforms_object by auto
  with assms have vals: "\<exists>s. i = JStr s" "\<exists>s. u = JStr s" "\<exists>s. t = JStr s" "in_unit (Some sc)"
    and p: "conforms (object_schema
       [(''credibility_score'', unit_number), (''ai_generated_likelihood'', unit_number), (''scored_at'', typed ''string'' [])]
       [''credibility_score'', ''ai_generated_likelihood'', ''scored_at'']) pv"
    unfolding h conforms_object by (simp_all add: conforms_string conforms_unit)
  from object_value [OF p] obtain e where e: "pv = JObj e" by blast
  from p obtain c l a where pk: "dict_get e ''credibility_score'' = Some c" "dict_get e ''ai_generated_likelihood'' = Some l"
    "dict_get e ''scored_at'' = Some a" unfolding e conforms_object by auto
  with p have "in_unit (Some c)" "in_unit (Some l)" "\<exists>s. a = JStr s"
    unfolding e conforms_object by (simp_all add: conforms_string conforms_unit)
  with vals keys pk e show ?thesis by (auto simp: h hit_ok_def is_string_def)
qed

lemma search_output_ok:
  assumes "conforms search_output v"
  shows "\<exists>d hits. v = JObj d \<and> dict_get d ''results'' = Some (JList hits) \<and> list_all hit_ok hits"
proof -
  from assms object_value obtain d where v: "v = JObj d" unfolding search_output_def by blast
  from assms obtain rs where rs: "dict_get d ''results'' = Some rs"
    unfolding v search_output_def conforms_object by auto
  with assms obtain hits where "rs = JList hits" "list_all hit_ok hits"
    unfolding v search_output_def conforms_object
    by (auto simp: conforms_array list_all_iff simp del: conforms.simps dest!: search_hit_ok)
  with v rs show ?thesis by blast
qed

lemma search_input_ok:
  assumes "conforms search_input v"
  shows "\<exists>d q m. v = JObj d \<and> dict_get d ''query'' = Some (JStr q) \<and> 1 \<le> length q \<and> length q \<le> query_max
    \<and> dict_get d ''mode'' = Some (JStr m) \<and> m \<in> set valid_search_modes
    \<and> (case dict_get d ''num_results'' of None \<Rightarrow> True | Some n \<Rightarrow> (\<exists>x. json_number n = Some x \<and> 0 \<le> x \<and> x \<le> 100))"
proof -
  from assms obtain d where v: "v = JObj d" and ps: "properties
     [(''query'', bounded_string 1 2048), (''mode'', mode_schema []), (''num_results'', count_schema 0),
      (''filters'', typed ''string'' []), (''pipeline_id'', typed ''string'' []), (''min_credibility'', unit_number),
      (''max_ai_generated_likelihood'', unit_number)] d"
    and keys: "dict_get d ''query'' \<noteq> None" "dict_get d ''mode'' \<noteq> None"
    unfolding search_input_def conforms_closed by auto
  from ps keys obtain q m where "dict_get d ''query'' = Some (JStr q)" "1 \<le> length q" "length q \<le> 2048"
    "dict_get d ''mode'' = Some (JStr m)" "m \<in> set valid_search_modes"
    by (auto simp: conforms_bounded conforms_mode simp del: conforms.simps)
  moreover from ps have "case dict_get d ''num_results'' of None \<Rightarrow> True | Some n \<Rightarrow> (\<exists>x. json_number n = Some x \<and> 0 \<le> x \<and> x \<le> 100)"
    by (auto split: option.splits dest!: conforms_count)
  ultimately show ?thesis using v by (auto simp: query_max_def)
qed


definition sample_mcp :: "unit mcp_server" where
  "sample_mcp = \<lparr>ms_validate = (\<lambda>v s. if conforms s v then None
       else Some \<lparr>vi_message = ''invalid'', vi_path = [], vi_validator = ''type'', vi_schema_path = []\<rparr>),
     ms_auth = None, ms_rate = None, ms_search = Some (\<lambda>args tenant s. (Inr (JObj [(''results'', JList [])]), s)),
     ms_find_similar = None, ms_contents = None, ms_answer = None, ms_research = None\<rparr>"

definition sample_mcp_call :: "string \<Rightarrow> mcp_tool_call" where
  "sample_mcp_call q = \<lparr>mc_tool_name = ''search'', mc_arguments = JObj [(''query'', JStr q), (''mode'', JStr ''keyword'')],
     mc_api_key = None\<rparr>"

lemma sample_call_input: "conforms search_input (mc_arguments (sample_mcp_call ''q''))"
  by code_simp

lemma sample_call_output: "conforms search_output (JObj [(''results'', JList [])])"
  by code_simp

lemma sample_mcp_result:
  "mcp_call_tool sample_mcp (sample_mcp_call ''q'') ()
     = (Inr \<lparr>mt_success = True, mt_data = Some (JObj [(''results'', JList [])]), mt_error = None\<rparr>, ())"
  using sample_call_input sample_call_output
  by (simp del: conforms.simps add: mcp_call_tool_def sample_mcp_call_def tool_definitions_def dict_get_def mcp_authenticate_def sample_mcp_def
      mcp_check_rate_limit_def validate_input_def validate_output_def dispatch_map_def dispatch_to_def)


text \<open>A blank query passes the schema, whose length is counted before trimming; the API rejects it.\<close>

lemma blank_query_accepted:
  "conforms search_input (JObj [(''query'', JStr '' ''), (''mode'', JStr ''keyword'')]) \<and> validate_query '' '' \<noteq> None"
  by code_simp

text \<open>A result as the search endpoint of the API renders it never passes the output schema: \<open>scored_at\<close> is missing.\<close>

lemma api_result_rejected: "\<not> conforms search_output (JObj [(''results'', JList (result_json env r # rs))])"
proof
  assume "conforms search_output (JObj [(''results'', JList (result_json env r # rs))])"
  from search_output_ok [OF this] have "hit_ok (result_json env r)" by (auto simp: dict_get_def)
  then show False
    by (simp add: hit_ok_def result_json_def provenance_json_def dict_get_def is_string_def)
qed

text \<open>
  The limit is shared: a call is counted in the bucket of the endpoint with the name of the tool.  The
  checker here is the limiter of the gateway behind the interface that the server expects.
\<close>

definition bucket_checker :: "int \<Rightarrow> rat \<Rightarrow> string option \<Rightarrow> string \<Rightarrow> ((string, redis_hash) dict, bool \<times> int option) effect" where
  "bucket_checker limit now tenant endpoint store =
     (case check_rate_limit limit store now (case tenant of Some t \<Rightarrow> t | None \<Rightarrow> ''None'') endpoint None of
        (r, store') \<Rightarrow> (Inr (rl_allowed r, rl_retry_after r), store'))"

lemma tool_endpoints: "dict_get tool_definitions tool \<noteq> None \<Longrightarrow> tool_endpoint tool = ''/v1/'' @ tool"
  by (auto simp: tool_definitions_def tool_endpoint_def endpoint_map_def dict_get_def split: if_splits)

lemma mcp_shares_bucket:
  assumes "ms_rate sv = Some (bucket_checker limit now)" and "dict_get tool_definitions tool \<noteq> None"
  shows "snd (mcp_check_rate_limit sv (Some t) tool store) = snd (check_rate_limit limit store now t (''/v1/'' @ tool) None)
    \<and> (fst (mcp_check_rate_limit sv (Some t) tool store) = Inr None
       \<longleftrightarrow> rl_allowed (fst (check_rate_limit limit store now t (''/v1/'' @ tool) None)))"
  using assms(1) by (simp add: mcp_check_rate_limit_def tool_endpoints [OF assms(2)] bucket_checker_def split_beta)

end
