(* ===== verification/WebSocket.thy ===== *)
theory WebSocket
  imports Sse
begin

text \<open>
  Answers over a WebSocket: \<open>backend/api_gateway/websocket.py\<close>.

  Three tasks share a handler: the one that sends the events of the answer, the one that listens for a
  cancel message, and the one that waits for the first of them to finish.  A task runs until it awaits; an
  action below is what one task does between two awaits, so a run is an interleaving of the tasks
  with what the client and the transport do.
\<close>

section \<open>Authentication\<close>

record ws_auth_result =
  wa_authenticated :: bool
  wa_tenant :: "string option"
  wa_key :: "string option"
  wa_error :: "string option"

text \<open>A message of the client: none before the timeout, a text with the JSON value it holds, or a disconnect.\<close>

datatype ws_message = Silence | Heard "json option" | Disconnected

datatype ws_greeting = Attempted ws_auth_result "int option" | Crashed

definition auth_refusal :: "string \<Rightarrow> ws_auth_result" where
  "auth_refusal message = \<lparr>wa_authenticated = False, wa_tenant = None, wa_key = None, wa_error = Some message\<rparr>"

definition message_token :: "(string, json) dict \<Rightarrow> json" where
  "message_token msg = (let token = json_get msg ''token'' JNull
     in if json_truthy token then token else json_get msg ''authorization'' JNull)"

definition without_bearer :: "string \<Rightarrow> string" where
  "without_bearer token = (if take 7 (py_lower token) = ''bearer '' then drop 7 token else token)"

text \<open>
  \<open>accept_and_authenticate\<close>: the result with the code the connection is closed with, or an
  \<open>AttributeError\<close>, on a message that is no object and on a token that is no string.
\<close>

definition check_token :: "(string \<Rightarrow> ws_auth_result) \<Rightarrow> json \<Rightarrow> ws_greeting" where
  "check_token service token =
     (if \<not> json_truthy token then Attempted (auth_refusal ''No token provided'') (Some 4001)
      else case token of
          JStr s \<Rightarrow> (let r = service (without_bearer s) in Attempted r (if wa_authenticated r then None else Some 4001))
        | _ \<Rightarrow> Crashed)"

definition accept_and_authenticate :: "(string \<Rightarrow> ws_auth_result) \<Rightarrow> string option \<Rightarrow> ws_message \<Rightarrow> ws_greeting" where
  "accept_and_authenticate service query_token first =
     (case query_token of
        Some (c # s) \<Rightarrow> check_token service (JStr (c # s))
      | _ \<Rightarrow> (case first of
            Heard (Some (JObj msg)) \<Rightarrow> check_token service (message_token msg)
          | Heard (Some j) \<Rightarrow> Crashed
          | _ \<Rightarrow> Attempted (auth_refusal ''Authentication timeout or invalid message'') (Some 4001)))"

section \<open>Events\<close>

record ws_event =
  we_event :: string
  we_data :: "json option"
  we_id :: "string option"

definition ws_frame :: "ws_event \<Rightarrow> json" where
  "ws_frame e = JObj ([(''event'', JStr (we_event e))]
     @ (case we_data e of None \<Rightarrow> [] | Some d \<Rightarrow> [(''data'', d)])
     @ (case we_id e of None \<Rightarrow> [] | Some i \<Rightarrow> [(''id'', JStr i)]))"

definition ws_to_json :: "(rat \<Rightarrow> string) \<Rightarrow> ws_event \<Rightarrow> string" where
  "ws_to_json fl e = json_dumps fl (ws_frame e)"

definition cancelled_event :: ws_event where
  "cancelled_event = \<lparr>we_event = ''cancelled'', we_data = None, we_id = None\<rparr>"

definition terminal :: "ws_event \<Rightarrow> bool" where
  "terminal e \<longleftrightarrow> we_event e = ''done'' \<or> we_event e = ''error''"

section \<open>The tasks\<close>

text \<open>
  Where the sender is: waiting for the generator, in \<open>send_text\<close> with a frame that the transport has taken,
  in \<open>close\<close> after a terminal event, or finished, with the generator closed.
\<close>

datatype sender = Pulling | Sending ws_event | Closing | Stopped

datatype listener = Listening | Heard_cancel | Left | Failed | Ended

record ws_state =
  ws_left :: "ws_event list"
  ws_sent :: "ws_event list"
  ws_closed :: bool
  ws_cancelled :: bool
  ws_sender :: sender
  ws_listener :: listener
  ws_codes :: "int list"
  ws_returned :: bool

definition ws_start :: "ws_event list \<Rightarrow> ws_state" where
  "ws_start es = \<lparr>ws_left = es, ws_sent = [], ws_closed = False, ws_cancelled = False, ws_sender = Pulling,
     ws_listener = Listening, ws_codes = [], ws_returned = False\<rparr>"

text \<open>\<open>listen_for_cancel\<close>: one turn of its loop.\<close>

definition hear :: "ws_message \<Rightarrow> ws_state \<Rightarrow> ws_state" where
  "hear m w =
     (let again = w\<lparr>ws_listener := if ws_closed w then Ended else Listening\<rparr> in
      case m of
        Silence \<Rightarrow> again
      | Disconnected \<Rightarrow> w\<lparr>ws_closed := True, ws_listener := Left\<rparr>
      | Heard None \<Rightarrow> again
      | Heard (Some (JObj msg)) \<Rightarrow>
          if json_get msg ''action'' JNull = JStr ''cancel''
          then w\<lparr>ws_cancelled := True, ws_listener := Heard_cancel\<rparr> else again
      | Heard (Some j) \<Rightarrow> w\<lparr>ws_listener := Failed\<rparr>)"

text \<open>
  The rest of \<open>ws_answer_handler\<close> once a task has finished; \<open>ok\<close> says whether the cancelled frame gets out.
  Pending tasks are cancelled, which closes the generator.
\<close>

definition wake :: "bool \<Rightarrow> ws_state \<Rightarrow> ws_state" where
  "wake ok w =
     (let w = (if ws_cancelled w
               then w\<lparr>ws_sent := (if ws_closed w \<or> \<not> ok then ws_sent w else ws_sent w @ [cancelled_event]),
                      ws_closed := True, ws_codes := ws_codes w @ [1000]\<rparr>
               else if ws_sender w = Stopped then w\<lparr>ws_closed := True, ws_codes := ws_codes w @ [1000]\<rparr>
               else w)
      in w\<lparr>ws_sender := Stopped, ws_listener := (if ws_listener w = Listening then Ended else ws_listener w),
           ws_returned := True\<rparr>)"

datatype ws_action =
    Deliver
  | Send_fails
  | Resume
  | Exhaust
  | Hear ws_message
  | Wake bool

text \<open>
  The actions.  The generator yields an event, which is sent, dropped or lost with the connection; the
  sender goes on after its await; the generator ends, by returning or by an exception, which the
  handler does not look at; the listener has a turn; the handler goes on after the first finished task.
\<close>

definition ws_exec :: "ws_action \<Rightarrow> ws_state \<Rightarrow> ws_state option" where
  "ws_exec a w =
     (if ws_returned w then None else
      case a of
        Deliver \<Rightarrow> (case (ws_sender w, ws_left w) of
            (Pulling, e # es) \<Rightarrow> Some
              (if ws_cancelled w \<or> ws_closed w then w\<lparr>ws_left := es, ws_sender := Stopped\<rparr>
               else w\<lparr>ws_left := es, ws_sent := ws_sent w @ [e], ws_sender := Sending e\<rparr>)
          | _ \<Rightarrow> None)
      | Send_fails \<Rightarrow> (case (ws_sender w, ws_left w) of
            (Pulling, e # es) \<Rightarrow>
              if ws_cancelled w \<or> ws_closed w then None
              else Some (w\<lparr>ws_left := es, ws_closed := True, ws_sender := Stopped\<rparr>)
          | _ \<Rightarrow> None)
      | Resume \<Rightarrow> (case ws_sender w of
            Sending e \<Rightarrow> Some (if terminal e then w\<lparr>ws_closed := True, ws_sender := Closing\<rparr> else w\<lparr>ws_sender := Pulling\<rparr>)
          | Closing \<Rightarrow> Some (w\<lparr>ws_codes := ws_codes w @ [1000], ws_sender := Stopped\<rparr>)
          | _ \<Rightarrow> None)
      | Exhaust \<Rightarrow> (case (ws_sender w, ws_left w) of (Pulling, []) \<Rightarrow> Some (w\<lparr>ws_sender := Stopped\<rparr>) | _ \<Rightarrow> None)
      | Hear m \<Rightarrow> if ws_listener w = Listening then Some (hear m w) else None
      | Wake ok \<Rightarrow> if ws_sender w = Stopped \<or> ws_listener w \<noteq> Listening then Some (wake ok w) else None)"

inductive ws_run :: "ws_state \<Rightarrow> ws_action list \<Rightarrow> ws_state \<Rightarrow> bool" where
  run_start: "ws_run w [] w"
| run_action: "ws_run w acts w' \<Longrightarrow> ws_exec a w' = Some w'' \<Longrightarrow> ws_run w (acts @ [a]) w''"

section \<open>Frames\<close>

fun upto_terminal :: "ws_event list \<Rightarrow> ws_event list" where
  "upto_terminal [] = []"
| "upto_terminal (e # es) = (if terminal e then [e] else e # upto_terminal es)"

abbreviation running :: "ws_event list \<Rightarrow> bool" where
  "running es \<equiv> list_all (\<lambda>e. \<not> terminal e) es"

lemma upto_running: "running pre \<Longrightarrow> upto_terminal (pre @ es) = pre @ upto_terminal es"
  by (induction pre) auto

lemma running_prefix: "running pre \<Longrightarrow> pre = take (length pre) (upto_terminal (pre @ rest))"
  by (simp add: upto_running)

lemma last_prefix: "running pre \<Longrightarrow> pre @ [e] = take (Suc (length pre)) (upto_terminal (pre @ e # rest))"
  by (simp add: upto_running)

text \<open>What was delivered is a beginning of the answer up to its first terminal event.\<close>

definition delivered :: "ws_event list \<Rightarrow> ws_event list \<Rightarrow> bool" where
  "delivered es sent \<longleftrightarrow> (\<exists>n. sent = take n (upto_terminal es))"

lemma delivered_running: "es = pre @ rest \<Longrightarrow> running pre \<Longrightarrow> delivered es pre"
  unfolding delivered_def using running_prefix by blast

lemma delivered_last: "es = pre @ e # rest \<Longrightarrow> running pre \<Longrightarrow> delivered es (pre @ [e])"
  unfolding delivered_def using last_prefix by blast

definition ws_inv :: "ws_event list \<Rightarrow> ws_state \<Rightarrow> bool" where
  "ws_inv es w \<longleftrightarrow>
     (if ws_returned w
      then delivered es (ws_sent w) \<or> (ws_cancelled w \<and> (\<exists>pre. ws_sent w = pre @ [cancelled_event] \<and> delivered es pre))
      else (case ws_sender w of
          Pulling \<Rightarrow> es = ws_sent w @ ws_left w \<and> running (ws_sent w)
        | Sending e \<Rightarrow> (\<exists>pre. ws_sent w = pre @ [e] \<and> es = pre @ e # ws_left w \<and> running pre)
        | Closing \<Rightarrow> ws_closed w \<and> delivered es (ws_sent w)
        | Stopped \<Rightarrow> delivered es (ws_sent w)))
   \<and> (ws_cancelled w \<longrightarrow> ws_listener w = Heard_cancel)"

lemma inv_start: "ws_inv es (ws_start es)"
  by (simp add: ws_inv_def ws_start_def)

lemma inv_delivered: "ws_inv es w \<Longrightarrow> \<not> ws_returned w \<Longrightarrow> delivered es (ws_sent w)"
  by (auto simp: ws_inv_def intro: delivered_running delivered_last split: sender.splits)

lemma hear_keeps:
  "ws_sent (hear m w) = ws_sent w" "ws_left (hear m w) = ws_left w" "ws_sender (hear m w) = ws_sender w"
  "ws_returned (hear m w) = ws_returned w" "ws_closed w \<Longrightarrow> ws_closed (hear m w)" "ws_codes (hear m w) = ws_codes w"
  by (auto simp: hear_def Let_def split: ws_message.split option.split json.split)

lemma hear_cancelled: "ws_cancelled (hear m w) \<Longrightarrow> \<not> ws_cancelled w \<Longrightarrow> ws_listener (hear m w) = Heard_cancel"
  by (auto simp: hear_def Let_def split: ws_message.splits option.splits json.splits if_splits)

lemma inv_hear:
  assumes "ws_inv es w" and "ws_listener w = Listening" and "\<not> ws_returned w"
  shows "ws_inv es (hear m w)"
proof -
  have "\<not> ws_cancelled w" using assms(1,2) by (auto simp: ws_inv_def)
  with hear_cancelled have "ws_cancelled (hear m w) \<longrightarrow> ws_listener (hear m w) = Heard_cancel" by blast
  with assms show ?thesis by (auto simp: ws_inv_def hear_keeps split: sender.splits)
qed

lemma inv_wake: "ws_inv es w \<Longrightarrow> \<not> ws_returned w \<Longrightarrow> ws_inv es (wake ok w)"
  using inv_delivered [of es w] by (auto simp: ws_inv_def wake_def Let_def)

lemma inv_exec:
  assumes inv: "ws_inv es w" and exec: "ws_exec a w = Some w'"
  shows "ws_inv es w'"
proof -
  have run: "\<not> ws_returned w" using exec by (auto simp: ws_exec_def split: if_splits)
  note d = inv_delivered [OF inv run]
  show ?thesis
  proof (cases a)
    case Deliver
    with exec run inv d show ?thesis
      by (auto simp: ws_exec_def ws_inv_def split: sender.splits list.splits if_splits)
  next
    case Send_fails
    with exec run inv d show ?thesis
      by (auto simp: ws_exec_def ws_inv_def split: sender.splits list.splits if_splits)
  next
    case Resume
    with exec run inv d show ?thesis
      by (auto simp: ws_exec_def ws_inv_def split: sender.splits if_splits)
  next
    case Exhaust
    with exec run inv d show ?thesis
      by (auto simp: ws_exec_def ws_inv_def split: sender.splits list.splits)
  next
    case (Hear m)
    with exec run inv inv_hear show ?thesis by (auto simp: ws_exec_def split: if_splits)
  next
    case (Wake ok)
    with exec run inv inv_wake show ?thesis by (auto simp: ws_exec_def split: if_splits)
  qed
qed

lemma run_inv: "ws_run w acts w' \<Longrightarrow> ws_inv es w \<Longrightarrow> ws_inv es w'"
  by (induction rule: ws_run.induct) (auto intro: inv_exec)

text \<open>After a cancel message was heard the answer goes on with nothing but the cancelled event.\<close>

lemma cancelled_exec:
  assumes "ws_exec a w = Some w'" and "ws_cancelled w" and "ws_listener w = Heard_cancel"
  shows "ws_cancelled w' \<and> ws_listener w' = Heard_cancel
    \<and> (ws_sent w' = ws_sent w \<or> (ws_sent w' = ws_sent w @ [cancelled_event] \<and> ws_returned w'))"
  using assms
  by (auto simp: ws_exec_def wake_def Let_def split: ws_action.splits sender.splits list.splits if_splits)

lemma returned_exec: "ws_returned w \<Longrightarrow> ws_exec a w = None"
  by (simp add: ws_exec_def)

lemma cancelled_run:
  "ws_run w acts w' \<Longrightarrow> ws_cancelled w \<Longrightarrow> ws_listener w = Heard_cancel \<Longrightarrow>
     ws_cancelled w' \<and> ws_listener w' = Heard_cancel
     \<and> (ws_sent w' = ws_sent w \<or> (ws_sent w' = ws_sent w @ [cancelled_event] \<and> ws_returned w'))"
proof (induction rule: ws_run.induct)
  case (run_start w)
  then show ?case by simp
next
  case (run_action w acts w' a w'')
  have "\<not> ws_returned w'" using returned_exec run_action(2) by fastforce
  with run_action cancelled_exec [OF run_action(2)] show ?case by auto
qed


section \<open>Runs end, and complete answers\<close>

text \<open>An action that changes nothing is a turn of the listener on which nothing of interest was heard.\<close>

definition sender_rank :: "sender \<Rightarrow> nat" where
  "sender_rank s = (case s of Pulling \<Rightarrow> 1 | Sending e \<Rightarrow> 3 | Closing \<Rightarrow> 2 | Stopped \<Rightarrow> 0)"

definition ws_rank :: "ws_state \<Rightarrow> nat" where
  "ws_rank w = 3 * length (ws_left w) + sender_rank (ws_sender w) + (if ws_listener w = Listening then 1 else 0)
     + (if ws_returned w then 0 else 1)"

lemma still_listening: "ws_listener w = Listening \<Longrightarrow> w\<lparr>ws_listener := Listening\<rparr> = w"
  by (cases w) simp

lemma hear_result:
  "hear m w \<in> {w\<lparr>ws_listener := if ws_closed w then Ended else Listening\<rparr>, w\<lparr>ws_closed := True, ws_listener := Left\<rparr>,
     w\<lparr>ws_cancelled := True, ws_listener := Heard_cancel\<rparr>, w\<lparr>ws_listener := Failed\<rparr>}"
  by (simp add: hear_def Let_def split: ws_message.split option.split json.split)

lemma hear_rank:
  assumes "ws_listener w = Listening"
  shows "hear m w = w \<or> ws_rank (hear m w) < ws_rank w"
  using hear_result [of m w] assms still_listening [OF assms]
  by (cases "ws_closed w") (auto simp: ws_rank_def)

lemma wake_rank: "\<not> ws_returned w \<Longrightarrow> ws_rank (wake ok w) < ws_rank w"
  by (simp add: wake_def ws_rank_def sender_rank_def Let_def)

lemma exec_rank:
  assumes "ws_exec a w = Some w'"
  shows "w' = w \<or> ws_rank w' < ws_rank w"
proof (cases a)
  case Deliver
  with assms show ?thesis
    by (auto simp: ws_exec_def ws_rank_def sender_rank_def split: sender.splits list.splits if_splits)
next
  case Send_fails
  with assms show ?thesis
    by (auto simp: ws_exec_def ws_rank_def sender_rank_def split: sender.splits list.splits if_splits)
next
  case Resume
  with assms show ?thesis
    by (auto simp: ws_exec_def ws_rank_def sender_rank_def split: sender.splits if_splits)
next
  case Exhaust
  with assms show ?thesis
    by (auto simp: ws_exec_def ws_rank_def sender_rank_def split: sender.splits list.splits if_splits)
next
  case (Hear m)
  with assms hear_rank [of w m] show ?thesis by (auto simp: ws_exec_def split: if_splits)
next
  case (Wake ok)
  with assms wake_rank [of w ok] show ?thesis by (auto simp: ws_exec_def split: if_splits)
qed

fun changes :: "ws_state \<Rightarrow> ws_action list \<Rightarrow> nat" where
  "changes w [] = 0"
| "changes w (a # as) = (case ws_exec a w of None \<Rightarrow> 0 | Some w' \<Rightarrow> (if w' = w then 0 else 1) + changes w' as)"

lemma changes_rank: "changes w acts \<le> ws_rank w"
proof (induction acts arbitrary: w)
  case Nil
  then show ?case by simp
next
  case (Cons a as)
  show ?case
  proof (cases "ws_exec a w")
    case None
    then show ?thesis by simp
  next
    case (Some w')
    with exec_rank [OF Some] Cons [of w'] show ?thesis by auto
  qed
qed

text \<open>Until the handler returns, some task can go on, whatever the client does.\<close>

lemma exec_progress:
  "\<not> ws_returned w \<Longrightarrow> \<exists>a w'. a \<in> {Deliver, Resume, Exhaust, Wake True} \<and> ws_exec a w = Some w' \<and> w' \<noteq> w"
proof (cases "ws_sender w")
  case Pulling
  assume "\<not> ws_returned w"
  with Pulling show ?thesis
  proof (cases "ws_left w")
    case Nil
    with Pulling \<open>\<not> ws_returned w\<close> have "ws_exec Exhaust w = Some (w\<lparr>ws_sender := Stopped\<rparr>)" by (simp add: ws_exec_def)
    moreover have "w\<lparr>ws_sender := Stopped\<rparr> \<noteq> w" using Pulling by (metis sender.distinct(5) ws_state.select_convs(5) ws_state.surjective ws_state.update_convs(5))
    ultimately show ?thesis by blast
  next
    case (Cons e es)
    with Pulling \<open>\<not> ws_returned w\<close> obtain w' where "ws_exec Deliver w = Some w'" "ws_left w' = es"
      by (cases "ws_cancelled w \<or> ws_closed w") (auto simp: ws_exec_def)
    moreover from this Cons have "w' \<noteq> w" by auto
    ultimately show ?thesis by blast
  qed
next
  case (Sending e)
  assume "\<not> ws_returned w"
  with Sending obtain w' where "ws_exec Resume w = Some w'" "ws_sender w' \<noteq> Sending e"
    by (cases "terminal e") (auto simp: ws_exec_def)
  with Sending show ?thesis by fastforce
next
  case Closing
  assume "\<not> ws_returned w"
  with Closing obtain w' where "ws_exec Resume w = Some w'" "ws_sender w' = Stopped" by (auto simp: ws_exec_def)
  with Closing show ?thesis by fastforce
next
  case Stopped
  assume "\<not> ws_returned w"
  with Stopped obtain w' where "ws_exec (Wake True) w = Some w'" "ws_returned w'" by (auto simp: ws_exec_def wake_def Let_def)
  with \<open>\<not> ws_returned w\<close> show ?thesis by fastforce
qed

text \<open>A run without interference: no send fails, and nothing is heard that ends the listener.\<close>

definition harmless :: "ws_action \<Rightarrow> bool" where
  "harmless a = (case a of
     Send_fails \<Rightarrow> False
   | Hear Disconnected \<Rightarrow> False
   | Hear (Heard (Some (JObj msg))) \<Rightarrow> json_get msg ''action'' JNull \<noteq> JStr ''cancel''
   | Hear (Heard (Some j)) \<Rightarrow> False
   | _ \<Rightarrow> True)"

definition calm_inv :: "ws_event list \<Rightarrow> ws_state \<Rightarrow> bool" where
  "calm_inv es w \<longleftrightarrow> \<not> ws_cancelled w \<and> ws_listener w \<in> {Listening, Ended} \<and> set (ws_codes w) \<subseteq> {1000}
     \<and> (case ws_sender w of
          Pulling \<Rightarrow> \<not> ws_closed w \<and> es = ws_sent w @ ws_left w \<and> running (ws_sent w)
        | Sending e \<Rightarrow> \<not> ws_closed w \<and> (\<exists>pre. ws_sent w = pre @ [e] \<and> es = pre @ e # ws_left w \<and> running pre)
        | _ \<Rightarrow> ws_sent w = upto_terminal es)
     \<and> (ws_listener w = Ended \<longrightarrow> ws_closed w) \<and> (ws_sender w = Closing \<longrightarrow> ws_closed w)
     \<and> (ws_returned w \<longrightarrow> ws_closed w \<and> ws_sender w = Stopped)"

lemma calm_start: "calm_inv es (ws_start es)"
  by (simp add: calm_inv_def ws_start_def)

lemma calm_hear: "harmless (Hear m) \<Longrightarrow> hear m w = w\<lparr>ws_listener := if ws_closed w then Ended else Listening\<rparr>"
  by (auto simp: harmless_def hear_def Let_def split: ws_message.splits option.splits json.splits)

lemma calm_exec:
  assumes inv: "calm_inv es w" and exec: "ws_exec a w = Some w'" and calm: "harmless a"
  shows "calm_inv es w'"
proof -
  have run: "\<not> ws_returned w" using exec by (auto simp: ws_exec_def split: if_splits)
  show ?thesis
  proof (cases a)
    case Deliver
    with exec run inv show ?thesis
      by (auto simp: ws_exec_def calm_inv_def split: sender.splits list.splits if_splits)
  next
    case Send_fails
    with calm show ?thesis by (simp add: harmless_def)
  next
    case Resume
    with exec run inv show ?thesis
      by (auto simp: ws_exec_def calm_inv_def upto_running split: sender.splits if_splits)
  next
    case Exhaust
    with exec run inv show ?thesis
      using upto_running [of "ws_sent w" "[]"]
      by (auto simp: ws_exec_def calm_inv_def split: sender.splits list.splits)
  next
    case (Hear m)
    with exec run inv calm_hear [of m w] calm show ?thesis
      by (auto simp: ws_exec_def calm_inv_def split: if_splits sender.splits)
  next
    case (Wake ok)
    with exec run inv show ?thesis
      by (auto simp: ws_exec_def wake_def Let_def calm_inv_def split: if_splits sender.splits)
  qed
qed

lemma calm_run: "ws_run w acts w' \<Longrightarrow> calm_inv es w \<Longrightarrow> list_all harmless acts \<Longrightarrow> calm_inv es w'"
  by (induction rule: ws_run.induct) (auto intro: calm_exec)


section \<open>Examples\<close>

definition token_event :: ws_event where
  "token_event = \<lparr>we_event = ''token'', we_data = Some (JObj [(''text'', JStr ''hi'')]), we_id = Some ''1''\<rparr>"

definition done_event :: ws_event where
  "done_event = \<lparr>we_event = ''done'', we_data = Some (JObj []), we_id = Some ''2''\<rparr>"

definition cancel_message :: ws_message where
  "cancel_message = Heard (Some (JObj [(''action'', JStr ''cancel'')]))"

fun ws_execs :: "ws_action list \<Rightarrow> ws_state \<Rightarrow> ws_state option" where
  "ws_execs [] w = Some w"
| "ws_execs (a # as) w = Option.bind (ws_exec a w) (ws_execs as)"

lemma ws_run_trans: "ws_run w' acts' w'' \<Longrightarrow> ws_run w acts w' \<Longrightarrow> ws_run w (acts @ acts') w''"
  by (induction rule: ws_run.induct) (auto simp flip: append_assoc intro: ws_run.intros)

lemma ws_run_execs: "ws_execs acts w = Some w' \<Longrightarrow> ws_run w acts w'"
proof (induction acts arbitrary: w)
  case Nil
  then show ?case by (simp add: run_start)
next
  case (Cons a as)
  then obtain v where v: "ws_exec a w = Some v" "ws_execs as v = Some w'" by (cases "ws_exec a w") auto
  have "ws_run w [a] v" using run_action [OF run_start v(1)] by simp
  from ws_run_trans [OF Cons.IH [OF v(2)] this] show ?case by simp
qed

definition calm_acts :: "ws_action list" where
  "calm_acts = [Deliver, Hear Silence, Resume, Deliver, Resume, Resume, Wake True]"

definition calm_result :: ws_state where
  "calm_result = \<lparr>ws_left = [], ws_sent = [token_event, done_event], ws_closed = True, ws_cancelled = False,
     ws_sender = Stopped, ws_listener = Ended, ws_codes = [1000, 1000], ws_returned = True\<rparr>"

lemma calm_example: "ws_execs calm_acts (ws_start [token_event, done_event]) = Some calm_result"
  by (simp add: calm_acts_def calm_result_def ws_start_def ws_exec_def hear_def wake_def terminal_def token_event_def done_event_def)


definition cancelled_midway :: ws_state where
  "cancelled_midway = \<lparr>ws_left = [done_event], ws_sent = [token_event], ws_closed = False, ws_cancelled = True,
     ws_sender = Sending token_event, ws_listener = Heard_cancel, ws_codes = [], ws_returned = False\<rparr>"

definition cancelled_at_end :: ws_state where
  "cancelled_at_end = cancelled_midway\<lparr>ws_sent := [token_event, cancelled_event], ws_closed := True, ws_sender := Stopped,
     ws_codes := [1000], ws_returned := True\<rparr>"


text \<open>
  A cancel message that comes while the done frame is still being sent: the client receives a
  cancelled event after the terminal one.
\<close>

lemma cancelled_after_done:
  "case ws_execs [Deliver, Hear cancel_message, Wake True] (ws_start [done_event]) of
     Some w \<Rightarrow> ws_sent w = [done_event, cancelled_event] | None \<Rightarrow> False"
  by (simp add: ws_start_def ws_exec_def hear_def wake_def cancel_message_def json_get_def dict_get_def)

text \<open>
  A message that is no JSON object ends the listener with an exception: the answer is cut off, without an
  event and without closing the connection.
\<close>

lemma non_object_cuts_answer:
  "case ws_execs [Deliver, Resume, Hear (Heard (Some (JList []))), Wake True] (ws_start [token_event, done_event]) of
     Some w \<Rightarrow> ws_returned w \<and> ws_sent w = [token_event] \<and> \<not> ws_closed w \<and> ws_codes w = [] | None \<Rightarrow> False"
  by (simp add: ws_start_def ws_exec_def hear_def wake_def terminal_def token_event_def)

text \<open>The same before authentication: neither a result nor the code 4001.\<close>

lemma non_object_greeting: "accept_and_authenticate service None (Heard (Some (JList []))) = Crashed"
  by (simp add: accept_and_authenticate_def)

text \<open>A generator that ends early, also by an exception, ends the stream normally and without an error event.\<close>

lemma failure_not_reported:
  "case ws_execs [Deliver, Resume, Exhaust, Wake True] (ws_start [token_event]) of
     Some w \<Rightarrow> ws_sent w = [token_event] \<and> ws_codes w = [1000] \<and> ws_returned w | None \<Rightarrow> False"
  by (simp add: ws_start_def ws_exec_def wake_def terminal_def token_event_def)

end
