(* ===== verification/ObjectStore.thy ===== *)
theory ObjectStore
  imports Interfaces Sse "HOL-Library.List_Lexorder"
begin

text \<open>
  The object store of cleaned text (\<open>storage/object_store.py\<close>): the keys it builds and parses, and the
  four operations it performs on an S3 bucket.  The S3 service is a parameter, \<open>s3_client\<close>: each call is
  a function of the state of the service.  \<open>s3_ok\<close> states what the service documents of these calls;
  it is a hypothesis of the theorems that rest on the service, and \<open>memory_s3\<close> is an implementation that
  satisfies it.  The continuation of a listing, which the paginator of the client library handles, is a
  key: the next page starts after it.
\<close>

section \<open>Keys and addresses\<close>

datatype store_error =
    EmptyDocumentId
  | VersionTooSmall
  | WrongSegments nat
  | WrongFilename string
  | EmptyDocumentSegment
  | VersionNotInteger string
  | VersionSegmentTooSmall int
  | InvalidUri string
  | EmptyTenant
  | ClientUnavailable
  | ObjectNotFound string
  | ClientError string
  | UndecodableBody

definition global_prefix :: string where
  "global_prefix = ''_global''"

definition cleaned_filename :: string where
  "cleaned_filename = ''cleaned.txt''"

definition build_key :: "string option \<Rightarrow> string \<Rightarrow> int \<Rightarrow> store_error + string" where
  "build_key tenant doc version =
     (if doc = [] then Inl EmptyDocumentId
      else if version < 1 then Inl VersionTooSmall
      else let prefix = (case tenant of Some t \<Rightarrow> t | None \<Rightarrow> global_prefix)
           in Inr (prefix @ ''/'' @ doc @ ''/'' @ str_int version @ ''/'' @ cleaned_filename))"

definition parse_key :: "string \<Rightarrow> store_error + (string option \<times> string \<times> int)" where
  "parse_key key =
     (case split_on CHR ''/'' key of
        [prefix, doc, version_str, filename] \<Rightarrow>
          (if filename \<noteq> cleaned_filename then Inl (WrongFilename filename)
           else if doc = [] then Inl EmptyDocumentSegment
           else (case py_int version_str of
                   None \<Rightarrow> Inl (VersionNotInteger version_str)
                 | Some version \<Rightarrow>
                     if version < 1 then Inl (VersionSegmentTooSmall version)
                     else Inr (if prefix = global_prefix then None else Some prefix, doc, version)))
      | parts \<Rightarrow> Inl (WrongSegments (length parts)))"

record object_store =
  ob_bucket :: string
  ob_connected :: bool

definition uri_prefix :: "object_store \<Rightarrow> string" where
  "uri_prefix st = ''s3://'' @ ob_bucket st @ ''/''"

definition build_uri :: "object_store \<Rightarrow> string \<Rightarrow> string" where
  "build_uri st key = uri_prefix st @ key"

definition parse_uri :: "object_store \<Rightarrow> string \<Rightarrow> store_error + string" where
  "parse_uri st uri =
     (if \<not> starts_with uri (uri_prefix st) then Inl (InvalidUri uri)
      else Inr (drop (length (uri_prefix st)) uri))"

section \<open>UTF-8\<close>

text \<open>
  \<open>encode('utf-8')\<close> on characters below 256, and \<open>decode\<close>: \<open>None\<close> is an undecodable body, or one with a
  character beyond the model.
\<close>

type_synonym bytes = "nat list"

definition encode_char :: "char \<Rightarrow> bytes" where
  "encode_char c = (if cp c < 128 then [cp c] else [192 + cp c div 64, 128 + cp c mod 64])"

definition utf8_encode :: "string \<Rightarrow> bytes" where
  "utf8_encode s = concat (map encode_char s)"

fun utf8_decode :: "bytes \<Rightarrow> string option" where
  "utf8_decode [] = Some []"
| "utf8_decode (b # bs) =
     (if b < 128 then map_option (\<lambda>s. char_of b # s) (utf8_decode bs)
      else if b = 194 \<or> b = 195 then
        (case bs of
           [] \<Rightarrow> None
         | d # ds \<Rightarrow> if 128 \<le> d \<and> d < 192 then map_option (\<lambda>s. char_of (64 * (b - 192) + (d - 128)) # s) (utf8_decode ds)
                     else None)
      else None)"

section \<open>The S3 service\<close>

text \<open>A call fails with the code of its \<open>ClientError\<close>.  A page of a listing is its keys and its continuation.\<close>

record 's s3_client =
  sc_opens :: bool
  sc_put :: "'s \<Rightarrow> string \<Rightarrow> string \<Rightarrow> bytes \<Rightarrow> string + 's"
  sc_get :: "'s \<Rightarrow> string \<Rightarrow> string \<Rightarrow> string + bytes"
  sc_head :: "'s \<Rightarrow> string \<Rightarrow> string \<Rightarrow> string option"
  sc_page :: "'s \<Rightarrow> string \<Rightarrow> string \<Rightarrow> string option \<Rightarrow> string + (string list \<times> string option)"
  sc_delete :: "'s \<Rightarrow> string \<Rightarrow> string list \<Rightarrow> string + 's"

definition get_client :: "'s s3_client \<Rightarrow> object_store \<Rightarrow> store_error + object_store" where
  "get_client c st =
     (if ob_connected st then Inr st
      else if sc_opens c then Inr (st\<lparr>ob_connected := True\<rparr>) else Inl ClientUnavailable)"

section \<open>Operations\<close>

definition put_cleaned_text ::
  "'s s3_client \<Rightarrow> object_store \<Rightarrow> 's \<Rightarrow> string option \<Rightarrow> string \<Rightarrow> int \<Rightarrow> string
    \<Rightarrow> (store_error + string) \<times> object_store \<times> 's" where
  "put_cleaned_text c st s tenant doc version content =
     (case build_key tenant doc version of
        Inl e \<Rightarrow> (Inl e, st, s)
      | Inr key \<Rightarrow>
          (case get_client c st of
             Inl e \<Rightarrow> (Inl e, st, s)
           | Inr st' \<Rightarrow>
               (case sc_put c s (ob_bucket st') key (utf8_encode content) of
                  Inl e \<Rightarrow> (Inl (ClientError e), st', s)
                | Inr s' \<Rightarrow> (Inr (build_uri st' key), st', s'))))"

definition get_cleaned_text ::
  "'s s3_client \<Rightarrow> object_store \<Rightarrow> 's \<Rightarrow> string \<Rightarrow> (store_error + string) \<times> object_store" where
  "get_cleaned_text c st s uri =
     (case parse_uri st uri of
        Inl e \<Rightarrow> (Inl e, st)
      | Inr key \<Rightarrow>
          (case get_client c st of
             Inl e \<Rightarrow> (Inl e, st)
           | Inr st' \<Rightarrow>
               ((case sc_get c s (ob_bucket st') key of
                   Inr body \<Rightarrow> (case utf8_decode body of Some t \<Rightarrow> Inr t | None \<Rightarrow> Inl UndecodableBody)
                 | Inl e \<Rightarrow> if e = ''NoSuchKey'' then Inl (ObjectNotFound uri) else Inl (ClientError e)), st')))"

definition object_exists ::
  "'s s3_client \<Rightarrow> object_store \<Rightarrow> 's \<Rightarrow> string option \<Rightarrow> string \<Rightarrow> int \<Rightarrow> (store_error + bool) \<times> object_store" where
  "object_exists c st s tenant doc version =
     (case build_key tenant doc version of
        Inl e \<Rightarrow> (Inl e, st)
      | Inr key \<Rightarrow>
          (case get_client c st of
             Inl e \<Rightarrow> (Inl e, st)
           | Inr st' \<Rightarrow>
               ((case sc_head c s (ob_bucket st') key of
                   None \<Rightarrow> Inr True
                 | Some e \<Rightarrow> if e = ''404'' \<or> e = ''NoSuchKey'' then Inr False else Inl (ClientError e)), st')))"

text \<open>
  The loop over the pages, which may never end: \<open>None\<close>.  The keys of a page are deleted before the next
  page is asked for, and counted whether or not the service deletes them.
\<close>

partial_function (option) delete_pages ::
  "'s s3_client \<Rightarrow> string \<Rightarrow> string \<Rightarrow> string option \<Rightarrow> nat \<Rightarrow> 's \<Rightarrow> ((store_error + nat) \<times> 's) option" where
  "delete_pages c bucket prefix after n s =
     (case sc_page c s bucket prefix after of
        Inl e \<Rightarrow> Some (Inl (ClientError e), s)
      | Inr (keys, continuation) \<Rightarrow>
          (case (if keys = [] then Inr s else sc_delete c s bucket keys) of
             Inl e \<Rightarrow> Some (Inl (ClientError e), s)
           | Inr s' \<Rightarrow>
               (case continuation of
                  None \<Rightarrow> Some (Inr (n + length keys), s')
                | Some t \<Rightarrow> delete_pages c bucket prefix (Some t) (n + length keys) s')))"

definition delete_tenant_objects ::
  "'s s3_client \<Rightarrow> object_store \<Rightarrow> 's \<Rightarrow> string \<Rightarrow> ((store_error + nat) \<times> object_store \<times> 's) option" where
  "delete_tenant_objects c st s tenant =
     (if tenant = [] then Some (Inl EmptyTenant, st, s)
      else (case get_client c st of
              Inl e \<Rightarrow> Some (Inl e, st, s)
            | Inr st' \<Rightarrow>
                map_option (\<lambda>(r, s'). (r, st', s')) (delete_pages c (ob_bucket st') (tenant @ ''/'') None 0 s)))"

section \<open>What the service promises\<close>

text \<open>\<open>objects s b\<close> is the bucket \<open>b\<close> in state \<open>s\<close>.  A page is a prefix of the keys that are left, in order.\<close>

definition left_to_list :: "(string \<Rightarrow> bytes option) \<Rightarrow> string \<Rightarrow> string option \<Rightarrow> string list" where
  "left_to_list bucket prefix after =
     sorted_list_of_set {k \<in> dom bucket. starts_with k prefix \<and> (case after of None \<Rightarrow> True | Some a \<Rightarrow> a < k)}"

definition page_of :: "string list \<Rightarrow> string list \<times> string option \<Rightarrow> bool" where
  "page_of todo p =
     (\<exists>m > 0. fst p = take m todo \<and> snd p = (if length todo \<le> m then None else Some (last (take m todo))))"

definition s3_ok :: "'s s3_client \<Rightarrow> ('s \<Rightarrow> string \<Rightarrow> string \<Rightarrow> bytes option) \<Rightarrow> bool" where
  "s3_ok c objects =
     (sc_opens c
      \<and> (\<forall>s b k x. \<exists>s'. sc_put c s b k x = Inr s' \<and> objects s' = (objects s)(b := (objects s b)(k \<mapsto> x)))
      \<and> (\<forall>s b k. sc_get c s b k = (case objects s b k of Some x \<Rightarrow> Inr x | None \<Rightarrow> Inl ''NoSuchKey''))
      \<and> (\<forall>s b k. sc_head c s b k = (case objects s b k of Some x \<Rightarrow> None | None \<Rightarrow> Some ''404''))
      \<and> (\<forall>s b p a. finite (dom (objects s b)) \<longrightarrow> (\<exists>pg. sc_page c s b p a = Inr pg \<and> page_of (left_to_list (objects s b) p a) pg))
      \<and> (\<forall>s b ks. \<exists>s'. sc_delete c s b ks = Inr s' \<and> objects s' = (objects s)(b := (objects s b) |` (- set ks))))"

section \<open>Keys\<close>

lemma split_on_part: "c \<notin> set p \<Longrightarrow> split_on c (p @ c # r) = p # split_on c r"
  by (induction p) auto

lemma slash_not_digit: "CHR ''/'' \<notin> set (str_nat n)"
  using str_nat_digits [of "CHR ''/''" n] by (auto simp: ascii_digit_def cp_def)

lemma filename_facts: "CHR ''/'' \<notin> set cleaned_filename" "CHR ''/'' \<notin> set global_prefix"
  by (simp_all add: cleaned_filename_def global_prefix_def)

lemma build_key_eq:
  "doc \<noteq> [] \<Longrightarrow> 1 \<le> version \<Longrightarrow> build_key tenant doc version
     = Inr ((case tenant of Some t \<Rightarrow> t | None \<Rightarrow> global_prefix) @ CHR ''/'' # doc @ CHR ''/'' # str_nat (nat version) @ CHR ''/'' # cleaned_filename)"
  by (simp add: build_key_def str_int_def)

lemma build_key_cases: "build_key tenant doc version = Inr key \<longleftrightarrow>
    doc \<noteq> [] \<and> 1 \<le> version \<and> key = (case tenant of Some t \<Rightarrow> t | None \<Rightarrow> global_prefix) @ CHR ''/'' # doc @ CHR ''/'' # str_nat (nat version) @ CHR ''/'' # cleaned_filename"
  by (auto simp: build_key_def str_int_def Let_def)

definition plain_id :: "string \<Rightarrow> bool" where
  "plain_id s = (CHR ''/'' \<notin> set s)"

text \<open>What \<open>parse_key\<close> reads is what \<open>build_key\<close> wrote, for identifiers without a slash.\<close>

lemma parse_built:
  assumes "pred_option plain_id tenant" and "plain_id doc" and "build_key tenant doc version = Inr key"
  shows "parse_key key = Inr (if tenant = Some global_prefix then None else tenant, doc, version)"
proof -
  let ?p = "case tenant of Some t \<Rightarrow> t | None \<Rightarrow> global_prefix"
  have k: "doc \<noteq> []" "1 \<le> version" "key = ?p @ CHR ''/'' # doc @ CHR ''/'' # str_nat (nat version) @ CHR ''/'' # cleaned_filename"
    using assms(3) by (auto simp: build_key_cases)
  have "CHR ''/'' \<notin> set ?p" "CHR ''/'' \<notin> set doc"
    using assms(1,2) by (auto simp: plain_id_def filename_facts split: option.split)
  then have "split_on CHR ''/'' key = [?p, doc, str_nat (nat version), cleaned_filename]"
    by (simp add: k(3) split_on_part split_on_absent slash_not_digit filename_facts)
  then show ?thesis using k(1,2) by (auto simp: parse_key_def py_int_str_nat split: option.split)
qed

text \<open>A key that parses is the key built from what was read, up to the spelling of the version.\<close>

lemma build_parsed:
  assumes "parse_key key = Inr (tenant, doc, version)"
  shows "\<exists>v. py_int v = Some version \<and> 1 \<le> version \<and> doc \<noteq> [] \<and> tenant \<noteq> Some global_prefix
    \<and> key = (case tenant of Some t \<Rightarrow> t | None \<Rightarrow> global_prefix) @ CHR ''/'' # doc @ CHR ''/'' # v @ CHR ''/'' # cleaned_filename"
proof -
  obtain p v where s: "split_on CHR ''/'' key = [p, doc, v, cleaned_filename]" "doc \<noteq> []"
    "py_int v = Some version" "1 \<le> version" "tenant = (if p = global_prefix then None else Some p)"
    using assms by (auto simp: parse_key_def split: list.splits option.splits if_splits)
  have "key = join [CHR ''/''] [p, doc, v, cleaned_filename]"
    using join_split_on [of "CHR ''/''" key] s(1) by simp
  with s show ?thesis by (intro exI [of _ v]) (auto split: option.split)
qed

section \<open>UTF-8\<close>

lemma char_of_cp: "char_of (cp c) = c"
  by (simp add: cp_def)

lemma two_byte_lead: "128 \<le> n \<Longrightarrow> n < 256 \<Longrightarrow> n div 64 = 2 \<or> n div 64 = (3 :: nat)"
  by linarith

lemma decode_encode_char: "utf8_decode (encode_char c @ bs) = map_option (\<lambda>s. c # s) (utf8_decode bs)"
proof (cases "cp c < 128")
  case True
  then show ?thesis by (simp add: encode_char_def char_of_cp)
next
  case False
  obtain q r where q: "q = cp c div 64" and r: "r = cp c mod 64" by blast
  have "cp c < 256" by (rule cp_less)
  then have "q = 2 \<or> q = 3" unfolding q using two_byte_lead [of "cp c"] False by linarith
  moreover have "r < 64" unfolding r by (rule mod_less_divisor) simp
  moreover have "64 * q + r = cp c" unfolding q r by (rule mult_div_mod_eq)
  then have "char_of (64 * q + r) = c" by (simp only: char_of_cp)
  moreover have "encode_char c = [192 + q, 128 + r]" using False by (simp add: encode_char_def q r)
  ultimately show ?thesis by auto
qed

lemma decode_encode: "utf8_decode (utf8_encode s) = Some s"
proof (induction s)
  case Nil
  then show ?case by (simp add: utf8_encode_def)
next
  case (Cons c s)
  then show ?case by (simp add: utf8_encode_def decode_encode_char)
qed

section \<open>Reading what was written\<close>

lemma s3_put: "s3_ok c objects \<Longrightarrow> \<exists>s'. sc_put c s b k x = Inr s' \<and> objects s' = (objects s)(b := (objects s b)(k \<mapsto> x))"
  by (simp add: s3_ok_def)

lemma s3_get: "s3_ok c objects \<Longrightarrow> sc_get c s b k = (case objects s b k of Some x \<Rightarrow> Inr x | None \<Rightarrow> Inl ''NoSuchKey'')"
  by (simp add: s3_ok_def)

lemma s3_head: "s3_ok c objects \<Longrightarrow> sc_head c s b k = (case objects s b k of Some x \<Rightarrow> None | None \<Rightarrow> Some ''404'')"
  by (simp add: s3_ok_def)

lemma s3_page: "s3_ok c objects \<Longrightarrow> finite (dom (objects s b)) \<Longrightarrow>
    \<exists>pg. sc_page c s b p a = Inr pg \<and> page_of (left_to_list (objects s b) p a) pg"
  by (simp add: s3_ok_def)

lemma s3_delete: "s3_ok c objects \<Longrightarrow> \<exists>s'. sc_delete c s b ks = Inr s' \<and> objects s' = (objects s)(b := (objects s b) |` (- set ks))"
  by (simp add: s3_ok_def)

lemma s3_opens: "s3_ok c objects \<Longrightarrow> get_client c st = Inr (st\<lparr>ob_connected := True\<rparr>)"
  by (simp add: get_client_def s3_ok_def)

definition connected :: "object_store \<Rightarrow> object_store" where
  "connected st = st\<lparr>ob_connected := True\<rparr>"

lemma connected_simps [simp]:
  "ob_bucket (connected st) = ob_bucket st" "uri_prefix (connected st) = uri_prefix st"
  "build_uri (connected st) k = build_uri st k" "parse_uri (connected st) u = parse_uri st u"
  by (simp_all add: connected_def uri_prefix_def build_uri_def parse_uri_def)

lemma parse_build_uri [simp]: "parse_uri st (build_uri st key) = Inr key"
  by (simp add: parse_uri_def build_uri_def starts_with_def)

lemma parse_uri_inv: "parse_uri st u = Inr key \<Longrightarrow> u = build_uri st key"
  by (auto simp: parse_uri_def build_uri_def starts_with_iff split: if_splits)

text \<open>What a reader of an address sees, as a function of the bucket.\<close>

definition stored_text :: "(string \<Rightarrow> bytes option) \<Rightarrow> object_store \<Rightarrow> string \<Rightarrow> store_error + string" where
  "stored_text bucket st uri =
     (case parse_uri st uri of
        Inl e \<Rightarrow> Inl e
      | Inr key \<Rightarrow> (case bucket key of
          None \<Rightarrow> Inl (ObjectNotFound uri)
        | Some body \<Rightarrow> (case utf8_decode body of Some t \<Rightarrow> Inr t | None \<Rightarrow> Inl UndecodableBody)))"

lemma get_reads: "s3_ok c objects \<Longrightarrow> fst (get_cleaned_text c st s uri) = stored_text (objects s (ob_bucket st)) st uri"
  by (auto simp: get_cleaned_text_def stored_text_def s3_opens s3_get split: sum.split option.split)

lemma exists_reads:
  "s3_ok c objects \<Longrightarrow> build_key tenant doc version = Inr key \<Longrightarrow>
     fst (object_exists c st s tenant doc version) = Inr (objects s (ob_bucket st) key \<noteq> None)"
  by (cases "objects s (ob_bucket st) key") (simp_all add: object_exists_def s3_opens s3_head)

lemma put_writes:
  assumes "s3_ok c objects" and "build_key tenant doc version = Inr key"
  obtains s' where "put_cleaned_text c st s tenant doc version content = (Inr (build_uri st key), connected st, s')"
    and "objects s' = (objects s)(ob_bucket st := (objects s (ob_bucket st))(key \<mapsto> utf8_encode content))"
proof -
  obtain s' where "sc_put c s (ob_bucket st) key (utf8_encode content) = Inr s'"
    "objects s' = (objects s)(ob_bucket st := (objects s (ob_bucket st))(key \<mapsto> utf8_encode content))"
    using s3_put [OF assms(1)] by blast
  with assms show ?thesis
    by (intro that [of s']) (auto simp: put_cleaned_text_def s3_opens connected_def [symmetric])
qed

section \<open>Deleting the objects of a tenant\<close>

lemma left_to_list_set:
  "finite (dom bucket) \<Longrightarrow> set (left_to_list bucket p a)
     = {k \<in> dom bucket. starts_with k p \<and> (case a of None \<Rightarrow> True | Some x \<Rightarrow> x < k)}"
  by (simp add: left_to_list_def)

lemma next_page:
  assumes fin: "finite (dom bucket)" and m: "0 < m" "m < length (left_to_list bucket p a)"
  shows "left_to_list (bucket |` (- set (take m (left_to_list bucket p a)))) p (Some (last (take m (left_to_list bucket p a))))
     = drop m (left_to_list bucket p a)" (is "left_to_list ?b' p (Some ?l) = drop m ?todo")
proof -
  have sd: "sorted_wrt (<) ?todo" unfolding left_to_list_def by simp
  have split: "?todo = take m ?todo @ drop m ?todo" by simp
  have ne: "take m ?todo \<noteq> []" using m by auto
  have dis: "set (take m ?todo) \<inter> set (drop m ?todo) = {}"
    using set_take_disj_set_drop_if_distinct [of ?todo m m] by (simp add: left_to_list_def)
  have later: "?l < k" if "k \<in> set (drop m ?todo)" for k
    using sd that last_in_set [OF ne] unfolding sorted_wrt_append [of "(<)" "take m ?todo" "drop m ?todo", unfolded append_take_drop_id]
    by blast
  have in_drop: "k \<in> set (drop m ?todo) \<longleftrightarrow> k \<in> set ?todo \<and> k \<notin> set (take m ?todo)" for k
    using dis by (metis Un_iff append_take_drop_id disjoint_iff set_append)
  have l: "?l \<in> set ?todo" using last_in_set [OF ne] by (meson in_set_takeD)
  have "k \<in> dom ?b' \<and> starts_with k p \<and> ?l < k \<longleftrightarrow> k \<in> set (drop m ?todo)" for k
    using l later [of k] in_drop [of k] by (auto simp: left_to_list_set [OF fin] split: option.splits)
  then have "{k \<in> dom ?b'. starts_with k p \<and> ?l < k} = set (drop m ?todo)" by blast
  moreover have "sorted (drop m ?todo)" "distinct (drop m ?todo)"
    by (simp_all add: left_to_list_def sorted_wrt_drop)
  ultimately show ?thesis
    by (subst left_to_list_def) (simp add: sorted_list_of_set.idem_if_sorted_distinct)
qed

lemma delete_pages_total:
  assumes ok: "s3_ok c objects" and "finite (dom (objects s b))"
  shows "\<exists>s'. delete_pages c b p a n s = Some (Inr (n + length (left_to_list (objects s b) p a)), s')
    \<and> objects s' = (objects s)(b := (objects s b) |` (- set (left_to_list (objects s b) p a)))"
  using assms(2)
proof (induction "length (left_to_list (objects s b) p a)" arbitrary: s a n rule: less_induct)
  case less
  let ?todo = "left_to_list (objects s b) p a"
  obtain m where m: "0 < m" and pg: "sc_page c s b p a
      = Inr (take m ?todo, if length ?todo \<le> m then None else Some (last (take m ?todo)))"
    using s3_page [OF ok less.prems, of p a] by (auto simp: page_of_def)
  obtain u where u: "(if take m ?todo = [] then Inr s else sc_delete c s b (take m ?todo)) = Inr u"
    and ou: "objects u = (objects s)(b := (objects s b) |` (- set (take m ?todo)))"
    using s3_delete [OF ok, of s b "take m ?todo"] by (cases "take m ?todo = []") (auto simp: restrict_map_def)
  show ?case
  proof (cases "length ?todo \<le> m")
    case True
    then show ?thesis by (subst delete_pages.simps) (use u ou pg in \<open>auto simp del: take_eq_Nil\<close>)
  next
    case False
    let ?l = "last (take m ?todo)"
    have t': "left_to_list (objects u b) p (Some ?l) = drop m ?todo"
      using next_page [OF less.prems, of m p a] m False by (simp add: ou)
    have "delete_pages c b p a n s = delete_pages c b p (Some ?l) (n + length (take m ?todo)) u"
      using u False by (subst delete_pages.simps) (simp add: pg del: take_eq_Nil)
    moreover have "finite (dom (objects u b))" using less.prems by (simp add: ou)
    moreover have "length (left_to_list (objects u b) p (Some ?l)) < length ?todo" using m False by (simp add: t')
    ultimately obtain s' where s': "delete_pages c b p a n s = Some (Inr (n + length (take m ?todo) + length (drop m ?todo)), s')"
      and os: "objects s' = (objects u)(b := (objects u b) |` (- set (drop m ?todo)))"
      using less.hyps [of u "Some ?l" "n + length (take m ?todo)"] by (auto simp: t')
    have "objects s' = (objects s)(b := (objects s b) |` (- (set (take m ?todo) \<union> set (drop m ?todo))))"
      by (simp add: os ou Int_commute)
    moreover have "set (take m ?todo) \<union> set (drop m ?todo) = set ?todo" by (metis append_take_drop_id set_append)
    moreover have "n + length (take m ?todo) + length (drop m ?todo) = n + length ?todo" using False by simp
    ultimately show ?thesis using s' by auto
  qed
qed

text \<open>The keys under the prefix of a tenant, when the identifiers have no slash.\<close>

lemma key_under_tenant:
  assumes "plain_id t" and "pred_option plain_id tenant" and "build_key tenant doc version = Inr key"
  shows "starts_with key (t @ ''/'') \<longleftrightarrow> t = (case tenant of Some x \<Rightarrow> x | None \<Rightarrow> global_prefix)"
proof -
  let ?p = "case tenant of Some x \<Rightarrow> x | None \<Rightarrow> global_prefix"
  have free: "CHR ''/'' \<notin> set ?p" "CHR ''/'' \<notin> set t"
    using assms(1,2) by (auto simp: plain_id_def filename_facts split: option.split)
  obtain r where k: "key = ?p @ CHR ''/'' # r" using assms(3) by (auto simp: build_key_cases)
  show ?thesis
  proof
    assume "starts_with key (t @ ''/'')"
    then obtain q where "key = t @ CHR ''/'' # q" by (auto simp: starts_with_iff)
    then have "split_on CHR ''/'' key = t # split_on CHR ''/'' q" using free by (simp add: split_on_part)
    moreover have "split_on CHR ''/'' key = ?p # split_on CHR ''/'' r" using k free by (simp add: split_on_part)
    ultimately show "t = ?p" by simp
  next
    assume "t = ?p"
    then show "starts_with key (t @ ''/'')" by (simp add: k starts_with_def)
  qed
qed

lemma delete_tenant_effect:
  assumes "s3_ok c objects" and "finite (dom (objects s (ob_bucket st)))" and "t \<noteq> []"
  obtains s' where "delete_tenant_objects c st s t
      = Some (Inr (card {k \<in> dom (objects s (ob_bucket st)). starts_with k (t @ ''/'')}), connected st, s')"
    and "objects s' = (objects s)(ob_bucket st := (objects s (ob_bucket st)) |` {k. \<not> starts_with k (t @ ''/'')})"
proof -
  let ?b = "objects s (ob_bucket st)" let ?ks = "{k \<in> dom ?b. starts_with k (t @ ''/'')}"
  obtain s' where s': "delete_pages c (ob_bucket st) (t @ ''/'') None 0 s
        = Some (Inr (0 + length (left_to_list ?b (t @ ''/'') None)), s')"
    and o': "objects s' = (objects s)(ob_bucket st := ?b |` (- set (left_to_list ?b (t @ ''/'') None)))"
    using delete_pages_total [OF assms(1,2)] by blast
  have "length (left_to_list ?b (t @ ''/'') None) = card ?ks" by (simp add: left_to_list_def)
  moreover have "?b |` (- set (left_to_list ?b (t @ ''/'') None)) = ?b |` {k. \<not> starts_with k (t @ ''/'')}"
    by (rule ext) (auto simp: restrict_map_def left_to_list_set [OF assms(2)])
  ultimately show ?thesis
    using that s' o' assms(3) by (simp add: delete_tenant_objects_def s3_opens [OF assms(1)] connected_def)
qed

section \<open>Properties\<close>

text \<open>
  C0. Cleaned text reads back: after \<open>put_cleaned_text\<close> of a document version, the address it returns
  reads the content that was put, the version exists, and every other address of the bucket reads what
  it read before.
\<close>

theorem cleaned_text_roundtrip:
  assumes "s3_ok c objects" and "doc \<noteq> []" and "1 \<le> version"
  shows "\<exists>uri st' s'. put_cleaned_text c st s tenant doc version content = (Inr uri, st', s')
    \<and> fst (get_cleaned_text c st' s' uri) = Inr content
    \<and> fst (object_exists c st' s' tenant doc version) = Inr True
    \<and> (\<forall>other. other \<noteq> uri \<longrightarrow> fst (get_cleaned_text c st' s' other) = fst (get_cleaned_text c st s other))"
proof -
  obtain key where k: "build_key tenant doc version = Inr key" using assms(2,3) by (simp add: build_key_eq)
  obtain s' where p: "put_cleaned_text c st s tenant doc version content = (Inr (build_uri st key), connected st, s')"
    and o': "objects s' = (objects s)(ob_bucket st := (objects s (ob_bucket st))(key \<mapsto> utf8_encode content))"
    by (rule put_writes [OF assms(1) k])
  have "fst (get_cleaned_text c (connected st) s' (build_uri st key)) = Inr content"
    by (simp add: get_reads [OF assms(1)] stored_text_def o' decode_encode)
  moreover have "fst (get_cleaned_text c (connected st) s' other) = fst (get_cleaned_text c st s other)"
    if "other \<noteq> build_uri st key" for other
    using that by (auto simp: get_reads [OF assms(1)] stored_text_def o' dest: parse_uri_inv split: sum.split)
  moreover have "fst (object_exists c (connected st) s' tenant doc version) = Inr True"
    by (simp add: exists_reads [OF assms(1) k] o')
  ultimately show ?thesis using p by blast
qed


section \<open>A service that keeps its promises\<close>

text \<open>A service with its objects in memory, and pages of two keys.\<close>

type_synonym memory_objects = "(string \<times> string, bytes) dict"

definition memory_keys :: "memory_objects \<Rightarrow> string \<Rightarrow> string \<Rightarrow> string option \<Rightarrow> string list" where
  "memory_keys s b p a =
     sort (remdups (filter (\<lambda>k. starts_with k p \<and> (case a of None \<Rightarrow> True | Some x \<Rightarrow> x < k))
       (map (snd \<circ> fst) (filter (\<lambda>e. fst (fst e) = b) s))))"

definition memory_s3 :: "memory_objects s3_client" where
  "memory_s3 =
     \<lparr>sc_opens = True,
      sc_put = (\<lambda>s b k x. Inr (dict_set (b, k) x s)),
      sc_get = (\<lambda>s b k. case dict_get s (b, k) of Some x \<Rightarrow> Inr x | None \<Rightarrow> Inl ''NoSuchKey''),
      sc_head = (\<lambda>s b k. case dict_get s (b, k) of Some x \<Rightarrow> None | None \<Rightarrow> Some ''404''),
      sc_page = (\<lambda>s b p a. let todo = memory_keys s b p a
        in Inr (take 2 todo, if length todo \<le> 2 then None else Some (last (take 2 todo)))),
      sc_delete = (\<lambda>s b ks. Inr (filter (\<lambda>e. \<not> (fst (fst e) = b \<and> snd (fst e) \<in> set ks)) s))\<rparr>"

definition memory_bucket :: "memory_objects \<Rightarrow> string \<Rightarrow> string \<Rightarrow> bytes option" where
  "memory_bucket s b k = dict_get s (b, k)"

lemma memory_dom: "dom (memory_bucket s b) = snd ` fst ` {e \<in> set s. fst (fst e) = b}"
proof -
  have "memory_bucket s b k \<noteq> None \<longleftrightarrow> (b, k) \<in> fst ` set s" for k
    by (simp add: memory_bucket_def dict_get_None_iff)
  then show ?thesis by (force simp: dom_def)
qed

lemma memory_listed: "memory_keys s b p a = left_to_list (memory_bucket s b) p a"
proof -
  have "{k \<in> dom (memory_bucket s b). starts_with k p \<and> (case a of None \<Rightarrow> True | Some x \<Rightarrow> x < k)}
      = set (filter (\<lambda>k. starts_with k p \<and> (case a of None \<Rightarrow> True | Some x \<Rightarrow> x < k))
          (map (snd \<circ> fst) (filter (\<lambda>e. fst (fst e) = b) s)))"
    by (auto simp: memory_dom image_image)
  then show ?thesis by (simp only: left_to_list_def memory_keys_def sorted_list_of_set_sort_remdups)
qed

lemma dict_get_filter_keys: "dict_get (filter (\<lambda>e. P (fst e)) s) k = (if P k then dict_get s k else None)"
  by (induction s) (auto simp: dict_get_def)

lemma memory_ok: "s3_ok memory_s3 memory_bucket"
proof -
  have "\<exists>pg. sc_page memory_s3 s b p a = Inr pg \<and> page_of (left_to_list (memory_bucket s b) p a) pg" for s b p a
    by (auto simp: memory_s3_def Let_def memory_listed page_of_def intro!: exI [of _ 2])
  moreover have "memory_bucket (filter (\<lambda>e. \<not> (fst (fst e) = b \<and> snd (fst e) \<in> set ks)) s)
      = (memory_bucket s)(b := memory_bucket s b |` (- set ks))" for s b ks
    by (intro ext) (auto simp: memory_bucket_def dict_get_filter_keys [of "\<lambda>k. fst k = b \<longrightarrow> snd k \<notin> set ks"] restrict_map_def)
  moreover have "memory_bucket (dict_set (b, k) x s) = (memory_bucket s)(b := (memory_bucket s b)(k \<mapsto> x))" for s b k x
    by (intro ext) (auto simp: memory_bucket_def)
  ultimately show ?thesis by (simp add: s3_ok_def) (simp add: memory_s3_def memory_bucket_def)
qed

lemma memory_finite: "finite (dom (memory_bucket s b))"
  by (simp add: memory_dom)

definition sample_store :: object_store where
  "sample_store = \<lparr>ob_bucket = ''docs'', ob_connected = False\<rparr>"

lemma cleaned_text_roundtrip_witness:
  "\<exists>uri st' s'. put_cleaned_text memory_s3 sample_store [] (Some ''t1'') ''d1'' 3 ''text'' = (Inr uri, st', s')
    \<and> fst (get_cleaned_text memory_s3 st' s' uri) = Inr ''text''"
  using cleaned_text_roundtrip [OF memory_ok, of "''d1''" 3 sample_store "[]" "Some ''t1''" "''text''"] by auto

definition sample_objects :: memory_objects where
  "sample_objects =
     [((''docs'', ''t1/a/1/cleaned.txt''), [104]), ((''docs'', ''t1/b/1/cleaned.txt''), [105]),
      ((''docs'', ''t1/b/2/cleaned.txt''), [106]), ((''docs'', ''t2/a/1/cleaned.txt''), [107])]"

lemma sample_bucket: "memory_bucket sample_objects ''docs'' =
   (\<lambda>k. if k = ''t1/a/1/cleaned.txt'' then Some [104] else if k = ''t1/b/1/cleaned.txt'' then Some [105]
      else if k = ''t1/b/2/cleaned.txt'' then Some [106] else if k = ''t2/a/1/cleaned.txt'' then Some [107] else None)"
  by (rule ext) (simp add: memory_bucket_def sample_objects_def dict_get_def)

lemma sample_t1: "{k \<in> dom (memory_bucket sample_objects ''docs''). starts_with k (''t1'' @ ''/'')}
    = {''t1/a/1/cleaned.txt'', ''t1/b/1/cleaned.txt'', ''t1/b/2/cleaned.txt''}"
  by (auto simp: sample_bucket starts_with_def split: if_splits)


section \<open>Departures\<close>

text \<open>A tenant named \<open>_global\<close> shares its objects with the documents that have no tenant.\<close>

lemma global_tenant_aliases: "build_key (Some global_prefix) doc version = build_key None doc version"
  by (simp add: build_key_def)

text \<open>Identifiers with a slash: two documents share one object, and its key does not parse.\<close>

lemma slash_aliases: "build_key (Some ''a'') ''b/c'' 1 = build_key (Some ''a/b'') ''c'' 1"
  "parse_key ''a/b/c/1/cleaned.txt'' = Inl (WrongSegments 5)" "starts_with ''a/b/c/1/cleaned.txt'' (''a'' @ ''/'')"
  by code_simp+

text \<open>Versions that \<open>build_key\<close> never writes are read: blanks, a sign, leading zeros, underscores.\<close>

lemma loose_versions:
  "parse_key ''t/d/ 1/cleaned.txt'' = Inr (Some ''t'', ''d'', 1)" "parse_key ''t/d/+01/cleaned.txt'' = Inr (Some ''t'', ''d'', 1)"
  "parse_key ''t/d/1_0/cleaned.txt'' = Inr (Some ''t'', ''d'', 10)"
  by code_simp+

text \<open>
  \<open>delete_objects\<close> reports the keys it could not delete in its response, which the code does not read: a
  service that refuses every delete still has the refused keys counted as deleted.
\<close>

lemma refused_deletes_counted:
  "delete_tenant_objects (memory_s3\<lparr>sc_delete := (\<lambda>s b ks. Inr s)\<rparr>) sample_store
      [((''docs'', ''t2/a/1/cleaned.txt''), [107])] ''t2''
   = Some (Inr 1, connected sample_store, [((''docs'', ''t2/a/1/cleaned.txt''), [107])])"
proof -
  have "memory_keys [((''docs'', ''t2/a/1/cleaned.txt''), [107])] ''docs'' ''t2/'' None = [''t2/a/1/cleaned.txt'']"
    by code_simp
  then show ?thesis
    by (subst delete_tenant_objects_def) (simp add: get_client_def sample_store_def memory_s3_def delete_pages.simps connected_def)
qed

end
