(* ===== verification/Persistence.thy ===== *)
theory Persistence
  imports Interfaces PyStr
begin

text \<open>
  The repositories of sessions, pipelines and research jobs (\<open>api_gateway/persistence.py\<close>): each keeps its
  rows in a PostgreSQL table when the pool of connections is open, and in a dictionary otherwise.  The
  statements are modelled over tables with the columns they have, their rows, and the constraints the
  database enforces, which are a parameter; the columns of the migrations are under "The migrated schema".
  \<open>json.dumps\<close> and \<open>json.loads\<close> are parameters.
\<close>

section \<open>The pool\<close>

datatype persist_error =
    UndefinedColumn string
  | UniqueViolation
  | ConstraintViolation string
  | ConnectionLost
  | InvalidJson

record persist_env =
  pe_url :: string
  pe_connects :: bool
  pe_lost :: bool
  pe_dumps :: "json \<Rightarrow> string"
  pe_loads :: "string \<Rightarrow> json option"

record db_pool =
  dp_initialized :: bool
  dp_open :: bool

definition get_pool :: "persist_env \<Rightarrow> db_pool \<Rightarrow> bool \<times> db_pool" where
  "get_pool env p =
     (if dp_initialized p then (dp_open p, p)
      else if pe_url env = [] then (False, \<lparr>dp_initialized = True, dp_open = False\<rparr>)
      else if pe_connects env then (True, \<lparr>dp_initialized = True, dp_open = True\<rparr>)
      else (False, \<lparr>dp_initialized = True, dp_open = False\<rparr>))"

definition close_pool :: "db_pool \<Rightarrow> db_pool" where
  "close_pool p = (if dp_open p then \<lparr>dp_initialized = False, dp_open = False\<rparr> else p)"

section \<open>Rows and tables\<close>

datatype memory_value = MemoryDict "(string, json) dict" | MemoryText string

record session_row =
  se_session_id :: string
  se_tenant_id :: string
  se_retention_days :: int
  se_created_at :: datetime
  se_state :: string
  se_memory :: memory_value

record 'p pipeline_row =
  pi_pipeline_id :: string
  pi_tenant_id :: string
  pi_name :: string
  pi_steps :: 'p
  pi_created_at :: datetime

record job_row =
  jo_job_id :: string
  jo_tenant_id :: string
  jo_goal :: string
  jo_state :: string
  jo_created_at :: datetime

record 'r pg_table =
  pt_columns :: "string list"
  pt_reject :: "'r \<Rightarrow> string option"
  pt_rows :: "'r list"

definition missing_column :: "string list \<Rightarrow> 'r pg_table \<Rightarrow> string option" where
  "missing_column cols t = find (\<lambda>c. c \<notin> set (pt_columns t)) cols"

definition run_insert :: "string list \<Rightarrow> ('r \<Rightarrow> string) \<Rightarrow> 'r \<Rightarrow> 'r pg_table \<Rightarrow> persist_error + 'r pg_table" where
  "run_insert cols key r t =
     (case missing_column cols t of
        Some c \<Rightarrow> Inl (UndefinedColumn c)
      | None \<Rightarrow>
          (case pt_reject t r of
             Some e \<Rightarrow> Inl (ConstraintViolation e)
           | None \<Rightarrow> if key r \<in> key ` set (pt_rows t) then Inl UniqueViolation
                     else Inr (t\<lparr>pt_rows := pt_rows t @ [r]\<rparr>)))"

definition run_select :: "string list \<Rightarrow> ('r \<Rightarrow> bool) \<Rightarrow> 'r pg_table \<Rightarrow> persist_error + 'r option" where
  "run_select cols cond t =
     (case missing_column cols t of
        Some c \<Rightarrow> Inl (UndefinedColumn c)
      | None \<Rightarrow> Inr (find cond (pt_rows t)))"

text \<open>The status of an update or a delete carries the number of its rows.\<close>

definition run_update ::
  "string list \<Rightarrow> ('r \<Rightarrow> bool) \<Rightarrow> ('r \<Rightarrow> 'r) \<Rightarrow> 'r pg_table \<Rightarrow> persist_error + (string \<times> 'r pg_table)" where
  "run_update cols cond f t =
     (case missing_column cols t of
        Some c \<Rightarrow> Inl (UndefinedColumn c)
      | None \<Rightarrow>
          (case find (\<lambda>r. pt_reject t (f r) \<noteq> None) (filter cond (pt_rows t)) of
             Some r \<Rightarrow> Inl (ConstraintViolation (the (pt_reject t (f r))))
           | None \<Rightarrow> Inr (''UPDATE '' @ str_nat (length (filter cond (pt_rows t))),
                          t\<lparr>pt_rows := map (\<lambda>r. if cond r then f r else r) (pt_rows t)\<rparr>)))"

definition run_delete ::
  "string list \<Rightarrow> ('r \<Rightarrow> bool) \<Rightarrow> 'r pg_table \<Rightarrow> persist_error + (string \<times> 'r pg_table)" where
  "run_delete cols cond t =
     (case missing_column cols t of
        Some c \<Rightarrow> Inl (UndefinedColumn c)
      | None \<Rightarrow> Inr (''DELETE '' @ str_nat (length (filter cond (pt_rows t))),
                     t\<lparr>pt_rows := filter (\<lambda>r. \<not> cond r) (pt_rows t)\<rparr>))"

section \<open>The repositories\<close>

record persistence =
  ps_pool :: db_pool
  ps_sessions :: "session_row pg_table"
  ps_pipelines :: "string pipeline_row pg_table"
  ps_jobs :: "job_row pg_table"
  ps_session_memory :: "(string, session_row) dict"
  ps_pipeline_memory :: "(string, json pipeline_row) dict"
  ps_job_memory :: "(string, job_row) dict"

text \<open>\<open>pool = await get_pool()\<close>, and the branch on it; every statement first acquires a connection.\<close>

definition on_pool ::
  "persist_env \<Rightarrow> persistence \<Rightarrow> (persistence \<Rightarrow> (persist_error + 'a) \<times> persistence)
    \<Rightarrow> (persistence \<Rightarrow> (persist_error + 'a) \<times> persistence) \<Rightarrow> (persist_error + 'a) \<times> persistence" where
  "on_pool env s in_db in_memory =
     (let (opened, p) = get_pool env (ps_pool s); s' = s\<lparr>ps_pool := p\<rparr>
      in if opened then (if pe_lost env then (Inl ConnectionLost, s') else in_db s') else in_memory s')"

definition session_create :: "persist_env \<Rightarrow> persistence \<Rightarrow> string \<Rightarrow> string \<Rightarrow> int \<Rightarrow> datetime \<Rightarrow> (persist_error + unit) \<times> persistence" where
  "session_create env s sid tenant days at_time =
     on_pool env s
       (\<lambda>s. case run_insert [''session_id'', ''tenant_id'', ''retention_days'', ''created_at'', ''state'', ''memory''] se_session_id
              \<lparr>se_session_id = sid, se_tenant_id = tenant, se_retention_days = days, se_created_at = at_time,
               se_state = ''active'', se_memory = MemoryText ''{}''\<rparr> (ps_sessions s) of
           Inl e \<Rightarrow> (Inl e, s) | Inr t \<Rightarrow> (Inr (), s\<lparr>ps_sessions := t\<rparr>))
       (\<lambda>s. (Inr (), s\<lparr>ps_session_memory := dict_set sid
              \<lparr>se_session_id = sid, se_tenant_id = tenant, se_retention_days = days, se_created_at = at_time,
               se_state = ''active'', se_memory = MemoryDict []\<rparr> (ps_session_memory s)\<rparr>))"

definition session_get :: "persist_env \<Rightarrow> persistence \<Rightarrow> string \<Rightarrow> string \<Rightarrow> (persist_error + session_row option) \<times> persistence" where
  "session_get env s sid tenant =
     on_pool env s
       (\<lambda>s. (run_select [''session_id'', ''tenant_id'', ''retention_days'', ''created_at'', ''state'', ''memory'']
              (\<lambda>r. se_session_id r = sid \<and> se_tenant_id r = tenant \<and> se_state r = ''active'') (ps_sessions s), s))
       (\<lambda>s. (Inr (case dict_get (ps_session_memory s) sid of
               Some r \<Rightarrow> if se_tenant_id r = tenant \<and> se_state r = ''active'' then Some r else None
             | None \<Rightarrow> None), s))"

definition session_delete :: "persist_env \<Rightarrow> persistence \<Rightarrow> string \<Rightarrow> string \<Rightarrow> (persist_error + bool) \<times> persistence" where
  "session_delete env s sid tenant =
     on_pool env s
       (\<lambda>s. case run_update [''state'', ''session_id'', ''tenant_id''] (\<lambda>r. se_session_id r = sid \<and> se_tenant_id r = tenant)
              (\<lambda>r. r\<lparr>se_state := ''deleted''\<rparr>) (ps_sessions s) of
           Inl e \<Rightarrow> (Inl e, s) | Inr (status, t) \<Rightarrow> (Inr (contains status ''UPDATE 1''), s\<lparr>ps_sessions := t\<rparr>))
       (\<lambda>s. case dict_get (ps_session_memory s) sid of
           Some r \<Rightarrow> if se_tenant_id r = tenant
             then (Inr True, s\<lparr>ps_session_memory := dict_set sid (r\<lparr>se_state := ''deleted''\<rparr>) (ps_session_memory s)\<rparr>)
             else (Inr False, s)
         | None \<Rightarrow> (Inr False, s))"

definition pipeline_create :: "persist_env \<Rightarrow> persistence \<Rightarrow> string \<Rightarrow> string \<Rightarrow> string \<Rightarrow> json \<Rightarrow> datetime \<Rightarrow> (persist_error + unit) \<times> persistence" where
  "pipeline_create env s pid tenant name steps at_time =
     on_pool env s
       (\<lambda>s. case run_insert [''pipeline_id'', ''tenant_id'', ''name'', ''steps'', ''created_at''] pi_pipeline_id
              \<lparr>pi_pipeline_id = pid, pi_tenant_id = tenant, pi_name = name, pi_steps = pe_dumps env steps, pi_created_at = at_time\<rparr>
              (ps_pipelines s) of
           Inl e \<Rightarrow> (Inl e, s) | Inr t \<Rightarrow> (Inr (), s\<lparr>ps_pipelines := t\<rparr>))
       (\<lambda>s. (Inr (), s\<lparr>ps_pipeline_memory := dict_set pid
              \<lparr>pi_pipeline_id = pid, pi_tenant_id = tenant, pi_name = name, pi_steps = steps, pi_created_at = at_time\<rparr>
              (ps_pipeline_memory s)\<rparr>))"

definition with_steps :: "'q \<Rightarrow> 'p pipeline_row \<Rightarrow> 'q pipeline_row" where
  "with_steps steps r =
     \<lparr>pi_pipeline_id = pi_pipeline_id r, pi_tenant_id = pi_tenant_id r, pi_name = pi_name r, pi_steps = steps,
      pi_created_at = pi_created_at r\<rparr>"

definition pipeline_get :: "persist_env \<Rightarrow> persistence \<Rightarrow> string \<Rightarrow> string \<Rightarrow> (persist_error + json pipeline_row option) \<times> persistence" where
  "pipeline_get env s pid tenant =
     on_pool env s
       (\<lambda>s. (case run_select [''pipeline_id'', ''tenant_id'', ''name'', ''steps'', ''created_at'']
              (\<lambda>r. pi_pipeline_id r = pid \<and> pi_tenant_id r = tenant) (ps_pipelines s) of
           Inl e \<Rightarrow> Inl e
         | Inr None \<Rightarrow> Inr None
         | Inr (Some r) \<Rightarrow> (case pe_loads env (pi_steps r) of
               Some j \<Rightarrow> Inr (Some (with_steps j r)) | None \<Rightarrow> Inl InvalidJson), s))
       (\<lambda>s. (Inr (case dict_get (ps_pipeline_memory s) pid of
               Some r \<Rightarrow> if pi_tenant_id r = tenant then Some r else None | None \<Rightarrow> None), s))"

definition pipeline_delete :: "persist_env \<Rightarrow> persistence \<Rightarrow> string \<Rightarrow> string \<Rightarrow> (persist_error + bool) \<times> persistence" where
  "pipeline_delete env s pid tenant =
     on_pool env s
       (\<lambda>s. case run_delete [''pipeline_id'', ''tenant_id''] (\<lambda>r. pi_pipeline_id r = pid \<and> pi_tenant_id r = tenant) (ps_pipelines s) of
           Inl e \<Rightarrow> (Inl e, s) | Inr (status, t) \<Rightarrow> (Inr (contains status ''DELETE 1''), s\<lparr>ps_pipelines := t\<rparr>))
       (\<lambda>s. case dict_get (ps_pipeline_memory s) pid of
           Some r \<Rightarrow> if pi_tenant_id r = tenant
             then (Inr True, s\<lparr>ps_pipeline_memory := dict_del pid (ps_pipeline_memory s)\<rparr>) else (Inr False, s)
         | None \<Rightarrow> (Inr False, s))"

definition job_create :: "persist_env \<Rightarrow> persistence \<Rightarrow> string \<Rightarrow> string \<Rightarrow> string \<Rightarrow> string \<Rightarrow> datetime \<Rightarrow> (persist_error + unit) \<times> persistence" where
  "job_create env s jid tenant goal state at_time =
     on_pool env s
       (\<lambda>s. case run_insert [''job_id'', ''tenant_id'', ''research_goal'', ''state'', ''created_at''] jo_job_id
              \<lparr>jo_job_id = jid, jo_tenant_id = tenant, jo_goal = goal, jo_state = state, jo_created_at = at_time\<rparr> (ps_jobs s) of
           Inl e \<Rightarrow> (Inl e, s) | Inr t \<Rightarrow> (Inr (), s\<lparr>ps_jobs := t\<rparr>))
       (\<lambda>s. (Inr (), s\<lparr>ps_job_memory := dict_set jid
              \<lparr>jo_job_id = jid, jo_tenant_id = tenant, jo_goal = goal, jo_state = state, jo_created_at = at_time\<rparr> (ps_job_memory s)\<rparr>))"

definition job_get :: "persist_env \<Rightarrow> persistence \<Rightarrow> string \<Rightarrow> string \<Rightarrow> (persist_error + job_row option) \<times> persistence" where
  "job_get env s jid tenant =
     on_pool env s
       (\<lambda>s. (run_select [''job_id'', ''tenant_id'', ''research_goal'', ''state'', ''created_at'']
              (\<lambda>r. jo_job_id r = jid \<and> jo_tenant_id r = tenant) (ps_jobs s), s))
       (\<lambda>s. (Inr (case dict_get (ps_job_memory s) jid of
               Some r \<Rightarrow> if jo_tenant_id r = tenant then Some r else None | None \<Rightarrow> None), s))"

definition job_update_state :: "persist_env \<Rightarrow> persistence \<Rightarrow> string \<Rightarrow> string \<Rightarrow> (persist_error + unit) \<times> persistence" where
  "job_update_state env s jid state =
     on_pool env s
       (\<lambda>s. case run_update [''state'', ''job_id''] (\<lambda>r. jo_job_id r = jid) (\<lambda>r. r\<lparr>jo_state := state\<rparr>) (ps_jobs s) of
           Inl e \<Rightarrow> (Inl e, s) | Inr (status, t) \<Rightarrow> (Inr (), s\<lparr>ps_jobs := t\<rparr>))
       (\<lambda>s. case dict_get (ps_job_memory s) jid of
           Some r \<Rightarrow> (Inr (), s\<lparr>ps_job_memory := dict_set jid (r\<lparr>jo_state := state\<rparr>) (ps_job_memory s)\<rparr>)
         | None \<Rightarrow> (Inr (), s))"

section \<open>Requests\<close>

datatype persist_op =
    CreateSession string string int datetime
  | GetSession string string
  | DeleteSession string string
  | CreatePipeline string string string json datetime
  | GetPipeline string string
  | DeletePipeline string string
  | CreateJob string string string string datetime
  | GetJob string string
  | UpdateJob string string

datatype persist_reply =
    Failed persist_error
  | Stored
  | Removed bool
  | SessionIs "session_row option"
  | PipelineIs "json pipeline_row option"
  | JobIs "job_row option"

definition reply_of :: "('a \<Rightarrow> persist_reply) \<Rightarrow> (persist_error + 'a) \<times> persistence \<Rightarrow> persist_reply \<times> persistence" where
  "reply_of f r = ((case fst r of Inl e \<Rightarrow> Failed e | Inr x \<Rightarrow> f x), snd r)"

fun persist_step :: "persist_env \<Rightarrow> persistence \<Rightarrow> persist_op \<Rightarrow> persist_reply \<times> persistence" where
  "persist_step env s (CreateSession i t days at_time) = reply_of (\<lambda>_. Stored) (session_create env s i t days at_time)"
| "persist_step env s (GetSession i t) = reply_of SessionIs (session_get env s i t)"
| "persist_step env s (DeleteSession i t) = reply_of Removed (session_delete env s i t)"
| "persist_step env s (CreatePipeline i t n js at_time) = reply_of (\<lambda>_. Stored) (pipeline_create env s i t n js at_time)"
| "persist_step env s (GetPipeline i t) = reply_of PipelineIs (pipeline_get env s i t)"
| "persist_step env s (DeletePipeline i t) = reply_of Removed (pipeline_delete env s i t)"
| "persist_step env s (CreateJob i t g st at_time) = reply_of (\<lambda>_. Stored) (job_create env s i t g st at_time)"
| "persist_step env s (GetJob i t) = reply_of JobIs (job_get env s i t)"
| "persist_step env s (UpdateJob i st) = reply_of (\<lambda>_. Stored) (job_update_state env s i st)"

fun persist_run :: "persist_env \<Rightarrow> persistence \<Rightarrow> persist_op list \<Rightarrow> persist_reply list \<times> persistence" where
  "persist_run env s [] = ([], s)"
| "persist_run env s (x # xs) =
     (let (r, s') = persist_step env s x; (rs, s'') = persist_run env s' xs in (r # rs, s''))"

section \<open>What both stores implement\<close>

text \<open>A map of rows per kind of record.  The memory of a session is not used here, and left out.\<close>

record row_maps =
  rm_sessions :: "string \<Rightarrow> session_row option"
  rm_pipelines :: "string \<Rightarrow> json pipeline_row option"
  rm_jobs :: "string \<Rightarrow> job_row option"

definition plain_session :: "session_row \<Rightarrow> session_row" where
  "plain_session r = r\<lparr>se_memory := MemoryDict []\<rparr>"

definition only_if :: "('r \<Rightarrow> bool) \<Rightarrow> 'r option \<Rightarrow> 'r option" where
  "only_if ok r = (case r of Some x \<Rightarrow> if ok x then Some x else None | None \<Rightarrow> None)"

fun row_step :: "row_maps \<Rightarrow> persist_op \<Rightarrow> persist_reply \<times> row_maps" where
  "row_step m (CreateSession i t days at_time) =
     (Stored, m\<lparr>rm_sessions := (rm_sessions m)(i \<mapsto> \<lparr>se_session_id = i, se_tenant_id = t, se_retention_days = days,
        se_created_at = at_time, se_state = ''active'', se_memory = MemoryDict []\<rparr>)\<rparr>)"
| "row_step m (GetSession i t) =
     (SessionIs (only_if (\<lambda>r. se_tenant_id r = t \<and> se_state r = ''active'') (rm_sessions m i)), m)"
| "row_step m (DeleteSession i t) =
     (case only_if (\<lambda>r. se_tenant_id r = t) (rm_sessions m i) of
        None \<Rightarrow> (Removed False, m)
      | Some r \<Rightarrow> (Removed True, m\<lparr>rm_sessions := (rm_sessions m)(i \<mapsto> r\<lparr>se_state := ''deleted''\<rparr>)\<rparr>))"
| "row_step m (CreatePipeline i t n js at_time) =
     (Stored, m\<lparr>rm_pipelines := (rm_pipelines m)(i \<mapsto> \<lparr>pi_pipeline_id = i, pi_tenant_id = t, pi_name = n,
        pi_steps = js, pi_created_at = at_time\<rparr>)\<rparr>)"
| "row_step m (GetPipeline i t) = (PipelineIs (only_if (\<lambda>r. pi_tenant_id r = t) (rm_pipelines m i)), m)"
| "row_step m (DeletePipeline i t) =
     (case only_if (\<lambda>r. pi_tenant_id r = t) (rm_pipelines m i) of
        None \<Rightarrow> (Removed False, m)
      | Some r \<Rightarrow> (Removed True, m\<lparr>rm_pipelines := (rm_pipelines m)(i := None)\<rparr>))"
| "row_step m (CreateJob i t g st at_time) =
     (Stored, m\<lparr>rm_jobs := (rm_jobs m)(i \<mapsto> \<lparr>jo_job_id = i, jo_tenant_id = t, jo_goal = g, jo_state = st,
        jo_created_at = at_time\<rparr>)\<rparr>)"
| "row_step m (GetJob i t) = (JobIs (only_if (\<lambda>r. jo_tenant_id r = t) (rm_jobs m i)), m)"
| "row_step m (UpdateJob i st) =
     (Stored, case rm_jobs m i of None \<Rightarrow> m | Some r \<Rightarrow> m\<lparr>rm_jobs := (rm_jobs m)(i \<mapsto> r\<lparr>jo_state := st\<rparr>)\<rparr>)"

fun reply_view :: "persist_reply \<Rightarrow> persist_reply" where
  "reply_view (SessionIs r) = SessionIs (map_option plain_session r)"
| "reply_view r = r"

section \<open>Lemmas: rows of a table by their key\<close>

definition row_at :: "('r \<Rightarrow> string) \<Rightarrow> 'r list \<Rightarrow> string \<Rightarrow> 'r option" where
  "row_at key rs k = find (\<lambda>r. key r = k) rs"

named_theorems row_simps \<open>tables seen as maps from keys to rows\<close>

lemma row_at_simps [simp]:
  "row_at key [] k = None" "row_at key (r # rs) k = (if key r = k then Some r else row_at key rs k)"
  by (simp_all add: row_at_def)

lemma row_at_key: "row_at key rs k = Some r \<Longrightarrow> key r = k \<and> r \<in> set rs"
  by (induction rs) (auto split: if_splits)

lemma row_at_None: "row_at key rs k = None \<longleftrightarrow> k \<notin> key ` set rs"
  by (induction rs) auto

lemma row_at_insert [row_simps]:
  "key r \<notin> key ` set rs \<Longrightarrow> row_at key (rs @ [r]) k = (if k = key r then Some r else row_at key rs k)"
  by (induction rs) auto

lemma find_row [row_simps]:
  "distinct (map key rs) \<Longrightarrow> find (\<lambda>r. key r = k \<and> ok r) rs = only_if ok (row_at key rs k)"
proof (induction rs)
  case Nil
  then show ?case by (simp add: only_if_def)
next
  case (Cons r rs)
  have "key r = k \<Longrightarrow> row_at key rs k = None" using Cons.prems by (auto simp: row_at_None)
  with Cons show ?case by (auto simp: only_if_def)
qed

lemma row_at_update [row_simps]:
  "(\<And>r. key (f r) = key r) \<Longrightarrow>
   row_at key (map (\<lambda>r. if key r = k \<and> ok r then f r else r) rs) k'
     = (if k' = k then map_option (\<lambda>r. if ok r then f r else r) (row_at key rs k) else row_at key rs k')"
  by (induction rs) auto

lemma row_at_delete [row_simps]:
  "distinct (map key rs) \<Longrightarrow>
   row_at key (filter (\<lambda>r. \<not> (key r = k \<and> ok r)) rs) k'
     = (if k' = k then only_if (\<lambda>r. \<not> ok r) (row_at key rs k) else row_at key rs k')"
proof (induction rs)
  case Nil
  then show ?case by (simp add: only_if_def)
next
  case (Cons r rs)
  have "key r = k \<Longrightarrow> row_at key rs k = None" using Cons.prems by (auto simp: row_at_None)
  with Cons show ?case by (auto simp: only_if_def)
qed

lemma rows_matching [row_simps]:
  "distinct (map key rs) \<Longrightarrow> length (filter (\<lambda>r. key r = k \<and> ok r) rs)
     = (case only_if ok (row_at key rs k) of Some r \<Rightarrow> 1 | None \<Rightarrow> 0)"
proof (induction rs)
  case Nil
  then show ?case by (simp add: only_if_def)
next
  case (Cons r rs)
  have "key r = k \<Longrightarrow> row_at key rs k = None" using Cons.prems by (auto simp: row_at_None)
  with Cons show ?case by (auto simp: only_if_def)
qed

lemma status_of_count:
  "contains (''UPDATE '' @ str_nat 1) ''UPDATE 1''" "\<not> contains (''UPDATE '' @ str_nat 0) ''UPDATE 1''"
  "contains (''DELETE '' @ str_nat 1) ''DELETE 1''" "\<not> contains (''DELETE '' @ str_nat 0) ''DELETE 1''"
  by code_simp+

section \<open>The fallback implements the maps\<close>

lemma get_pool_settles: "get_pool env (snd (get_pool env p)) = (fst (get_pool env p), snd (get_pool env p))"
  by (simp add: get_pool_def)

lemma plain_session_simps [simp]:
  "se_tenant_id (plain_session r) = se_tenant_id r" "se_state (plain_session r) = se_state r"
  "plain_session (r\<lparr>se_state := x\<rparr>) = plain_session r\<lparr>se_state := x\<rparr>" "plain_session (plain_session r) = plain_session r"
  "plain_session \<lparr>se_session_id = i, se_tenant_id = t, se_retention_days = d, se_created_at = c, se_state = st, se_memory = mm\<rparr>
     = \<lparr>se_session_id = i, se_tenant_id = t, se_retention_days = d, se_created_at = c, se_state = st, se_memory = MemoryDict []\<rparr>"
  by (simp_all add: plain_session_def)

lemma only_if_simps [simp]:
  "only_if ok None = None" "only_if ok (Some r) = (if ok r then Some r else None)"
  by (simp_all add: only_if_def)

definition fallback_rows :: "persistence \<Rightarrow> row_maps" where
  "fallback_rows s =
     \<lparr>rm_sessions = (\<lambda>k. map_option plain_session (dict_get (ps_session_memory s) k)),
      rm_pipelines = dict_get (ps_pipeline_memory s), rm_jobs = dict_get (ps_job_memory s)\<rparr>"

definition fallback_ok :: "persist_env \<Rightarrow> persistence \<Rightarrow> bool" where
  "fallback_ok env s = (\<not> fst (get_pool env (ps_pool s)))"

lemma on_pool_fallback:
  "fallback_ok env s \<Longrightarrow> on_pool env s f g = g (s\<lparr>ps_pool := snd (get_pool env (ps_pool s))\<rparr>)"
  by (simp add: on_pool_def fallback_ok_def split_beta)

lemmas repository_defs =
  session_create_def session_get_def session_delete_def pipeline_create_def pipeline_get_def
  pipeline_delete_def job_create_def job_get_def job_update_state_def

lemma fallback_step:
  assumes "fallback_ok env s"
  shows "fallback_ok env (snd (persist_step env s x))"
    and "fallback_rows (snd (persist_step env s x)) = snd (row_step (fallback_rows s) x)"
    and "reply_view (fst (persist_step env s x)) = fst (row_step (fallback_rows s) x)"
proof -
  have p: "\<not> fst (get_pool env (snd (get_pool env (ps_pool s))))"
    using assms by (simp add: fallback_ok_def get_pool_settles)
  note [simp] = on_pool_fallback [OF assms] reply_of_def fallback_rows_def p fallback_ok_def
  show "fallback_ok env (snd (persist_step env s x))"
    by (cases x) (simp_all add: repository_defs split: option.split)
  show "fallback_rows (snd (persist_step env s x)) = snd (row_step (fallback_rows s) x)"
    by (cases x) (auto simp: repository_defs fun_eq_iff split: option.split)
  show "reply_view (fst (persist_step env s x)) = fst (row_step (fallback_rows s) x)"
    by (cases x) (auto simp: repository_defs split: option.split)
qed

interpretation fallback: simulation fallback_rows "fallback_ok env" "\<lambda>s x. True" "persist_step env" row_step reply_view
  for env
  by unfold_locales (simp_all add: fallback_step)

section \<open>The tables implement the maps\<close>

definition fits :: "string list \<Rightarrow> 'r pg_table \<Rightarrow> bool" where
  "fits cols t = (set cols \<subseteq> set (pt_columns t))"

lemma fits_no_missing: "fits cols t \<Longrightarrow> set cs \<subseteq> set cols \<Longrightarrow> missing_column cs t = None"
  by (auto simp: fits_def missing_column_def find_None_iff)

definition session_columns :: "string list" where
  "session_columns = [''session_id'', ''tenant_id'', ''retention_days'', ''created_at'', ''state'', ''memory'']"

definition pipeline_columns :: "string list" where
  "pipeline_columns = [''pipeline_id'', ''tenant_id'', ''name'', ''steps'', ''created_at'']"

definition job_columns :: "string list" where
  "job_columns = [''job_id'', ''tenant_id'', ''research_goal'', ''state'', ''created_at'']"

definition postgres_rows :: "persist_env \<Rightarrow> persistence \<Rightarrow> row_maps" where
  "postgres_rows env s =
     \<lparr>rm_sessions = (\<lambda>k. map_option plain_session (row_at se_session_id (pt_rows (ps_sessions s)) k)),
      rm_pipelines = (\<lambda>k. map_option (\<lambda>r. with_steps (the (pe_loads env (pi_steps r))) r)
        (row_at pi_pipeline_id (pt_rows (ps_pipelines s)) k)),
      rm_jobs = row_at jo_job_id (pt_rows (ps_jobs s))\<rparr>"

definition postgres_ok :: "persist_env \<Rightarrow> persistence \<Rightarrow> bool" where
  "postgres_ok env s =
     (fst (get_pool env (ps_pool s)) \<and> \<not> pe_lost env
      \<and> fits session_columns (ps_sessions s) \<and> fits pipeline_columns (ps_pipelines s) \<and> fits job_columns (ps_jobs s)
      \<and> distinct (map se_session_id (pt_rows (ps_sessions s)))
      \<and> distinct (map pi_pipeline_id (pt_rows (ps_pipelines s)))
      \<and> distinct (map jo_job_id (pt_rows (ps_jobs s)))
      \<and> list_all (\<lambda>r. pe_loads env (pi_steps r) \<noteq> None) (pt_rows (ps_pipelines s)))"

text \<open>What the caller owes the database: fresh identifiers, rows the constraints accept, steps that JSON carries.\<close>

definition postgres_guard :: "persist_env \<Rightarrow> persistence \<Rightarrow> persist_op \<Rightarrow> bool" where
  "postgres_guard env s x =
     (case x of
        CreateSession i t days at_time \<Rightarrow> row_at se_session_id (pt_rows (ps_sessions s)) i = None
          \<and> pt_reject (ps_sessions s) \<lparr>se_session_id = i, se_tenant_id = t, se_retention_days = days, se_created_at = at_time,
               se_state = ''active'', se_memory = MemoryText ''{}''\<rparr> = None
      | DeleteSession i t \<Rightarrow> list_all (\<lambda>r. pt_reject (ps_sessions s) (r\<lparr>se_state := ''deleted''\<rparr>) = None) (pt_rows (ps_sessions s))
      | CreatePipeline i t n js at_time \<Rightarrow> row_at pi_pipeline_id (pt_rows (ps_pipelines s)) i = None
          \<and> pt_reject (ps_pipelines s) \<lparr>pi_pipeline_id = i, pi_tenant_id = t, pi_name = n, pi_steps = pe_dumps env js,
               pi_created_at = at_time\<rparr> = None
          \<and> pe_loads env (pe_dumps env js) = Some js
      | CreateJob i t g st at_time \<Rightarrow> row_at jo_job_id (pt_rows (ps_jobs s)) i = None
          \<and> pt_reject (ps_jobs s) \<lparr>jo_job_id = i, jo_tenant_id = t, jo_goal = g, jo_state = st, jo_created_at = at_time\<rparr> = None
      | UpdateJob i st \<Rightarrow> list_all (\<lambda>r. pt_reject (ps_jobs s) (r\<lparr>jo_state := st\<rparr>) = None) (pt_rows (ps_jobs s))
      | _ \<Rightarrow> True)"

lemma on_pool_postgres:
  "postgres_ok env s \<Longrightarrow> on_pool env s f g = f (s\<lparr>ps_pool := snd (get_pool env (ps_pool s))\<rparr>)"
  by (simp add: on_pool_def postgres_ok_def split_beta)

lemma run_insert_ok:
  "fits cols t \<Longrightarrow> set cs \<subseteq> set cols \<Longrightarrow> pt_reject t r = None \<Longrightarrow> row_at key (pt_rows t) (key r) = None \<Longrightarrow>
   run_insert cs key r t = Inr (t\<lparr>pt_rows := pt_rows t @ [r]\<rparr>)"
  by (simp add: run_insert_def fits_no_missing row_at_None)

lemma run_select_ok:
  "fits cols t \<Longrightarrow> set cs \<subseteq> set cols \<Longrightarrow> distinct (map key (pt_rows t)) \<Longrightarrow>
   run_select cs (\<lambda>r. key r = k \<and> ok r) t = Inr (only_if ok (row_at key (pt_rows t) k))"
  by (simp add: run_select_def fits_no_missing find_row)

lemma run_update_ok:
  "fits cols t \<Longrightarrow> set cs \<subseteq> set cols \<Longrightarrow> list_all (\<lambda>r. pt_reject t (f r) = None) (pt_rows t) \<Longrightarrow>
   run_update cs cond f t = Inr (''UPDATE '' @ str_nat (length (filter cond (pt_rows t))),
     t\<lparr>pt_rows := map (\<lambda>r. if cond r then f r else r) (pt_rows t)\<rparr>)"
proof -
  assume "list_all (\<lambda>r. pt_reject t (f r) = None) (pt_rows t)"
  then have "find (\<lambda>r. pt_reject t (f r) \<noteq> None) (filter cond (pt_rows t)) = None"
    by (auto simp: find_None_iff list_all_iff)
  moreover assume "fits cols t" "set cs \<subseteq> set cols"
  ultimately show ?thesis by (simp add: run_update_def fits_no_missing)
qed

lemma run_delete_ok:
  "fits cols t \<Longrightarrow> set cs \<subseteq> set cols \<Longrightarrow>
   run_delete cs cond t = Inr (''DELETE '' @ str_nat (length (filter cond (pt_rows t))), t\<lparr>pt_rows := filter (\<lambda>r. \<not> cond r) (pt_rows t)\<rparr>)"
  by (simp add: run_delete_def fits_no_missing)

lemma key_of_update:
  "(\<And>r. key (f r) = key r) \<Longrightarrow> map (key \<circ> (\<lambda>r. if cond r then f r else r)) rs = map key rs"
  by (induction rs) auto

lemma fits_rows [simp]: "fits cols (t\<lparr>pt_rows := rs\<rparr>) = fits cols t"
  by (simp add: fits_def)

lemma postgres_pool:
  "postgres_ok env s \<Longrightarrow> fst (get_pool env (snd (get_pool env (ps_pool s)))) \<and> \<not> pe_lost env"
  by (simp add: postgres_ok_def get_pool_settles)

text \<open>One lemma per kind of record.\<close>

definition simulates :: "persist_env \<Rightarrow> persistence \<Rightarrow> persist_op \<Rightarrow> bool" where
  "simulates env s x =
     (postgres_ok env (snd (persist_step env s x))
      \<and> postgres_rows env (snd (persist_step env s x)) = snd (row_step (postgres_rows env s) x)
      \<and> reply_view (fst (persist_step env s x)) = fst (row_step (postgres_rows env s) x))"

lemma only_if_map:
  "(\<And>r. ok (f r) = ok' r) \<Longrightarrow> only_if ok (map_option f r) = map_option f (only_if ok' r)"
  by (cases r) auto

lemma job_steps_simulate:
  assumes ok: "postgres_ok env s" and g: "postgres_guard env s x"
    and "x = CreateJob i t goal st at_time \<or> x = GetJob i t \<or> x = UpdateJob i st"
  shows "simulates env s x"
proof -
  have f: "fits job_columns (ps_jobs s)" and d: "distinct (map jo_job_id (pt_rows (ps_jobs s)))" using ok by (simp_all add: postgres_ok_def)
  have sub: "set [''job_id'', ''tenant_id'', ''research_goal'', ''state'', ''created_at''] \<subseteq> set job_columns"
    "set [''state'', ''job_id''] \<subseteq> set job_columns" by (simp_all add: job_columns_def)
  note pool = postgres_pool [OF ok] on_pool_postgres [OF ok]
  from assms(3) consider "x = CreateJob i t goal st at_time" | "x = GetJob i t" | "x = UpdateJob i st" by blast
  then show ?thesis
  proof cases
    case 1
    with g have "pt_reject (ps_jobs s) \<lparr>jo_job_id = i, jo_tenant_id = t, jo_goal = goal, jo_state = st, jo_created_at = at_time\<rparr> = None"
      "row_at jo_job_id (pt_rows (ps_jobs s)) i = None" by (simp_all add: postgres_guard_def)
    with ok show ?thesis unfolding 1
      by (simp add: simulates_def job_create_def pool run_insert_ok [OF f sub(1)] reply_of_def)
        (auto simp: postgres_ok_def postgres_rows_def pool row_at_None row_at_insert fun_eq_iff)
  next
    case 2
    show ?thesis unfolding 2
      using ok by (simp add: simulates_def job_get_def pool run_select_ok [OF f sub(1) d] reply_of_def)
        (simp add: postgres_ok_def postgres_rows_def pool)
  next
    case 3
    with g have "list_all (\<lambda>r. pt_reject (ps_jobs s) (r\<lparr>jo_state := st\<rparr>) = None) (pt_rows (ps_jobs s))" by (simp add: postgres_guard_def)
    with ok show ?thesis unfolding 3
      using row_at_update [where key = jo_job_id and ok = "\<lambda>_. True" and f = "\<lambda>r. r\<lparr>jo_state := st\<rparr>" and k = i and rs = "pt_rows (ps_jobs s)"]
      by (simp add: simulates_def job_update_state_def pool run_update_ok [OF f sub(2)] reply_of_def)
        (auto simp: postgres_ok_def postgres_rows_def pool key_of_update fun_eq_iff split: option.split)
  qed
qed

lemma distinct_keys_filter: "distinct (map key rs) \<Longrightarrow> distinct (map key (filter ok rs))"
  by (induction rs) auto

lemma pipeline_steps_simulate:
  assumes ok: "postgres_ok env s" and g: "postgres_guard env s x"
    and "x = CreatePipeline i t n js at_time \<or> x = GetPipeline i t \<or> x = DeletePipeline i t"
  shows "simulates env s x"
proof -
  let ?rs = "pt_rows (ps_pipelines s)"
  have f: "fits pipeline_columns (ps_pipelines s)" and d: "distinct (map pi_pipeline_id ?rs)"
    and l: "list_all (\<lambda>r. pe_loads env (pi_steps r) \<noteq> None) ?rs" using ok by (simp_all add: postgres_ok_def)
  have sub: "set [''pipeline_id'', ''tenant_id'', ''name'', ''steps'', ''created_at''] \<subseteq> set pipeline_columns"
    "set [''pipeline_id'', ''tenant_id''] \<subseteq> set pipeline_columns" by (simp_all add: pipeline_columns_def)
  have loads: "\<exists>j. pe_loads env (pi_steps r) = Some j" if "row_at pi_pipeline_id ?rs k = Some r" for k r
    using row_at_key [OF that] l by (auto simp: list_all_iff)
  note pool = postgres_pool [OF ok] on_pool_postgres [OF ok]
  from assms(3) consider "x = CreatePipeline i t n js at_time" | "x = GetPipeline i t" | "x = DeletePipeline i t" by blast
  then show ?thesis
  proof cases
    case 1
    with g have r: "pt_reject (ps_pipelines s) \<lparr>pi_pipeline_id = i, pi_tenant_id = t, pi_name = n, pi_steps = pe_dumps env js, pi_created_at = at_time\<rparr> = None"
      "row_at pi_pipeline_id ?rs i = None" "pe_loads env (pe_dumps env js) = Some js" by (simp_all add: postgres_guard_def)
    with ok show ?thesis unfolding 1
      by (simp add: simulates_def pipeline_create_def pool run_insert_ok [OF f sub(1)] reply_of_def)
        (auto simp: postgres_ok_def postgres_rows_def pool row_at_None row_at_insert with_steps_def fun_eq_iff)
  next
    case 2
    show ?thesis unfolding 2
      using ok loads [of i] by (simp add: simulates_def pipeline_get_def pool run_select_ok [OF f sub(1) d] reply_of_def)
        (cases "row_at pi_pipeline_id ?rs i", auto simp: postgres_ok_def postgres_rows_def pool with_steps_def)
  next
    case 3
    have count: "contains (''DELETE '' @ str_nat (length (filter (\<lambda>r. pi_pipeline_id r = i \<and> pi_tenant_id r = t) ?rs))) ''DELETE 1''
        \<longleftrightarrow> only_if (\<lambda>r. pi_tenant_id r = t) (row_at pi_pipeline_id ?rs i) \<noteq> None"
      using status_of_count by (simp add: rows_matching [OF d] split: option.split)
    show ?thesis unfolding 3
      using ok count distinct_keys_filter [OF d, of "\<lambda>r. \<not> (pi_pipeline_id r = i \<and> pi_tenant_id r = t)"]
        row_at_delete [OF d, of i "\<lambda>r. pi_tenant_id r = t"]
      by (simp add: simulates_def pipeline_delete_def pool run_delete_ok [OF f sub(2)] reply_of_def del: de_Morgan_conj)
        (cases "row_at pi_pipeline_id ?rs i",
          auto simp: postgres_ok_def postgres_rows_def pool with_steps_def list_all_iff fun_eq_iff simp del: de_Morgan_conj)
  qed
qed

lemma session_steps_simulate:
  assumes ok: "postgres_ok env s" and g: "postgres_guard env s x"
    and "x = CreateSession i t days at_time \<or> x = GetSession i t \<or> x = DeleteSession i t"
  shows "simulates env s x"
proof -
  let ?rs = "pt_rows (ps_sessions s)"
  have f: "fits session_columns (ps_sessions s)" and d: "distinct (map se_session_id ?rs)" using ok by (simp_all add: postgres_ok_def)
  have sub: "set [''session_id'', ''tenant_id'', ''retention_days'', ''created_at'', ''state'', ''memory''] \<subseteq> set session_columns"
    "set [''state'', ''session_id'', ''tenant_id''] \<subseteq> set session_columns" by (simp_all add: session_columns_def)
  note pool = postgres_pool [OF ok] on_pool_postgres [OF ok]
  from assms(3) consider "x = CreateSession i t days at_time" | "x = GetSession i t" | "x = DeleteSession i t" by blast
  then show ?thesis
  proof cases
    case 1
    with g have "pt_reject (ps_sessions s) \<lparr>se_session_id = i, se_tenant_id = t, se_retention_days = days, se_created_at = at_time,
        se_state = ''active'', se_memory = MemoryText ''{}''\<rparr> = None" "row_at se_session_id ?rs i = None" by (simp_all add: postgres_guard_def)
    with ok show ?thesis unfolding 1
      by (simp add: simulates_def session_create_def pool run_insert_ok [OF f sub(1)] reply_of_def)
        (auto simp: postgres_ok_def postgres_rows_def pool row_at_None row_at_insert fun_eq_iff)
  next
    case 2
    show ?thesis unfolding 2
      using ok by (simp add: simulates_def session_get_def pool run_select_ok [OF f sub(1) d] reply_of_def)
        (cases "row_at se_session_id ?rs i", auto simp: postgres_ok_def postgres_rows_def pool)
  next
    case 3
    with g have u: "list_all (\<lambda>r. pt_reject (ps_sessions s) (r\<lparr>se_state := ''deleted''\<rparr>) = None) ?rs" by (simp add: postgres_guard_def)
    have count: "contains (''UPDATE '' @ str_nat (length (filter (\<lambda>r. se_session_id r = i \<and> se_tenant_id r = t) ?rs))) ''UPDATE 1''
        \<longleftrightarrow> only_if (\<lambda>r. se_tenant_id r = t) (row_at se_session_id ?rs i) \<noteq> None"
      using status_of_count by (simp add: rows_matching [OF d] split: option.split)
    show ?thesis unfolding 3
      using ok count row_at_update [where key = se_session_id and ok = "\<lambda>r. se_tenant_id r = t" and f = "\<lambda>r. r\<lparr>se_state := ''deleted''\<rparr>" and k = i and rs = ?rs]
      by (simp add: simulates_def session_delete_def pool run_update_ok [OF f sub(2) u] reply_of_def)
        (cases "row_at se_session_id ?rs i",
          auto simp: postgres_ok_def postgres_rows_def pool key_of_update fun_eq_iff)
  qed
qed

lemma postgres_step:
  assumes "postgres_ok env s" and "postgres_guard env s x"
  shows "simulates env s x"
  by (cases x) (metis job_steps_simulate [OF assms] pipeline_steps_simulate [OF assms] session_steps_simulate [OF assms])+

interpretation postgres: simulation "postgres_rows env" "postgres_ok env" "postgres_guard env" "persist_step env" row_step reply_view
  for env
  by unfold_locales (simp_all add: postgres_step [unfolded simulates_def])

lemma persist_run_eq: "persist_run env s xs = postgres.run env s xs"
  by (induction xs arbitrary: s) simp_all

fun persist_guarded :: "persist_env \<Rightarrow> persistence \<Rightarrow> persist_op list \<Rightarrow> bool" where
  "persist_guarded env s [] = True"
| "persist_guarded env s (x # xs) = (postgres_guard env s x \<and> persist_guarded env (snd (persist_step env s x)) xs)"

lemma persist_guarded_eq: "persist_guarded env s xs = postgres.guarded_run env s xs"
  by (induction xs arbitrary: s) simp_all

lemma unguarded: "fallback.guarded_run env s xs"
  by (induction xs arbitrary: s) simp_all

section \<open>Properties\<close>


definition no_rows :: "string list \<Rightarrow> 'r pg_table" where
  "no_rows cols = \<lparr>pt_columns = cols, pt_reject = (\<lambda>r. None), pt_rows = []\<rparr>"

definition fresh_process :: persistence where
  "fresh_process =
     \<lparr>ps_pool = \<lparr>dp_initialized = False, dp_open = False\<rparr>, ps_sessions = no_rows session_columns,
      ps_pipelines = no_rows pipeline_columns, ps_jobs = no_rows job_columns,
      ps_session_memory = [], ps_pipeline_memory = [], ps_job_memory = []\<rparr>"

definition with_database :: persist_env where
  "with_database =
     \<lparr>pe_url = ''postgresql://db'', pe_connects = True, pe_lost = False,
      pe_dumps = (\<lambda>j. ''[]''), pe_loads = (\<lambda>x. Some (JList []))\<rparr>"

definition sample_ops :: "persist_op list" where
  "sample_ops =
     [CreateSession ''s'' ''t1'' 14 0, GetSession ''s'' ''t2'', GetSession ''s'' ''t1'', CreatePipeline ''p'' ''t1'' ''n'' (JList []) 5,
      DeleteSession ''s'' ''t1'', GetSession ''s'' ''t1'', DeletePipeline ''p'' ''t2'', GetPipeline ''p'' ''t1'']"


section \<open>The migrated schema\<close>

definition migrated_sessions :: "string list" where
  "migrated_sessions =
     [''session_id'', ''tenant_id'', ''created_at'', ''retention_days'', ''expires_at'', ''state'', ''memory_citations'', ''memory_doc_ids'']"

definition migrated_pipelines :: "string list" where
  "migrated_pipelines = [''pipeline_id'', ''tenant_id'', ''name'', ''created_at'']"

definition migrated_jobs :: "string list" where
  "migrated_jobs =
     [''job_id'', ''tenant_id'', ''session_id'', ''research_goal'', ''output_schema'', ''budgets'', ''state'', ''created_at'']"

text \<open>On the tables of the migrations no session and no pipeline can be created or read.\<close>

lemma migrated_tables_rejected:
  assumes "fst (get_pool env (ps_pool s))" and "\<not> pe_lost env"
    and "pt_columns (ps_sessions s) = migrated_sessions" and "pt_columns (ps_pipelines s) = migrated_pipelines"
  shows "fst (session_create env s i t days at_time) = Inl (UndefinedColumn ''memory'')"
    and "fst (session_get env s i t) = Inl (UndefinedColumn ''memory'')"
    and "fst (pipeline_create env s i t n js at_time) = Inl (UndefinedColumn ''steps'')"
    and "fst (pipeline_get env s i t) = Inl (UndefinedColumn ''steps'')"
proof -
  note [simp] = on_pool_def split_beta assms(1,2)
  have "missing_column [''session_id'', ''tenant_id'', ''retention_days'', ''created_at'', ''state'', ''memory''] (ps_sessions s) = Some ''memory''"
    "missing_column [''pipeline_id'', ''tenant_id'', ''name'', ''steps'', ''created_at''] (ps_pipelines s) = Some ''steps''"
    by (simp_all add: missing_column_def assms(3,4) migrated_sessions_def migrated_pipelines_def)
  then show "fst (session_create env s i t days at_time) = Inl (UndefinedColumn ''memory'')"
    and "fst (session_get env s i t) = Inl (UndefinedColumn ''memory'')"
    and "fst (pipeline_create env s i t n js at_time) = Inl (UndefinedColumn ''steps'')"
    and "fst (pipeline_get env s i t) = Inl (UndefinedColumn ''steps'')"
    by (simp_all add: repository_defs run_insert_def run_select_def)
qed

lemma migrated_jobs_fit: "fits job_columns (no_rows migrated_jobs)"
  by (simp add: fits_def job_columns_def no_rows_def migrated_jobs_def)

section \<open>Departures\<close>

text \<open>Creating under a taken identifier: the database refuses, the fallback replaces the row of another tenant.\<close>

lemma duplicate_identifiers:
  "fst (persist_run with_database fresh_process [CreateSession ''s'' ''t1'' 14 0, CreateSession ''s'' ''t2'' 7 1])
     = [Stored, Failed UniqueViolation]"
  "fst (persist_run (with_database\<lparr>pe_url := []\<rparr>) fresh_process
       [CreateSession ''s'' ''t1'' 14 0, CreateSession ''s'' ''t2'' 7 1, GetSession ''s'' ''t1'']) = [Stored, Stored, SessionIs None]"
  by code_simp+

text \<open>A failed connection is never tried again, not even after \<open>close\<close>.\<close>

lemma failed_pool_is_final:
  "pe_url env \<noteq> [] \<Longrightarrow> \<not> pe_connects env \<Longrightarrow> \<not> dp_initialized p
   \<Longrightarrow> fst (get_pool env' (close_pool (snd (get_pool env p)))) = False"
  by (simp add: get_pool_def close_pool_def)

text \<open>Every tenant that knows a job's identifier can change its state, and a deleted session is deleted again.\<close>

lemma job_state_unscoped:
  "fst (persist_run (with_database\<lparr>pe_url := []\<rparr>) fresh_process
     [CreateJob ''j'' ''t1'' ''goal'' ''queued'' 0, UpdateJob ''j'' ''failed'', GetJob ''j'' ''t1''])
   = [Stored, Stored, JobIs (Some \<lparr>jo_job_id = ''j'', jo_tenant_id = ''t1'', jo_goal = ''goal'', jo_state = ''failed'', jo_created_at = 0\<rparr>)]"
  "fst (persist_run with_database fresh_process
     [CreateSession ''s'' ''t1'' 14 0, DeleteSession ''s'' ''t1'', DeleteSession ''s'' ''t1'']) = [Stored, Removed True, Removed True]"
  by code_simp+

end
