(* ===== verification/OpenSearch.thy ===== *)
theory OpenSearch
  imports Interfaces PyStr
begin

text \<open>
  The client of the search cluster (\<open>retriever/opensearch_client.py\<close>): its lazy connection, the index it
  creates, the documents it writes, the bodies of its two queries and the fusion of their answers.  The
  cluster and its client library are a parameter, \<open>os_service\<close>; a call that raises is \<open>None\<close>.  The
  \<open>Retriever\<close> theory takes the two queries as functions; this theory says what they ask the cluster.
\<close>

section \<open>The client\<close>

text \<open>\<open>oz_format\<close> is how an f-string renders a decoded JSON value.\<close>

record 's os_service =
  oz_connect :: "string \<Rightarrow> bool \<Rightarrow> bool"
  oz_info :: "'s \<Rightarrow> bool"
  oz_exists :: "'s \<Rightarrow> string \<Rightarrow> bool option"
  oz_create :: "'s \<Rightarrow> string \<Rightarrow> json \<Rightarrow> 's option"
  oz_index :: "'s \<Rightarrow> string \<Rightarrow> string \<Rightarrow> json \<Rightarrow> 's option"
  oz_search :: "'s \<Rightarrow> string \<Rightarrow> json \<Rightarrow> json option"
  oz_format :: "json \<Rightarrow> string"

record opensearch =
  oq_url :: string
  oq_client :: bool
  oq_available :: "bool option"

definition new_opensearch :: "string option \<Rightarrow> string \<Rightarrow> opensearch" where
  "new_opensearch url env_url =
     \<lparr>oq_url = (case url of Some u \<Rightarrow> if u \<noteq> [] then u else env_url | None \<Rightarrow> env_url),
      oq_client = False, oq_available = None\<rparr>"

text \<open>The client object is kept before the cluster is probed.\<close>

definition open_client :: "'s os_service \<Rightarrow> 's \<Rightarrow> opensearch \<Rightarrow> bool \<times> opensearch" where
  "open_client sv s q =
     (if oq_client q then (True, q)
      else if oq_url q = [] then (False, q\<lparr>oq_available := Some False\<rparr>)
      else if \<not> oz_connect sv (oq_url q) (starts_with (oq_url q) ''https'') then (False, q\<lparr>oq_available := Some False\<rparr>)
      else if oz_info sv s then (True, q\<lparr>oq_client := True, oq_available := Some True\<rparr>)
      else (False, q\<lparr>oq_client := True, oq_available := Some False\<rparr>))"

definition is_available :: "'s os_service \<Rightarrow> 's \<Rightarrow> opensearch \<Rightarrow> bool \<times> opensearch" where
  "is_available sv s q =
     (let q' = (if oq_available q = None then snd (open_client sv s q) else q)
      in (oq_available q' = Some True, q'))"

definition index_name :: string where
  "index_name = ''documents''"

section \<open>The index and its documents\<close>

definition field_type :: "string \<Rightarrow> json" where
  "field_type t = JObj [(''type'', JStr t)]"

definition index_body :: json where
  "index_body =
     JObj [(''settings'', JObj [(''index'', JObj [(''knn'', JBool True), (''number_of_shards'', JInt 1), (''number_of_replicas'', JInt 0)])]),
           (''mappings'', JObj [(''properties'', JObj
              [(''document_id'', field_type ''keyword''), (''version'', field_type ''integer''),
               (''tenant_id'', field_type ''keyword''), (''url'', field_type ''keyword''), (''title'', field_type ''text''),
               (''cleaned_text'', JObj [(''type'', JStr ''text''), (''analyzer'', JStr ''standard'')]),
               (''embedding'', JObj [(''type'', JStr ''knn_vector''), (''dimension'', JInt 256),
                  (''method'', JObj [(''name'', JStr ''hnsw''), (''space_type'', JStr ''cosinesimil''), (''engine'', JStr ''nmslib'')])]),
               (''credibility_score'', field_type ''float''), (''ai_generated_likelihood'', field_type ''float''),
               (''visible'', field_type ''boolean''), (''indexed_at'', field_type ''date'')])])]"

definition ensure_index :: "'s os_service \<Rightarrow> 's \<Rightarrow> opensearch \<Rightarrow> bool \<times> opensearch \<times> 's" where
  "ensure_index sv s q =
     (let (opened, q') = open_client sv s q
      in if \<not> opened then (False, q', s)
         else (case oz_exists sv s index_name of
                 None \<Rightarrow> (False, q', s)
               | Some True \<Rightarrow> (True, q', s)
               | Some False \<Rightarrow> (case oz_create sv s index_name index_body of
                     None \<Rightarrow> (False, q', s) | Some s' \<Rightarrow> (True, q', s'))))"

record os_document =
  od_document_id :: string
  od_version :: int
  od_tenant_id :: string
  od_url :: string
  od_title :: string
  od_cleaned_text :: string
  od_embedding :: "rat list"
  od_credibility :: rat
  od_ai :: rat

definition document_source :: "string \<Rightarrow> os_document \<Rightarrow> (string, json) dict" where
  "document_source now d =
     [(''document_id'', JStr (od_document_id d)), (''version'', JInt (od_version d)), (''tenant_id'', JStr (od_tenant_id d)),
      (''url'', JStr (od_url d)), (''title'', JStr (od_title d)), (''cleaned_text'', JStr (od_cleaned_text d)),
      (''embedding'', JList (map JReal (od_embedding d))), (''credibility_score'', JReal (od_credibility d)),
      (''ai_generated_likelihood'', JReal (od_ai d)), (''visible'', JBool True), (''indexed_at'', JStr now)]"

text \<open>\<open>now\<close> is the current time in ISO format.\<close>

definition os_index_document ::
  "'s os_service \<Rightarrow> 's \<Rightarrow> opensearch \<Rightarrow> string \<Rightarrow> os_document \<Rightarrow> bool \<times> opensearch \<times> 's" where
  "os_index_document sv s q now d =
     (let (opened, q') = open_client sv s q
      in if \<not> opened then (False, q', s)
         else (case oz_index sv s index_name (od_document_id d @ ''_'' @ str_int (od_version d)) (JObj (document_source now d)) of
                 None \<Rightarrow> (False, q', s) | Some s' \<Rightarrow> (True, q', s')))"

section \<open>Queries\<close>

definition search_body :: "json \<Rightarrow> int \<Rightarrow> string option \<Rightarrow> json" where
  "search_body must n tenant =
     JObj [(''size'', JInt n),
           (''query'', JObj [(''bool'', JObj
              [(''must'', JList [must]),
               (''filter'', JList (JObj [(''term'', JObj [(''visible'', JBool True)])] #
                  (case tenant of Some t \<Rightarrow> if t \<noteq> [] then [JObj [(''term'', JObj [(''tenant_id'', JStr t)])]] else [] | None \<Rightarrow> [])))])])]"

definition keyword_clause :: "string \<Rightarrow> json" where
  "keyword_clause query =
     JObj [(''multi_match'', JObj [(''query'', JStr query), (''fields'', JList [JStr ''title^2'', JStr ''cleaned_text''])])]"

definition vector_clause :: "rat list \<Rightarrow> int \<Rightarrow> json" where
  "vector_clause embedding n =
     JObj [(''knn'', JObj [(''embedding'', JObj [(''vector'', JList (map JReal embedding)), (''k'', JInt n)])])]"

record os_answer =
  on_document_id :: json
  on_version :: json
  on_score :: json
  on_source :: "(string, json) dict"

definition obj_get :: "json \<Rightarrow> string \<Rightarrow> json \<Rightarrow> json option" where
  "obj_get j k v = (case j of JObj d \<Rightarrow> Some (json_get d k v) | _ \<Rightarrow> None)"

definition parse_hit :: "json \<Rightarrow> os_answer option" where
  "parse_hit hit =
     (case obj_get hit ''_source'' (JObj []) of
        Some (JObj source) \<Rightarrow>
          Some \<lparr>on_document_id = json_get source ''document_id'' (JStr []), on_version = json_get source ''version'' (JInt 1),
                on_score = the (obj_get hit ''_score'' (JReal 0)), on_source = source\<rparr>
      | _ \<Rightarrow> None)"

text \<open>\<open>None\<close>: the response has another shape and an exception is raised.\<close>

definition parse_hits :: "json \<Rightarrow> os_answer list option" where
  "parse_hits response =
     (case obj_get response ''hits'' (JObj []) of
        None \<Rightarrow> None
      | Some outer \<Rightarrow>
          (case obj_get outer ''hits'' (JList []) of
             None \<Rightarrow> None
           | Some inner \<Rightarrow>
               (case json_iter inner of
                  None \<Rightarrow> None
                | Some hits \<Rightarrow> if list_all (\<lambda>h. parse_hit h \<noteq> None) hits then Some (List.map_filter parse_hit hits) else None)))"

definition run_search :: "'s os_service \<Rightarrow> 's \<Rightarrow> opensearch \<Rightarrow> json \<Rightarrow> os_answer list \<times> opensearch" where
  "run_search sv s q body =
     (let (opened, q') = open_client sv s q
      in if \<not> opened then ([], q')
         else (case oz_search sv s index_name body of
                 None \<Rightarrow> ([], q')
               | Some response \<Rightarrow> (case parse_hits response of None \<Rightarrow> ([], q') | Some hits \<Rightarrow> (hits, q'))))"

definition os_keyword_search ::
  "'s os_service \<Rightarrow> 's \<Rightarrow> opensearch \<Rightarrow> string \<Rightarrow> int \<Rightarrow> string option \<Rightarrow> os_answer list \<times> opensearch" where
  "os_keyword_search sv s q query n tenant = run_search sv s q (search_body (keyword_clause query) n tenant)"

definition os_vector_search ::
  "'s os_service \<Rightarrow> 's \<Rightarrow> opensearch \<Rightarrow> rat list \<Rightarrow> int \<Rightarrow> string option \<Rightarrow> os_answer list \<times> opensearch" where
  "os_vector_search sv s q embedding n tenant = run_search sv s q (search_body (vector_clause embedding n) n tenant)"

definition answer_key :: "'s os_service \<Rightarrow> os_answer \<Rightarrow> string" where
  "answer_key sv h = oz_format sv (on_document_id h) @ ''_'' @ oz_format sv (on_version h)"

type_synonym fused = "(string, rat) dict \<times> (string, os_answer) dict"

definition fuse_answers :: "'s os_service \<Rightarrow> os_answer list \<Rightarrow> fused \<Rightarrow> fused" where
  "fuse_answers sv hits acc =
     foldl (\<lambda>(scores, sources) (rank, h).
         (dict_set (answer_key sv h)
            ((case dict_get scores (answer_key sv h) of Some x \<Rightarrow> x | None \<Rightarrow> 0) + 1 / (60 + of_nat rank + 1)) scores,
          dict_set (answer_key sv h) h sources))
       acc (enumerate 0 hits)"

definition os_hybrid_search ::
  "'s os_service \<Rightarrow> 's \<Rightarrow> opensearch \<Rightarrow> string \<Rightarrow> rat list \<Rightarrow> int \<Rightarrow> string option \<Rightarrow> os_answer list \<times> opensearch" where
  "os_hybrid_search sv s q query embedding n tenant =
     (let (kw, q1) = os_keyword_search sv s q query (n * 2) tenant;
          (vs, q2) = os_vector_search sv s q1 embedding (n * 2) tenant;
          (scores, sources) = fuse_answers sv vs (fuse_answers sv kw ([], []));
          keys = sort_key (\<lambda>k. - the (dict_get scores k)) (dict_keys scores)
      in (map (\<lambda>k. (the (dict_get sources k))\<lparr>on_score := JReal (the (dict_get scores k))\<rparr>) (py_take n keys), q2))"

section \<open>What the cluster promises of a filtered search\<close>

text \<open>The filter clauses of a body, and when the source of a document satisfies a clause.\<close>

definition body_filters :: "json \<Rightarrow> json list" where
  "body_filters body =
     (case Option.bind (Option.bind (obj_get body ''query'' JNull) (\<lambda>x. obj_get x ''bool'' JNull)) (\<lambda>x. obj_get x ''filter'' JNull) of
        Some (JList fs) \<Rightarrow> fs | _ \<Rightarrow> [])"

definition body_size :: "json \<Rightarrow> int" where
  "body_size body = (case obj_get body ''size'' (JInt 10) of Some (JInt n) \<Rightarrow> n | _ \<Rightarrow> 10)"

fun term_holds :: "(string, json) dict \<Rightarrow> json \<Rightarrow> bool" where
  "term_holds source (JObj [(kind, JObj [(field, v)])]) = (kind = ''term'' \<and> dict_get source field = Some v)"
| "term_holds source _ = False"

definition honours_filters :: "'s os_service \<Rightarrow> bool" where
  "honours_filters sv =
     (\<forall>s index_used body response hits. oz_search sv s index_used body = Some response \<longrightarrow> parse_hits response = Some hits \<longrightarrow>
        int (length hits) \<le> max 0 (body_size body)
        \<and> list_all (\<lambda>h. list_all (term_holds (on_source h)) (body_filters body)) hits)"

definition visible_to :: "string option \<Rightarrow> os_answer \<Rightarrow> bool" where
  "visible_to tenant h =
     (dict_get (on_source h) ''visible'' = Some (JBool True)
      \<and> (case tenant of Some t \<Rightarrow> t \<noteq> [] \<longrightarrow> dict_get (on_source h) ''tenant_id'' = Some (JStr t) | None \<Rightarrow> True))"

section \<open>Lemmas\<close>

lemma search_body_filters:
  "body_filters (search_body must n tenant) = JObj [(''term'', JObj [(''visible'', JBool True)])] #
     (case tenant of Some t \<Rightarrow> if t \<noteq> [] then [JObj [(''term'', JObj [(''tenant_id'', JStr t)])]] else [] | None \<Rightarrow> [])"
  by (simp add: body_filters_def search_body_def obj_get_def json_get_def dict_get_def)

lemma search_body_size: "body_size (search_body must n tenant) = n"
  by (simp add: body_size_def search_body_def obj_get_def json_get_def dict_get_def)

lemma visible_to_filters:
  "list_all (term_holds (on_source h)) (body_filters (search_body must n tenant)) \<longleftrightarrow> visible_to tenant h"
  by (auto simp: search_body_filters visible_to_def split: option.split)

lemma run_search_visible:
  assumes "honours_filters sv" and "fst (run_search sv s q (search_body must n tenant)) = hits"
  shows "int (length hits) \<le> max 0 n \<and> list_all (visible_to tenant) hits"
proof (cases "hits = []")
  case True
  then show ?thesis by simp
next
  case False
  then obtain response where "oz_search sv s index_name (search_body must n tenant) = Some response" "parse_hits response = Some hits"
    using assms(2) by (auto simp: run_search_def Let_def split: prod.splits if_splits option.splits)
  with assms(1) have "int (length hits) \<le> max 0 (body_size (search_body must n tenant))"
    and "list_all (\<lambda>h. list_all (term_holds (on_source h)) (body_filters (search_body must n tenant))) hits"
    unfolding honours_filters_def by blast+
  then show ?thesis by (simp add: search_body_size visible_to_filters)
qed

lemma fuse_snoc:
  "fuse_answers sv (hits @ [h]) acc = (case fuse_answers sv hits acc of (scores, sources) \<Rightarrow>
     (dict_set (answer_key sv h)
        ((case dict_get scores (answer_key sv h) of Some x \<Rightarrow> x | None \<Rightarrow> 0) + 1 / (60 + of_nat (length hits) + 1)) scores,
      dict_set (answer_key sv h) h sources))"
  by (simp add: fuse_answers_def enumerate_append_eq split_beta)

text \<open>Every key with a score has a source, which is one of the hits.\<close>

definition fused_from :: "os_answer set \<Rightarrow> fused \<Rightarrow> bool" where
  "fused_from H acc =
     (dict_ok (fst acc) \<and> fst ` set (fst acc) = fst ` set (snd acc)
      \<and> (\<forall>k h. dict_get (snd acc) k = Some h \<longrightarrow> h \<in> H))"

lemma fused_from_fuse: "fused_from H acc \<Longrightarrow> set hits \<subseteq> H \<Longrightarrow> fused_from H (fuse_answers sv hits acc)"
proof (induction hits rule: rev_induct)
  case Nil
  then show ?case by (simp add: fuse_answers_def)
next
  case (snoc h hits)
  then show ?case by (auto simp: fuse_snoc fused_from_def fst_dict_set split_beta)
qed

section \<open>Properties\<close>


text \<open>A cluster in memory: the documents of the index, those that satisfy the filters, up to the size.\<close>

definition memory_cluster :: "json list os_service" where
  "memory_cluster =
     \<lparr>oz_connect = (\<lambda>url ssl. True), oz_info = (\<lambda>s. True), oz_exists = (\<lambda>s i. Some True), oz_create = (\<lambda>s i b. Some s),
      oz_index = (\<lambda>s i key b. Some (s @ [b])),
      oz_search = (\<lambda>s i body. Some (JObj [(''hits'', JObj [(''hits'', JList
         (take (nat (body_size body)) (map (\<lambda>d. JObj [(''_source'', d), (''_score'', JReal 1)])
            (filter (\<lambda>d. case d of JObj src \<Rightarrow> list_all (term_holds src) (body_filters body) | _ \<Rightarrow> False) s))))])])),
      oz_format = (\<lambda>j. case j of JStr x \<Rightarrow> x | JInt i \<Rightarrow> str_int i | _ \<Rightarrow> [])\<rparr>"

lemma memory_cluster_honours: "honours_filters memory_cluster"
proof -
  have "list_all (\<lambda>h. list_all (term_holds (on_source h)) (body_filters body)) hits \<and> int (length hits) \<le> max 0 (body_size body)"
    if "parse_hits (JObj [(''hits'', JObj [(''hits'', JList (take (nat (body_size body)) (map (\<lambda>d. JObj [(''_source'', d), (''_score'', JReal 1)])
            (filter (\<lambda>d. case d of JObj src \<Rightarrow> list_all (term_holds src) (body_filters body) | _ \<Rightarrow> False) s))))])]) = Some hits" for body s hits
  proof -
    let ?ds = "take (nat (body_size body)) (filter (\<lambda>d. case d of JObj src \<Rightarrow> list_all (term_holds src) (body_filters body) | _ \<Rightarrow> False) s)"
    have h: "hits = List.map_filter parse_hit (map (\<lambda>d. JObj [(''_source'', d), (''_score'', JReal 1)]) ?ds)"
      using that by (auto simp: parse_hits_def obj_get_def json_get_def dict_get_def json_iter_def take_map split: if_splits)
    have "list_all (term_holds (on_source x)) (body_filters body)" if "x \<in> set hits" for x
    proof -
      obtain d where d: "d \<in> set ?ds" "parse_hit (JObj [(''_source'', d), (''_score'', JReal 1)]) = Some x"
        using \<open>x \<in> set hits\<close> by (auto simp: h map_filter_def)
      from d(1) have "case d of JObj src \<Rightarrow> list_all (term_holds src) (body_filters body) | _ \<Rightarrow> False"
        by (auto dest: in_set_takeD)
      then obtain src where "d = JObj src" "list_all (term_holds src) (body_filters body)"
        by (cases d) auto
      with d(2) show ?thesis by (simp add: parse_hit_def obj_get_def json_get_def dict_get_def) auto
    qed
    moreover have "length hits \<le> nat (body_size body)"
      unfolding h map_filter_def by (simp add: le_trans [OF length_filter_le])
    ultimately show ?thesis by (auto simp: list_all_iff)
  qed
  then show ?thesis by (auto simp: honours_filters_def memory_cluster_def)
qed

definition sample_document :: "string \<Rightarrow> string \<Rightarrow> os_document" where
  "sample_document i t =
     \<lparr>od_document_id = i, od_version = 1, od_tenant_id = t, od_url = [], od_title = [], od_cleaned_text = [],
      od_embedding = [], od_credibility = 1/2, od_ai = 1/2\<rparr>"

definition sample_cluster :: "json list" where
  "sample_cluster =
     [JObj (document_source ''now'' (sample_document ''a'' ''t1'')), JObj (document_source ''now'' (sample_document ''b'' ''t2''))]"

definition sample_client :: opensearch where
  "sample_client = \<lparr>oq_url = ''https://search'', oq_client = True, oq_available = Some True\<rparr>"


text \<open>The search of the sample cluster finds the document of the tenant, and without a tenant both.\<close>

lemma sample_answers:
  "map on_document_id (fst (os_keyword_search memory_cluster sample_cluster sample_client ''q'' 5 (Some ''t1''))) = [JStr ''a'']"
  "map on_document_id (fst (os_keyword_search memory_cluster sample_cluster sample_client ''q'' 5 None)) = [JStr ''a'', JStr ''b'']"
  by (simp_all add: os_keyword_search_def run_search_def open_client_def sample_client_def memory_cluster_def search_body_size
      search_body_filters sample_cluster_def sample_document_def document_source_def dict_get_def parse_hits_def parse_hit_def obj_get_def
      json_get_def json_iter_def map_filter_simps)

section \<open>Connection\<close>

text \<open>
  Without an address, or when the client library cannot make a client, nothing is searched or written and
  every search is empty.
\<close>

lemma unreachable_is_empty:
  assumes "\<not> oq_client q" and "oq_url q = [] \<or> \<not> oz_connect sv (oq_url q) (starts_with (oq_url q) ''https'')"
  shows "fst (os_keyword_search sv s q query n tenant) = []" and "fst (os_vector_search sv s q e n tenant) = []"
    and "ensure_index sv s q = (False, q\<lparr>oq_available := Some False\<rparr>, s)"
    and "os_index_document sv s q now d = (False, q\<lparr>oq_available := Some False\<rparr>, s)"
  using assms by (auto simp: os_keyword_search_def os_vector_search_def run_search_def ensure_index_def os_index_document_def open_client_def)

text \<open>\<open>ensure_index\<close> twice creates the index once, and says yes both times.\<close>

lemma ensure_index_idempotent:
  assumes "ensure_index sv s q = (True, q', s')" and "oz_exists sv s' index_name = Some True"
  shows "ensure_index sv s' q' = (True, q', s')"
proof -
  have "oq_client q'" using assms(1) by (auto simp: ensure_index_def open_client_def Let_def split: if_splits option.splits bool.splits)
  then show ?thesis using assms(2) by (simp add: ensure_index_def open_client_def)
qed

section \<open>Departures\<close>

text \<open>
  The client is kept although the probe failed: the first call after a failed probe is refused, the next
  ones go to the cluster, while \<open>is_available\<close> stays false for ever.
\<close>

lemma failed_probe_keeps_client:
  assumes "\<not> oq_client q" and "oq_url q \<noteq> []" and "oz_connect sv (oq_url q) (starts_with (oq_url q) ''https'')" and "\<not> oz_info sv s"
  shows "\<not> fst (open_client sv s q)" and "fst (open_client sv s' (snd (open_client sv s q)))"
    and "\<not> fst (is_available sv s' (snd (open_client sv s q)))"
  using assms by (simp_all add: open_client_def is_available_def)

text \<open>A search with an empty tenant is not filtered by tenant.\<close>

lemma empty_tenant_unfiltered: "search_body must n (Some []) = search_body must n None"
  by (simp add: search_body_def)

end
