(* ===== verification/SearchCluster.thy ===== *)
theory SearchCluster
  imports Retriever OpenSearch
begin

text \<open>
  The two users of the search cluster, composed: the write of a document by the indexer
  (\<open>_write_indexes\<close> of \<open>indexer/service.py\<close>) and the searches of the retriever
  (\<open>_execute_opensearch_retrieval\<close> of \<open>retriever/service.py\<close>), through the client of \<open>OpenSearch\<close>.
\<close>

section \<open>Writing\<close>

definition os_title :: "string \<Rightarrow> string" where
  "os_title txt = (if txt \<noteq> [] then take 100 (hd (split_on CHR 0x0A txt)) else [])"

definition os_document_of :: "(string \<Rightarrow> rat list) \<Rightarrow> document_version \<Rightarrow> os_document" where
  "os_document_of embedding d =
     \<lparr>od_document_id = dv_document_id d, od_version = dv_version d, od_tenant_id = [], od_url = dv_url d,
      od_title = os_title (dv_text d), od_cleaned_text = dv_text d, od_embedding = embedding (dv_text d),
      od_credibility = (case dv_provenance d of Some p \<Rightarrow> pv_credibility p | None \<Rightarrow> 1/2),
      od_ai = (case dv_provenance d of Some p \<Rightarrow> pv_ai p | None \<Rightarrow> 1/2)\<rparr>"

text \<open>A new client for every write; failures are swallowed.\<close>

definition write_opensearch ::
  "'s os_service \<Rightarrow> string \<Rightarrow> string \<Rightarrow> (string \<Rightarrow> rat list) \<Rightarrow> 's \<Rightarrow> document_version \<Rightarrow> 's" where
  "write_opensearch sv env_url now embedding s d =
     (let (available, q) = is_available sv s (new_opensearch None env_url)
      in if available then snd (snd (os_index_document sv s q now (os_document_of embedding d))) else s)"

section \<open>Searching\<close>

text \<open>The hits of the client as the retriever reads them, when they have the types that \<open>index_document\<close> writes.\<close>

definition to_hit :: "os_answer \<Rightarrow> os_hit option" where
  "to_hit h =
     (case (on_document_id h, on_version h, json_num (on_score h), json_get (on_source h) ''url'' (JStr []),
            json_get (on_source h) ''title'' (JStr []), json_num (json_get (on_source h) ''credibility_score'' (JReal (1/2))),
            json_num (json_get (on_source h) ''ai_generated_likelihood'' (JReal (1/2)))) of
        (JStr i, JInt n, Some x, JStr url, JStr title, Some c, Some a) \<Rightarrow>
          Some \<lparr>oh_id = i, oh_version = n, oh_score = x, oh_url = url, oh_title = title, oh_credibility = c, oh_ai = a\<rparr>
      | _ \<Rightarrow> None)"

definition client_of :: "'s os_service \<Rightarrow> 's \<Rightarrow> opensearch \<Rightarrow> os_client" where
  "client_of sv s q =
     \<lparr>oc_keyword = (\<lambda>query n tenant. List.map_filter to_hit (fst (os_keyword_search sv s q query n (Some tenant)))),
      oc_vector = (\<lambda>e n tenant. List.map_filter to_hit (fst (os_vector_search sv s q e n (Some tenant))))\<rparr>"

section \<open>What was written is not found\<close>

text \<open>\<open>holds docs sv\<close>: a search answers with documents that were written, and only writing adds documents.\<close>

definition holds :: "('s \<Rightarrow> json set) \<Rightarrow> 's os_service \<Rightarrow> bool" where
  "holds docs sv =
     ((\<forall>s i k b s'. oz_index sv s i k b = Some s' \<longrightarrow> docs s' \<subseteq> insert b (docs s))
      \<and> (\<forall>s i body response hits. oz_search sv s i body = Some response \<longrightarrow> parse_hits response = Some hits \<longrightarrow>
           (\<forall>h \<in> set hits. JObj (on_source h) \<in> docs s)))"

definition global_document :: "json \<Rightarrow> bool" where
  "global_document j = (case j of JObj d \<Rightarrow> dict_get d ''tenant_id'' = Some (JStr []) | _ \<Rightarrow> False)"

lemma written_global: "global_document (JObj (document_source now (os_document_of embedding d)))"
  by (simp add: global_document_def document_source_def os_document_of_def dict_get_def)

lemma write_keeps_global:
  assumes "holds docs sv" and "\<forall>j \<in> docs s. global_document j"
  shows "\<forall>j \<in> docs (write_opensearch sv env_url now embedding s d). global_document j"
proof -
  obtain a q where a: "is_available sv s (new_opensearch None env_url) = (a, q)" by fastforce
  obtain opened q' where o: "open_client sv s q = (opened, q')" by fastforce
  let ?src = "JObj (document_source now (os_document_of embedding d))"
  show ?thesis
  proof (cases "a \<and> opened")
    case False
    with assms(2) show ?thesis by (auto simp: write_opensearch_def a os_index_document_def o)
  next
    case True
    show ?thesis
    proof (cases "oz_index sv s index_name (od_document_id (os_document_of embedding d) @ ''_'' @ str_int (od_version (os_document_of embedding d))) ?src")
      case None
      with assms(2) True show ?thesis by (simp add: write_opensearch_def a os_index_document_def o)
    next
      case (Some s')
      with True have "write_opensearch sv env_url now embedding s d = s'" by (simp add: write_opensearch_def a os_index_document_def o)
      moreover have "docs s' \<subseteq> insert ?src (docs s)" using assms(1) Some unfolding holds_def by blast
      ultimately show ?thesis using assms(2) written_global by blast
    qed
  qed
qed

lemma writes_keep_global:
  assumes "holds docs sv" and "docs s = {}"
  shows "\<forall>j \<in> docs (foldl (\<lambda>s (now, d). write_opensearch sv env_url now embedding s d) s ds). global_document j"
  using assms(2)
proof (induction ds rule: rev_induct)
  case (snoc x ds)
  then show ?case using write_keeps_global [OF assms(1)] by (simp add: split_beta)
qed simp

lemma tenant_search_empty:
  assumes "holds docs sv" and "honours_filters sv" and "\<forall>j \<in> docs s. global_document j" and "t \<noteq> []"
  shows "fst (run_search sv s q (search_body must n (Some t))) = []"
proof (rule ccontr)
  assume ne: "fst (run_search sv s q (search_body must n (Some t))) \<noteq> []"
  then obtain response hits where r: "oz_search sv s index_name (search_body must n (Some t)) = Some response"
    "parse_hits response = Some hits" "hits = fst (run_search sv s q (search_body must n (Some t)))"
    by (auto simp: run_search_def Let_def split: prod.splits if_splits option.splits)
  then have "hits \<noteq> []" using ne by simp
  then obtain h where h: "h \<in> set hits" by (meson last_in_set)
  have "visible_to (Some t) h" using run_search_visible [OF assms(2) r(3) [symmetric]] h by (simp add: list_all_iff)
  moreover have "global_document (JObj (on_source h))" using assms(1,3) r(1,2) h unfolding holds_def by blast
  ultimately show False using assms(4) by (simp add: visible_to_def global_document_def)
qed

text \<open>
  The indexer writes every document without a tenant, and the retriever asks for those of the tenant of
  the request: as soon as a cluster is available, no search of a tenant finds any indexed document, in
  any mode, whatever was indexed.
\<close>

theorem cluster_search_finds_nothing:
  assumes "holds docs sv" and "honours_filters sv" and "docs s0 = {}"
    and "s = foldl (\<lambda>s (now, d). write_opensearch sv env_url now embedding s d) s0 ds"
    and "re_opensearch env = Some (client_of sv s q)" and "rq_tenant r \<noteq> []"
  shows "execute_retrieval env ix at_time r = []"
proof -
  have "\<forall>j \<in> docs s. global_document j" unfolding assms(4) by (rule writes_keep_global [OF assms(1,3)])
  then have empty: "oc_keyword (client_of sv s q) x n (rq_tenant r) = []" "oc_vector (client_of sv s q) e n (rq_tenant r) = []" for x n e
    using tenant_search_empty [OF assms(1,2)] assms(6)
    by (simp_all add: client_of_def os_keyword_search_def os_vector_search_def map_filter_simps)
  then have "Retriever.hybrid_search (client_of sv s q) x e n (rq_tenant r) = []" for x e n
    by (simp add: Retriever.hybrid_search_def dict_keys_def cut_def py_take_def)
  with empty have "opensearch_hits env (client_of sv s q) r = []"
    by (cases "rq_mode r") (simp_all add: opensearch_hits_def Let_def)
  then show ?thesis by (simp add: execute_retrieval_def assms(5) opensearch_retrieval_def)
qed

text \<open>The cluster in memory is such a cluster.\<close>

lemma memory_cluster_holds: "holds set memory_cluster"
proof -
  have "JObj (on_source h) \<in> set s"
    if "parse_hits (JObj [(''hits'', JObj [(''hits'', JList (take n (map (\<lambda>d. JObj [(''_source'', d), (''_score'', JReal 1)]) (filter f s))))])])
      = Some hits" "h \<in> set hits" for s n f hits h
  proof -
    have "hits = List.map_filter parse_hit (map (\<lambda>d. JObj [(''_source'', d), (''_score'', JReal 1)]) (take n (filter f s)))"
      using that(1) by (auto simp: parse_hits_def obj_get_def json_get_def dict_get_def json_iter_def take_map split: if_splits)
    with that(2) obtain d where d: "d \<in> set (take n (filter f s))" "parse_hit (JObj [(''_source'', d), (''_score'', JReal 1)]) = Some h"
      by (auto simp: List.map_filter_def)
    have "d \<in> set s" using in_set_takeD [OF d(1)] by simp
    with d(2) show ?thesis by (auto simp: parse_hit_def obj_get_def json_get_def dict_get_def split: json.splits)
  qed
  then show ?thesis by (auto simp: holds_def memory_cluster_def)
qed

definition sample_version :: document_version where
  "sample_version =
     \<lparr>dv_document_id = ''d'', dv_version = 1, dv_hash = [], dv_text = ''Title'', dv_url = ''https://a.com/'', dv_last_seen = 0,
      dv_created = 0, dv_provenance = None, dv_visible = True\<rparr>"

text \<open>The sample version is written, is found without a tenant, and is not found for a tenant.\<close>

lemma sample_written_not_found:
  assumes "re_opensearch env = Some (client_of memory_cluster
      (write_opensearch memory_cluster ''https://search'' ''now'' (\<lambda>_. []) [] sample_version) sample_client)"
    and "rq_tenant r = ''t1''"
  shows "execute_retrieval env ix at_time r = []"
    and "map on_document_id (fst (os_keyword_search memory_cluster
      (write_opensearch memory_cluster ''https://search'' ''now'' (\<lambda>_. []) [] sample_version) sample_client ''q'' 5 None)) = [JStr ''d'']"
proof -
  show "execute_retrieval env ix at_time r = []"
    by (rule cluster_search_finds_nothing [OF memory_cluster_holds memory_cluster_honours, of "[]" _ "''https://search''" "\<lambda>_. []" "[(''now'', sample_version)]"])
      (use assms in simp_all)
  show "map on_document_id (fst (os_keyword_search memory_cluster
      (write_opensearch memory_cluster ''https://search'' ''now'' (\<lambda>_. []) [] sample_version) sample_client ''q'' 5 None)) = [JStr ''d'']"
    by (simp add: write_opensearch_def is_available_def new_opensearch_def open_client_def os_index_document_def memory_cluster_def
        os_keyword_search_def run_search_def sample_client_def search_body_size search_body_filters sample_version_def os_document_of_def
        document_source_def dict_get_def parse_hits_def parse_hit_def obj_get_def json_get_def json_iter_def map_filter_simps)
qed

end
