(* ===== verification/Embeddings.thy ===== *)
theory Embeddings
  imports PyStr
begin

text \<open>
  Embeddings of text (\<open>indexer/embeddings.py\<close>): the choice between the remote model and the fallback, and
  the fallback, which hashes.  The reply of the remote model (\<open>None\<close> when anything raises), MD5 as a list
  of bytes, UTF-8, and the square root are parameters; floats are exact rationals.  The index the vectors
  are written to is in the \<open>Indexer\<close> theory, where the embedding is a parameter.
\<close>

record embedding_env =
  en_api_key :: string
  en_remote :: "string \<Rightarrow> nat \<Rightarrow> rat list option"
  en_md5 :: "nat list \<Rightarrow> nat list"
  en_encode :: "string \<Rightarrow> nat list"
  en_sqrt :: "rat \<Rightarrow> rat"

definition default_dim :: nat where
  "default_dim = 256"

text \<open>\<open>struct.unpack('>I', h[:4])\<close>.\<close>

definition unpack_be :: "nat list \<Rightarrow> nat" where
  "unpack_be bs = foldl (\<lambda>n b. 256 * n + b) 0 (take 4 bs)"

definition raw_component :: "embedding_env \<Rightarrow> string \<Rightarrow> nat \<Rightarrow> rat" where
  "raw_component env txt i =
     of_nat (unpack_be (en_md5 env (en_encode env (txt @ '':'' @ str_nat i)))) / 4294967295 * 2 - 1"

definition hash_embedding :: "embedding_env \<Rightarrow> string \<Rightarrow> nat \<Rightarrow> rat list" where
  "hash_embedding env txt width =
     (let embedding = map (raw_component env txt) [0..<width];
          magnitude = en_sqrt env (sum_list (map (\<lambda>x. x * x) embedding))
      in if magnitude > 0 then map (\<lambda>x. x / magnitude) embedding else embedding)"

definition openai_embedding :: "embedding_env \<Rightarrow> string \<Rightarrow> nat \<Rightarrow> rat list option" where
  "openai_embedding env txt width = en_remote env (take 8000 txt) width"

definition generate_embedding :: "embedding_env \<Rightarrow> string \<Rightarrow> nat \<Rightarrow> rat list" where
  "generate_embedding env txt width =
     (case (if en_api_key env \<noteq> [] then openai_embedding env txt width else None) of
        Some v \<Rightarrow> v
      | None \<Rightarrow> hash_embedding env txt width)"

section \<open>Lemmas\<close>

lemma unpack_be_bound:
  assumes "list_all (\<lambda>b. b < 256) bs"
  shows "unpack_be bs < 4294967296"
proof -
  have "foldl (\<lambda>n b. 256 * n + b) a bs < (a + 1) * 256 ^ length bs" if "list_all (\<lambda>b. b < 256) bs" for a :: nat and bs
    using that
  proof (induction bs arbitrary: a)
    case (Cons b bs)
    then have "foldl (\<lambda>n b. 256 * n + b) (256 * a + b) bs < (256 * a + b + 1) * 256 ^ length bs" by simp
    also have "\<dots> \<le> (256 * (a + 1)) * 256 ^ length bs" using Cons.prems by (intro mult_right_mono) auto
    finally show ?case by (simp add: algebra_simps)
  qed simp
  from this [of "take 4 bs" 0] assms have "unpack_be bs < 256 ^ length (take 4 bs)"
    by (auto simp: unpack_be_def list_all_iff dest: in_set_takeD)
  also have "\<dots> \<le> 256 ^ 4" by (intro power_increasing) auto
  finally show ?thesis by simp
qed

text \<open>Every component before normalisation is in \<open>[-1, 1]\<close>.\<close>

lemma raw_component_range:
  assumes "\<And>x. list_all (\<lambda>b. b < 256) (en_md5 env x)"
  shows "- 1 \<le> raw_component env txt i" and "raw_component env txt i \<le> 1"
proof -
  let ?n = "unpack_be (en_md5 env (en_encode env (txt @ '':'' @ str_nat i)))"
  have "?n \<le> 4294967295" using unpack_be_bound [OF assms, of "en_encode env (txt @ '':'' @ str_nat i)"] by linarith
  then have "rat_of_nat ?n \<le> of_nat 4294967295" by (simp only: of_nat_le_iff)
  then show "- 1 \<le> raw_component env txt i" "raw_component env txt i \<le> 1"
    by (simp_all add: raw_component_def divide_simps)
qed

lemma hash_embedding_length: "length (hash_embedding env txt width) = width"
  by (simp add: hash_embedding_def Let_def)

lemma sum_squares_scaled: "sum_list (map (\<lambda>x. (x / c) * (x / c)) xs) = sum_list (map (\<lambda>x. x * x) xs) / (c * c)" for c :: rat
  by (induction xs) (simp_all add: add_divide_distrib)

text \<open>With an exact square root the fallback has unit length, unless every component is zero.\<close>

lemma hash_embedding_unit:
  assumes "\<And>x. 0 \<le> x \<Longrightarrow> 0 \<le> en_sqrt env x \<and> en_sqrt env x * en_sqrt env x = x"
  shows "sum_list (map (\<lambda>x. x * x) (hash_embedding env txt width)) = 1 \<or> hash_embedding env txt width = replicate width 0"
proof -
  let ?e = "map (raw_component env txt) [0..<width]" let ?q = "sum_list (map (\<lambda>x. x * x) ?e)"
  have q: "0 \<le> ?q" by (rule sum_list_nonneg) auto
  show ?thesis
  proof (cases "en_sqrt env ?q > 0")
    case True
    then have "en_sqrt env ?q * en_sqrt env ?q \<noteq> 0" by simp
    then have "?q / (en_sqrt env ?q * en_sqrt env ?q) = 1" using conjunct2 [OF assms [OF q]] by (metis divide_self)
    moreover have "hash_embedding env txt width = map (\<lambda>x. x / en_sqrt env ?q) ?e"
      using True by (simp add: hash_embedding_def Let_def)
    moreover have "sum_list (map (\<lambda>x. x * x) (map (\<lambda>x. x / en_sqrt env ?q) ?e)) = ?q / (en_sqrt env ?q * en_sqrt env ?q)"
      unfolding sum_squares_scaled [symmetric] by (simp only: map_map comp_def)
    ultimately show ?thesis by metis
  next
    case False
    with assms [OF q] have "?q = 0" by (simp add: less_le)
    moreover have "\<And>y. y \<in> set (map (\<lambda>x. x * x) ?e) \<Longrightarrow> 0 \<le> y" by auto
    ultimately have "\<forall>y \<in> set (map (\<lambda>x. x * x) ?e). y = 0" by (subst (asm) sum_list_nonneg_eq_0_iff) auto
    then have "?e = replicate width 0" by (intro replicate_eqI) auto
    with False show ?thesis by (simp add: hash_embedding_def Let_def)
  qed
qed

text \<open>Without a key, or when the remote call raises, the text is hashed: equal texts have equal embeddings.\<close>

lemma fallback_embedding:
  "en_api_key env = [] \<or> openai_embedding env txt width = None \<Longrightarrow> generate_embedding env txt width = hash_embedding env txt width"
  by (auto simp: generate_embedding_def)

text \<open>The remote model sees the first 8000 characters only: texts that agree there are embedded alike.\<close>

lemma remote_prefix_only:
  "en_api_key env \<noteq> [] \<Longrightarrow> take 8000 a = take 8000 b \<Longrightarrow> openai_embedding env a width \<noteq> None
   \<Longrightarrow> generate_embedding env a width = generate_embedding env b width"
  by (auto simp: generate_embedding_def openai_embedding_def)

end
