(* ===== verification/Observability.thy ===== *)
theory Observability
  imports Pii
begin

text \<open>
  Observability (\<open>backend/observability/\<close>): the registry of metrics (\<open>metrics.py\<close>), the redaction of log
  events and its place in the chain of processors (\<open>logging.py\<close>), and the attributes and the status of a
  traced span (\<open>tracing.py\<close>).  The processors of the logging library and the exporters are parameters.
\<close>

section \<open>Metrics\<close>

record metrics_registry =
  mx_search :: "(string, rat list) dict"
  mx_auth :: "rat list"
  mx_first_token :: "rat list"
  mx_research_job :: "rat list"
  mx_parser :: "rat list"
  mx_ingest :: "rat list"
  mx_http_duration :: "(string, rat list) dict"
  mx_http_total :: "(string, nat) dict"
  mx_rejections :: "(string, nat) dict"
  mx_dlq :: nat
  mx_auth_failures :: nat
  mx_search_errors :: nat
  mx_active_jobs :: nat
  mx_active_connections :: nat
  mx_cache_hit_ratio :: rat
  mx_document_count :: nat

definition new_registry :: metrics_registry where
  "new_registry =
     \<lparr>mx_search = [], mx_auth = [], mx_first_token = [], mx_research_job = [], mx_parser = [], mx_ingest = [],
      mx_http_duration = [], mx_http_total = [], mx_rejections = [], mx_dlq = 0, mx_auth_failures = 0, mx_search_errors = 0,
      mx_active_jobs = 0, mx_active_connections = 0, mx_cache_hit_ratio = 0, mx_document_count = 0\<rparr>"

text \<open>Append to the list under a key that may be new.\<close>

definition append_under :: "string \<Rightarrow> rat \<Rightarrow> (string, rat list) dict \<Rightarrow> (string, rat list) dict" where
  "append_under k x d = dict_set k ((case dict_get d k of Some xs \<Rightarrow> xs | None \<Rightarrow> []) @ [x]) d"

definition count_under :: "string \<Rightarrow> (string, nat) dict \<Rightarrow> (string, nat) dict" where
  "count_under k d = dict_set k ((case dict_get d k of Some n \<Rightarrow> n | None \<Rightarrow> 0) + 1) d"

definition record_search_latency :: "rat \<Rightarrow> string \<Rightarrow> metrics_registry \<Rightarrow> metrics_registry" where
  "record_search_latency x cache r = r\<lparr>mx_search := append_under (''cache='' @ cache) x (mx_search r)\<rparr>"

definition record_auth_latency :: "rat \<Rightarrow> metrics_registry \<Rightarrow> metrics_registry" where
  "record_auth_latency x r = r\<lparr>mx_auth := mx_auth r @ [x]\<rparr>"

definition record_first_token_latency :: "rat \<Rightarrow> metrics_registry \<Rightarrow> metrics_registry" where
  "record_first_token_latency x r = r\<lparr>mx_first_token := mx_first_token r @ [x]\<rparr>"

definition record_research_job_latency :: "rat \<Rightarrow> metrics_registry \<Rightarrow> metrics_registry" where
  "record_research_job_latency x r = r\<lparr>mx_research_job := mx_research_job r @ [x]\<rparr>"

definition record_parser_latency :: "rat \<Rightarrow> metrics_registry \<Rightarrow> metrics_registry" where
  "record_parser_latency x r = r\<lparr>mx_parser := mx_parser r @ [x]\<rparr>"

definition record_ingest_latency :: "rat \<Rightarrow> metrics_registry \<Rightarrow> metrics_registry" where
  "record_ingest_latency x r = r\<lparr>mx_ingest := mx_ingest r @ [x]\<rparr>"

definition http_key :: "string \<Rightarrow> string \<Rightarrow> int \<Rightarrow> string" where
  "http_key verb endpoint status = verb @ '':'' @ endpoint @ '':'' @ str_int status"

definition record_http_request :: "string \<Rightarrow> string \<Rightarrow> int \<Rightarrow> rat \<Rightarrow> metrics_registry \<Rightarrow> metrics_registry" where
  "record_http_request verb endpoint status x r =
     r\<lparr>mx_http_duration := append_under (http_key verb endpoint status) x (mx_http_duration r),
       mx_http_total := count_under (http_key verb endpoint status) (mx_http_total r)\<rparr>"

definition increment_rate_limit_rejections :: "string \<Rightarrow> metrics_registry \<Rightarrow> metrics_registry" where
  "increment_rate_limit_rejections tenant r = r\<lparr>mx_rejections := count_under tenant (mx_rejections r)\<rparr>"

definition increment_dlq :: "metrics_registry \<Rightarrow> metrics_registry" where
  "increment_dlq r = r\<lparr>mx_dlq := mx_dlq r + 1\<rparr>"

definition recorder :: "string \<Rightarrow> (rat \<Rightarrow> metrics_registry \<Rightarrow> metrics_registry) option" where
  "recorder name =
     (if name = ''search'' then Some (\<lambda>x. record_search_latency x ''warm'')
      else if name = ''auth'' then Some record_auth_latency
      else if name = ''first_token'' then Some record_first_token_latency
      else if name = ''research_job'' then Some record_research_job_latency
      else if name = ''parser'' then Some record_parser_latency
      else if name = ''ingest'' then Some record_ingest_latency
      else None)"

text \<open>
  \<open>timer\<close>: the timed block may raise and may itself use the registry; the duration is recorded when it is
  left, either way.
\<close>

definition timer :: "string \<Rightarrow> rat \<Rightarrow> rat \<Rightarrow> (metrics_registry \<Rightarrow> ('e + 'a) \<times> metrics_registry) \<Rightarrow> metrics_registry
    \<Rightarrow> ('e + 'a) \<times> metrics_registry" where
  "timer name start finish block r =
     (let (result, r') = block r
      in (result, case recorder name of Some f \<Rightarrow> f (finish - start) r' | None \<Rightarrow> r'))"

text \<open>The global registry: \<open>setup_metrics\<close> replaces it, \<open>get_metrics\<close> makes it when it is missing.\<close>

definition setup_metrics :: "metrics_registry option \<Rightarrow> metrics_registry \<times> metrics_registry option" where
  "setup_metrics global_registry = (new_registry, Some new_registry)"

definition get_metrics :: "metrics_registry option \<Rightarrow> metrics_registry \<times> metrics_registry option" where
  "get_metrics global_registry =
     (case global_registry of Some r \<Rightarrow> (r, Some r) | None \<Rightarrow> (new_registry, Some new_registry))"

section \<open>Log redaction\<close>

definition ascii_letter :: "char \<Rightarrow> bool" where
  "ascii_letter c \<longleftrightarrow> (65 \<le> cp c \<and> cp c \<le> 90) \<or> (97 \<le> cp c \<and> cp c \<le> 122)"

definition log_email :: rx where
  "log_email = seq [Many (Cls (\<lambda>c. ascii_alnum c \<or> c \<in> set ''._%+-'')), one CHR ''@'',
     Many (Cls (\<lambda>c. ascii_alnum c \<or> c \<in> set ''.-'')), one CHR ''.'', Cls ascii_letter, Many (Cls ascii_letter)]"

definition log_phone :: rx where
  "log_phone = seq [optional (one CHR ''+''), optional (one CHR ''1''), Rep 10 15 digit]"

definition log_ssn :: rx where
  "log_ssn = seq [WordB, digits 3, optional (one CHR ''-''), digits 2, optional (one CHR ''-''), digits 4, WordB]"

definition log_card :: rx where
  "log_card =
     (let gap = optional (Cls (\<lambda>c. py_isspace c \<or> c = CHR ''-''))
      in seq [WordB, digits 4, gap, digits 4, gap, digits 4, gap, digits 4, WordB])"

definition log_patterns :: "(string \<times> rx) list" where
  "log_patterns = [(''EMAIL'', log_email), (''PHONE'', log_phone), (''SSN'', log_ssn), (''CREDIT_CARD'', log_card)]"

text \<open>\<open>pattern.sub(replacement, s)\<close>.\<close>

fun sub_spans :: "nat \<Rightarrow> string \<Rightarrow> string \<Rightarrow> (nat \<times> nat) list \<Rightarrow> string" where
  "sub_spans p s replacement [] = drop p s"
| "sub_spans p s replacement ((i, e) # spans) = slice s p i @ replacement @ sub_spans e s replacement spans"

definition rx_sub :: "rx \<Rightarrow> string \<Rightarrow> string \<Rightarrow> string" where
  "rx_sub r replacement s = sub_spans 0 s replacement (find_all r s)"

definition redact_log_text :: "string \<Rightarrow> string" where
  "redact_log_text value = foldl (\<lambda>s (name, r). rx_sub r (''[REDACTED_'' @ name @ '']'') s) value log_patterns"

definition sensitive_fields :: "string list" where
  "sensitive_fields = [''api_key'', ''bearer_token'', ''password'', ''secret'', ''key_hash'', ''authorization'']"

definition redact_field :: "string \<Rightarrow> json \<Rightarrow> json" where
  "redact_field key value =
     (if py_lower key \<in> set sensitive_fields then JStr ''[REDACTED]''
      else (case value of JStr s \<Rightarrow> JStr (redact_log_text s) | _ \<Rightarrow> value))"

definition pii_redactor :: "(string, json) dict \<Rightarrow> (string, json) dict" where
  "pii_redactor d = map (\<lambda>(k, v). (k, redact_field k v)) d"

definition set_missing :: "string \<Rightarrow> json \<Rightarrow> (string, json) dict \<Rightarrow> (string, json) dict" where
  "set_missing k v d = (case dict_get d k of Some x \<Rightarrow> d | None \<Rightarrow> dict_set k v d)"

record deployment =
  de_service :: string
  de_environment :: string
  de_version :: string

definition add_service_context :: "deployment \<Rightarrow> (string, json) dict \<Rightarrow> (string, json) dict" where
  "add_service_context c d =
     set_missing ''version'' (JStr (de_version c))
       (set_missing ''environment'' (JStr (de_environment c)) (set_missing ''service'' (JStr (de_service c)) d))"

text \<open>
  The chain of processors: those of the library before the two of the program, \<open>format_exc_info\<close> (which
  replaces the exception of the event by its text) and the renderer after them.  \<open>None\<close>: the event is
  dropped by its level.
\<close>

record log_library =
  lg_before :: "(string, json) dict \<Rightarrow> (string, json) dict option"
  lg_format_exc_info :: "(string, json) dict \<Rightarrow> (string, json) dict"
  lg_render :: "(string, json) dict \<Rightarrow> string"

definition log_line :: "log_library \<Rightarrow> deployment \<Rightarrow> (string, json) dict \<Rightarrow> string option" where
  "log_line lib c d =
     map_option (\<lambda>e. lg_render lib (lg_format_exc_info lib (pii_redactor (add_service_context c e)))) (lg_before lib d)"

text \<open>\<open>get_logger\<close> and \<open>bind_request_context\<close>: the fields every event of the logger carries.\<close>

definition logger_bindings :: "string \<Rightarrow> string option \<Rightarrow> string option \<Rightarrow> string option \<Rightarrow> (string, json) dict" where
  "logger_bindings name tenant request endpoint =
     (''subsystem'', JStr name) #
     concat (map (\<lambda>(k, v). case v of Some s \<Rightarrow> if s \<noteq> [] then [(k, JStr s)] else [] | None \<Rightarrow> [])
       [(''tenant_id'', tenant), (''request_id'', request), (''endpoint'', endpoint)])"

definition bind_request_context :: "(string, json) dict \<Rightarrow> string \<Rightarrow> string \<Rightarrow> string \<Rightarrow> (string, json) dict" where
  "bind_request_context bound tenant request endpoint =
     [(''tenant_id'', JStr tenant), (''request_id'', JStr request), (''endpoint'', JStr endpoint)]"

section \<open>Spans\<close>

definition span_attributes :: "(string, json) dict \<Rightarrow> string option \<Rightarrow> string option \<Rightarrow> (string, json) dict" where
  "span_attributes attributes tenant request =
     foldl (\<lambda>d (k, v). dict_set k v d)
       (concat (map (\<lambda>(k, v). case v of Some s \<Rightarrow> if s \<noteq> [] then [(k, JStr s)] else [] | None \<Rightarrow> [])
          [(''tenant.id'', tenant), (''request.id'', request)])) attributes"

record trace_record =
  sp_name :: string
  sp_attributes :: "(string, json) dict"
  sp_error :: "string option"

text \<open>The block of a span, and the span it leaves: an exception is its error, and goes on.\<close>

definition trace_span :: "string \<Rightarrow> (string, json) dict \<Rightarrow> string option \<Rightarrow> string option \<Rightarrow> string + 'a \<Rightarrow> (string + 'a) \<times> trace_record" where
  "trace_span name attributes tenant request result =
     (result, \<lparr>sp_name = name, sp_attributes = span_attributes attributes tenant request,
               sp_error = (case result of Inl e \<Rightarrow> Some e | Inr x \<Rightarrow> None)\<rparr>)"

definition subsystem_tracer :: "(string, 't) dict \<Rightarrow> (string \<Rightarrow> 't) \<Rightarrow> string \<Rightarrow> 't \<times> (string, 't) dict" where
  "subsystem_tracer tracers tracer_of subsystem =
     (case dict_get tracers subsystem of
        Some t \<Rightarrow> (t, tracers)
      | None \<Rightarrow> (tracer_of (''agentic_research.'' @ subsystem), dict_set subsystem (tracer_of (''agentic_research.'' @ subsystem)) tracers))"

section \<open>Metrics add up\<close>

datatype metric_event =
    HttpRequest string string int rat
  | RateLimited string
  | DeadLetter
  | Timed string rat rat

fun record_event :: "metrics_registry \<Rightarrow> metric_event \<Rightarrow> metrics_registry" where
  "record_event r (HttpRequest verb endpoint status x) = record_http_request verb endpoint status x r"
| "record_event r (RateLimited tenant) = increment_rate_limit_rejections tenant r"
| "record_event r DeadLetter = increment_dlq r"
| "record_event r (Timed name start finish) = snd (timer name start finish (\<lambda>r. (Inr () :: unit + unit, r)) r)"

definition record_all :: "metric_event list \<Rightarrow> metrics_registry" where
  "record_all es = foldl record_event new_registry es"

fun http_durations :: "string \<Rightarrow> metric_event list \<Rightarrow> rat list" where
  "http_durations k [] = []"
| "http_durations k (HttpRequest verb endpoint status x # es) =
     (if http_key verb endpoint status = k then x # http_durations k es else http_durations k es)"
| "http_durations k (e # es) = http_durations k es"

lemma http_durations_append: "http_durations k (es @ fs) = http_durations k es @ http_durations k fs"
  by (induction es rule: http_durations.induct) auto

definition listed :: "(string, 'a list) dict \<Rightarrow> string \<Rightarrow> 'a list" where
  "listed d k = (case dict_get d k of Some xs \<Rightarrow> xs | None \<Rightarrow> [])"

definition counted :: "(string, nat) dict \<Rightarrow> string \<Rightarrow> nat" where
  "counted d k = (case dict_get d k of Some n \<Rightarrow> n | None \<Rightarrow> 0)"

lemma listed_append [simp]: "listed (append_under k x d) k' = (if k' = k then listed d k @ [x] else listed d k')"
  by (simp add: listed_def append_under_def)

lemma counted_count [simp]: "counted (count_under k d) k' = (if k' = k then counted d k + 1 else counted d k')"
  by (simp add: counted_def count_under_def)

lemmas recorder_defs = recorder_def record_search_latency_def record_auth_latency_def record_first_token_latency_def
  record_research_job_latency_def record_parser_latency_def record_ingest_latency_def

lemma timer_other [simp]:
  "mx_http_duration (snd (timer name a b (\<lambda>r. (res, r)) r)) = mx_http_duration r"
  "mx_http_total (snd (timer name a b (\<lambda>r. (res, r)) r)) = mx_http_total r"
  "mx_rejections (snd (timer name a b (\<lambda>r. (res, r)) r)) = mx_rejections r"
  "mx_dlq (snd (timer name a b (\<lambda>r. (res, r)) r)) = mx_dlq r"
  by (simp_all add: timer_def recorder_defs)

lemma record_all_snoc: "record_all (es @ [e]) = record_event (record_all es) e"
  by (simp add: record_all_def)

text \<open>
  The registry after any events: the durations of a route are those of its requests, in order, and every
  counter is the number of its events.
\<close>

lemma metrics_add_up:
  "listed (mx_http_duration (record_all es)) k = http_durations k es"
  "counted (mx_http_total (record_all es)) k = length (http_durations k es)"
  "counted (mx_rejections (record_all es)) t = count_list es (RateLimited t)"
  "mx_dlq (record_all es) = count_list es DeadLetter"
proof (induction es rule: rev_induct)
  case Nil
  {
    case 1 then show ?case by (simp add: record_all_def new_registry_def listed_def)
  next
    case 2 then show ?case by (simp add: record_all_def new_registry_def counted_def)
  next
    case 3 then show ?case by (simp add: record_all_def new_registry_def counted_def)
  next
    case 4 then show ?case by (simp add: record_all_def new_registry_def)
  }
next
  case (snoc e es)
  {
    case 1 then show ?case using snoc.IH(1)
      by (cases e) (auto simp: record_all_snoc record_http_request_def increment_rate_limit_rejections_def increment_dlq_def http_durations_append)
  next
    case 2 then show ?case using snoc.IH(2)
      by (cases e) (auto simp: record_all_snoc record_http_request_def increment_rate_limit_rejections_def increment_dlq_def http_durations_append)
  next
    case 3 then show ?case using snoc.IH(3)
      by (cases e) (auto simp: record_all_snoc record_http_request_def increment_rate_limit_rejections_def increment_dlq_def)
  next
    case 4 then show ?case using snoc.IH(4)
      by (cases e) (auto simp: record_all_snoc record_http_request_def increment_rate_limit_rejections_def increment_dlq_def)
  }
qed

text \<open>A timed block keeps its result, and is measured once also when it raises; an unknown name measures nothing.\<close>

lemma timer_keeps_result: "fst (timer name a b block r) = fst (block r)"
  by (simp add: timer_def split_beta)

lemma timer_measures_failure:
  "mx_parser (snd (timer ''parser'' a b (\<lambda>r. (Inl e, r)) r)) = mx_parser r @ [b - a]"
  "recorder name = None \<Longrightarrow> snd (timer name a b (\<lambda>r. (Inl e, r)) r) = r"
  by (simp_all add: timer_def recorder_defs)

lemma get_metrics_stable: "get_metrics (snd (get_metrics g)) = (fst (get_metrics g), snd (get_metrics g))"
  by (simp add: get_metrics_def split: option.split)

section \<open>What reaches the log\<close>

definition masked :: "(string, json) dict \<Rightarrow> (string, json) dict" where
  "masked d = map (\<lambda>(k, v). (k, if py_lower k \<in> set sensitive_fields then JNull else v)) d"

lemma redactor_of_masked: "pii_redactor d = pii_redactor (masked d)"
  by (induction d) (auto simp: pii_redactor_def masked_def redact_field_def)

lemma pii_redactor_get: "dict_get (pii_redactor d) k = map_option (redact_field k) (dict_get d k)"
  by (induction d) (auto simp: pii_redactor_def dict_get_def)

lemma service_context_masked:
  "masked d = masked d' \<Longrightarrow> masked (add_service_context c d) = masked (add_service_context c d')"
proof -
  have get: "dict_get (masked d) k = map_option (\<lambda>v. if py_lower k \<in> set sensitive_fields then JNull else v) (dict_get d k)" for d k
    by (induction d) (auto simp: masked_def dict_get_def)
  have app: "masked (d @ [(k, v)]) = masked d @ masked [(k, v)]" for d k v by (simp add: masked_def)
  have one: "masked (set_missing k v d) = masked (set_missing k v d')" if "masked d = masked d'" for k v d d'
  proof -
    have "dict_get d k = None \<longleftrightarrow> dict_get d' k = None" using get [of d k] get [of d' k] that by auto
    then show ?thesis using that by (auto simp: set_missing_def dict_set_new app split: option.split)
  qed
  assume "masked d = masked d'"
  then show ?thesis unfolding add_service_context_def by (intro one)
qed

text \<open>
  Secrets do not reach the log: two events that differ only in the values of sensitive fields, in any
  spelling of the field names, are logged as the same line.
\<close>

lemma secrets_not_logged:
  assumes "lg_before lib d = Some e" and "lg_before lib d' = Some e'" and "masked e = masked e'"
  shows "log_line lib c d = log_line lib c d'"
proof -
  have "pii_redactor (add_service_context c e) = pii_redactor (add_service_context c e')"
    using service_context_masked [OF assms(3), of c] redactor_of_masked by metis
  with assms(1,2) show ?thesis by (simp add: log_line_def)
qed

section \<open>Departures\<close>

text \<open>
  The pattern of telephone numbers comes first and takes up to fifteen digits of any number, so the last
  digit of a card number stays in the log.
\<close>

lemma card_number_cut: "redact_log_text ''card 4111111111111111'' = ''card [REDACTED_PHONE]1''"
  by code_simp

text \<open>Only strings at the top of an event are redacted, and only those of known formats.\<close>

lemma nested_not_redacted:
  "redact_field ''user'' (JObj [(''email'', JStr ''a@b.co''), (''password'', JStr ''x'')]) = JObj [(''email'', JStr ''a@b.co''), (''password'', JStr ''x'')]"
  "redact_field ''user'' (JStr ''a@b.co'') = JStr ''[REDACTED_EMAIL]''"
  by code_simp+

text \<open>
  The text of an exception is added to the event after redaction, so it is logged as it is.
\<close>

lemma exception_not_redacted:
  assumes "lg_before lib d = Some d" and "lg_format_exc_info lib = (\<lambda>e. dict_set ''exception'' (JStr trace) e)"
    and "\<And>e. lg_render lib e = (case dict_get e ''exception'' of Some (JStr t) \<Rightarrow> t | _ \<Rightarrow> [])"
  shows "log_line lib c d = Some trace"
  using assms by (simp add: log_line_def)

text \<open>The attributes given for a span replace the tenant of the request.\<close>

lemma span_tenant_replaced: "span_attributes [(''tenant.id'', JStr ''b'')] (Some ''a'') None = [(''tenant.id'', JStr ''b'')]"
  by code_simp

end
