(* ===== verification/OpenApi.thy ===== *)
theory OpenApi
  imports McpServer Http
begin

text \<open>
  The published contract of the API: the document of \<open>api_gateway/openapi_spec.py\<close>, definition by definition,
  and how it agrees with the request models, the router and the error codes of the implementation.  What
  a schema says of a value is \<open>conforms\<close> of the \<open>McpServer\<close> theory; formats are annotations only.
\<close>

section \<open>The document\<close>

definition str_list :: "string list \<Rightarrow> json" where
  "str_list xs = JList (map JStr xs)"

definition schema_ref :: "string \<Rightarrow> json" where
  "schema_ref name = JObj [(''$ref'', JStr (''#/components/schemas/'' @ name))]"

definition response_ref :: "string \<Rightarrow> json" where
  "response_ref name = JObj [(''$ref'', JStr (''#/components/responses/'' @ name))]"

definition json_content :: "json \<Rightarrow> json" where
  "json_content schema = JObj [(''application/json'', JObj [(''schema'', schema)])]"

definition doc_error_detail :: "json" where
  "doc_error_detail =
     typed ''object'' [(''required'', str_list [''code'', ''message'']), (''properties'', JObj [(''code'',
     typed ''string'' [(''description'', JStr ''Stable error code'')]), (''message'', typed ''string''
     [(''description'', JStr ''Human-readable description'')])])]"

definition doc_error_response :: "json" where
  "doc_error_response =
     typed ''object'' [(''required'', str_list [''error'']), (''properties'', JObj [(''error'', schema_ref
     ''ErrorDetail'')])]"

definition doc_provenance_info :: "json" where
  "doc_provenance_info =
     typed ''object'' [(''required'', str_list [''credibility_score'', ''ai_generated_likelihood'',
     ''scored_at'']), (''properties'', JObj [(''credibility_score'', typed ''number'' [(''minimum'', JReal 0),
     (''maximum'', JReal 1)]), (''ai_generated_likelihood'', typed ''number'' [(''minimum'', JReal 0),
     (''maximum'', JReal 1)]), (''scored_at'', typed ''string'' [(''format'', JStr ''date-time'')])])]"

definition doc_search_result :: "json" where
  "doc_search_result =
     typed ''object'' [(''required'', str_list [''document_id'', ''url'', ''title'', ''score'',
     ''provenance'']), (''properties'', JObj [(''document_id'', typed ''string'' [(''format'', JStr
     ''uuid'')]), (''url'', typed ''string'' [(''format'', JStr ''uri'')]), (''title'', typed ''string'' []),
     (''score'', typed ''number'' [(''minimum'', JReal 0), (''maximum'', JReal 1)]), (''published_at'', JObj
     [(''type'', str_list [''string'', ''null'']), (''format'', JStr ''date-time'')]), (''provenance'',
     schema_ref ''ProvenanceInfo'')])]"

definition doc_search_request :: "json" where
  "doc_search_request =
     typed ''object'' [(''required'', str_list [''query'', ''mode'']), (''properties'', JObj [(''query'', typed
     ''string'' [(''minLength'', JInt 1), (''maxLength'', JInt 2048)]), (''mode'', typed ''string'' [(''enum'',
     str_list [''neural'', ''keyword'', ''hybrid''])]), (''num_results'', typed ''integer'' [(''minimum'', JInt
     0), (''maximum'', JInt 100), (''default'', JInt 10)]), (''filters'', typed ''string'' [(''description'',
     JStr ''Query_Filter_DSL string'')]), (''pipeline_id'', typed ''string'' [(''format'', JStr ''uuid'')]),
     (''min_credibility'', typed ''number'' [(''minimum'', JReal 0), (''maximum'', JReal 1)]),
     (''max_ai_generated_likelihood'', typed ''number'' [(''minimum'', JReal 0), (''maximum'', JReal 1)])])]"

definition doc_search_response :: "json" where
  "doc_search_response =
     typed ''object'' [(''required'', str_list [''results'']), (''properties'', JObj [(''results'', typed
     ''array'' [(''items'', schema_ref ''SearchResult'')]), (''warnings'', typed ''array'' [(''items'', typed
     ''object'' [(''properties'', JObj [(''code'', typed ''string'' []), (''step'', typed ''string''
     [])])])])])]"

definition doc_find_similar_request :: "json" where
  "doc_find_similar_request =
     typed ''object'' [(''required'', str_list [''url'']), (''properties'', JObj [(''url'', typed ''string''
     [(''format'', JStr ''uri''), (''maxLength'', JInt 2048)]), (''num_results'', typed ''integer''
     [(''minimum'', JInt 0), (''maximum'', JInt 100), (''default'', JInt 10)]), (''filters'', typed ''string''
     []), (''min_credibility'', typed ''number'' [(''minimum'', JReal 0), (''maximum'', JReal 1)]),
     (''max_ai_generated_likelihood'', typed ''number'' [(''minimum'', JReal 0), (''maximum'', JReal 1)])])]"

definition doc_contents_request :: "json" where
  "doc_contents_request =
     typed ''object'' [(''required'', str_list [''document_ids'']), (''properties'', JObj [(''document_ids'',
     typed ''array'' [(''items'', typed ''string'' [(''format'', JStr ''uuid'')]), (''minItems'', JInt 1),
     (''maxItems'', JInt 100)]), (''highlights'', typed ''boolean'' [(''default'', JBool False)]), (''query'',
     typed ''string'' []), (''summary'', typed ''boolean'' [(''default'', JBool False)])])]"

definition doc_content_entry :: "json" where
  "doc_content_entry =
     typed ''object'' [(''properties'', JObj [(''document_id'', typed ''string'' [(''format'', JStr
     ''uuid'')]), (''version'', typed ''integer'' []), (''cleaned_text'', typed ''string'' []),
     (''highlights'', typed ''array'' [(''items'', typed ''object'' [(''properties'', JObj [(''start'', typed
     ''integer'' [(''minimum'', JInt 0)]), (''end'', typed ''integer'' [(''minimum'', JInt 0)])])]),
     (''maxItems'', JInt 5)]), (''summary'', typed ''string'' []), (''error'', schema_ref ''ErrorDetail'')])]"

definition doc_contents_response :: "json" where
  "doc_contents_response =
     typed ''object'' [(''required'', str_list [''results'']), (''properties'', JObj [(''results'', typed
     ''array'' [(''items'', schema_ref ''ContentEntry'')])])]"

definition doc_answer_request :: "json" where
  "doc_answer_request =
     typed ''object'' [(''required'', str_list [''query'']), (''properties'', JObj [(''query'', typed
     ''string'' [(''minLength'', JInt 1), (''maxLength'', JInt 2048)]), (''mode'', typed ''string'' [(''enum'',
     str_list [''neural'', ''keyword'', ''hybrid'']), (''default'', JStr ''hybrid'')]), (''num_results'', typed
     ''integer'' [(''minimum'', JInt 1), (''maximum'', JInt 100), (''default'', JInt 10)]), (''stream'', typed
     ''boolean'' [(''default'', JBool True)]), (''session_id'', typed ''string'' [(''format'', JStr
     ''uuid'')])])]"

definition doc_citation :: "json" where
  "doc_citation =
     typed ''object'' [(''required'', str_list [''document_id'', ''version'', ''answer_start'', ''answer_end'',
     ''source_start'', ''source_end'']), (''properties'', JObj [(''document_id'', typed ''string''
     [(''format'', JStr ''uuid'')]), (''version'', typed ''integer'' []), (''answer_start'', typed ''integer''
     [(''minimum'', JInt 0)]), (''answer_end'', typed ''integer'' [(''minimum'', JInt 0)]), (''source_start'',
     typed ''integer'' [(''minimum'', JInt 0)]), (''source_end'', typed ''integer'' [(''minimum'', JInt 0)])])]"

definition doc_token_event :: "json" where
  "doc_token_event =
     typed ''object'' [(''required'', str_list [''text'', ''index'']), (''properties'', JObj [(''text'', typed
     ''string'' []), (''index'', typed ''integer'' [])])]"

definition doc_done_event :: "json" where
  "doc_done_event =
     typed ''object'' [(''required'', str_list [''answer'', ''citations'']), (''properties'', JObj
     [(''answer'', typed ''string'' []), (''citations'', typed ''array'' [(''items'', schema_ref
     ''Citation'')])])]"

definition doc_stream_error_event :: "json" where
  "doc_stream_error_event =
     typed ''object'' [(''required'', str_list [''code'', ''message'']), (''properties'', JObj [(''code'',
     typed ''string'' [(''enum'', str_list [''no_sources_available'', ''stream_timeout'', ''model_error'',
     ''internal_error'', ''client_cancelled''])]), (''message'', typed ''string'' [])])]"

definition doc_research_request :: "json" where
  "doc_research_request =
     typed ''object'' [(''required'', str_list [''research_goal'']), (''properties'', JObj [(''research_goal'',
     typed ''string'' [(''minLength'', JInt 1), (''maxLength'', JInt 4096)]), (''output_schema'', typed
     ''object'' [(''description'', JStr ''JSON Schema for structured output'')]), (''session_id'', typed
     ''string'' [(''format'', JStr ''uuid'')]), (''max_steps'', typed ''integer'' [(''minimum'', JInt 1)]),
     (''max_duration_ms'', typed ''integer'' [(''minimum'', JInt 1000)]), (''max_tool_calls'', typed
     ''integer'' [(''minimum'', JInt 1)])])]"

definition doc_research_job :: "json" where
  "doc_research_job =
     typed ''object'' [(''required'', str_list [''job_id'', ''state'', ''created_at'']), (''properties'', JObj
     [(''job_id'', typed ''string'' [(''format'', JStr ''uuid'')]), (''state'', typed ''string'' [(''enum'',
     str_list [''queued'', ''planning'', ''running'', ''succeeded'', ''failed'', ''budget_exceeded''])]),
     (''created_at'', typed ''string'' [(''format'', JStr ''date-time'')]), (''report'', typed ''object'' []),
     (''citations'', typed ''array'' [(''items'', schema_ref ''Citation'')])])]"

definition doc_plan_step :: "json" where
  "doc_plan_step =
     typed ''object'' [(''required'', str_list [''step_id'', ''type'']), (''properties'', JObj [(''step_id'',
     typed ''string'' [(''format'', JStr ''uuid'')]), (''type'', typed ''string'' [(''enum'', str_list
     [''sub_query'', ''retrieval'', ''read'', ''synthesis''])])])]"

definition doc_research_event :: "json" where
  "doc_research_event =
     typed ''object'' [(''required'', str_list [''event_id'', ''type'', ''data'']), (''properties'', JObj
     [(''event_id'', typed ''integer'' []), (''type'', typed ''string'' [(''enum'', str_list [''plan_updated'',
     ''step_started'', ''step_completed'', ''citation'', ''report_chunk'', ''done'', ''error''])]), (''data'',
     typed ''object'' [])])]"

definition doc_session_create_request :: "json" where
  "doc_session_create_request =
     typed ''object'' [(''properties'', JObj [(''retention_days'', typed ''integer'' [(''minimum'', JInt 1),
     (''maximum'', JInt 90), (''default'', JInt 14)])])]"

definition doc_session :: "json" where
  "doc_session =
     typed ''object'' [(''required'', str_list [''session_id'', ''created_at'', ''retention_days'']),
     (''properties'', JObj [(''session_id'', typed ''string'' [(''format'', JStr ''uuid'')]), (''created_at'',
     typed ''string'' [(''format'', JStr ''date-time'')]), (''retention_days'', typed ''integer'' []),
     (''expires_at'', typed ''string'' [(''format'', JStr ''date-time'')])])]"

definition doc_pipeline_step :: "json" where
  "doc_pipeline_step =
     typed ''object'' [(''required'', str_list [''type'', ''registry_name'']), (''properties'', JObj
     [(''type'', typed ''string'' [(''enum'', str_list [''filter'', ''reranker'', ''transform''])]),
     (''registry_name'', typed ''string'' []), (''config'', typed ''object'' []), (''timeout_ms'', typed
     ''integer'' [(''minimum'', JInt 100), (''maximum'', JInt 30000), (''default'', JInt 2000)])])]"

definition doc_pipeline_create_request :: "json" where
  "doc_pipeline_create_request =
     typed ''object'' [(''required'', str_list [''name'', ''steps'']), (''properties'', JObj [(''name'', typed
     ''string'' []), (''steps'', typed ''array'' [(''items'', schema_ref ''PipelineStepDef''), (''minItems'',
     JInt 1), (''maxItems'', JInt 20)])])]"

definition doc_pipeline :: "json" where
  "doc_pipeline =
     typed ''object'' [(''required'', str_list [''pipeline_id'', ''name'', ''steps'', ''created_at'']),
     (''properties'', JObj [(''pipeline_id'', typed ''string'' [(''format'', JStr ''uuid'')]), (''name'', typed
     ''string'' []), (''steps'', typed ''array'' [(''items'', schema_ref ''PipelineStepDef'')]),
     (''created_at'', typed ''string'' [(''format'', JStr ''date-time'')])])]"

definition doc_schemas :: "(string, json) dict" where
  "doc_schemas =
     [(''ErrorDetail'', doc_error_detail), (''ErrorResponse'', doc_error_response), (''ProvenanceInfo'',
     doc_provenance_info), (''SearchResult'', doc_search_result), (''SearchRequest'', doc_search_request),
     (''SearchResponse'', doc_search_response), (''FindSimilarRequest'', doc_find_similar_request),
     (''ContentsRequest'', doc_contents_request), (''ContentEntry'', doc_content_entry), (''ContentsResponse'',
     doc_contents_response), (''AnswerRequest'', doc_answer_request), (''Citation'', doc_citation),
     (''TokenEvent'', doc_token_event), (''DoneEvent'', doc_done_event), (''StreamErrorEvent'',
     doc_stream_error_event), (''ResearchRequest'', doc_research_request), (''ResearchJob'', doc_research_job),
     (''PlanStep'', doc_plan_step), (''ResearchEvent'', doc_research_event), (''SessionCreateRequest'',
     doc_session_create_request), (''Session'', doc_session), (''PipelineStepDef'', doc_pipeline_step),
     (''PipelineCreateRequest'', doc_pipeline_create_request), (''Pipeline'', doc_pipeline)]"

definition doc_responses :: "(string, json) dict" where
  "doc_responses =
     [(''BadRequest'', JObj [(''description'', JStr ''Validation error''), (''content'', json_content
     (schema_ref ''ErrorResponse''))]), (''Unauthorized'', JObj [(''description'', JStr
     ''Authentication failed''), (''content'', json_content (schema_ref ''ErrorResponse''))]), (''NotFound'',
     JObj [(''description'', JStr ''Resource not found''), (''content'', json_content (schema_ref
     ''ErrorResponse''))]), (''RateLimited'', JObj [(''description'', JStr ''Rate limit exceeded''),
     (''content'', json_content (schema_ref ''ErrorResponse''))])]"

definition path_search :: "(string, json) dict" where
  "path_search =
     [(''post'', JObj [(''operationId'', JStr ''search''), (''summary'', JStr
     ''Neural, keyword, or hybrid search (R3)''), (''tags'', str_list [''Search'']), (''requestBody'', JObj
     [(''required'', JBool True), (''content'', json_content (schema_ref ''SearchRequest''))]), (''responses'',
     JObj [(''200'', JObj [(''description'', JStr ''Search results''), (''content'', json_content (schema_ref
     ''SearchResponse'')), (''headers'', JObj [(''X-Index-Version'', JObj [(''schema'', typed ''integer'' []),
     (''description'', JStr ''Monotonic index version'')]), (''X-Request-Id'', JObj [(''schema'', typed
     ''string'' [])]), (''X-RateLimit-Limit'', JObj [(''schema'', typed ''integer'' [])]),
     (''X-RateLimit-Remaining'', JObj [(''schema'', typed ''integer'' [])]), (''X-RateLimit-Reset'', JObj
     [(''schema'', typed ''integer'' [])])])]), (''400'', response_ref ''BadRequest''), (''401'', response_ref
     ''Unauthorized''), (''429'', response_ref ''RateLimited'')])])]"

definition path_find_similar :: "(string, json) dict" where
  "path_find_similar =
     [(''post'', JObj [(''operationId'', JStr ''findSimilar''), (''summary'', JStr
     ''Find semantically similar documents (R4)''), (''tags'', str_list [''Search'']), (''requestBody'', JObj
     [(''required'', JBool True), (''content'', json_content (schema_ref ''FindSimilarRequest''))]),
     (''responses'', JObj [(''200'', JObj [(''description'', JStr ''Similar results''), (''content'',
     json_content (schema_ref ''SearchResponse''))]), (''400'', response_ref ''BadRequest''), (''401'',
     response_ref ''Unauthorized''), (''404'', response_ref ''NotFound''), (''429'', response_ref
     ''RateLimited'')])])]"

definition path_contents :: "(string, json) dict" where
  "path_contents =
     [(''post'', JObj [(''operationId'', JStr ''getContents''), (''summary'', JStr
     ''Retrieve cleaned text, highlights, summaries (R5)''), (''tags'', str_list [''Content'']),
     (''requestBody'', JObj [(''required'', JBool True), (''content'', json_content (schema_ref
     ''ContentsRequest''))]), (''responses'', JObj [(''200'', JObj [(''description'', JStr
     ''Content entries''), (''content'', json_content (schema_ref ''ContentsResponse''))]), (''400'',
     response_ref ''BadRequest''), (''401'', response_ref ''Unauthorized''), (''429'', response_ref
     ''RateLimited'')])])]"

definition path_answer :: "(string, json) dict" where
  "path_answer =
     [(''post'', JObj [(''operationId'', JStr ''answer''), (''summary'', JStr
     ''Streaming answer with citations (R6)''), (''tags'', str_list [''Answer'']), (''requestBody'', JObj
     [(''required'', JBool True), (''content'', json_content (schema_ref ''AnswerRequest''))]), (''responses'',
     JObj [(''200'', JObj [(''description'', JStr ''SSE stream of token/citation/done/error events''),
     (''content'', JObj [(''text/event-stream'', JObj [(''schema'', typed ''string'' [(''description'', JStr
     ''SSE stream with event types: token, citation, done, error'')])])])]), (''400'', response_ref
     ''BadRequest''), (''401'', response_ref ''Unauthorized''), (''429'', response_ref ''RateLimited'')])])]"

definition path_research :: "(string, json) dict" where
  "path_research =
     [(''post'', JObj [(''operationId'', JStr ''createResearch''), (''summary'', JStr
     ''Launch a multi-hop research job (R7)''), (''tags'', str_list [''Research'']), (''requestBody'', JObj
     [(''required'', JBool True), (''content'', json_content (schema_ref ''ResearchRequest''))]),
     (''responses'', JObj [(''201'', JObj [(''description'', JStr ''Job created''), (''content'', json_content
     (typed ''object'' [(''required'', str_list [''job_id'']), (''properties'', JObj [(''job_id'', typed
     ''string'' [(''format'', JStr ''uuid'')])])]))]), (''400'', response_ref ''BadRequest''), (''401'',
     response_ref ''Unauthorized''), (''429'', response_ref ''RateLimited'')])])]"

definition path_research_job_id :: "(string, json) dict" where
  "path_research_job_id =
     [(''get'', JObj [(''operationId'', JStr ''getResearchJob''), (''summary'', JStr
     ''Get research job report (R7.4)''), (''tags'', str_list [''Research'']), (''parameters'', JList [JObj
     [(''name'', JStr ''job_id''), (''in'', JStr ''path''), (''required'', JBool True), (''schema'', typed
     ''string'' [(''format'', JStr ''uuid'')])]]), (''responses'', JObj [(''200'', JObj [(''description'', JStr
     ''Research job with report''), (''content'', json_content (schema_ref ''ResearchJob''))]), (''401'',
     response_ref ''Unauthorized''), (''404'', response_ref ''NotFound''), (''429'', response_ref
     ''RateLimited'')])])]"

definition path_research_job_id_events :: "(string, json) dict" where
  "path_research_job_id_events =
     [(''get'', JObj [(''operationId'', JStr ''getResearchEvents''), (''summary'', JStr
     ''SSE event stream for research job (R7.3)''), (''tags'', str_list [''Research'']), (''parameters'', JList
     [JObj [(''name'', JStr ''job_id''), (''in'', JStr ''path''), (''required'', JBool True), (''schema'',
     typed ''string'' [(''format'', JStr ''uuid'')])], JObj [(''name'', JStr ''Last-Event-ID''), (''in'', JStr
     ''header''), (''schema'', typed ''integer'' [])]]), (''responses'', JObj [(''200'', JObj
     [(''description'', JStr ''SSE event stream''), (''content'', JObj [(''text/event-stream'', JObj
     [(''schema'', typed ''string'' [])])])]), (''401'', response_ref ''Unauthorized''), (''404'', response_ref
     ''NotFound''), (''429'', response_ref ''RateLimited'')])])]"

definition path_sessions :: "(string, json) dict" where
  "path_sessions =
     [(''post'', JObj [(''operationId'', JStr ''createSession''), (''summary'', JStr
     ''Create a research session (R8)''), (''tags'', str_list [''Sessions'']), (''requestBody'', JObj
     [(''required'', JBool True), (''content'', json_content (schema_ref ''SessionCreateRequest''))]),
     (''responses'', JObj [(''201'', JObj [(''description'', JStr ''Session created''), (''content'',
     json_content (schema_ref ''Session''))]), (''400'', response_ref ''BadRequest''), (''401'', response_ref
     ''Unauthorized''), (''429'', response_ref ''RateLimited'')])])]"

definition path_sessions_session_id :: "(string, json) dict" where
  "path_sessions_session_id =
     [(''delete'', JObj [(''operationId'', JStr ''deleteSession''), (''summary'', JStr
     ''Delete a session (R8)''), (''tags'', str_list [''Sessions'']), (''parameters'', JList [JObj [(''name'',
     JStr ''session_id''), (''in'', JStr ''path''), (''required'', JBool True), (''schema'', typed ''string''
     [(''format'', JStr ''uuid'')])]]), (''responses'', JObj [(''204'', JObj [(''description'', JStr
     ''Session deleted'')]), (''401'', response_ref ''Unauthorized''), (''404'', response_ref ''NotFound''),
     (''429'', response_ref ''RateLimited'')])])]"

definition path_pipelines :: "(string, json) dict" where
  "path_pipelines =
     [(''post'', JObj [(''operationId'', JStr ''createPipeline''), (''summary'', JStr
     ''Create a retrieval pipeline (R9)''), (''tags'', str_list [''Pipelines'']), (''requestBody'', JObj
     [(''required'', JBool True), (''content'', json_content (schema_ref ''PipelineCreateRequest''))]),
     (''responses'', JObj [(''201'', JObj [(''description'', JStr ''Pipeline created''), (''content'',
     json_content (schema_ref ''Pipeline''))]), (''400'', response_ref ''BadRequest''), (''401'', response_ref
     ''Unauthorized''), (''429'', response_ref ''RateLimited'')])])]"

definition path_pipelines_pipeline_id :: "(string, json) dict" where
  "path_pipelines_pipeline_id =
     [(''get'', JObj [(''operationId'', JStr ''getPipeline''), (''summary'', JStr ''Get pipeline definition''),
     (''tags'', str_list [''Pipelines'']), (''parameters'', JList [JObj [(''name'', JStr ''pipeline_id''),
     (''in'', JStr ''path''), (''required'', JBool True), (''schema'', typed ''string'' [(''format'', JStr
     ''uuid'')])]]), (''responses'', JObj [(''200'', JObj [(''description'', JStr ''Pipeline definition''),
     (''content'', json_content (schema_ref ''Pipeline''))]), (''401'', response_ref ''Unauthorized''),
     (''404'', response_ref ''NotFound''), (''429'', response_ref ''RateLimited'')])]), (''delete'', JObj
     [(''operationId'', JStr ''deletePipeline''), (''summary'', JStr ''Delete a pipeline''), (''tags'',
     str_list [''Pipelines'']), (''parameters'', JList [JObj [(''name'', JStr ''pipeline_id''), (''in'', JStr
     ''path''), (''required'', JBool True), (''schema'', typed ''string'' [(''format'', JStr ''uuid'')])]]),
     (''responses'', JObj [(''204'', JObj [(''description'', JStr ''Pipeline deleted'')]), (''401'',
     response_ref ''Unauthorized''), (''404'', response_ref ''NotFound''), (''429'', response_ref
     ''RateLimited'')])])]"

definition path_openapi_json :: "(string, json) dict" where
  "path_openapi_json =
     [(''get'', JObj [(''operationId'', JStr ''getOpenApiSpec''), (''summary'', JStr
     ''Get OpenAPI specification (R16.4)''), (''tags'', str_list [''Meta'']), (''security'', JList []),
     (''responses'', JObj [(''200'', JObj [(''description'', JStr ''OpenAPI 3.1 specification''), (''content'',
     json_content (typed ''object'' []))])])])]"

definition doc_paths :: "(string, (string, json) dict) dict" where
  "doc_paths =
     [(''/search'', path_search), (''/find_similar'', path_find_similar), (''/contents'', path_contents),
     (''/answer'', path_answer), (''/research'', path_research), (''/research/{job_id}'',
     path_research_job_id), (''/research/{job_id}/events'', path_research_job_id_events), (''/sessions'',
     path_sessions), (''/sessions/{session_id}'', path_sessions_session_id), (''/pipelines'', path_pipelines),
     (''/pipelines/{pipeline_id}'', path_pipelines_pipeline_id), (''/openapi.json'', path_openapi_json)]"

definition doc_error_codes :: "string list" where
  "doc_error_codes =
     [''missing_token'', ''invalid_token'', ''expired_token'', ''revoked_token'', ''invalid_num_results'',
     ''invalid_mode'', ''invalid_query'', ''invalid_url'', ''invalid_document_id_count'',
     ''missing_highlight_query'', ''invalid_research_request'', ''invalid_threshold'', ''resource_not_found'',
     ''pipeline_not_found'', ''job_not_found'', ''session_not_found'', ''unknown_url'', ''document_not_found'',
     ''rate_limited'', ''audit_log_unavailable'', ''no_sources_available'', ''budget_exceeded'',
     ''internal_error'', ''empty_input'', ''filter_too_large'', ''unknown_pipeline_step'', ''step_timeout'']"

definition answer_event_types :: "string list" where
  "answer_event_types =
     [''token'', ''citation'', ''done'', ''error'']"

definition research_event_types :: "string list" where
  "research_event_types =
     [''plan_updated'', ''step_started'', ''step_completed'', ''citation'', ''report_chunk'', ''done'',
     ''error'']"

definition openapi_spec :: json where
  "openapi_spec = JObj
     [(''openapi'', JStr ''3.1.0''),
      (''info'', JObj [(''title'', JStr ''Agentic Research Search Engine''), (''version'', JStr ''0.1.0''),
         (''description'', JStr ''API-first multi-tenant SaaS for agentic deep research with neural, keyword, and hybrid search.'')]),
      (''servers'', JList [JObj [(''url'', JStr ''/v1''), (''description'', JStr ''API v1'')]]),
      (''security'', JList [JObj [(''BearerAuth'', JList [])]]),
      (''components'', JObj
         [(''securitySchemes'', JObj [(''BearerAuth'', typed ''http''
             [(''scheme'', JStr ''bearer''), (''description'', JStr ''Tenant-scoped API key (R13)'')])]),
          (''schemas'', JObj doc_schemas), (''responses'', JObj doc_responses)]),
      (''paths'', JObj (map (\<lambda>(p, ms). (p, JObj ms)) doc_paths))]"

section \<open>Its references and operations\<close>

fun json_refs :: "json \<Rightarrow> string list" and list_refs :: "json list \<Rightarrow> string list" and field_refs :: "(string \<times> json) list \<Rightarrow> string list" where
  "json_refs (JList js) = list_refs js"
| "json_refs (JObj fs) = field_refs fs"
| "json_refs j = []"
| "list_refs [] = []"
| "list_refs (j # js) = json_refs j @ list_refs js"
| "field_refs [] = []"
| "field_refs ((k, j) # fs) = (case j of JStr r \<Rightarrow> if k = ''$ref'' then [r] else [] | _ \<Rightarrow> json_refs j) @ field_refs fs"

definition component_names :: "string list" where
  "component_names = map (\<lambda>(n, s). ''#/components/schemas/'' @ n) doc_schemas @ map (\<lambda>(n, s). ''#/components/responses/'' @ n) doc_responses"

definition wire_verb :: "string \<Rightarrow> string" where
  "wire_verb m = (if m = ''post'' then ''POST'' else if m = ''get'' then ''GET'' else ''DELETE'')"

definition operations :: "(string \<times> string) list" where
  "operations = concat (map (\<lambda>(p, ms). map (\<lambda>(m, d). (wire_verb m, p)) ms) doc_paths)"

text \<open>A path of the document with its parameters filled in.\<close>

definition filled :: "string \<Rightarrow> string" where
  "filled p = ''/v1'' @ join ''/'' (map (\<lambda>s. if starts_with s ''{'' then ''x'' else s) (split_on CHR ''/'' p))"

definition unrouted :: "(string \<times> string) list" where
  "unrouted = filter (\<lambda>(v, p). route v (filled p) [] None \<in> {NoRoute, WrongMethod}) operations"

lemmas spec_defs = str_list_def schema_ref_def response_ref_def json_content_def typed_def

lemma references_resolve: "set (json_refs openapi_spec) \<subseteq> set component_names"
  by code_simp

text \<open>
  Every documented operation is served by the router, except the deletion of a pipeline, and the document
  itself, which the application answers before the router.
\<close>

lemma operations_routed: "unrouted = [(''DELETE'', ''/pipelines/{pipeline_id}''), (''GET'', ''/openapi.json'')]"
  by code_simp

text \<open>And every operation of the router is documented, except indexing.\<close>

lemma post_operations: "post_route name accept body \<noteq> NoRoute \<Longrightarrow> name = ''index'' \<or> (''POST'', CHR ''/'' # name) \<in> set operations"
proof -
  assume "post_route name accept body \<noteq> NoRoute"
  then have "name \<in> set [''index'', ''search'', ''find_similar'', ''contents'', ''answer'', ''research'', ''sessions'', ''pipelines'']"
    by (auto simp: post_route_def split: if_splits)
  moreover have "list_all (\<lambda>n. n = ''index'' \<or> (''POST'', CHR ''/'' # n) \<in> set operations)
      [''index'', ''search'', ''find_similar'', ''contents'', ''answer'', ''research'', ''sessions'', ''pipelines'']" by code_simp
  ultimately show ?thesis unfolding list_all_iff by blast
qed

lemma documented_codes: "doc_error_codes = all_error_codes"
  by (simp add: doc_error_codes_def all_error_codes_def)

section \<open>What the schemas say\<close>

lemma conforms_doc_object:
  "conforms (typed ''object'' [(''required'', str_list ks), (''properties'', JObj ps)]) (JObj d) \<longleftrightarrow>
     properties ps d \<and> list_all (\<lambda>k. dict_get d k \<noteq> None) ks"
  by (auto simp: typed_def keyword_ok_def type_object required_ok_def str_list_def list_all_iff)

lemma conforms_doc_optional:
  "conforms (typed ''object'' [(''properties'', JObj ps)]) (JObj d) \<longleftrightarrow> properties ps d"
  by (simp add: typed_def keyword_ok_def type_object)

lemma conforms_text:
  "conforms (typed ''string'' [(''minLength'', JInt lo), (''maxLength'', JInt hi)]) v
     \<longleftrightarrow> (\<exists>s. v = JStr s \<and> lo \<le> int (length s) \<and> int (length s) \<le> hi)"
  using conforms_bounded [of lo hi v] by (simp add: bounded_string_def)

lemma conforms_annotated:
  "conforms (typed ''string'' [(''format'', x)]) v \<longleftrightarrow> (\<exists>s. v = JStr s)"
  "conforms (typed ''string'' [(''description'', x)]) v \<longleftrightarrow> (\<exists>s. v = JStr s)"
  "conforms (typed ''boolean'' [(''default'', x)]) v \<longleftrightarrow> (\<exists>b. v = JBool b)"
  "conforms (typed ''object'' [(''description'', x)]) v \<longleftrightarrow> (\<exists>d. v = JObj d)"
  by (cases v; simp add: typed_def keyword_ok_def type_ok_def has_type_def)+

lemma conforms_modes:
  "conforms (typed ''string'' [(''enum'', str_list [''neural'', ''keyword'', ''hybrid''])]) v \<longleftrightarrow> (\<exists>s. v = JStr s \<and> s \<in> set valid_search_modes)"
  by (auto simp: typed_def keyword_ok_def type_string valid_search_modes_def str_list_def)

lemma conforms_range:
  "conforms (typed ''integer'' [(''minimum'', JInt lo), (''maximum'', JInt hi), (''default'', x)]) (JInt i) \<longleftrightarrow> lo \<le> i \<and> i \<le> hi"
  "conforms (typed ''integer'' [(''minimum'', JInt lo)]) (JInt i) \<longleftrightarrow> lo \<le> i"
  by (simp_all add: typed_def keyword_ok_def type_ok_def has_type_def bound_ok_def json_number_def)

lemma conforms_integer_cases:
  "conforms (typed ''integer'' rest) v \<Longrightarrow> (\<exists>i. v = JInt i) \<or> (\<exists>x. v = JReal x)"
  by (cases v) (simp_all add: typed_def keyword_ok_def type_ok_def has_type_def)

lemma conforms_share:
  "conforms (typed ''number'' [(''minimum'', JReal 0), (''maximum'', JReal 1)]) v \<longleftrightarrow> (\<exists>x. as_float v = Some x \<and> 0 \<le> x \<and> x \<le> 1)"
  by (cases v) (simp_all add: typed_def keyword_ok_def type_ok_def has_type_def bound_ok_def json_number_def as_float_def)

lemma properties_field:
  "properties ((p, s) # ps) d \<longleftrightarrow> (\<forall>v. dict_get d p = Some v \<longrightarrow> conforms s v) \<and> properties ps d"
  by (simp split: option.split)

section \<open>Documented bodies decode\<close>

text \<open>
  JSON Schema calls \<open>10.0\<close> an integer; the model of the request models reads the integers that are
  written as such.
\<close>

definition integer_fields :: "string list" where
  "integer_fields = [''num_results'', ''max_steps'', ''max_duration_ms'', ''max_tool_calls'', ''retention_days'']"

definition whole_numbers :: "(string, json) dict \<Rightarrow> bool" where
  "whole_numbers d = list_all (\<lambda>k. case dict_get d k of Some (JReal x) \<Rightarrow> False | _ \<Rightarrow> True) integer_fields"

lemma whole_number: "whole_numbers d \<Longrightarrow> k \<in> set integer_fields \<Longrightarrow> dict_get d k \<noteq> Some (JReal x)"
  by (auto simp: whole_numbers_def list_all_iff)

lemma text_field: "\<forall>v. dict_get d k = Some v \<longrightarrow> (\<exists>s. v = JStr s) \<Longrightarrow> \<exists>x. optional as_str d k = Some x"
  by (cases "dict_get d k") (auto simp: optional_def field_or_def nullable_def as_str_def)

lemma flag_field: "\<forall>v. dict_get d k = Some v \<longrightarrow> (\<exists>b. v = JBool b) \<Longrightarrow> \<exists>x. optional as_bool d k = Some x"
  by (cases "dict_get d k") (auto simp: optional_def field_or_def nullable_def as_bool_def)

lemma object_field: "\<forall>v. dict_get d k = Some v \<longrightarrow> (\<exists>o'. v = JObj o') \<Longrightarrow> \<exists>x. optional as_dict d k = Some x"
  by (cases "dict_get d k") (auto simp: optional_def field_or_def nullable_def as_dict_def)

lemma share_field:
  "\<forall>v. dict_get d k = Some v \<longrightarrow> (\<exists>x. as_float v = Some x \<and> 0 \<le> x \<and> x \<le> 1) \<Longrightarrow>
   \<exists>x. optional as_float d k = Some x \<and> validate_threshold name x = None"
proof (cases "dict_get d k")
  case (Some v)
  moreover assume "\<forall>v. dict_get d k = Some v \<longrightarrow> (\<exists>x. as_float v = Some x \<and> 0 \<le> x \<and> x \<le> 1)"
  ultimately obtain x where "as_float v = Some x" "0 \<le> x" "x \<le> 1" by blast
  with Some show ?thesis
    by (cases v) (auto simp: optional_def field_or_def nullable_def validate_threshold_def as_float_def)
qed (simp add: optional_def field_or_def validate_threshold_def)

lemma count_field:
  assumes c: "\<forall>v. dict_get d k = Some v \<longrightarrow> conforms (typed ''integer'' [(''minimum'', JInt lo), (''maximum'', JInt hi), (''default'', x)]) v"
    and r: "\<forall>y. dict_get d k \<noteq> Some (JReal y)" and n: "lo \<le> n" "n \<le> hi"
  shows "\<exists>i. field_or as_int n d k = Some i \<and> lo \<le> i \<and> i \<le> hi"
proof (cases "dict_get d k")
  case None
  with n show ?thesis by (simp add: field_or_def)
next
  case (Some v)
  with c r obtain i where "v = JInt i" using conforms_integer_cases by blast
  with Some c show ?thesis by (simp add: field_or_def as_int_def conforms_range)
qed

lemma budget_field:
  "\<forall>v. dict_get d k = Some v \<longrightarrow> conforms (typed ''integer'' [(''minimum'', JInt lo)]) v \<Longrightarrow>
   \<forall>y. dict_get d k \<noteq> Some (JReal y) \<Longrightarrow> \<exists>x. optional as_int d k = Some x"
  by (cases "dict_get d k") (auto simp: optional_def field_or_def nullable_def as_int_def dest!: conforms_integer_cases)

lemmas doc_conforms = conforms_doc_object conforms_doc_optional properties_field conforms_text conforms_modes conforms_string
  conforms_annotated conforms_share

lemma documented_search:
  assumes "conforms doc_search_request (JObj d)" and "whole_numbers d"
  shows "\<exists>b. post_route ''search'' accept (Some (JObj d)) = Routed (SearchReq b)
    \<and> (search_request_errors b = None \<longleftrightarrow> py_strip (sb_query b) \<noteq> [])"
proof -
  from assms(1) obtain q m where q: "dict_get d ''query'' = Some (JStr q)" "1 \<le> length q" "length q \<le> 2048"
    and m: "dict_get d ''mode'' = Some (JStr m)" "m \<in> set valid_search_modes"
    unfolding doc_search_request_def doc_conforms by auto
  from assms(1) have t: "\<exists>x. optional as_str d ''filters'' = Some x" "\<exists>x. optional as_str d ''pipeline_id'' = Some x"
    unfolding doc_search_request_def doc_conforms by (simp_all add: text_field)
  from assms(1) have s: "\<exists>x. optional as_float d ''min_credibility'' = Some x \<and> validate_threshold ''min_credibility'' x = None"
    "\<exists>x. optional as_float d ''max_ai_generated_likelihood'' = Some x \<and> validate_threshold ''max_ai_generated_likelihood'' x = None"
    unfolding doc_search_request_def doc_conforms by (simp_all add: share_field)
  have "\<forall>y. dict_get d ''num_results'' \<noteq> Some (JReal y)" using whole_number [OF assms(2)] by (simp add: integer_fields_def)
  moreover from assms(1) have "\<forall>v. dict_get d ''num_results'' = Some v \<longrightarrow>
      conforms (typed ''integer'' [(''minimum'', JInt 0), (''maximum'', JInt 100), (''default'', JInt 10)]) v"
    unfolding doc_search_request_def doc_conforms by blast
  ultimately obtain i where i: "field_or as_int 10 d ''num_results'' = Some i" "0 \<le> i" "i \<le> 100"
    using count_field [of d "''num_results''" 0 100 "JInt 10" 10] by auto
  have "field_or as_str ''hybrid'' d ''mode'' = Some m" "field as_str d ''query'' = Some q"
    using q m by (simp_all add: field_or_def field_def as_str_def)
  with t s i obtain b where b: "decode_search d = Some (SearchReq b)" "sb_query b = q" "sb_mode b = m" "sb_num_results b = i"
    "validate_threshold ''min_credibility'' (sb_min_credibility b) = None"
    "validate_threshold ''max_ai_generated_likelihood'' (sb_max_ai b) = None"
    by (auto simp: decode_search_def)
  moreover have "validate_mode m = None" "validate_num_results i = None"
    using m(2) i by (simp_all add: validate_mode_def validate_num_results_def)
  moreover have "validate_query q = None \<longleftrightarrow> py_strip q \<noteq> []" using q(3) by (simp add: validate_query_def query_max_def)
  ultimately show ?thesis
    by (cases "validate_query q") (auto simp: post_route_def with_body_def search_request_errors_def)
qed

lemma conforms_items:
  "conforms (typed ''array'' [(''items'', c), (''minItems'', JInt lo), (''maxItems'', JInt hi)]) v
     \<longleftrightarrow> (\<exists>vs. v = JList vs \<and> list_all (conforms c) vs \<and> lo \<le> int (length vs) \<and> int (length vs) \<le> hi)"
proof (cases v)
  case (JList vs)
  have "(rat_of_int i \<le> rat_of_nat n) = (i \<le> int n)" "(rat_of_nat n \<le> rat_of_int i) = (int n \<le> i)" for i n
    using of_int_le_iff [of i "int n", where ?'a = rat] of_int_le_iff [of "int n" i, where ?'a = rat] by simp_all
  with JList show ?thesis
    by (simp add: typed_def keyword_ok_def type_ok_def has_type_def bound_ok_def json_number_def json_length_def)
qed (simp_all add: typed_def keyword_ok_def type_ok_def has_type_def)

lemma documented_contents:
  assumes "conforms doc_contents_request (JObj d)"
  shows "\<exists>b. post_route ''contents'' accept (Some (JObj d)) = Routed (ContentsReq b)
    \<and> contents_request_errors b = validate_contents_request b"
proof -
  from assms have f: "\<exists>x. optional as_bool d ''highlights'' = Some x" "\<exists>x. optional as_str d ''query'' = Some x"
    "\<exists>x. optional as_bool d ''summary'' = Some x"
    unfolding doc_contents_request_def doc_conforms by (simp_all add: text_field flag_field)
  from assms obtain v where v: "dict_get d ''document_ids'' = Some v"
    and c: "conforms (typed ''array'' [(''items'', typed ''string'' [(''format'', JStr ''uuid'')]), (''minItems'', JInt 1), (''maxItems'', JInt 100)]) v"
    unfolding doc_contents_request_def doc_conforms by auto
  from c obtain vs where vs: "v = JList vs" "list_all (\<lambda>x. \<exists>s. x = JStr s) vs" "1 \<le> length vs" "length vs \<le> 100"
    unfolding conforms_items by (auto simp: list_all_iff conforms_annotated)
  from vs(2) have "\<exists>ids. as_list as_str vs = Some ids \<and> length ids = length vs"
    by (induction vs) (auto simp: as_str_def)
  then obtain ids where ids: "as_list as_str vs = Some ids" "length ids = length vs" by blast
  from f v vs(1) ids obtain b where b: "decode_contents d = Some (ContentsReq b)" "cb_document_ids b = ids"
    by (auto simp: decode_contents_def field_def strings_def)
  have "validate_document_ids ids = None" using vs(3,4) ids(2) by (auto simp: validate_document_ids_def)
  with b show ?thesis
    by (cases "validate_contents_request b") (auto simp: post_route_def with_body_def contents_request_errors_def)
qed

lemma documented_answer:
  assumes "conforms doc_answer_request (JObj d)"
  shows "\<exists>q. post_route ''answer'' accept (Some (JObj d)) = Routed (AnswerReq accept q) \<and> q \<noteq> []"
proof -
  from assms obtain q where q: "dict_get d ''query'' = Some (JStr q)" "1 \<le> length q"
    unfolding doc_answer_request_def doc_conforms by auto
  from assms have "\<forall>v. dict_get d ''stream'' = Some v \<longrightarrow> (\<exists>b. v = JBool b)"
    and "\<exists>x. optional as_str d ''session_id'' = Some x"
    unfolding doc_answer_request_def doc_conforms by (simp_all add: text_field)
  moreover from this(1) have "\<exists>x. field_or as_bool True d ''stream'' = Some x"
    by (cases "dict_get d ''stream''") (auto simp: field_or_def as_bool_def)
  ultimately have "decode_answer accept d = Some (AnswerReq accept q)"
    using q(1) by (auto simp: decode_answer_def field_def as_str_def)
  with q(2) show ?thesis by (auto simp: post_route_def with_body_def)
qed

lemma documented_research:
  assumes "conforms doc_research_request (JObj d)" and "whole_numbers d"
  shows "\<exists>b. post_route ''research'' accept (Some (JObj d)) = Routed (ResearchReq b)
    \<and> (research_request_errors b = None \<longleftrightarrow> py_strip (ab_goal b) \<noteq> [])"
proof -
  from assms(1) obtain g where g: "dict_get d ''research_goal'' = Some (JStr g)" "length g \<le> 4096"
    unfolding doc_research_request_def doc_conforms by auto
  from assms(1) have t: "\<exists>x. optional as_dict d ''output_schema'' = Some x" "\<exists>x. optional as_str d ''session_id'' = Some x"
    unfolding doc_research_request_def doc_conforms by (simp_all add: text_field object_field)
  have w: "\<forall>y. dict_get d k \<noteq> Some (JReal y)" if "k \<in> set integer_fields" for k using whole_number [OF assms(2) that] by blast
  from assms(1) have c: "\<forall>v. dict_get d ''max_steps'' = Some v \<longrightarrow> conforms (typed ''integer'' [(''minimum'', JInt 1)]) v"
    "\<forall>v. dict_get d ''max_duration_ms'' = Some v \<longrightarrow> conforms (typed ''integer'' [(''minimum'', JInt 1000)]) v"
    "\<forall>v. dict_get d ''max_tool_calls'' = Some v \<longrightarrow> conforms (typed ''integer'' [(''minimum'', JInt 1)]) v"
    unfolding doc_research_request_def doc_conforms by blast+
  have "\<exists>x. optional as_int d ''max_steps'' = Some x" "\<exists>x. optional as_int d ''max_duration_ms'' = Some x"
    "\<exists>x. optional as_int d ''max_tool_calls'' = Some x"
    using w by (auto intro!: budget_field [OF c(1)] budget_field [OF c(2)] budget_field [OF c(3)] simp: integer_fields_def)
  with t g obtain b where b: "decode_research d = Some (ResearchReq b)" "ab_goal b = g"
    by (auto simp: decode_research_def field_def as_str_def)
  then show ?thesis using g(2)
    by (auto simp: post_route_def with_body_def research_request_errors_def validate_research_goal_def goal_max_def)
qed

lemma documented_session:
  assumes "conforms doc_session_create_request (JObj d)" and "whole_numbers d"
  shows "\<exists>n. post_route ''sessions'' accept (Some (JObj d)) = Routed (SessionReq (Some n)) \<and> min_retention \<le> n \<and> n \<le> max_retention"
proof -
  have "\<forall>y. dict_get d ''retention_days'' \<noteq> Some (JReal y)" using whole_number [OF assms(2)] by (simp add: integer_fields_def)
  moreover from assms(1) have "\<forall>v. dict_get d ''retention_days'' = Some v \<longrightarrow>
      conforms (typed ''integer'' [(''minimum'', JInt 1), (''maximum'', JInt 90), (''default'', JInt 14)]) v"
    unfolding doc_session_create_request_def doc_conforms by blast
  ultimately obtain i where i: "field_or as_int 14 d ''retention_days'' = Some i" "1 \<le> i" "i \<le> 90"
    using count_field [of d "''retention_days''" 1 90 "JInt 14" 14] by auto
  then have "decode_session d = Some (SessionReq (Some i))"
    by (cases "dict_get d ''retention_days''") (auto simp: decode_session_def field_or_def nullable_def as_int_def split: json.splits)
  with i show ?thesis by (auto simp: post_route_def with_body_def min_retention_def max_retention_def)
qed

text \<open>The documented event types and stream errors are those of the model.\<close>

lemma documented_event_types:
  "sv_event (sse_answer_event i e) \<in> set answer_event_types"
  "event_type_value ty \<in> set research_event_types"
  by (simp_all add: sse_answer_event_def answer_event_types_def event_type_value_def research_event_types_def split: answer_event.split event_type.split)

lemma documented_stream_errors:
  "conforms doc_stream_error_event (JObj [(''code'', JStr (answer_error_value c)), (''message'', JStr m)])"
  unfolding doc_stream_error_event_def conforms_doc_object
  by (cases c) (auto simp: answer_error_value_def dict_get_def conforms_string typed_def keyword_ok_def type_ok_def has_type_def str_list_def)

section \<open>Properties\<close>


definition sample_request :: "(string, json) dict" where
  "sample_request = [(''query'', JStr ''a''), (''mode'', JStr ''keyword''), (''num_results'', JInt 100)]"


section \<open>Departures\<close>

text \<open>A documented step of a pipeline has a type and a \<open>registry_name\<close>; the request model wants a \<open>name\<close>.\<close>

lemma documented_step_refused:
  "conforms doc_pipeline_step (JObj [(''type'', JStr ''filter''), (''registry_name'', JStr ''dedup'')])"
  "post_route ''pipelines'' '''' (Some (JObj [(''name'', JStr ''p''),
     (''steps'', JList [JObj [(''type'', JStr ''filter''), (''registry_name'', JStr ''dedup'')]])])) = BadBody"
proof -
  show "conforms doc_pipeline_step (JObj [(''type'', JStr ''filter''), (''registry_name'', JStr ''dedup'')])"
    unfolding doc_pipeline_step_def conforms_doc_object properties_field
    by (auto simp: dict_get_def conforms_string typed_def keyword_ok_def type_ok_def has_type_def str_list_def)
  show "post_route ''pipelines'' '''' (Some (JObj [(''name'', JStr ''p''),
     (''steps'', JList [JObj [(''type'', JStr ''filter''), (''registry_name'', JStr ''dedup'')]])])) = BadBody"
    by (simp add: post_route_def with_body_def decode_pipeline_def field_def dict_get_def as_str_def steps_of_def decode_step_def as_dict_def)
qed

text \<open>Replies that miss what their schema requires: when a result was scored, when a session was created.\<close>

lemma provenance_not_documented: "\<not> conforms doc_provenance_info (provenance_json r)"
  unfolding doc_provenance_info_def provenance_json_def conforms_doc_object by (simp add: dict_get_def)

lemma session_not_documented:
  assumes "fst (post_session env g t tenant days) = Inr r" and "ap_status r = 201"
  shows "\<not> conforms doc_session (ap_body r)"
proof -
  obtain s where "ap_body r = JObj [(''session_id'', JStr (se_id s)), (''tenant_id'', JStr (se_tenant s)),
             (''retention_days'', JInt (se_retention s)), (''expires_at'', JStr (ge_isoformat env (expires_at s)))]"
    using assms by (auto simp: post_session_def error_response_def json_response_def split: prod.splits sum.splits)
  then show ?thesis unfolding doc_session_def by (simp only: conforms_doc_object) (simp add: dict_get_def)
qed

text \<open>Refused requests are answered with 422; the document knows 400 and no 422.\<close>

definition obj_get_responses :: "json \<Rightarrow> (string, json) dict option" where
  "obj_get_responses j = (case j of JObj d \<Rightarrow> (case dict_get d ''responses'' of Some (JObj rs) \<Rightarrow> Some rs | _ \<Rightarrow> None) | _ \<Rightarrow> None)"

lemma undocumented_status:
  "search_request_errors b = Some e \<Longrightarrow> fst (post_search env g t tenant b) = Inr (validation_response 422 e)"
  "list_all (\<lambda>(p, ms). list_all (\<lambda>(m, d). case obj_get_responses d of Some rs \<Rightarrow> ''422'' \<notin> fst ` set rs | None \<Rightarrow> True) ms) doc_paths"
  by (simp add: post_search_def) code_simp

end
