(* ===== verification/Spec2Isabelle.thy ===== *)
theory Spec2Isabelle
  imports Auth RateLimiter Metering AuditLog AuditDeletion SessionStore ResearchEvents ResearchAgent QueryRoundTrip Crawler Retriever
    Pipeline Pii Answer Contents Provenance AnswerRoutes IndexRoutes Sdk App McpServer WebSocket ObjectStore Persistence SearchCluster
    Embeddings Observability OpenApi
begin

text \<open>
  Verification of the verisearch backend: a multi-tenant search and research service in Python
  (\<open>backend/\<close>) and its Python client (\<open>sdks/python/\<close>).  Paths below are relative to the root of the
  repository, and to \<open>backend/\<close> where that is clear.

  \<^bold>\<open>The program.\<close>  A request enters \<open>api_gateway/app.py\<close>, passes the middleware (request id, authentication,
  rate limit, redaction, error handling) and reaches a handler of \<open>api_gateway/routes.py\<close> or an agent tool of
  \<open>mcp_sse.py\<close>.  The handlers call the services of one process: the indexer with its document store and
  indexes, the retriever with its cache, the pipeline engine, the answer engine, the research agent, the
  session store.  Crawler, ingestion, provenance scoring and PII redaction work in front of and behind the
  indexer.  Authentication, the audit log and metering keep their data in PostgreSQL, the limiter in Redis.

  \<^bold>\<open>Theories.\<close>  Definitions keep the names of the source in snake case; classes are records, their methods
  functions that take and return the record, enumerations are datatypes.
  \<^item> Shared: \<open>Prelude\<close> (dictionaries in insertion order, bounded deques, times, JSON values), \<open>PyStr\<close> (Python's
    string operations), \<open>Interfaces\<close> (the locales below).
  \<^item> Access: \<open>Auth\<close> (\<open>auth/service.py\<close>, \<open>key_management.py\<close>, \<open>middleware/auth.py\<close>), \<open>RateLimiter\<close>
    (\<open>rate_limiter/token_bucket.py\<close> with its Lua script, \<open>middleware/rate_limit.py\<close>), \<open>Metering\<close>
    (\<open>rate_limiter/metering.py\<close>, \<open>metering_buffer.py\<close>), \<open>AuditLog\<close> and \<open>AuditDeletion\<close> (\<open>audit_log/\<close>).
  \<^item> Filters: \<open>QueryAst\<close>, \<open>QueryParser\<close>, \<open>QueryRoundTrip\<close> (\<open>query_filter/\<close>).
  \<^item> Crawling and indexing: \<open>Urls\<close>, \<open>Robots\<close>, \<open>Throttle\<close>, \<open>Crawler\<close> (\<open>crawler/\<close>), \<open>Indexer\<close>, \<open>Ingest\<close>, \<open>Embeddings\<close>
    (\<open>indexer/\<close>), \<open>Provenance\<close> (\<open>provenance_scorer/\<close>), \<open>Pii\<close> (\<open>pii_redactor/\<close>), \<open>ObjectStore\<close> (\<open>storage/\<close>).
  \<^item> Retrieval: \<open>Ranking\<close>, \<open>Retriever\<close>, \<open>OpenSearch\<close> (\<open>retriever/\<close>), \<open>SearchCluster\<close>
    (the indexer and the retriever over one cluster), \<open>Pipeline\<close> (\<open>pipeline_engine/\<close>).
  \<^item> Answers: \<open>Answer\<close>, \<open>Highlights\<close> (\<open>answer_engine/\<close>), \<open>Contents\<close> (\<open>api_gateway/contents.py\<close>), \<open>Sse\<close>
    (\<open>api_gateway/sse.py\<close> and the parser of the client), \<open>WebSocket\<close> (\<open>api_gateway/websocket.py\<close>).
  \<^item> Research: \<open>ResearchEvents\<close>, \<open>ResearchAgent\<close> (\<open>research_agent/\<close>), \<open>SessionStore\<close> (\<open>session_store/\<close>).
  \<^item> The API: \<open>Validation\<close> (\<open>validation.py\<close>, \<open>errors.py\<close>), \<open>Gateway\<close> (the handlers over the services of a process),
    \<open>AnswerRoutes\<close> and \<open>IndexRoutes\<close> (two endpoints end to end), \<open>Http\<close> (request models and router),
    \<open>McpRoutes\<close> (agent tools), \<open>App\<close> (middleware and application), \<open>McpServer\<close> (\<open>mcp_server/\<close>), \<open>Sdk\<close> (the client over
    the wire), \<open>OpenApi\<close> (\<open>openapi_spec.py\<close>), \<open>Persistence\<close> (\<open>persistence.py\<close> against the migrations),
    \<open>Observability\<close> (\<open>observability/\<close>).

  \<^bold>\<open>Interfaces.\<close>  Contracts that several components rely on are locales of \<open>Interfaces\<close>, interpreted on the
  definitions of the component that provides them: \<open>tenant_scoped\<close> (sessions as \<open>sess\<close>, research jobs as \<open>jobs\<close>,
  pipelines as \<open>pipelines\<close>), \<open>ttl_cache\<close> (\<open>keys\<close> of \<open>Auth\<close>, \<open>robots\<close> of \<open>Crawler\<close>, \<open>warm\<close> of \<open>Retriever\<close>), \<open>audit_sink\<close>
  (\<open>trail\<close>, \<open>appended\<close>, \<open>memory\<close> of \<open>AuditLog\<close>), \<open>simulation\<close> (\<open>store\<close> of \<open>Indexer\<close>, \<open>fallback\<close> and \<open>postgres\<close> of
  \<open>Persistence\<close>).

  \<^bold>\<open>What is shown.\<close>  In each theory the lemmas after the definitions give the behaviour of every operation on
  its branches; the numbered properties rest on them.
  \<^item> Of the whole process, over any sequence of requests: only requests with a valid, recently read key and a
    token of the limiter have an effect; tenants do not interfere; every reply and every error is uniform.
  \<^item> Invariants of histories: the numbered event stream of a research job, the ring buffers of a session,
    indexes that hold exactly the visible versions, the scoring gate, the slots of the throttle.
  \<^item> Refinements and equivalences: the document store is a map of histories, the database and the fallback
    of the repositories are interchangeable, a pipeline is the composition of its steps, the robots.txt
    decision is that of a reference matcher, the stream and the JSON form of an answer agree.
  \<^item> Bounds and termination: the window bound of the limiter, budgets of jobs, limits of filters, the end of
    highlight scanning, of a WebSocket session and of paged deletion.
  \<^item> Round trips: filters through printer and parser, answer events through the wire, cleaned text through
    the object store, searches through the client.
  \<^item> Exactly-once, at-least-once and audit: metering after outages, ingestion, audited actions, deletion under
    a legal hold.
  Sections named "Departures" prove behaviour that differs from what a comment, a document or a test says.

  \<^bold>\<open>Concurrency.\<close>  The code between two awaits of a coroutine runs without interruption.  The throttle, the
  WebSocket session, the metering buffer and the sessions are modelled with their interleavings, as steps of
  a relation or as interleaved histories of operations; the handlers of the gateway, which await nothing but
  their own services, run one after another.

  \<^bold>\<open>Fuel and bounds.\<close>  The filter parser is given \<open>6 * length s + 6\<close> units, which is shown to be enough; its list
  of values \<open>Suc (length s)\<close>, the digits of a printed number 400 places, the regular expressions of the
  redactor as many repetitions and start positions as there are characters.  The highlight loops are
  \<open>while_option\<close> and the deletion of pages is a partial function: that they return is a theorem.  A run of a
  WebSocket session with \<open>n\<close> events has at most \<open>3 * n + 3\<close> effective actions.

  \<^bold>\<open>Assumptions.\<close>  Floats are exact rationals, and \<open>nan\<close> and the infinities do not occur.  Characters are those
  below 256.  Python's limit on recursion is not reached.  Clock readings, fresh identifiers and durations
  are arguments, and so is what lies outside the repository: hashes and Argon2, \<open>json\<close> where its text matters,
  HTML entities, the embedding where it is used and the logarithm, language models, the database server
  where a statement may fail, Redis beyond the commands used, the message broker, S3, OpenSearch, the HTTP
  transport, the bodies the web framework makes, JSON Schema validation.  What a theorem needs of them is a
  hypothesis of that theorem, and its witness names an instance that satisfies it.

  \<^bold>\<open>Not modelled.\<close>  Configuration values (\<open>config/\<close>) other than the constants the code uses; the set-up of log
  handlers, exporters and servers; PostgreSQL triggers and row-level security of the migrations; the
  TypeScript client; deployment files and scripts; the modules that only re-export names.
  Of modelled modules: timestamps and statistics that nothing reads, texts of log messages, and what the
  dynamically typed code does with values of types its annotations exclude, unless a request can bring them.
\<close>

end
